(* ===== verification/Prelude.thy ===== *)
theory Prelude
  imports Main "HOL-Library.Monad_Syntax" "HOL-Library.Word" "HOL-Library.Sublist"
begin

text \<open>
  Shared ground of the development: the C integer types the server uses, the collections of
  rewrite rules the component theories fill, and generic lemmas on lists, options and
  characters.

  \<^item> \<open>Num\<close> (\<^verbatim>\<open>int64_t\<close>) and \<open>Objid\<close> are \<open>int\<close>; arithmetic that can leave the
    range is written with \<open>wrap64\<close>, and a \<open>Num\<close> passed to a C \<^verbatim>\<open>int\<close> parameter is
    narrowed with \<open>wrap32\<close>.
  \<^item> A C string is a \<open>string\<close> (a list of bytes). The bytes a C function sees are those up
    to the first NUL, \<open>cstr\<close>; the end of the list stands for the terminating NUL, so reading
    the current byte is \<open>hd0\<close>.
  \<^item> A call that panics, dereferences an invalid object or never returns is \<open>None\<close>.
\<close>

named_theorems moo_simps \<open>rewrite rules of the model shared by the component proofs\<close>
named_theorems wf_intros \<open>preservation of the well-formedness invariants\<close>

type_synonym Num = int
type_synonym Objid = int

section \<open>Fixed-width integers\<close>

definition wrap64 :: "int \<Rightarrow> int" where
  "wrap64 x = (x + 2 ^ 63) mod 2 ^ 64 - 2 ^ 63"

definition wrap32 :: "int \<Rightarrow> int" where
  "wrap32 x = (x + 2 ^ 31) mod 2 ^ 32 - 2 ^ 31"

definition num_range :: "int \<Rightarrow> bool" where
  "num_range x \<longleftrightarrow> - (2 ^ 63) \<le> x \<and> x < 2 ^ 63"

definition int_range :: "int \<Rightarrow> bool" where
  "int_range x \<longleftrightarrow> - (2 ^ 31) \<le> x \<and> x < 2 ^ 31"

lemma wrap64_range [simp]: "num_range (wrap64 x)"
  by (simp add: num_range_def wrap64_def)

lemma wrap64_id: "num_range x \<Longrightarrow> wrap64 x = x"
  by (simp add: num_range_def wrap64_def)

lemma wrap32_id: "int_range x \<Longrightarrow> wrap32 x = x"
  by (simp add: int_range_def wrap32_def)

lemma wrap64_mod: "wrap64 x mod 2 ^ 64 = x mod 2 ^ 64"
  unfolding wrap64_def by (simp add: mod_diff_left_eq)

lemma wrap64_cong: "x mod 2 ^ 64 = y mod 2 ^ 64 \<Longrightarrow> wrap64 x = wrap64 y"
  unfolding wrap64_def by (metis mod_add_left_eq)

lemma wrap64_wrap64 [simp]: "wrap64 (wrap64 x) = wrap64 x"
  by (simp add: wrap64_id)

lemma wrap64_mult_left [simp]: "wrap64 (wrap64 x * y) = wrap64 (x * y)"
  by (rule wrap64_cong) (metis mod_mult_left_eq wrap64_mod)

lemma wrap64_mult_right [simp]: "wrap64 (x * wrap64 y) = wrap64 (x * y)"
  by (metis mult.commute wrap64_mult_left)

lemma nat_int_simps [simp]:
  "nat (int a - int b) = a - b" "nat (int a - 1) = a - 1" "nat (1 + int a) = Suc a"
  "nat (int a + 1) = Suc a"
  by auto

section \<open>Bytes and C strings\<close>

abbreviation NUL :: char where
  "NUL \<equiv> CHR 0x00"

abbreviation byte :: "char \<Rightarrow> int" where
  "byte c \<equiv> of_char c"

lemma byte_bounds [simp]: "0 \<le> byte c" "byte c < 256"
  by (simp_all add: of_char_def)

lemma byte_inject [simp]: "byte a = byte b \<longleftrightarrow> a = b"
  by (metis char_of_char)

lemma byte_eq_0 [simp]: "byte c = 0 \<longleftrightarrow> c = NUL"
  using byte_inject [of c NUL] by (simp del: byte_inject)

definition hd0 :: "string \<Rightarrow> char" where
  "hd0 s = (case s of [] \<Rightarrow> NUL | c # _ \<Rightarrow> c)"

lemma hd0_simps [simp]: "hd0 [] = NUL" "hd0 (c # s) = c"
  by (simp_all add: hd0_def)

definition cstr :: "string \<Rightarrow> string" where
  "cstr s = takeWhile (\<lambda>c. c \<noteq> NUL) s"

lemma cstr_simps [simp]: "cstr [] = []" "cstr (c # s) = (if c = NUL then [] else c # cstr s)"
  by (simp_all add: cstr_def)

lemma cstr_cstr [simp]: "cstr (cstr s) = cstr s"
  by (induction s) auto

lemma cstr_id: "NUL \<notin> set s \<Longrightarrow> cstr s = s"
  by (induction s) auto

lemma NUL_notin_cstr [simp]: "NUL \<notin> set (cstr s)"
  by (induction s) auto

section \<open>Options as the effect of a call\<close>

lemma bind_Some_conv [moo_simps]:
  "Option.bind m f = Some y \<longleftrightarrow> (\<exists>x. m = Some x \<and> f x = Some y)"
  by (cases m) auto

lemma option_bind_cong_Some: "m = Some x \<Longrightarrow> Option.bind m f = f x"
  by simp

section \<open>Lists\<close>

lemma take_drop_insert_length:
  "i \<le> length xs \<Longrightarrow> length (take i xs @ x # drop i xs) = Suc (length xs)"
  by simp

end
