(* ===== verification/Structures.thy ===== *)
theory Structures
  imports Prelude
begin

text \<open>
  The data model of \<^verbatim>\<open>structures.h\<close>: the error codes, the tagged union \<^verbatim>\<open>Var\<close>, and the
  bit patterns of the C type \<^verbatim>\<open>double\<close> with the comparisons the server makes on them. A
  \<^verbatim>\<open>Var\<close> is a value: the reference counts that let the server share strings and lists are
  not part of the model, since no operation modelled here writes through a shared reference.
\<close>

unbundle bit_operations_syntax

abbreviation (input) SYSTEM_OBJECT :: Objid where "SYSTEM_OBJECT \<equiv> 0"
abbreviation (input) NOTHING :: Objid where "NOTHING \<equiv> - 1"
abbreviation (input) AMBIGUOUS :: Objid where "AMBIGUOUS \<equiv> - 2"
abbreviation (input) FAILED_MATCH :: Objid where "FAILED_MATCH \<equiv> - 3"

definition MAXINT :: Num where
  "MAXINT = 9223372036854775807"

datatype error =
    E_NONE | E_TYPE | E_DIV | E_PERM | E_PROPNF | E_VERBNF | E_VARNF | E_INVIND
  | E_RECMOVE | E_MAXREC | E_RANGE | E_ARGS | E_NACC | E_INVARG | E_QUOTA | E_FLOAT

text \<open>The position of an error in the C enumeration, which \<open>toint\<close> exposes.\<close>

fun error_number :: "error \<Rightarrow> Num" where
  "error_number E_NONE = 0"
| "error_number E_TYPE = 1"
| "error_number E_DIV = 2"
| "error_number E_PERM = 3"
| "error_number E_PROPNF = 4"
| "error_number E_VERBNF = 5"
| "error_number E_VARNF = 6"
| "error_number E_INVIND = 7"
| "error_number E_RECMOVE = 8"
| "error_number E_MAXREC = 9"
| "error_number E_RANGE = 10"
| "error_number E_ARGS = 11"
| "error_number E_NACC = 12"
| "error_number E_INVARG = 13"
| "error_number E_QUOTA = 14"
| "error_number E_FLOAT = 15"

section \<open>Doubles\<close>

text \<open>
  A \<^verbatim>\<open>double\<close> is its IEEE 754 bit pattern. The comparisons below are the language's
  \<^verbatim>\<open>==\<close> and \<^verbatim>\<open><\<close>: every comparison with a NaN is false, and the two zeros are equal.
\<close>

type_synonym double = "64 word"

definition dbl_magnitude :: "double \<Rightarrow> int" where
  "dbl_magnitude d = uint d mod 2 ^ 63"

definition dbl_nan :: "double \<Rightarrow> bool" where
  "dbl_nan d \<longleftrightarrow> dbl_magnitude d > 0x7FF0000000000000"

definition dbl_key :: "double \<Rightarrow> int" where
  "dbl_key d = (if uint d < 2 ^ 63 then dbl_magnitude d else - dbl_magnitude d)"

definition dbl_eq :: "double \<Rightarrow> double \<Rightarrow> bool" where
  "dbl_eq a b \<longleftrightarrow> \<not> dbl_nan a \<and> \<not> dbl_nan b \<and> dbl_key a = dbl_key b"

definition dbl_less :: "double \<Rightarrow> double \<Rightarrow> bool" where
  "dbl_less a b \<longleftrightarrow> \<not> dbl_nan a \<and> \<not> dbl_nan b \<and> dbl_key a < dbl_key b"

definition HUGE_VAL :: double where
  "HUGE_VAL = 0x7FF0000000000000"

definition NEG_HUGE_VAL :: double where
  "NEG_HUGE_VAL = 0xFFF0000000000000"

definition IS_REAL :: "double \<Rightarrow> bool" where
  "IS_REAL x \<longleftrightarrow> dbl_less NEG_HUGE_VAL x \<and> dbl_less x HUGE_VAL"

section \<open>Values\<close>

text \<open>A waif is shared: its address is its identity, its class and owner never change.\<close>

datatype waif = Waif (waif_address: nat) (waif_class: Objid) (waif_owner: Objid)

datatype Var =
    TYPE_INT Num
  | TYPE_OBJ Objid
  | TYPE_STR string
  | TYPE_ERR error
  | TYPE_LIST "Var list"
  | TYPE_CLEAR
  | TYPE_NONE
  | TYPE_CATCH Num
  | TYPE_FINALLY Num
  | TYPE_FLOAT double
  | TYPE_WAIF waif

text \<open>The tag alone, as \<^verbatim>\<open>lhs.type != rhs.type\<close> compares it, with the source's numbers.\<close>

fun var_type :: "Var \<Rightarrow> nat" where
  "var_type (TYPE_INT _) = 0"
| "var_type (TYPE_OBJ _) = 1"
| "var_type (TYPE_STR _) = 2 + 128"
| "var_type (TYPE_ERR _) = 3"
| "var_type (TYPE_LIST _) = 4 + 128"
| "var_type TYPE_CLEAR = 5"
| "var_type TYPE_NONE = 6"
| "var_type (TYPE_CATCH _) = 7"
| "var_type (TYPE_FINALLY _) = 8"
| "var_type (TYPE_FLOAT _) = 9"
| "var_type (TYPE_WAIF _) = 10 + 128"

text \<open>The package a built-in function returns: an error to raise, or a value.\<close>

type_synonym package = "error + Var"

abbreviation make_error_pack :: "error \<Rightarrow> package" where
  "make_error_pack \<equiv> Inl"

abbreviation make_var_pack :: "Var \<Rightarrow> package" where
  "make_var_pack \<equiv> Inr"

lemma dbl_eq_sym: "dbl_eq a b \<Longrightarrow> dbl_eq b a"
  by (auto simp: dbl_eq_def)

lemma dbl_eq_trans: "dbl_eq a b \<Longrightarrow> dbl_eq b c \<Longrightarrow> dbl_eq a c"
  by (auto simp: dbl_eq_def)

lemma dbl_magnitude_nonneg [simp]: "0 \<le> dbl_magnitude d"
  by (simp add: dbl_magnitude_def)

lemma IS_REAL_iff: "IS_REAL d \<longleftrightarrow> dbl_magnitude d < 0x7FF0000000000000"
proof -
  have "\<not> dbl_nan HUGE_VAL" "\<not> dbl_nan NEG_HUGE_VAL"
    "dbl_key HUGE_VAL = 0x7FF0000000000000" "dbl_key NEG_HUGE_VAL = - 0x7FF0000000000000"
    by (simp_all add: dbl_nan_def dbl_key_def dbl_magnitude_def HUGE_VAL_def NEG_HUGE_VAL_def)
  then have "IS_REAL d \<longleftrightarrow> \<not> dbl_nan d \<and> \<bar>dbl_key d\<bar> < 0x7FF0000000000000"
    by (auto simp: IS_REAL_def dbl_less_def)
  moreover have "\<bar>dbl_key d\<bar> = dbl_magnitude d"
    by (simp add: dbl_key_def)
  ultimately show ?thesis by (auto simp: dbl_nan_def)
qed

lemma IS_REAL_eq_refl: "IS_REAL d \<Longrightarrow> dbl_eq d d"
  by (simp add: IS_REAL_iff dbl_eq_def dbl_nan_def)

end
