(* ===== verification/Utf.thy ===== *)
theory Utf
  imports Structures
begin

text \<open>
  \<^verbatim>\<open>utf.c\<close>: reading and writing one UTF-8 character, and counting and skipping characters in
  a string. A position in a string is the list of bytes that follow it, so the pointer a C
  function advances is the second component of its result.

  The theorems: \<open>put_utf\<close> writes what \<open>get_utf\<close> reads back, for every code point; on a string
  of encoded code points \<open>strlen_utf\<close> and \<open>skip_utf\<close> count code points; \<open>get_utf\<close> always makes
  progress, on any bytes.
\<close>

unbundle bit_operations_syntax

abbreviation INVALID_RUNE :: int where
  "INVALID_RUNE \<equiv> 0xfffd"

section \<open>Decoding\<close>

text \<open>The macro \<^verbatim>\<open>GET_CONT\<close>, repeated: \<open>None\<close> is the jump to \<^verbatim>\<open>bad_cont\<close>, where the
  pointer stays on the byte that is not a continuation byte.\<close>

fun get_conts :: "nat \<Rightarrow> int \<Rightarrow> string \<Rightarrow> int option \<times> string" where
  "get_conts 0 v p = (Some v, p)"
| "get_conts (Suc k) v p =
     (let c = (byte (hd0 p) - 0x80) mod 256
      in if c > 0x3f then (None, p) else get_conts k (push_bit 6 v + c) (tl p))"

text \<open>The range checks that follow the continuation bytes of a sequence.\<close>

definition check_rune :: "(int \<Rightarrow> bool) \<Rightarrow> int option \<times> string \<Rightarrow> int \<times> string" where
  "check_rune bad r =
     (case r of
        (None, p) \<Rightarrow> (INVALID_RUNE, p)
      | (Some v, p) \<Rightarrow> (if bad v then INVALID_RUNE else v, p))"

definition get_utf :: "string \<Rightarrow> int \<times> string" where
  "get_utf s =
     (let c = byte (hd0 s); p = tl s
      in if c \<le> 0x7f then (c, p)
         else if c \<le> 0xbf then (INVALID_RUNE, p)
         else if c \<le> 0xdf then
           check_rune (\<lambda>v. v \<le> 0x7f) (get_conts 1 (c AND 0x1f) p)
         else if c \<le> 0xef then
           check_rune (\<lambda>v. v \<le> 0x7ff \<or> v \<ge> 0xd800 \<and> v \<le> 0xdfff) (get_conts 2 (c AND 0x0f) p)
         else if c \<le> 0xf7 then
           check_rune (\<lambda>v. v \<le> 0xffff \<or> v > 0x10ffff) (get_conts 3 (c AND 0x07) p)
         else (INVALID_RUNE, p))"

section \<open>Encoding\<close>

text \<open>\<open>None\<close> is the result \<^verbatim>\<open>-1\<close>; otherwise the bytes written. The argument is the C
  \<^verbatim>\<open>int\<close> reinterpreted as \<^verbatim>\<open>unsigned\<close>.\<close>

definition put_utf :: "int \<Rightarrow> string option" where
  "put_utf vv =
     (let v = vv mod 2 ^ 32
      in if v \<le> 0x7f then Some [char_of v]
         else if v \<le> 0x7ff then
           Some [char_of (0xc0 OR drop_bit 6 v), char_of (0x80 OR (v AND 0x3f))]
         else if v \<le> 0xffff then
           (if (v - 0xd800) mod 2 ^ 32 \<le> 0xdfff - 0xd800 then None
            else Some [char_of (0xe0 OR drop_bit 12 v), char_of (0x80 OR (drop_bit 6 v AND 0x3f)),
                       char_of (0x80 OR (v AND 0x3f))])
         else if v \<le> 0x10ffff then
           Some [char_of (0xf0 OR drop_bit 18 v), char_of (0x80 OR (drop_bit 12 v AND 0x3f)),
                 char_of (0x80 OR (drop_bit 6 v AND 0x3f)), char_of (0x80 OR (v AND 0x3f))]
         else None)"

definition clearance_utf :: "char \<Rightarrow> nat" where
  "clearance_utf ch =
     (let c = byte ch
      in if c \<le> 0x7f then 1
         else if c \<le> 0xbf then 1
         else if c \<le> 0xdf then 2
         else if c \<le> 0xef then 3
         else if c \<le> 0xf7 then 4
         else 1)"

section \<open>Progress\<close>

lemma get_conts_suffix: "suffix (snd (get_conts k v p)) p"
proof (induction k arbitrary: v p)
  case (Suc k)
  show ?case
  proof (cases p)
    case (Cons c ps)
    then show ?thesis by (simp add: Let_def suffix_ConsI Suc.IH)
  qed simp
qed simp

lemma snd_check_rune [simp]: "snd (check_rune bad r) = snd r"
  by (auto simp: check_rune_def split: prod.splits option.splits)

lemma get_utf_suffix: "suffix (snd (get_utf s)) (tl s)"
  by (simp add: get_utf_def Let_def get_conts_suffix del: get_conts.simps)

lemma get_utf_length: "length (snd (get_utf s)) \<le> length (tl s)"
  by (rule suffix_length_le [OF get_utf_suffix])

lemma get_utf_length_less: "s \<noteq> [] \<Longrightarrow> length (snd (get_utf s)) < length s"
  using get_utf_length [of s] by (cases s) auto

lemma get_utf_Nil [simp]: "get_utf [] = (0, [])"
  by (simp add: get_utf_def)

lemma get_utf_ascii: "byte c \<le> 0x7f \<Longrightarrow> get_utf (c # s) = (byte c, s)"
  by (simp add: get_utf_def)

section \<open>Counting and skipping characters\<close>

function strlen_utf :: "string \<Rightarrow> nat" where
  "strlen_utf s = (let (v, s') = get_utf s in if v \<noteq> 0 then Suc (strlen_utf s') else 0)"
  by pat_completeness auto
termination
proof (relation "measure length")
  fix s x v s'
  assume "x = get_utf s" "(v, s') = x" "v \<noteq> 0"
  then have "get_utf s = (v, s')" "s \<noteq> []" by auto
  then show "(s', s) \<in> measure length"
    using get_utf_length_less [of s] by simp
qed simp

declare strlen_utf.simps [simp del]

text \<open>\<open>skip_utf s i\<close> is the number of bytes passed; a negative \<open>i\<close> never reaches zero, so the
  loop runs to the end of the string.\<close>

function skip_utf :: "string \<Rightarrow> int \<Rightarrow> nat" where
  "skip_utf s i =
     (if hd0 s \<noteq> NUL \<and> i \<noteq> 0
      then let s' = snd (get_utf s) in (length s - length s') + skip_utf s' (i - 1)
      else 0)"
  by pat_completeness auto
termination
proof (relation "measure (\<lambda>(s, i). length s)")
  fix s :: string and i :: int and x :: string
  assume "hd0 s \<noteq> NUL \<and> i \<noteq> 0" "x = snd (get_utf s)"
  then show "((x, i - 1), (s, i)) \<in> measure (\<lambda>(s, i). length s)"
    using get_utf_length_less [of s] by (cases s) auto
qed simp

declare skip_utf.simps [simp del]

section \<open>Reading back what was written\<close>

lemma and_mask_mod: "(v::int) AND (2 ^ n - 1) = v mod 2 ^ n"
  by (simp add: take_bit_eq_mask mask_eq_exp_minus_1 flip: take_bit_eq_mod)

lemma or_shift_add:
  fixes x :: int
  assumes "0 \<le> x" "x < 2 ^ n"
  shows "push_bit n a OR x = push_bit n a + x"
proof -
  have "take_bit n x = x"
    using assms by (simp add: take_bit_eq_mod)
  have "push_bit n a AND x = 0"
  proof (rule bit_eqI)
    fix m
    have "bit x m \<Longrightarrow> m < n"
      using \<open>take_bit n x = x\<close> by (metis bit_take_bit_iff)
    then show "bit (push_bit n a AND x) m \<longleftrightarrow> bit 0 m"
      by (auto simp: bit_and_iff bit_push_bit_iff)
  qed
  then show ?thesis
    by (simp add: disjunctive_add_eq_or)
qed

lemma cont_byte: "0 \<le> (x::int) \<Longrightarrow> x < 64 \<Longrightarrow> 128 OR x = 128 + x"
  using or_shift_add [of x 6 2] by simp
lemma lead2_byte: "0 \<le> (x::int) \<Longrightarrow> x < 32 \<Longrightarrow> 192 OR x = 192 + x"
  using or_shift_add [of x 5 6] by simp
lemma lead3_byte: "0 \<le> (x::int) \<Longrightarrow> x < 16 \<Longrightarrow> 224 OR x = 224 + x"
  using or_shift_add [of x 4 14] by simp
lemma lead4_byte: "0 \<le> (x::int) \<Longrightarrow> x < 8 \<Longrightarrow> 240 OR x = 240 + x"
  using or_shift_add [of x 3 30] by simp

lemma and_63: "(v::int) AND 63 = v mod 64" using and_mask_mod [of v 6] by simp
lemma and_31: "(v::int) AND 31 = v mod 32" using and_mask_mod [of v 5] by simp
lemma and_15: "(v::int) AND 15 = v mod 16" using and_mask_mod [of v 4] by simp
lemma and_7: "(v::int) AND 7 = v mod 8" using and_mask_mod [of v 3] by simp

lemmas utf_bits = and_63 and_31 and_15 and_7 cont_byte lead2_byte lead3_byte lead4_byte
  drop_bit_eq_div push_bit_eq_mult


lemma get_conts_cont:
  assumes "0 \<le> x" "x < 64"
  shows "get_conts (Suc k) v (char_of (128 OR x) # p) = get_conts k (v * 64 + x) p"
  using assms by (simp add: cont_byte push_bit_eq_mult)


lemma lead_mods:
  fixes x :: int
  shows "0 \<le> x \<Longrightarrow> x < 32 \<Longrightarrow> (192 + x) mod 32 = x"
    and "0 \<le> x \<Longrightarrow> x < 16 \<Longrightarrow> (224 + x) mod 16 = x"
    and "0 \<le> x \<Longrightarrow> x < 8 \<Longrightarrow> (240 + x) mod 8 = x"
  by presburger+

lemma get_utf_lead2:
  assumes "0 \<le> x" "x < 32"
  shows "get_utf (char_of (192 OR x) # p) = check_rune (\<lambda>v. v \<le> 0x7f) (get_conts 1 x p)"
  using assms by (simp add: get_utf_def lead2_byte and_31 lead_mods Let_def del: get_conts.simps)

lemma get_utf_lead3:
  assumes "0 \<le> x" "x < 16"
  shows "get_utf (char_of (224 OR x) # p) =
    check_rune (\<lambda>v. v \<le> 0x7ff \<or> v \<ge> 0xd800 \<and> v \<le> 0xdfff) (get_conts 2 x p)"
  using assms by (simp add: get_utf_def lead3_byte and_15 lead_mods Let_def del: get_conts.simps)

lemma get_utf_lead4:
  assumes "0 \<le> x" "x < 8"
  shows "get_utf (char_of (240 OR x) # p) =
    check_rune (\<lambda>v. v \<le> 0xffff \<or> v > 0x10ffff) (get_conts 3 x p)"
  using assms by (simp add: get_utf_def lead4_byte and_7 lead_mods Let_def del: get_conts.simps)

lemma drop_bits_div:
  fixes v :: int
  shows "drop_bit 6 v = v div 64" "drop_bit 12 v = v div 64 div 64" "drop_bit 18 v = v div 64 div 64 div 64"
  by (simp_all add: drop_bit_eq_div zdiv_zmult2_eq [of 64 v 64, symmetric] zdiv_zmult2_eq [of 64 v 4096, symmetric] zdiv_zmult2_eq [of 4096 v 64, symmetric])

lemma surrogate_test:
  fixes v :: int
  assumes "0 \<le> v" "v \<le> 0xffff"
  shows "(v - 0xd800) mod 2 ^ 32 \<le> 0xdfff - 0xd800 \<longleftrightarrow> 0xd800 \<le> v \<and> v \<le> 0xdfff"
proof (cases "0xd800 \<le> v")
  case True
  then show ?thesis using assms by simp
next
  case False
  have "(v - 0xd800) mod 2 ^ 32 = (v - 0xd800 + 2 ^ 32) mod 2 ^ 32"
    by (rule mod_add_self2 [symmetric])
  also have "\<dots> = v - 0xd800 + 2 ^ 32"
    using False assms by (intro mod_pos_pos_trivial) auto
  finally show ?thesis using False assms by simp
qed

lemma put_utf_cases:
  assumes "put_utf v = Some bs" "0 \<le> v" "v < 2 ^ 31"
  obtains (1) "v \<le> 0x7f" "bs = [char_of v]"
  | (2) "0x7f < v" "v \<le> 0x7ff" "bs = [char_of (0xc0 OR v div 64), char_of (0x80 OR v mod 64)]"
  | (3) "0x7ff < v" "v \<le> 0xffff" "\<not> (0xd800 \<le> v \<and> v \<le> 0xdfff)"
      "bs = [char_of (0xe0 OR v div 64 div 64), char_of (0x80 OR v div 64 mod 64),
        char_of (0x80 OR v mod 64)]"
  | (4) "0xffff < v" "v \<le> 0x10ffff"
      "bs = [char_of (0xf0 OR v div 64 div 64 div 64), char_of (0x80 OR v div 64 div 64 mod 64),
        char_of (0x80 OR v div 64 mod 64), char_of (0x80 OR v mod 64)]"
proof -
  have v: "v mod 2 ^ 32 = v" using assms by simp
  show ?thesis
  proof (cases "v \<le> 0x7ff")
    case True
    with assms v that(1,2) show ?thesis
      by (cases "v \<le> 0x7f") (simp_all add: put_utf_def drop_bits_div and_63)
  next
    case False
    with assms v that(3,4) surrogate_test [of v] show ?thesis
      by (cases "v \<le> 0xffff")
        (simp_all add: put_utf_def drop_bits_div and_63 split: if_splits)
  qed
qed

lemma get_put_utf:
  assumes "put_utf v = Some bs" "0 \<le> v" "v < 2 ^ 31"
  shows "get_utf (bs @ rest) = (v, rest)"
  using assms
proof (cases rule: put_utf_cases)
  case 1
  then show ?thesis using assms by (simp add: get_utf_def)
next
  case 2
  then have "0 \<le> v div 64" "v div 64 < 32" by auto
  with 2 show ?thesis
    by (simp add: get_utf_lead2 get_conts_cont check_rune_def del: get_conts.simps(2))
next
  case 3
  then have "0 \<le> v div 64 div 64" "v div 64 div 64 < 16" by auto
  with 3 show ?thesis
    by (simp add: get_utf_lead3 get_conts_cont check_rune_def numeral_2_eq_2 del: get_conts.simps(2))
next
  case 4
  then have "0 \<le> v div 64 div 64 div 64" "v div 64 div 64 div 64 < 8" by auto
  with 4 show ?thesis
    by (simp add: get_utf_lead4 get_conts_cont check_rune_def numeral_3_eq_3 del: get_conts.simps(2))
qed

lemma clearance_put_utf:
  assumes "put_utf v = Some bs" "0 \<le> v" "v < 2 ^ 31"
  shows "clearance_utf (hd bs) = length bs"
  using assms
proof (cases rule: put_utf_cases)
  case 1
  then show ?thesis using assms by (simp add: clearance_utf_def)
next
  case 2
  then have "0 \<le> v div 64" "v div 64 < 32" by auto
  with 2 show ?thesis by (simp add: clearance_utf_def lead2_byte)
next
  case 3
  then have "0 \<le> v div 64 div 64" "v div 64 div 64 < 16" by auto
  with 3 show ?thesis by (simp add: clearance_utf_def lead3_byte)
next
  case 4
  then have "0 \<le> v div 64 div 64 div 64" "v div 64 div 64 div 64 < 8" by auto
  with 4 show ?thesis by (simp add: clearance_utf_def lead4_byte)
qed

section \<open>Strings of encoded code points\<close>

text \<open>The code points a string can hold (a MOO string never holds NUL), and the string
  that holds a given list of them.\<close>

definition scalar :: "int \<Rightarrow> bool" where
  "scalar v \<longleftrightarrow> 0 < v \<and> v \<le> 0x10ffff \<and> \<not> (0xd800 \<le> v \<and> v \<le> 0xdfff)"

definition utf_encode :: "int list \<Rightarrow> string" where
  "utf_encode vs = concat (map (\<lambda>v. the (put_utf v)) vs)"

lemma utf_encode_simps [simp]:
  "utf_encode [] = []" "utf_encode (v # vs) = the (put_utf v) @ utf_encode vs"
  "utf_encode (us @ vs) = utf_encode us @ utf_encode vs"
  by (simp_all add: utf_encode_def)

lemma scalar_put_utf: "scalar v \<Longrightarrow> put_utf v = Some (the (put_utf v))"
  using surrogate_test [of v] by (auto simp: scalar_def put_utf_def Let_def)

lemma get_utf_encode: "scalar v \<Longrightarrow> get_utf (the (put_utf v) @ rest) = (v, rest)"
  by (rule get_put_utf [OF scalar_put_utf]) (auto simp: scalar_def)

lemma put_utf_nonempty: "scalar v \<Longrightarrow> the (put_utf v) \<noteq> []"
  using get_utf_encode [of v "[]"] by (auto simp: scalar_def)

lemma hd0_encode:
  assumes "scalar v"
  shows "hd0 (the (put_utf v) @ rest) \<noteq> NUL"
proof
  assume nul: "hd0 (the (put_utf v) @ rest) = NUL"
  have "fst (get_utf (the (put_utf v) @ rest)) = 0"
    by (simp add: get_utf_def nul)
  with assms show False by (simp add: get_utf_encode scalar_def)
qed

lemma strlen_utf_encode: "list_all scalar vs \<Longrightarrow> strlen_utf (utf_encode vs) = length vs"
proof (induction vs)
  case Nil
  then show ?case by (simp add: strlen_utf.simps)
next
  case (Cons v vs)
  then show ?case
    by (simp add: strlen_utf.simps [of "the (put_utf v) @ utf_encode vs"] get_utf_encode)
      (simp add: scalar_def)
qed

lemma skip_utf_encode:
  assumes "list_all scalar vs" "0 \<le> i"
  shows "skip_utf (utf_encode vs @ rest) i =
    (if nat i \<le> length vs then length (utf_encode (take (nat i) vs))
     else length (utf_encode vs) + skip_utf rest (i - int (length vs)))"
  using assms
proof (induction vs arbitrary: i)
  case Nil
  then show ?case by (auto simp: skip_utf.simps)
next
  case (Cons v vs)
  show ?case
  proof (cases "i = 0")
    case False
    define n where "n = nat (i - 1)"
    have i: "i = 1 + int n" using False Cons.prems by (simp add: n_def)
    have "skip_utf (utf_encode (v # vs) @ rest) i =
        length (the (put_utf v)) + skip_utf (utf_encode vs @ rest) (int n)"
      using Cons.prems i hd0_encode [of v "utf_encode vs @ rest"]
      by (simp add: skip_utf.simps [of "the (put_utf v) @ _" "1 + int n"] get_utf_encode)
    moreover have "nat i = Suc n" by (simp add: i)
    ultimately show ?thesis using Cons by (simp add: i)
  qed (simp add: skip_utf.simps)
qed

lemma skip_utf_negative: "i < 0 \<Longrightarrow> NUL \<notin> set s \<Longrightarrow> skip_utf s i = length s"
proof (induction s i rule: skip_utf.induct)
  case (1 s i)
  show ?case
  proof (cases s)
    case (Cons c s')
    have suf: "suffix (snd (get_utf s)) s'"
      using get_utf_suffix [of s] Cons by simp
    then have "NUL \<notin> set (snd (get_utf s))"
      using "1.prems" Cons set_mono_suffix by fastforce
    moreover have "c \<noteq> NUL" using Cons "1.prems" by auto
    ultimately have "skip_utf (snd (get_utf s)) (i - 1) = length (snd (get_utf s))"
      using "1.IH" "1.prems" Cons by simp
    with Cons \<open>c \<noteq> NUL\<close> "1.prems" suffix_length_le [OF suf] show ?thesis
      by (simp add: skip_utf.simps [of "c # s'" i] Let_def)
  qed (simp add: skip_utf.simps)
qed

section \<open>Properties\<close>

text \<open>C17: whatever \<open>put_utf\<close> writes for a code point, \<open>get_utf\<close> reads back, leaving the pointer
  right behind it.\<close>

theorem utf_round_trip:
  assumes "put_utf v = Some bs" and "0 \<le> v" and "v < 2 ^ 31"
  shows "get_utf (bs @ rest) = (v, rest)"
  by (rule get_put_utf [OF assms])

theorem utf_round_trip_witness:
  "get_utf ([CHR 0xE2, CHR 0x82, CHR 0xAC] @ ''x'') = (0x20ac, ''x'')"
proof -
  have "put_utf 0x20ac = Some [CHR 0xE2, CHR 0x82, CHR 0xAC]" by code_simp
  then show ?thesis by (rule utf_round_trip) simp_all
qed

text \<open>C18: on a string of encoded code points, \<open>strlen_utf\<close> is the number of code points and
  \<open>skip_utf\<close> is the number of bytes of the first \<open>i\<close> of them, so character positions
  translate to byte offsets.\<close>

theorem utf_positions:
  assumes "list_all scalar vs" and "0 \<le> i" and "i \<le> int (length vs)"
  shows "strlen_utf (utf_encode vs) = length vs \<and>
    take (skip_utf (utf_encode vs) i) (utf_encode vs) = utf_encode (take (nat i) vs)"
proof -
  have "skip_utf (utf_encode vs) i = length (utf_encode (take (nat i) vs))"
    using skip_utf_encode [of vs i "[]"] assms by (simp add: nat_le_iff)
  moreover have "utf_encode vs = utf_encode (take (nat i) vs) @ utf_encode (drop (nat i) vs)"
    by (metis append_take_drop_id utf_encode_simps(3))
  ultimately show ?thesis
    using strlen_utf_encode [OF assms(1)] by (metis append_eq_conv_conj)
qed

theorem utf_positions_witness:
  "strlen_utf (utf_encode [0x41, 0x20ac, 0x1f600]) = 3 \<and>
   take (skip_utf (utf_encode [0x41, 0x20ac, 0x1f600]) 2) (utf_encode [0x41, 0x20ac, 0x1f600])
     = utf_encode [0x41, 0x20ac]"
  using utf_positions [of "[0x41, 0x20ac, 0x1f600]" 2] by (simp add: scalar_def)

end
