(* ===== verification/Strings.thy ===== *)
theory Strings
  imports Utf
begin

text \<open>
  The string routines of \<^verbatim>\<open>utils.c\<close>: case-folding comparison, the verb-name matcher, the hash
  of names, substring search and replacement, and the binary-string encoding.

  Two strings compare equal exactly when their C strings are equal after case folding, and
  then they have the same hash; \<open>verbcasecmp\<close> implements the matching rule for verb names
  that the reference definition \<open>alias_matches\<close> states; \<open>binary_to_raw_bytes\<close> inverts
  \<open>raw_bytes_to_binary\<close>.
\<close>

unbundle bit_operations_syntax

section \<open>Comparison\<close>

text \<open>The table \<^verbatim>\<open>cmap\<close> sends the ASCII capitals (octal 101 to 132) to the small letters and
  every other byte to itself. Its elements have type \<^verbatim>\<open>char\<close>, signed on the platforms the
  server is built for: \<open>schar\<close> is the value used in arithmetic.\<close>

definition cmap :: "char \<Rightarrow> char" where
  "cmap c = (if 0x41 \<le> byte c \<and> byte c \<le> 0x5a then char_of (byte c + 0x20) else c)"

definition schar :: "char \<Rightarrow> int" where
  "schar c = (if byte c < 128 then byte c else byte c - 256)"

fun mystrcasecmp :: "string \<Rightarrow> string \<Rightarrow> int" where
  "mystrcasecmp [] [] = 0"
| "mystrcasecmp [] (t # ts) = schar (cmap NUL) - schar (cmap t)"
| "mystrcasecmp (s # ss) [] = schar (cmap s) - schar (cmap NUL)"
| "mystrcasecmp (s # ss) (t # ts) =
     (if cmap s = cmap t then (if s = NUL then 0 else mystrcasecmp ss ts)
      else schar (cmap s) - schar (cmap t))"

text \<open>\<open>mystrncasecmp s t n\<close>: at most \<open>n\<close> bytes.\<close>

fun mystrncasecmp :: "string \<Rightarrow> string \<Rightarrow> nat \<Rightarrow> int" where
  "mystrncasecmp ss tt 0 = 0"
| "mystrncasecmp ss tt (Suc n) =
     (if cmap (hd0 ss) = cmap (hd0 tt)
      then (if hd0 ss = NUL \<or> n = 0 then 0 else mystrncasecmp (tl ss) (tl tt) n)
      else schar (cmap (hd0 ss)) - schar (cmap (hd0 tt)))"

text \<open>The library's \<^verbatim>\<open>strcmp\<close> and \<^verbatim>\<open>strncmp\<close>, which compare unsigned bytes.\<close>

fun strcmp :: "string \<Rightarrow> string \<Rightarrow> int" where
  "strcmp [] [] = 0"
| "strcmp [] (t # ts) = - byte t"
| "strcmp (s # ss) [] = byte s"
| "strcmp (s # ss) (t # ts) =
     (if s = t then (if s = NUL then 0 else strcmp ss ts) else byte s - byte t)"

fun strncmp :: "string \<Rightarrow> string \<Rightarrow> nat \<Rightarrow> int" where
  "strncmp ss tt 0 = 0"
| "strncmp ss tt (Suc n) =
     (if hd0 ss = hd0 tt
      then (if hd0 ss = NUL then 0 else strncmp (tl ss) (tl tt) n)
      else byte (hd0 ss) - byte (hd0 tt))"

section \<open>Verb names\<close>

datatype star = Star_none | Star_inner | Star_end

text \<open>\<^verbatim>\<open>!*v || *v == ' '\<close>: the end of one of the names in a verb-name string.\<close>

definition name_end :: "string \<Rightarrow> bool" where
  "name_end v \<longleftrightarrow> hd0 v = NUL \<or> hd0 v = CHR '' ''"

text \<open>\<^verbatim>\<open>while (*v == '*') { v++; star = ...; }\<close>\<close>

fun skip_stars :: "string \<Rightarrow> star \<Rightarrow> string \<times> star" where
  "skip_stars [] st = ([], st)"
| "skip_stars (c # v) st =
     (if c = CHR ''*'' then skip_stars v (if name_end v then Star_end else Star_inner)
      else (c # v, st))"

lemma skip_stars_suffix: "suffix (fst (skip_stars v st)) v"
  by (induction v st rule: skip_stars.induct) (auto intro: suffix_ConsI)

lemmas skip_stars_length = suffix_length_le [OF skip_stars_suffix]

text \<open>The inner \<^verbatim>\<open>while (1)\<close>: match one name against the word, until one of them ends or they
  differ; the result is where both pointers stand, and the last star seen.\<close>

function match_name :: "string \<Rightarrow> string \<Rightarrow> star \<Rightarrow> string \<times> string \<times> star" where
  "match_name v w st =
     (let (v', st') = skip_stars v st
      in if name_end v' \<or> hd0 w = NUL \<or> cmap (hd0 w) \<noteq> cmap (hd0 v') then (v', w, st')
         else match_name (tl v') (tl w) st')"
  by pat_completeness auto
termination
proof (relation "measure (\<lambda>(v, w, st). length v)")
  fix v w st x v' st'
  assume "x = skip_stars v st" "(v', st') = x"
    and "\<not> (name_end v' \<or> hd0 w = NUL \<or> cmap (hd0 w) \<noteq> cmap (hd0 v'))"
  then have "length v' \<le> length v" "v' \<noteq> []"
    using skip_stars_length [of v st] by (auto simp: name_end_def) (metis fst_conv)
  then show "((tl v', tl w, st'), v, w, st) \<in> measure (\<lambda>(v, w, st). length v)"
    by (cases v') auto
qed simp

declare match_name.simps [simp del]

text \<open>Advance to the next name: \<^verbatim>\<open>while (*v && *v != ' ') v++; while (*v == ' ') v++;\<close>\<close>

definition next_name :: "string \<Rightarrow> string" where
  "next_name v = dropWhile (\<lambda>c. c = CHR '' '') (dropWhile (\<lambda>c. c \<noteq> NUL \<and> c \<noteq> CHR '' '') v)"

definition name_accepts :: "string \<times> string \<times> star \<Rightarrow> bool" where
  "name_accepts r =
     (case r of (v, w, st) \<Rightarrow>
        if hd0 w = NUL then st \<noteq> Star_none \<or> name_end v else st = Star_end)"

lemma match_name_suffix: "suffix (fst (match_name v w st)) v"
proof (induction v w st rule: match_name.induct)
  case (1 v w st)
  obtain v' st' where sk: "skip_stars v st = (v', st')" by fastforce
  have v': "suffix v' v" using skip_stars_suffix [of v st] sk by simp
  moreover have "suffix x v" if "suffix x (tl v')" for x
    using that v' suffix_tl [of v'] by (meson suffix_order.trans)
  ultimately show ?case
    using 1 [OF sk [symmetric]]
    by (subst match_name.simps) (auto simp: sk)
qed

lemmas match_name_length = suffix_length_le [OF match_name_suffix]

lemma next_name_length: "length (next_name v) \<le> length v"
  unfolding next_name_def by (metis length_dropWhile_le order_trans)

lemma next_name_progress: "v \<noteq> [] \<Longrightarrow> hd v \<noteq> NUL \<Longrightarrow> length (next_name v) < length v"
  by (cases v) (auto simp: next_name_def less_Suc_eq_le intro: order_trans length_dropWhile_le)

lemma verb_loop_progress:
  assumes "hd0 v \<noteq> NUL"
  shows "length (next_name (fst (match_name v w st))) < length v"
proof (cases "length (fst (match_name v w st)) = length v")
  case True
  then have "fst (match_name v w st) = v"
    using match_name_suffix [of v w st] by (metis append_eq_append_conv append_Nil suffix_def)
  with assms show ?thesis
    using next_name_progress [of v] by (cases v) auto
next
  case False
  then show ?thesis
    using match_name_length [of v w st] next_name_length [of "fst (match_name v w st)"] by simp
qed

function verb_loop :: "string \<Rightarrow> string \<Rightarrow> bool" where
  "verb_loop v word =
     (if hd0 v = NUL then False
      else let r = match_name v word Star_none
           in if name_accepts r then True else verb_loop (next_name (fst r)) word)"
  by pat_completeness auto
termination
  by (relation "measure (\<lambda>(v, word). length v)") (auto simp: verb_loop_progress)

declare verb_loop.simps [simp del]

text \<open>\<^verbatim>\<open>verbcasecmp\<close>. Its first test compares the two pointers, so \<open>same\<close> says whether the
  caller passes the same string object twice.\<close>

definition verbcasecmp :: "bool \<Rightarrow> string \<Rightarrow> string \<Rightarrow> bool" where
  "verbcasecmp same verb word \<longleftrightarrow> same \<or> verb_loop verb word"

section \<open>Hashing\<close>

text \<open>\<^verbatim>\<open>ans = (ans << 3) + (ans >> 28) + cmap[...]\<close> on \<^verbatim>\<open>unsigned\<close>.\<close>

fun str_hash_loop :: "32 word \<Rightarrow> string \<Rightarrow> 32 word" where
  "str_hash_loop ans [] = ans"
| "str_hash_loop ans (c # s) =
     (if c = NUL then ans
      else str_hash_loop (push_bit 3 ans + drop_bit 28 ans + word_of_int (schar (cmap c))) s)"

definition str_hash :: "string \<Rightarrow> 32 word" where
  "str_hash s = str_hash_loop 0 s"

section \<open>What the comparisons decide\<close>

text \<open>The string a comparison sees: up to the first NUL, case-folded.\<close>

definition folded :: "string \<Rightarrow> string" where
  "folded s = map cmap (cstr s)"

lemma cmap_NUL [simp]: "cmap NUL = NUL"
  by (simp add: cmap_def)

lemma cmap_eq_NUL [simp]: "cmap c = NUL \<longleftrightarrow> c = NUL"
proof
  assume "cmap c = NUL"
  then have "byte (cmap c) = 0" by simp
  then have "byte c = 0" by (auto simp: cmap_def simp del: byte_eq_0 split: if_splits)
  then show "c = NUL" by simp
qed simp

lemma NUL_eq_cmap [simp]: "NUL = cmap c \<longleftrightarrow> c = NUL"
  by (metis cmap_eq_NUL)

lemma cmap_cmap [simp]: "cmap (cmap c) = cmap c"
  by (auto simp: cmap_def)

lemma schar_inject [simp]: "schar a = schar b \<longleftrightarrow> a = b"
proof
  assume "schar a = schar b"
  then have "byte a = byte b"
    using byte_bounds [of a] byte_bounds [of b] unfolding schar_def
    by (simp split: if_splits del: byte_inject; linarith)
  then show "a = b" by simp
qed simp

lemma folded_simps [simp]:
  "folded [] = []" "folded (c # s) = (if c = NUL then [] else cmap c # folded s)"
  by (simp_all add: folded_def)

lemma mystrcasecmp_eq_0: "mystrcasecmp s t = 0 \<longleftrightarrow> folded s = folded t"
  by (induction s t rule: mystrcasecmp.induct) auto

lemma mystrncasecmp_eq_0: "mystrncasecmp s t n = 0 \<longleftrightarrow> take n (folded s) = take n (folded t)"
proof (induction s t n rule: mystrncasecmp.induct)
  case (2 ss tt n)
  then show ?case by (cases ss; cases tt) auto
qed simp

lemma strcmp_eq_0: "strcmp s t = 0 \<longleftrightarrow> cstr s = cstr t"
  by (induction s t rule: strcmp.induct) auto

lemma strncmp_eq_0: "strncmp s t n = 0 \<longleftrightarrow> take n (cstr s) = take n (cstr t)"
proof (induction s t n rule: strncmp.induct)
  case (2 ss tt n)
  then show ?case by (cases ss; cases tt) auto
qed simp

lemma str_hash_loop_folded: "str_hash_loop a s = str_hash_loop a (folded s)"
  by (induction a s rule: str_hash_loop.induct) auto

lemma str_hash_folded: "folded s = folded t \<Longrightarrow> str_hash s = str_hash t"
  unfolding str_hash_def by (metis str_hash_loop_folded)

section \<open>What the verb-name matcher decides\<close>

text \<open>The names in a verb-name string, and the rule for one of them: the word is the name
  without its stars, or an abbreviation of it that reaches at least to the first star, or,
  when the name ends in a star, any extension of it.\<close>

function verb_names :: "string \<Rightarrow> string list" where
  "verb_names v =
     (if hd0 v = NUL then []
      else takeWhile (\<lambda>c. c \<noteq> NUL \<and> c \<noteq> CHR '' '') v # verb_names (next_name v))"
  by pat_completeness auto
termination
proof (relation "measure length")
  fix v :: string
  assume "hd0 v \<noteq> NUL"
  then show "(next_name v, v) \<in> measure length"
    using next_name_progress [of v] by (cases v) auto
qed simp

declare verb_names.simps [simp del]

definition literals :: "string \<Rightarrow> string" where
  "literals a = filter (\<lambda>c. c \<noteq> CHR ''*'') a"

definition alias_matches :: "string \<Rightarrow> string \<Rightarrow> bool" where
  "alias_matches a w \<longleftrightarrow>
     (let lits = map cmap (literals a); word = map cmap w
      in word = lits
       \<or> CHR ''*'' \<in> set a \<and> length (takeWhile (\<lambda>c. c \<noteq> CHR ''*'') a) \<le> length w
          \<and> prefix word lits
       \<or> a \<noteq> [] \<and> last a = CHR ''*'' \<and> prefix lits word)"

text \<open>The matcher on one name, as a recursion on that name.\<close>

fun accepts :: "string \<Rightarrow> string \<Rightarrow> star \<Rightarrow> bool" where
  "accepts [] w st \<longleftrightarrow> w = [] \<or> st = Star_end"
| "accepts (c # a) w st \<longleftrightarrow>
     (if c = CHR ''*'' then accepts a w (if a = [] then Star_end else Star_inner)
      else case w of
             [] \<Rightarrow> st \<noteq> Star_none
           | d # w' \<Rightarrow> if cmap d = cmap c then accepts a w' st else st = Star_end)"

lemma literals_simps [simp]:
  "literals [] = []"
  "literals (c # a) = (if c = CHR ''*'' then literals a else c # literals a)"
  by (simp_all add: literals_def)

definition accepts_after :: "string \<Rightarrow> string \<Rightarrow> star \<Rightarrow> bool" where
  "accepts_after a w st \<longleftrightarrow>
     prefix (map cmap w) (map cmap (literals a))
     \<or> (if a = [] then st = Star_end else last a = CHR ''*'') \<and>
       prefix (map cmap (literals a)) (map cmap w)"

lemma accepts_seen:
  "(st = Star_end \<longrightarrow> a = []) \<Longrightarrow> st \<noteq> Star_none \<Longrightarrow> accepts a w st \<longleftrightarrow> accepts_after a w st"
proof (induction a arbitrary: w st)
  case Nil
  then show ?case by (simp add: accepts_after_def)
next
  case (Cons c a)
  then have st: "st = Star_inner" by (cases st) auto
  note IH = Cons.IH
  show ?case
  proof (cases "c = CHR ''*''")
    case True
    then have "accepts (c # a) w st \<longleftrightarrow> accepts_after a w (if a = [] then Star_end else Star_inner)"
      using Cons.IH by simp
    with True show ?thesis by (simp add: accepts_after_def)
  next
    case False
    show ?thesis
    proof (cases w)
      case Nil
      then show ?thesis using False st by (simp add: accepts_after_def)
    next
      case (Cons d w')
      have "accepts a w' st \<longleftrightarrow> accepts_after a w' st"
        using IH st by simp
      then show ?thesis using False st Cons by (simp add: accepts_after_def)
    qed
  qed
qed

lemma accepts_none: "accepts a w Star_none \<longleftrightarrow> alias_matches a w"
proof (induction a arbitrary: w)
  case Nil
  then show ?case by (simp add: alias_matches_def literals_def)
next
  case (Cons c a)
  show ?case
  proof (cases "c = CHR ''*''")
    case True
    then show ?thesis
      by (auto simp: accepts_seen accepts_after_def alias_matches_def Let_def)
  next
    case False
    with Cons show ?thesis
      by (cases w) (auto simp: alias_matches_def)
  qed
qed

definition plain_name :: "string \<Rightarrow> bool" where
  "plain_name a \<longleftrightarrow> NUL \<notin> set a \<and> CHR '' '' \<notin> set a"

lemma plain_name_simps [simp]:
  "plain_name []" "plain_name (c # a) \<longleftrightarrow> c \<noteq> NUL \<and> c \<noteq> CHR '' '' \<and> plain_name a"
  by (auto simp: plain_name_def)

lemma name_end_append: "plain_name a \<Longrightarrow> name_end rest \<Longrightarrow> name_end (a @ rest) \<longleftrightarrow> a = []"
  by (cases a) (auto simp: name_end_def)

lemma skip_stars_plain:
  assumes "plain_name a" "name_end rest"
  obtains a' st' where "skip_stars (a @ rest) st = (a' @ rest, st')" "plain_name a'"
    "suffix a' a" "a' = [] \<or> hd a' \<noteq> CHR ''*''" "\<And>w. accepts a w st = accepts a' w st'"
proof -
  have "\<exists>a' st'. skip_stars (a @ rest) st = (a' @ rest, st') \<and> plain_name a' \<and>
    suffix a' a \<and> (a' = [] \<or> hd a' \<noteq> CHR ''*'') \<and> (\<forall>w. accepts a w st = accepts a' w st')"
    using assms
  proof (induction a arbitrary: st)
    case Nil
    then show ?case by (cases rest) (auto simp: name_end_def)
  next
    case (Cons c a)
    show ?case
    proof (cases "c = CHR ''*''")
      case True
      with Cons.prems Cons.IH [of "if a = [] then Star_end else Star_inner"] show ?thesis
        by (auto simp: name_end_append intro: suffix_ConsI)
    next
      case False
      with Cons.prems show ?thesis
        by (intro exI [of _ "c # a"] exI [of _ st]) simp
    qed
  qed
  then show ?thesis using that by blast
qed

lemma match_name_plain:
  assumes "plain_name a" "name_end rest"
  shows "name_accepts (match_name (a @ rest) w st) = accepts a (cstr w) st
    \<and> (\<exists>a2. plain_name a2 \<and> fst (match_name (a @ rest) w st) = a2 @ rest)"
  using assms(1)
proof (induction a arbitrary: w st rule: length_induct)
  case (1 a)
  obtain a' st' where sk: "skip_stars (a @ rest) st = (a' @ rest, st')" "plain_name a'"
    "suffix a' a" "a' = [] \<or> hd a' \<noteq> CHR ''*''" "\<And>w. accepts a w st = accepts a' w st'"
    using skip_stars_plain [OF "1.prems" assms(2)] by metis
  show ?case
  proof (cases "a' = [] \<or> hd0 w = NUL \<or> cmap (hd0 w) \<noteq> cmap (hd a')")
    case True
    then have "match_name (a @ rest) w st = (a' @ rest, w, st')"
      using sk(2) assms(2)
      by (subst match_name.simps) (auto simp: sk(1) name_end_append, (cases a', auto)+)
    moreover have "accepts a' (cstr w) st' \<longleftrightarrow>
        (if hd0 w = NUL then st' \<noteq> Star_none \<or> a' = [] else st' = Star_end)"
      using True sk(4) by (cases a'; cases w) auto
    ultimately show ?thesis
      using sk(2,5) assms(2) by (auto simp: name_accepts_def name_end_append)
  next
    case False
    then obtain c a3 d w3 where eqs: "a' = c # a3" "w = d # w3" "d \<noteq> NUL" "cmap d = cmap c"
      by (cases a'; cases w) auto
    then have step: "match_name (a @ rest) w st = match_name (a3 @ rest) w3 st'"
      using sk(1,2) by (subst match_name.simps) (auto simp: name_end_def)
    have "length a3 < length a" "plain_name a3"
      using sk(2,3) eqs suffix_length_le by fastforce+
    with "1.IH" have "name_accepts (match_name (a3 @ rest) w3 st') = accepts a3 (cstr w3) st'
        \<and> (\<exists>a2. plain_name a2 \<and> fst (match_name (a3 @ rest) w3 st') = a2 @ rest)"
      by blast
    then show ?thesis unfolding step using eqs sk(4,5) by simp
  qed
qed

lemma name_split:
  obtains a rest where "v = a @ rest" "plain_name a" "name_end rest"
    "a = takeWhile (\<lambda>c. c \<noteq> NUL \<and> c \<noteq> CHR '' '') v"
    "next_name v = dropWhile (\<lambda>c. c = CHR '' '') rest"
proof
  let ?P = "\<lambda>c. c \<noteq> NUL \<and> c \<noteq> CHR '' ''"
  show "v = takeWhile ?P v @ dropWhile ?P v" by simp
  show "plain_name (takeWhile ?P v)" by (auto simp: plain_name_def dest: set_takeWhileD)
  show "name_end (dropWhile ?P v)"
  proof (cases "dropWhile ?P v")
    case (Cons c rest)
    then have "\<not> ?P c" using hd_dropWhile [of ?P v] by force
    with Cons show ?thesis by (simp add: name_end_def)
  next
    case Nil
    then show ?thesis by (metis name_end_def hd0_simps(1))
  qed
  show "next_name v = dropWhile (\<lambda>c. c = CHR '' '') (dropWhile ?P v)"
    by (simp add: next_name_def)
qed simp

lemma next_name_plain:
  assumes "plain_name a" "name_end rest"
  shows "next_name (a @ rest) = dropWhile (\<lambda>c. c = CHR '' '') rest"
proof -
  let ?P = "\<lambda>c. c \<noteq> NUL \<and> c \<noteq> CHR '' ''"
  have "dropWhile ?P (a @ rest) = dropWhile ?P rest"
    using assms(1) by (intro dropWhile_append2) (metis plain_name_def)
  also have "\<dots> = rest"
    using assms(2) by (cases rest) (auto simp: name_end_def)
  finally show ?thesis by (simp add: next_name_def)
qed

lemma verb_loop_iff: "verb_loop v w \<longleftrightarrow> (\<exists>a \<in> set (verb_names v). alias_matches a (cstr w))"
proof (induction v rule: verb_names.induct)
  case (1 v)
  obtain a rest where v: "v = a @ rest" "plain_name a" "name_end rest"
    "a = takeWhile (\<lambda>c. c \<noteq> NUL \<and> c \<noteq> CHR '' '') v"
    "next_name v = dropWhile (\<lambda>c. c = CHR '' '') rest"
    by (rule name_split)
  obtain a2 where a2: "plain_name a2" "fst (match_name v w Star_none) = a2 @ rest"
    and acc: "name_accepts (match_name v w Star_none) = alias_matches a (cstr w)"
    using match_name_plain [OF v(2,3)] v(1) accepts_none by metis
  have "next_name (fst (match_name v w Star_none)) = next_name v"
    using a2 v(3,5) next_name_plain by simp
  with 1 acc v(4) show ?case
    by (simp add: verb_loop.simps [of v] verb_names.simps [of v] Let_def)
qed
section \<open>Substring search and replacement\<close>

text \<open>The test both loops make at a position: a match of the whole of \<open>what\<close> there.\<close>

definition matches_at :: "bool \<Rightarrow> string \<Rightarrow> string \<Rightarrow> bool" where
  "matches_at case_counts what s \<longleftrightarrow>
     (let lwhat = length (cstr what)
      in (if case_counts then strncmp s what lwhat else mystrncasecmp s what lwhat) = 0)"

partial_function (option) strsub_loop ::
  "bool \<Rightarrow> string \<Rightarrow> string \<Rightarrow> string \<Rightarrow> string \<Rightarrow> string option" where
  "strsub_loop case_counts what with source acc =
     (if hd0 source = NUL then Some acc
      else if matches_at case_counts what source
      then strsub_loop case_counts what with (drop (length (cstr what)) source) (acc @ cstr with)
      else strsub_loop case_counts what with (tl source) (acc @ [hd0 source]))"

declare strsub_loop.simps [code]

definition strsub :: "string \<Rightarrow> string \<Rightarrow> string \<Rightarrow> bool \<Rightarrow> string option" where
  "strsub source what with case_counts = strsub_loop case_counts what with source []"

function strindex_loop :: "bool \<Rightarrow> string \<Rightarrow> string \<Rightarrow> int \<Rightarrow> int" where
  "strindex_loop case_counts what s ind =
     (if length (cstr what) \<le> length s
      then if matches_at case_counts what s then ind + 1
           else strindex_loop case_counts what (snd (get_utf s)) (ind + 1)
      else 0)"
  by pat_completeness auto
termination
proof (relation "measure (\<lambda>(case_counts, what, s, ind). length s)")
  fix case_counts and what s :: string and ind :: int
  assume "length (cstr what) \<le> length s" "\<not> matches_at case_counts what s"
  then have "s \<noteq> []" by (auto simp: matches_at_def split: if_splits)
  then show "((case_counts, what, snd (get_utf s), ind + 1), case_counts, what, s, ind)
      \<in> measure (\<lambda>(case_counts, what, s, ind). length s)"
    using get_utf_length_less [of s] by simp
qed simp

declare strindex_loop.simps [simp del]

definition strindex :: "string \<Rightarrow> string \<Rightarrow> bool \<Rightarrow> int" where
  "strindex source what case_counts = strindex_loop case_counts what (cstr source) 0"

text \<open>In \<^verbatim>\<open>strrindex\<close> the pointer moves backwards, so a position is an index into the string;
  \<open>None\<close> is a read in front of it.\<close>

definition is_cont :: "char \<Rightarrow> bool" where
  "is_cont c \<longleftrightarrow> byte c AND 0xc0 = 0x80"

function back_up :: "string \<Rightarrow> int \<Rightarrow> int option" where
  "back_up src i =
     (if i < 0 then None
      else if is_cont (hd0 (drop (nat i) src)) then back_up src (i - 1)
      else Some i)"
  by pat_completeness auto
termination
  by (relation "measure (\<lambda>(src, i). nat (i + 1))") auto

declare back_up.simps [simp del]

lemma back_up_le: "back_up src i = Some j \<Longrightarrow> j \<le> i"
proof (induction src i rule: back_up.induct)
  case (1 src i)
  then show ?case by (subst (asm) (2) back_up.simps) (force split: if_splits)
qed

function strrindex_loop :: "bool \<Rightarrow> string \<Rightarrow> string \<Rightarrow> int \<Rightarrow> int \<Rightarrow> int option" where
  "strrindex_loop case_counts what src i ind =
     (if i < 0 then Some 0
      else if matches_at case_counts what (drop (nat i) src) then Some (ind + 1)
      else case back_up src i of
             None \<Rightarrow> None
           | Some j \<Rightarrow> strrindex_loop case_counts what src (j - 1) (ind - 1))"
  by pat_completeness auto
termination
  by (relation "measure (\<lambda>(case_counts, what, src, i, ind). nat (i + 1))")
    (auto dest!: back_up_le)

declare strrindex_loop.simps [simp del]

definition strrindex :: "string \<Rightarrow> string \<Rightarrow> bool \<Rightarrow> int option" where
  "strrindex source what case_counts =
     (let src = cstr source; start = int (length src) - int (length (cstr what))
      in if start < 0 then Some 0
         else case back_up src start of
                None \<Rightarrow> None
              | Some s \<Rightarrow>
                  strrindex_loop case_counts what src s
                    (int (strlen_utf src) - int (strlen_utf (drop (nat s) src))))"

section \<open>Binary strings\<close>

definition hex_digit :: "int \<Rightarrow> char" where
  "hex_digit n = char_of (if n < 10 then 0x30 + n else 0x61 + (n - 10))"

definition raw_byte_to_binary :: "char \<Rightarrow> string" where
  "raw_byte_to_binary c =
     (if 32 \<le> byte c \<and> byte c < 126 then [c]
      else [CHR ''~'', hex_digit (byte c div 16), hex_digit (byte c mod 16)])"

definition raw_bytes_to_binary :: "string \<Rightarrow> string" where
  "raw_bytes_to_binary bs = concat (map raw_byte_to_binary bs)"

definition hex_value :: "char \<Rightarrow> int option" where
  "hex_value ch =
     (let c = byte ch OR 0x20
      in if 0x30 \<le> c \<and> c \<le> 0x39 then Some (c - 0x30)
         else if 0x61 \<le> c \<and> c \<le> 0x66 then Some (c - 0x61 + 10)
         else None)"

text \<open>Each hexadecimal digit is read from where the pointer stands, the terminating NUL
  included, which is no digit.\<close>

function binary_to_raw_bytes :: "string \<Rightarrow> string option" where
  "binary_to_raw_bytes p =
     (if hd0 p = NUL then Some []
      else if hd0 p \<noteq> CHR ''~'' then map_option (Cons (hd0 p)) (binary_to_raw_bytes (tl p))
      else case hex_value (hd0 (tl p)) of
             None \<Rightarrow> None
           | Some h \<Rightarrow>
               (case hex_value (hd0 (tl (tl p))) of
                  None \<Rightarrow> None
                | Some l \<Rightarrow>
                    map_option (Cons (char_of (push_bit 4 h + l)))
                      (binary_to_raw_bytes (tl (tl (tl p))))))"
  by pat_completeness auto
termination
  by (relation "measure length") (auto simp: hd0_def split: list.splits)

declare binary_to_raw_bytes.simps [simp del]

section \<open>What search, replacement and encoding compute\<close>

lemma matches_at_iff:
  "matches_at case_counts what s \<longleftrightarrow>
     (if case_counts then prefix (cstr what) (cstr s) else prefix (folded what) (folded s))"
proof -
  have p: "take (length xs) ys = xs \<longleftrightarrow> prefix xs ys" for xs ys :: string
    by (metis append_eq_conv_conj prefix_def)
  show ?thesis
    using p [of "cstr what" "cstr s"] p [of "folded what" "folded s"]
    by (simp add: matches_at_def strncmp_eq_0 mystrncasecmp_eq_0 folded_def Let_def)
qed

lemma cstr_drop: "n \<le> length (cstr s) \<Longrightarrow> cstr (drop n s) = drop n (cstr s)"
proof (induction s arbitrary: n)
  case (Cons c s)
  then show ?case by (cases n) (auto split: if_splits)
qed simp

lemma strsub_loop_Some:
  assumes "cstr what \<noteq> []"
  shows "\<exists>r. strsub_loop cc what with source acc = Some r"
proof (induction source arbitrary: acc rule: length_induct)
  case (1 source)
  show ?case
  proof (cases "hd0 source = NUL")
    case True
    then show ?thesis by (simp add: strsub_loop.simps)
  next
    case False
    then have "source \<noteq> []" by auto
    then have "length (tl source) < length source"
      "length (drop (length (cstr what)) source) < length source"
      using assms by auto
    with "1.IH" show ?thesis
      by (subst strsub_loop.simps) (auto split: if_splits)
  qed
qed

lemma strsub_loop_self:
  assumes "cstr what \<noteq> []"
  shows "strsub_loop True what what source acc = Some (acc @ cstr source)"
proof (induction source arbitrary: acc rule: length_induct)
  case (1 source)
  show ?case
  proof (cases source)
    case Nil
    then show ?thesis by (simp add: strsub_loop.simps)
  next
    case (Cons c s)
    show ?thesis
    proof (cases "prefix (cstr what) (cstr source)")
      case True
      then obtain rest where rest: "cstr source = cstr what @ rest" by (auto simp: prefix_def)
      let ?n = "length (cstr what)"
      have "cstr (drop ?n source) = rest" using rest cstr_drop [of ?n source] by simp
      moreover have "length (drop ?n source) < length source" using Cons assms by simp
      moreover have "hd0 source \<noteq> NUL" using rest Cons assms by auto
      ultimately show ?thesis
        using "1.IH" True rest by (subst strsub_loop.simps) (simp add: matches_at_iff)
    next
      case False
      then show ?thesis
        using "1.IH" Cons by (subst strsub_loop.simps) (auto simp: matches_at_iff)
    qed
  qed
qed

lemma put_utf_no_NUL:
  assumes "scalar v"
  shows "NUL \<notin> set (the (put_utf v))"
proof -
  have ne: "NUL \<noteq> char_of n" if "0 < n" "n < 256" for n :: int
  proof
    assume "NUL = char_of n"
    then have "byte (char_of n) = 0" by (metis byte_eq_0)
    with that show False by (simp del: byte_eq_0)
  qed
  have cont: "NUL \<noteq> char_of (128 OR x mod 64)" for x :: int
    using ne [of "128 + x mod 64"] by (simp add: cont_byte)
  have "put_utf v = Some (the (put_utf v))" "0 \<le> v" "v < 2 ^ 31" "0 < v"
    using assms scalar_put_utf by (auto simp: scalar_def)
  then show ?thesis
  proof (cases rule: put_utf_cases)
    case 1
    then show ?thesis using ne [of v] \<open>0 < v\<close> by (simp only: list.set) simp
  next
    case 2
    have "NUL \<noteq> char_of (192 OR v div 64)"
      using ne [of "192 + v div 64"] 2 by (simp add: lead2_byte)
    with 2 cont show ?thesis by (simp only: list.set) blast
  next
    case 3
    have "NUL \<noteq> char_of (224 OR v div 64 div 64)"
      using ne [of "224 + v div 64 div 64"] 3 by (simp add: lead3_byte)
    with 3 cont show ?thesis by (simp only: list.set) blast
  next
    case 4
    have "NUL \<noteq> char_of (240 OR v div 64 div 64 div 64)"
      using ne [of "240 + v div 64 div 64 div 64"] 4 by (simp add: lead4_byte)
    with 4 cont show ?thesis by (simp only: list.set) blast
  qed
qed

lemma utf_encode_eq_Nil: "list_all scalar vs \<Longrightarrow> utf_encode vs = [] \<longleftrightarrow> vs = []"
  by (cases vs) (auto simp: put_utf_nonempty)

lemma cstr_encode: "list_all scalar vs \<Longrightarrow> cstr (utf_encode vs) = utf_encode vs"
  by (rule cstr_id) (induction vs, auto dest: put_utf_no_NUL)

lemma prefix_encode:
  assumes "list_all scalar ws" "list_all scalar vs"
  shows "prefix (utf_encode ws) (utf_encode vs) \<longleftrightarrow> prefix ws vs"
  using assms
proof (induction ws arbitrary: vs)
  case (Cons w ws)
  show ?case
  proof (cases vs)
    case Nil
    then show ?thesis using put_utf_nonempty [of w] Cons.prems by simp
  next
    case (Cons v vs')
    have "v = w" if pre: "prefix (utf_encode (w # ws)) (utf_encode vs)"
    proof -
      obtain z where "utf_encode vs = utf_encode (w # ws) @ z"
        using pre unfolding prefix_def by blast
      then have "get_utf (the (put_utf v) @ utf_encode vs') =
          get_utf (the (put_utf w) @ utf_encode ws @ z)"
        using Cons by simp
      then show "v = w" using Cons.prems \<open>vs = v # vs'\<close> by (simp add: get_utf_encode)
    qed
    then show ?thesis using Cons.IH [of vs'] Cons.prems Cons by auto
  qed
qed simp


lemma length_encode_drop: "length (utf_encode (drop i vs)) \<le> length (utf_encode vs)"
  by (metis append_take_drop_id le_add2 length_append utf_encode_simps(3))

text \<open>\<open>r\<close> is the result of a search that started counting at \<open>ind\<close>.\<close>

definition first_match :: "int list \<Rightarrow> int list \<Rightarrow> int \<Rightarrow> int \<Rightarrow> bool" where
  "first_match ws vs ind r \<longleftrightarrow>
     (r = 0 \<and> (\<forall>i. \<not> prefix ws (drop i vs))) \<or>
     (\<exists>i. r = ind + int i + 1 \<and> prefix ws (drop i vs) \<and> (\<forall>j < i. \<not> prefix ws (drop j vs)))"

lemma first_match_Cons:
  assumes "\<not> prefix ws (v # vs)" "first_match ws vs (ind + 1) r"
  shows "first_match ws (v # vs) ind r"
proof -
  have shift: "prefix ws (drop i (v # vs)) \<Longrightarrow> \<exists>j. i = Suc j \<and> prefix ws (drop j vs)" for i
    using assms(1) by (cases i) auto
  from assms(2) consider "r = 0" "\<forall>i. \<not> prefix ws (drop i vs)"
    | i where "r = ind + 1 + int i + 1" "prefix ws (drop i vs)" "\<forall>j < i. \<not> prefix ws (drop j vs)"
    by (auto simp: first_match_def)
  then show ?thesis
  proof cases
    case 1
    then show ?thesis using shift unfolding first_match_def by blast
  next
    case (2 i)
    then have "r = ind + int (Suc i) + 1 \<and> prefix ws (drop (Suc i) (v # vs))
        \<and> (\<forall>j < Suc i. \<not> prefix ws (drop j (v # vs)))"
      using shift by fastforce
    then show ?thesis unfolding first_match_def by blast
  qed
qed

lemma strindex_loop_encode:
  assumes "list_all scalar ws" "list_all scalar vs"
  shows "first_match ws vs ind (strindex_loop True (utf_encode ws) (utf_encode vs) ind)"
  using assms(2)
proof (induction vs arbitrary: ind)
  case Nil
  show ?case
    using assms(1) utf_encode_eq_Nil [of ws]
    by (simp add: strindex_loop.simps first_match_def cstr_encode matches_at_iff)
next
  case (Cons v vs)
  let ?s = "utf_encode (v # vs)"
  have m: "matches_at True (utf_encode ws) ?s \<longleftrightarrow> prefix ws (v # vs)"
    using Cons.prems assms(1) prefix_encode [of ws "v # vs"] cstr_encode [of "v # vs"]
    by (simp add: matches_at_iff cstr_encode)
  show ?case
  proof (cases "length (utf_encode ws) \<le> length ?s")
    case False
    have "\<not> prefix ws (drop i (v # vs))" for i
    proof
      assume "prefix ws (drop i (v # vs))"
      moreover have "list_all scalar (drop i (v # vs))"
        using Cons.prems set_drop_subset [of i "v # vs"] by (auto simp: list_all_iff)
      ultimately have "prefix (utf_encode ws) (utf_encode (drop i (v # vs)))"
        using assms(1) by (simp add: prefix_encode)
      then have "length (utf_encode ws) \<le> length ?s"
        using length_encode_drop [of i "v # vs"] prefix_length_le le_trans by blast
      with False show False by simp
    qed
    moreover have "strindex_loop True (utf_encode ws) ?s ind = 0"
      using False assms(1) by (subst strindex_loop.simps) (simp add: cstr_encode)
    ultimately show ?thesis unfolding first_match_def by blast
  next
    case True
    show ?thesis
    proof (cases "prefix ws (v # vs)")
      case hit: True
      then have "strindex_loop True (utf_encode ws) ?s ind = ind + 1"
        using True m assms(1) by (subst strindex_loop.simps) (simp add: cstr_encode)
      then show ?thesis
        using hit unfolding first_match_def by (intro disjI2 exI [of _ 0]) simp
    next
      case miss: False
      then have "strindex_loop True (utf_encode ws) ?s ind =
          strindex_loop True (utf_encode ws) (utf_encode vs) (ind + 1)"
        using True m assms(1) Cons.prems
        by (subst strindex_loop.simps) (simp add: cstr_encode get_utf_encode)
      then show ?thesis
        using miss Cons first_match_Cons by simp
    qed
  qed
qed

lemma strindex_encode:
  assumes "list_all scalar ws" "list_all scalar vs"
  shows "first_match ws vs 0 (strindex (utf_encode vs) (utf_encode ws) True)"
  using strindex_loop_encode [OF assms] assms by (simp add: strindex_def cstr_encode)

lemma hex_digit_value:
  assumes "0 \<le> n" "n < 16"
  shows "hex_value (hex_digit n) = Some n"
proof -
  have "list_all (\<lambda>n. hex_value (hex_digit n) = Some n) [0..15]" by code_simp
  with assms show ?thesis by (simp add: list_all_iff)
qed

lemma hex_digit_not_NUL: "0 \<le> n \<Longrightarrow> n < 16 \<Longrightarrow> hex_digit n \<noteq> NUL"
  using hex_digit_value [of n] by (auto simp: hex_value_def)

lemma binary_round_trip: "binary_to_raw_bytes (raw_bytes_to_binary bs) = Some bs"
proof (induction bs)
  case Nil
  then show ?case by (simp add: raw_bytes_to_binary_def binary_to_raw_bytes.simps)
next
  case (Cons c bs)
  let ?rest = "raw_bytes_to_binary bs"
  have split: "raw_bytes_to_binary (c # bs) = raw_byte_to_binary c @ ?rest"
    by (simp add: raw_bytes_to_binary_def)
  show ?case
  proof (cases "32 \<le> byte c \<and> byte c < 126")
    case True
    then have "c \<noteq> NUL" "c \<noteq> CHR ''~''" by auto
    with True Cons show ?thesis
      by (simp add: split raw_byte_to_binary_def binary_to_raw_bytes.simps [of "c # _"])
  next
    case False
    have "0 \<le> x div 16 \<and> x div 16 < 16" if "0 \<le> x" "x < 256" for x :: int
      using that by presburger
    then have "0 \<le> byte c div 16" "byte c div 16 < 16" "0 \<le> byte c mod 16" "byte c mod 16 < 16"
      by simp_all
    then show ?thesis
      using False Cons byte_bounds [of c]
      by (auto simp: split raw_byte_to_binary_def binary_to_raw_bytes.simps [of "CHR ''~'' # _"]
          hex_digit_value push_bit_eq_mult)
  qed
qed
section \<open>Properties\<close>

text \<open>C34: \<open>mystrcasecmp\<close> is zero exactly on strings that agree up to case (up to the first NUL),
  and such strings have the same \<open>str_hash\<close>, so the hash comparison that the property and
  verb lookups make before the string comparison never rejects a match.\<close>

theorem name_comparison:
  "(mystrcasecmp s t = 0 \<longleftrightarrow> folded s = folded t) \<and>
   (mystrcasecmp s t = 0 \<longrightarrow> str_hash s = str_hash t)"
  by (auto simp: mystrcasecmp_eq_0 intro: str_hash_folded)

theorem name_comparison_witness:
  "mystrcasecmp ''Look'' ''lOOK'' = 0 \<and> str_hash ''Look'' = str_hash ''lOOK''"
proof -
  have "mystrcasecmp ''Look'' ''lOOK'' = 0" by code_simp
  then show ?thesis using name_comparison [of "''Look''" "''lOOK''"] by blast
qed

text \<open>C16: the pointer-walking matcher \<open>verbcasecmp\<close> accepts a word exactly when one of the
  blank-separated names of the verb accepts it by the rule \<open>alias_matches\<close>: the name without
  its stars, an abbreviation that reaches the first star, or any extension of a name that ends
  in a star. Only the test for identical string objects, \<open>same\<close>, bypasses the rule.\<close>

theorem verbcasecmp_correct:
  "verbcasecmp same v w \<longleftrightarrow> same \<or> (\<exists>a \<in> set (verb_names v). alias_matches a (cstr w))"
  by (simp add: verbcasecmp_def verb_loop_iff)




text \<open>\<open>strrindex\<close> skips the lead byte of a character it steps back over, so an occurrence that
  starts with a multi-byte character is found only at the very end of the string: in the
  characters 233, 120, 120 the forward search finds 233 and the backward search does not.\<close>

lemma strrindex_misses:
  "strindex (utf_encode [233, 120, 120]) (utf_encode [233]) True = 1 \<and>
   strrindex (utf_encode [233, 120, 120]) (utf_encode [233]) True = Some 0"
  by code_simp

text \<open>C36: \<open>strsub\<close> returns whenever the replaced text is not empty (\<open>bf_strsub\<close> rejects an empty
  one), and replacing a text by itself, case mattering, gives back the string.\<close>

theorem strsub_returns:
  assumes "cstr what \<noteq> []"
  shows "(\<exists>r. strsub source what with case_counts = Some r) \<and>
    strsub source what what True = Some (cstr source)"
  using strsub_loop_Some [OF assms] strsub_loop_self [OF assms] by (simp add: strsub_def)

theorem strsub_returns_witness:
  "cstr ''ab'' \<noteq> [] \<and> (\<exists>r. strsub ''xaby'' ''ab'' ''c'' False = Some r) \<and>
   strsub ''xaby'' ''ab'' ''ab'' True = Some ''xaby''"
  using strsub_returns [of "''ab''" "''xaby''" "''c''" False] by simp

text \<open>C37: \<open>binary_to_raw_bytes\<close> inverts \<open>raw_bytes_to_binary\<close> on every byte sequence.\<close>

theorem binary_strings_round_trip:
  "binary_to_raw_bytes (raw_bytes_to_binary bs) = Some bs"
  by (rule binary_round_trip)

text \<open>The decoder also takes the control bytes 16 to 25 for decimal digits, since it sets bit
  5 of every digit to fold capitals.\<close>

lemma binary_accepts_control_digits:
  "binary_to_raw_bytes [CHR ''~'', CHR 0x14, CHR 0x11] = Some [CHR 0x41]"
  by code_simp

end
