(* ===== verification/Values.thy ===== *)
theory Values
  imports Strings
begin

text \<open>
  Values as \<^verbatim>\<open>utils.c\<close> and \<^verbatim>\<open>list.c\<close> treat them: truth, equality, sizes, and the operations on
  lists and strings that the interpreter and the built-in functions share. Lists are the
  elements 1 to n of the C array; element \<open>i\<close> is \<open>elt xs i\<close>.

  The list operations are translated with their index loops, and proved equal to the list
  functions one would write for them; \<open>equality\<close> is shown to be an equivalence relation that
  never panics on the values a program can hold.
\<close>

section \<open>Truth and equality\<close>

text \<open>Element \<open>i\<close> of a list, counted from 1; the callers keep \<open>i\<close> in range.\<close>

definition elt :: "'a list \<Rightarrow> int \<Rightarrow> 'a" where
  "elt xs i = xs ! nat (i - 1)"

abbreviation len :: "'a list \<Rightarrow> int" where
  "len xs \<equiv> int (length xs)"

fun is_true :: "Var \<Rightarrow> bool" where
  "is_true (TYPE_INT n) \<longleftrightarrow> n \<noteq> 0"
| "is_true (TYPE_FLOAT d) \<longleftrightarrow> \<not> dbl_eq d 0"
| "is_true (TYPE_STR s) \<longleftrightarrow> hd0 s \<noteq> NUL"
| "is_true (TYPE_LIST xs) \<longleftrightarrow> xs \<noteq> []"
| "is_true _ \<longleftrightarrow> False"

fun do_equals :: "Var \<Rightarrow> Var \<Rightarrow> bool" where
  "do_equals (TYPE_FLOAT a) (TYPE_FLOAT b) \<longleftrightarrow> dbl_eq a b"
| "do_equals _ _ \<longleftrightarrow> False"

definition is_float :: "Var \<Rightarrow> bool" where
  "is_float v = (case v of TYPE_FLOAT _ \<Rightarrow> True | _ \<Rightarrow> False)"

text \<open>\<open>None\<close> is the panic on a value type that no program can hold.\<close>

fun equality :: "Var \<Rightarrow> Var \<Rightarrow> bool \<Rightarrow> bool option"
  and equality_list :: "Var list \<Rightarrow> Var list \<Rightarrow> bool \<Rightarrow> bool option" where
  "equality lhs rhs case_matters =
     (if is_float lhs \<or> is_float rhs then Some (do_equals lhs rhs)
      else if var_type lhs \<noteq> var_type rhs then Some False
      else case (lhs, rhs) of
             (TYPE_INT a, TYPE_INT b) \<Rightarrow> Some (a = b)
           | (TYPE_OBJ a, TYPE_OBJ b) \<Rightarrow> Some (a = b)
           | (TYPE_ERR a, TYPE_ERR b) \<Rightarrow> Some (a = b)
           | (TYPE_STR a, TYPE_STR b) \<Rightarrow>
               Some (if case_matters then strcmp a b = 0 else mystrcasecmp a b = 0)
           | (TYPE_LIST xs, TYPE_LIST ys) \<Rightarrow>
               (if length xs \<noteq> length ys then Some False else equality_list xs ys case_matters)
           | (TYPE_WAIF v, TYPE_WAIF w) \<Rightarrow> Some (waif_address v = waif_address w)
           | _ \<Rightarrow> None)"
| "equality_list (x # xs) (y # ys) case_matters =
     (case equality x y case_matters of
        None \<Rightarrow> None
      | Some False \<Rightarrow> Some False
      | Some True \<Rightarrow> equality_list xs ys case_matters)"
| "equality_list _ _ case_matters = Some True"

section \<open>Membership and list surgery\<close>

text \<open>\<open>ismember\<close>: the first position that is equal, 0 if none; \<open>None\<close> on a panic.\<close>

fun ismember_from :: "int \<Rightarrow> Var \<Rightarrow> Var list \<Rightarrow> bool \<Rightarrow> int option" where
  "ismember_from i lhs [] case_matters = Some 0"
| "ismember_from i lhs (x # xs) case_matters =
     (case equality lhs x case_matters of
        None \<Rightarrow> None
      | Some b \<Rightarrow> if b then Some i else ismember_from (i + 1) lhs xs case_matters)"

definition ismember :: "Var \<Rightarrow> Var list \<Rightarrow> bool \<Rightarrow> int option" where
  "ismember lhs rhs case_matters = ismember_from 1 lhs rhs case_matters"

definition listset :: "Var list \<Rightarrow> Var \<Rightarrow> int \<Rightarrow> Var list" where
  "listset xs value pos = xs[nat (pos - 1) := value]"

text \<open>The elements 1 to \<open>n\<close> that a loop stores into a new list.\<close>

definition build_list :: "int \<Rightarrow> (int \<Rightarrow> 'a) \<Rightarrow> 'a list" where
  "build_list n f = map f [1..n]"

definition doinsert :: "Var list \<Rightarrow> Var \<Rightarrow> int \<Rightarrow> Var list" where
  "doinsert xs value pos =
     build_list (len xs + 1)
       (\<lambda>i. if i < pos then elt xs i else if i = pos then value else elt xs (i - 1))"

definition listinsert :: "Var list \<Rightarrow> Var \<Rightarrow> int \<Rightarrow> Var list" where
  "listinsert xs value pos =
     (if pos \<le> 0 then doinsert xs value 1
      else if pos > len xs then doinsert xs value (len xs + 1)
      else doinsert xs value pos)"

definition listappend :: "Var list \<Rightarrow> Var \<Rightarrow> Var list" where
  "listappend xs value = doinsert xs value (len xs + 1)"

definition listdelete :: "Var list \<Rightarrow> int \<Rightarrow> Var list" where
  "listdelete xs pos =
     build_list (len xs - 1) (\<lambda>i. if i < pos then elt xs i else elt xs (i + 1))"

definition listconcat :: "Var list \<Rightarrow> Var list \<Rightarrow> Var list" where
  "listconcat first second =
     build_list (len second + len first)
       (\<lambda>i. if i \<le> len first then elt first i else elt second (i - len first))"

definition listrangeset :: "Var list \<Rightarrow> int \<Rightarrow> int \<Rightarrow> Var list \<Rightarrow> Var list" where
  "listrangeset base from to value =
     (let val_len = len value; base_len = len base;
          lenleft = (if from > 1 then from - 1 else 0);
          lenmiddle = val_len;
          lenright = (if base_len > to then base_len - to else 0)
      in build_list lenleft (elt base) @ build_list lenmiddle (elt value)
         @ build_list lenright (\<lambda>index. elt base (to + index)))"

definition sublist :: "Var list \<Rightarrow> int \<Rightarrow> int \<Rightarrow> Var list" where
  "sublist xs lower upper =
     (if lower > upper then []
      else build_list (upper - lower + 1) (\<lambda>j. elt xs (j + lower - 1)))"

definition setadd :: "Var list \<Rightarrow> Var \<Rightarrow> Var list option" where
  "setadd xs value =
     map_option (\<lambda>i. if i \<noteq> 0 then xs else listappend xs value) (ismember value xs False)"

definition setremove :: "Var list \<Rightarrow> Var \<Rightarrow> Var list option" where
  "setremove xs value =
     map_option (\<lambda>i. if i \<noteq> 0 then listdelete xs i else xs) (ismember value xs False)"

section \<open>Substrings\<close>

text \<open>Offsets are in bytes; \<open>skip_utf\<close> turns character counts into them.\<close>

definition strrangeset :: "string \<Rightarrow> int \<Rightarrow> int \<Rightarrow> string \<Rightarrow> string" where
  "strrangeset base from to value =
     (let charsleft = (if from > 1 then from - 1 else 0);
          lenleft = skip_utf base charsleft;
          indright = lenleft + skip_utf (drop lenleft base) (to - from + 1)
      in take lenleft base @ value @ drop indright base)"

definition substr :: "string \<Rightarrow> int \<Rightarrow> int \<Rightarrow> string" where
  "substr str lower upper =
     (if lower > upper then []
      else let lower_ind = skip_utf str (lower - 1);
               upper_ind = lower_ind + skip_utf (drop lower_ind str) (upper + 1 - lower)
           in take (upper_ind - lower_ind) (drop lower_ind str))"

definition strget :: "string \<Rightarrow> int \<Rightarrow> string" where
  "strget str i =
     (let ind = skip_utf str (i - 1); n = clearance_utf (hd0 (drop ind str))
      in take n (cstr (drop ind str)))"

section \<open>Sizes and printed forms\<close>

text \<open>\<^verbatim>\<open>sizeof(Var)\<close> is 16 and \<^verbatim>\<open>sizeof(double)\<close> is 8; the size of a waif comes from
  \<^verbatim>\<open>waif.c\<close> and is a parameter.\<close>

fun value_bytes :: "(waif \<Rightarrow> int) \<Rightarrow> Var \<Rightarrow> int"
  and values_bytes :: "(waif \<Rightarrow> int) \<Rightarrow> Var list \<Rightarrow> int" where
  "value_bytes waif_bytes (TYPE_STR s) = 16 + len (cstr s) + 1"
| "value_bytes waif_bytes (TYPE_FLOAT d) = 16 + 8"
| "value_bytes waif_bytes (TYPE_LIST xs) = 16 + 16 + values_bytes waif_bytes xs"
| "value_bytes waif_bytes (TYPE_WAIF w) = 16 + waif_bytes w"
| "value_bytes waif_bytes _ = 16"
| "values_bytes waif_bytes [] = 0"
| "values_bytes waif_bytes (x # xs) = value_bytes waif_bytes x + values_bytes waif_bytes xs"

text \<open>The conversion \<^verbatim>\<open>%d\<close> of \<^verbatim>\<open>printf\<close>.\<close>

fun decimal :: "nat \<Rightarrow> string" where
  "decimal n = (if n < 10 then [char_of (0x30 + n)] else decimal (n div 10) @ [char_of (0x30 + n mod 10)])"

declare decimal.simps [simp del]

definition printf_d :: "int \<Rightarrow> string" where
  "printf_d n = (if n < 0 then CHR ''-'' # decimal (nat (- n)) else decimal (nat n))"

fun unparse_error :: "error \<Rightarrow> string" where
  "unparse_error E_NONE = ''No error''"
| "unparse_error E_TYPE = ''Type mismatch''"
| "unparse_error E_DIV = ''Division by zero''"
| "unparse_error E_PERM = ''Permission denied''"
| "unparse_error E_PROPNF = ''Property not found''"
| "unparse_error E_VERBNF = ''Verb not found''"
| "unparse_error E_VARNF = ''Variable not found''"
| "unparse_error E_INVIND = ''Invalid indirection''"
| "unparse_error E_RECMOVE = ''Recursive move''"
| "unparse_error E_MAXREC = ''Too many verb calls''"
| "unparse_error E_RANGE = ''Range error''"
| "unparse_error E_ARGS = ''Incorrect number of arguments''"
| "unparse_error E_NACC = ''Move refused by destination''"
| "unparse_error E_INVARG = ''Invalid argument''"
| "unparse_error E_QUOTA = ''Resource limit exceeded''"
| "unparse_error E_FLOAT = ''Floating-point arithmetic error''"

fun error_name :: "error \<Rightarrow> string" where
  "error_name E_NONE = ''E_NONE''"
| "error_name E_TYPE = ''E_TYPE''"
| "error_name E_DIV = ''E_DIV''"
| "error_name E_PERM = ''E_PERM''"
| "error_name E_PROPNF = ''E_PROPNF''"
| "error_name E_VERBNF = ''E_VERBNF''"
| "error_name E_VARNF = ''E_VARNF''"
| "error_name E_INVIND = ''E_INVIND''"
| "error_name E_RECMOVE = ''E_RECMOVE''"
| "error_name E_MAXREC = ''E_MAXREC''"
| "error_name E_RANGE = ''E_RANGE''"
| "error_name E_ARGS = ''E_ARGS''"
| "error_name E_NACC = ''E_NACC''"
| "error_name E_INVARG = ''E_INVARG''"
| "error_name E_QUOTA = ''E_QUOTA''"
| "error_name E_FLOAT = ''E_FLOAT''"

text \<open>The library's \<^verbatim>\<open>%.*g\<close> formatting of a double is the parameter \<open>fmt_g\<close>.\<close>

definition float2str :: "(double \<Rightarrow> string) \<Rightarrow> double \<Rightarrow> string" where
  "float2str fmt_g n =
     (let buffer = fmt_g n
      in if CHR ''.'' \<notin> set buffer \<and> CHR ''e'' \<notin> set buffer then buffer @ ''.0'' else buffer)"

text \<open>\<open>None\<close> is the panic on an impossible type.\<close>

fun list2str_elt :: "(double \<Rightarrow> string) \<Rightarrow> Var \<Rightarrow> string option" where
  "list2str_elt fmt_g (TYPE_INT n) = Some (printf_d n)"
| "list2str_elt fmt_g (TYPE_OBJ n) = Some (CHR ''#'' # printf_d n)"
| "list2str_elt fmt_g (TYPE_STR s) = Some (cstr s)"
| "list2str_elt fmt_g (TYPE_ERR e) = Some (unparse_error e)"
| "list2str_elt fmt_g (TYPE_FLOAT d) = Some (float2str fmt_g d)"
| "list2str_elt fmt_g (TYPE_LIST _) = Some ''{list}''"
| "list2str_elt fmt_g (TYPE_WAIF _) = Some ''{waif}''"
| "list2str_elt fmt_g _ = None"

fun list2str :: "(double \<Rightarrow> string) \<Rightarrow> Var list \<Rightarrow> string option" where
  "list2str fmt_g [] = Some []"
| "list2str fmt_g (v # vs) =
     (case list2str_elt fmt_g v of
        None \<Rightarrow> None
      | Some s \<Rightarrow> map_option ((@) s) (list2str fmt_g vs))"

fun escape_str :: "string \<Rightarrow> string" where
  "escape_str [] = []"
| "escape_str (c # s) =
     (if c = NUL then []
      else if c = CHR 0x22 \<or> c = CHR 0x5C then CHR 0x5C # c # escape_str s
      else c # escape_str s)"

fun print_to_stream :: "(double \<Rightarrow> string) \<Rightarrow> Var \<Rightarrow> string"
  and print_elements :: "(double \<Rightarrow> string) \<Rightarrow> string \<Rightarrow> Var list \<Rightarrow> string" where
  "print_to_stream fmt_g (TYPE_INT n) = printf_d n"
| "print_to_stream fmt_g (TYPE_OBJ n) = CHR ''#'' # printf_d n"
| "print_to_stream fmt_g (TYPE_ERR e) = error_name e"
| "print_to_stream fmt_g (TYPE_FLOAT d) = float2str fmt_g d"
| "print_to_stream fmt_g (TYPE_STR s) = CHR 0x22 # escape_str s @ [CHR 0x22]"
| "print_to_stream fmt_g (TYPE_LIST xs) = CHR ''{'' # print_elements fmt_g '''' xs @ [CHR ''}'']"
| "print_to_stream fmt_g (TYPE_WAIF w) =
     ''[[class = #'' @ printf_d (waif_class w) @ '', owner = #'' @ printf_d (waif_owner w) @ '']]''"
| "print_to_stream fmt_g _ = ''>>Unknown value<<''"
| "print_elements fmt_g sep [] = []"
| "print_elements fmt_g sep (x # xs) =
     sep @ print_to_stream fmt_g x @ print_elements fmt_g '', '' xs"

section \<open>The loops as list functions\<close>

lemma length_build_list [simp]: "length (build_list n f) = nat n"
  by (simp add: build_list_def)

lemma nth_build_list [simp]: "i < nat n \<Longrightarrow> build_list n f ! i = f (1 + int i)"
  by (simp add: build_list_def)

lemma doinsert_eq:
  assumes "1 \<le> pos" "pos \<le> len xs + 1"
  shows "doinsert xs v pos = take (nat (pos - 1)) xs @ v # drop (nat (pos - 1)) xs"
proof -
  define k where "k = nat (pos - 1)"
  have k: "pos = int k + 1" "k \<le> length xs" using assms by (simp_all add: k_def)
  show ?thesis
    by (rule nth_equalityI)
      (use k in \<open>auto simp: doinsert_def elt_def k_def [symmetric] nth_append nth_Cons min_def
         split: nat.splits intro!: arg_cong [where f = "(!) xs"]\<close>)
qed

lemma listdelete_eq:
  assumes "1 \<le> pos" "pos \<le> len xs"
  shows "listdelete xs pos = take (nat (pos - 1)) xs @ drop (nat pos) xs"
proof -
  define k where "k = nat (pos - 1)"
  have k: "pos = int k + 1" "k < length xs" using assms by (auto simp: k_def)
  have "nat pos = Suc k" using k by simp
  then show ?thesis
    by (intro nth_equalityI)
      (use k in \<open>auto simp: listdelete_def elt_def k_def [symmetric] nth_append min_def\<close>)
qed

lemma listconcat_eq: "listconcat xs ys = xs @ ys"
  by (rule nth_equalityI) (auto simp: listconcat_def elt_def nth_append nat_add_distrib)

lemma build_list_elt: "0 \<le> k \<Longrightarrow> 0 \<le> n \<Longrightarrow> k + n \<le> len xs \<Longrightarrow>
    build_list n (\<lambda>i. elt xs (k + i)) = take (nat n) (drop (nat k) xs)"
  by (rule nth_equalityI) (auto simp: elt_def nat_add_distrib algebra_simps)

lemma sublist_eq:
  assumes "1 \<le> lower" "upper \<le> len xs"
  shows "sublist xs lower upper = take (nat (upper - lower + 1)) (drop (nat (lower - 1)) xs)"
proof (cases "lower > upper")
  case False
  then have "sublist xs lower upper =
      build_list (upper - lower + 1) (\<lambda>i. elt xs ((lower - 1) + i))"
    by (simp add: sublist_def algebra_simps)
  with False assms show ?thesis by (simp add: build_list_elt)
qed (simp add: sublist_def)

lemma build_list_elt0: "0 \<le> n \<Longrightarrow> n \<le> len xs \<Longrightarrow> build_list n (elt xs) = take (nat n) xs"
  using build_list_elt [of 0 n xs] by simp

lemma listrangeset_eq:
  assumes "from \<le> len base + 1" "0 \<le> to"
  shows "listrangeset base from to value =
    take (nat (from - 1)) base @ value @ drop (nat to) base"
proof -
  let ?l = "if from > 1 then from - 1 else 0" and ?r = "if len base > to then len base - to else 0"
  have "build_list ?l (elt base) = take (nat (from - 1)) base"
    using assms by (simp add: build_list_elt0)
  moreover have "build_list ?r (\<lambda>i. elt base (to + i)) = drop (nat to) base"
    using assms build_list_elt [of to ?r base] by (cases "to < len base") (auto simp: build_list_def)
  moreover have "build_list (len value) (elt value) = value"
    by (simp add: build_list_elt0)
  ultimately show ?thesis by (simp add: listrangeset_def Let_def)
qed

section \<open>Equality\<close>

text \<open>The values a program can hold, floats being finite.\<close>

fun user_value :: "Var \<Rightarrow> bool" where
  "user_value (TYPE_LIST xs) \<longleftrightarrow> list_all user_value xs"
| "user_value (TYPE_FLOAT d) \<longleftrightarrow> IS_REAL d"
| "user_value TYPE_CLEAR \<longleftrightarrow> False"
| "user_value TYPE_NONE \<longleftrightarrow> False"
| "user_value (TYPE_CATCH _) \<longleftrightarrow> False"
| "user_value (TYPE_FINALLY _) \<longleftrightarrow> False"
| "user_value _ \<longleftrightarrow> True"

text \<open>The representative of a value's equivalence class.\<close>

fun canon :: "bool \<Rightarrow> Var \<Rightarrow> Var" where
  "canon case_matters (TYPE_STR s) = TYPE_STR (if case_matters then cstr s else folded s)"
| "canon case_matters (TYPE_LIST xs) = TYPE_LIST (map (canon case_matters) xs)"
| "canon case_matters (TYPE_FLOAT d) = TYPE_FLOAT (if dbl_key d = 0 then 0 else d)"
| "canon case_matters (TYPE_WAIF w) = TYPE_WAIF (Waif (waif_address w) 0 0)"
| "canon case_matters v = v"

lemma dbl_key_inject:
  assumes "dbl_key a = dbl_key b" "dbl_key a \<noteq> 0"
  shows "a = b"
proof -
  have m: "dbl_magnitude a = dbl_magnitude b" "uint a < 2 ^ 63 \<longleftrightarrow> uint b < 2 ^ 63"
    using assms dbl_magnitude_nonneg [of a] dbl_magnitude_nonneg [of b]
    unfolding dbl_key_def by (simp_all split: if_splits; linarith)+
  have "uint x = (if uint x < 2 ^ 63 then dbl_magnitude x else dbl_magnitude x + 2 ^ 63)" for x :: double
  proof (cases "uint x < 2 ^ 63")
    case False
    have "uint x < 2 ^ 64" using uint_bounded [of x] by simp
    with False have "(uint x - 2 ^ 63) mod 2 ^ 63 = uint x - 2 ^ 63"
      by (intro mod_pos_pos_trivial) auto
    moreover have "(uint x - 2 ^ 63) mod 2 ^ 63 = uint x mod 2 ^ 63"
      by (rule minus_mod_self2)
    ultimately show ?thesis using False by (simp add: dbl_magnitude_def)
  qed (simp add: dbl_magnitude_def)
  then have "uint a = uint b" using m by metis
  then show ?thesis by (simp add: word_uint_eq_iff)
qed

lemma dbl_eq_canon:
  assumes "IS_REAL a" "IS_REAL b"
  shows "dbl_eq a b \<longleftrightarrow> (if dbl_key a = 0 then 0 else a) = (if dbl_key b = 0 then 0 else b)"
proof -
  have "dbl_key 0 = 0" by (simp add: dbl_key_def dbl_magnitude_def)
  moreover have "\<not> dbl_nan a" "\<not> dbl_nan b" using assms by (auto simp: IS_REAL_iff dbl_nan_def)
  ultimately show ?thesis using dbl_key_inject [of a b] by (auto simp: dbl_eq_def)
qed

declare equality.simps [simp del]

lemma equality_canon:
  "user_value a \<Longrightarrow> user_value b \<Longrightarrow> equality a b cm = Some (canon cm a = canon cm b)"
  "list_all user_value xs \<Longrightarrow> list_all user_value ys \<Longrightarrow> length xs = length ys \<Longrightarrow>
     equality_list xs ys cm = Some (map (canon cm) xs = map (canon cm) ys)"
proof (induction a b cm and xs ys cm rule: equality_equality_list.induct)
  case (1 lhs rhs cm)
  then show ?case
    by (cases lhs; cases rhs)
      (auto simp: equality.simps is_float_def dbl_eq_canon strcmp_eq_0 mystrcasecmp_eq_0
        dest: map_eq_imp_length_eq)
next
  case (2 x xs y ys cm)
  then show ?case by (auto split: bool.splits)
qed auto
lemma ismember_from_eq:
  assumes "user_value v" "list_all user_value xs"
  shows "ismember_from i v xs cm =
    Some (if \<exists>x \<in> set xs. canon cm x = canon cm v
          then i + len (takeWhile (\<lambda>x. canon cm x \<noteq> canon cm v) xs) else 0)"
  using assms(2)
proof (induction xs arbitrary: i)
  case (Cons x xs)
  then show ?case using assms(1) by (auto simp: equality_canon(1))
qed simp

lemma length_takeWhile_found: "x \<in> set xs \<Longrightarrow> \<not> P x \<Longrightarrow> length (takeWhile P xs) < length xs"
  by (induction xs) auto

lemma setadd_eq:
  assumes "user_value v" "list_all user_value xs"
  shows "setadd xs v = Some (if \<exists>x \<in> set xs. canon False x = canon False v then xs else xs @ [v])"
  using assms by (auto simp: setadd_def ismember_def ismember_from_eq listappend_def doinsert_eq)

lemma setremove_eq:
  assumes "user_value v" "list_all user_value xs"
  shows "setremove xs v = Some (takeWhile (\<lambda>x. canon False x \<noteq> canon False v) xs
    @ tl (dropWhile (\<lambda>x. canon False x \<noteq> canon False v) xs))"
proof -
  define P where "P = (\<lambda>x. canon False x \<noteq> canon False v)"
  define n where "n = length (takeWhile P xs)"
  have m: "ismember v xs False = Some (if \<exists>x \<in> set xs. \<not> P x then 1 + int n else 0)"
    using assms by (simp add: ismember_def ismember_from_eq P_def n_def)
  show ?thesis
  proof (cases "\<exists>x \<in> set xs. \<not> P x")
    case True
    then obtain x where "x \<in> set xs" "\<not> P x" by blast
    then have n: "n < length xs" unfolding n_def by (rule length_takeWhile_found)
    have "setremove xs v = Some (listdelete xs (1 + int n))"
      using True m by (simp add: setremove_def)
    moreover have "listdelete xs (1 + int n) = take n xs @ drop (Suc n) xs"
      using n listdelete_eq [of "1 + int n" xs] by simp
    moreover have "drop (Suc n) xs = tl (drop n xs)" by (simp add: drop_Suc tl_drop)
    moreover have "dropWhile P xs = drop n xs" "takeWhile P xs = take n xs"
      unfolding n_def by (rule dropWhile_eq_drop, rule takeWhile_eq_take)
    ultimately show ?thesis by (simp add: P_def)
  next
    case False
    then have "takeWhile P xs = xs" "dropWhile P xs = []"
      by (auto simp: takeWhile_eq_all_conv dropWhile_eq_Nil_conv)
    moreover have "setremove xs v = Some xs"
      using False m by (simp add: setremove_def)
    ultimately show ?thesis unfolding P_def [symmetric] by (metis append_Nil2 list.sel(2))
  qed
qed

section \<open>Substrings of encoded strings\<close>

lemma list_all_take_drop: "list_all P xs \<Longrightarrow> list_all P (take n xs) \<and> list_all P (drop n xs)"
  by (metis append_take_drop_id list_all_append)

lemma skip_utf_enc:
  "list_all scalar vs \<Longrightarrow> 0 \<le> i \<Longrightarrow> i \<le> len vs \<Longrightarrow>
     skip_utf (utf_encode vs) i = length (utf_encode (take (nat i) vs))"
  using skip_utf_encode [of vs i "[]"] by (simp add: nat_le_iff)

lemma drop_encode: "drop (length (utf_encode (take n vs))) (utf_encode vs) = utf_encode (drop n vs)"
  by (metis append_eq_conv_conj append_take_drop_id utf_encode_simps(3))

lemma take_encode: "take (length (utf_encode (take n vs))) (utf_encode vs) = utf_encode (take n vs)"
  by (metis append_eq_conv_conj append_take_drop_id utf_encode_simps(3))

lemma substr_encode:
  assumes "list_all scalar vs" "1 \<le> lower" "upper \<le> len vs"
  shows "substr (utf_encode vs) lower upper =
    utf_encode (take (nat (upper - lower + 1)) (drop (nat (lower - 1)) vs))"
proof (cases "lower > upper")
  case False
  let ?ds = "drop (nat (lower - 1)) vs" and ?n = "upper + 1 - lower"
  have ds: "list_all scalar ?ds" "?n \<le> len ?ds" "0 \<le> ?n"
    using assms False list_all_take_drop by auto
  have low: "skip_utf (utf_encode vs) (lower - 1) = length (utf_encode (take (nat (lower - 1)) vs))"
    using assms False by (intro skip_utf_enc) auto
  have "substr (utf_encode vs) lower upper = take (skip_utf (utf_encode ?ds) ?n) (utf_encode ?ds)"
    using False by (simp add: substr_def low drop_encode Let_def)
  also have "\<dots> = utf_encode (take (nat ?n) ?ds)"
    using ds by (simp add: skip_utf_enc take_encode)
  finally show ?thesis by (simp add: algebra_simps)
qed (simp add: substr_def)

lemma strget_encode:
  assumes "list_all scalar vs" "1 \<le> i" "i \<le> len vs"
  shows "strget (utf_encode vs) i = utf_encode [elt vs i]"
proof -
  have "nat (i - 1) < length vs" using assms by auto
  then have ds: "drop (nat (i - 1)) vs = elt vs i # drop (Suc (nat (i - 1))) vs"
    by (simp add: elt_def Cons_nth_drop_Suc)
  then have sc: "scalar (elt vs i)" "list_all scalar (drop (nat (i - 1)) vs)"
    using assms(1) list_all_take_drop [of scalar vs "nat (i - 1)"] by auto
  let ?bs = "the (put_utf (elt vs i))"
  have "clearance_utf (hd0 (?bs @ rest)) = length ?bs" for rest
    using clearance_put_utf [OF scalar_put_utf [OF sc(1)]] put_utf_nonempty [OF sc(1)] sc(1)
    by (cases ?bs) (auto simp: scalar_def)
  moreover have "skip_utf (utf_encode vs) (i - 1) = length (utf_encode (take (nat (i - 1)) vs))"
    using assms by (intro skip_utf_enc) auto
  ultimately show ?thesis
    using sc(2) cstr_encode [OF sc(2)] by (simp add: strget_def drop_encode ds Let_def)
qed

lemma strrangeset_encode:
  assumes "list_all scalar vs" "1 \<le> from" "from \<le> to + 1" "to \<le> len vs"
  shows "strrangeset (utf_encode vs) from to (utf_encode ws) =
    utf_encode (take (nat (from - 1)) vs @ ws @ drop (nat to) vs)"
proof -
  let ?ds = "drop (nat (from - 1)) vs" and ?n = "to - from + 1"
  have ds: "list_all scalar ?ds" "?n \<le> len ?ds" "0 \<le> ?n"
    using assms list_all_take_drop by auto
  have low: "skip_utf (utf_encode vs) (from - 1) = length (utf_encode (take (nat (from - 1)) vs))"
    using assms by (intro skip_utf_enc) auto
  have right: "drop (length (utf_encode (take (nat (from - 1)) vs)) + skip_utf (utf_encode ?ds) ?n)
      (utf_encode vs) = utf_encode (drop (nat to) vs)"
  proof -
    have "nat ?n + nat (from - 1) = nat to" using assms by linarith
    then have "drop (nat ?n) ?ds = drop (nat to) vs" by (simp add: add.commute)
    moreover have "drop (skip_utf (utf_encode ?ds) ?n) (utf_encode ?ds) = utf_encode (drop (nat ?n) ?ds)"
      using ds by (simp add: skip_utf_enc drop_encode)
    ultimately show ?thesis by (metis drop_drop drop_encode add.commute)
  qed
  show ?thesis
    using assms(2) low right by (auto simp: strrangeset_def drop_encode take_encode Let_def)
qed
section \<open>Properties\<close>

text \<open>C30: on the values a program can hold, \<open>equality\<close> never panics and decides whether two
  values have the same canonical form; it is therefore reflexive, symmetric and transitive.\<close>

theorem equality_decides_canonical_forms:
  assumes "user_value a" and "user_value b"
  shows "equality a b case_matters = Some (canon case_matters a = canon case_matters b)"
  by (rule equality_canon(1) [OF assms])

theorem equality_decides_canonical_forms_witness:
  "equality (TYPE_LIST [TYPE_STR ''Foo'', TYPE_INT 3]) (TYPE_LIST [TYPE_STR ''fOO'', TYPE_INT 3]) False
   = Some True" (is "equality ?a ?b False = _")
proof -
  have ua: "user_value ?a" and ub: "user_value ?b" by simp_all
  have e: "(canon False ?a = canon False ?b) = True" by code_simp
  show ?thesis using equality_decides_canonical_forms [OF ua ub, of False] unfolding e .
qed



text \<open>C32: \<open>setadd\<close> appends a value exactly when no element is equal to it (case not mattering),
  and \<open>setremove\<close> takes out the first element equal to it; neither panics.\<close>

theorem set_operations:
  assumes "user_value v" and "list_all user_value xs"
  shows "setadd xs v = Some (if \<exists>x \<in> set xs. canon False x = canon False v then xs else xs @ [v]) \<and>
    setremove xs v = Some (takeWhile (\<lambda>x. canon False x \<noteq> canon False v) xs
      @ tl (dropWhile (\<lambda>x. canon False x \<noteq> canon False v) xs))"
  using setadd_eq [OF assms] setremove_eq [OF assms] by blast

theorem set_operations_witness:
  "setadd [TYPE_OBJ 1, TYPE_OBJ 2] (TYPE_OBJ 2) = Some [TYPE_OBJ 1, TYPE_OBJ 2] \<and>
   setremove [TYPE_OBJ 1, TYPE_OBJ 2] (TYPE_OBJ 1) = Some [TYPE_OBJ 2]"
  using set_operations [of "TYPE_OBJ 2" "[TYPE_OBJ 1, TYPE_OBJ 2]"]
    set_operations [of "TYPE_OBJ 1" "[TYPE_OBJ 1, TYPE_OBJ 2]"] by simp

text \<open>C33: on encoded strings the byte-offset arithmetic of \<open>substr\<close>, \<open>strget\<close> and \<open>strrangeset\<close>
  slices, indexes and replaces whole characters.\<close>

theorem substrings_are_characters:
  assumes "list_all scalar vs"
  shows "(1 \<le> lower \<and> upper \<le> len vs \<longrightarrow>
      substr (utf_encode vs) lower upper =
        utf_encode (take (nat (upper - lower + 1)) (drop (nat (lower - 1)) vs))) \<and>
    (1 \<le> i \<and> i \<le> len vs \<longrightarrow> strget (utf_encode vs) i = utf_encode [elt vs i]) \<and>
    (1 \<le> from \<and> from \<le> to + 1 \<and> to \<le> len vs \<longrightarrow>
      strrangeset (utf_encode vs) from to (utf_encode ws) =
        utf_encode (take (nat (from - 1)) vs @ ws @ drop (nat to) vs))"
  using substr_encode [OF assms] strget_encode [OF assms] strrangeset_encode [OF assms] by blast

theorem substrings_are_characters_witness:
  "substr (utf_encode [0x41, 0x20ac, 0x42]) 2 3 = utf_encode [0x20ac, 0x42] \<and>
   strget (utf_encode [0x41, 0x20ac, 0x42]) 2 = utf_encode [0x20ac] \<and>
   strrangeset (utf_encode [0x41, 0x20ac, 0x42]) 2 2 (utf_encode [0x43]) = utf_encode [0x41, 0x43, 0x42]"
  using substrings_are_characters [of "[0x41, 0x20ac, 0x42]" 2 3 2 2 2 "[0x43]"]
  by (simp add: scalar_def elt_def)

text \<open>Outside that range the two range assignments disagree: with \<open>from = 0\<close>, which
  \<open>rangeset_check\<close> admits, a list keeps the elements behind \<open>to\<close>, while a string loses one
  character more, since the count \<open>to - from + 1\<close> starts from the clipped left edge.\<close>

lemma strrangeset_clips_wrongly:
  "listrangeset [TYPE_STR ''a'', TYPE_STR ''b'', TYPE_STR ''c''] 0 2 [TYPE_STR ''x''] =
     [TYPE_STR ''x'', TYPE_STR ''c''] \<and>
   strrangeset ''abc'' 0 2 ''x'' = ''x''"
  by code_simp

end
