(* ===== verification/Ast.thy ===== *)
theory Ast
  imports Values
begin

text \<open>
  The syntax trees of programs (\<^verbatim>\<open>ast.h\<close>), the opcodes (\<^verbatim>\<open>opcode.h\<close>) and the compiled form
  (\<^verbatim>\<open>program.h\<close>), shared by the compiler and the decompiler.

  Linked lists of the source are lists; a null pointer to an expression is \<^term>\<open>None\<close>, and so is the
  variable number \<^verbatim>\<open>-1\<close> of an anonymous loop, fork or handler. Binary and unary operators that the
  source treats alike share a constructor with the kind as its argument.
\<close>

section \<open>Trees\<close>

datatype Arg_Kind = ARG_NORMAL | ARG_SPLICE

datatype Scatter_Kind = SCAT_REQUIRED | SCAT_OPTIONAL | SCAT_REST

datatype Logic_Kind = EXPR_AND | EXPR_OR

datatype Unary_Kind = EXPR_NEGATE | EXPR_NOT | EXPR_COMPLEMENT

datatype Binary_Kind =
    EXPR_PROP | EXPR_PLUS | EXPR_MINUS | EXPR_TIMES | EXPR_DIVIDE | EXPR_MOD | EXPR_EXP
  | EXPR_EQ | EXPR_NE | EXPR_LT | EXPR_LE | EXPR_GT | EXPR_GE | EXPR_IN
  | EXPR_BITOR | EXPR_BITXOR | EXPR_BITAND | EXPR_SHL | EXPR_SHR | EXPR_LSHR

datatype Expr =
    EXPR_VAR Var
  | EXPR_ID nat
  | EXPR_LOGIC Logic_Kind Expr Expr
  | EXPR_UNARY Unary_Kind Expr
  | EXPR_BINARY Binary_Kind Expr Expr
  | EXPR_INDEX Expr Expr
  | EXPR_RANGE Expr Expr Expr
  | EXPR_LENGTH
  | EXPR_LIST "(Arg_Kind \<times> Expr) list"
  | EXPR_CALL nat "(Arg_Kind \<times> Expr) list"
  | EXPR_VERB Expr Expr "(Arg_Kind \<times> Expr) list"
  | EXPR_COND Expr Expr Expr
  | EXPR_ASGN Expr Expr
  | EXPR_SCATTER "(Scatter_Kind \<times> nat \<times> Expr option) list"
  | EXPR_CATCH Expr "(Arg_Kind \<times> Expr) list" "Expr option"

type_synonym Arg_List = "(Arg_Kind \<times> Expr) list"
type_synonym Scatter = "Scatter_Kind \<times> nat \<times> Expr option"

datatype Stmt =
    STMT_COND "(Expr \<times> Stmt list) list" "Stmt list"
  | STMT_LIST nat Expr "Stmt list"
  | STMT_RANGE nat Expr Expr "Stmt list"
  | STMT_WHILE "nat option" Expr "Stmt list"
  | STMT_FORK "nat option" Expr "Stmt list"
  | STMT_EXPR Expr
  | STMT_RETURN "Expr option"
  | STMT_TRY_EXCEPT "Stmt list" "(nat option \<times> (Arg_Kind \<times> Expr) list \<times> Stmt list) list"
  | STMT_TRY_FINALLY "Stmt list" "Stmt list"
  | STMT_BREAK "nat option"
  | STMT_CONTINUE "nat option"

type_synonym Cond_Arm = "Expr \<times> Stmt list"
type_synonym Except_Arm = "nat option \<times> Arg_List \<times> Stmt list"

section \<open>Opcodes\<close>

abbreviation (input) NUM_READY_VARS :: nat where "NUM_READY_VARS \<equiv> 32"

abbreviation (input) EOP_RANGESET :: nat where "EOP_RANGESET \<equiv> 0"
abbreviation (input) EOP_LENGTH :: nat where "EOP_LENGTH \<equiv> 1"
abbreviation (input) EOP_PUSH_LABEL :: nat where "EOP_PUSH_LABEL \<equiv> 2"
abbreviation (input) EOP_END_CATCH :: nat where "EOP_END_CATCH \<equiv> 3"
abbreviation (input) EOP_END_EXCEPT :: nat where "EOP_END_EXCEPT \<equiv> 4"
abbreviation (input) EOP_END_FINALLY :: nat where "EOP_END_FINALLY \<equiv> 5"
abbreviation (input) EOP_CONTINUE :: nat where "EOP_CONTINUE \<equiv> 6"
abbreviation (input) EOP_CATCH :: nat where "EOP_CATCH \<equiv> 7"
abbreviation (input) EOP_TRY_EXCEPT :: nat where "EOP_TRY_EXCEPT \<equiv> 8"
abbreviation (input) EOP_TRY_FINALLY :: nat where "EOP_TRY_FINALLY \<equiv> 9"
abbreviation (input) EOP_WHILE_ID :: nat where "EOP_WHILE_ID \<equiv> 10"
abbreviation (input) EOP_EXIT :: nat where "EOP_EXIT \<equiv> 11"
abbreviation (input) EOP_EXIT_ID :: nat where "EOP_EXIT_ID \<equiv> 12"
abbreviation (input) EOP_SCATTER :: nat where "EOP_SCATTER \<equiv> 13"
abbreviation (input) EOP_EXP :: nat where "EOP_EXP \<equiv> 14"
abbreviation (input) EOP_BITAND :: nat where "EOP_BITAND \<equiv> 15"
abbreviation (input) EOP_BITXOR :: nat where "EOP_BITXOR \<equiv> 16"
abbreviation (input) EOP_BITOR :: nat where "EOP_BITOR \<equiv> 17"
abbreviation (input) EOP_SHL :: nat where "EOP_SHL \<equiv> 18"
abbreviation (input) EOP_SHR :: nat where "EOP_SHR \<equiv> 19"
abbreviation (input) EOP_LSHR :: nat where "EOP_LSHR \<equiv> 20"
abbreviation (input) EOP_COMPLEMENT :: nat where "EOP_COMPLEMENT \<equiv> 21"

abbreviation (input) OP_IF :: nat where "OP_IF \<equiv> 0"
abbreviation (input) OP_WHILE :: nat where "OP_WHILE \<equiv> 1"
abbreviation (input) OP_EIF :: nat where "OP_EIF \<equiv> 2"
abbreviation (input) OP_FORK :: nat where "OP_FORK \<equiv> 3"
abbreviation (input) OP_FORK_WITH_ID :: nat where "OP_FORK_WITH_ID \<equiv> 4"
abbreviation (input) OP_FOR_LIST :: nat where "OP_FOR_LIST \<equiv> 5"
abbreviation (input) OP_FOR_RANGE :: nat where "OP_FOR_RANGE \<equiv> 6"
abbreviation (input) OP_INDEXSET :: nat where "OP_INDEXSET \<equiv> 7"
abbreviation (input) OP_PUSH_GET_PROP :: nat where "OP_PUSH_GET_PROP \<equiv> 8"
abbreviation (input) OP_GET_PROP :: nat where "OP_GET_PROP \<equiv> 9"
abbreviation (input) OP_CALL_VERB :: nat where "OP_CALL_VERB \<equiv> 10"
abbreviation (input) OP_PUT_PROP :: nat where "OP_PUT_PROP \<equiv> 11"
abbreviation (input) OP_BI_FUNC_CALL :: nat where "OP_BI_FUNC_CALL \<equiv> 12"
abbreviation (input) OP_IF_QUES :: nat where "OP_IF_QUES \<equiv> 13"
abbreviation (input) OP_REF :: nat where "OP_REF \<equiv> 14"
abbreviation (input) OP_RANGE_REF :: nat where "OP_RANGE_REF \<equiv> 15"
abbreviation (input) OP_MAKE_SINGLETON_LIST :: nat where "OP_MAKE_SINGLETON_LIST \<equiv> 16"
abbreviation (input) OP_CHECK_LIST_FOR_SPLICE :: nat where "OP_CHECK_LIST_FOR_SPLICE \<equiv> 17"
abbreviation (input) OP_MULT :: nat where "OP_MULT \<equiv> 18"
abbreviation (input) OP_DIV :: nat where "OP_DIV \<equiv> 19"
abbreviation (input) OP_MOD :: nat where "OP_MOD \<equiv> 20"
abbreviation (input) OP_ADD :: nat where "OP_ADD \<equiv> 21"
abbreviation (input) OP_MINUS :: nat where "OP_MINUS \<equiv> 22"
abbreviation (input) OP_EQ :: nat where "OP_EQ \<equiv> 23"
abbreviation (input) OP_NE :: nat where "OP_NE \<equiv> 24"
abbreviation (input) OP_LT :: nat where "OP_LT \<equiv> 25"
abbreviation (input) OP_LE :: nat where "OP_LE \<equiv> 26"
abbreviation (input) OP_GT :: nat where "OP_GT \<equiv> 27"
abbreviation (input) OP_GE :: nat where "OP_GE \<equiv> 28"
abbreviation (input) OP_IN :: nat where "OP_IN \<equiv> 29"
abbreviation (input) OP_AND :: nat where "OP_AND \<equiv> 30"
abbreviation (input) OP_OR :: nat where "OP_OR \<equiv> 31"
abbreviation (input) OP_UNARY_MINUS :: nat where "OP_UNARY_MINUS \<equiv> 32"
abbreviation (input) OP_NOT :: nat where "OP_NOT \<equiv> 33"
abbreviation (input) OP_PUT :: nat where "OP_PUT \<equiv> 34"
abbreviation (input) OP_G_PUT :: nat where "OP_G_PUT \<equiv> 66"
abbreviation (input) OP_PUSH :: nat where "OP_PUSH \<equiv> 67"
abbreviation (input) OP_G_PUSH :: nat where "OP_G_PUSH \<equiv> 99"
abbreviation (input) OP_IMM :: nat where "OP_IMM \<equiv> 100"
abbreviation (input) OP_MAKE_EMPTY_LIST :: nat where "OP_MAKE_EMPTY_LIST \<equiv> 101"
abbreviation (input) OP_LIST_ADD_TAIL :: nat where "OP_LIST_ADD_TAIL \<equiv> 102"
abbreviation (input) OP_LIST_APPEND :: nat where "OP_LIST_APPEND \<equiv> 103"
abbreviation (input) OP_PUSH_REF :: nat where "OP_PUSH_REF \<equiv> 104"
abbreviation (input) OP_PUT_TEMP :: nat where "OP_PUT_TEMP \<equiv> 105"
abbreviation (input) OP_PUSH_TEMP :: nat where "OP_PUSH_TEMP \<equiv> 106"
abbreviation (input) OP_JUMP :: nat where "OP_JUMP \<equiv> 107"
abbreviation (input) OP_RETURN :: nat where "OP_RETURN \<equiv> 108"
abbreviation (input) OP_RETURN0 :: nat where "OP_RETURN0 \<equiv> 109"
abbreviation (input) OP_DONE :: nat where "OP_DONE \<equiv> 110"
abbreviation (input) OP_POP :: nat where "OP_POP \<equiv> 111"
abbreviation (input) OP_EXTENDED :: nat where "OP_EXTENDED \<equiv> 112"
abbreviation (input) OPTIM_NUM_START :: nat where "OPTIM_NUM_START \<equiv> 113"
abbreviation (input) Last_Opcode :: nat where "Last_Opcode \<equiv> 255"

definition OPTIM_NUM_LOW :: int where "OPTIM_NUM_LOW = -10"
definition OPTIM_NUM_HI :: int where "OPTIM_NUM_HI = int Last_Opcode - int OPTIM_NUM_START + OPTIM_NUM_LOW"

definition IS_PUSH_n :: "nat \<Rightarrow> bool" where "IS_PUSH_n op \<longleftrightarrow> op \<ge> OP_PUSH \<and> op < OP_G_PUSH"
definition IS_PUT_n :: "nat \<Rightarrow> bool" where "IS_PUT_n op \<longleftrightarrow> op \<ge> OP_PUT \<and> op < OP_G_PUT"
definition PUSH_n_INDEX :: "nat \<Rightarrow> nat" where "PUSH_n_INDEX op = op - OP_PUSH"
definition PUT_n_INDEX :: "nat \<Rightarrow> nat" where "PUT_n_INDEX op = op - OP_PUT"
definition IS_OPTIM_NUM_OPCODE :: "nat \<Rightarrow> bool" where "IS_OPTIM_NUM_OPCODE op \<longleftrightarrow> op \<ge> OPTIM_NUM_START"
definition OPCODE_TO_OPTIM_NUM :: "nat \<Rightarrow> int" where
  "OPCODE_TO_OPTIM_NUM op = int op - int OPTIM_NUM_START + OPTIM_NUM_LOW"
definition OPTIM_NUM_TO_OPCODE :: "int \<Rightarrow> nat" where
  "OPTIM_NUM_TO_OPCODE i = nat (int OPTIM_NUM_START + i - OPTIM_NUM_LOW)"
definition IN_OPTIM_NUM_RANGE :: "int \<Rightarrow> bool" where
  "IN_OPTIM_NUM_RANGE i \<longleftrightarrow> i \<ge> OPTIM_NUM_LOW \<and> i \<le> OPTIM_NUM_HI"

lemmas optim_num_defs = OPTIM_NUM_LOW_def OPTIM_NUM_HI_def IS_OPTIM_NUM_OPCODE_def OPCODE_TO_OPTIM_NUM_def
  OPTIM_NUM_TO_OPCODE_def IN_OPTIM_NUM_RANGE_def

lemma optim_num:
  assumes "IN_OPTIM_NUM_RANGE i"
  shows "IS_OPTIM_NUM_OPCODE (OPTIM_NUM_TO_OPCODE i)" "OPTIM_NUM_TO_OPCODE i < 256"
    "OPCODE_TO_OPTIM_NUM (OPTIM_NUM_TO_OPCODE i) = i"
  using assms by (auto simp: optim_num_defs nat_less_iff le_nat_iff)

section \<open>Compiled programs\<close>

text \<open>A byte is a number below 256; \<open>emit_byte\<close> cuts what it is given.\<close>

type_synonym Byte = nat

record Bytecodes =
  numbytes_label :: nat
  numbytes_literal :: nat
  numbytes_fork :: nat
  numbytes_var_name :: nat
  numbytes_stack :: nat
  vector :: "Byte list"
  bc_size :: nat
  bc_max_stack :: nat

text \<open>The fields of a program that the compiler fills and the decompiler reads.\<close>

record Program =
  main_vector :: Bytecodes
  literals :: "Var list"
  fork_vectors :: "Bytecodes list"

end
