(* ===== verification/Code_Gen.thy ===== *)
theory Code_Gen
  imports Ast
begin

text \<open>
  The compiler from trees to bytecode (\<^verbatim>\<open>code_gen.c\<close>), built without \<^verbatim>\<open>BYTECODE_REDUCE_REF\<close>. A program is
  first emitted with one placeholder byte for every literal, fork vector, variable, stack position and
  label, each with an entry in the list of fixups; the sizes of these references are chosen at the
  end, and the fixups are then expanded. A panic is \<^term>\<open>None\<close>.
\<close>

section \<open>The state of the compiler\<close>

datatype fixup_kind = FIXUP_LITERAL | FIXUP_FORK | FIXUP_LABEL | FIXUP_VAR_REF | FIXUP_STACK

record fixup =
  kind :: fixup_kind
  pc :: nat
  fvalue :: nat
  prev_literals :: nat
  prev_forks :: nat
  prev_var_refs :: nat
  prev_labels :: nat
  prev_stacks :: nat
  fnext :: "nat option"

record gstate =
  total_var_refs :: nat
  g_literals :: "Var list"
  g_fork_vectors :: "Bytecodes list"

record loop =
  loop_id :: "nat option"
  top_label :: fixup
  top_stack :: nat
  bottom_label :: nat
  bottom_stack :: nat

text \<open>\<^verbatim>\<open>saved_stack\<close> is \<^term>\<open>None\<close> where the source has \<^verbatim>\<open>UINT_MAX\<close>.\<close>

record state =
  max_literal :: nat
  max_fork :: nat
  max_var_ref :: nat
  num_literals :: nat
  num_forks :: nat
  num_var_refs :: nat
  num_labels :: nat
  num_stacks :: nat
  fixups :: "fixup list"
  bytes :: "Byte list"
  cur_stack :: nat
  max_stack :: nat
  saved_stack :: "nat option"
  loops :: "loop list"
  gs :: gstate

definition init_gstate :: gstate where
  "init_gstate = \<lparr>total_var_refs = 0, g_literals = [], g_fork_vectors = []\<rparr>"

definition init_state :: "gstate \<Rightarrow> state" where
  "init_state g = \<lparr>max_literal = 0, max_fork = 0, max_var_ref = 0, num_literals = 0, num_forks = 0,
     num_var_refs = 0, num_labels = 0, num_stacks = 0, fixups = [], bytes = [], cur_stack = 0, max_stack = 0,
     saved_stack = None, loops = [], gs = g\<rparr>"

section \<open>Emitting\<close>

definition emit_byte :: "nat \<Rightarrow> state \<Rightarrow> state" where
  "emit_byte b st = st\<lparr>bytes := bytes st @ [b mod 256]\<rparr>"

definition emit_extended_byte :: "nat \<Rightarrow> state \<Rightarrow> state" where
  "emit_extended_byte b st = emit_byte b (emit_byte OP_EXTENDED st)"

definition add_known_fixup :: "fixup \<Rightarrow> state \<Rightarrow> nat \<times> state" where
  "add_known_fixup f st =
     (length (fixups st), emit_byte 0 (st\<lparr>fixups := fixups st @ [f\<lparr>pc := length (bytes st)\<rparr>]\<rparr>))"

definition add_linked_fixup :: "fixup_kind \<Rightarrow> nat \<Rightarrow> nat option \<Rightarrow> state \<Rightarrow> nat \<times> state" where
  "add_linked_fixup k v nxt st =
     add_known_fixup \<lparr>kind = k, pc = 0, fvalue = v, prev_literals = num_literals st, prev_forks = num_forks st,
       prev_var_refs = num_var_refs st, prev_labels = num_labels st, prev_stacks = num_stacks st, fnext = nxt\<rparr> st"

definition add_fixup :: "fixup_kind \<Rightarrow> nat \<Rightarrow> state \<Rightarrow> nat \<times> state" where
  "add_fixup k v st = add_linked_fixup k v None st"

text \<open>The search for a literal that is already there, from position \<open>i\<close> on.\<close>

fun find_literal :: "Var \<Rightarrow> Var list \<Rightarrow> nat \<Rightarrow> nat option" where
  "find_literal v [] i = Some i"
| "find_literal v (w # ws) i =
     (if var_type v = var_type w
      then (case equality v w True of
              None \<Rightarrow> None
            | Some True \<Rightarrow> Some i
            | Some False \<Rightarrow> find_literal v ws (Suc i))
      else find_literal v ws (Suc i))"

definition add_literal :: "Var \<Rightarrow> state \<Rightarrow> state option" where
  "add_literal v st =
     do {
       i \<leftarrow> find_literal v (g_literals (gs st)) 0;
       let st = (if i = length (g_literals (gs st))
                 then st\<lparr>gs := (gs st)\<lparr>g_literals := g_literals (gs st) @ [v]\<rparr>\<rparr> else st);
       let st = snd (add_fixup FIXUP_LITERAL i st);
       Some (st\<lparr>num_literals := num_literals st + 1, max_literal := max i (max_literal st)\<rparr>)
     }"

definition add_fork :: "Bytecodes \<Rightarrow> state \<Rightarrow> state" where
  "add_fork b st =
     (let i = length (g_fork_vectors (gs st));
          st = st\<lparr>gs := (gs st)\<lparr>g_fork_vectors := g_fork_vectors (gs st) @ [b]\<rparr>\<rparr>;
          st = snd (add_fixup FIXUP_FORK i st)
      in st\<lparr>num_forks := num_forks st + 1, max_fork := max i (max_fork st)\<rparr>)"

definition add_var_ref :: "nat \<Rightarrow> state \<Rightarrow> state" where
  "add_var_ref slot st =
     (let st = snd (add_fixup FIXUP_VAR_REF slot st)
      in st\<lparr>num_var_refs := num_var_refs st + 1, max_var_ref := max slot (max_var_ref st),
           gs := (gs st)\<lparr>total_var_refs := total_var_refs (gs st) + 1\<rparr>\<rparr>)"

definition add_linked_label :: "nat option \<Rightarrow> state \<Rightarrow> nat \<times> state" where
  "add_linked_label nxt st =
     (let (label, st) = add_linked_fixup FIXUP_LABEL 0 nxt st in (label, st\<lparr>num_labels := num_labels st + 1\<rparr>))"

definition add_label :: "state \<Rightarrow> nat \<times> state" where
  "add_label st = add_linked_label None st"

definition add_pseudo_label :: "nat \<Rightarrow> state \<Rightarrow> state" where
  "add_pseudo_label v st =
     (let st = snd (add_known_fixup \<lparr>kind = FIXUP_LABEL, pc = 0, fvalue = v, prev_literals = 0, prev_forks = 0,
             prev_var_refs = 0, prev_labels = 0, prev_stacks = 0, fnext = None\<rparr> st)
      in st\<lparr>num_labels := num_labels st + 1\<rparr>)"

definition add_known_label :: "fixup \<Rightarrow> state \<Rightarrow> state" where
  "add_known_label f st = (let st = snd (add_known_fixup f st) in st\<lparr>num_labels := num_labels st + 1\<rparr>)"

definition capture_label :: "state \<Rightarrow> fixup" where
  "capture_label st = \<lparr>kind = FIXUP_LABEL, pc = 0, fvalue = length (bytes st), prev_literals = num_literals st,
     prev_forks = num_forks st, prev_var_refs = num_var_refs st, prev_labels = num_labels st,
     prev_stacks = num_stacks st, fnext = None\<rparr>"

text \<open>\<open>define_label\<close> walks the chain of linked fixups.\<close>

partial_function (option) define_chain :: "(fixup \<Rightarrow> fixup) \<Rightarrow> nat option \<Rightarrow> fixup list \<Rightarrow> fixup list option" where
  "define_chain f label fx =
     (case label of
        None \<Rightarrow> Some fx
      | Some l \<Rightarrow> if l < length fx then define_chain f (fnext (fx ! l)) (fx[l := f (fx ! l)]) else None)"

declare define_chain.simps [code]

definition define_label :: "nat option \<Rightarrow> state \<Rightarrow> state option" where
  "define_label label st =
     map_option (\<lambda>fx. st\<lparr>fixups := fx\<rparr>)
       (define_chain (\<lambda>f. f\<lparr>fvalue := length (bytes st), prev_literals := num_literals st, prev_forks := num_forks st,
          prev_var_refs := num_var_refs st, prev_labels := num_labels st, prev_stacks := num_stacks st\<rparr>)
          label (fixups st))"

definition add_stack_ref :: "nat \<Rightarrow> state \<Rightarrow> state" where
  "add_stack_ref index st = snd (add_fixup FIXUP_STACK index st)"

text \<open>The stack depth. The compiler never pops more than it pushed (the laws of the generated code
  give the depth after every construct), so the unsigned subtraction does not wrap.\<close>

definition push_stack :: "nat \<Rightarrow> state \<Rightarrow> state" where
  "push_stack n st = st\<lparr>cur_stack := cur_stack st + n, max_stack := max (cur_stack st + n) (max_stack st)\<rparr>"

definition pop_stack :: "nat \<Rightarrow> state \<Rightarrow> state" where
  "pop_stack n st = st\<lparr>cur_stack := cur_stack st - n\<rparr>"

definition save_stack_top :: "state \<Rightarrow> nat option \<times> state" where
  "save_stack_top st = (saved_stack st, st\<lparr>saved_stack := Some (cur_stack st - 1)\<rparr>)"

definition saved_stack_top :: "state \<Rightarrow> nat option" where
  "saved_stack_top st = saved_stack st"

definition restore_stack_top :: "nat option \<Rightarrow> state \<Rightarrow> state" where
  "restore_stack_top old st = st\<lparr>saved_stack := old\<rparr>"

text \<open>The loops, innermost last as in the array.\<close>

definition enter_loop :: "nat option \<Rightarrow> fixup \<Rightarrow> nat \<Rightarrow> nat \<Rightarrow> nat \<Rightarrow> state \<Rightarrow> state" where
  "enter_loop i tlabel tstack bottom bstack st =
     st\<lparr>loops := loops st @ [\<lparr>loop_id = i, top_label = tlabel, top_stack = tstack, bottom_label = bottom, bottom_stack = bstack\<rparr>]\<rparr>"

definition exit_loop :: "state \<Rightarrow> (nat \<times> state) option" where
  "exit_loop st =
     (if loops st = [] then None
      else Some (bottom_label (last (loops st)), st\<lparr>loops := butlast (loops st)\<rparr>))"

definition emit_call_verb_op :: "nat \<Rightarrow> state \<Rightarrow> state" where
  "emit_call_verb_op op st = emit_byte op st"

definition emit_ending_op :: "nat \<Rightarrow> state \<Rightarrow> state" where
  "emit_ending_op op st = emit_byte op st"

definition emit_var_op :: "nat \<Rightarrow> nat \<Rightarrow> state \<Rightarrow> state" where
  "emit_var_op op slot st =
     (if slot \<ge> NUM_READY_VARS then add_var_ref slot (emit_byte (op + NUM_READY_VARS) st)
      else emit_byte (op + slot) st)"

section \<open>Expressions\<close>

fun unary_op :: "Unary_Kind \<Rightarrow> nat list" where
  "unary_op EXPR_NEGATE = [OP_UNARY_MINUS]"
| "unary_op EXPR_NOT = [OP_NOT]"
| "unary_op EXPR_COMPLEMENT = [OP_EXTENDED, EOP_COMPLEMENT]"

fun binary_op :: "Binary_Kind \<Rightarrow> nat list" where
  "binary_op EXPR_EQ = [OP_EQ]"
| "binary_op EXPR_NE = [OP_NE]"
| "binary_op EXPR_GE = [OP_GE]"
| "binary_op EXPR_GT = [OP_GT]"
| "binary_op EXPR_LE = [OP_LE]"
| "binary_op EXPR_LT = [OP_LT]"
| "binary_op EXPR_IN = [OP_IN]"
| "binary_op EXPR_PLUS = [OP_ADD]"
| "binary_op EXPR_MINUS = [OP_MINUS]"
| "binary_op EXPR_TIMES = [OP_MULT]"
| "binary_op EXPR_DIVIDE = [OP_DIV]"
| "binary_op EXPR_MOD = [OP_MOD]"
| "binary_op EXPR_PROP = [OP_GET_PROP]"
| "binary_op EXPR_BITAND = [OP_EXTENDED, EOP_BITAND]"
| "binary_op EXPR_BITXOR = [OP_EXTENDED, EOP_BITXOR]"
| "binary_op EXPR_BITOR = [OP_EXTENDED, EOP_BITOR]"
| "binary_op EXPR_SHL = [OP_EXTENDED, EOP_SHL]"
| "binary_op EXPR_SHR = [OP_EXTENDED, EOP_SHR]"
| "binary_op EXPR_LSHR = [OP_EXTENDED, EOP_LSHR]"
| "binary_op EXPR_EXP = [OP_EXTENDED, EOP_EXP]"

definition logic_op :: "Logic_Kind \<Rightarrow> nat" where
  "logic_op k = (case k of EXPR_AND \<Rightarrow> OP_AND | EXPR_OR \<Rightarrow> OP_OR)"

definition emit_ops :: "nat list \<Rightarrow> state \<Rightarrow> state" where
  "emit_ops ops st = fold emit_byte ops st"

text \<open>A scattering assignment: the numbers of targets and of required ones, the place of the rest,
  and the entry of each target, with the label of its default if it has one.\<close>

fun scatter_counts :: "Scatter list \<Rightarrow> nat \<Rightarrow> nat \<Rightarrow> int \<Rightarrow> nat \<times> nat \<times> int" where
  "scatter_counts [] nargs nreq rest = (nargs, nreq, rest)"
| "scatter_counts ((k, i, e) # sc) nargs nreq rest =
     scatter_counts sc (nargs + 1) (if k = SCAT_REQUIRED then nreq + 1 else nreq)
       (if k = SCAT_REST then int (nargs + 1) else rest)"

fun scatter_targets :: "Scatter list \<Rightarrow> state \<Rightarrow> nat list \<times> state" where
  "scatter_targets [] st = ([], st)"
| "scatter_targets ((k, i, e) # sc) st =
     (let st = add_var_ref i st;
          (label, st) = (if k \<noteq> SCAT_OPTIONAL then (0, add_pseudo_label 0 st)
                         else if e = None then (0, add_pseudo_label 1 st)
                         else add_label st);
          (labels, st) = scatter_targets sc st
      in (label # labels, st))"

text \<open>The stores of an assignment, from the outermost index to the variable or property.\<close>

fun store_loop :: "Expr \<Rightarrow> bool \<Rightarrow> state \<Rightarrow> (bool \<times> state) option" where
  "store_loop e is_indexed st =
     (case e of
        EXPR_RANGE b f t \<Rightarrow> store_loop b True (pop_stack 3 (emit_extended_byte EOP_RANGESET st))
      | EXPR_INDEX b i \<Rightarrow> store_loop b True (pop_stack 2 (emit_byte OP_INDEXSET st))
      | EXPR_ID i \<Rightarrow> Some (is_indexed, emit_var_op OP_PUT i st)
      | EXPR_BINARY k a b \<Rightarrow> if k = EXPR_PROP then Some (is_indexed, pop_stack 2 (emit_byte OP_PUT_PROP st)) else None
      | _ \<Rightarrow> None)"

definition indexed_target :: "Expr \<Rightarrow> bool" where
  "indexed_target e = (case e of EXPR_RANGE _ _ _ \<Rightarrow> True | EXPR_INDEX _ _ \<Rightarrow> True | _ \<Rightarrow> False)"

definition finish_store :: "Expr \<Rightarrow> state \<Rightarrow> state option" where
  "finish_store e st =
     do {
       (is_indexed, st) \<leftarrow> store_loop e False (if indexed_target e then emit_byte OP_PUT_TEMP st else st);
       Some (if is_indexed then emit_byte OP_PUSH_TEMP (emit_byte OP_POP st) else st)
     }"

function generate_expr :: "Expr \<Rightarrow> state \<Rightarrow> state option"
and push_lvalue :: "Expr \<Rightarrow> bool \<Rightarrow> state \<Rightarrow> state option"
and generate_arg_list :: "Arg_List \<Rightarrow> state \<Rightarrow> state option"
and generate_codes :: "Arg_List \<Rightarrow> state \<Rightarrow> state option"
and generate_args :: "Arg_List \<Rightarrow> nat \<Rightarrow> nat \<Rightarrow> nat \<Rightarrow> state \<Rightarrow> state option"
and generate_defaults :: "Scatter list \<Rightarrow> nat list \<Rightarrow> state \<Rightarrow> state option" where
  "generate_expr (EXPR_VAR v) st =
     map_option (push_stack 1)
       (case v of
          TYPE_INT n \<Rightarrow>
            if IN_OPTIM_NUM_RANGE n then Some (emit_byte (OPTIM_NUM_TO_OPCODE n) st)
            else add_literal v (emit_byte OP_IMM st)
        | _ \<Rightarrow> add_literal v (emit_byte OP_IMM st))"
| "generate_expr (EXPR_ID i) st = Some (push_stack 1 (emit_var_op OP_PUSH i st))"
| "generate_expr (EXPR_LOGIC k a b) st =
     do {
       st \<leftarrow> generate_expr a st;
       let (end_label, st) = add_label (emit_byte (logic_op k) st);
       st \<leftarrow> generate_expr b (pop_stack 1 st);
       define_label (Some end_label) st
     }"
| "generate_expr (EXPR_UNARY k a) st = do { st \<leftarrow> generate_expr a st; Some (emit_ops (unary_op k) st) }"
| "generate_expr (EXPR_BINARY k a b) st =
     do { st \<leftarrow> generate_expr a st; st \<leftarrow> generate_expr b st; Some (pop_stack 1 (emit_ops (binary_op k) st)) }"
| "generate_expr (EXPR_INDEX a b) st =
     do {
       st \<leftarrow> generate_expr a st;
       let (old, st) = save_stack_top st;
       st \<leftarrow> generate_expr b st;
       Some (pop_stack 1 (emit_byte OP_REF (restore_stack_top old st)))
     }"
| "generate_expr (EXPR_RANGE a b c) st =
     do {
       st \<leftarrow> generate_expr a st;
       let (old, st) = save_stack_top st;
       st \<leftarrow> generate_expr b st;
       st \<leftarrow> generate_expr c st;
       Some (pop_stack 2 (emit_byte OP_RANGE_REF (restore_stack_top old st)))
     }"
| "generate_expr EXPR_LENGTH st =
     (case saved_stack_top st of
        None \<Rightarrow> None
      | Some saved \<Rightarrow> Some (push_stack 1 (add_stack_ref saved (emit_extended_byte EOP_LENGTH st))))"
| "generate_expr (EXPR_LIST args) st = generate_arg_list args st"
| "generate_expr (EXPR_CALL f args) st =
     do {
       st \<leftarrow> generate_arg_list args st;
       Some (emit_byte f (emit_byte OP_BI_FUNC_CALL st))
     }"
| "generate_expr (EXPR_VERB a b args) st =
     do {
       st \<leftarrow> generate_expr a st;
       st \<leftarrow> generate_expr b st;
       st \<leftarrow> generate_arg_list args st;
       Some (pop_stack 2 (emit_call_verb_op OP_CALL_VERB st))
     }"
| "generate_expr (EXPR_COND a b c) st =
     do {
       st \<leftarrow> generate_expr a st;
       let (else_label, st) = add_label (emit_byte OP_IF_QUES st);
       st \<leftarrow> generate_expr b (pop_stack 1 st);
       let (end_label, st) = add_label (emit_byte OP_JUMP st);
       st \<leftarrow> define_label (Some else_label) (pop_stack 1 st);
       st \<leftarrow> generate_expr c st;
       define_label (Some end_label) st
     }"
| "generate_expr (EXPR_ASGN e r) st =
     (case e of
        EXPR_SCATTER sc \<Rightarrow>
          do {
            st \<leftarrow> generate_expr r st;
            let (nargs, nreq, rest) = scatter_counts sc 0 0 (-1);
            let rest = (if rest = -1 then int nargs + 1 else rest);
            let (labels, st) = scatter_targets sc
              (emit_byte (nat rest) (emit_byte nreq (emit_byte nargs (emit_extended_byte EOP_SCATTER st))));
            let (done_label, st) = add_label st;
            st \<leftarrow> generate_defaults sc labels st;
            define_label (Some done_label) st
          }
      | _ \<Rightarrow>
          do {
            st \<leftarrow> push_lvalue e False st;
            st \<leftarrow> generate_expr r st;
            finish_store e st
          })"
| "generate_expr (EXPR_SCATTER sc) st = None"
| "generate_expr (EXPR_CATCH a codes d) st =
     do {
       st \<leftarrow> generate_codes codes st;
       let (handler_label, st) = add_label (emit_extended_byte EOP_PUSH_LABEL st);
       let st = push_stack 1 (emit_extended_byte EOP_CATCH (push_stack 1 st));
       st \<leftarrow> generate_expr a st;
       let (end_label, st) = add_label (emit_extended_byte EOP_END_CATCH st);
       st \<leftarrow> define_label (Some handler_label) (pop_stack 3 st);
       st \<leftarrow> (case d of
                Some x \<Rightarrow> generate_expr x (pop_stack 1 (emit_byte OP_POP st))
              | None \<Rightarrow> Some (emit_byte OP_REF (emit_byte (OPTIM_NUM_TO_OPCODE 1) st)));
       define_label (Some end_label) st
     }"
| "push_lvalue e indexed_above st =
     (case e of
        EXPR_RANGE a b c \<Rightarrow>
          do {
            st \<leftarrow> push_lvalue a True st;
            let (old, st) = save_stack_top st;
            st \<leftarrow> generate_expr b st;
            st \<leftarrow> generate_expr c st;
            Some (restore_stack_top old st)
          }
      | EXPR_INDEX a b \<Rightarrow>
          do {
            st \<leftarrow> push_lvalue a True st;
            let (old, st) = save_stack_top st;
            st \<leftarrow> generate_expr b st;
            let st = restore_stack_top old st;
            Some (if indexed_above then push_stack 1 (emit_byte OP_PUSH_REF st) else st)
          }
      | EXPR_ID i \<Rightarrow> Some (if indexed_above then push_stack 1 (emit_var_op OP_PUSH i st) else st)
      | EXPR_BINARY k a b \<Rightarrow>
          if k = EXPR_PROP
          then do {
            st \<leftarrow> generate_expr a st;
            st \<leftarrow> generate_expr b st;
            Some (if indexed_above then push_stack 1 (emit_byte OP_PUSH_GET_PROP st) else st)
          }
          else None
      | _ \<Rightarrow> None)"
| "generate_arg_list args st =
     (if args = [] then Some (push_stack 1 (emit_byte OP_MAKE_EMPTY_LIST st))
      else generate_args args OP_MAKE_SINGLETON_LIST OP_CHECK_LIST_FOR_SPLICE 0 st)"
| "generate_codes codes st =
     (if codes \<noteq> [] then generate_arg_list codes st
      else Some (push_stack 1 (emit_byte (OPTIM_NUM_TO_OPCODE 0) st)))"
| "generate_args [] normal_op splice_op pop st = Some st"
| "generate_args ((k, e) # args) normal_op splice_op pop st =
     do {
       st \<leftarrow> generate_expr e st;
       generate_args args OP_LIST_ADD_TAIL OP_LIST_APPEND 1
         (pop_stack pop (emit_byte (if k = ARG_NORMAL then normal_op else splice_op) st))
     }"
| "generate_defaults [] labels st = Some st"
| "generate_defaults ((k, i, d) # sc) labels st =
     (case d of
        Some x \<Rightarrow>
          if k = SCAT_OPTIONAL
          then do {
            st \<leftarrow> define_label (Some (hd labels)) st;
            st \<leftarrow> generate_expr x st;
            generate_defaults sc (tl labels) (pop_stack 1 (emit_byte OP_POP (emit_var_op OP_PUT i st)))
          }
          else generate_defaults sc (tl labels) st
      | None \<Rightarrow> generate_defaults sc (tl labels) st)"
  by pat_completeness auto
termination
  by (relation "measure (case_sum (case_sum (\<lambda>(e, st). 3 * size e) (case_sum (\<lambda>(e, ia, st). 3 * size e) (\<lambda>(args, st). 3 * size_list (size_prod (\<lambda>_. 0) size) args + 1)))
       (case_sum (\<lambda>(args, st). 3 * size_list (size_prod (\<lambda>_. 0) size) args + 2)
         (case_sum (\<lambda>(args, n, s, p, st). 3 * size_list (size_prod (\<lambda>_. 0) size) args)
           (\<lambda>(sc, l, st). 3 * size_list (size_prod (\<lambda>_. 0) (size_prod (\<lambda>_. 0) (size_option size))) sc))))")
    simp_all

section \<open>Choosing the sizes and expanding the fixups\<close>

definition ref_size :: "nat \<Rightarrow> nat" where
  "ref_size rmax = (if rmax \<le> 256 then 1 else if rmax \<le> 256 * 256 then 2 else 4)"

definition ref_bytes :: "nat \<Rightarrow> nat \<Rightarrow> Byte list" where
  "ref_bytes n v =
     (if n = 4 then [v div 2 ^ 24 mod 256, v div 2 ^ 16 mod 256] else []) @
     (if n = 4 \<or> n = 2 then [v div 2 ^ 8 mod 256] else []) @ [v mod 256]"

definition fixup_bytes :: "Bytecodes \<Rightarrow> fixup \<Rightarrow> Byte list" where
  "fixup_bytes bc f =
     (case kind f of
        FIXUP_LITERAL \<Rightarrow> ref_bytes (numbytes_literal bc) (fvalue f)
      | FIXUP_FORK \<Rightarrow> ref_bytes (numbytes_fork bc) (fvalue f)
      | FIXUP_VAR_REF \<Rightarrow> ref_bytes (numbytes_var_name bc) (fvalue f)
      | FIXUP_STACK \<Rightarrow> ref_bytes (numbytes_stack bc) (fvalue f)
      | FIXUP_LABEL \<Rightarrow> ref_bytes (numbytes_label bc)
          (fvalue f + prev_literals f * (numbytes_literal bc - 1) + prev_forks f * (numbytes_fork bc - 1)
             + prev_var_refs f * (numbytes_var_name bc - 1) + prev_labels f * (numbytes_label bc - 1)
             + prev_stacks f * (numbytes_stack bc - 1)))"

text \<open>The loop over the emitted bytes, \<open>old_i\<close> counting them.\<close>

fun expand_loop :: "Bytecodes \<Rightarrow> nat \<Rightarrow> Byte list \<Rightarrow> fixup list \<Rightarrow> Byte list" where
  "expand_loop bc old_i [] fx = []"
| "expand_loop bc old_i (b # bs) [] = b # expand_loop bc (Suc old_i) bs []"
| "expand_loop bc old_i (b # bs) (f # fx) =
     (if pc f = old_i then fixup_bytes bc f @ expand_loop bc (Suc old_i) bs fx
      else b # expand_loop bc (Suc old_i) bs (f # fx))"

text \<open>The sizes of the references and of the whole.\<close>

definition layout :: "state \<Rightarrow> Bytecodes" where
  "layout st =
     (let nlit = ref_size (max (max_literal st) (length (g_literals (gs st))));
          nfork = ref_size (max (max_fork st) (length (g_fork_vectors (gs st))));
          nvar = ref_size (max (max_var_ref st) (total_var_refs (gs st)));
          sz = length (bytes st) + (nlit - 1) * num_literals st + (nfork - 1) * num_forks st + (nvar - 1) * num_var_refs st;
          nlab = (if sz \<le> 256 then 1 else if sz + num_labels st \<le> 256 * 256 then 2 else 4)
      in \<lparr>numbytes_label = nlab, numbytes_literal = nlit, numbytes_fork = nfork, numbytes_var_name = nvar,
          numbytes_stack = ref_size (max_stack st), vector = [], bc_size = sz + (nlab - 1) * num_labels st,
          bc_max_stack = max_stack st\<rparr>)"

text \<open>The end of \<open>stmt_to_code\<close>; writing past the allocated \<^verbatim>\<open>size\<close> bytes is \<^term>\<open>None\<close>.\<close>

definition finish_code :: "state \<Rightarrow> Bytecodes option" where
  "finish_code st =
     (if cur_stack st \<noteq> 0 \<or> saved_stack st \<noteq> None then None
      else let bc = layout st; v = expand_loop bc 0 (bytes st) (fixups st)
           in if length v > bc_size bc then None else Some (bc\<lparr>vector := v\<rparr>))"

section \<open>Statements\<close>

text \<open>The loop that \<^verbatim>\<open>break\<close> and \<^verbatim>\<open>continue\<close> leave: the innermost, or the innermost of that name.\<close>

fun find_loop :: "nat \<Rightarrow> nat \<Rightarrow> loop list \<Rightarrow> nat option" where
  "find_loop x 0 ls = None"
| "find_loop x (Suc i) ls = (if loop_id (ls ! i) = Some x then Some i else find_loop x i ls)"

definition exit_target :: "nat option \<Rightarrow> state \<Rightarrow> (nat \<times> state) option" where
  "exit_target x st =
     (case x of
        None \<Rightarrow> if loops st = [] then None else Some (length (loops st) - 1, emit_extended_byte EOP_EXIT st)
      | Some i \<Rightarrow> map_option (\<lambda>l. (l, add_var_ref i (emit_extended_byte EOP_EXIT_ID st)))
          (find_loop i (length (loops st)) (loops st)))"

definition generate_exit :: "bool \<Rightarrow> nat option \<Rightarrow> state \<Rightarrow> state option" where
  "generate_exit continue x st =
     do {
       (l, st) \<leftarrow> exit_target x st;
       let lp = loops st ! l;
       Some (if continue then add_known_label (top_label lp) (add_stack_ref (top_stack lp) st)
             else let (b, st) = add_linked_label (Some (bottom_label lp)) (add_stack_ref (bottom_stack lp) st)
                  in st\<lparr>loops := (loops st)[l := lp\<lparr>bottom_label := b\<rparr>]\<rparr>)
     }"

text \<open>The codes and labels of the handlers of a \<^verbatim>\<open>try\<close> statement.\<close>

fun except_labels :: "Except_Arm list \<Rightarrow> state \<Rightarrow> (nat list \<times> state) option" where
  "except_labels [] st = Some ([], st)"
| "except_labels ((i, codes, body) # exs) st =
     do {
       st \<leftarrow> generate_codes codes st;
       let (label, st) = add_label (emit_extended_byte EOP_PUSH_LABEL st);
       (labels, st) \<leftarrow> except_labels exs (push_stack 1 st);
       Some (label # labels, st)
     }"

text \<open>The end of a loop: the jump back to the top, and the label of the bottom.\<close>

definition finish_loop :: "fixup \<Rightarrow> state \<Rightarrow> state option" where
  "finish_loop loop_top st =
     do {
       (end_label, st) \<leftarrow> exit_loop st;
       define_label (Some end_label) (add_known_label loop_top (emit_byte OP_JUMP st))
     }"

function generate_stmt :: "Stmt list \<Rightarrow> state \<Rightarrow> state option"
and generate_arms :: "Cond_Arm list \<Rightarrow> nat \<Rightarrow> nat option \<Rightarrow> state \<Rightarrow> (nat option \<times> state) option"
and generate_handlers :: "Except_Arm list \<Rightarrow> nat list \<Rightarrow> nat \<Rightarrow> state \<Rightarrow> (nat \<times> state) option"
and stmt_to_code :: "Stmt list \<Rightarrow> gstate \<Rightarrow> (Bytecodes \<times> gstate) option" where
  "generate_stmt [] st = Some st"
| "generate_stmt (STMT_COND arms otherwise # rest) st =
     do {
       (end_label, st) \<leftarrow> generate_arms arms OP_IF None st;
       st \<leftarrow> generate_stmt otherwise st;
       st \<leftarrow> define_label end_label st;
       generate_stmt rest st
     }"
| "generate_stmt (STMT_LIST i e body # rest) st =
     do {
       st \<leftarrow> generate_expr e st;
       let st = push_stack 1 (emit_byte (OPTIM_NUM_TO_OPCODE 1) st);
       let loop_top = capture_label st;
       let (end_label, st) = add_label (add_var_ref i (emit_byte OP_FOR_LIST st));
       st \<leftarrow> generate_stmt body (enter_loop (Some i) loop_top (cur_stack st) end_label (cur_stack st - 2) st);
       st \<leftarrow> finish_loop loop_top st;
       generate_stmt rest (pop_stack 2 st)
     }"
| "generate_stmt (STMT_RANGE i a b body # rest) st =
     do {
       st \<leftarrow> generate_expr a st;
       st \<leftarrow> generate_expr b st;
       let loop_top = capture_label st;
       let (end_label, st) = add_label (add_var_ref i (emit_byte OP_FOR_RANGE st));
       st \<leftarrow> generate_stmt body (enter_loop (Some i) loop_top (cur_stack st) end_label (cur_stack st - 2) st);
       st \<leftarrow> finish_loop loop_top st;
       generate_stmt rest (pop_stack 2 st)
     }"
| "generate_stmt (STMT_WHILE x c body # rest) st =
     do {
       let loop_top = capture_label st;
       st \<leftarrow> generate_expr c st;
       let st = (case x of None \<Rightarrow> emit_byte OP_WHILE st
                         | Some i \<Rightarrow> add_var_ref i (emit_extended_byte EOP_WHILE_ID st));
       let (end_label, st) = add_label st;
       let st = pop_stack 1 st;
       st \<leftarrow> generate_stmt body (enter_loop x loop_top (cur_stack st) end_label (cur_stack st) st);
       st \<leftarrow> finish_loop loop_top st;
       generate_stmt rest st
     }"
| "generate_stmt (STMT_FORK x e body # rest) st =
     do {
       st \<leftarrow> generate_expr e st;
       let st = emit_byte (if x \<noteq> None then OP_FORK_WITH_ID else OP_FORK) st;
       (bc, g) \<leftarrow> stmt_to_code body (gs st);
       let st = add_fork bc (st\<lparr>gs := g\<rparr>);
       let st = (case x of Some i \<Rightarrow> add_var_ref i st | None \<Rightarrow> st);
       generate_stmt rest (pop_stack 1 st)
     }"
| "generate_stmt (STMT_EXPR e # rest) st =
     do { st \<leftarrow> generate_expr e st; generate_stmt rest (pop_stack 1 (emit_byte OP_POP st)) }"
| "generate_stmt (STMT_RETURN x # rest) st =
     (case x of
        Some e \<Rightarrow> do { st \<leftarrow> generate_expr e st; generate_stmt rest (pop_stack 1 (emit_ending_op OP_RETURN st)) }
      | None \<Rightarrow> generate_stmt rest (emit_ending_op OP_RETURN0 st))"
| "generate_stmt (STMT_TRY_EXCEPT body exs # rest) st =
     do {
       (labels, st) \<leftarrow> except_labels exs st;
       st \<leftarrow> generate_stmt body (push_stack 1 (emit_byte (length exs) (emit_extended_byte EOP_TRY_EXCEPT st)));
       let (end_label, st) = add_label (emit_extended_byte EOP_END_EXCEPT st);
       (end_label, st) \<leftarrow> generate_handlers exs labels end_label (pop_stack (2 * length exs + 1) st);
       st \<leftarrow> define_label (Some end_label) st;
       generate_stmt rest st
     }"
| "generate_stmt (STMT_TRY_FINALLY body handler # rest) st =
     do {
       let (handler_label, st) = add_label (emit_extended_byte EOP_TRY_FINALLY st);
       st \<leftarrow> generate_stmt body (push_stack 1 st);
       st \<leftarrow> define_label (Some handler_label) (pop_stack 1 (emit_extended_byte EOP_END_FINALLY st));
       st \<leftarrow> generate_stmt handler (push_stack 2 st);
       generate_stmt rest (pop_stack 2 (emit_extended_byte EOP_CONTINUE st))
     }"
| "generate_stmt (STMT_BREAK x # rest) st = do { st \<leftarrow> generate_exit False x st; generate_stmt rest st }"
| "generate_stmt (STMT_CONTINUE x # rest) st = do { st \<leftarrow> generate_exit True x st; generate_stmt rest st }"
| "generate_arms [] if_op end_label st = Some (end_label, st)"
| "generate_arms ((c, body) # arms) if_op end_label st =
     do {
       st \<leftarrow> generate_expr c st;
       let (else_label, st) = add_label (emit_byte if_op st);
       st \<leftarrow> generate_stmt body (pop_stack 1 st);
       let (end_label, st) = add_linked_label end_label (emit_byte OP_JUMP st);
       st \<leftarrow> define_label (Some else_label) st;
       generate_arms arms OP_EIF (Some end_label) st
     }"
| "generate_handlers [] labels end_label st = Some (end_label, st)"
| "generate_handlers ((i, codes, body) # exs) labels end_label st =
     do {
       st \<leftarrow> define_label (Some (hd labels)) st;
       let st = push_stack 1 st;
       let st = (case i of Some x \<Rightarrow> emit_var_op OP_PUT x st | None \<Rightarrow> st);
       st \<leftarrow> generate_stmt body (pop_stack 1 (emit_byte OP_POP st));
       let (end_label, st) = (if exs = [] then (end_label, st)
                              else add_linked_label (Some end_label) (emit_byte OP_JUMP st));
       generate_handlers exs (tl labels) end_label st
     }"
| "stmt_to_code body g =
     do {
       st \<leftarrow> generate_stmt body (init_state g);
       let st = emit_ending_op OP_DONE st;
       bc \<leftarrow> finish_code st;
       Some (bc, gs st)
     }"
  by pat_completeness auto
termination
  by (relation "measure (case_sum
       (case_sum (\<lambda>(ss, st). 2 * size_list size ss)
         (\<lambda>(arms, op, l, st). 2 * size_list (size_prod (\<lambda>_. 0) (size_list size)) arms))
       (case_sum (\<lambda>(exs, ls, l, st). 2 * size_list (size_prod (\<lambda>_. 0) (size_prod (\<lambda>_. 0) (size_list size))) exs)
         (\<lambda>(ss, g). 2 * size_list size ss + 1)))")
    simp_all

definition generate_code :: "Stmt list \<Rightarrow> Program option" where
  "generate_code stmt =
     do {
       (bc, g) \<leftarrow> stmt_to_code stmt init_gstate;
       Some \<lparr>main_vector = bc, literals = g_literals g, fork_vectors = g_fork_vectors g\<rparr>
     }"

end
