(* ===== verification/Decompile.thy ===== *)
theory Decompile
  imports Ast
begin

text \<open>
  The decompiler (\<^verbatim>\<open>decompile.c\<close>): one pass over a bytecode vector that keeps a stack of expressions and
  calls itself for nested code. A panic, a null sink and a read outside the vector are \<^term>\<open>None\<close>. The
  hot node, which only \<open>find_line_number\<close> asks for, is not modelled: \<open>decompile_program\<close> passes no
  program counter, and then no byte is hot.
\<close>

section \<open>Reading\<close>

definition byte_at :: "Bytecodes \<Rightarrow> nat \<Rightarrow> Byte option" where
  "byte_at bc p = (if p < length (vector bc) then Some (vector bc ! p) else None)"

text \<open>\<^verbatim>\<open>READ_BYTES\<close>: the value and the pointer behind it.\<close>

definition read_bytes :: "Bytecodes \<Rightarrow> nat \<Rightarrow> nat \<Rightarrow> (nat \<times> nat) option" where
  "read_bytes bc n p =
     (if n = 1 then do { a \<leftarrow> byte_at bc p; Some (a, p + 1) }
      else if n = 2 then do { a \<leftarrow> byte_at bc p; b \<leftarrow> byte_at bc (p + 1); Some (a * 2 ^ 8 + b, p + 2) }
      else do {
        a \<leftarrow> byte_at bc p; b \<leftarrow> byte_at bc (p + 1); c \<leftarrow> byte_at bc (p + 2); d \<leftarrow> byte_at bc (p + 3);
        Some (a * 2 ^ 24 + b * 2 ^ 16 + c * 2 ^ 8 + d, p + n)
      })"

definition READ_LABEL :: "Bytecodes \<Rightarrow> nat \<Rightarrow> (nat \<times> nat) option" where
  "READ_LABEL bc p = read_bytes bc (numbytes_label bc) p"

definition READ_ID :: "Bytecodes \<Rightarrow> nat \<Rightarrow> (nat \<times> nat) option" where
  "READ_ID bc p = read_bytes bc (numbytes_var_name bc) p"

definition READ_LITERAL :: "Program \<Rightarrow> Bytecodes \<Rightarrow> nat \<Rightarrow> (Var \<times> nat) option" where
  "READ_LITERAL prog bc p =
     do { (i, p) \<leftarrow> read_bytes bc (numbytes_literal bc) p;
          if i < length (literals prog) then Some (literals prog ! i, p) else None }"

definition READ_FORK :: "Program \<Rightarrow> Bytecodes \<Rightarrow> nat \<Rightarrow> (Bytecodes \<times> nat) option" where
  "READ_FORK prog bc p =
     do { (i, p) \<leftarrow> read_bytes bc (numbytes_fork bc) p;
          if i < length (fork_vectors prog) then Some (fork_vectors prog ! i, p) else None }"

definition read_jump :: "Bytecodes \<Rightarrow> nat \<Rightarrow> (nat \<times> nat) option" where
  "read_jump bc p = do { op \<leftarrow> byte_at bc p; if op \<noteq> OP_JUMP then None else READ_LABEL bc (p + 1) }"

section \<open>The state of one call\<close>

text \<open>The pointer, the start of the current statement, the stack of expressions (shared by nested
  calls), and what has been put into the two sinks.\<close>

record dstate =
  d_ptr :: nat
  d_start :: nat
  d_stack :: "Expr list"
  d_stmts :: "Stmt list"
  d_arms :: "Cond_Arm list"

definition start_at :: "nat \<Rightarrow> Expr list \<Rightarrow> dstate" where
  "start_at p stk = \<lparr>d_ptr = p, d_start = p, d_stack = stk, d_stmts = [], d_arms = []\<rparr>"

definition pop_expr :: "Expr list \<Rightarrow> (Expr \<times> Expr list) option" where
  "pop_expr stk = (case stk of [] \<Rightarrow> None | e # es \<Rightarrow> Some (e, es))"

definition push_expr :: "Expr \<Rightarrow> dstate \<Rightarrow> dstate" where
  "push_expr e st = st\<lparr>d_stack := e # d_stack st\<rparr>"

definition ADD_STMT :: "bool \<Rightarrow> Stmt \<Rightarrow> dstate \<Rightarrow> dstate option" where
  "ADD_STMT sink s st = (if sink then Some (st\<lparr>d_stmts := d_stmts st @ [s], d_start := d_ptr st\<rparr>) else None)"

definition ADD_ARM :: "bool \<Rightarrow> Cond_Arm \<Rightarrow> dstate \<Rightarrow> dstate option" where
  "ADD_ARM sink a st = (if sink then Some (st\<lparr>d_arms := d_arms st @ [a]\<rparr>) else None)"

section \<open>Opcodes without nested code\<close>

text \<open>Variables with their own opcode and small numbers.\<close>

definition ready_op :: "nat \<Rightarrow> dstate \<Rightarrow> dstate option" where
  "ready_op op st =
     (if IS_PUSH_n op then Some (push_expr (EXPR_ID (PUSH_n_INDEX op)) st)
      else if IS_PUT_n op
      then do { (r, stk) \<leftarrow> pop_expr (d_stack st);
                Some (push_expr (EXPR_ASGN (EXPR_ID (PUT_n_INDEX op)) r) (st\<lparr>d_stack := stk\<rparr>)) }
      else Some (push_expr (EXPR_VAR (TYPE_INT (OPCODE_TO_OPTIM_NUM op))) st))"

definition binary_kind :: "nat \<Rightarrow> Binary_Kind option" where
  "binary_kind op =
     (if op = OP_GET_PROP \<or> op = OP_PUSH_GET_PROP then Some EXPR_PROP
      else if op = OP_EQ then Some EXPR_EQ
      else if op = OP_NE then Some EXPR_NE
      else if op = OP_LT then Some EXPR_LT
      else if op = OP_LE then Some EXPR_LE
      else if op = OP_GT then Some EXPR_GT
      else if op = OP_GE then Some EXPR_GE
      else if op = OP_IN then Some EXPR_IN
      else if op = OP_ADD then Some EXPR_PLUS
      else if op = OP_MINUS then Some EXPR_MINUS
      else if op = OP_MULT then Some EXPR_TIMES
      else if op = OP_DIV then Some EXPR_DIVIDE
      else if op = OP_MOD then Some EXPR_MOD
      else None)"

definition finish_binary :: "(Expr \<Rightarrow> Expr \<Rightarrow> Expr) \<Rightarrow> dstate \<Rightarrow> dstate option" where
  "finish_binary f st =
     do { (b, stk) \<leftarrow> pop_expr (d_stack st); (a, stk) \<leftarrow> pop_expr stk; Some (push_expr (f a b) (st\<lparr>d_stack := stk\<rparr>)) }"

definition finish_unary :: "(Expr \<Rightarrow> Expr) \<Rightarrow> dstate \<Rightarrow> dstate option" where
  "finish_unary f st = do { (a, stk) \<leftarrow> pop_expr (d_stack st); Some (push_expr (f a) (st\<lparr>d_stack := stk\<rparr>)) }"

text \<open>The rest of an indexed assignment is skipped, byte by byte, up to the next \<^verbatim>\<open>OP_PUSH_TEMP\<close>.\<close>

definition finish_indexed_assignment :: "Bytecodes \<Rightarrow> dstate \<Rightarrow> dstate option" where
  "finish_indexed_assignment bc st =
     (let n = length (takeWhile (\<lambda>b. b \<noteq> OP_PUSH_TEMP) (drop (d_ptr st) (vector bc)))
      in if d_ptr st + n < length (vector bc) then Some (st\<lparr>d_ptr := d_ptr st + n + 1\<rparr>) else None)"

definition statement_op :: "bool \<Rightarrow> nat \<Rightarrow> dstate \<Rightarrow> dstate option" where
  "statement_op sink op st =
     (if op = OP_POP then do { (e, stk) \<leftarrow> pop_expr (d_stack st); ADD_STMT sink (STMT_EXPR e) (st\<lparr>d_stack := stk\<rparr>) }
      else if op = OP_RETURN
      then do { (e, stk) \<leftarrow> pop_expr (d_stack st); ADD_STMT sink (STMT_RETURN (Some e)) (st\<lparr>d_stack := stk\<rparr>) }
      else ADD_STMT sink (STMT_RETURN None) st)"

definition list_op :: "nat \<Rightarrow> dstate \<Rightarrow> dstate option" where
  "list_op op st =
     (if op = OP_MAKE_EMPTY_LIST then Some (push_expr (EXPR_LIST []) st)
      else if op = OP_MAKE_SINGLETON_LIST then finish_unary (\<lambda>e. EXPR_LIST [(ARG_NORMAL, e)]) st
      else if op = OP_CHECK_LIST_FOR_SPLICE then finish_unary (\<lambda>e. EXPR_LIST [(ARG_SPLICE, e)]) st
      else do {
        (e, stk) \<leftarrow> pop_expr (d_stack st);
        (l, stk) \<leftarrow> pop_expr stk;
        case l of
          EXPR_LIST (a # as) \<Rightarrow>
            Some (push_expr (EXPR_LIST ((a # as) @ [(if op = OP_LIST_APPEND then ARG_SPLICE else ARG_NORMAL, e)]))
              (st\<lparr>d_stack := stk\<rparr>))
        | _ \<Rightarrow> None
      })"

definition call_op :: "Bytecodes \<Rightarrow> nat \<Rightarrow> dstate \<Rightarrow> dstate option" where
  "call_op bc op st =
     do {
       (a, stk) \<leftarrow> pop_expr (d_stack st);
       case a of
         EXPR_LIST args \<Rightarrow>
           if op = OP_BI_FUNC_CALL
           then do { (f, p) \<leftarrow> read_bytes bc 1 (d_ptr st); Some (push_expr (EXPR_CALL f args) (st\<lparr>d_stack := stk, d_ptr := p\<rparr>)) }
           else do {
             (v, stk) \<leftarrow> pop_expr stk;
             (obj, stk) \<leftarrow> pop_expr stk;
             Some (push_expr (EXPR_VERB obj v args) (st\<lparr>d_stack := stk\<rparr>))
           }
       | _ \<Rightarrow> None
     }"

definition index_op :: "Bytecodes \<Rightarrow> nat \<Rightarrow> dstate \<Rightarrow> dstate option" where
  "index_op bc op st =
     (if op = OP_REF \<or> op = OP_PUSH_REF then finish_binary EXPR_INDEX st
      else if op = OP_RANGE_REF
      then do {
        (c, stk) \<leftarrow> pop_expr (d_stack st); (b, stk) \<leftarrow> pop_expr stk; (a, stk) \<leftarrow> pop_expr stk;
        Some (push_expr (EXPR_RANGE a b c) (st\<lparr>d_stack := stk\<rparr>))
      }
      else if op = OP_PUT_TEMP then Some st
      else if op = OP_INDEXSET
      then do {
        (r, stk) \<leftarrow> pop_expr (d_stack st); (i, stk) \<leftarrow> pop_expr stk; (b, stk) \<leftarrow> pop_expr stk;
        finish_indexed_assignment bc (push_expr (EXPR_ASGN (EXPR_INDEX b i) r) (st\<lparr>d_stack := stk\<rparr>))
      }
      else do {
        (r, stk) \<leftarrow> pop_expr (d_stack st); (b, stk) \<leftarrow> pop_expr stk; (a, stk) \<leftarrow> pop_expr stk;
        Some (push_expr (EXPR_ASGN (EXPR_BINARY EXPR_PROP a b) r) (st\<lparr>d_stack := stk\<rparr>))
      })"

definition simple_op :: "Program \<Rightarrow> Bytecodes \<Rightarrow> nat \<Rightarrow> bool \<Rightarrow> nat \<Rightarrow> dstate \<Rightarrow> dstate option" where
  "simple_op prog bc e sink op st =
     (if op = OP_POP \<or> op = OP_RETURN \<or> op = OP_RETURN0 then statement_op sink op st
      else if op = OP_DONE then (if d_ptr st \<noteq> e then None else Some st)
      else if op = OP_IMM
      then do { (v, p) \<leftarrow> READ_LITERAL prog bc (d_ptr st); Some (push_expr (EXPR_VAR v) (st\<lparr>d_ptr := p\<rparr>)) }
      else if op = OP_G_PUSH
      then do { (i, p) \<leftarrow> READ_ID bc (d_ptr st); Some (push_expr (EXPR_ID i) (st\<lparr>d_ptr := p\<rparr>)) }
      else if op = OP_UNARY_MINUS then finish_unary (EXPR_UNARY EXPR_NEGATE) st
      else if op = OP_NOT then finish_unary (EXPR_UNARY EXPR_NOT) st
      else if binary_kind op \<noteq> None then finish_binary (EXPR_BINARY (the (binary_kind op))) st
      else if op \<in> {OP_REF, OP_PUSH_REF, OP_RANGE_REF, OP_PUT_TEMP, OP_INDEXSET, OP_PUT_PROP} then index_op bc op st
      else if op = OP_BI_FUNC_CALL \<or> op = OP_CALL_VERB then call_op bc op st
      else if op = OP_G_PUT
      then do {
        (i, p) \<leftarrow> READ_ID bc (d_ptr st);
        (r, stk) \<leftarrow> pop_expr (d_stack st);
        Some (push_expr (EXPR_ASGN (EXPR_ID i) r) (st\<lparr>d_stack := stk, d_ptr := p\<rparr>))
      }
      else if op \<in> {OP_MAKE_EMPTY_LIST, OP_MAKE_SINGLETON_LIST, OP_CHECK_LIST_FOR_SPLICE, OP_LIST_ADD_TAIL, OP_LIST_APPEND}
      then list_op op st
      else None)"

definition extended_binary_kind :: "nat \<Rightarrow> Binary_Kind option" where
  "extended_binary_kind op =
     (if op = EOP_EXP then Some EXPR_EXP
      else if op = EOP_BITAND then Some EXPR_BITAND
      else if op = EOP_BITXOR then Some EXPR_BITXOR
      else if op = EOP_BITOR then Some EXPR_BITOR
      else if op = EOP_SHL then Some EXPR_SHL
      else if op = EOP_SHR then Some EXPR_SHR
      else if op = EOP_LSHR then Some EXPR_LSHR
      else None)"

definition simple_eop :: "Bytecodes \<Rightarrow> bool \<Rightarrow> nat \<Rightarrow> dstate \<Rightarrow> dstate option" where
  "simple_eop bc sink eop st =
     (if eop = EOP_RANGESET
      then do {
        (r, stk) \<leftarrow> pop_expr (d_stack st); (c, stk) \<leftarrow> pop_expr stk; (b, stk) \<leftarrow> pop_expr stk; (a, stk) \<leftarrow> pop_expr stk;
        finish_indexed_assignment bc (push_expr (EXPR_ASGN (EXPR_RANGE a b c) r) (st\<lparr>d_stack := stk\<rparr>))
      }
      else if eop = EOP_LENGTH then Some (push_expr EXPR_LENGTH (st\<lparr>d_ptr := d_ptr st + numbytes_stack bc\<rparr>))
      else if eop = EOP_PUSH_LABEL
      then do { (l, p) \<leftarrow> READ_LABEL bc (d_ptr st); Some (push_expr (EXPR_VAR (TYPE_INT (int l))) (st\<lparr>d_ptr := p\<rparr>)) }
      else if eop = EOP_EXIT \<or> eop = EOP_EXIT_ID
      then do {
        (x, p) \<leftarrow> (if eop = EOP_EXIT_ID then map_option (map_prod Some (\<lambda>p. p)) (READ_ID bc (d_ptr st)) else Some (None, d_ptr st));
        (l, p) \<leftarrow> READ_LABEL bc (p + numbytes_stack bc);
        ADD_STMT sink (if l < p then STMT_CONTINUE x else STMT_BREAK x) (st\<lparr>d_ptr := p\<rparr>)
      }
      else if extended_binary_kind eop \<noteq> None then finish_binary (EXPR_BINARY (the (extended_binary_kind eop))) st
      else if eop = EOP_COMPLEMENT then finish_unary (EXPR_UNARY EXPR_COMPLEMENT) st
      else None)"

section \<open>Scattering assignments and handlers\<close>

text \<open>The targets with the labels of their defaults, zero without one.\<close>

fun read_targets :: "Bytecodes \<Rightarrow> nat \<Rightarrow> nat \<Rightarrow> nat \<Rightarrow> nat \<Rightarrow> ((Scatter_Kind \<times> nat \<times> nat) list \<times> nat) option" where
  "read_targets bc 0 i rest p = Some ([], p)"
| "read_targets bc (Suc n) i rest p =
     do {
       (x, p) \<leftarrow> READ_ID bc p;
       (label, p) \<leftarrow> READ_LABEL bc p;
       (ts, p) \<leftarrow> read_targets bc n (i + 1) rest p;
       Some ((if i = rest then SCAT_REST else if label = 0 then SCAT_REQUIRED else SCAT_OPTIONAL,
              x, if label > 1 then label else 0) # ts, p)
     }"

fun next_label :: "(Scatter_Kind \<times> nat \<times> nat) list \<Rightarrow> nat \<Rightarrow> nat" where
  "next_label [] dn = dn"
| "next_label ((k, i, label) # ts) dn = (if label \<noteq> 0 then label else next_label ts dn)"

fun scatter_defaults ::
  "(nat \<Rightarrow> nat \<Rightarrow> Expr list \<Rightarrow> dstate option) \<Rightarrow> Bytecodes \<Rightarrow> nat \<Rightarrow> (Scatter_Kind \<times> nat \<times> nat) list \<Rightarrow> nat \<Rightarrow> Expr list \<Rightarrow>
    (Scatter list \<times> nat \<times> Expr list) option" where
  "scatter_defaults dec bc dn [] p stk = Some ([], p, stk)"
| "scatter_defaults dec bc dn ((k, i, label) # ts) p stk =
     (if label = 0
      then do { (sc, p, stk) \<leftarrow> scatter_defaults dec bc dn ts p stk; Some ((k, i, None) # sc, p, stk) }
      else if p \<noteq> label then None
      else do {
        r \<leftarrow> dec p (next_label ts dn - 1) stk;
        (d, stk) \<leftarrow> pop_expr (d_stack r);
        x \<leftarrow> (case d of EXPR_ASGN lhs x \<Rightarrow> if lhs = EXPR_ID i then Some x else None | _ \<Rightarrow> None);
        op \<leftarrow> byte_at bc (d_ptr r);
        if op \<noteq> OP_POP then None
        else do { (sc, p, stk) \<leftarrow> scatter_defaults dec bc dn ts (d_ptr r + 1) stk; Some ((k, i, Some x) # sc, p, stk) }
      })"

definition catch_label :: "Expr \<Rightarrow> int option" where
  "catch_label e = (case e of EXPR_VAR (TYPE_INT n) \<Rightarrow> Some n | _ \<Rightarrow> None)"

definition catch_codes :: "Expr \<Rightarrow> Arg_List option" where
  "catch_codes e =
     (case e of
        EXPR_LIST a \<Rightarrow> Some a
      | EXPR_VAR (TYPE_INT n) \<Rightarrow> if n = 0 then Some [] else None
      | _ \<Rightarrow> None)"

text \<open>The labels and codes of the handlers, which are on the stack in reverse order.\<close>

fun pop_handlers :: "nat \<Rightarrow> (int \<times> Arg_List) list \<Rightarrow> Expr list \<Rightarrow> ((int \<times> Arg_List) list \<times> Expr list) option" where
  "pop_handlers 0 exs stk = Some (exs, stk)"
| "pop_handlers (Suc n) exs stk =
     do {
       (l, stk) \<leftarrow> pop_expr stk;
       label \<leftarrow> catch_label l;
       (e, stk) \<leftarrow> pop_expr stk;
       a \<leftarrow> catch_codes e;
       pop_handlers n ((label, a) # exs) stk
     }"

text \<open>The start of a handler: the variable, if there is one, and the pop.\<close>

definition handler_start :: "Bytecodes \<Rightarrow> nat \<Rightarrow> (nat option \<times> nat) option" where
  "handler_start bc p =
     do {
       op \<leftarrow> byte_at bc p;
       (x, op, p) \<leftarrow> (if op = OP_G_PUT then do { (i, p) \<leftarrow> READ_ID bc (p + 1); op \<leftarrow> byte_at bc p; Some (Some i, op, p + 1) }
                    else if IS_PUT_n op then do { op' \<leftarrow> byte_at bc (p + 1); Some (Some (PUT_n_INDEX op), op', p + 2) }
                    else Some (None, op, p + 1));
       if op \<noteq> OP_POP then None else Some (x, p)
     }"

fun except_handlers ::
  "(nat \<Rightarrow> nat \<Rightarrow> Expr list \<Rightarrow> dstate option) \<Rightarrow> Bytecodes \<Rightarrow> nat \<Rightarrow> (int \<times> Arg_List) list \<Rightarrow> nat \<Rightarrow> Expr list \<Rightarrow>
    (Except_Arm list \<times> nat \<times> Expr list) option" where
  "except_handlers dec bc dn [] p stk = Some ([], p, stk)"
| "except_handlers dec bc dn ((label, a) # exs) p stk =
     (if label \<noteq> int p then None
      else do {
        (x, p) \<leftarrow> handler_start bc p;
        r \<leftarrow> dec p (if exs = [] then dn else nat (fst (hd exs)) - (numbytes_label bc + 1)) stk;
        p \<leftarrow> (if exs = [] then Some (d_ptr r)
              else do { (l, p) \<leftarrow> read_jump bc (d_ptr r); if l \<noteq> dn then None else Some p });
        (hs, p, stk) \<leftarrow> except_handlers dec bc dn exs p (d_stack r);
        Some ((x, a, d_stmts r) # hs, p, stk)
      })"

section \<open>Opcodes with nested code\<close>

text \<open>In the following \<open>dec\<close> is the decompiler itself for the same vector: the end of the code, the state at
  its start, and whether there are sinks for statements and for the further arms of a conditional.\<close>

type_synonym decoder = "nat \<Rightarrow> dstate \<Rightarrow> bool \<Rightarrow> bool \<Rightarrow> dstate option"

definition if_op :: "decoder \<Rightarrow> Bytecodes \<Rightarrow> bool \<Rightarrow> dstate \<Rightarrow> dstate option" where
  "if_op dec bc ss st =
     do {
       (nxt, p) \<leftarrow> READ_LABEL bc (d_ptr st);
       (c, stk) \<leftarrow> pop_expr (d_stack st);
       r \<leftarrow> dec (nxt - (numbytes_label bc + 1)) (start_at p stk) True False;
       (dn, p) \<leftarrow> read_jump bc (d_ptr r);
       r' \<leftarrow> dec dn (start_at p (d_stack r)) True True;
       ADD_STMT ss (STMT_COND ((c, d_stmts r) # d_arms r') (d_stmts r')) (st\<lparr>d_ptr := d_ptr r', d_stack := d_stack r'\<rparr>)
     }"

definition eif_op :: "decoder \<Rightarrow> Bytecodes \<Rightarrow> nat \<Rightarrow> bool \<Rightarrow> dstate \<Rightarrow> dstate option" where
  "eif_op dec bc e as st =
     do {
       (nxt, p) \<leftarrow> READ_LABEL bc (d_ptr st);
       (c, stk) \<leftarrow> pop_expr (d_stack st);
       r \<leftarrow> dec (nxt - (numbytes_label bc + 1)) (start_at p stk) True False;
       st \<leftarrow> ADD_ARM as (c, d_stmts r) st;
       (dn, p) \<leftarrow> read_jump bc (d_ptr r);
       if dn \<noteq> e then None else Some (st\<lparr>d_ptr := p, d_start := p, d_stack := d_stack r\<rparr>)
     }"

text \<open>The body of a loop, and the jump back to \<open>t\<close>; the statements of the body, the pointer and the
  stack.\<close>

definition loop_body :: "decoder \<Rightarrow> Bytecodes \<Rightarrow> nat \<Rightarrow> nat \<Rightarrow> nat \<Rightarrow> Expr list \<Rightarrow> (Stmt list \<times> nat \<times> Expr list) option" where
  "loop_body dec bc t dn p stk =
     do {
       r \<leftarrow> dec (dn - (numbytes_label bc + 1)) (start_at p stk) True False;
       (l, p) \<leftarrow> read_jump bc (d_ptr r);
       if l \<noteq> t then None else Some (d_stmts r, p, d_stack r)
     }"

definition for_list_op :: "decoder \<Rightarrow> Bytecodes \<Rightarrow> bool \<Rightarrow> dstate \<Rightarrow> dstate option" where
  "for_list_op dec bc ss st =
     do {
       let t = d_ptr st - 1;
       (i, p) \<leftarrow> READ_ID bc (d_ptr st);
       (dn, p) \<leftarrow> READ_LABEL bc p;
       (one, stk) \<leftarrow> pop_expr (d_stack st);
       (l, stk) \<leftarrow> pop_expr stk;
       if one \<noteq> EXPR_VAR (TYPE_INT 1) then None
       else do {
         (body, p, stk) \<leftarrow> loop_body dec bc t dn p stk;
         ADD_STMT ss (STMT_LIST i l body) (st\<lparr>d_ptr := p, d_stack := stk\<rparr>)
       }
     }"

definition for_range_op :: "decoder \<Rightarrow> Bytecodes \<Rightarrow> bool \<Rightarrow> dstate \<Rightarrow> dstate option" where
  "for_range_op dec bc ss st =
     do {
       let t = d_ptr st - 1;
       (i, p) \<leftarrow> READ_ID bc (d_ptr st);
       (dn, p) \<leftarrow> READ_LABEL bc p;
       (b, stk) \<leftarrow> pop_expr (d_stack st);
       (a, stk) \<leftarrow> pop_expr stk;
       (body, p, stk) \<leftarrow> loop_body dec bc t dn p stk;
       ADD_STMT ss (STMT_RANGE i a b body) (st\<lparr>d_ptr := p, d_stack := stk\<rparr>)
     }"

definition while_op :: "decoder \<Rightarrow> Bytecodes \<Rightarrow> bool \<Rightarrow> nat option \<Rightarrow> dstate \<Rightarrow> dstate option" where
  "while_op dec bc ss x st =
     do {
       (dn, p) \<leftarrow> READ_LABEL bc (d_ptr st);
       (c, stk) \<leftarrow> pop_expr (d_stack st);
       (body, p, stk) \<leftarrow> loop_body dec bc (d_start st) dn p stk;
       ADD_STMT ss (STMT_WHILE x c body) (st\<lparr>d_ptr := p, d_stack := stk\<rparr>)
     }"

definition and_or_op :: "decoder \<Rightarrow> Bytecodes \<Rightarrow> nat \<Rightarrow> dstate \<Rightarrow> dstate option" where
  "and_or_op dec bc op st =
     do {
       (dn, p) \<leftarrow> READ_LABEL bc (d_ptr st);
       (a, stk) \<leftarrow> pop_expr (d_stack st);
       r \<leftarrow> dec dn (start_at p stk) False False;
       if d_ptr r \<noteq> dn then None
       else do {
         (b, stk) \<leftarrow> pop_expr (d_stack r);
         Some (push_expr (EXPR_LOGIC (if op = OP_AND then EXPR_AND else EXPR_OR) a b) (st\<lparr>d_ptr := d_ptr r, d_stack := stk\<rparr>))
       }
     }"

definition if_ques_op :: "decoder \<Rightarrow> Bytecodes \<Rightarrow> dstate \<Rightarrow> dstate option" where
  "if_ques_op dec bc st =
     do {
       (label, p) \<leftarrow> READ_LABEL bc (d_ptr st);
       (c, stk) \<leftarrow> pop_expr (d_stack st);
       r \<leftarrow> dec (label - (numbytes_label bc + 1)) (start_at p stk) False False;
       (label, p) \<leftarrow> read_jump bc (d_ptr r);
       (a, stk) \<leftarrow> pop_expr (d_stack r);
       r \<leftarrow> dec label (start_at p stk) False False;
       if d_ptr r \<noteq> label then None
       else do {
         (b, stk) \<leftarrow> pop_expr (d_stack r);
         Some (push_expr (EXPR_COND c a b) (st\<lparr>d_ptr := d_ptr r, d_stack := stk\<rparr>))
       }
     }"

definition scatter_op :: "decoder \<Rightarrow> Bytecodes \<Rightarrow> dstate \<Rightarrow> dstate option" where
  "scatter_op dec bc st =
     do {
       nargs \<leftarrow> byte_at bc (d_ptr st);
       rest \<leftarrow> byte_at bc (d_ptr st + 2);
       (ts, p) \<leftarrow> read_targets bc nargs 1 rest (d_ptr st + 3);
       (dn, p) \<leftarrow> READ_LABEL bc p;
       (sc, p, stk) \<leftarrow> scatter_defaults (\<lambda>p e stk. dec e (start_at p stk) False False) bc dn ts p (d_stack st);
       (r, stk) \<leftarrow> pop_expr stk;
       if p \<noteq> dn then None else Some (push_expr (EXPR_ASGN (EXPR_SCATTER sc) r) (st\<lparr>d_ptr := p, d_stack := stk\<rparr>))
     }"

text \<open>The default of a catch expression.\<close>

definition catch_default :: "decoder \<Rightarrow> Bytecodes \<Rightarrow> nat \<Rightarrow> nat \<Rightarrow> Expr list \<Rightarrow> (Expr option \<times> nat \<times> Expr list) option" where
  "catch_default dec bc dn p stk =
     do {
       op \<leftarrow> byte_at bc p;
       if op = OPTIM_NUM_TO_OPCODE 1
       then do { op \<leftarrow> byte_at bc (p + 1); if op \<noteq> OP_REF then None else Some (None, p + 2, stk) }
       else if op = OP_POP
       then do {
         r \<leftarrow> dec dn (start_at (p + 1) stk) False False;
         (d, stk) \<leftarrow> pop_expr (d_stack r);
         Some (Some d, d_ptr r, stk)
       }
       else None
     }"

definition catch_op :: "decoder \<Rightarrow> Bytecodes \<Rightarrow> nat \<Rightarrow> dstate \<Rightarrow> dstate option" where
  "catch_op dec bc e st =
     do {
       (l, stk) \<leftarrow> pop_expr (d_stack st);
       (codes, stk) \<leftarrow> pop_expr stk;
       label \<leftarrow> catch_label l;
       a \<leftarrow> catch_codes codes;
       r \<leftarrow> dec e (start_at (d_ptr st) stk) False False;
       eop \<leftarrow> byte_at bc (d_ptr r + 1);
       if eop \<noteq> EOP_END_CATCH then None
       else do {
         (dn, p) \<leftarrow> READ_LABEL bc (d_ptr r + 2);
         (t, stk) \<leftarrow> pop_expr (d_stack r);
         if int p \<noteq> label then None
         else do {
           (d, p, stk) \<leftarrow> catch_default dec bc dn p stk;
           if p \<noteq> dn then None else Some (push_expr (EXPR_CATCH t a d) (st\<lparr>d_ptr := p, d_stack := stk\<rparr>))
         }
       }
     }"

definition try_except_op :: "decoder \<Rightarrow> Bytecodes \<Rightarrow> nat \<Rightarrow> bool \<Rightarrow> dstate \<Rightarrow> dstate option" where
  "try_except_op dec bc e ss st =
     do {
       count \<leftarrow> byte_at bc (d_ptr st);
       (exs, stk) \<leftarrow> pop_handlers count [] (d_stack st);
       r \<leftarrow> dec e (start_at (d_ptr st + 1) stk) True False;
       eop \<leftarrow> byte_at bc (d_ptr r + 1);
       if eop \<noteq> EOP_END_EXCEPT then None
       else do {
         (dn, p) \<leftarrow> READ_LABEL bc (d_ptr r + 2);
         (hs, p, stk) \<leftarrow> except_handlers (\<lambda>p e stk. dec e (start_at p stk) True False) bc dn exs p (d_stack r);
         if p \<noteq> dn then None else ADD_STMT ss (STMT_TRY_EXCEPT (d_stmts r) hs) (st\<lparr>d_ptr := p, d_stack := stk\<rparr>)
       }
     }"

definition try_finally_op :: "decoder \<Rightarrow> Bytecodes \<Rightarrow> nat \<Rightarrow> bool \<Rightarrow> dstate \<Rightarrow> dstate option" where
  "try_finally_op dec bc e ss st =
     do {
       (label, p) \<leftarrow> READ_LABEL bc (d_ptr st);
       r \<leftarrow> dec e (start_at p (d_stack st)) True False;
       eop \<leftarrow> byte_at bc (d_ptr r + 1);
       if eop \<noteq> EOP_END_FINALLY \<or> d_ptr r + 2 \<noteq> label then None
       else do {
         r' \<leftarrow> dec e (start_at (d_ptr r + 2) (d_stack r)) True False;
         eop \<leftarrow> byte_at bc (d_ptr r' + 1);
         if eop \<noteq> EOP_CONTINUE then None
         else ADD_STMT ss (STMT_TRY_FINALLY (d_stmts r) (d_stmts r')) (st\<lparr>d_ptr := d_ptr r' + 2, d_stack := d_stack r'\<rparr>)
       }
     }"

text \<open>The opcodes that call the decompiler again on the same vector.\<close>

definition nested_op :: "decoder \<Rightarrow> Bytecodes \<Rightarrow> nat \<Rightarrow> bool \<Rightarrow> bool \<Rightarrow> nat \<Rightarrow> dstate \<Rightarrow> dstate option" where
  "nested_op dec bc e ss as op st =
     (if op = OP_IF then if_op dec bc ss st
      else if op = OP_EIF then eif_op dec bc e as st
      else if op = OP_FOR_LIST then for_list_op dec bc ss st
      else if op = OP_FOR_RANGE then for_range_op dec bc ss st
      else if op = OP_WHILE then while_op dec bc ss None st
      else if op = OP_IF_QUES then if_ques_op dec bc st
      else and_or_op dec bc op st)"

definition nested_eop :: "decoder \<Rightarrow> Bytecodes \<Rightarrow> nat \<Rightarrow> bool \<Rightarrow> nat \<Rightarrow> dstate \<Rightarrow> dstate option" where
  "nested_eop dec bc e ss eop st =
     (if eop = EOP_SCATTER then scatter_op dec bc st
      else if eop = EOP_CATCH then catch_op dec bc e st
      else if eop = EOP_TRY_EXCEPT then try_except_op dec bc e ss st
      else if eop = EOP_TRY_FINALLY then try_finally_op dec bc e ss st
      else do { (i, p) \<leftarrow> READ_ID bc (d_ptr st); while_op dec bc ss (Some i) (st\<lparr>d_ptr := p\<rparr>) })"

lemma case_prod_mono: "(\<And>a b. mono_option (\<lambda>f. h f a b)) \<Longrightarrow> mono_option (\<lambda>f. case y of (a, b) \<Rightarrow> h f a b)"
  by (cases y) simp

lemma scatter_defaults_mono [partial_function_mono]:
  assumes "\<And>p e stk. mono_option (\<lambda>f. dec f p e stk)"
  shows "mono_option (\<lambda>f. scatter_defaults (dec f) bc dn ts p stk)"
proof (induction ts arbitrary: p stk)
  case Nil
  then show ?case by (simp add: option.const_mono)
next
  case (Cons t ts)
  obtain k i label where t: "t = (k, i, label)" by (cases t)
  show ?case unfolding t scatter_defaults.simps by (intro case_prod_mono partial_function_mono Cons assms)
qed

lemma except_handlers_mono [partial_function_mono]:
  assumes "\<And>p e stk. mono_option (\<lambda>f. dec f p e stk)"
  shows "mono_option (\<lambda>f. except_handlers (dec f) bc dn exs p stk)"
proof (induction exs arbitrary: p stk)
  case Nil
  then show ?case by (simp add: option.const_mono)
next
  case (Cons x exs)
  obtain label a where x: "x = (label, a)" by (cases x)
  show ?case unfolding x except_handlers.simps by (intro case_prod_mono partial_function_mono Cons assms)
qed

lemma nested_op_mono [partial_function_mono]:
  assumes dec: "\<And>e st ss as. mono_option (\<lambda>f. dec f e st ss as)"
  shows "mono_option (\<lambda>f. nested_op (dec f) bc e ss as op st)"
proof -
  note intro_rules = case_prod_mono partial_function_mono assms
  have loop: "mono_option (\<lambda>f. loop_body (dec f) bc t dn p stk)" for t dn p stk
    unfolding loop_body_def by (intro intro_rules)
  have "mono_option (\<lambda>f. if_op (dec f) bc ss st)" unfolding if_op_def by (intro intro_rules)
  moreover have "mono_option (\<lambda>f. eif_op (dec f) bc e as st)" unfolding eif_op_def by (intro intro_rules)
  moreover have "mono_option (\<lambda>f. for_list_op (dec f) bc ss st)" unfolding for_list_op_def by (intro intro_rules loop)
  moreover have "mono_option (\<lambda>f. for_range_op (dec f) bc ss st)" unfolding for_range_op_def by (intro intro_rules loop)
  moreover have "mono_option (\<lambda>f. while_op (dec f) bc ss None st)" unfolding while_op_def by (intro intro_rules loop)
  moreover have "mono_option (\<lambda>f. if_ques_op (dec f) bc st)" unfolding if_ques_op_def by (intro intro_rules)
  moreover have "mono_option (\<lambda>f. and_or_op (dec f) bc op st)" unfolding and_or_op_def by (intro intro_rules)
  ultimately show ?thesis unfolding nested_op_def by (intro if_mono)
qed

lemma nested_eop_mono [partial_function_mono]:
  assumes dec: "\<And>e st ss as. mono_option (\<lambda>f. dec f e st ss as)"
  shows "mono_option (\<lambda>f. nested_eop (dec f) bc e ss eop st)"
proof -
  note intro_rules = case_prod_mono partial_function_mono assms
  have "mono_option (\<lambda>f. scatter_op (dec f) bc st)" unfolding scatter_op_def by (intro intro_rules)
  moreover have d: "mono_option (\<lambda>f. catch_default (dec f) bc dn p stk)" for dn p stk
    unfolding catch_default_def by (intro intro_rules)
  moreover have "mono_option (\<lambda>f. catch_op (dec f) bc e st)" unfolding catch_op_def by (intro intro_rules d)
  moreover have "mono_option (\<lambda>f. try_except_op (dec f) bc e ss st)" unfolding try_except_op_def by (intro intro_rules)
  moreover have "mono_option (\<lambda>f. try_finally_op (dec f) bc e ss st)" unfolding try_finally_op_def by (intro intro_rules)
  moreover have "mono_option (\<lambda>f. do { (i, p) \<leftarrow> READ_ID bc (d_ptr st); while_op (dec f) bc ss (Some i) (st\<lparr>d_ptr := p\<rparr>) })"
    unfolding while_op_def loop_body_def by (intro intro_rules)
  ultimately show ?thesis unfolding nested_eop_def by (intro if_mono)
qed

section \<open>The decompiler\<close>

text \<open>The loop of one call up to \<open>e\<close>; the two flags tell whether there is a sink for statements and
  one for the further arms of a conditional. The ends of \<^verbatim>\<open>catch\<close> and \<^verbatim>\<open>try\<close> leave the call early.\<close>

partial_function (option) decompile ::
  "Program \<Rightarrow> Bytecodes \<Rightarrow> nat \<Rightarrow> dstate \<Rightarrow> bool \<Rightarrow> bool \<Rightarrow> dstate option" where
  "decompile prog bc e st ss as =
     (if \<not> d_ptr st < e then (if d_ptr st \<noteq> e then None else Some st)
      else do {
        op \<leftarrow> byte_at bc (d_ptr st);
        let p = d_ptr st + 1;
        if IS_PUSH_n op \<or> IS_PUT_n op \<or> IS_OPTIM_NUM_OPCODE op
        then do { st \<leftarrow> ready_op op (st\<lparr>d_ptr := p\<rparr>); decompile prog bc e st ss as }
        else if op \<in> {OP_IF, OP_EIF, OP_FOR_LIST, OP_FOR_RANGE, OP_WHILE, OP_IF_QUES, OP_AND, OP_OR}
        then do {
          st \<leftarrow> nested_op (\<lambda>e st ss as. decompile prog bc e st ss as) bc e ss as op (st\<lparr>d_ptr := p\<rparr>);
          decompile prog bc e st ss as
        }
        else if op = OP_FORK \<or> op = OP_FORK_WITH_ID
        then do {
          (t, stk) \<leftarrow> pop_expr (d_stack st);
          (fbc, p) \<leftarrow> READ_FORK prog bc p;
          (x, p) \<leftarrow> (if op = OP_FORK then Some (None, p) else map_option (map_prod Some (\<lambda>p. p)) (READ_ID bc p));
          r \<leftarrow> decompile prog fbc (bc_size fbc) (start_at 0 stk) True False;
          st \<leftarrow> ADD_STMT ss (STMT_FORK x t (d_stmts r)) (st\<lparr>d_ptr := p, d_stack := d_stack r\<rparr>);
          decompile prog bc e st ss as
        }
        else if op = OP_EXTENDED
        then do {
          eop \<leftarrow> byte_at bc p;
          let p = p + 1;
          if eop \<in> {EOP_END_CATCH, EOP_END_EXCEPT, EOP_END_FINALLY, EOP_CONTINUE} then Some (st\<lparr>d_ptr := p - 2\<rparr>)
          else if eop \<in> {EOP_SCATTER, EOP_CATCH, EOP_TRY_EXCEPT, EOP_TRY_FINALLY, EOP_WHILE_ID}
          then do {
            st \<leftarrow> nested_eop (\<lambda>e st ss as. decompile prog bc e st ss as) bc e ss eop (st\<lparr>d_ptr := p\<rparr>);
            decompile prog bc e st ss as
          }
          else do { st \<leftarrow> simple_eop bc ss eop (st\<lparr>d_ptr := p\<rparr>); decompile prog bc e st ss as }
        }
        else do { st \<leftarrow> simple_op prog bc e ss op (st\<lparr>d_ptr := p\<rparr>); decompile prog bc e st ss as }
      })"

declare decompile.simps [code]

definition decompile_program :: "Program \<Rightarrow> nat option \<Rightarrow> Stmt list option" where
  "decompile_program prog v =
     (let bc = (case v of None \<Rightarrow> main_vector prog | Some i \<Rightarrow> fork_vectors prog ! i)
      in map_option d_stmts (decompile prog bc (bc_size bc) (start_at 0 []) True False))"

end
