(* ===== verification/Code_Sequences.thy ===== *)
theory Code_Sequences
  imports Ast
begin

text \<open>
  The contract between compiler and decompiler: the code sequences of \<^verbatim>\<open>MOOCodeSequences.txt\<close> as
  inductive rules, over items that name what a reference refers to, and the trees the parser builds.

  A place counts the items of each kind before it, which determines its address once the sizes of the
  references are known; labels are places. The rules also give the depth of the run-time stack, from
  which the positions of \<^verbatim>\<open>$\<close> and of loop exits come.
\<close>

section \<open>Items and places\<close>

record place =
  at_item :: nat
  at_lits :: nat
  at_forks :: nat
  at_vars :: nat
  at_labels :: nat

datatype item = B Byte | LIT Var | FORK "Stmt list" | VAR nat | STK nat | LAB place | PSEUDO nat

fun pass :: "place \<Rightarrow> item \<Rightarrow> place" where
  "pass p (B b) = p\<lparr>at_item := at_item p + 1\<rparr>"
| "pass p (LIT v) = p\<lparr>at_item := at_item p + 1, at_lits := at_lits p + 1\<rparr>"
| "pass p (FORK ss) = p\<lparr>at_item := at_item p + 1, at_forks := at_forks p + 1\<rparr>"
| "pass p (VAR x) = p\<lparr>at_item := at_item p + 1, at_vars := at_vars p + 1\<rparr>"
| "pass p (STK n) = p\<lparr>at_item := at_item p + 1\<rparr>"
| "pass p (LAB q) = p\<lparr>at_item := at_item p + 1, at_labels := at_labels p + 1\<rparr>"
| "pass p (PSEUDO n) = p\<lparr>at_item := at_item p + 1, at_labels := at_labels p + 1\<rparr>"

definition advance :: "place \<Rightarrow> item list \<Rightarrow> place" where
  "advance p C = foldl pass p C"

lemma advance_simps [simp]:
  "advance p [] = p" "advance p (i # C) = advance (pass p i) C" "advance p (C @ D) = advance (advance p C) D"
  by (simp_all add: advance_def)

declare pass.simps [simp del]

text \<open>What a place looks like does not depend on the labels passed.\<close>

definition label_pass :: "place \<Rightarrow> place" where
  "label_pass p = p\<lparr>at_item := at_item p + 1, at_labels := at_labels p + 1\<rparr>"

definition byte_pass :: "place \<Rightarrow> place" where
  "byte_pass p = p\<lparr>at_item := at_item p + 1\<rparr>"

lemma pass_simps [simp]:
  "pass p (LAB q) = label_pass p" "pass p (PSEUDO n) = label_pass p" "pass p (B b) = byte_pass p" "pass p (STK n) = byte_pass p"
  by (simp_all add: pass.simps label_pass_def byte_pass_def)

definition origin :: place where
  "origin = \<lparr>at_item = 0, at_lits = 0, at_forks = 0, at_vars = 0, at_labels = 0\<rparr>"

section \<open>Code sequences\<close>

definition var_items :: "nat \<Rightarrow> nat \<Rightarrow> item list" where
  "var_items op x = (if x \<ge> NUM_READY_VARS then [B (op + NUM_READY_VARS), VAR x] else [B (op + x)])"

fun unary_items :: "Unary_Kind \<Rightarrow> item list" where
  "unary_items EXPR_NEGATE = [B OP_UNARY_MINUS]"
| "unary_items EXPR_NOT = [B OP_NOT]"
| "unary_items EXPR_COMPLEMENT = [B OP_EXTENDED, B EOP_COMPLEMENT]"

fun binary_items :: "Binary_Kind \<Rightarrow> item list" where
  "binary_items EXPR_EQ = [B OP_EQ]"
| "binary_items EXPR_NE = [B OP_NE]"
| "binary_items EXPR_GE = [B OP_GE]"
| "binary_items EXPR_GT = [B OP_GT]"
| "binary_items EXPR_LE = [B OP_LE]"
| "binary_items EXPR_LT = [B OP_LT]"
| "binary_items EXPR_IN = [B OP_IN]"
| "binary_items EXPR_PLUS = [B OP_ADD]"
| "binary_items EXPR_MINUS = [B OP_MINUS]"
| "binary_items EXPR_TIMES = [B OP_MULT]"
| "binary_items EXPR_DIVIDE = [B OP_DIV]"
| "binary_items EXPR_MOD = [B OP_MOD]"
| "binary_items EXPR_PROP = [B OP_GET_PROP]"
| "binary_items EXPR_BITAND = [B OP_EXTENDED, B EOP_BITAND]"
| "binary_items EXPR_BITXOR = [B OP_EXTENDED, B EOP_BITXOR]"
| "binary_items EXPR_BITOR = [B OP_EXTENDED, B EOP_BITOR]"
| "binary_items EXPR_SHL = [B OP_EXTENDED, B EOP_SHL]"
| "binary_items EXPR_SHR = [B OP_EXTENDED, B EOP_SHR]"
| "binary_items EXPR_LSHR = [B OP_EXTENDED, B EOP_LSHR]"
| "binary_items EXPR_EXP = [B OP_EXTENDED, B EOP_EXP]"

fun logic_item :: "Logic_Kind \<Rightarrow> item" where
  "logic_item EXPR_AND = B OP_AND"
| "logic_item EXPR_OR = B OP_OR"

fun arg_item :: "bool \<Rightarrow> Arg_Kind \<Rightarrow> item" where
  "arg_item True ARG_NORMAL = B OP_MAKE_SINGLETON_LIST"
| "arg_item True ARG_SPLICE = B OP_CHECK_LIST_FOR_SPLICE"
| "arg_item False ARG_NORMAL = B OP_LIST_ADD_TAIL"
| "arg_item False ARG_SPLICE = B OP_LIST_APPEND"

definition small_literal :: "Var \<Rightarrow> bool" where
  "small_literal v = (case v of TYPE_INT n \<Rightarrow> IN_OPTIM_NUM_RANGE n | _ \<Rightarrow> False)"

definition literal_items :: "Var \<Rightarrow> item list" where
  "literal_items v =
     (if small_literal v then [B (OPTIM_NUM_TO_OPCODE (case v of TYPE_INT n \<Rightarrow> n))] else [B OP_IMM, LIT v])"

text \<open>The stores behind the value of an assignment to an indexed place; \<open>[]\<close> ends at a place that
  cannot be assigned.\<close>

fun store_items :: "Expr \<Rightarrow> item list" where
  "store_items e =
     (case e of
        EXPR_RANGE b f t \<Rightarrow> B OP_EXTENDED # B EOP_RANGESET # store_items b
      | EXPR_INDEX b i \<Rightarrow> B OP_INDEXSET # store_items b
      | EXPR_ID i \<Rightarrow> var_items OP_PUT i
      | EXPR_BINARY k a b \<Rightarrow> [B OP_PUT_PROP]
      | _ \<Rightarrow> [])"

declare store_items.simps [simp del]

lemma store_items_simps [simp]:
  "store_items (EXPR_RANGE b f t) = B OP_EXTENDED # B EOP_RANGESET # store_items b"
  "store_items (EXPR_INDEX b i) = B OP_INDEXSET # store_items b"
  "store_items (EXPR_ID x) = var_items OP_PUT x"
  "store_items (EXPR_BINARY k a c) = [B OP_PUT_PROP]"
  by (subst store_items.simps; simp)+

fun indexed :: "Expr \<Rightarrow> bool" where
  "indexed (EXPR_RANGE b f t) = True"
| "indexed (EXPR_INDEX b i) = True"
| "indexed _ = False"

text \<open>The limits: fewer variables than the opcode \<^verbatim>\<open>OP_PUSH_TEMP\<close>, which the decompiler searches for, and a
  stack no deeper than one byte can name.\<close>

definition MAX_VARS :: nat where "MAX_VARS = OP_PUSH_TEMP"
definition MAX_DEPTH :: nat where "MAX_DEPTH = 256"

text \<open>Targets the parser allows: at most 255, one of them for the rest, defaults for optional ones only.\<close>

definition scatter_ok :: "Scatter list \<Rightarrow> bool" where
  "scatter_ok sc \<longleftrightarrow> length sc < 256 \<and> length (filter (\<lambda>(k, _). k = SCAT_REST) sc) \<le> 1 \<and>
     list_all (\<lambda>(k, x, d). d = None \<or> k = SCAT_OPTIONAL) sc"

text \<open>The places of a scattering assignment: a list of targets with the places of their defaults.\<close>

fun scatter_items :: "Scatter list \<Rightarrow> place list \<Rightarrow> item list" where
  "scatter_items [] Ls = []"
| "scatter_items ((k, x, d) # sc) Ls =
     VAR x # (if k \<noteq> SCAT_OPTIONAL then PSEUDO 0 else if d = None then PSEUDO 1 else LAB (hd Ls)) # scatter_items sc (tl Ls)"

fun rest_place :: "nat \<Rightarrow> Scatter list \<Rightarrow> nat" where
  "rest_place i [] = i"
| "rest_place i ((k, x, d) # sc) = (if k = SCAT_REST then i else rest_place (Suc i) sc)"

text \<open>What \<open>push_lvalue\<close> leaves on the stack.\<close>

fun lvalue_depth :: "bool \<Rightarrow> Expr \<Rightarrow> nat" where
  "lvalue_depth ia (EXPR_RANGE a b c) = lvalue_depth True a + 2"
| "lvalue_depth ia (EXPR_INDEX a b) = lvalue_depth True a + (if ia then 2 else 1)"
| "lvalue_depth ia (EXPR_ID x) = (if ia then 1 else 0)"
| "lvalue_depth ia _ = (if ia then 3 else 2)"

inductive enc_expr :: "nat \<Rightarrow> nat option \<Rightarrow> place \<Rightarrow> Expr \<Rightarrow> item list \<Rightarrow> bool"
  and enc_lvalue :: "bool \<Rightarrow> nat \<Rightarrow> nat option \<Rightarrow> place \<Rightarrow> Expr \<Rightarrow> item list \<Rightarrow> bool"
  and enc_args :: "bool \<Rightarrow> nat \<Rightarrow> nat option \<Rightarrow> place \<Rightarrow> Arg_List \<Rightarrow> item list \<Rightarrow> bool"
  and enc_codes :: "nat \<Rightarrow> nat option \<Rightarrow> place \<Rightarrow> Arg_List \<Rightarrow> item list \<Rightarrow> bool"
  and enc_except :: "nat \<Rightarrow> nat option \<Rightarrow> place \<Rightarrow> Expr option \<Rightarrow> item list \<Rightarrow> bool"
  and enc_defaults :: "nat \<Rightarrow> nat option \<Rightarrow> place \<Rightarrow> Scatter list \<Rightarrow> place list \<Rightarrow> item list \<Rightarrow> bool" where
  enc_var: "enc_expr d s p (EXPR_VAR v) (literal_items v)"
| enc_id: "enc_expr d s p (EXPR_ID x) (var_items OP_PUSH x)"
| enc_logic: "enc_expr d s p a C \<Longrightarrow> q = label_pass (byte_pass (advance p C)) \<Longrightarrow> enc_expr d s q b D \<Longrightarrow> T = advance q D \<Longrightarrow>
    enc_expr d s p (EXPR_LOGIC k a b) (C @ [logic_item k, LAB T] @ D)"
| enc_unary: "enc_expr d s p a C \<Longrightarrow> enc_expr d s p (EXPR_UNARY k a) (C @ unary_items k)"
| enc_binary: "enc_expr d s p a C \<Longrightarrow> enc_expr (d + 1) s (advance p C) b D \<Longrightarrow>
    enc_expr d s p (EXPR_BINARY k a b) (C @ D @ binary_items k)"
| enc_index: "enc_expr d s p a C \<Longrightarrow> enc_expr (d + 1) (Some d) (advance p C) b D \<Longrightarrow>
    enc_expr d s p (EXPR_INDEX a b) (C @ D @ [B OP_REF])"
| enc_range: "enc_expr d s p a C \<Longrightarrow> enc_expr (d + 1) (Some d) (advance p C) b D \<Longrightarrow>
    enc_expr (d + 2) (Some d) (advance (advance p C) D) c E \<Longrightarrow> enc_expr d s p (EXPR_RANGE a b c) (C @ D @ E @ [B OP_RANGE_REF])"
| enc_length: "enc_expr d (Some n) p EXPR_LENGTH [B OP_EXTENDED, B EOP_LENGTH, STK n]"
| enc_list: "enc_args True d s p args C \<Longrightarrow> enc_expr d s p (EXPR_LIST args) C"
| enc_call: "enc_args True d s p args C \<Longrightarrow> enc_expr d s p (EXPR_CALL f args) (C @ [B OP_BI_FUNC_CALL, B f])"
| enc_verb: "enc_expr d s p a C \<Longrightarrow> enc_expr (d + 1) s (advance p C) b D \<Longrightarrow> enc_args True (d + 2) s (advance (advance p C) D) args E \<Longrightarrow>
    enc_expr d s p (EXPR_VERB a b args) (C @ D @ E @ [B OP_CALL_VERB])"
| enc_cond: "enc_expr d s p a C \<Longrightarrow> q = label_pass (byte_pass (advance p C)) \<Longrightarrow> enc_expr d s q b D \<Longrightarrow>
    r = label_pass (byte_pass (advance q D)) \<Longrightarrow> enc_expr d s r c E \<Longrightarrow> T = advance r E \<Longrightarrow>
    enc_expr d s p (EXPR_COND a b c) (C @ [B OP_IF_QUES, LAB r] @ D @ [B OP_JUMP, LAB T] @ E)"
| enc_scatter: "enc_expr d s p a C \<Longrightarrow> length Ls = length sc \<Longrightarrow> scatter_ok sc \<Longrightarrow>
    H = [B OP_EXTENDED, B EOP_SCATTER, B (length sc), B (length (filter (\<lambda>(k, _). k = SCAT_REQUIRED) sc)), B (rest_place 1 sc mod 256)] @ scatter_items sc Ls \<Longrightarrow>
    q = label_pass (advance (advance p C) H) \<Longrightarrow> enc_defaults (d + 1) s q sc Ls D \<Longrightarrow> T = advance q D \<Longrightarrow>
    enc_expr d s p (EXPR_ASGN (EXPR_SCATTER sc) a) (C @ H @ [LAB T] @ D)"
| enc_asgn: "enc_lvalue False d s p e C \<Longrightarrow> enc_expr (d + lvalue_depth False e) s (advance p C) a D \<Longrightarrow>
    S = (if indexed e then [B OP_PUT_TEMP] @ store_items e @ [B OP_POP, B OP_PUSH_TEMP] else store_items e) \<Longrightarrow>
    enc_expr d s p (EXPR_ASGN e a) (C @ D @ S)"
| enc_catch: "enc_codes d s p codes C \<Longrightarrow>
    q = advance (label_pass (byte_pass (byte_pass (advance p C)))) [B OP_EXTENDED, B EOP_CATCH] \<Longrightarrow>
    enc_expr (d + 3) s q a D \<Longrightarrow> r = label_pass (byte_pass (byte_pass (advance q D))) \<Longrightarrow>
    enc_except d s r x E \<Longrightarrow>
    T = advance r E \<Longrightarrow>
    enc_expr d s p (EXPR_CATCH a codes x)
      (C @ [B OP_EXTENDED, B EOP_PUSH_LABEL, LAB r, B OP_EXTENDED, B EOP_CATCH] @ D @ [B OP_EXTENDED, B EOP_END_CATCH, LAB T] @ E)"
| enc_any: "enc_codes d s p [] [B (OPTIM_NUM_TO_OPCODE 0)]"
| enc_some: "codes \<noteq> [] \<Longrightarrow> enc_args True d s p codes C \<Longrightarrow> enc_codes d s p codes C"
| enc_first: "enc_except d s p None [B (OPTIM_NUM_TO_OPCODE 1), B OP_REF]"
| enc_other: "enc_expr d s (byte_pass p) e C \<Longrightarrow> enc_except d s p (Some e) (B OP_POP # C)"
| enc_lrange: "enc_lvalue True d s p a C \<Longrightarrow> t = d + lvalue_depth True a \<Longrightarrow> enc_expr t (Some (t - 1)) (advance p C) b D \<Longrightarrow>
    enc_expr (t + 1) (Some (t - 1)) (advance (advance p C) D) c E \<Longrightarrow> enc_lvalue False d s p (EXPR_RANGE a b c) (C @ D @ E)"
| enc_lindex: "enc_lvalue True d s p a C \<Longrightarrow> t = d + lvalue_depth True a \<Longrightarrow> enc_expr t (Some (t - 1)) (advance p C) b D \<Longrightarrow>
    enc_lvalue ia d s p (EXPR_INDEX a b) (C @ D @ (if ia then [B OP_PUSH_REF] else []))"
| enc_lid: "x < MAX_VARS \<Longrightarrow> enc_lvalue ia d s p (EXPR_ID x) (if ia then var_items OP_PUSH x else [])"
| enc_lprop: "enc_expr d s p a C \<Longrightarrow> enc_expr (d + 1) s (advance p C) b D \<Longrightarrow>
    enc_lvalue ia d s p (EXPR_BINARY EXPR_PROP a b) (C @ D @ (if ia then [B OP_PUSH_GET_PROP] else []))"
| enc_empty: "enc_args True d s p [] [B OP_MAKE_EMPTY_LIST]"
| enc_done: "enc_args False d s p [] []"
| enc_arg: "enc_expr d s p e C \<Longrightarrow> 
    enc_args False (if first then d + 1 else d) s (byte_pass (advance p C)) args D \<Longrightarrow>
    enc_args first d s p ((k, e) # args) (C @ [arg_item first k] @ D)"
| enc_no_default: "enc_defaults d s p [] [] []"
| enc_skip: "k \<noteq> SCAT_OPTIONAL \<or> x = None \<Longrightarrow> enc_defaults d s p sc Ls C \<Longrightarrow> enc_defaults d s p ((k, i, x) # sc) (p # Ls) C"
| enc_default: "enc_expr d s p e C \<Longrightarrow> P = var_items OP_PUT i @ [B OP_POP] \<Longrightarrow>
    enc_defaults d s (advance p (C @ P)) sc Ls D \<Longrightarrow>
    enc_defaults d s p ((SCAT_OPTIONAL, i, Some e) # sc) (p # Ls) (C @ P @ D)"

text \<open>A loop around a statement: its name, its top and bottom, and the stack depths there.\<close>

type_synonym loop_env = "(nat option \<times> place \<times> nat \<times> place \<times> nat) list"

definition exit_loop_of :: "nat option \<Rightarrow> loop_env \<Rightarrow> (nat option \<times> place \<times> nat \<times> place \<times> nat) option" where
  "exit_loop_of x env =
     (case x of None \<Rightarrow> (case env of [] \<Rightarrow> None | l # _ \<Rightarrow> Some l) | Some i \<Rightarrow> find (\<lambda>l. fst l = Some i) env)"

definition exit_items :: "nat option \<Rightarrow> item list" where
  "exit_items x = (case x of None \<Rightarrow> [B OP_EXTENDED, B EOP_EXIT] | Some i \<Rightarrow> [B OP_EXTENDED, B EOP_EXIT_ID, VAR i])"

definition while_items :: "nat option \<Rightarrow> item list" where
  "while_items x = (case x of None \<Rightarrow> [B OP_WHILE] | Some i \<Rightarrow> [B OP_EXTENDED, B EOP_WHILE_ID, VAR i])"

definition fork_items :: "nat option \<Rightarrow> Stmt list \<Rightarrow> item list" where
  "fork_items x body =
     (case x of None \<Rightarrow> [B OP_FORK, FORK body] | Some i \<Rightarrow> [B OP_FORK_WITH_ID, FORK body, VAR i])"

definition handler_items :: "nat option \<Rightarrow> item list" where
  "handler_items x = (case x of None \<Rightarrow> [B OP_POP] | Some i \<Rightarrow> var_items OP_PUT i @ [B OP_POP])"

inductive enc_heads :: "nat \<Rightarrow> place \<Rightarrow> Except_Arm list \<Rightarrow> place list \<Rightarrow> item list \<Rightarrow> bool" where
  enc_no_head: "enc_heads d p [] [] []"
| enc_head: "enc_codes d None p codes C \<Longrightarrow> H = [B OP_EXTENDED, B EOP_PUSH_LABEL, LAB L] \<Longrightarrow>
    enc_heads (d + 2) (advance p (C @ H)) exs Ls D \<Longrightarrow> enc_heads d p ((i, codes, body) # exs) (L # Ls) (C @ H @ D)"

inductive enc_stmts :: "loop_env \<Rightarrow> nat \<Rightarrow> place \<Rightarrow> Stmt list \<Rightarrow> item list \<Rightarrow> bool"
  and enc_stmt :: "loop_env \<Rightarrow> nat \<Rightarrow> place \<Rightarrow> Stmt \<Rightarrow> item list \<Rightarrow> bool"
  and enc_arms :: "loop_env \<Rightarrow> nat \<Rightarrow> bool \<Rightarrow> place \<Rightarrow> Cond_Arm list \<Rightarrow> place \<Rightarrow> item list \<Rightarrow> bool"
  and enc_handlers :: "loop_env \<Rightarrow> nat \<Rightarrow> place \<Rightarrow> Except_Arm list \<Rightarrow> place list \<Rightarrow> place \<Rightarrow> item list \<Rightarrow> bool" where
  enc_nil: "enc_stmts env d p [] []"
| enc_cons: "enc_stmt env d p x C \<Longrightarrow> enc_stmts env d (advance p C) xs D \<Longrightarrow> enc_stmts env d p (x # xs) (C @ D)"
| enc_if: "arms \<noteq> [] \<Longrightarrow> enc_arms env d True p arms T C \<Longrightarrow> enc_stmts env d (advance p C) other D \<Longrightarrow> T = advance p (C @ D) \<Longrightarrow>
    enc_stmt env d p (STMT_COND arms other) (C @ D)"
| enc_for_list: "enc_expr d None p e C \<Longrightarrow> t = byte_pass (advance p C) \<Longrightarrow>
    q = label_pass (advance t [B OP_FOR_LIST, VAR i]) \<Longrightarrow> enc_stmts ((Some i, t, d + 2, T, d) # env) (d + 2) q body D \<Longrightarrow>
    T = label_pass (byte_pass (advance q D)) \<Longrightarrow>
    enc_stmt env d p (STMT_LIST i e body) (C @ [B (OPTIM_NUM_TO_OPCODE 1), B OP_FOR_LIST, VAR i, LAB T] @ D @ [B OP_JUMP, LAB t])"
| enc_for_range: "enc_expr d None p a C \<Longrightarrow> enc_expr (d + 1) None (advance p C) b D \<Longrightarrow> t = advance p (C @ D) \<Longrightarrow>
    q = label_pass (advance t [B OP_FOR_RANGE, VAR i]) \<Longrightarrow> enc_stmts ((Some i, t, d + 2, T, d) # env) (d + 2) q body E \<Longrightarrow>
    T = label_pass (byte_pass (advance q E)) \<Longrightarrow>
    enc_stmt env d p (STMT_RANGE i a b body) (C @ D @ [B OP_FOR_RANGE, VAR i, LAB T] @ E @ [B OP_JUMP, LAB t])"
| enc_while: "enc_expr d None p c C \<Longrightarrow> q = label_pass (advance (advance p C) (while_items x)) \<Longrightarrow>
    enc_stmts ((x, p, d, T, d) # env) d q body D \<Longrightarrow> T = label_pass (byte_pass (advance q D)) \<Longrightarrow>
    enc_stmt env d p (STMT_WHILE x c body) (C @ while_items x @ [LAB T] @ D @ [B OP_JUMP, LAB p])"
| enc_fork: "enc_expr d None p e C \<Longrightarrow> enc_stmt env d p (STMT_FORK x e body) (C @ fork_items x body)"
| enc_expr_stmt: "enc_expr d None p e C \<Longrightarrow> enc_stmt env d p (STMT_EXPR e) (C @ [B OP_POP])"
| enc_return: "enc_expr d None p e C \<Longrightarrow> enc_stmt env d p (STMT_RETURN (Some e)) (C @ [B OP_RETURN])"
| enc_return0: "enc_stmt env d p (STMT_RETURN None) [B OP_RETURN0]"
| enc_try_except: "enc_heads d p exs Ls C \<Longrightarrow> H = [B OP_EXTENDED, B EOP_TRY_EXCEPT, B (length exs)] \<Longrightarrow>
    q = advance p (C @ H) \<Longrightarrow> enc_stmts env (d + 2 * length exs + 1) q body D \<Longrightarrow>
    r = label_pass (byte_pass (byte_pass (advance q D))) \<Longrightarrow> enc_handlers env d r exs Ls T E \<Longrightarrow> T = advance r E \<Longrightarrow>
    enc_stmt env d p (STMT_TRY_EXCEPT body exs) (C @ H @ D @ [B OP_EXTENDED, B EOP_END_EXCEPT, LAB T] @ E)"
| enc_try_finally: "q = label_pass (byte_pass (byte_pass p)) \<Longrightarrow> enc_stmts env (d + 1) q body C \<Longrightarrow>
    r = byte_pass (byte_pass (advance q C)) \<Longrightarrow> enc_stmts env (d + 2) r handler D \<Longrightarrow>
    enc_stmt env d p (STMT_TRY_FINALLY body handler)
      ([B OP_EXTENDED, B EOP_TRY_FINALLY, LAB r] @ C @ [B OP_EXTENDED, B EOP_END_FINALLY] @ D @ [B OP_EXTENDED, B EOP_CONTINUE])"
| enc_break: "exit_loop_of x env = Some (i, t, ts, b, bs) \<Longrightarrow> enc_stmt env d p (STMT_BREAK x) (exit_items x @ [STK bs, LAB b])"
| enc_continue: "exit_loop_of x env = Some (i, t, ts, b, bs) \<Longrightarrow> enc_stmt env d p (STMT_CONTINUE x) (exit_items x @ [STK ts, LAB t])"
| enc_no_arm: "enc_arms env d first p [] T []"
| enc_arm: "enc_expr d None p c C \<Longrightarrow> q = label_pass (byte_pass (advance p C)) \<Longrightarrow> enc_stmts env d q body D \<Longrightarrow>
    r = label_pass (byte_pass (advance q D)) \<Longrightarrow> enc_arms env d False r arms T E \<Longrightarrow>
    enc_arms env d first p ((c, body) # arms) T
      (C @ [B (if first then OP_IF else OP_EIF), LAB r] @ D @ [B OP_JUMP, LAB T] @ E)"
| enc_no_handler: "enc_handlers env d p [] [] T []"
| enc_handler: "q = advance p (handler_items i) \<Longrightarrow> enc_stmts env d q body C \<Longrightarrow>
    J = (if exs = [] then [] else [B OP_JUMP, LAB T]) \<Longrightarrow> enc_handlers env d (advance q (C @ J)) exs Ls T D \<Longrightarrow>
    enc_handlers env d p ((i, codes, body) # exs) (p # Ls) T (handler_items i @ C @ J @ D)"

section \<open>Trees the parser builds\<close>

text \<open>Literals whose \<open>equality\<close> is identity: no lists, no NaN, no negative zero.\<close>

definition wf_literal :: "Var \<Rightarrow> bool" where
  "wf_literal v =
     (case v of
        TYPE_INT n \<Rightarrow> True
      | TYPE_OBJ n \<Rightarrow> True
      | TYPE_ERR e \<Rightarrow> True
      | TYPE_STR x \<Rightarrow> NUL \<notin> set x
      | TYPE_FLOAT x \<Rightarrow> \<not> dbl_nan x \<and> uint x \<noteq> 2 ^ 63
      | _ \<Rightarrow> False)"

text \<open>\<open>wf_expr d b e\<close>: \<open>e\<close> can be compiled at stack depth \<open>d\<close>; \<open>b\<close> tells whether \<^verbatim>\<open>$\<close> may occur.\<close>

fun wf_expr :: "nat \<Rightarrow> bool \<Rightarrow> Expr \<Rightarrow> bool"
  and wf_lvalue :: "bool \<Rightarrow> nat \<Rightarrow> bool \<Rightarrow> Expr \<Rightarrow> bool"
  and wf_args :: "bool \<Rightarrow> nat \<Rightarrow> bool \<Rightarrow> Arg_List \<Rightarrow> bool"
  and wf_scatter :: "nat \<Rightarrow> bool \<Rightarrow> Scatter list \<Rightarrow> bool" where
  "wf_expr d s (EXPR_VAR v) \<longleftrightarrow> d < MAX_DEPTH \<and> wf_literal v"
| "wf_expr d s (EXPR_ID x) \<longleftrightarrow> d < MAX_DEPTH \<and> x < MAX_VARS"
| "wf_expr d s (EXPR_LOGIC k a b) \<longleftrightarrow> wf_expr d s a \<and> wf_expr d s b"
| "wf_expr d s (EXPR_UNARY k a) \<longleftrightarrow> wf_expr d s a"
| "wf_expr d s (EXPR_BINARY k a b) \<longleftrightarrow> wf_expr d s a \<and> wf_expr (d + 1) s b"
| "wf_expr d s (EXPR_INDEX a b) \<longleftrightarrow> wf_expr d s a \<and> wf_expr (d + 1) True b"
| "wf_expr d s (EXPR_RANGE a b c) \<longleftrightarrow> wf_expr d s a \<and> wf_expr (d + 1) True b \<and> wf_expr (d + 2) True c"
| "wf_expr d s EXPR_LENGTH \<longleftrightarrow> d < MAX_DEPTH \<and> s"
| "wf_expr d s (EXPR_LIST args) \<longleftrightarrow> wf_args True d s args"
| "wf_expr d s (EXPR_CALL f args) \<longleftrightarrow> f < 256 \<and> wf_args True d s args"
| "wf_expr d s (EXPR_VERB a b args) \<longleftrightarrow> wf_expr d s a \<and> wf_expr (d + 1) s b \<and> wf_args True (d + 2) s args"
| "wf_expr d s (EXPR_COND a b c) \<longleftrightarrow> wf_expr d s a \<and> wf_expr d s b \<and> wf_expr d s c"
| "wf_expr d s (EXPR_ASGN e a) \<longleftrightarrow>
     (case e of
        EXPR_SCATTER sc \<Rightarrow> wf_expr d s a \<and> sc \<noteq> [] \<and> scatter_ok sc \<and> wf_scatter (d + 1) s sc
      | _ \<Rightarrow> wf_lvalue False d s e \<and> wf_expr (d + lvalue_depth False e) s a)"
| "wf_expr d s (EXPR_SCATTER sc) \<longleftrightarrow> False"
| "wf_expr d s (EXPR_CATCH a codes x) \<longleftrightarrow> d + 2 < MAX_DEPTH \<and> wf_args True d s codes \<and> wf_expr (d + 3) s a \<and>
     (case x of None \<Rightarrow> True | Some e \<Rightarrow> wf_expr d s e)"
| "wf_lvalue ia d s e \<longleftrightarrow>
     (case e of
        EXPR_RANGE a b c \<Rightarrow> \<not> ia \<and> wf_lvalue True d s a \<and>
          wf_expr (d + lvalue_depth True a) True b \<and> wf_expr (d + lvalue_depth True a + 1) True c
      | EXPR_INDEX a b \<Rightarrow> wf_lvalue True d s a \<and> wf_expr (d + lvalue_depth True a) True b \<and>
          (ia \<longrightarrow> d + lvalue_depth True a + 1 < MAX_DEPTH)
      | EXPR_ID x \<Rightarrow> x < MAX_VARS \<and> (ia \<longrightarrow> d < MAX_DEPTH)
      | EXPR_BINARY k a b \<Rightarrow> k = EXPR_PROP \<and> wf_expr d s a \<and> wf_expr (d + 1) s b \<and> (ia \<longrightarrow> d + 2 < MAX_DEPTH)
      | _ \<Rightarrow> False)"
| "wf_args first d s [] \<longleftrightarrow> (first \<longrightarrow> d < MAX_DEPTH)"
| "wf_args first d s ((k, e) # args) \<longleftrightarrow> wf_expr d s e \<and> wf_args False (if first then d + 1 else d) s args"
| "wf_scatter d s [] \<longleftrightarrow> True"
| "wf_scatter d s ((k, x, e) # sc) \<longleftrightarrow> x < MAX_VARS \<and> wf_scatter d s sc \<and>
     (case e of None \<Rightarrow> True | Some y \<Rightarrow> wf_expr d s y)"

fun wf_stmts :: "nat option list \<Rightarrow> nat \<Rightarrow> Stmt list \<Rightarrow> bool"
  and wf_stmt :: "nat option list \<Rightarrow> nat \<Rightarrow> Stmt \<Rightarrow> bool"
  and wf_arms :: "nat option list \<Rightarrow> nat \<Rightarrow> Cond_Arm list \<Rightarrow> bool"
  and wf_heads :: "nat option list \<Rightarrow> nat \<Rightarrow> nat \<Rightarrow> Except_Arm list \<Rightarrow> bool" where
  "wf_stmts ls d [] \<longleftrightarrow> True"
| "wf_stmts ls d (x # xs) \<longleftrightarrow> wf_stmt ls d x \<and> wf_stmts ls d xs"
| "wf_stmt ls d (STMT_COND arms other) \<longleftrightarrow> arms \<noteq> [] \<and> wf_arms ls d arms \<and> wf_stmts ls d other"
| "wf_stmt ls d (STMT_LIST i e body) \<longleftrightarrow> i < MAX_VARS \<and> wf_expr d False e \<and> d + 1 < MAX_DEPTH \<and> wf_stmts (Some i # ls) (d + 2) body"
| "wf_stmt ls d (STMT_RANGE i a b body) \<longleftrightarrow> i < MAX_VARS \<and> wf_expr d False a \<and> wf_expr (d + 1) False b \<and> wf_stmts (Some i # ls) (d + 2) body"
| "wf_stmt ls d (STMT_WHILE x c body) \<longleftrightarrow> pred_option (\<lambda>i. i < MAX_VARS) x \<and> wf_expr d False c \<and> wf_stmts (x # ls) d body"
| "wf_stmt ls d (STMT_FORK x e body) \<longleftrightarrow> pred_option (\<lambda>i. i < MAX_VARS) x \<and> wf_expr d False e \<and> wf_stmts [] 0 body"
| "wf_stmt ls d (STMT_EXPR e) \<longleftrightarrow> wf_expr d False e"
| "wf_stmt ls d (STMT_RETURN x) \<longleftrightarrow> (case x of None \<Rightarrow> True | Some e \<Rightarrow> wf_expr d False e)"
| "wf_stmt ls d (STMT_TRY_EXCEPT body exs) \<longleftrightarrow> exs \<noteq> [] \<and> length exs < 256 \<and> d + 2 * length exs < MAX_DEPTH \<and>
     wf_heads ls d d exs \<and> wf_stmts ls (d + 2 * length exs + 1) body"
| "wf_stmt ls d (STMT_TRY_FINALLY body handler) \<longleftrightarrow> d + 1 < MAX_DEPTH \<and> wf_stmts ls (d + 1) body \<and> wf_stmts ls (d + 2) handler"
| "wf_stmt ls d (STMT_BREAK x) \<longleftrightarrow> (case x of None \<Rightarrow> ls \<noteq> [] | Some i \<Rightarrow> i < MAX_VARS \<and> Some i \<in> set ls)"
| "wf_stmt ls d (STMT_CONTINUE x) \<longleftrightarrow> (case x of None \<Rightarrow> ls \<noteq> [] | Some i \<Rightarrow> i < MAX_VARS \<and> Some i \<in> set ls)"
| "wf_arms ls d [] \<longleftrightarrow> True"
| "wf_arms ls d ((c, body) # arms) \<longleftrightarrow> wf_expr d False c \<and> wf_stmts ls d body \<and> wf_arms ls d arms"
| "wf_heads ls d d' [] \<longleftrightarrow> True"
| "wf_heads ls d d' ((i, codes, body) # exs) \<longleftrightarrow> pred_option (\<lambda>i. i < MAX_VARS) i \<and> wf_args True d' False codes \<and>
     wf_stmts ls d body \<and> wf_heads ls d (d' + 2) exs"

end
