(* ===== verification/Decompile_Laws.thy ===== *)
theory Decompile_Laws
  imports Decompile Code_Sequences
begin

text \<open>
  The decompiler accepts the code sequences: on a vector that holds the code of a tree it rebuilds the
  tree. The statements are about running the decompiler from one place of the code to another, so that
  they compose the way the sequences do.
\<close>

section \<open>A vector that holds items\<close>

definition addr :: "Bytecodes \<Rightarrow> place \<Rightarrow> nat" where
  "addr bc p = at_item p + at_lits p * (numbytes_literal bc - 1) + at_forks p * (numbytes_fork bc - 1)
     + at_vars p * (numbytes_var_name bc - 1) + at_labels p * (numbytes_label bc - 1)"

text \<open>References take one, two or four bytes, and stack positions one.\<close>

definition sized :: "Bytecodes \<Rightarrow> bool" where
  "sized bc \<longleftrightarrow> numbytes_literal bc \<in> {1, 2, 4} \<and> numbytes_fork bc \<in> {1, 2, 4} \<and> numbytes_var_name bc \<in> {1, 2, 4} \<and>
     numbytes_label bc \<in> {1, 2, 4} \<and> numbytes_stack bc = 1"

lemma sized_pos:
  assumes "sized bc"
  shows "0 < numbytes_literal bc" "0 < numbytes_fork bc" "0 < numbytes_var_name bc" "0 < numbytes_label bc" "numbytes_stack bc = 1"
  using assms by (auto simp: sized_def)

text \<open>\<open>item_at E prog bc p i\<close>: the bytes at place \<open>p\<close> are the item \<open>i\<close>; \<open>E\<close> says of a fork vector what
  statements it holds.\<close>

fun item_at :: "(Bytecodes \<Rightarrow> Stmt list \<Rightarrow> bool) \<Rightarrow> Program \<Rightarrow> Bytecodes \<Rightarrow> place \<Rightarrow> item \<Rightarrow> bool" where
  "item_at E prog bc p (B b) \<longleftrightarrow> byte_at bc (addr bc p) = Some b"
| "item_at E prog bc p (LIT v) \<longleftrightarrow> READ_LITERAL prog bc (addr bc p) = Some (v, addr bc p + numbytes_literal bc)"
| "item_at E prog bc p (FORK ss) \<longleftrightarrow>
     (\<exists>fbc. READ_FORK prog bc (addr bc p) = Some (fbc, addr bc p + numbytes_fork bc) \<and> E fbc ss)"
| "item_at E prog bc p (VAR x) \<longleftrightarrow> READ_ID bc (addr bc p) = Some (x, addr bc p + numbytes_var_name bc)"
| "item_at E prog bc p (STK n) \<longleftrightarrow> True"
| "item_at E prog bc p (LAB q) \<longleftrightarrow> READ_LABEL bc (addr bc p) = Some (addr bc q, addr bc p + numbytes_label bc)"
| "item_at E prog bc p (PSEUDO n) \<longleftrightarrow> READ_LABEL bc (addr bc p) = Some (n, addr bc p + numbytes_label bc)"

primrec coded :: "(Bytecodes \<Rightarrow> Stmt list \<Rightarrow> bool) \<Rightarrow> Program \<Rightarrow> Bytecodes \<Rightarrow> place \<Rightarrow> item list \<Rightarrow> bool" where
  "coded E prog bc p [] \<longleftrightarrow> True"
| "coded E prog bc p (i # C) \<longleftrightarrow> item_at E prog bc p i \<and> coded E prog bc (pass p i) C"

lemma coded_append [simp]: "coded E prog bc p (C @ D) \<longleftrightarrow> coded E prog bc p C \<and> coded E prog bc (advance p C) D"
  by (induction C arbitrary: p) auto

lemma addr_pass:
  assumes "sized bc"
  shows "addr bc (pass p (LIT v)) = addr bc p + numbytes_literal bc" "addr bc (pass p (FORK ss)) = addr bc p + numbytes_fork bc"
    "addr bc (pass p (VAR x)) = addr bc p + numbytes_var_name bc" "addr bc (label_pass p) = addr bc p + numbytes_label bc"
    "addr bc (byte_pass p) = addr bc p + 1"
proof -
  have e: "(a + 1) * (n - 1) + 1 = a * (n - 1) + n" if "0 < n" for a n :: nat using that by (cases n) simp_all
  show "addr bc (pass p (LIT v)) = addr bc p + numbytes_literal bc" "addr bc (pass p (FORK ss)) = addr bc p + numbytes_fork bc"
    "addr bc (pass p (VAR x)) = addr bc p + numbytes_var_name bc" "addr bc (label_pass p) = addr bc p + numbytes_label bc"
    "addr bc (byte_pass p) = addr bc p + 1"
    using assms e [of "numbytes_literal bc" "at_lits p"] e [of "numbytes_fork bc" "at_forks p"] e [of "numbytes_var_name bc" "at_vars p"]
      e [of "numbytes_label bc" "at_labels p"]
    by (simp_all add: addr_def sized_pos pass.simps label_pass_def byte_pass_def)
qed

lemma addr_advance: "sized bc \<Longrightarrow> addr bc p \<le> addr bc (advance p C)"
proof (induction C arbitrary: p)
  case (Cons i C)
  have "addr bc p \<le> addr bc (pass p i)" using Cons.prems by (cases i) (simp_all add: addr_pass)
  also have "\<dots> \<le> addr bc (advance p (i # C))" using Cons by simp
  finally show ?case .
qed simp

section \<open>Running from place to place\<close>

abbreviation (input) cfg :: "nat \<Rightarrow> nat \<Rightarrow> Expr list \<Rightarrow> Stmt list \<Rightarrow> Cond_Arm list \<Rightarrow> dstate" where
  "cfg p s stk xs ys \<equiv> \<lparr>d_ptr = p, d_start = s, d_stack = stk, d_stmts = xs, d_arms = ys\<rparr>"

definition runs :: "Program \<Rightarrow> Bytecodes \<Rightarrow> place \<Rightarrow> Expr list \<Rightarrow> place \<Rightarrow> Expr list \<Rightarrow> bool" where
  "runs prog bc p stk q stk' \<longleftrightarrow> addr bc p \<le> addr bc q \<and>
     (\<forall>e s xs ys ss as. addr bc q \<le> e \<longrightarrow>
        decompile prog bc e (cfg (addr bc p) s stk xs ys) ss as = decompile prog bc e (cfg (addr bc q) s stk' xs ys) ss as)"

lemma runs_refl: "runs prog bc p stk p stk"
  by (simp add: runs_def)

lemma runs_trans:
  assumes "runs prog bc p stk q stk'" "runs prog bc q stk' r stk''"
  shows "runs prog bc p stk r stk''"
  using assms by (auto simp: runs_def)

text \<open>A nested call that runs to its end.\<close>

lemma runs_call:
  assumes "runs prog bc p stk q stk'" "t = addr bc q"
  shows "decompile prog bc t (start_at (addr bc p) stk) ss as = Some (cfg (addr bc q) (addr bc p) stk' [] [])"
  using assms by (simp add: runs_def start_at_def decompile.simps [of _ _ _ "cfg (addr bc q) (addr bc p) stk' [] []"])

definition ready :: "nat \<Rightarrow> bool" where
  "ready op \<longleftrightarrow> IS_PUSH_n op \<or> IS_PUT_n op \<or> IS_OPTIM_NUM_OPCODE op"

lemmas ready_defs = ready_def IS_PUSH_n_def IS_PUT_n_def IS_OPTIM_NUM_OPCODE_def

lemma decompile_ready:
  assumes "d_ptr st < e" "byte_at bc (d_ptr st) = Some op" "ready op"
  shows "decompile prog bc e st ss as =
    do { st \<leftarrow> ready_op op (st\<lparr>d_ptr := d_ptr st + 1\<rparr>); decompile prog bc e st ss as }"
  using assms by (subst decompile.simps) (simp add: ready_def Let_def)

lemma decompile_simple:
  assumes "d_ptr st < e" "byte_at bc (d_ptr st) = Some op" "\<not> ready op"
    "op \<notin> {OP_IF, OP_EIF, OP_FOR_LIST, OP_FOR_RANGE, OP_WHILE, OP_IF_QUES, OP_AND, OP_OR, OP_FORK, OP_FORK_WITH_ID, OP_EXTENDED}"
  shows "decompile prog bc e st ss as =
    do { st \<leftarrow> simple_op prog bc e ss op (st\<lparr>d_ptr := d_ptr st + 1\<rparr>); decompile prog bc e st ss as }"
  using assms by (subst decompile.simps) (simp add: ready_def Let_def)

lemma decompile_nested:
  assumes "d_ptr st < e" "byte_at bc (d_ptr st) = Some op"
    "op \<in> {OP_IF, OP_EIF, OP_FOR_LIST, OP_FOR_RANGE, OP_WHILE, OP_IF_QUES, OP_AND, OP_OR}"
  shows "decompile prog bc e st ss as =
    do { st \<leftarrow> nested_op (decompile prog bc) bc e ss as op (st\<lparr>d_ptr := d_ptr st + 1\<rparr>); decompile prog bc e st ss as }"
proof -
  have "\<not> ready op" using assms(3) by (auto simp: ready_defs)
  then show ?thesis using assms by (subst decompile.simps) (simp add: ready_def Let_def)
qed

lemma decompile_extended:
  assumes "d_ptr st < e" "byte_at bc (d_ptr st) = Some OP_EXTENDED" "byte_at bc (d_ptr st + 1) = Some eop"
  shows "decompile prog bc e st ss as =
    (if eop \<in> {EOP_END_CATCH, EOP_END_EXCEPT, EOP_END_FINALLY, EOP_CONTINUE} then Some st
     else if eop \<in> {EOP_SCATTER, EOP_CATCH, EOP_TRY_EXCEPT, EOP_TRY_FINALLY, EOP_WHILE_ID}
     then do { st \<leftarrow> nested_eop (decompile prog bc) bc e ss eop (st\<lparr>d_ptr := d_ptr st + 2\<rparr>); decompile prog bc e st ss as }
     else do { st \<leftarrow> simple_eop bc ss eop (st\<lparr>d_ptr := d_ptr st + 2\<rparr>); decompile prog bc e st ss as })"
  using assms by (subst decompile.simps) (simp add: ready_defs Let_def)

section \<open>Single opcodes\<close>

lemma run_ready:
  assumes "byte_at bc (addr bc p) = Some op" "ready op" "addr bc q = addr bc p + 1"
    and "\<And>s xs ys. ready_op op (cfg (addr bc q) s (stk) xs ys) = Some (cfg (addr bc q) s (stk') xs ys)"
  shows "runs prog bc p stk q stk'"
  using assms by (auto simp: runs_def decompile_ready)

lemma run_simple:
  assumes "byte_at bc (addr bc p) = Some op" "\<not> ready op"
    "op \<notin> {OP_IF, OP_EIF, OP_FOR_LIST, OP_FOR_RANGE, OP_WHILE, OP_IF_QUES, OP_AND, OP_OR, OP_FORK, OP_FORK_WITH_ID, OP_EXTENDED}"
    and "addr bc p < addr bc q"
    and "\<And>e ss s xs ys. simple_op prog bc e ss op (cfg (addr bc p + 1) s (stk) xs ys) = Some (cfg (addr bc q) s (stk') xs ys)"
  shows "runs prog bc p stk q stk'"
  using assms by (auto simp: runs_def decompile_simple)

lemma run_simple_eop:
  assumes "byte_at bc (addr bc p) = Some OP_EXTENDED" "byte_at bc (addr bc p + 1) = Some eop"
    "eop \<notin> {EOP_END_CATCH, EOP_END_EXCEPT, EOP_END_FINALLY, EOP_CONTINUE, EOP_SCATTER, EOP_CATCH, EOP_TRY_EXCEPT, EOP_TRY_FINALLY, EOP_WHILE_ID}"
    and "addr bc p < addr bc q"
    and "\<And>ss s xs ys. simple_eop bc ss eop (cfg (addr bc p + 2) s (stk) xs ys) = Some (cfg (addr bc q) s (stk') xs ys)"
  shows "runs prog bc p stk q stk'"
  using assms by (auto simp: runs_def decompile_extended)

lemma run_nested:
  assumes "byte_at bc (addr bc p) = Some op"
    "op \<in> {OP_IF, OP_EIF, OP_FOR_LIST, OP_FOR_RANGE, OP_WHILE, OP_IF_QUES, OP_AND, OP_OR}"
    and "addr bc p < addr bc q"
    and "\<And>e ss as s xs ys. nested_op (decompile prog bc) bc e ss as op (cfg (addr bc p + 1) s (stk) xs ys) =
      Some (cfg (addr bc q) s (stk') xs ys)"
  shows "runs prog bc p stk q stk'"
  using assms by (auto simp: runs_def decompile_nested)

lemma run_nested_eop:
  assumes "byte_at bc (addr bc p) = Some OP_EXTENDED" "byte_at bc (addr bc p + 1) = Some eop"
    "eop \<in> {EOP_SCATTER, EOP_CATCH, EOP_TRY_EXCEPT, EOP_TRY_FINALLY, EOP_WHILE_ID}"
    and "addr bc p < addr bc q"
    and "\<And>e ss s xs ys. addr bc q \<le> e \<Longrightarrow> nested_eop (decompile prog bc) bc e ss eop (cfg (addr bc p + 2) s (stk) xs ys) =
      Some (cfg (addr bc q) s (stk') xs ys)"
  shows "runs prog bc p stk q stk'"
  using assms by (auto simp: runs_def decompile_extended)

lemmas simple_defs = simple_op_def binary_kind_def finish_binary_def finish_unary_def push_expr_def pop_expr_def
  index_op_def call_op_def list_op_def

lemmas eop_defs = simple_eop_def extended_binary_kind_def finish_binary_def finish_unary_def push_expr_def pop_expr_def

lemma run_push:
  assumes "sized bc" "coded E prog bc p (var_items OP_PUSH x)"
  shows "runs prog bc p stk (advance p (var_items OP_PUSH x)) (EXPR_ID x # stk)"
proof (cases "x < 32")
  case True
  show ?thesis
    by (rule run_ready [where op = "OP_PUSH + x"])
      (use True assms in \<open>simp_all add: var_items_def addr_pass ready_defs ready_op_def PUSH_n_INDEX_def push_expr_def\<close>)
next
  case False
  show ?thesis
    by (rule run_simple [where op = OP_G_PUSH])
      (use False assms in \<open>simp_all add: var_items_def addr_pass ready_defs simple_defs sized_pos\<close>)
qed

lemma run_put:
  assumes "sized bc" "coded E prog bc p (var_items OP_PUT x)"
  shows "runs prog bc p (e # stk) (advance p (var_items OP_PUT x)) (EXPR_ASGN (EXPR_ID x) e # stk)"
proof (cases "x < 32")
  case True
  show ?thesis
    by (rule run_ready [where op = "OP_PUT + x"])
      (use True assms in \<open>simp_all add: var_items_def addr_pass ready_defs ready_op_def PUT_n_INDEX_def push_expr_def pop_expr_def\<close>)
next
  case False
  show ?thesis
    by (rule run_simple [where op = OP_G_PUT])
      (use False assms in \<open>simp_all add: var_items_def addr_pass ready_defs simple_defs sized_pos\<close>)
qed

lemma run_number:
  assumes "sized bc" "IN_OPTIM_NUM_RANGE n" "byte_at bc (addr bc p) = Some (OPTIM_NUM_TO_OPCODE n)"
  shows "runs prog bc p stk (byte_pass p) (EXPR_VAR (TYPE_INT n) # stk)"
proof -
  have "IS_OPTIM_NUM_OPCODE (OPTIM_NUM_TO_OPCODE n)" "OPCODE_TO_OPTIM_NUM (OPTIM_NUM_TO_OPCODE n) = n"
    using optim_num [OF assms(2)] by simp_all
  moreover from this have "\<not> IS_PUSH_n (OPTIM_NUM_TO_OPCODE n)" "\<not> IS_PUT_n (OPTIM_NUM_TO_OPCODE n)"
    by (auto simp: IS_OPTIM_NUM_OPCODE_def IS_PUSH_n_def IS_PUT_n_def)
  ultimately show ?thesis
    by (intro run_ready [where op = "OPTIM_NUM_TO_OPCODE n"]) (use assms in \<open>simp_all add: ready_def ready_op_def addr_pass push_expr_def\<close>)
qed

lemma run_literal:
  assumes "sized bc" "coded E prog bc p (literal_items v)"
  shows "runs prog bc p stk (advance p (literal_items v)) (EXPR_VAR v # stk)"
proof (cases "small_literal v")
  case True
  then obtain n where "v = TYPE_INT n" "IN_OPTIM_NUM_RANGE n" by (auto simp: small_literal_def split: Var.splits)
  then show ?thesis using run_number assms True by (simp add: literal_items_def)
next
  case False
  show ?thesis
    by (rule run_simple [where op = OP_IMM])
      (use False assms in \<open>simp_all add: literal_items_def addr_pass ready_defs simple_defs sized_pos\<close>)
qed

lemma run_unary:
  assumes "sized bc" "coded E prog bc p (unary_items k)"
  shows "runs prog bc p (a # stk) (advance p (unary_items k)) (EXPR_UNARY k a # stk)"
proof (cases k)
  case EXPR_NEGATE
  then show ?thesis by (intro run_simple [where op = OP_UNARY_MINUS]) (use assms in \<open>simp_all add: addr_pass ready_defs simple_defs\<close>)
next
  case EXPR_NOT
  then show ?thesis by (intro run_simple [where op = OP_NOT]) (use assms in \<open>simp_all add: addr_pass ready_defs simple_defs\<close>)
next
  case EXPR_COMPLEMENT
  then show ?thesis by (intro run_simple_eop [where eop = EOP_COMPLEMENT]) (use assms in \<open>simp_all add: addr_pass eop_defs\<close>)
qed

lemma run_simple_binary:
  assumes "sized bc" "byte_at bc (addr bc p) = Some op" "binary_kind op = Some k" "op < 34"
  shows "runs prog bc p (b # a # stk) (byte_pass p) (EXPR_BINARY k a b # stk)"
proof (rule run_simple [where op = op])
  show "\<not> ready op" using assms(4) by (auto simp: ready_defs)
  show "op \<notin> {OP_IF, OP_EIF, OP_FOR_LIST, OP_FOR_RANGE, OP_WHILE, OP_IF_QUES, OP_AND, OP_OR, OP_FORK, OP_FORK_WITH_ID, OP_EXTENDED}"
    using assms(3) by (auto simp: binary_kind_def split: if_splits)
  have "op \<notin> {OP_POP, OP_RETURN, OP_RETURN0, OP_DONE, OP_IMM, OP_G_PUSH, OP_UNARY_MINUS, OP_NOT}"
    using assms(3) by (auto simp: binary_kind_def split: if_splits)
  then show "simple_op prog bc e ss op (cfg (addr bc p + 1) s (b # a # stk) xs ys) =
      Some (cfg (addr bc (byte_pass p)) s (EXPR_BINARY k a b # stk) xs ys)" for e ss s xs ys
    using assms(1,3) by (simp add: simple_op_def finish_binary_def pop_expr_def push_expr_def addr_pass)
qed (use assms in \<open>simp_all add: addr_pass\<close>)

lemma run_extended_binary:
  assumes "sized bc" "byte_at bc (addr bc p) = Some OP_EXTENDED" "byte_at bc (addr bc p + 1) = Some eop"
    "extended_binary_kind eop = Some k"
  shows "runs prog bc p (b # a # stk) (byte_pass (byte_pass p)) (EXPR_BINARY k a b # stk)"
proof (rule run_simple_eop [where eop = eop])
  have e: "eop \<in> {14, 15, 16, 17, 18, 19, 20}" using assms(4) by (auto simp: extended_binary_kind_def split: if_splits)
  then show "eop \<notin> {EOP_END_CATCH, EOP_END_EXCEPT, EOP_END_FINALLY, EOP_CONTINUE, EOP_SCATTER, EOP_CATCH, EOP_TRY_EXCEPT, EOP_TRY_FINALLY, EOP_WHILE_ID}"
    by auto
  show "simple_eop bc ss eop (cfg (addr bc p + 2) s (b # a # stk) xs ys) =
      Some (cfg (addr bc (byte_pass (byte_pass p))) s (EXPR_BINARY k a b # stk) xs ys)" for ss s xs ys
    using assms(1,4) e by (auto simp: simple_eop_def finish_binary_def pop_expr_def push_expr_def addr_pass)
qed (use assms in \<open>simp_all add: addr_pass\<close>)

lemma run_binary:
  assumes "sized bc" "coded E prog bc p (binary_items k)"
  shows "runs prog bc p (b # a # stk) (advance p (binary_items k)) (EXPR_BINARY k a b # stk)"
  using assms by (cases k) (auto intro!: run_simple_binary run_extended_binary simp: binary_kind_def extended_binary_kind_def addr_pass)

lemma run_arg:
  assumes "sized bc" "item_at E prog bc p (arg_item first k)"
  shows "runs prog bc p (if first then e # stk else e # EXPR_LIST (x # xs) # stk) (pass p (arg_item first k))
    (EXPR_LIST (if first then [(k, e)] else x # xs @ [(k, e)]) # stk)"
proof -
  obtain op where op: "arg_item first k = B op" by (cases "(first, k)" rule: arg_item.cases) auto
  show ?thesis
    by (rule run_simple [where op = op])
      (use assms op in \<open>cases "(first, k)" rule: arg_item.cases; auto simp: addr_pass ready_defs simple_defs\<close>)+
qed

section \<open>Opcodes around nested expressions\<close>

lemma run_logic:
  assumes "sized bc" "coded E prog bc p [logic_item k, LAB T]" "runs prog bc (label_pass (byte_pass p)) stk T (b # stk)"
  shows "runs prog bc p (a # stk) T (EXPR_LOGIC k a b # stk)"
proof -
  obtain op where op: "logic_item k = B op" "op = OP_AND \<or> op = OP_OR" "(if op = OP_AND then EXPR_AND else EXPR_OR) = k"
    by (cases k) auto
  let ?q = "label_pass (byte_pass p)"
  have q: "addr bc ?q = addr bc p + 1 + numbytes_label bc" using assms(1) by (simp add: addr_pass)
  have lt: "addr bc p < addr bc T" using assms(3) q by (simp add: runs_def)
  have call: "decompile prog bc (addr bc T) (start_at (addr bc ?q) stk) False False = Some (cfg (addr bc T) (addr bc ?q) (b # stk) [] [])"
    by (rule runs_call [OF assms(3) refl])
  have rl: "READ_LABEL bc (Suc (addr bc p)) = Some (addr bc T, addr bc ?q)"
    using assms(1,2) op(1) q by (simp add: addr_pass)
  show ?thesis
  proof (rule run_nested [where op = op])
    show "nested_op (decompile prog bc) bc e ss as op (cfg (addr bc p + 1) s (a # stk) xs ys) =
        Some (cfg (addr bc T) s (EXPR_LOGIC k a b # stk) xs ys)" for e ss as s xs ys
      using op(2,3) rl call by (auto simp: nested_op_def and_or_op_def pop_expr_def push_expr_def split: if_splits)
  qed (use assms op lt in auto)
qed

text \<open>The body of a jump: code up to the jump, whose end is the label before the jump's length.\<close>

lemma jump_end:
  assumes "sized bc"
  shows "addr bc (label_pass (byte_pass q)) - (numbytes_label bc + 1) = addr bc q"
  using assms by (simp add: addr_pass)

lemma read_jump_coded:
  assumes "sized bc" "coded E prog bc q [B OP_JUMP, LAB T]"
  shows "read_jump bc (addr bc q) = Some (addr bc T, addr bc (label_pass (byte_pass q)))"
  using assms by (simp add: read_jump_def addr_pass)

lemma run_cond:
  assumes "sized bc" "coded E prog bc p [B OP_IF_QUES, LAB (label_pass (byte_pass q))]" "coded E prog bc q [B OP_JUMP, LAB T]"
    and a: "runs prog bc (label_pass (byte_pass p)) stk q (a # stk)"
    and b: "runs prog bc (label_pass (byte_pass q)) stk T (b # stk)"
  shows "runs prog bc p (c # stk) T (EXPR_COND c a b # stk)"
proof -
  let ?p = "label_pass (byte_pass p)" and ?r = "label_pass (byte_pass q)"
  have pq: "addr bc ?p = addr bc p + 1 + numbytes_label bc" "addr bc ?r = addr bc q + 1 + numbytes_label bc"
    using assms(1) by (simp_all add: addr_pass)
  have lt: "addr bc p < addr bc T" using a b pq by (simp add: runs_def)
  have rl: "READ_LABEL bc (Suc (addr bc p)) = Some (addr bc ?r, addr bc ?p)" using assms(1,2) by (simp add: addr_pass)
  note calls = runs_call [OF a jump_end [OF assms(1)]] runs_call [OF b refl]
  show ?thesis
  proof (rule run_nested [where op = OP_IF_QUES])
    show "nested_op (decompile prog bc) bc e ss as OP_IF_QUES (cfg (addr bc p + 1) s (c # stk) xs ys) =
        Some (cfg (addr bc T) s (EXPR_COND c a b # stk) xs ys)" for e ss as s xs ys
      using rl calls read_jump_coded [OF assms(1,3)]
      by (simp add: nested_op_def if_ques_op_def pop_expr_def push_expr_def)
  qed (use assms lt in auto)
qed

text \<open>Code that ends at one of the opcodes which leave the call early.\<close>

lemma runs_early:
  assumes "runs prog bc p stk q stk'" "byte_at bc (addr bc q) = Some OP_EXTENDED" "byte_at bc (addr bc q + 1) = Some eop"
    "eop \<in> {EOP_END_CATCH, EOP_END_EXCEPT, EOP_END_FINALLY, EOP_CONTINUE}" "addr bc q < e"
  shows "decompile prog bc e (start_at (addr bc p) stk) ss as = Some (cfg (addr bc q) (addr bc p) stk' [] [])"
proof -
  have "decompile prog bc e (start_at (addr bc p) stk) ss as = decompile prog bc e (cfg (addr bc q) (addr bc p) stk' [] []) ss as"
    using assms(1,5) by (simp add: runs_def start_at_def)
  also have "\<dots> = Some (cfg (addr bc q) (addr bc p) stk' [] [])"
    using assms decompile_extended [of "cfg (addr bc q) (addr bc p) stk' [] []" e bc eop] by simp
  finally show ?thesis .
qed

lemma run_catch:
  assumes sz: "sized bc" and cp: "coded E prog bc p [B OP_EXTENDED, B EOP_CATCH]"
    and t: "runs prog bc (byte_pass (byte_pass p)) stk q (t # stk)"
    and cq: "coded E prog bc q [B OP_EXTENDED, B EOP_END_CATCH, LAB T]" and r: "r = label_pass (byte_pass (byte_pass q))"
    and codes: "catch_codes c = Some a" and d: "catch_default (decompile prog bc) bc (addr bc T) (addr bc r) stk = Some (d, addr bc T, stk)"
    and le: "addr bc r \<le> addr bc T"
  shows "runs prog bc p (EXPR_VAR (TYPE_INT (int (addr bc r))) # c # stk) T (EXPR_CATCH t a d # stk)"
proof -
  have ad: "addr bc (byte_pass (byte_pass p)) = addr bc p + 2" "addr bc r = addr bc q + 2 + numbytes_label bc"
    using sz r by (simp_all add: addr_pass)
  have lt: "addr bc p < addr bc T" "addr bc q < addr bc T" using t ad le by (simp_all add: runs_def)
  have rl: "READ_LABEL bc (addr bc q + 2) = Some (addr bc T, addr bc r)" "byte_at bc (addr bc q + 1) = Some EOP_END_CATCH"
      "byte_at bc (addr bc q) = Some OP_EXTENDED"
    using cq sz ad by (simp_all add: addr_pass)
  show ?thesis
  proof (rule run_nested_eop [where eop = EOP_CATCH])
    fix e ss s xs ys
    assume e: "addr bc T \<le> e"
    then have "addr bc q < e" using lt by simp
    from runs_early [OF t rl(3,2) _ this] have "decompile prog bc e (start_at (addr bc p + 2) stk) False False =
        Some (cfg (addr bc q) (addr bc p + 2) (t # stk) [] [])" by (simp add: ad(1))
    then show "nested_eop (decompile prog bc) bc e ss EOP_CATCH
          (cfg (addr bc p + 2) s (EXPR_VAR (TYPE_INT (int (addr bc r))) # c # stk) xs ys) =
        Some (cfg (addr bc T) s (EXPR_CATCH t a d # stk) xs ys)"
      using rl codes d by (simp add: nested_eop_def catch_op_def catch_label_def pop_expr_def push_expr_def)
  qed (use cp sz lt in \<open>auto simp: addr_pass\<close>)
qed

lemma run_push_label:
  assumes "sized bc" "coded E prog bc p [B OP_EXTENDED, B EOP_PUSH_LABEL, LAB r]"
  shows "runs prog bc p stk (label_pass (byte_pass (byte_pass p))) (EXPR_VAR (TYPE_INT (int (addr bc r))) # stk)"
  by (rule run_simple_eop [where eop = EOP_PUSH_LABEL]) (use assms in \<open>simp_all add: addr_pass eop_defs\<close>)

section \<open>Indexed assignments\<close>

text \<open>The bytes from place \<open>p\<close> to place \<open>q\<close> do not hold \<^verbatim>\<open>OP_PUSH_TEMP\<close>.\<close>

definition no_temp :: "Bytecodes \<Rightarrow> place \<Rightarrow> place \<Rightarrow> bool" where
  "no_temp bc p q \<longleftrightarrow> addr bc p \<le> addr bc q \<and>
     (\<forall>i. addr bc p \<le> i \<and> i < addr bc q \<longrightarrow> (\<exists>b. byte_at bc i = Some b \<and> b \<noteq> OP_PUSH_TEMP))"

lemma no_temp_trans: "no_temp bc p q \<Longrightarrow> no_temp bc q r \<Longrightarrow> no_temp bc p r"
  by (auto simp: no_temp_def) (metis not_less)

lemma no_temp_byte: "sized bc \<Longrightarrow> byte_at bc (addr bc p) = Some b \<Longrightarrow> b \<noteq> OP_PUSH_TEMP \<Longrightarrow> no_temp bc p (byte_pass p)"
  by (auto simp: no_temp_def addr_pass less_Suc_eq_le dest: le_antisym)

lemma read_bytes_small:
  assumes "read_bytes bc n p = Some (x, p + n)" "x < OP_PUSH_TEMP" "p \<le> i" "i < p + n" "n = 1 \<or> n = 2 \<or> n = 4"
  shows "\<exists>b. byte_at bc i = Some b \<and> b \<noteq> OP_PUSH_TEMP"
proof -
  consider "n = 1" | "n = 2" | "n = 4" using assms(5) by blast
  then show ?thesis
  proof cases
    case 1
    then have i: "i = p" using assms(3,4) by simp
    show ?thesis using assms(1,2) 1 by (auto simp: i read_bytes_def bind_eq_Some_conv)
  next
    case 2
    then have "i = p \<or> i = p + 1" using assms(3,4) by auto
    then show ?thesis using assms(1,2) 2 by (auto simp: read_bytes_def bind_eq_Some_conv)
  next
    case 3
    then have "i = p \<or> i = p + 1 \<or> i = p + 2 \<or> i = p + 3" using assms(3,4) by auto
    then show ?thesis using assms(1,2) 3 by (auto simp: read_bytes_def bind_eq_Some_conv)
  qed
qed

lemma no_temp_var: "sized bc \<Longrightarrow> item_at E prog bc p (VAR x) \<Longrightarrow> x < MAX_VARS \<Longrightarrow> no_temp bc p (pass p (VAR x))"
  using read_bytes_small [of bc "numbytes_var_name bc" "addr bc p" x]
  by (auto simp: no_temp_def addr_pass READ_ID_def MAX_VARS_def sized_def)

text \<open>What can be assigned to: a variable or a property, indexed or not.\<close>

fun assignable :: "Expr \<Rightarrow> bool" where
  "assignable e =
     (case e of
        EXPR_RANGE b f t \<Rightarrow> assignable b
      | EXPR_INDEX b i \<Rightarrow> assignable b
      | EXPR_ID x \<Rightarrow> x < MAX_VARS
      | EXPR_BINARY k a b \<Rightarrow> k = EXPR_PROP
      | _ \<Rightarrow> False)"

declare assignable.simps [simp del]

lemma no_temp_items:
  assumes "sized bc" "coded E prog bc p C" "\<forall>i \<in> set C. (\<exists>b. i = B b \<and> b \<noteq> OP_PUSH_TEMP) \<or> (\<exists>x. i = VAR x \<and> x < MAX_VARS)"
  shows "no_temp bc p (advance p C)"
  using assms(2,3)
proof (induction C arbitrary: p)
  case Nil
  then show ?case by (simp add: no_temp_def)
next
  case (Cons i C)
  have "no_temp bc p (pass p i)" using Cons.prems no_temp_byte [OF assms(1)] no_temp_var [OF assms(1)] by auto
  then show ?case using no_temp_trans Cons by fastforce
qed

lemma store_items_small:
  "assignable e \<Longrightarrow> \<forall>i \<in> set (store_items e). (\<exists>b. i = B b \<and> b \<noteq> OP_PUSH_TEMP) \<or> (\<exists>x. i = VAR x \<and> x < MAX_VARS)"
proof (induction e rule: store_items.induct)
  case (1 e)
  then show ?case
    by (subst store_items.simps, subst (asm) (3) assignable.simps) (cases e; auto simp: var_items_def)
qed

lemma finish_indexed:
  assumes "no_temp bc p q" "byte_at bc (addr bc q) = Some OP_PUSH_TEMP"
  shows "finish_indexed_assignment bc (cfg (addr bc p) s stk xs ys) = Some (cfg (addr bc q + 1) s stk xs ys)"
proof -
  let ?V = "vector bc" and ?n = "addr bc q - addr bc p"
  have q: "addr bc q < length ?V" "?V ! addr bc q = OP_PUSH_TEMP" "addr bc p \<le> addr bc q"
    using assms by (auto simp: byte_at_def no_temp_def split: if_splits)
  have i: "?V ! (addr bc p + k) \<noteq> OP_PUSH_TEMP" if "k < ?n" for k
    using assms(1) that q(1) unfolding no_temp_def byte_at_def by (metis add.commute le_add1 less_diff_conv option.inject less_trans)
  have "takeWhile (\<lambda>b. b \<noteq> OP_PUSH_TEMP) (drop (addr bc p) ?V) = take ?n (drop (addr bc p) ?V)"
    by (rule takeWhile_eq_take_P_nth) (use q i in auto)
  then have "length (takeWhile (\<lambda>b. b \<noteq> OP_PUSH_TEMP) (drop (addr bc p) ?V)) = ?n" using q by simp
  then show ?thesis using q by (simp add: finish_indexed_assignment_def)
qed

definition lvalue_parts :: "bool \<Rightarrow> Expr \<Rightarrow> Expr list" where
  "lvalue_parts ia e =
     (if ia then [e]
      else case e of
             EXPR_RANGE a b c \<Rightarrow> [c, b, a]
           | EXPR_INDEX a b \<Rightarrow> [b, a]
           | EXPR_BINARY k a b \<Rightarrow> [b, a]
           | _ \<Rightarrow> [])"

lemma run_stores:
  assumes sz: "sized bc" and "assignable e"
    and C: "C = (if indexed e then [B OP_PUT_TEMP] @ store_items e @ [B OP_POP, B OP_PUSH_TEMP] else store_items e)"
    and c: "coded E prog bc p C"
  shows "runs prog bc p (r # lvalue_parts False e @ stk) (advance p C) (EXPR_ASGN e r # stk)"
proof (cases "indexed e")
  case False
  then consider x where "e = EXPR_ID x" | a b where "e = EXPR_BINARY EXPR_PROP a b"
    using assms(2) by (subst (asm) assignable.simps) (auto split: Expr.splits if_splits)
  then show ?thesis
  proof cases
    case 1
    then show ?thesis using run_put [OF sz] c C by (simp add: lvalue_parts_def)
  next
    case 2
    show ?thesis
      by (rule run_simple [where op = OP_PUT_PROP])
        (use 2 c C sz in \<open>simp_all add: lvalue_parts_def addr_pass ready_defs simple_defs\<close>)
  qed
next
  case True
  let ?q = "byte_pass p"
  have temp: "runs prog bc p (r # lvalue_parts False e @ stk) ?q (r # lvalue_parts False e @ stk)"
    by (rule run_simple [where op = OP_PUT_TEMP]) (use True c C sz in \<open>simp_all add: addr_pass ready_defs simple_defs\<close>)
  have cs: "coded E prog bc ?q (store_items e @ [B OP_POP, B OP_PUSH_TEMP])" using c C True by simp
  consider a b where "e = EXPR_INDEX a b" "assignable a" | a b t where "e = EXPR_RANGE a b t" "assignable a"
    using assms(2) True by (subst (asm) assignable.simps) (auto split: Expr.splits)
  then have "runs prog bc ?q (r # lvalue_parts False e @ stk) (advance p C) (EXPR_ASGN e r # stk)"
  proof cases
    case 1
    have nt: "no_temp bc (byte_pass ?q) (advance ?q (store_items e @ [B OP_POP]))"
      using no_temp_items [OF sz, of E prog "byte_pass ?q" "store_items a @ [B OP_POP]"] store_items_small [OF 1(2)] cs 1(1)
      by simp
    have t: "byte_at bc (addr bc (advance ?q (store_items e @ [B OP_POP]))) = Some OP_PUSH_TEMP" using cs by simp
    show ?thesis
      by (rule run_simple [where op = OP_INDEXSET])
        (use 1 cs C True sz nt finish_indexed [OF nt t] in
          \<open>auto simp: lvalue_parts_def addr_pass ready_defs simple_defs no_temp_def\<close>)
  next
    case 2
    have nt: "no_temp bc (byte_pass (byte_pass ?q)) (advance ?q (store_items e @ [B OP_POP]))"
      using no_temp_items [OF sz, of E prog "byte_pass (byte_pass ?q)" "store_items a @ [B OP_POP]"] store_items_small [OF 2(2)] cs 2(1)
      by simp
    have t: "byte_at bc (addr bc (advance ?q (store_items e @ [B OP_POP]))) = Some OP_PUSH_TEMP" using cs by simp
    show ?thesis
      by (rule run_simple_eop [where eop = EOP_RANGESET])
        (use 2 cs C True sz nt finish_indexed [OF nt t] in
          \<open>auto simp: lvalue_parts_def addr_pass eop_defs no_temp_def\<close>)
  qed
  then show ?thesis by (rule runs_trans [OF temp])
qed

section \<open>Scattering assignments\<close>

fun targets :: "Bytecodes \<Rightarrow> Scatter list \<Rightarrow> place list \<Rightarrow> (Scatter_Kind \<times> nat \<times> nat) list" where
  "targets bc [] Ls = []"
| "targets bc ((k, x, d) # sc) Ls =
     (k, x, if k = SCAT_OPTIONAL \<and> d \<noteq> None then addr bc (hd Ls) else 0) # targets bc sc (tl Ls)"

lemma rest_place_bounds: "i \<le> rest_place i sc \<and> rest_place i sc \<le> i + length sc"
proof (induction sc arbitrary: i)
  case (Cons t sc)
  obtain k x d where "t = (k, x, d)" by (cases t)
  then show ?case using Cons [of "Suc i"] by auto
qed simp

lemma rest_place_eq:
  assumes "length (filter (\<lambda>(k, _). k = SCAT_REST) sc) \<le> 1" "j < length sc"
  shows "i + j = rest_place i sc \<longleftrightarrow> fst (sc ! j) = SCAT_REST"
  using assms
proof (induction sc arbitrary: i j)
  case (Cons t sc)
  obtain k x d where t: "t = (k, x, d)" by (cases t)
  show ?case
  proof (cases "k = SCAT_REST")
    case True
    have "filter (\<lambda>(k, _). k = SCAT_REST) sc = []" using Cons.prems(1) True t by simp
    then have "fst (sc ! j') \<noteq> SCAT_REST" if "j' < length sc" for j'
      using that nth_mem [OF that] by (cases "sc ! j'") (auto simp: filter_empty_conv)
    then show ?thesis using True t Cons.prems(2) by (cases j) auto
  next
    case False
    then have ne: "rest_place i (t # sc) = rest_place (Suc i) sc" "length (filter (\<lambda>(k, _). k = SCAT_REST) sc) \<le> 1"
      using t Cons.prems(1) by auto
    show ?thesis
    proof (cases j)
      case 0
      then show ?thesis using rest_place_bounds [of "Suc i" sc] ne(1) False t by auto
    next
      case (Suc j')
      then show ?thesis using Cons.IH [OF ne(2), of j' "Suc i"] Cons.prems(2) ne(1) by simp
    qed
  qed
qed simp

lemma read_targets_coded:
  assumes sz: "sized bc" and "coded E prog bc p (scatter_items sc Ls)" "length Ls = length sc" "\<forall>L \<in> set Ls. 1 < addr bc L"
    and "\<forall>j < length sc. i + j = r \<longleftrightarrow> fst (sc ! j) = SCAT_REST"
  shows "read_targets bc (length sc) i r (addr bc p) = Some (targets bc sc Ls, addr bc (advance p (scatter_items sc Ls)))"
  using assms(2-)
proof (induction sc arbitrary: p Ls i)
  case (Cons t sc)
  obtain k x d where t: "t = (k, x, d)" by (cases t)
  obtain L Ls' where Ls: "Ls = L # Ls'" using Cons.prems(2) by (cases Ls) auto
  let ?q = "pass p (VAR x)"
  have k: "i = r \<longleftrightarrow> k = SCAT_REST" using spec [OF Cons.prems(4), of 0] t by simp
  have "\<forall>j < length sc. i + 1 + j = r \<longleftrightarrow> fst (sc ! j) = SCAT_REST"
  proof (intro allI impI)
    fix j assume "j < length sc"
    then show "i + 1 + j = r \<longleftrightarrow> fst (sc ! j) = SCAT_REST" using spec [OF Cons.prems(4), of "Suc j"] by simp
  qed
  then have rest: "read_targets bc (length sc) (i + 1) r (addr bc (label_pass ?q)) =
      Some (targets bc sc Ls', addr bc (advance (label_pass ?q) (scatter_items sc Ls')))"
    using Cons.IH [of "label_pass ?q" Ls' "i + 1"] Cons.prems(1-3) t Ls by (auto split: if_splits)
  have id: "READ_ID bc (addr bc p) = Some (x, addr bc ?q)" using Cons.prems(1) t sz by (simp add: addr_pass)
  obtain l where l: "READ_LABEL bc (addr bc ?q) = Some (l, addr bc (label_pass ?q))"
      "l = (if k \<noteq> SCAT_OPTIONAL then 0 else if d = None then 1 else addr bc L)"
    using Cons.prems(1) t Ls sz by (auto simp: addr_pass split: if_splits)
  have kind: "(if i = r then SCAT_REST else if l = 0 then SCAT_REQUIRED else SCAT_OPTIONAL) = k"
    using k l(2) Cons.prems(3) Ls by (cases k) auto
  have lab: "(if l > 1 then l else 0) = (if k = SCAT_OPTIONAL \<and> d \<noteq> None then addr bc L else 0)"
    using l(2) Cons.prems(3) Ls by auto
  have adv: "advance p (scatter_items (t # sc) Ls) = advance (label_pass ?q) (scatter_items sc Ls')"
    using t Ls by simp
  show ?case using id l(1) rest kind lab t Ls by (cases d) (simp_all add: adv)
qed simp

lemma run_scatter:
  assumes sz: "sized bc" and ok: "scatter_ok sc" and len: "length Ls = length sc"
    and C: "C = [B OP_EXTENDED, B EOP_SCATTER, B (length sc), B n, B (rest_place 1 sc mod 256)] @ scatter_items sc Ls"
    and c: "coded E prog bc p (C @ [LAB T])" and q: "q = label_pass (advance p C)"
    and labels: "\<forall>L \<in> set Ls. addr bc q \<le> addr bc L" and le: "addr bc q \<le> addr bc T"
    and d: "scatter_defaults (\<lambda>p e stk. decompile prog bc e (start_at p stk) False False) bc (addr bc T) (targets bc sc Ls)
      (addr bc q) (r # stk) = Some (sc, addr bc T, r # stk)"
  shows "runs prog bc p (r # stk) T (EXPR_ASGN (EXPR_SCATTER sc) r # stk)"
proof -
  let ?h = "advance p [B OP_EXTENDED, B EOP_SCATTER, B (length sc), B n, B (rest_place 1 sc mod 256)]"
  have h: "addr bc ?h = addr bc p + 5" using sz by (simp add: addr_pass)
  have "addr bc ?h \<le> addr bc (advance p C)" unfolding C advance_simps(3) by (rule addr_advance [OF sz])
  then have q5: "addr bc p + 5 < addr bc q" using h q sz sized_pos(4) [OF sz] by (simp add: addr_pass)
  have one: "\<forall>L \<in> set Ls. 1 < addr bc L" using labels q5 by force
  have rest: "\<forall>j < length sc. 1 + j = rest_place 1 sc mod 256 \<longleftrightarrow> fst (sc ! j) = SCAT_REST"
  proof (intro allI impI)
    fix j assume j: "j < length sc"
    have r: "1 + j = rest_place 1 sc \<longleftrightarrow> fst (sc ! j) = SCAT_REST"
      using rest_place_eq [OF _ j, of 1] ok by (simp add: scatter_ok_def)
    have b: "1 \<le> rest_place 1 sc" "rest_place 1 sc \<le> 256" "1 + j < 256 \<or> length sc = 256"
      using rest_place_bounds [of 1 sc] ok j by (auto simp: scatter_ok_def)
    show "1 + j = rest_place 1 sc mod 256 \<longleftrightarrow> fst (sc ! j) = SCAT_REST"
    proof (cases "rest_place 1 sc = 256")
      case True
      then show ?thesis using r ok j by (auto simp: scatter_ok_def)
    next
      case False
      then show ?thesis using r b by simp
    qed
  qed
  have Suc4: "Suc (Suc (Suc (Suc n))) = n + 4" for n :: nat by simp
  have bytes: "byte_at bc (addr bc p) = Some OP_EXTENDED" "byte_at bc (addr bc p + 1) = Some EOP_SCATTER"
      "byte_at bc (addr bc p + 2) = Some (length sc)" "byte_at bc (addr bc p + 4) = Some (rest_place 1 sc mod 256)"
    using c sz Suc4 by (simp_all add: C addr_pass)
  have tgt: "read_targets bc (length sc) 1 (rest_place 1 sc mod 256) (addr bc p + 5) = Some (targets bc sc Ls, addr bc (advance p C))"
    using read_targets_coded [OF sz, of E prog ?h sc Ls 1] c len one rest h by (simp add: C)
  have lab: "READ_LABEL bc (addr bc (advance p C)) = Some (addr bc T, addr bc q)" using c q sz by (simp add: addr_pass)
  show ?thesis
  proof (rule run_nested_eop [where eop = EOP_SCATTER])
    show "nested_eop (decompile prog bc) bc e ss EOP_SCATTER (cfg (addr bc p + 2) s (r # stk) xs ys) =
        Some (cfg (addr bc T) s (EXPR_ASGN (EXPR_SCATTER sc) r # stk) xs ys)" for e ss s xs ys
      using bytes tgt lab d by (simp add: nested_eop_def scatter_op_def pop_expr_def push_expr_def add.assoc flip: add_2_eq_Suc')
  qed (use bytes q5 le in auto)
qed

section \<open>Expressions\<close>

lemma run_index:
  assumes "sized bc" "byte_at bc (addr bc p) = Some op" "op = OP_REF \<or> op = OP_PUSH_REF"
  shows "runs prog bc p (b # a # stk) (byte_pass p) (EXPR_INDEX a b # stk)"
  by (rule run_simple [where op = op]) (use assms in \<open>auto simp: addr_pass ready_defs simple_defs\<close>)

lemma run_range:
  assumes "sized bc" "byte_at bc (addr bc p) = Some OP_RANGE_REF"
  shows "runs prog bc p (c # b # a # stk) (byte_pass p) (EXPR_RANGE a b c # stk)"
  by (rule run_simple [where op = OP_RANGE_REF]) (use assms in \<open>auto simp: addr_pass ready_defs simple_defs\<close>)

lemma run_length:
  assumes "sized bc" "coded E prog bc p [B OP_EXTENDED, B EOP_LENGTH, STK n]"
  shows "runs prog bc p stk (byte_pass (byte_pass (byte_pass p))) (EXPR_LENGTH # stk)"
  by (rule run_simple_eop [where eop = EOP_LENGTH]) (use assms in \<open>simp_all add: addr_pass eop_defs sized_pos\<close>)

lemma run_call:
  assumes "sized bc" "coded E prog bc p [B OP_BI_FUNC_CALL, B f]"
  shows "runs prog bc p (EXPR_LIST args # stk) (byte_pass (byte_pass p)) (EXPR_CALL f args # stk)"
  by (rule run_simple [where op = OP_BI_FUNC_CALL]) (use assms in \<open>simp_all add: addr_pass ready_defs simple_defs read_bytes_def\<close>)

lemma run_verb:
  assumes "sized bc" "byte_at bc (addr bc p) = Some OP_CALL_VERB"
  shows "runs prog bc p (EXPR_LIST args # b # a # stk) (byte_pass p) (EXPR_VERB a b args # stk)"
  by (rule run_simple [where op = OP_CALL_VERB]) (use assms in \<open>simp_all add: addr_pass ready_defs simple_defs\<close>)

lemma run_empty:
  assumes "sized bc" "byte_at bc (addr bc p) = Some OP_MAKE_EMPTY_LIST"
  shows "runs prog bc p stk (byte_pass p) (EXPR_LIST [] # stk)"
  by (rule run_simple [where op = OP_MAKE_EMPTY_LIST]) (use assms in \<open>simp_all add: addr_pass ready_defs simple_defs\<close>)

lemma run_push_prop:
  assumes "sized bc" "byte_at bc (addr bc p) = Some OP_PUSH_GET_PROP"
  shows "runs prog bc p (b # a # stk) (byte_pass p) (EXPR_BINARY EXPR_PROP a b # stk)"
  using run_simple_binary [OF assms, of EXPR_PROP] by (simp add: binary_kind_def)

lemma pass_ops [simp]: "pass p (logic_item k) = byte_pass p" "pass p (arg_item first k') = byte_pass p"
  by (cases k; simp) (cases "(first, k')" rule: arg_item.cases; simp)

definition codes_expr :: "Arg_List \<Rightarrow> Expr" where
  "codes_expr codes = (if codes = [] then EXPR_VAR (TYPE_INT 0) else EXPR_LIST codes)"

lemma catch_codes_expr: "catch_codes (codes_expr codes) = Some codes"
  by (simp add: catch_codes_def codes_expr_def)

definition arg_stack :: "bool \<Rightarrow> Arg_List \<Rightarrow> Expr list \<Rightarrow> Expr list" where
  "arg_stack first as stk = (if first then stk else EXPR_LIST as # stk)"

lemma default_next:
  assumes "sized bc" "coded E prog bc p (C @ P)" "P = var_items OP_PUT i @ [B OP_POP]" "runs prog bc p stk (advance p C) (e # stk)"
    "t = addr bc (advance p (C @ P))"
  shows "decompile prog bc (t - 1) (start_at (addr bc p) stk) False False =
      Some (cfg (t - 1) (addr bc p) (EXPR_ASGN (EXPR_ID i) e # stk) [] []) \<and> byte_at bc (t - 1) = Some OP_POP \<and> 0 < t"
proof -
  let ?q = "advance p (C @ var_items OP_PUT i)"
  have r: "runs prog bc p stk ?q (EXPR_ASGN (EXPR_ID i) e # stk)"
    using runs_trans [OF assms(4) run_put [OF assms(1), where E = E]] assms(2,3) by simp
  have t: "t = addr bc ?q + 1" using assms(1,3,5) by (simp add: addr_pass)
  have b: "byte_at bc (addr bc ?q) = Some OP_POP" using assms(2,3) by simp
  show ?thesis using runs_call [OF r refl, of False False] b t by simp
qed

lemma decompile_enc:
  assumes sz: "sized bc"
  shows "enc_expr d s p e C \<Longrightarrow> coded E prog bc p C \<Longrightarrow> runs prog bc p stk (advance p C) (e # stk)"
    and "enc_lvalue ia d s p e C \<Longrightarrow> assignable e \<and> (coded E prog bc p C \<longrightarrow> runs prog bc p stk (advance p C) (lvalue_parts ia e @ stk))"
    and "enc_args first d s p args C \<Longrightarrow> coded E prog bc p C \<Longrightarrow> first = (as = []) \<Longrightarrow>
      runs prog bc p (arg_stack first as stk) (advance p C) (EXPR_LIST (as @ args) # stk)"
    and "enc_codes d s p codes C \<Longrightarrow> coded E prog bc p C \<Longrightarrow> runs prog bc p stk (advance p C) (codes_expr codes # stk)"
    and "enc_except d s p x C \<Longrightarrow> coded E prog bc p C \<Longrightarrow>
      catch_default (decompile prog bc) bc (addr bc (advance p C)) (addr bc p) stk = Some (x, addr bc (advance p C), stk)"
    and "enc_defaults d s p sc Ls C \<Longrightarrow> coded E prog bc p C \<Longrightarrow> list_all (\<lambda>(k, x, d). d = None \<or> k = SCAT_OPTIONAL) sc \<Longrightarrow> 0 < addr bc p \<Longrightarrow>
      (\<forall>L \<in> set Ls. addr bc p \<le> addr bc L) \<and> next_label (targets bc sc Ls) (addr bc (advance p C)) = addr bc p \<and>
      scatter_defaults (\<lambda>p e stk. decompile prog bc e (start_at p stk) False False) bc (addr bc (advance p C)) (targets bc sc Ls)
        (addr bc p) stk = Some (sc, addr bc (advance p C), stk)"
proof (induction arbitrary: stk and stk and as stk and stk and stk and stk
    rule: enc_expr_enc_lvalue_enc_args_enc_codes_enc_except_enc_defaults.inducts)
  case (enc_var d s p v)
  then show ?case using run_literal [OF sz, where E = E] by simp
next
  case (enc_id d s p x)
  then show ?case using run_push [OF sz, where E = E] by simp
next
  case (enc_logic d s p a C q b D T k)
  have "runs prog bc (advance p C) (a # stk) T (EXPR_LOGIC k a b # stk)"
    by (rule run_logic [OF sz, where E = E]) (use enc_logic in simp_all)
  then show ?case using runs_trans [OF enc_logic.IH(1)] enc_logic by simp
next
  case (enc_unary d s p a C k)
  then show ?case using runs_trans [OF enc_unary.IH run_unary [OF sz, where E = E]] by simp
next
  case (enc_binary d s p a C b D k)
  then show ?case using runs_trans [OF runs_trans [OF enc_binary.IH(1) enc_binary.IH(2)] run_binary [OF sz, where E = E]] by simp
next
  case (enc_index d s p a C b D)
  then show ?case using runs_trans [OF runs_trans [OF enc_index.IH(1) enc_index.IH(2)] run_index [OF sz]] by simp
next
  case (enc_range d s p a C b D c E')
  then show ?case
    using runs_trans [OF runs_trans [OF runs_trans [OF enc_range.IH(1) enc_range.IH(2)] enc_range.IH(3)] run_range [OF sz]] by simp
next
  case (enc_length d n p)
  then show ?case using run_length [OF sz, where E = E] by simp
next
  case (enc_list d s p args C)
  then show ?case using enc_list.IH [of "[]"] by (simp add: arg_stack_def)
next
  case (enc_call d s p args C f)
  have "runs prog bc p stk (advance p C) (EXPR_LIST args # stk)" using enc_call.IH [of "[]" stk] enc_call.prems by (simp add: arg_stack_def)
  then show ?case using runs_trans [OF _ run_call [OF sz, where E = E]] enc_call.prems by simp
next
  case (enc_verb d s p a C b D args E')
  have "runs prog bc (advance (advance p C) D) (b # a # stk) (advance (advance (advance p C) D) E') (EXPR_LIST args # b # a # stk)"
    using enc_verb.IH(3) [of "[]" "b # a # stk"] enc_verb.prems by (simp add: arg_stack_def)
  then show ?case
    using runs_trans [OF runs_trans [OF runs_trans [OF enc_verb.IH(1) enc_verb.IH(2)]] run_verb [OF sz]] enc_verb.prems by simp
next
  case (enc_cond d s p a C q b D r c E' T)
  have "runs prog bc (advance p C) (a # stk) T (EXPR_COND a b c # stk)"
    using run_cond [OF sz, of E prog "advance p C" "advance q D" T stk b c a] enc_cond by simp
  then show ?case using runs_trans [OF enc_cond.IH(1)] enc_cond by simp
next
  case (enc_scatter d s p a C Ls sc H q D T)
  have c: "coded E prog bc (advance p C) (H @ [LAB T])" "coded E prog bc q D" using enc_scatter by simp_all
  have pos: "0 < addr bc q" using enc_scatter.hyps sz by (simp add: addr_pass sized_pos)
  have df: "(\<forall>L \<in> set Ls. addr bc q \<le> addr bc L)"
      "scatter_defaults (\<lambda>p e stk. decompile prog bc e (start_at p stk) False False) bc (addr bc T) (targets bc sc Ls)
        (addr bc q) (a # stk) = Some (sc, addr bc T, a # stk)"
    using enc_scatter.IH(2) [OF c(2) _ pos, of "a # stk"] enc_scatter.hyps by (auto simp: scatter_ok_def)
  have le: "addr bc q \<le> addr bc T" using addr_advance [OF sz, of q D] enc_scatter.hyps by simp
  have "runs prog bc (advance p C) (a # stk) T (EXPR_ASGN (EXPR_SCATTER sc) a # stk)"
    by (rule run_scatter [OF sz _ _ _ c(1) _ df(1) le df(2)]) (use enc_scatter.hyps in simp_all)
  then show ?case using runs_trans [OF enc_scatter.IH(1)] enc_scatter.prems enc_scatter.hyps by simp
next
  case (enc_asgn d s p e C a D S)
  have c: "coded E prog bc p C" "coded E prog bc (advance p C) D" "coded E prog bc (advance p (C @ D)) S" using enc_asgn.prems by simp_all
  have l: "assignable e" "runs prog bc p stk (advance p C) (lvalue_parts False e @ stk)" using enc_asgn.IH(1) [of stk] c(1) by auto
  have "runs prog bc p stk (advance p (C @ D)) (a # lvalue_parts False e @ stk)"
    using runs_trans [OF l(2) enc_asgn.IH(2)] c(2) by simp
  then show ?case using runs_trans [OF _ run_stores [OF sz l(1) enc_asgn.hyps(3) c(3)]] by simp
next
  case (enc_catch d s p codes C q a D r x E' T)
  let ?h = "label_pass (byte_pass (byte_pass (advance p C)))"
  have c: "coded E prog bc p C" "coded E prog bc (advance p C) [B OP_EXTENDED, B EOP_PUSH_LABEL, LAB r]"
      "coded E prog bc ?h [B OP_EXTENDED, B EOP_CATCH]" "coded E prog bc q D"
      "coded E prog bc (advance q D) [B OP_EXTENDED, B EOP_END_CATCH, LAB T]" "coded E prog bc r E'"
    using enc_catch.prems enc_catch.hyps by simp_all
  let ?y = "codes_expr codes"
  have l: "runs prog bc p stk ?h (EXPR_VAR (TYPE_INT (int (addr bc r))) # ?y # stk)"
    by (rule runs_trans [OF enc_catch.IH(1) [OF c(1)] run_push_label [OF sz c(2)]])
  have q: "q = byte_pass (byte_pass ?h)" using enc_catch.hyps by simp
  have "runs prog bc ?h (EXPR_VAR (TYPE_INT (int (addr bc r))) # ?y # stk) T (EXPR_CATCH a codes x # stk)"
    by (rule run_catch [OF sz c(3) _ c(5) _ catch_codes_expr])
      (use enc_catch.IH(2) [OF c(4)] enc_catch.IH(3) [OF c(6)] enc_catch.hyps q addr_advance [OF sz, of r E'] in simp_all)
  then show ?case using runs_trans [OF l] enc_catch.hyps by simp
next
  case (enc_any d s p)
  have "runs prog bc p stk (byte_pass p) (EXPR_VAR (TYPE_INT 0) # stk)"
    by (rule run_number [OF sz]) (use enc_any in \<open>simp_all add: optim_num_defs\<close>)
  then show ?case by (simp add: codes_expr_def)
next
  case (enc_some codes d s p C)
  then show ?case using enc_some.IH [of "[]"] by (simp add: codes_expr_def arg_stack_def)
next
  case (enc_first d s p)
  then show ?case using sz by (simp add: catch_default_def addr_pass)
next
  case (enc_other d s p e C)
  have c: "byte_at bc (addr bc p) = Some OP_POP" "coded E prog bc (byte_pass p) C" using enc_other.prems by simp_all
  have "decompile prog bc (addr bc (advance (byte_pass p) C)) (start_at (addr bc (byte_pass p)) stk) False False =
      Some (cfg (addr bc (advance (byte_pass p) C)) (addr bc (byte_pass p)) (e # stk) [] [])"
    by (rule runs_call [OF enc_other.IH [OF c(2)] refl])
  then show ?case using c(1) sz by (simp add: catch_default_def addr_pass optim_num_defs pop_expr_def)
next
  case (enc_lrange d s p a C t b D c E')
  have l: "assignable (EXPR_RANGE a b c)" using enc_lrange.IH(1) by (subst assignable.simps) simp
  show ?case
    using l runs_trans [OF runs_trans [OF _ enc_lrange.IH(2)] enc_lrange.IH(3)] enc_lrange.IH(1) by (simp add: lvalue_parts_def)
next
  case (enc_lindex d s p a C t b D ia)
  have l: "assignable (EXPR_INDEX a b)" using enc_lindex.IH(1) by (subst assignable.simps) simp
  have "runs prog bc p stk (advance p (C @ D)) (b # a # stk)" if "coded E prog bc p (C @ D)"
    using that runs_trans [OF _ enc_lindex.IH(2)] enc_lindex.IH(1) by (simp add: lvalue_parts_def)
  then show ?case using l runs_trans [OF _ run_index [OF sz, where op = OP_PUSH_REF]] by (simp add: lvalue_parts_def)
next
  case (enc_lid x ia d s p)
  then show ?case using run_push [OF sz, where E = E] by (simp add: assignable.simps lvalue_parts_def runs_refl)
next
  case (enc_lprop d s p a C b D ia)
  have "runs prog bc p stk (advance p (C @ D)) (b # a # stk)" if "coded E prog bc p (C @ D)"
    using that runs_trans [OF enc_lprop.IH(1) enc_lprop.IH(2)] by simp
  then show ?case using runs_trans [OF _ run_push_prop [OF sz]] by (simp add: assignable.simps lvalue_parts_def)
next
  case (enc_empty d s p)
  then show ?case using run_empty [OF sz] by (simp add: arg_stack_def)
next
  case (enc_done d s p)
  then show ?case by (simp add: arg_stack_def runs_refl)
next
  case (enc_arg d s p e C first args D k)
  have c: "coded E prog bc p C" "item_at E prog bc (advance p C) (arg_item first k)" "coded E prog bc (byte_pass (advance p C)) D"
    using enc_arg.prems(1) by simp_all
  have "runs prog bc (advance p C) (e # arg_stack first as stk) (byte_pass (advance p C)) (EXPR_LIST (as @ [(k, e)]) # stk)"
    using run_arg [OF sz c(2), of e stk] enc_arg.prems(2) by (cases as) (simp_all add: arg_stack_def)
  moreover have "runs prog bc (byte_pass (advance p C)) (EXPR_LIST (as @ [(k, e)]) # stk)
      (advance (byte_pass (advance p C)) D) (EXPR_LIST ((as @ [(k, e)]) @ args) # stk)"
    using enc_arg.IH(2) [OF c(3), of "as @ [(k, e)]" stk] by (simp add: arg_stack_def)
  ultimately show ?case using runs_trans [OF runs_trans [OF enc_arg.IH(1) [OF c(1)]]] by simp
next
  case (enc_no_default d s p)
  then show ?case by simp
next
  case (enc_skip k x d s p sc Ls C i)
  then show ?case by auto
next
  case (enc_default d s p e C P i sc Ls D)
  let ?q = "advance p (C @ P)"
  have c: "coded E prog bc p (C @ P)" "coded E prog bc ?q D" using enc_default.prems(1) by simp_all
  have run: "runs prog bc p stk (advance p C) (e # stk)" using enc_default.IH(1) c(1) by simp
  note nx = default_next [OF sz c(1) enc_default.hyps(2) run refl]
  have le: "addr bc p \<le> addr bc ?q" by (rule addr_advance [OF sz])
  have q: "(\<forall>L \<in> set Ls. addr bc ?q \<le> addr bc L)" "next_label (targets bc sc Ls) (addr bc (advance ?q D)) = addr bc ?q"
      "scatter_defaults (\<lambda>p e stk. decompile prog bc e (start_at p stk) False False) bc (addr bc (advance ?q D)) (targets bc sc Ls)
        (addr bc ?q) stk = Some (sc, addr bc (advance ?q D), stk)"
    using enc_default.IH(2) [OF c(2), of stk] enc_default.prems(2,3) le by auto
  have "\<forall>L \<in> set (p # Ls). addr bc p \<le> addr bc L" using q(1) le by force
  then show ?case using q nx enc_default.prems(3) by (simp add: pop_expr_def)
qed

end
