(* ===== verification/Decompile_Stmts.thy ===== *)
theory Decompile_Stmts
  imports Decompile_Laws
begin

text \<open>
  The decompiler on the code of statements. \<open>decompile_encoded\<close>: a vector that holds the code of a list of
  statements, fork vectors included, is decompiled to these statements.
\<close>

section \<open>Running over statements\<close>

definition sruns :: "Program \<Rightarrow> Bytecodes \<Rightarrow> place \<Rightarrow> place \<Rightarrow> Stmt list \<Rightarrow> bool" where
  "sruns prog bc p q zs \<longleftrightarrow> addr bc p \<le> addr bc q \<and>
     (\<forall>e stk xs ys as. addr bc q \<le> e \<longrightarrow>
        decompile prog bc e (cfg (addr bc p) (addr bc p) stk xs ys) True as =
        decompile prog bc e (cfg (addr bc q) (addr bc q) stk (xs @ zs) ys) True as)"

lemma sruns_refl: "sruns prog bc p p []"
  by (simp add: sruns_def)

lemma sruns_trans: "sruns prog bc p q xs \<Longrightarrow> sruns prog bc q r ys \<Longrightarrow> sruns prog bc p r (xs @ ys)"
  by (simp add: sruns_def)

lemma sruns_call:
  assumes "sruns prog bc p q zs" "t = addr bc q"
  shows "decompile prog bc t (start_at (addr bc p) stk) True as = Some (cfg (addr bc q) (addr bc q) stk zs [])"
  using assms by (simp add: sruns_def start_at_def decompile.simps [of _ _ _ "cfg (addr bc q) (addr bc q) stk zs []"])

lemma sruns_early:
  assumes "sruns prog bc p q zs" "byte_at bc (addr bc q) = Some OP_EXTENDED" "byte_at bc (addr bc q + 1) = Some eop"
    "eop \<in> {EOP_END_CATCH, EOP_END_EXCEPT, EOP_END_FINALLY, EOP_CONTINUE}" "addr bc q < e"
  shows "decompile prog bc e (start_at (addr bc p) stk) True as = Some (cfg (addr bc q) (addr bc q) stk zs [])"
proof -
  have "decompile prog bc e (start_at (addr bc p) stk) True as = decompile prog bc e (cfg (addr bc q) (addr bc q) stk zs []) True as"
    using assms(1,5) by (simp add: sruns_def start_at_def)
  also have "\<dots> = Some (cfg (addr bc q) (addr bc q) stk zs [])"
    using assms decompile_extended [of "cfg (addr bc q) (addr bc q) stk zs []" e bc eop] by simp
  finally show ?thesis .
qed

text \<open>A statement: expressions that leave \<open>es\<close> on the stack, and an opcode that takes them.\<close>

lemma stmt_after:
  assumes "\<And>stk. runs prog bc p stk q (es @ stk)" "addr bc q < addr bc r"
    and "\<And>e stk xs ys as. addr bc r \<le> e \<Longrightarrow> decompile prog bc e (cfg (addr bc q) (addr bc p) (es @ stk) xs ys) True as =
      decompile prog bc e (cfg (addr bc r) (addr bc r) stk (xs @ [z]) ys) True as"
  shows "sruns prog bc p r [z]"
proof -
  have "addr bc p \<le> addr bc q" using assms(1) by (simp add: runs_def)
  moreover have "decompile prog bc e (cfg (addr bc p) (addr bc p) stk xs ys) True as =
      decompile prog bc e (cfg (addr bc q) (addr bc p) (es @ stk) xs ys) True as" if "addr bc q \<le> e" for e stk xs ys as
    using assms(1) [of stk] that by (simp add: runs_def)
  ultimately show ?thesis using assms(2,3) by (simp add: sruns_def)
qed

lemma stmt_nested:
  assumes "\<And>stk. runs prog bc p stk q (es @ stk)" "byte_at bc (addr bc q) = Some op"
    "op \<in> {OP_IF, OP_EIF, OP_FOR_LIST, OP_FOR_RANGE, OP_WHILE, OP_IF_QUES, OP_AND, OP_OR}" "addr bc q < addr bc r"
    and "\<And>e stk xs ys as. nested_op (decompile prog bc) bc e True as op (cfg (addr bc q + 1) (addr bc p) (es @ stk) xs ys) =
      Some (cfg (addr bc r) (addr bc r) stk (xs @ [z]) ys)"
  shows "sruns prog bc p r [z]"
  by (rule stmt_after [where q = q and es = es]) (use assms in \<open>auto simp: decompile_nested\<close>)

lemma stmt_simple:
  assumes "\<And>stk. runs prog bc p stk q (es @ stk)" "byte_at bc (addr bc q) = Some op" "\<not> ready op"
    "op \<notin> {OP_IF, OP_EIF, OP_FOR_LIST, OP_FOR_RANGE, OP_WHILE, OP_IF_QUES, OP_AND, OP_OR, OP_FORK, OP_FORK_WITH_ID, OP_EXTENDED}"
    "addr bc q < addr bc r"
    and "\<And>e stk xs ys. simple_op prog bc e True op (cfg (addr bc q + 1) (addr bc p) (es @ stk) xs ys) =
      Some (cfg (addr bc r) (addr bc r) stk (xs @ [z]) ys)"
  shows "sruns prog bc p r [z]"
  by (rule stmt_after [where q = q and es = es]) (use assms in \<open>auto simp: decompile_simple\<close>)

lemma stmt_eop:
  assumes "\<And>stk. runs prog bc p stk q (es @ stk)" "byte_at bc (addr bc q) = Some OP_EXTENDED" "byte_at bc (addr bc q + 1) = Some eop"
    "eop \<in> {EOP_SCATTER, EOP_CATCH, EOP_TRY_EXCEPT, EOP_TRY_FINALLY, EOP_WHILE_ID}" "addr bc q < addr bc r"
    and "\<And>e stk xs ys. addr bc r \<le> e \<Longrightarrow>
      nested_eop (decompile prog bc) bc e True eop (cfg (addr bc q + 2) (addr bc p) (es @ stk) xs ys) =
      Some (cfg (addr bc r) (addr bc r) stk (xs @ [z]) ys)"
  shows "sruns prog bc p r [z]"
  by (rule stmt_after [where q = q and es = es]) (use assms in \<open>auto simp: decompile_extended\<close>)

lemma stmt_exit:
  assumes "byte_at bc (addr bc p) = Some OP_EXTENDED" "byte_at bc (addr bc p + 1) = Some eop" "eop = EOP_EXIT \<or> eop = EOP_EXIT_ID"
    "addr bc p < addr bc r"
    and "\<And>stk xs ys. simple_eop bc True eop (cfg (addr bc p + 2) (addr bc p) stk xs ys) = Some (cfg (addr bc r) (addr bc r) stk (xs @ [z]) ys)"
  shows "sruns prog bc p r [z]"
  using assms by (auto simp: sruns_def decompile_extended)

lemma run_body:
  assumes "sized bc" "sruns prog bc q r body" "coded E prog bc r [B OP_JUMP, LAB t]"
  shows "loop_body (decompile prog bc) bc (addr bc t) (addr bc (label_pass (byte_pass r))) (addr bc q) stk =
    Some (body, addr bc (label_pass (byte_pass r)), stk)"
  using sruns_call [OF assms(2) jump_end [OF assms(1)], of stk False] read_jump_coded [OF assms(1,3)] by (simp add: loop_body_def)

section \<open>Single statements\<close>

lemma run_for_list:
  assumes sz: "sized bc" and e: "\<And>stk. runs prog bc p stk p1 (e # stk)" and n: "byte_at bc (addr bc p1) = Some (OPTIM_NUM_TO_OPCODE 1)"
    and t: "t = byte_pass p1" and c: "coded E prog bc t [B OP_FOR_LIST, VAR i, LAB T]"
    and q: "q = label_pass (advance t [B OP_FOR_LIST, VAR i])" and b: "sruns prog bc q r body" "coded E prog bc r [B OP_JUMP, LAB t]"
    and T: "T = label_pass (byte_pass r)"
  shows "sruns prog bc p T [STMT_LIST i e body]"
proof -
  have one: "IN_OPTIM_NUM_RANGE 1" by (simp add: optim_num_defs)
  have run: "runs prog bc p stk t ([EXPR_VAR (TYPE_INT 1), e] @ stk)" for stk
    using runs_trans [OF e run_number [OF sz one n]] t by simp
  have rd: "READ_ID bc (addr bc t + 1) = Some (i, addr bc t + 1 + numbytes_var_name bc)"
      "READ_LABEL bc (addr bc t + 1 + numbytes_var_name bc) = Some (addr bc T, addr bc q)" "byte_at bc (addr bc t) = Some OP_FOR_LIST"
    using c sz q by (simp_all add: addr_pass)
  have lt: "addr bc t < addr bc T" using b(1) q T sz by (simp add: sruns_def addr_pass)
  show ?thesis
    by (rule stmt_nested [OF run rd(3) _ lt])
      (use rd run_body [OF sz b] T in \<open>simp_all add: nested_op_def for_list_op_def pop_expr_def ADD_STMT_def\<close>)
qed

lemma run_for_range:
  assumes sz: "sized bc" and run: "\<And>stk. runs prog bc p stk t (b # a # stk)" and c: "coded E prog bc t [B OP_FOR_RANGE, VAR i, LAB T]"
    and q: "q = label_pass (advance t [B OP_FOR_RANGE, VAR i])" and b: "sruns prog bc q r body" "coded E prog bc r [B OP_JUMP, LAB t]"
    and T: "T = label_pass (byte_pass r)"
  shows "sruns prog bc p T [STMT_RANGE i a b body]"
proof -
  have run': "runs prog bc p stk t ([b, a] @ stk)" for stk using run by simp
  have rd: "READ_ID bc (addr bc t + 1) = Some (i, addr bc t + 1 + numbytes_var_name bc)"
      "READ_LABEL bc (addr bc t + 1 + numbytes_var_name bc) = Some (addr bc T, addr bc q)" "byte_at bc (addr bc t) = Some OP_FOR_RANGE"
    using c sz q by (simp_all add: addr_pass)
  have lt: "addr bc t < addr bc T" using b(1) q T sz by (simp add: sruns_def addr_pass)
  show ?thesis
    by (rule stmt_nested [OF run' rd(3) _ lt])
      (use rd run_body [OF sz b] T in \<open>simp_all add: nested_op_def for_range_op_def pop_expr_def ADD_STMT_def\<close>)
qed

lemma run_while:
  assumes sz: "sized bc" and run: "\<And>stk. runs prog bc p stk p1 (w # stk)" and c: "coded E prog bc p1 (while_items x @ [LAB T])"
    and q: "q = label_pass (advance p1 (while_items x))" and b: "sruns prog bc q r body" "coded E prog bc r [B OP_JUMP, LAB p]"
    and T: "T = label_pass (byte_pass r)"
  shows "sruns prog bc p T [STMT_WHILE x w body]"
proof -
  have run': "runs prog bc p stk p1 ([w] @ stk)" for stk using run by simp
  have "addr bc p1 \<le> addr bc (advance p1 (while_items x))" by (rule addr_advance [OF sz])
  then have lt: "addr bc p1 < addr bc T" using b(1) q T sz by (simp add: sruns_def addr_pass)
  show ?thesis
  proof (cases x)
    case None
    have rd: "byte_at bc (addr bc p1) = Some OP_WHILE" "READ_LABEL bc (addr bc p1 + 1) = Some (addr bc T, addr bc q)"
      using c sz q None by (simp_all add: addr_pass while_items_def)
    show ?thesis
      by (rule stmt_nested [OF run' rd(1) _ lt])
        (use rd run_body [OF sz b] T None in \<open>simp_all add: nested_op_def while_op_def pop_expr_def ADD_STMT_def\<close>)
  next
    case (Some i)
    have rd: "byte_at bc (addr bc p1) = Some OP_EXTENDED" "byte_at bc (addr bc p1 + 1) = Some EOP_WHILE_ID"
        "READ_ID bc (addr bc p1 + 2) = Some (i, addr bc p1 + 2 + numbytes_var_name bc)"
        "READ_LABEL bc (addr bc p1 + 2 + numbytes_var_name bc) = Some (addr bc T, addr bc q)"
      using c sz q Some by (simp_all add: addr_pass while_items_def)
    show ?thesis
      by (rule stmt_eop [OF run' rd(1,2) _ lt])
        (use rd run_body [OF sz b] T Some in \<open>simp_all add: nested_eop_def while_op_def pop_expr_def ADD_STMT_def\<close>)
  qed
qed

lemma run_exit:
  assumes sz: "sized bc" and c: "coded E prog bc p (exit_items x @ [STK n, LAB t])" and q: "q = advance p (exit_items x @ [STK n, LAB t])"
  shows "sruns prog bc p q [if addr bc t < addr bc q then STMT_CONTINUE x else STMT_BREAK x]"
proof (cases x)
  case None
  show ?thesis
    by (rule stmt_exit [where eop = EOP_EXIT])
      (use c q sz None in \<open>simp_all add: exit_items_def addr_pass eop_defs ADD_STMT_def sized_pos\<close>)
next
  case (Some i)
  show ?thesis
    by (rule stmt_exit [where eop = EOP_EXIT_ID])
      (use c q sz Some in \<open>simp_all add: exit_items_def addr_pass eop_defs ADD_STMT_def sized_pos\<close>)
qed

lemma run_pop:
  assumes "sized bc" "\<And>stk. runs prog bc p stk q (e # stk)" "byte_at bc (addr bc q) = Some OP_POP"
  shows "sruns prog bc p (byte_pass q) [STMT_EXPR e]"
  by (rule stmt_simple [where op = OP_POP and es = "[e]" and q = q])
    (use assms in \<open>simp_all add: ready_defs addr_pass simple_op_def statement_op_def pop_expr_def ADD_STMT_def\<close>)

lemma run_return:
  assumes "sized bc" "\<And>stk. runs prog bc p stk q (e # stk)" "byte_at bc (addr bc q) = Some OP_RETURN"
  shows "sruns prog bc p (byte_pass q) [STMT_RETURN (Some e)]"
  by (rule stmt_simple [where op = OP_RETURN and es = "[e]" and q = q])
    (use assms in \<open>simp_all add: ready_defs addr_pass simple_op_def statement_op_def pop_expr_def ADD_STMT_def\<close>)

lemma run_return0:
  assumes "sized bc" "byte_at bc (addr bc p) = Some OP_RETURN0"
  shows "sruns prog bc p (byte_pass p) [STMT_RETURN None]"
  by (rule stmt_simple [where op = OP_RETURN0 and es = "[]" and q = p])
    (use assms in \<open>simp_all add: ready_defs addr_pass simple_op_def statement_op_def pop_expr_def ADD_STMT_def runs_refl\<close>)

section \<open>Conditionals\<close>

text \<open>Further arms, in the nested call that ends at the common end \<open>T\<close>.\<close>

definition aruns :: "Program \<Rightarrow> Bytecodes \<Rightarrow> place \<Rightarrow> place \<Rightarrow> place \<Rightarrow> Cond_Arm list \<Rightarrow> bool" where
  "aruns prog bc T p q arms \<longleftrightarrow> addr bc p \<le> addr bc q \<and>
     (addr bc q \<le> addr bc T \<longrightarrow> (\<forall>stk xs ys.
        decompile prog bc (addr bc T) (cfg (addr bc p) (addr bc p) stk xs ys) True True =
        decompile prog bc (addr bc T) (cfg (addr bc q) (addr bc q) stk xs (ys @ arms)) True True))"

lemma aruns_refl: "aruns prog bc T p p []"
  by (simp add: aruns_def)

lemma run_if:
  assumes sz: "sized bc" and c: "\<And>stk. runs prog bc p stk p1 (c # stk)"
    and c1: "coded E prog bc p1 [B OP_IF, LAB r]" and b: "sruns prog bc (label_pass (byte_pass p1)) q body"
    and c2: "coded E prog bc q [B OP_JUMP, LAB T]" and r: "r = label_pass (byte_pass q)"
    and arms: "aruns prog bc T r r' arms" and other: "sruns prog bc r' T other"
  shows "sruns prog bc p T [STMT_COND ((c, body) # arms) other]"
proof -
  let ?p = "label_pass (byte_pass p1)"
  have run: "runs prog bc p stk p1 ([c] @ stk)" for stk using c by simp
  have rd: "byte_at bc (addr bc p1) = Some OP_IF" "READ_LABEL bc (addr bc p1 + 1) = Some (addr bc r, addr bc ?p)"
    using c1 sz by (simp_all add: addr_pass)
  have le: "addr bc p1 < addr bc ?p" "addr bc ?p \<le> addr bc q" "addr bc q \<le> addr bc r" "addr bc r \<le> addr bc r'" "addr bc r' \<le> addr bc T"
    using sz b arms other r by (simp_all add: addr_pass sruns_def aruns_def)
  note body = sruns_call [OF b, of "addr bc r - (numbytes_label bc + 1)"]
  have e: "addr bc r - (numbytes_label bc + 1) = addr bc q" unfolding r by (rule jump_end [OF sz])
  have "decompile prog bc (addr bc T) (start_at (addr bc r) stk) True True =
      decompile prog bc (addr bc T) (cfg (addr bc T) (addr bc T) stk other arms) True True" for stk
    using arms other le(5) by (simp add: aruns_def sruns_def start_at_def)
  then have tail: "decompile prog bc (addr bc T) (start_at (addr bc r) stk) True True = Some (cfg (addr bc T) (addr bc T) stk other arms)" for stk
    using decompile.simps [of prog bc "addr bc T" "cfg (addr bc T) (addr bc T) stk other arms"] by simp
  have lt: "addr bc p1 < addr bc T" using le by simp
  show ?thesis
    by (rule stmt_nested [OF run rd(1) _ lt])
      (use rd(2) body e tail read_jump_coded [OF sz c2] r in \<open>simp_all add: nested_op_def if_op_def pop_expr_def ADD_STMT_def\<close>)
qed

lemma run_eif:
  assumes sz: "sized bc" and c: "\<And>stk. runs prog bc p stk p1 (c # stk)"
    and c1: "coded E prog bc p1 [B OP_EIF, LAB r]" and b: "sruns prog bc (label_pass (byte_pass p1)) q body"
    and c2: "coded E prog bc q [B OP_JUMP, LAB T]" and r: "r = label_pass (byte_pass q)" and arms: "aruns prog bc T r r' arms"
  shows "aruns prog bc T p r' ((c, body) # arms)"
proof -
  let ?p = "label_pass (byte_pass p1)"
  have rd: "byte_at bc (addr bc p1) = Some OP_EIF" "READ_LABEL bc (addr bc p1 + 1) = Some (addr bc r, addr bc ?p)"
    using c1 sz by (simp_all add: addr_pass)
  have le: "addr bc p \<le> addr bc p1" "addr bc p1 < addr bc ?p" "addr bc ?p \<le> addr bc q" "addr bc q \<le> addr bc r" "addr bc r \<le> addr bc r'"
    using sz b arms r c by (simp_all add: addr_pass sruns_def aruns_def runs_def)
  have e: "addr bc r - (numbytes_label bc + 1) = addr bc q" unfolding r by (rule jump_end [OF sz])
  have step: "decompile prog bc (addr bc T) (cfg (addr bc p) (addr bc p) stk xs ys) True True =
      decompile prog bc (addr bc T) (cfg (addr bc r) (addr bc r) stk xs (ys @ [(c, body)])) True True"
    if "addr bc r' \<le> addr bc T" for stk xs ys
  proof -
    have lt: "addr bc p1 < addr bc T" using le that by simp
    have "decompile prog bc (addr bc T) (cfg (addr bc p) (addr bc p) stk xs ys) True True =
        decompile prog bc (addr bc T) (cfg (addr bc p1) (addr bc p) (c # stk) xs ys) True True"
      using c [of stk] lt by (simp add: runs_def)
    also have "\<dots> = decompile prog bc (addr bc T) (cfg (addr bc r) (addr bc r) stk xs (ys @ [(c, body)])) True True"
      using lt rd sruns_call [OF b, of "addr bc r - (numbytes_label bc + 1)"] e read_jump_coded [OF sz c2] r
      by (simp add: decompile_nested nested_op_def eif_op_def pop_expr_def ADD_ARM_def)
    finally show ?thesis .
  qed
  show ?thesis using step arms le by (simp add: aruns_def)
qed

section \<open>Exceptions\<close>

definition heads :: "Bytecodes \<Rightarrow> Except_Arm list \<Rightarrow> place list \<Rightarrow> (int \<times> Arg_List) list" where
  "heads bc exs Ls = map2 (\<lambda>L (i, codes, body). (int (addr bc L), codes)) Ls exs"

lemma heads_simps [simp]: "heads bc [] Ls = []" "heads bc ((i, codes, body) # exs) (L # Ls) = (int (addr bc L), codes) # heads bc exs Ls"
  by (simp_all add: heads_def)

lemma pop_handlers_add:
  "pop_handlers (m + n) acc stk = do { (a, stk') \<leftarrow> pop_handlers m acc stk; pop_handlers n a stk' }"
proof (induction m arbitrary: acc stk)
  case (Suc m)
  show ?case by (simp add: Suc split: prod.split option.split bind_splits)
qed simp

lemma run_heads:
  assumes sz: "sized bc" and "enc_heads d p exs Ls C" "coded E prog bc p C"
  shows "length Ls = length exs \<and> (\<exists>es. (\<forall>stk. runs prog bc p stk (advance p C) (es @ stk)) \<and>
    (\<forall>acc stk. pop_handlers (length exs) acc (es @ stk) = Some (heads bc exs Ls @ acc, stk)))"
  using assms(2,3)
proof (induction rule: enc_heads.induct)
  case (enc_no_head d p)
  then show ?case by (simp add: runs_refl)
next
  case (enc_head d p codes C H L exs Ls D i body)
  have c: "coded E prog bc p C" "coded E prog bc (advance p C) H" "coded E prog bc (advance p (C @ H)) D" using enc_head.prems by simp_all
  obtain es where es: "\<And>stk. runs prog bc (advance p (C @ H)) stk (advance (advance p (C @ H)) D) (es @ stk)"
      "\<And>acc stk. pop_handlers (length exs) acc (es @ stk) = Some (heads bc exs Ls @ acc, stk)" "length Ls = length exs"
    using enc_head.IH [OF c(3)] by auto
  let ?y = "codes_expr codes" and ?l = "EXPR_VAR (TYPE_INT (int (addr bc L)))"
  have "runs prog bc p stk (advance p (C @ H)) (?l # ?y # stk)" for stk
    using runs_trans [OF decompile_enc(4) [OF sz enc_head.hyps(1) c(1)] run_push_label [OF sz, where E = E]] c(2) enc_head.hyps(2) by simp
  then have "runs prog bc p stk (advance p (C @ H @ D)) ((es @ [?l, ?y]) @ stk)" for stk
    using runs_trans [OF _ es(1)] by simp
  moreover have "pop_handlers (length ((i, codes, body) # exs)) acc ((es @ [?l, ?y]) @ stk) =
      Some (heads bc ((i, codes, body) # exs) (L # Ls) @ acc, stk)" for acc stk
    using pop_handlers_add [of "length exs" 1 acc "es @ ?l # ?y # stk"] es(2)
    by (simp add: pop_expr_def catch_label_def catch_codes_expr)
  ultimately show ?case using es(3) by fastforce
qed

lemma run_handler_start:
  assumes sz: "sized bc" and c: "coded E prog bc p (handler_items i)"
  shows "handler_start bc (addr bc p) = Some (i, addr bc (advance p (handler_items i)))"
proof (cases i)
  case None
  then show ?thesis using c sz by (simp add: handler_items_def handler_start_def IS_PUT_n_def addr_pass)
next
  case (Some x)
  then show ?thesis using c sz
    by (cases "x < 32") (simp_all add: handler_items_def var_items_def handler_start_def IS_PUT_n_def PUT_n_INDEX_def addr_pass)
qed

definition hruns :: "Program \<Rightarrow> Bytecodes \<Rightarrow> place \<Rightarrow> place list \<Rightarrow> place \<Rightarrow> place \<Rightarrow> Except_Arm list \<Rightarrow> bool" where
  "hruns prog bc T Ls p q exs \<longleftrightarrow> length Ls = length exs \<and> (exs \<noteq> [] \<longrightarrow> hd Ls = p) \<and> addr bc p \<le> addr bc q \<and>
     (addr bc q = addr bc T \<longrightarrow> (\<forall>stk.
        except_handlers (\<lambda>p e stk. decompile prog bc e (start_at p stk) True False) bc (addr bc T) (heads bc exs Ls) (addr bc p) stk =
        Some (exs, addr bc q, stk)))"

lemma heads_hd: "length Ls = length exs \<Longrightarrow> exs \<noteq> [] \<Longrightarrow> fst (hd (heads bc exs Ls)) = int (addr bc (hd Ls)) \<and> heads bc exs Ls \<noteq> []"
  by (cases exs; cases Ls) (auto simp: heads_def split: prod.split)

lemma heads_Nil: "heads bc exs Ls = [] \<longleftrightarrow> exs = [] \<or> Ls = []"
  by (cases exs; cases Ls) (auto simp: heads_def)

lemma run_handler:
  assumes sz: "sized bc" and c: "coded E prog bc p (handler_items i)" and q: "q = advance p (handler_items i)"
    and b: "sruns prog bc q r body" and J: "J = (if exs = [] then [] else [B OP_JUMP, LAB T])" "coded E prog bc r J"
    and h: "hruns prog bc T Ls (advance r J) r' exs"
  shows "hruns prog bc T (p # Ls) p r' ((i, codes, body) # exs)"
proof -
  note start = run_handler_start [OF sz c]
  have le: "addr bc p \<le> addr bc q" "addr bc q \<le> addr bc r" "addr bc r \<le> addr bc (advance r J)" "addr bc (advance r J) \<le> addr bc r'"
    using addr_advance [OF sz] q b h by (simp_all add: sruns_def hruns_def)
  have ex: "except_handlers (\<lambda>p e stk. decompile prog bc e (start_at p stk) True False) bc (addr bc T)
      (heads bc ((i, codes, body) # exs) (p # Ls)) (addr bc p) stk = Some ((i, codes, body) # exs, addr bc r', stk)"
    if T: "addr bc r' = addr bc T" for stk
  proof (cases exs)
    case Nil
    have "addr bc (advance r J) = addr bc r'" using h Nil T by (auto simp: hruns_def)
    then have "addr bc r = addr bc T" using J Nil T by simp
    then show ?thesis using start sruns_call [OF b, of "addr bc T"] q Nil T h by (simp add: hruns_def)
  next
    case (Cons x exs')
    have "hd Ls = advance r J" "length Ls = length exs" using h Cons by (simp_all add: hruns_def)
    moreover have jr: "advance r J = label_pass (byte_pass r)" using J Cons by simp
    ultimately have e: "nat (fst (hd (heads bc exs Ls))) - (numbytes_label bc + 1) = addr bc r" "heads bc exs Ls \<noteq> []"
      using heads_hd [of Ls exs bc] jump_end [OF sz, of r] Cons by simp_all
    have j: "read_jump bc (addr bc r) = Some (addr bc T, addr bc (advance r J))"
      using read_jump_coded [OF sz] J Cons jr by simp
    have t: "except_handlers (\<lambda>p e stk. decompile prog bc e (start_at p stk) True False) bc (addr bc T) (heads bc exs Ls)
        (addr bc (advance r J)) stk = Some (exs, addr bc r', stk)" using h T by (simp add: hruns_def)
    show ?thesis using start sruns_call [OF b, of "addr bc r"] q e j t by simp
  qed
  show ?thesis using ex le h by (simp add: hruns_def)
qed

lemma run_try_except:
  assumes sz: "sized bc" and hd: "enc_heads d p exs Ls C" "coded E prog bc p C"
    and H: "coded E prog bc (advance p C) [B OP_EXTENDED, B EOP_TRY_EXCEPT, B (length exs)]"
    and q: "q = advance (advance p C) [B OP_EXTENDED, B EOP_TRY_EXCEPT, B (length exs)]" and b: "sruns prog bc q q' body"
    and c: "coded E prog bc q' [B OP_EXTENDED, B EOP_END_EXCEPT, LAB T]" and r: "r = label_pass (byte_pass (byte_pass q'))"
    and h: "hruns prog bc T Ls r T exs"
  shows "sruns prog bc p T [STMT_TRY_EXCEPT body exs]"
proof -
  obtain es where es: "\<And>stk. runs prog bc p stk (advance p C) (es @ stk)"
      "\<And>acc stk. pop_handlers (length exs) acc (es @ stk) = Some (heads bc exs Ls @ acc, stk)"
    using run_heads [OF sz hd] by blast
  let ?a = "advance p C"
  have ad: "addr bc q = addr bc ?a + 3" "addr bc r = addr bc q' + 2 + numbytes_label bc" using q r sz by (simp_all add: addr_pass)
  have le: "addr bc q \<le> addr bc q'" "addr bc r \<le> addr bc T" using b h by (simp_all add: sruns_def hruns_def)
  have rd: "byte_at bc (addr bc ?a) = Some OP_EXTENDED" "byte_at bc (addr bc ?a + 1) = Some EOP_TRY_EXCEPT"
      "byte_at bc (addr bc ?a + 2) = Some (length exs)" using H sz by (simp_all add: addr_pass)
  have rd': "byte_at bc (addr bc q') = Some OP_EXTENDED" "byte_at bc (addr bc q' + 1) = Some EOP_END_EXCEPT"
      "READ_LABEL bc (addr bc q' + 2) = Some (addr bc T, addr bc r)" using c sz ad by (simp_all add: addr_pass)
  show ?thesis
  proof (rule stmt_eop [OF es(1) rd(1,2)])
    fix e stk xs ys
    assume e: "addr bc T \<le> e"
    have "addr bc q' < e" using le ad e by simp
    from sruns_early [OF b rd'(1,2) _ this] have "decompile prog bc e (start_at (addr bc ?a + 3) stk) True False =
        Some (cfg (addr bc q') (addr bc q') stk body [])" by (simp add: ad(1))
    then have "decompile prog bc e (start_at (Suc (addr bc ?a + 2)) stk) True False = Some (cfg (addr bc q') (addr bc q') stk body [])"
      by (simp add: numeral_3_eq_3)
    then show "nested_eop (decompile prog bc) bc e True EOP_TRY_EXCEPT (cfg (addr bc ?a + 2) (addr bc p) (es @ stk) xs ys) =
        Some (cfg (addr bc T) (addr bc T) stk (xs @ [STMT_TRY_EXCEPT body exs]) ys)"
      using rd(3) rd' es(2) h by (simp add: nested_eop_def try_except_op_def ADD_STMT_def hruns_def del: add_2_eq_Suc')
  qed (use le ad in simp_all)
qed

lemma run_try_finally:
  assumes sz: "sized bc" and c: "coded E prog bc p [B OP_EXTENDED, B EOP_TRY_FINALLY, LAB r]"
    and b: "sruns prog bc (label_pass (byte_pass (byte_pass p))) q body"
    and c': "coded E prog bc q [B OP_EXTENDED, B EOP_END_FINALLY]" and r: "r = byte_pass (byte_pass q)"
    and h: "sruns prog bc r q' handler" and c'': "coded E prog bc q' [B OP_EXTENDED, B EOP_CONTINUE]"
  shows "sruns prog bc p (byte_pass (byte_pass q')) [STMT_TRY_FINALLY body handler]"
proof -
  let ?p = "label_pass (byte_pass (byte_pass p))" and ?T = "byte_pass (byte_pass q')"
  have ad: "addr bc ?p = addr bc p + 2 + numbytes_label bc" "addr bc r = addr bc q + 2" "addr bc ?T = addr bc q' + 2"
    using sz r by (simp_all add: addr_pass)
  have le: "addr bc ?p \<le> addr bc q" "addr bc r \<le> addr bc q'" using b h by (simp_all add: sruns_def)
  have rd: "byte_at bc (addr bc p) = Some OP_EXTENDED" "byte_at bc (addr bc p + 1) = Some EOP_TRY_FINALLY"
      "READ_LABEL bc (addr bc p + 2) = Some (addr bc r, addr bc ?p)"
      "byte_at bc (addr bc q) = Some OP_EXTENDED" "byte_at bc (addr bc q + 1) = Some EOP_END_FINALLY"
      "byte_at bc (addr bc q') = Some OP_EXTENDED" "byte_at bc (addr bc q' + 1) = Some EOP_CONTINUE"
    using c c' c'' sz by (simp_all add: addr_pass)
  have run: "runs prog bc p stk p ([] @ stk)" for stk by (simp add: runs_refl)
  show ?thesis
  proof (rule stmt_eop [OF run rd(1,2)])
    fix e stk xs ys
    assume e: "addr bc ?T \<le> e"
    have lt: "addr bc q < e" "addr bc q' < e" using le ad e by simp_all
    note d = sruns_early [OF b rd(4,5) _ lt(1)] sruns_early [OF h rd(6,7) _ lt(2)]
    show "nested_eop (decompile prog bc) bc e True EOP_TRY_FINALLY (cfg (addr bc p + 2) (addr bc p) ([] @ stk) xs ys) =
        Some (cfg (addr bc ?T) (addr bc ?T) stk (xs @ [STMT_TRY_FINALLY body handler]) ys)"
      using d rd ad(2,3) by (simp add: nested_eop_def try_finally_op_def ADD_STMT_def)
  qed (use le ad in simp_all)
qed

section \<open>Forks\<close>

text \<open>What a fork vector must do.\<close>

definition yields :: "Program \<Rightarrow> Bytecodes \<Rightarrow> Stmt list \<Rightarrow> bool" where
  "yields prog bc zs \<longleftrightarrow>
     (\<forall>stk. \<exists>r. decompile prog bc (bc_size bc) (start_at 0 stk) True False = Some r \<and> d_stmts r = zs \<and> d_stack r = stk)"

lemma decompile_fork:
  assumes "d_ptr st < e" "byte_at bc (d_ptr st) = Some op" "op = OP_FORK \<or> op = OP_FORK_WITH_ID"
  shows "decompile prog bc e st ss as =
    do {
      (t, stk) \<leftarrow> pop_expr (d_stack st);
      (fbc, p) \<leftarrow> READ_FORK prog bc (d_ptr st + 1);
      (x, p) \<leftarrow> (if op = OP_FORK then Some (None, p) else map_option (map_prod Some (\<lambda>p. p)) (READ_ID bc p));
      r \<leftarrow> decompile prog fbc (bc_size fbc) (start_at 0 stk) True False;
      st \<leftarrow> ADD_STMT ss (STMT_FORK x t (d_stmts r)) (st\<lparr>d_ptr := p, d_stack := d_stack r\<rparr>);
      decompile prog bc e st ss as
    }"
proof -
  have "\<not> ready op" using assms(3) by (auto simp: ready_defs)
  then show ?thesis using assms by (subst decompile.simps) (auto simp: ready_def Let_def)
qed

lemma run_fork:
  assumes sz: "sized bc" and E: "\<And>fbc zs. E fbc zs \<Longrightarrow> yields prog fbc zs"
    and t: "\<And>stk. runs prog bc p stk q (t # stk)" and c: "coded E prog bc q (fork_items x body)"
  shows "sruns prog bc p (advance q (fork_items x body)) [STMT_FORK x t body]"
proof -
  let ?r = "advance q (fork_items x body)"
  define op where "op = (if x = None then OP_FORK else OP_FORK_WITH_ID)"
  have op: "byte_at bc (addr bc q) = Some op" using c by (cases x) (simp_all add: fork_items_def op_def)
  obtain fbc where f: "READ_FORK prog bc (addr bc q + 1) = Some (fbc, addr bc q + 1 + numbytes_fork bc)" "yields prog fbc body"
    using c E sz by (cases x) (auto simp: fork_items_def addr_pass)
  have x: "(if op = OP_FORK then Some (None, p) else map_option (map_prod Some (\<lambda>p. p)) (READ_ID bc p)) = Some (x, addr bc ?r)"
    if "p = addr bc q + 1 + numbytes_fork bc" for p
    using c sz that by (cases x) (simp_all add: fork_items_def op_def addr_pass)
  have lt: "addr bc q < addr bc ?r" using sz by (cases x) (simp_all add: fork_items_def addr_pass)
  have run: "runs prog bc p stk q ([t] @ stk)" for stk using t by simp
  show ?thesis
  proof (rule stmt_after [OF run lt])
    fix e stk xs ys as
    assume e: "addr bc ?r \<le> e"
    obtain r where "decompile prog fbc (bc_size fbc) (start_at 0 stk) True False = Some r" "d_stmts r = body" "d_stack r = stk"
      using f(2) by (auto simp: yields_def)
    then show "decompile prog bc e (cfg (addr bc q) (addr bc p) ([t] @ stk) xs ys) True as =
        decompile prog bc e (cfg (addr bc ?r) (addr bc ?r) stk (xs @ [STMT_FORK x t body]) ys) True as"
      using decompile_fork [of "cfg (addr bc q) (addr bc p) ([t] @ stk) xs ys" e bc op] e lt op f(1) x
      by (simp add: op_def pop_expr_def ADD_STMT_def)
  qed
qed

section \<open>Statements\<close>

text \<open>The loops around a piece of code begin before it and end behind it.\<close>

definition around :: "Bytecodes \<Rightarrow> loop_env \<Rightarrow> place \<Rightarrow> place \<Rightarrow> bool" where
  "around bc env p q \<longleftrightarrow> (\<forall>(i, t, ts, b, bs) \<in> set env. addr bc t \<le> addr bc p \<and> addr bc q \<le> addr bc b)"

lemma around_mono: "around bc env p q \<Longrightarrow> addr bc p \<le> addr bc p' \<Longrightarrow> addr bc q' \<le> addr bc q \<Longrightarrow> around bc env p' q'"
  by (fastforce simp: around_def)

lemma around_loop:
  assumes "sized bc" "around bc env p T" "addr bc p \<le> addr bc q" "addr bc t \<le> addr bc q" "T = label_pass (byte_pass r)"
  shows "around bc ((x, t, ts, T, bs) # env) q r"
  using assms by (fastforce simp: around_def addr_pass)

lemma around_exit:
  assumes "around bc env p q" "exit_loop_of x env = Some (i, t, ts, b, bs)"
  shows "addr bc t \<le> addr bc p" "addr bc q \<le> addr bc b"
proof -
  have "(i, t, ts, b, bs) \<in> set env" using assms(2)
    by (auto simp: exit_loop_of_def find_Some_iff split: option.splits list.splits)
  then show "addr bc t \<le> addr bc p" "addr bc q \<le> addr bc b" using assms(1) by (auto simp: around_def)
qed

lemma sruns_enc:
  assumes sz: "sized bc" and E: "\<And>fbc zs. E fbc zs \<Longrightarrow> yields prog fbc zs"
  shows "enc_stmts env d p xs C \<Longrightarrow> coded E prog bc p C \<Longrightarrow> around bc env p (advance p C) \<Longrightarrow> sruns prog bc p (advance p C) xs"
    and "enc_stmt env d p x C \<Longrightarrow> coded E prog bc p C \<Longrightarrow> around bc env p (advance p C) \<Longrightarrow> sruns prog bc p (advance p C) [x]"
    and "enc_arms env d first p arms T C \<Longrightarrow> coded E prog bc p C \<Longrightarrow> around bc env p (advance p C) \<Longrightarrow>
      (if first then arms \<noteq> [] \<longrightarrow> (\<forall>other. sruns prog bc (advance p C) T other \<longrightarrow> sruns prog bc p T [STMT_COND arms other])
       else aruns prog bc T p (advance p C) arms)"
    and "enc_handlers env d p exs Ls T C \<Longrightarrow> coded E prog bc p C \<Longrightarrow> around bc env p (advance p C) \<Longrightarrow> hruns prog bc T Ls p (advance p C) exs"
proof (induction rule: enc_stmts_enc_stmt_enc_arms_enc_handlers.inducts)
  case (enc_nil env d p)
  then show ?case by (simp add: sruns_refl)
next
  case (enc_cons env d p x C xs D)
  have "around bc env p (advance p C)" "around bc env (advance p C) (advance (advance p C) D)"
    using around_mono [OF enc_cons.prems(2)] addr_advance [OF sz] by simp_all
  then show ?case using sruns_trans [OF enc_cons.IH(1,2)] enc_cons.prems(1) by simp
next
  case (enc_if arms env d p T C other D)
  have "around bc env p (advance p C)" "around bc env (advance p C) (advance (advance p C) D)"
    using around_mono [OF enc_if.prems(2)] addr_advance [OF sz] by simp_all
  then show ?case using enc_if by simp
next
  case (enc_for_list d p e C t q i T env body D)
  have fin: "advance p (C @ [B (OPTIM_NUM_TO_OPCODE 1), B OP_FOR_LIST, VAR i, LAB T] @ D @ [B OP_JUMP, LAB t]) = T"
    using enc_for_list.hyps by simp
  have c: "coded E prog bc p C" "byte_at bc (addr bc (advance p C)) = Some (OPTIM_NUM_TO_OPCODE 1)"
      "coded E prog bc t [B OP_FOR_LIST, VAR i, LAB T]" "coded E prog bc q D" "coded E prog bc (advance q D) [B OP_JUMP, LAB t]"
    using enc_for_list.prems(1) enc_for_list.hyps by simp_all
  have le: "addr bc p \<le> addr bc q" "addr bc t \<le> addr bc q"
    using addr_advance [OF sz, of p C] enc_for_list.hyps sz by (simp_all add: addr_pass)
  have body: "sruns prog bc q (advance q D) body"
    by (rule enc_for_list.IH [OF c(4) around_loop [OF sz _ le]]) (use enc_for_list.prems(2) fin enc_for_list.hyps in simp_all)
  show ?case unfolding fin
    by (rule run_for_list [OF sz decompile_enc(1) [OF sz enc_for_list.hyps(1) c(1)] c(2) enc_for_list.hyps(2) c(3) enc_for_list.hyps(3) body c(5)])
      (use enc_for_list.hyps in simp)
next
  case (enc_for_range d p a C b D t q i T env body E')
  have fin: "advance p (C @ D @ [B OP_FOR_RANGE, VAR i, LAB T] @ E' @ [B OP_JUMP, LAB t]) = T" using enc_for_range.hyps by simp
  have c: "coded E prog bc p C" "coded E prog bc (advance p C) D"
      "coded E prog bc t [B OP_FOR_RANGE, VAR i, LAB T]" "coded E prog bc q E'" "coded E prog bc (advance q E') [B OP_JUMP, LAB t]"
    using enc_for_range.prems(1) enc_for_range.hyps by simp_all
  have le: "addr bc p \<le> addr bc q" "addr bc t \<le> addr bc q"
    using addr_advance [OF sz, of p "C @ D"] enc_for_range.hyps sz by (simp_all add: addr_pass)
  have body: "sruns prog bc q (advance q E') body"
    by (rule enc_for_range.IH [OF c(4) around_loop [OF sz _ le]]) (use enc_for_range.prems(2) fin enc_for_range.hyps in simp_all)
  have run: "runs prog bc p stk t (b # a # stk)" for stk
    using runs_trans [OF decompile_enc(1) [OF sz enc_for_range.hyps(1) c(1)] decompile_enc(1) [OF sz enc_for_range.hyps(2) c(2)]]
      enc_for_range.hyps by simp
  show ?case unfolding fin
    by (rule run_for_range [OF sz run c(3) enc_for_range.hyps(4) body c(5)]) (use enc_for_range.hyps in simp)
next
  case (enc_while d p w C q x T env body D)
  have fin: "advance p (C @ while_items x @ [LAB T] @ D @ [B OP_JUMP, LAB p]) = T" using enc_while.hyps by simp
  have c: "coded E prog bc p C" "coded E prog bc (advance p C) (while_items x @ [LAB T])" "coded E prog bc q D"
      "coded E prog bc (advance q D) [B OP_JUMP, LAB p]"
    using enc_while.prems(1) enc_while.hyps by simp_all
  have le: "addr bc p \<le> addr bc q"
    using addr_advance [OF sz, of p "C @ while_items x"] enc_while.hyps sz by (simp add: addr_pass)
  have body: "sruns prog bc q (advance q D) body"
    by (rule enc_while.IH [OF c(3) around_loop [OF sz _ le le]]) (use enc_while.prems(2) fin enc_while.hyps in simp_all)
  show ?case unfolding fin
    by (rule run_while [OF sz decompile_enc(1) [OF sz enc_while.hyps(1) c(1)] c(2) enc_while.hyps(2) body c(4)]) (use enc_while.hyps in simp)
next
  case (enc_fork d p e C env x body)
  have c: "coded E prog bc p C" "coded E prog bc (advance p C) (fork_items x body)" using enc_fork.prems(1) by simp_all
  show ?case using run_fork [OF sz E decompile_enc(1) [OF sz enc_fork.hyps(1) c(1)] c(2)] by simp
next
  case (enc_expr_stmt d p e C env)
  have c: "coded E prog bc p C" "byte_at bc (addr bc (advance p C)) = Some OP_POP" using enc_expr_stmt.prems(1) by simp_all
  show ?case using run_pop [OF sz decompile_enc(1) [OF sz enc_expr_stmt.hyps(1) c(1)] c(2)] by simp
next
  case (enc_return d p e C env)
  have c: "coded E prog bc p C" "byte_at bc (addr bc (advance p C)) = Some OP_RETURN" using enc_return.prems(1) by simp_all
  show ?case using run_return [OF sz decompile_enc(1) [OF sz enc_return.hyps(1) c(1)] c(2)] by simp
next
  case (enc_return0 env d p)
  then show ?case using run_return0 [OF sz] by simp
next
  case (enc_try_except d p exs Ls C H q env body D r T E')
  have fin: "advance p (C @ H @ D @ [B OP_EXTENDED, B EOP_END_EXCEPT, LAB T] @ E') = T" using enc_try_except.hyps by simp
  have c: "coded E prog bc p C" "coded E prog bc (advance p C) [B OP_EXTENDED, B EOP_TRY_EXCEPT, B (length exs)]" "coded E prog bc q D"
      "coded E prog bc (advance q D) [B OP_EXTENDED, B EOP_END_EXCEPT, LAB T]" "coded E prog bc r E'"
    using enc_try_except.prems(1) enc_try_except.hyps by simp_all
  have le: "addr bc p \<le> addr bc q" "addr bc q \<le> addr bc (advance q D)" "addr bc (advance q D) \<le> addr bc r" "addr bc r \<le> addr bc T"
    using addr_advance [OF sz, of p "C @ H"] addr_advance [OF sz, of q D] addr_advance [OF sz, of r E'] enc_try_except.hyps sz
    by (simp_all add: addr_pass)
  have ar: "around bc env q (advance q D)" "around bc env r (advance r E')"
    using enc_try_except.prems(2) le enc_try_except.hyps unfolding fin by (auto intro: around_mono)
  have q: "q = advance (advance p C) [B OP_EXTENDED, B EOP_TRY_EXCEPT, B (length exs)]" using enc_try_except.hyps by simp
  have h: "hruns prog bc T Ls r T exs" using enc_try_except.IH(2) [OF c(5) ar(2)] enc_try_except.hyps by simp
  show ?case unfolding fin
    by (rule run_try_except [OF sz enc_try_except.hyps(1) c(1,2) q enc_try_except.IH(1) [OF c(3) ar(1)] c(4) enc_try_except.hyps(5) h])
next
  case (enc_try_finally q p env d body C r handler D)
  let ?q' = "advance r D"
  have fin: "advance p ([B OP_EXTENDED, B EOP_TRY_FINALLY, LAB r] @ C @ [B OP_EXTENDED, B EOP_END_FINALLY] @ D @ [B OP_EXTENDED, B EOP_CONTINUE]) =
      byte_pass (byte_pass ?q')" using enc_try_finally.hyps by simp
  have c: "coded E prog bc p [B OP_EXTENDED, B EOP_TRY_FINALLY, LAB r]" "coded E prog bc q C"
      "coded E prog bc (advance q C) [B OP_EXTENDED, B EOP_END_FINALLY]" "coded E prog bc r D" "coded E prog bc ?q' [B OP_EXTENDED, B EOP_CONTINUE]"
    using enc_try_finally.prems(1) enc_try_finally.hyps by simp_all
  have le: "addr bc p \<le> addr bc q" "addr bc q \<le> addr bc (advance q C)" "addr bc (advance q C) \<le> addr bc r"
      "addr bc r \<le> addr bc ?q'" "addr bc ?q' \<le> addr bc (byte_pass (byte_pass ?q'))"
    using addr_advance [OF sz, of q C] addr_advance [OF sz, of r D] enc_try_finally.hyps sz by (simp_all add: addr_pass)
  have ar: "around bc env q (advance q C)" "around bc env r ?q'"
    using enc_try_finally.prems(2) le unfolding fin by (auto intro: around_mono)
  show ?case unfolding fin
    using run_try_finally [OF sz c(1) _ c(3) enc_try_finally.hyps(3) enc_try_finally.IH(2) [OF c(4) ar(2)] c(5)]
      enc_try_finally.IH(1) [OF c(2) ar(1)] enc_try_finally.hyps(1) by simp
next
  case (enc_break x env i t ts b bs d p)
  let ?q = "advance p (exit_items x @ [STK bs, LAB b])"
  have "\<not> addr bc b < addr bc ?q" using around_exit(2) [OF enc_break.prems(2) enc_break.hyps] by simp
  then show ?case using run_exit [OF sz enc_break.prems(1) refl] by simp
next
  case (enc_continue x env i t ts b bs d p)
  let ?q = "advance p (exit_items x @ [STK ts, LAB t])"
  have "addr bc p < addr bc ?q" using addr_advance [OF sz, of p "exit_items x"] sz by (simp add: addr_pass)
  then have "addr bc t < addr bc ?q" using around_exit(1) [OF enc_continue.prems(2) enc_continue.hyps] by simp
  then show ?case using run_exit [OF sz enc_continue.prems(1) refl] by simp
next
  case (enc_no_arm env d first p T)
  then show ?case by (simp add: aruns_refl)
next
  case (enc_arm d p w C q env body D r arms T E' first)
  have c: "coded E prog bc p C" "coded E prog bc (advance p C) [B (if first then OP_IF else OP_EIF), LAB r]" "coded E prog bc q D"
      "coded E prog bc (advance q D) [B OP_JUMP, LAB T]" "coded E prog bc r E'"
    using enc_arm.prems(1) enc_arm.hyps by simp_all
  have fin: "advance p (C @ [B (if first then OP_IF else OP_EIF), LAB r] @ D @ [B OP_JUMP, LAB T] @ E') = advance r E'" using enc_arm.hyps by simp
  have le: "addr bc p \<le> addr bc q" "addr bc q \<le> addr bc (advance q D)" "addr bc (advance q D) \<le> addr bc r" "addr bc r \<le> addr bc (advance r E')"
    using addr_advance [OF sz, of p C] addr_advance [OF sz, of q D] addr_advance [OF sz, of r E'] enc_arm.hyps sz by (simp_all add: addr_pass)
  have ar: "around bc env q (advance q D)" "around bc env r (advance r E')"
    using enc_arm.prems(2) le unfolding fin by (auto intro: around_mono)
  note run = decompile_enc(1) [OF sz enc_arm.hyps(1) c(1)]
  have body: "sruns prog bc (label_pass (byte_pass (advance p C))) (advance q D) body"
    using enc_arm.IH(1) [OF c(3) ar(1)] enc_arm.hyps by simp
  have rest: "aruns prog bc T r (advance r E') arms" using enc_arm.IH(2) [OF c(5) ar(2)] by simp
  show ?case unfolding fin
    using run_if [OF sz run _ body c(4) enc_arm.hyps(4) rest] run_eif [OF sz run _ body c(4) enc_arm.hyps(4) rest] c(2)
    by (cases first) (simp_all split del: if_split)
next
  case (enc_no_handler env d p T)
  then show ?case by (simp add: hruns_def)
next
  case (enc_handler q p i env d body C J exs T Ls D codes)
  let ?r = "advance q C"
  have c: "coded E prog bc p (handler_items i)" "coded E prog bc q C" "coded E prog bc ?r J" "coded E prog bc (advance ?r J) D"
    using enc_handler.prems(1) enc_handler.hyps by simp_all
  have fin: "advance p (handler_items i @ C @ J @ D) = advance (advance ?r J) D" using enc_handler.hyps by simp
  have le: "addr bc p \<le> addr bc q" "addr bc q \<le> addr bc ?r" "addr bc ?r \<le> addr bc (advance ?r J)"
      "addr bc (advance ?r J) \<le> addr bc (advance (advance ?r J) D)"
    using addr_advance [OF sz, of p "handler_items i"] addr_advance [OF sz] enc_handler.hyps by simp_all
  have ar: "around bc env q ?r" "around bc env (advance ?r J) (advance (advance ?r J) D)"
    using enc_handler.prems(2) le unfolding fin by (auto intro: around_mono)
  have rest: "hruns prog bc T Ls (advance ?r J) (advance (advance ?r J) D) exs" using enc_handler.IH(2) c(4) ar(2) by simp
  show ?case unfolding fin
    by (rule run_handler [OF sz c(1) enc_handler.hyps(1) enc_handler.IH(1) [OF c(2) ar(1)] enc_handler.hyps(3) c(3) rest])
qed

section \<open>Whole vectors\<close>

lemma coded_mono [mono]:
  "(\<And>b zs. E b zs \<longrightarrow> E' b zs) \<Longrightarrow> coded E prog bc p C \<longrightarrow> coded E' prog bc p C"
proof (induction C arbitrary: p)
  case (Cons i C)
  then show ?case by (cases i) auto
qed simp

inductive encoded :: "Program \<Rightarrow> Bytecodes \<Rightarrow> Stmt list \<Rightarrow> bool" for prog where
  "sized bc \<Longrightarrow> enc_stmts [] 0 origin zs C \<Longrightarrow> coded (encoded prog) prog bc origin (C @ [B OP_DONE]) \<Longrightarrow>
    bc_size bc = addr bc (advance origin (C @ [B OP_DONE])) \<Longrightarrow> encoded prog bc zs"

lemma addr_origin: "addr bc origin = 0"
  by (simp add: addr_def origin_def)

lemma decompile_encoded: "encoded prog bc zs \<Longrightarrow> yields prog bc zs"
proof (induction rule: encoded.induct)
  case (1 bc zs C)
  let ?E = "\<lambda>b z. encoded prog b z \<and> yields prog b z" and ?q = "advance origin C"
  have c: "coded ?E prog bc origin C" "byte_at bc (addr bc ?q) = Some OP_DONE" using 1(4) by simp_all
  have run: "sruns prog bc origin ?q zs"
    by (rule sruns_enc(1) [OF 1(1) _ 1(2) c(1)]) (simp_all add: around_def)
  have sz: "bc_size bc = addr bc ?q + 1" using 1(1,3) by (simp add: addr_pass)
  have "decompile prog bc (bc_size bc) (start_at 0 stk) True False = Some (cfg (bc_size bc) (addr bc ?q) stk zs [])" for stk
  proof -
    have "decompile prog bc (bc_size bc) (start_at 0 stk) True False =
        decompile prog bc (bc_size bc) (cfg (addr bc ?q) (addr bc ?q) stk zs []) True False"
      using run sz by (simp add: sruns_def start_at_def addr_origin)
    also have "\<dots> = decompile prog bc (bc_size bc) (cfg (bc_size bc) (addr bc ?q) stk zs []) True False"
      using decompile_simple [of "cfg (addr bc ?q) (addr bc ?q) stk zs []" "bc_size bc" bc OP_DONE] c(2) sz
      by (simp add: ready_defs simple_op_def)
    also have "\<dots> = Some (cfg (bc_size bc) (addr bc ?q) stk zs [])"
      using decompile.simps [of prog bc "bc_size bc" "cfg (bc_size bc) (addr bc ?q) stk zs []"] by simp
    finally show ?thesis .
  qed
  then show ?case by (simp add: yields_def)
qed

end
