(* ===== verification/Code_Gen_Laws.thy ===== *)
theory Code_Gen_Laws
  imports Code_Gen Decompile_Stmts
begin

text \<open>
  The compiler emits the code sequences. The bytes and fixups of a state stand for a list of items; \<open>ok\<close>
  relates them, leaving out the labels that are still to be defined, and \<open>emits\<close> says what a piece of
  the compiler adds to the items of whatever state it starts in.
\<close>

section \<open>States and items\<close>

definition place_of :: "state \<Rightarrow> place" where
  "place_of st = \<lparr>at_item = length (bytes st), at_lits = num_literals st, at_forks = num_forks st,
     at_vars = num_var_refs st, at_labels = num_labels st\<rparr>"

lemma place_of_upd [simp]:
  "place_of (st\<lparr>cur_stack := d\<rparr>) = place_of st" "place_of (st\<lparr>max_stack := d\<rparr>) = place_of st" "place_of (st\<lparr>saved_stack := s\<rparr>) = place_of st"
  "place_of (st\<lparr>loops := ls\<rparr>) = place_of st" "place_of (st\<lparr>fixups := fx\<rparr>) = place_of st" "place_of (st\<lparr>gs := g\<rparr>) = place_of st"
  "place_of (st\<lparr>max_literal := m\<rparr>) = place_of st" "place_of (st\<lparr>max_fork := m\<rparr>) = place_of st" "place_of (st\<lparr>max_var_ref := m\<rparr>) = place_of st"
  by (simp_all add: place_of_def)

definition place_le :: "place \<Rightarrow> place \<Rightarrow> bool" where
  "place_le p q \<longleftrightarrow> at_item p \<le> at_item q \<and> at_lits p \<le> at_lits q \<and> at_forks p \<le> at_forks q \<and>
     at_vars p \<le> at_vars q \<and> at_labels p \<le> at_labels q"

lemma place_le_refl: "place_le p p"
  by (simp add: place_le_def)

lemma place_le_pass: "place_le p q \<Longrightarrow> place_le p (pass q i)"
  by (cases i) (auto simp: place_le_def pass.simps label_pass_def byte_pass_def)

lemma place_le_advance: "place_le p q \<Longrightarrow> place_le p (advance q C)"
  by (induction C arbitrary: q) (simp_all add: place_le_pass)

fun item_byte :: "item \<Rightarrow> Byte" where
  "item_byte (B b) = b"
| "item_byte _ = 0"

fun is_ref :: "item \<Rightarrow> bool" where
  "is_ref (B b) = False"
| "is_ref _ = True"

abbreviation refs :: "item list \<Rightarrow> item list" where
  "refs C \<equiv> filter is_ref C"

fun ref_pcs :: "nat \<Rightarrow> item list \<Rightarrow> nat list" where
  "ref_pcs n [] = []"
| "ref_pcs n (i # C) = (if is_ref i then n # ref_pcs (Suc n) C else ref_pcs (Suc n) C)"

lemma ref_pcs_append: "ref_pcs n (C @ D) = ref_pcs n C @ ref_pcs (n + length C) D"
  by (induction C arbitrary: n) auto

lemma ref_pcs_length: "length (ref_pcs n C) = length (refs C)"
  by (induction C arbitrary: n) auto

text \<open>The program a state has tables for, and tables that grow.\<close>

definition tables :: "gstate \<Rightarrow> Program" where
  "tables g = \<lparr>main_vector = \<lparr>numbytes_label = 0, numbytes_literal = 0, numbytes_fork = 0, numbytes_var_name = 0, numbytes_stack = 0,
     vector = [], bc_size = 0, bc_max_stack = 0\<rparr>, literals = g_literals g, fork_vectors = g_fork_vectors g\<rparr>"

definition grows :: "gstate \<Rightarrow> gstate \<Rightarrow> bool" where
  "grows g g' \<longleftrightarrow> prefix (g_literals g) (g_literals g') \<and> prefix (g_fork_vectors g) (g_fork_vectors g')"

lemma grows_refl: "grows g g"
  by (simp add: grows_def)

lemma grows_trans: "grows g g' \<Longrightarrow> grows g' g'' \<Longrightarrow> grows g g''"
  by (auto simp: grows_def intro: prefix_order.trans)

definition small_tables :: "gstate \<Rightarrow> bool" where
  "small_tables g \<longleftrightarrow> length (g_literals g) < 2 ^ 32 \<and> length (g_fork_vectors g) < 2 ^ 32 \<and>
     list_all (\<lambda>bc. bc_size bc < 2 ^ 32) (g_fork_vectors g)"

lemma small_tables_grows: "grows g g' \<Longrightarrow> small_tables g' \<Longrightarrow> small_tables g"
  by (auto simp: grows_def small_tables_def prefix_def)

definition fork_ok :: "gstate \<Rightarrow> Stmt list \<Rightarrow> Bytecodes \<Rightarrow> bool" where
  "fork_ok g zs bc \<longleftrightarrow> (small_tables g \<longrightarrow> encoded (tables g) bc zs)"

text \<open>A larger program still holds what it held.\<close>

definition extends :: "Program \<Rightarrow> Program \<Rightarrow> bool" where
  "extends P Q \<longleftrightarrow> prefix (literals P) (literals Q) \<and> prefix (fork_vectors P) (fork_vectors Q)"

lemma coded_extends:
  assumes "extends P Q"
  shows "coded E P bc p C \<Longrightarrow> coded E Q bc p C"
proof (induction C arbitrary: p)
  case (Cons i C)
  have "item_at E Q bc p i" if "item_at E P bc p i"
    using that assms by (cases i) (auto simp: extends_def prefix_def READ_LITERAL_def READ_FORK_def bind_eq_Some_conv nth_append split: if_splits)
  then show ?case using Cons by simp
qed simp

lemma encoded_extends:
  assumes "extends P Q"
  shows "encoded P bc zs \<Longrightarrow> encoded Q bc zs"
proof (induction rule: encoded.induct)
  case (1 bc zs C)
  have "coded (encoded Q) P bc origin (C @ [B OP_DONE])"
    by (rule mp [OF coded_mono 1(4)]) simp
  then show ?case using 1(1-3) encoded.intros coded_extends [OF assms] by blast
qed

lemma fork_ok_grows: "grows g g' \<Longrightarrow> fork_ok g zs bc \<Longrightarrow> fork_ok g' zs bc"
  using small_tables_grows encoded_extends [of "tables g" "tables g'"] by (auto simp: fork_ok_def grows_def extends_def tables_def)

section \<open>Fixups and items\<close>

definition label_fixup :: "fixup \<Rightarrow> place \<Rightarrow> bool" where
  "label_fixup f q \<longleftrightarrow> kind f = FIXUP_LABEL \<and> fvalue f = at_item q \<and> prev_literals f = at_lits q \<and> prev_forks f = at_forks q \<and>
     prev_var_refs f = at_vars q \<and> prev_labels f = at_labels q \<and> prev_stacks f = 0"

fun fix_rel :: "gstate \<Rightarrow> place \<Rightarrow> item \<Rightarrow> fixup \<Rightarrow> bool" where
  "fix_rel g p (B b) f \<longleftrightarrow> False"
| "fix_rel g p (LIT v) f \<longleftrightarrow> kind f = FIXUP_LITERAL \<and> fvalue f < length (g_literals g) \<and> g_literals g ! fvalue f = v"
| "fix_rel g p (FORK zs) f \<longleftrightarrow> kind f = FIXUP_FORK \<and> fvalue f < length (g_fork_vectors g) \<and> fork_ok g zs (g_fork_vectors g ! fvalue f)"
| "fix_rel g p (VAR x) f \<longleftrightarrow> kind f = FIXUP_VAR_REF \<and> fvalue f = x \<and> x < MAX_VARS"
| "fix_rel g p (STK n) f \<longleftrightarrow> kind f = FIXUP_STACK"
| "fix_rel g p (LAB q) f \<longleftrightarrow> label_fixup f q \<and> place_le q p"
| "fix_rel g p (PSEUDO n) f \<longleftrightarrow> label_fixup f (origin\<lparr>at_item := n\<rparr>) \<and> n < 2"

lemma fix_rel_grows:
  assumes "fix_rel g p i f" "grows g g'"
  shows "fix_rel g' (advance p C) i f"
  using assms fork_ok_grows [OF assms(2)]
  by (cases i) (auto simp: grows_def prefix_def nth_append place_le_advance)

text \<open>\<open>H\<close> are the numbers of the labels that have not been defined.\<close>

definition fits :: "nat set \<Rightarrow> gstate \<Rightarrow> place \<Rightarrow> item list \<Rightarrow> fixup list \<Rightarrow> bool" where
  "fits H g p rs fs \<longleftrightarrow> length rs = length fs \<and> H \<subseteq> {..<length fs} \<and>
     (\<forall>j < length fs. if j \<in> H then kind (fs ! j) = FIXUP_LABEL \<and> prev_stacks (fs ! j) = 0 \<and> (\<exists>q. rs ! j = LAB q)
        else fix_rel g p (rs ! j) (fs ! j))"

definition ok :: "nat set \<Rightarrow> nat \<Rightarrow> nat option \<Rightarrow> item list \<Rightarrow> state \<Rightarrow> bool" where
  "ok H d s C st \<longleftrightarrow> bytes st = map item_byte C \<and> place_of st = advance origin C \<and> num_stacks st = 0 \<and>
     map pc (fixups st) = ref_pcs 0 C \<and> fits H (gs st) (advance origin C) (refs C) (fixups st) \<and>
     cur_stack st = d \<and> saved_stack st = s \<and> max_stack st \<le> MAX_DEPTH \<and> (\<forall>v \<in> set (g_literals (gs st)). wf_literal v)"

lemma fits_snoc:
  assumes "fits H g p rs fs" "grows g g'" "fix_rel g' (pass p i) i f"
  shows "fits H g' (pass p i) (rs @ [i]) (fs @ [f])"
  using assms fix_rel_grows [OF _ assms(2), of p _ _ "[i]"] by (auto simp: fits_def nth_append less_Suc_eq)

lemma fits_hole:
  assumes "fits H g p rs fs" "grows g g'" "kind f = FIXUP_LABEL" "prev_stacks f = 0"
  shows "fits (insert (length fs) H) g' (pass p (LAB q)) (rs @ [LAB q]) (fs @ [f])"
  using assms fix_rel_grows [OF _ assms(2), of p _ _ "[LAB q]"] by (auto simp: fits_def nth_append less_Suc_eq)

lemma fits_same:
  assumes "fits H g p rs fs" "grows g g'"
  shows "fits H g' (pass p i) rs fs"
  using assms fix_rel_grows [OF _ assms(2), of p _ _ "[i]"] by (auto simp: fits_def)

section \<open>What a piece of the compiler emits\<close>

text \<open>From a state at depth \<open>d\<close> to one at depth \<open>d'\<close>, adding the items \<open>C\<close> of which the labels \<open>K\<close> are
  undefined; the links of earlier fixups stay.\<close>

definition emits :: "nat \<Rightarrow> nat option \<Rightarrow> state \<Rightarrow> item list \<Rightarrow> nat set \<Rightarrow> nat \<Rightarrow> nat option \<Rightarrow> state \<Rightarrow> bool" where
  "emits d s st C K d' s' st' \<longleftrightarrow> prefix (map fnext (fixups st)) (map fnext (fixups st')) \<and>
     K \<subseteq> {length (fixups st)..<length (fixups st')} \<and> grows (gs st) (gs st') \<and>
     (\<forall>H C0. ok H d s C0 st \<longrightarrow> ok (H \<union> K) d' s' (C0 @ C) st')"

definition live :: "nat \<Rightarrow> nat option \<Rightarrow> state \<Rightarrow> bool" where
  "live d s st \<longleftrightarrow> (\<exists>H C. ok H d s C st)"

lemma emits_refl: "emits d s st [] {} d s st"
  by (simp add: emits_def grows_refl)

lemma emits_trans:
  assumes "emits d s st C K d' s' st'" "emits d' s' st' D L d'' s'' st''"
  shows "emits d s st (C @ D) (K \<union> L) d'' s'' st''"
proof -
  have "prefix (map fnext (fixups st)) (map fnext (fixups st''))" using assms by (auto simp: emits_def intro: prefix_order.trans)
  moreover have "length (fixups st) \<le> length (fixups st')" "length (fixups st') \<le> length (fixups st'')"
    using assms by (auto simp: emits_def dest!: prefix_length_le)
  moreover have "K \<union> L \<subseteq> {length (fixups st)..<length (fixups st'')}"
    using assms calculation(2,3) unfolding emits_def by fastforce
  moreover have "ok (H \<union> (K \<union> L)) d'' s'' (C0 @ C @ D) st''" if "ok H d s C0 st" for H C0
    using assms that unfolding emits_def by (metis Un_assoc append.assoc)
  moreover have "grows (gs st) (gs st'')" using assms grows_trans unfolding emits_def by blast
  ultimately show ?thesis by (simp add: emits_def)
qed

lemma emits_live: "emits d s st C K d' s' st' \<Longrightarrow> live d s st \<Longrightarrow> live d' s' st'"
  unfolding emits_def live_def by blast

lemma liveD:
  assumes "live d s st"
  shows "cur_stack st = d" "saved_stack st = s" "num_stacks st = 0" "\<forall>v \<in> set (g_literals (gs st)). wf_literal v" "max_stack st \<le> MAX_DEPTH"
  using assms by (auto simp: live_def ok_def)

lemma emits_place:
  assumes "emits d s st C K d' s' st'" "live d s st"
  shows "place_of st' = advance (place_of st) C" "length (fixups st') = length (fixups st) + length (refs C)"
proof -
  obtain H C0 where o: "ok H d s C0 st" using assms(2) by (auto simp: live_def)
  then have "ok (H \<union> K) d' s' (C0 @ C) st'" using assms(1) by (simp add: emits_def)
  then show "place_of st' = advance (place_of st) C" "length (fixups st') = length (fixups st) + length (refs C)"
    using o by (auto simp: ok_def fits_def)
qed

text \<open>Bytes, stack depths, references.\<close>

lemma emits_byte:
  assumes "b < 256"
  shows "emits d s st [B b] {} d s (emit_byte b st)"
proof -
  have "ok H d s (C0 @ [B b]) (emit_byte b st)" if o: "ok H d s C0 st" for H C0
  proof -
    have p: "place_of (emit_byte b st) = byte_pass (place_of st)" by (simp add: place_of_def emit_byte_def byte_pass_def)
    show ?thesis using o fits_same [OF _ grows_refl, of H "gs st" "advance origin C0" "refs C0" "fixups st" "B b"] assms
      by (simp add: ok_def p) (simp add: emit_byte_def ref_pcs_append)
  qed
  then show ?thesis by (simp add: emits_def emit_byte_def grows_refl)
qed

lemma emits_stack:
  assumes "bytes st' = bytes st" "place_of st' = place_of st" "num_stacks st' = num_stacks st" "fixups st' = fixups st" "gs st' = gs st"
    and "live d s st \<Longrightarrow> cur_stack st' = d' \<and> saved_stack st' = s' \<and> max_stack st' \<le> MAX_DEPTH"
  shows "emits d s st [] {} d' s' st'"
proof -
  have "ok H d' s' C0 st'" if "ok H d s C0 st" for H C0
  proof -
    have "live d s st" using that by (auto simp: live_def)
    then show ?thesis using that assms by (simp add: ok_def)
  qed
  then show ?thesis using assms(4,5) by (simp add: emits_def grows_refl)
qed

lemma emits_push: "d + n \<le> MAX_DEPTH \<Longrightarrow> emits d s st [] {} (d + n) s (push_stack n st)"
  by (rule emits_stack) (auto simp: push_stack_def dest: liveD)

lemma emits_pop: "emits (d + n) s st [] {} d s (pop_stack n st)"
  by (rule emits_stack) (auto simp: pop_stack_def dest: liveD)

lemma emits_restore: "emits d s st [] {} d old (restore_stack_top old st)"
  by (rule emits_stack) (auto simp: restore_stack_top_def dest: liveD)

lemma emits_save: "emits d s st [] {} d (Some (d - 1)) (snd (save_stack_top st))"
  by (rule emits_stack) (auto simp: save_stack_top_def dest: liveD)

lemma emits_fix:
  assumes "bytes st' = bytes st @ [0]" "fixups st' = fixups st @ [f]" "pc f = length (bytes st)" "place_of st' = pass (place_of st) i"
    "num_stacks st' = num_stacks st" "cur_stack st' = cur_stack st" "saved_stack st' = saved_stack st" "max_stack st' = max_stack st"
    "grows (gs st) (gs st')" "is_ref i"
    and "live d s st \<Longrightarrow> fix_rel (gs st') (place_of st') i f \<and> (\<forall>v \<in> set (g_literals (gs st')). wf_literal v)"
  shows "emits d s st [i] {} d s st'"
proof -
  have "ok H d s (C0 @ [i]) st'" if o: "ok H d s C0 st" for H C0
  proof -
    have l: "live d s st" using o by (auto simp: live_def)
    have b: "item_byte i = 0" using assms(10) by (cases i) simp_all
    have "fits H (gs st') (pass (advance origin C0) i) (refs C0 @ [i]) (fixups st @ [f])"
      by (rule fits_snoc [OF _ assms(9)]) (use o assms(4) assms(11) [OF l] in \<open>simp_all add: ok_def\<close>)
    moreover have "length (bytes st) = length C0" using o by (simp add: ok_def)
    ultimately show ?thesis using o assms(1-10) assms(11) [OF l] b by (simp add: ok_def ref_pcs_append)
  qed
  then show ?thesis using assms(2,9) by (simp add: emits_def)
qed

lemma emits_hole:
  assumes "bytes st' = bytes st @ [0]" "fixups st' = fixups st @ [f]" "pc f = length (bytes st)" "place_of st' = label_pass (place_of st)"
    "num_stacks st' = num_stacks st" "cur_stack st' = cur_stack st" "saved_stack st' = saved_stack st" "max_stack st' = max_stack st"
    "gs st' = gs st" "kind f = FIXUP_LABEL" "prev_stacks f = num_stacks st"
  shows "emits d s st [LAB q] {length (fixups st)} d s st'"
proof -
  have "ok (insert (length (fixups st)) H) d s (C0 @ [LAB q]) st'" if o: "ok H d s C0 st" for H C0
  proof -
    have "fits (insert (length (fixups st)) H) (gs st') (label_pass (advance origin C0)) (refs C0 @ [LAB q]) (fixups st @ [f])"
      using fits_hole [OF _ grows_refl, of H "gs st" "advance origin C0" "refs C0" "fixups st" f q] o assms(9-11) by (simp add: ok_def)
    moreover have "length (bytes st) = length C0" using o by (simp add: ok_def)
    ultimately show ?thesis using o assms by (simp add: ok_def ref_pcs_append)
  qed
  then show ?thesis using assms(2,9) by (simp add: emits_def grows_refl)
qed

lemmas add_defs = add_known_fixup_def add_linked_fixup_def add_fixup_def emit_byte_def

lemma emits_var_ref:
  assumes "x < MAX_VARS"
  shows "emits d s st [VAR x] {} d s (add_var_ref x st)"
  by (rule emits_fix [where f = "last (fixups (add_var_ref x st))"])
    (use assms in \<open>simp_all add: add_var_ref_def add_defs Let_def place_of_def pass.simps grows_def liveD\<close>)

lemma emits_stack_ref: "emits d s st [STK n] {} d s (add_stack_ref n st)"
  by (rule emits_fix [where f = "last (fixups (add_stack_ref n st))"])
    (simp_all add: add_stack_ref_def add_defs place_of_def byte_pass_def grows_def liveD)

lemma emits_pseudo_label:
  assumes "n < 2"
  shows "emits d s st [PSEUDO n] {} d s (add_pseudo_label n st)"
  by (rule emits_fix [where f = "last (fixups (add_pseudo_label n st))"])
    (use assms in \<open>simp_all add: add_pseudo_label_def add_defs Let_def place_of_def label_pass_def grows_def liveD label_fixup_def origin_def\<close>)

lemma emits_known_label:
  assumes "label_fixup f q" "place_le q (place_of st)"
  shows "emits d s st [LAB q] {} d s (add_known_label f st)"
  by (rule emits_fix [where f = "last (fixups (add_known_label f st))"])
    (use assms place_le_pass [OF assms(2), of "LAB q"] in
      \<open>simp_all add: add_known_label_def add_defs Let_def place_of_def label_pass_def grows_def liveD label_fixup_def\<close>)

lemma capture_label: "live d s st \<Longrightarrow> label_fixup (capture_label st) (place_of st)"
  by (simp add: label_fixup_def capture_label_def place_of_def liveD)

lemma emits_linked_label:
  "fst (add_linked_label nxt st) = length (fixups st)"
  "emits d s st [LAB q] {length (fixups st)} d s (snd (add_linked_label nxt st))"
  "fnext (fixups (snd (add_linked_label nxt st)) ! length (fixups st)) = nxt"
  "length (fixups (snd (add_linked_label nxt st))) = Suc (length (fixups st))"
  "loops (snd (add_linked_label nxt st)) = loops st"
proof -
  show "emits d s st [LAB q] {length (fixups st)} d s (snd (add_linked_label nxt st))"
    by (rule emits_hole [where f = "last (fixups (snd (add_linked_label nxt st)))"])
      (simp_all add: add_linked_label_def add_defs Let_def place_of_def label_pass_def)
qed (simp_all add: add_linked_label_def add_defs Let_def)

text \<open>Literals are interned, and found again.\<close>

lemma wf_literal_equality:
  assumes "wf_literal v" "wf_literal w" "var_type v = var_type w"
  shows "equality v w True = Some (v = w)"
proof -
  have dbl: "a = b" if "dbl_key a = dbl_key b" "uint a \<noteq> 2 ^ 63" "uint b \<noteq> 2 ^ 63" for a b :: double
  proof -
    have r: "uint a < 2 ^ 64" "uint b < 2 ^ 64" "0 \<le> uint a" "0 \<le> uint b"
      using uint_bounded [of a] uint_bounded [of b] by simp_all
    have m: "uint x mod 2 ^ 63 = (if uint x < 2 ^ 63 then uint x else uint x - 2 ^ 63)" if "uint x < 2 ^ 64" for x :: double
    proof (cases "uint x < 2 ^ 63")
      case False
      have "uint x mod 2 ^ 63 = (uint x - 2 ^ 63) mod 2 ^ 63" by (metis diff_add_cancel mod_add_self2)
      also have "\<dots> = uint x - 2 ^ 63" using False that by (intro mod_pos_pos_trivial) simp_all
      finally show ?thesis using False by simp
    qed simp
    obtain x y where xy: "uint a = x" "uint b = y" by blast
    show ?thesis
      using that [unfolded dbl_key_def dbl_magnitude_def] r m [of a] m [of b] unfolding word_uint_eq_iff xy
      by (auto split: if_splits)
  qed
  show ?thesis using assms dbl
    by (cases v; cases w) (auto simp: equality.simps is_float_def wf_literal_def strcmp_eq_0 cstr_id dbl_eq_def)
qed


lemma find_literal_result:
  assumes "wf_literal v" "\<forall>w \<in> set ws. wf_literal w"
  shows "\<exists>j \<le> length ws. find_literal v ws i = Some (i + j) \<and> (j < length ws \<longrightarrow> ws ! j = v)"
  using assms(2)
proof (induction ws arbitrary: i)
  case (Cons w ws)
  show ?case
  proof (cases "v = w")
    case True
    then show ?thesis using wf_literal_equality [OF assms(1), of w] assms(1) by (intro exI [of _ 0]) simp
  next
    case False
    obtain j where "j \<le> length ws" "find_literal v ws (Suc i) = Some (Suc i + j)" "j < length ws \<longrightarrow> ws ! j = v"
      using Cons.IH [of "Suc i"] Cons.prems by auto
    then show ?thesis using False wf_literal_equality [OF assms(1), of w] Cons.prems by (intro exI [of _ "Suc j"]) auto
  qed
qed simp

lemma emits_literal:
  assumes "live d s st" "wf_literal v"
  shows "\<exists>st'. add_literal v st = Some st' \<and> emits d s st [LIT v] {} d s st' \<and> loops st' = loops st"
proof -
  let ?ws = "g_literals (gs st)"
  obtain j where j: "j \<le> length ?ws" "find_literal v ?ws 0 = Some j" "j < length ?ws \<longrightarrow> ?ws ! j = v"
    using find_literal_result [OF assms(2) liveD(4) [OF assms(1)], of 0] by auto
  define st' where "st' = the (add_literal v st)"
  have a: "add_literal v st = Some st'" using j by (simp add: st'_def add_literal_def Let_def)
  have "emits d s st [LIT v] {} d s st'"
    by (rule emits_fix [where f = "last (fixups st')"])
      (use j assms liveD(4) [OF assms(1)] in
        \<open>auto simp: st'_def add_literal_def add_defs Let_def place_of_def pass.simps grows_def nth_append\<close>)
  then show ?thesis using a by (auto simp: st'_def add_literal_def add_defs Let_def j)
qed

lemma emits_fork:
  assumes "live d s st" "fork_ok (gs (add_fork bc st)) zs bc"
  shows "emits d s st [FORK zs] {} d s (add_fork bc st)"
  by (rule emits_fix [where f = "last (fixups (add_fork bc st))"])
    (use assms liveD(4) [OF assms(1)] in \<open>simp_all add: add_fork_def add_defs Let_def place_of_def pass.simps grows_def\<close>)

section \<open>Sequences\<close>

definition out :: "nat \<Rightarrow> nat option \<Rightarrow> state \<Rightarrow> item list \<Rightarrow> nat set \<Rightarrow> nat \<Rightarrow> nat option \<Rightarrow> state \<Rightarrow> bool" where
  "out d s st C K d' s' st' \<longleftrightarrow> live d s st \<and> emits d s st C K d' s' st'"

lemma out_refl: "live d s st \<Longrightarrow> out d s st [] {} d s st"
  by (simp add: out_def emits_refl)

lemma out_live: "out d s st C K d' s' st' \<Longrightarrow> live d' s' st'"
  using emits_live by (auto simp: out_def)

lemma out_ext:
  assumes "out d s st C K d' s' st'" "emits d' s' st' D L d'' s'' st''"
  shows "out d s st (C @ D) (K \<union> L) d'' s'' st''"
  using assms emits_trans by (auto simp: out_def)

lemma out_trans: "out d s st C K d' s' st' \<Longrightarrow> out d' s' st' D L d'' s'' st'' \<Longrightarrow> out d s st (C @ D) (K \<union> L) d'' s'' st''"
  using out_ext [of d s st C K d' s' st' D L] by (simp add: out_def)

lemma out_place:
  assumes "out d s st C K d' s' st'"
  shows "place_of st' = advance (place_of st) C" "length (fixups st') = length (fixups st) + length (refs C)"
    "prefix (map fnext (fixups st)) (map fnext (fixups st'))"
proof -
  have e: "emits d s st C K d' s' st'" "live d s st" using assms by (simp_all add: out_def)
  show "place_of st' = advance (place_of st) C" "length (fixups st') = length (fixups st) + length (refs C)"
    by (rule emits_place [OF e])+
  show "prefix (map fnext (fixups st)) (map fnext (fixups st'))" using e(1) by (simp add: emits_def)
qed

lemma loops_simps [simp]:
  "loops (emit_byte b st) = loops st" "loops (push_stack n st) = loops st" "loops (pop_stack n st) = loops st"
  "loops (add_var_ref x st) = loops st" "loops (emit_extended_byte b st) = loops st" "loops (add_pseudo_label n st) = loops st"
  "loops (add_known_label f st) = loops st" "loops (add_stack_ref n st) = loops st" "loops (restore_stack_top old st) = loops st"
  "loops (emit_var_op op x st) = loops st" "loops (add_fork bc st) = loops st"
  by (simp_all add: add_defs push_stack_def pop_stack_def add_var_ref_def emit_extended_byte_def add_pseudo_label_def add_known_label_def
      add_stack_ref_def restore_stack_top_def emit_var_op_def add_fork_def Let_def)

lemma emits_var_op:
  assumes "x < MAX_VARS" "op \<le> 100"
  shows "emits d s st (var_items op x) {} d s (emit_var_op op x st)"
  using emits_byte [of "op + x"] assms emits_trans [OF emits_byte [of "op + 32"] emits_var_ref [OF assms(1)]]
  by (simp add: var_items_def emit_var_op_def MAX_VARS_def)

lemma emits_extended:
  assumes "b < 256"
  shows "emits d s st [B OP_EXTENDED, B b] {} d s (emit_extended_byte b st)"
  using emits_trans [OF emits_byte [of OP_EXTENDED d s st] emits_byte [OF assms]] by (simp add: emit_extended_byte_def)

lemma emits_ops: "\<forall>b \<in> set bs. b < 256 \<Longrightarrow> emits d s st (map B bs) {} d s (emit_ops bs st)"
proof (induction bs arbitrary: st)
  case Nil
  show ?case by (simp add: emit_ops_def emits_refl)
next
  case (Cons b bs)
  have "emits d s (emit_byte b st) (map B bs) {} d s (emit_ops bs (emit_byte b st))" using Cons by simp
  from emits_trans [OF emits_byte this] show ?case using Cons.prems by (simp add: emit_ops_def)
qed

lemma emits_unary: "emits d s st (unary_items k) {} d s (emit_ops (unary_op k) st)"
proof -
  have "unary_items k = map B (unary_op k)" "\<forall>b \<in> set (unary_op k). b < 256" by (cases k; simp)+
  then show ?thesis using emits_ops by simp
qed

lemma emits_binary: "emits d s st (binary_items k) {} d s (emit_ops (binary_op k) st)"
proof -
  have "binary_items k = map B (binary_op k)" "\<forall>b \<in> set (binary_op k). b < 256" by (cases k; simp)+
  then show ?thesis using emits_ops by simp
qed

lemma loops_ops [simp]: "loops (emit_ops bs st) = loops st"
  by (induction bs arbitrary: st) (simp_all add: emit_ops_def)

section \<open>Defining labels\<close>

text \<open>The fixups linked from a label, in the order \<open>define_label\<close> visits them.\<close>

fun chain :: "nat option list \<Rightarrow> nat option \<Rightarrow> nat list \<Rightarrow> bool" where
  "chain ns l [] \<longleftrightarrow> l = None"
| "chain ns l (x # xs) \<longleftrightarrow> l = Some x \<and> x < length ns \<and> chain ns (ns ! x) xs"

lemma chain_prefix: "prefix ns ns' \<Longrightarrow> chain ns l xs \<Longrightarrow> chain ns' l xs"
  by (induction xs arbitrary: l) (auto simp: prefix_def nth_append)

lemma define_chain_result:
  assumes "\<And>g. fnext (f g) = fnext g" "\<And>g. f (f g) = f g"
  shows "chain (map fnext fx) l xs \<Longrightarrow>
    \<exists>fx'. define_chain f l fx = Some fx' \<and> length fx' = length fx \<and> (\<forall>j < length fx. fx' ! j = (if j \<in> set xs then f (fx ! j) else fx ! j))"
proof (induction xs arbitrary: l fx)
  case Nil
  then show ?case by (simp add: define_chain.simps)
next
  case (Cons x xs)
  let ?fx = "fx[x := f (fx ! x)]"
  have x: "l = Some x" "x < length fx" using Cons.prems by auto
  have "map fnext ?fx = map fnext fx" by (rule nth_equalityI) (auto simp: nth_list_update assms(1) x(2))
  then have "chain (map fnext ?fx) (fnext (fx ! x)) xs" using Cons.prems x by simp
  from Cons.IH [OF this] obtain fx' where "define_chain f (fnext (fx ! x)) ?fx = Some fx'" "length fx' = length fx"
    "\<forall>j < length fx. fx' ! j = (if j \<in> set xs then f (?fx ! j) else ?fx ! j)" by auto
  then show ?case using x by (auto simp: define_chain.simps [of f "Some x"] nth_list_update assms(2))
qed

lemma out_define:
  assumes "out d s st C K d' s' st'" "chain (map fnext (fixups st')) l xs"
    and "\<forall>x \<in> set xs. length (fixups st) \<le> x \<and> refs C ! (x - length (fixups st)) = LAB (place_of st')"
  shows "\<exists>st''. define_label l st' = Some st'' \<and> out d s st C (K - set xs) d' s' st'' \<and> place_of st'' = place_of st' \<and>
    map fnext (fixups st'') = map fnext (fixups st') \<and> loops st'' = loops st'"
proof -
  let ?f = "\<lambda>f. f\<lparr>fvalue := length (bytes st'), prev_literals := num_literals st', prev_forks := num_forks st',
          prev_var_refs := num_var_refs st', prev_labels := num_labels st', prev_stacks := num_stacks st'\<rparr>"
  obtain fx' where fx: "define_chain ?f l (fixups st') = Some fx'" "length fx' = length (fixups st')"
      "\<And>j. j < length (fixups st') \<Longrightarrow> fx' ! j = (if j \<in> set xs then ?f (fixups st' ! j) else fixups st' ! j)"
    using define_chain_result [of ?f, OF _ _ assms(2)] by auto
  let ?st = "st'\<lparr>fixups := fx'\<rparr>"
  have d: "define_label l st' = Some ?st" using fx(1) by (simp add: define_label_def)
  have n: "map fnext fx' = map fnext (fixups st')" "map pc fx' = map pc (fixups st')"
    by (rule nth_equalityI; simp add: fx)+
  have xs: "x < length (fixups st')" if "x \<in> set xs" for x
    using assms(2) that by (induction xs arbitrary: l) auto
  have "ok (H \<union> (K - set xs)) d' s' (C0 @ C) ?st" if o: "ok H d s C0 st" for H C0
  proof -
    have o': "ok (H \<union> K) d' s' (C0 @ C) st'" using assms(1) o by (simp add: out_def emits_def)
    let ?p = "advance origin (C0 @ C)"
    have f: "fits (H \<union> K) (gs st') ?p (refs (C0 @ C)) (fixups st')" and p: "place_of st' = ?p" and z: "num_stacks st' = 0"
      using o' by (simp_all add: ok_def)
    have l: "length (refs C0) = length (fixups st)" and H: "H \<subseteq> {..<length (fixups st)}" using o by (simp_all add: ok_def fits_def)
    have all: "if j \<in> H \<union> (K - set xs) then kind (fx' ! j) = FIXUP_LABEL \<and> prev_stacks (fx' ! j) = 0 \<and> (\<exists>q. refs (C0 @ C) ! j = LAB q)
        else fix_rel (gs st') ?p (refs (C0 @ C) ! j) (fx' ! j)" if j: "j < length (fixups st')" for j
    proof (cases "j \<in> set xs")
      case True
      then have "length (fixups st) \<le> j" "refs C ! (j - length (fixups st)) = LAB ?p" using assms(3) p by auto
      then have "refs (C0 @ C) ! j = LAB ?p" "j \<notin> H" using l H by (auto simp: nth_append)
      moreover have "kind (fixups st' ! j) = FIXUP_LABEL" using f j calculation by (auto simp: fits_def label_fixup_def split: if_splits)
      moreover from this have "label_fixup (?f (fixups st' ! j)) (place_of st')" by (simp add: label_fixup_def place_of_def z)
      ultimately show ?thesis using True fx(3) [OF j] p by (simp add: place_le_refl)
    next
      case False
      then show ?thesis using f j fx(3) [OF j] by (auto simp: fits_def split: if_splits)
    qed
    have "length (refs (C0 @ C)) = length (fixups st')" "H \<union> K \<subseteq> {..<length (fixups st')}" using f by (simp_all only: fits_def)
    then have "fits (H \<union> (K - set xs)) (gs st') ?p (refs (C0 @ C)) fx'" unfolding fits_def fx(2) using all by blast
    then show ?thesis using o' n by (simp add: ok_def)
  qed
  then have "out d s st C (K - set xs) d' s' ?st" using assms(1) n fx(2) by (auto simp: out_def emits_def)
  then show ?thesis using d n by auto
qed

end
