(* ===== verification/Code_Gen_Exprs.thy ===== *)
theory Code_Gen_Exprs
  imports Code_Gen_Laws
begin

text \<open>The code of expressions: what \<open>generate_expr\<close> emits is a code sequence for the tree.\<close>

section \<open>Labels\<close>

definition label_state :: "nat option \<Rightarrow> state \<Rightarrow> state" where
  "label_state nxt st = snd (add_linked_label nxt st)"

lemma add_label_eq:
  "add_linked_label nxt st = (length (fixups st), label_state nxt st)" "add_label st = (length (fixups st), label_state None st)"
  using emits_linked_label(1) by (simp_all add: label_state_def add_label_def prod_eq_iff)

lemma loops_label_state [simp]: "loops (label_state nxt st) = loops st"
  by (simp add: label_state_def add_linked_label_def add_defs Let_def)

lemma fnext_label_state: "map fnext (fixups (label_state nxt st)) = map fnext (fixups st) @ [nxt]"
  by (simp add: label_state_def add_linked_label_def add_defs Let_def)

lemma length_label_state [simp]: "length (fixups (label_state nxt st)) = Suc (length (fixups st))"
  by (simp add: label_state_def add_linked_label_def add_defs Let_def)

lemma emits_label: "emits d s st [LAB q] {length (fixups st)} d s (label_state nxt st)"
  using emits_linked_label(2) by (simp add: label_state_def)

definition saved_state :: "state \<Rightarrow> state" where
  "saved_state st = snd (save_stack_top st)"

lemma save_stack_top_eq: "save_stack_top st = (saved_stack st, saved_state st)"
  by (simp add: save_stack_top_def saved_state_def)

lemma loops_saved_state [simp]: "loops (saved_state st) = loops st"
  by (simp add: save_stack_top_def saved_state_def)

lemma emits_saved: "emits d s st [] {} d (Some (d - 1)) (saved_state st)"
  using emits_save by (simp add: saved_state_def)

lemma fixups_simps [simp]:
  "fixups (emit_byte b st) = fixups st" "fixups (push_stack n st) = fixups st" "fixups (pop_stack n st) = fixups st"
  "fixups (emit_extended_byte b st) = fixups st" "fixups (restore_stack_top old st) = fixups st" "fixups (saved_state st) = fixups st"
  by (simp_all add: emit_byte_def push_stack_def pop_stack_def emit_extended_byte_def restore_stack_top_def saved_state_def save_stack_top_def)

declare add_label_eq [simp] save_stack_top_eq [simp]

text \<open>The label \<open>l\<close>, added since \<open>st0\<close> as an item of \<open>C\<close>, stands for the place \<open>T\<close> and has no links.\<close>

definition hole_at :: "state \<Rightarrow> item list \<Rightarrow> state \<Rightarrow> nat \<Rightarrow> place \<Rightarrow> bool" where
  "hole_at st0 C st l T \<longleftrightarrow> length (fixups st0) \<le> l \<and> l < length (fixups st) \<and> map fnext (fixups st) ! l = None \<and>
     refs C ! (l - length (fixups st0)) = LAB T"

lemma hole_at_label:
  assumes "out d s st0 C K d' s' st"
  shows "hole_at st0 (C @ [LAB T]) (label_state None st) (length (fixups st)) T"
  using out_place(2) [OF assms]
  by (simp add: hole_at_def fnext_label_state nth_append)

lemma hole_at_same: "hole_at st0 C st l T \<Longrightarrow> map fnext (fixups st') = map fnext (fixups st) \<Longrightarrow> hole_at st0 C st' l T"
  by (metis hole_at_def length_map)

lemma hole_at_later:
  assumes "out d0 s0 st0 C0 K0 d s st" "hole_at st0 C0 st l T" "out d s st C K d' s' st'"
  shows "hole_at st0 (C0 @ C) st' l T"
proof -
  have "map fnext (fixups st') ! l = map fnext (fixups st) ! l" if "l < length (fixups st)"
    using out_place(3) [OF assms(3)] that by (metis length_map nth_append prefixE)
  then show ?thesis using assms(2) out_place(2) [OF assms(1)] out_place(2) [OF assms(3)] by (auto simp: hole_at_def nth_append)
qed

lemma hole_at_earlier:
  assumes "out d0 s0 st0 C0 K0 d s st" "hole_at st C st' l T"
  shows "hole_at st0 (C0 @ C) st' l T"
  using assms(2) out_place(2) [OF assms(1)] by (auto simp: hole_at_def nth_append)

lemma out_define_hole:
  assumes "out d s st C K d' s' st'" "hole_at st C st' l T" "T = place_of st'"
  shows "\<exists>st''. define_label (Some l) st' = Some st'' \<and> out d s st C (K - {l}) d' s' st'' \<and> place_of st'' = place_of st' \<and>
    map fnext (fixups st'') = map fnext (fixups st') \<and> loops st'' = loops st'"
  using out_define [OF assms(1), of "Some l" "[l]"] assms(2,3) by (auto simp: hole_at_def)

lemma out_defineE:
  assumes "out d s st C K d' s' st'" "hole_at st C st' l T" "T = place_of st'" "K - {l} = L"
  obtains st'' where "define_label (Some l) st' = Some st''" "out d s st C L d' s' st''" "place_of st'' = place_of st'"
    "map fnext (fixups st'') = map fnext (fixups st')" "loops st'' = loops st'"
  using out_define_hole [OF assms(1-3)] assms(4) by blast

section \<open>What a function of the compiler produces\<close>

definition produces :: "(state \<Rightarrow> state option) \<Rightarrow> nat \<Rightarrow> nat option \<Rightarrow> nat \<Rightarrow> (place \<Rightarrow> item list \<Rightarrow> bool) \<Rightarrow> bool" where
  "produces g d s d' E \<longleftrightarrow> (\<forall>st. live d s st \<longrightarrow>
     (\<exists>st' C. g st = Some st' \<and> E (place_of st) C \<and> out d s st C {} d' s st' \<and> loops st' = loops st))"

lemma producesI:
  assumes "\<And>st. live d s st \<Longrightarrow> \<exists>st' C. g st = Some st' \<and> E (place_of st) C \<and> out d s st C {} d' s st' \<and> loops st' = loops st"
  shows "produces g d s d' E"
  using assms by (simp add: produces_def)

lemma producesE:
  assumes "produces g d s d' E" "live d s st"
  obtains st' C where "g st = Some st'" "E (place_of st) C" "out d s st C {} d' s st'" "loops st' = loops st"
  using assms by (auto simp: produces_def)

lemma out_push: "out d s st C K d' s' st' \<Longrightarrow> D = d' + n \<Longrightarrow> D \<le> MAX_DEPTH \<Longrightarrow> out d s st C K D s' (push_stack n st')"
  using out_ext [OF _ emits_push [of d' n s' st']] by simp

lemma out_pop: "out d s st C K D s' st' \<Longrightarrow> D = d' + n \<Longrightarrow> out d s st C K d' s' (pop_stack n st')"
  using out_ext [OF _ emits_pop [of d' n s' st']] by simp

lemma out_restore: "out d s st C K d' s' st' \<Longrightarrow> out d s st C K d' old (restore_stack_top old st')"
  using out_ext [OF _ emits_restore] by force

lemma out_save: "out d s st C K d' s' st' \<Longrightarrow> out d s st C K d' (Some (d' - 1)) (saved_state st')"
  using out_ext [OF _ emits_saved] by force

lemma out_byte: "out d s st C K d' s' st' \<Longrightarrow> b < 256 \<Longrightarrow> out d s st (C @ [B b]) K d' s' (emit_byte b st')"
  using out_ext [OF _ emits_byte] by force

lemma out_extended: "out d s st C K d' s' st' \<Longrightarrow> b < 256 \<Longrightarrow> out d s st (C @ [B OP_EXTENDED, B b]) K d' s' (emit_extended_byte b st')"
  using out_ext [OF _ emits_extended] by force

lemma out_label: "out d s st C K d' s' st' \<Longrightarrow> out d s st (C @ [LAB q]) (insert (length (fixups st')) K) d' s' (label_state nxt st')"
  using out_ext [OF _ emits_label] by force

lemma out_var_op: "out d s st C K d' s' st' \<Longrightarrow> x < MAX_VARS \<Longrightarrow> op \<le> 100 \<Longrightarrow> out d s st (C @ var_items op x) K d' s' (emit_var_op op x st')"
  using out_ext [OF _ emits_var_op] by force

lemma out_var_ref: "out d s st C K d' s' st' \<Longrightarrow> x < MAX_VARS \<Longrightarrow> out d s st (C @ [VAR x]) K d' s' (add_var_ref x st')"
  using out_ext [OF _ emits_var_ref] by force

lemma out_more: "out d s st C K d' s' st' \<Longrightarrow> out d' s' st' D {} d'' s'' st'' \<Longrightarrow> out d s st (C @ D) K d'' s'' st''"
  using out_trans by force

section \<open>Stores\<close>

declare wf_lvalue.simps [simp del] store_loop.simps [simp del]

lemma wf_lvalue_simps [simp]:
  "wf_lvalue ia d s (EXPR_RANGE a b c) \<longleftrightarrow> \<not> ia \<and> wf_lvalue True d s a \<and>
     wf_expr (d + lvalue_depth True a) True b \<and> wf_expr (d + lvalue_depth True a + 1) True c"
  "wf_lvalue ia d s (EXPR_INDEX a b) \<longleftrightarrow> wf_lvalue True d s a \<and> wf_expr (d + lvalue_depth True a) True b \<and>
     (ia \<longrightarrow> d + lvalue_depth True a + 1 < MAX_DEPTH)"
  "wf_lvalue ia d s (EXPR_ID x) \<longleftrightarrow> x < MAX_VARS \<and> (ia \<longrightarrow> d < MAX_DEPTH)"
  "wf_lvalue ia d s (EXPR_BINARY k a b) \<longleftrightarrow> k = EXPR_PROP \<and> wf_expr d s a \<and> wf_expr (d + 1) s b \<and> (ia \<longrightarrow> d + 2 < MAX_DEPTH)"
  by (subst wf_lvalue.simps; simp)+

lemma wf_lvalue_cases:
  assumes "wf_lvalue ia d s e"
  obtains a b c where "e = EXPR_RANGE a b c" | a b where "e = EXPR_INDEX a b" | x where "e = EXPR_ID x"
    | a b where "e = EXPR_BINARY EXPR_PROP a b"
  using assms by (cases e) (auto simp: wf_lvalue.simps)

lemma inner_depth: "wf_lvalue True d s e \<Longrightarrow> lvalue_depth True e = lvalue_depth False e + 1"
  by (cases e) (auto simp: wf_lvalue.simps)

lemma out_store_loop:
  "wf_lvalue ia d s e \<Longrightarrow> out d0 s0 st0 C K (d + lvalue_depth False e + 1) s1 st \<Longrightarrow>
     \<exists>st'. store_loop e ii st = Some (ii \<or> indexed e, st') \<and> out d0 s0 st0 (C @ store_items e) K (d + 1) s1 st' \<and> loops st' = loops st"
proof (induction e arbitrary: ia ii C st)
  case (EXPR_INDEX a b)
  have a: "wf_lvalue True d s a" using EXPR_INDEX.prems by simp
  have "out d0 s0 st0 (C @ [B OP_INDEXSET]) K (d + lvalue_depth False a + 1) s1 (pop_stack 2 (emit_byte OP_INDEXSET st))"
    by (rule out_pop [OF out_byte [OF EXPR_INDEX.prems(2)]]) (simp_all add: inner_depth [OF a])
  from EXPR_INDEX.IH(1) [OF a this, of True] show ?case by (simp add: store_loop.simps [of "EXPR_INDEX _ _"])
next
  case (EXPR_RANGE a b c)
  have a: "wf_lvalue True d s a" using EXPR_RANGE.prems by simp
  have "out d0 s0 st0 (C @ [B OP_EXTENDED, B EOP_RANGESET]) K (d + lvalue_depth False a + 1) s1 (pop_stack 3 (emit_extended_byte EOP_RANGESET st))"
    by (rule out_pop [OF out_extended [OF EXPR_RANGE.prems(2)]]) (simp_all add: inner_depth [OF a])
  from EXPR_RANGE.IH(1) [OF a this, of True] show ?case by (simp add: store_loop.simps [of "EXPR_RANGE _ _ _"])
next
  case (EXPR_ID x)
  then show ?case using out_var_op [OF EXPR_ID(2), of x OP_PUT] by (simp add: store_loop.simps)
next
  case (EXPR_BINARY k a b)
  then show ?case using out_pop [OF out_byte [OF EXPR_BINARY.prems(2)], of OP_PUT_PROP "d + 1" 2] by (simp add: store_loop.simps)
qed (auto simp: wf_lvalue.simps)

lemma out_finish_store:
  assumes "wf_lvalue False d s e" "out d0 s0 st0 C K (d + lvalue_depth False e + 1) s1 st"
  shows "\<exists>st'. finish_store e st = Some st' \<and> out d0 s0 st0
    (C @ (if indexed e then [B OP_PUT_TEMP] @ store_items e @ [B OP_POP, B OP_PUSH_TEMP] else store_items e)) K (d + 1) s1 st' \<and> loops st' = loops st"
proof (cases "indexed e")
  case True
  have i: "indexed_target e" using True by (cases e) (auto simp: indexed_target_def)
  obtain st' where "store_loop e False (emit_byte OP_PUT_TEMP st) = Some (True, st')"
      "out d0 s0 st0 ((C @ [B OP_PUT_TEMP]) @ store_items e) K (d + 1) s1 st'" "loops st' = loops st"
    using out_store_loop [OF assms(1) out_byte [OF assms(2)], of OP_PUT_TEMP False] True by auto
  then show ?thesis using True i out_byte [OF out_byte, of d0 s0 st0 "(C @ [B OP_PUT_TEMP]) @ store_items e" K "d + 1" s1 st' OP_POP OP_PUSH_TEMP]
    by (simp add: finish_store_def)
next
  case False
  have i: "\<not> indexed_target e" using False by (cases e) (auto simp: indexed_target_def)
  show ?thesis using out_store_loop [OF assms, of False] False i by (auto simp: finish_store_def)
qed

section \<open>Scattering assignments\<close>

text \<open>The labels of the defaults, and the places they must stand for.\<close>

fun hole_labels :: "Scatter list \<Rightarrow> nat list \<Rightarrow> nat set" where
  "hole_labels [] ls = {}"
| "hole_labels ((k, i, x) # sc) ls = (if k = SCAT_OPTIONAL \<and> x \<noteq> None then {hd ls} else {}) \<union> hole_labels sc (tl ls)"

fun holes_at :: "state \<Rightarrow> item list \<Rightarrow> state \<Rightarrow> Scatter list \<Rightarrow> nat list \<Rightarrow> place list \<Rightarrow> bool" where
  "holes_at st0 C st [] ls Ls \<longleftrightarrow> True"
| "holes_at st0 C st ((k, i, x) # sc) ls Ls \<longleftrightarrow> (k = SCAT_OPTIONAL \<and> x \<noteq> None \<longrightarrow> hole_at st0 C st (hd ls) (hd Ls)) \<and>
     holes_at st0 C st sc (tl ls) (tl Ls)"

lemma holes_at_earlier: "out d0 s0 st0 C0 K0 d s st \<Longrightarrow> holes_at st C st' sc ls Ls \<Longrightarrow> holes_at st0 (C0 @ C) st' sc ls Ls"
  by (induction sc ls arbitrary: Ls rule: hole_labels.induct) (auto dest: hole_at_earlier)

lemma holes_at_later:
  "out d0 s0 st0 C0 K0 d s st \<Longrightarrow> out d s st C K d' s' st' \<Longrightarrow> holes_at st0 C0 st sc ls Ls \<Longrightarrow> holes_at st0 (C0 @ C) st' sc ls Ls"
  by (induction sc ls arbitrary: Ls rule: hole_labels.induct) (auto dest: hole_at_later)

lemma holes_at_same: "map fnext (fixups st') = map fnext (fixups st) \<Longrightarrow> holes_at st0 C st sc ls Ls \<Longrightarrow> holes_at st0 C st' sc ls Ls"
  by (induction sc ls arbitrary: Ls rule: hole_labels.induct) (auto dest: hole_at_same)

fun default_places :: "Scatter list \<Rightarrow> nat list \<Rightarrow> state \<Rightarrow> place list" where
  "default_places [] ls st = []"
| "default_places (x # sc) ls st = place_of st # default_places sc (tl ls) (the (generate_defaults [x] ls st))"

lemma length_default_places: "length (default_places sc ls st) = length sc"
  by (induction sc arbitrary: ls st) auto

lemma generate_defaults_cons:
  "generate_defaults (x # sc) ls st = Option.bind (generate_defaults [x] ls st) (generate_defaults sc (tl ls))"
  by (cases x) (auto split: option.splits simp: bind_eq_None_conv)

lemma out_scatter_targets:
  assumes "live d s st" "\<forall>(k, x, e) \<in> set sc. x < MAX_VARS" "length Ls = length sc" "scatter_targets sc st = (labels, st')"
  shows "out d s st (scatter_items sc Ls) (hole_labels sc labels) d s st' \<and> holes_at st (scatter_items sc Ls) st' sc labels Ls \<and>
    length labels = length sc \<and> loops st' = loops st"
  using assms
proof (induction sc arbitrary: st Ls labels)
  case Nil
  then show ?case by (simp add: out_refl)
next
  case (Cons t sc)
  obtain k x e L Ls' where t: "t = (k, x, e)" "Ls = L # Ls'" using Cons.prems by (metis length_Suc_conv prod_cases3)
  define st2 l where "st2 = (if k \<noteq> SCAT_OPTIONAL then add_pseudo_label 0 (add_var_ref x st)
    else if e = None then add_pseudo_label 1 (add_var_ref x st) else label_state None (add_var_ref x st))"
    and "l = (if k \<noteq> SCAT_OPTIONAL \<or> e = None then 0 else length (fixups (add_var_ref x st)))"
  let ?C = "[VAR x] @ [if k \<noteq> SCAT_OPTIONAL then PSEUDO 0 else if e = None then PSEUDO 1 else LAB L]"
  let ?K = "if k = SCAT_OPTIONAL \<and> e \<noteq> None then {l} else {}"
  have v: "out d s st [VAR x] {} d s (add_var_ref x st)" using out_var_ref [OF out_refl [OF Cons.prems(1)], of x] Cons.prems(2) t by simp
  have o: "out d s st ?C ?K d s st2"
    using out_label [OF v, of L None] out_ext [OF v emits_pseudo_label [of 0]] out_ext [OF v emits_pseudo_label [of 1]]
    by (auto simp: st2_def l_def)
  obtain labels' where r: "scatter_targets sc st2 = (labels', st')" "labels = l # labels'"
    using Cons.prems(4) t by (auto simp: st2_def l_def Let_def split: prod.splits if_splits)
  have i: "out d s st2 (scatter_items sc Ls') (hole_labels sc labels') d s st'" "holes_at st2 (scatter_items sc Ls') st' sc labels' Ls'"
      "length labels' = length sc" "loops st' = loops st2"
    using Cons.IH [OF out_live [OF o] _ _ r(1), of Ls'] Cons.prems t by auto
  have "hole_at st ?C st2 l L" if "k = SCAT_OPTIONAL" "e \<noteq> None"
    using hole_at_label [OF v, of L] that by (auto simp: st2_def l_def)
  then have "k = SCAT_OPTIONAL \<and> e \<noteq> None \<Longrightarrow> hole_at st (?C @ scatter_items sc Ls') st' l L"
    using hole_at_later [OF o _ i(1)] by blast
  moreover have "loops st2 = loops st" by (simp add: st2_def)
  ultimately show ?case using out_trans [OF o i(1)] holes_at_earlier [OF o i(2)] i(3,4) t r(2) by auto
qed

lemma rest_place_le: "rest_place m sc \<le> m + length sc"
  by (induction m sc rule: rest_place.induct) auto

lemma scatter_counts_eq:
  "length (filter (\<lambda>(k, _). k = SCAT_REST) sc) \<le> (if rest = -1 then 1 else 0) \<Longrightarrow>
    scatter_counts sc n r rest = (n + length sc, r + length (filter (\<lambda>(k, _). k = SCAT_REQUIRED) sc),
      if rest \<noteq> -1 then rest else if rest_place (n + 1) sc = n + 1 + length sc then -1 else int (rest_place (n + 1) sc))"
proof (induction sc arbitrary: n r rest)
  case (Cons t sc)
  obtain k x e where t: "t = (k, x, e)" using prod_cases3 by blast
  show ?case using Cons.IH [of "if k = SCAT_REST then int (n + 1) else rest" "n + 1" "if k = SCAT_REQUIRED then r + 1 else r"] Cons.prems t
    by (auto split: if_splits)
qed simp

end
