(* ===== verification/Code_Gen_Cases.thy ===== *)
theory Code_Gen_Cases
  imports Code_Gen_Exprs
begin

section \<open>Kinds of expressions\<close>

abbreviation gen_expr :: "nat \<Rightarrow> nat option \<Rightarrow> Expr \<Rightarrow> bool" where
  "gen_expr d s e \<equiv> produces (generate_expr e) d s (d + 1) (\<lambda>p. enc_expr d s p e)"

abbreviation gen_lvalue :: "bool \<Rightarrow> nat \<Rightarrow> nat option \<Rightarrow> Expr \<Rightarrow> bool" where
  "gen_lvalue ia d s e \<equiv> produces (push_lvalue e ia) d s (d + lvalue_depth ia e) (\<lambda>p. enc_lvalue ia d s p e)"

abbreviation gen_args :: "bool \<Rightarrow> nat \<Rightarrow> nat option \<Rightarrow> Arg_List \<Rightarrow> bool" where
  "gen_args first d s args \<equiv>
     produces (if first then generate_arg_list args else generate_args args OP_LIST_ADD_TAIL OP_LIST_APPEND 1) d s
       (if first then d + 1 else d) (\<lambda>p. enc_args first d s p args)"

declare generate_arg_list.simps [simp del] generate_codes.simps [simp del] push_lvalue.simps [simp del]

lemma gen_var:
  assumes "d < MAX_DEPTH" "wf_literal v"
  shows "gen_expr d s (EXPR_VAR v)"
proof (rule producesI)
  fix st assume l: "live d s st"
  note r = out_refl [OF l]
  show "\<exists>st' C. generate_expr (EXPR_VAR v) st = Some st' \<and> enc_expr d s (place_of st) (EXPR_VAR v) C \<and>
    out d s st C {} (d + 1) s st' \<and> loops st' = loops st"
  proof (cases "small_literal v")
    case True
    then obtain n where n: "v = TYPE_INT n" "IN_OPTIM_NUM_RANGE n" by (cases v) (auto simp: small_literal_def)
    have "out d s st (literal_items v) {} (d + 1) s (push_stack 1 (emit_byte (OPTIM_NUM_TO_OPCODE n) st))"
      using out_push [OF out_byte [OF r optim_num(2) [OF n(2)]], of "d + 1" 1] assms n by (simp add: literal_items_def small_literal_def)
    moreover have "generate_expr (EXPR_VAR v) st = Some (push_stack 1 (emit_byte (OPTIM_NUM_TO_OPCODE n) st))" using n by simp
    ultimately show ?thesis using enc_var [of d s "place_of st" v] by (auto simp del: generate_expr.simps)
  next
    case False
    note i = out_byte [OF r, of OP_IMM]
    obtain st' where st': "add_literal v (emit_byte OP_IMM st) = Some st'" "emits d s (emit_byte OP_IMM st) [LIT v] {} d s st'" "loops st' = loops st"
      using emits_literal [OF out_live [OF i] assms(2)] by auto
    have "out d s st (literal_items v) {} (d + 1) s (push_stack 1 st')"
      using out_push [OF out_ext [OF i st'(2)], of "d + 1" 1] assms False by (simp add: literal_items_def)
    moreover have "generate_expr (EXPR_VAR v) st = Some (push_stack 1 st')" using False st'(1) by (cases v) (auto simp: small_literal_def)
    ultimately show ?thesis using enc_var [of d s "place_of st" v] st'(3) by (auto simp del: generate_expr.simps)
  qed
qed

lemma gen_id:
  assumes "d < MAX_DEPTH" "x < MAX_VARS"
  shows "gen_expr d s (EXPR_ID x)"
proof (rule producesI)
  fix st assume l: "live d s st"
  show "\<exists>st' C. generate_expr (EXPR_ID x) st = Some st' \<and> enc_expr d s (place_of st) (EXPR_ID x) C \<and>
    out d s st C {} (d + 1) s st' \<and> loops st' = loops st"
    using out_push [OF out_var_op [OF out_refl [OF l] assms(2), of OP_PUSH], of "d + 1" 1] assms(1) enc_id
    by (auto intro!: exI [of _ "var_items OP_PUSH x"])
qed

lemma gen_logic:
  assumes "gen_expr d s a" "gen_expr d s b"
  shows "gen_expr d s (EXPR_LOGIC k a b)"
proof (rule producesI)
  fix st assume l: "live d s st"
  obtain st1 C where 1: "generate_expr a st = Some st1" "enc_expr d s (place_of st) a C" "out d s st C {} (d + 1) s st1" "loops st1 = loops st"
    by (rule producesE [OF assms(1) l])
  let ?e = "emit_byte (logic_op k) st1" and ?l = "length (fixups st1)"
  let ?st2 = "pop_stack 1 (label_state None ?e)"
  have k: "logic_item k = B (logic_op k)" "logic_op k < 256" by (cases k; simp add: logic_op_def)+
  have b: "out d s st (C @ [logic_item k]) {} (d + 1) s ?e" using out_byte [OF 1(3) k(2)] k(1) by simp
  have 2: "out d s st (C @ [logic_item k, LAB q]) {?l} d s ?st2" for q
    using out_pop [OF out_label [OF b], of d 1] by simp
  obtain st3 D where 3: "generate_expr b ?st2 = Some st3" "enc_expr d s (place_of ?st2) b D" "out d s ?st2 D {} (d + 1) s st3" "loops st3 = loops ?st2"
    by (rule producesE [OF assms(2) out_live [OF 2]])
  let ?T = "place_of st3"
  have 4: "out d s st (C @ [logic_item k, LAB ?T] @ D) {?l} (d + 1) s st3" using out_more [OF 2 3(3)] by simp
  have "hole_at st (C @ [logic_item k, LAB ?T]) ?st2 ?l ?T" using hole_at_label [OF b, of ?T] by (simp add: hole_at_def)
  note h = hole_at_later [OF 2 this 3(3)]
  obtain st4 where 5: "define_label (Some ?l) st3 = Some st4"
      "out d s st (C @ [logic_item k, LAB ?T] @ D) {} (d + 1) s st4" "loops st4 = loops st3"
    by (rule out_defineE [OF 4 _ refl, of ?l "{}"]) (use h in simp_all)
  have p: "place_of ?st2 = label_pass (byte_pass (advance (place_of st) C))" using out_place(1) [OF 2] k(1) by simp
  have "enc_expr d s (place_of st) (EXPR_LOGIC k a b) (C @ [logic_item k, LAB ?T] @ D)"
    using enc_logic [OF 1(2) p 3(2) out_place(1) [OF 3(3)]] by simp
  then show "\<exists>st' C. generate_expr (EXPR_LOGIC k a b) st = Some st' \<and> enc_expr d s (place_of st) (EXPR_LOGIC k a b) C \<and>
    out d s st C {} (d + 1) s st' \<and> loops st' = loops st"
    using 1 3 5 by auto
qed

lemma gen_unary:
  assumes "gen_expr d s a"
  shows "gen_expr d s (EXPR_UNARY k a)"
proof (rule producesI)
  fix st assume l: "live d s st"
  obtain st1 C where 1: "generate_expr a st = Some st1" "enc_expr d s (place_of st) a C" "out d s st C {} (d + 1) s st1" "loops st1 = loops st"
    by (rule producesE [OF assms(1) l])
  show "\<exists>st' C. generate_expr (EXPR_UNARY k a) st = Some st' \<and> enc_expr d s (place_of st) (EXPR_UNARY k a) C \<and>
    out d s st C {} (d + 1) s st' \<and> loops st' = loops st"
    using out_ext [OF 1(3) emits_unary [of "d + 1" s st1 k]] 1 enc_unary [OF 1(2), of k] by auto
qed

lemma gen_binary:
  assumes "gen_expr d s a" "gen_expr (d + 1) s b"
  shows "gen_expr d s (EXPR_BINARY k a b)"
proof (rule producesI)
  fix st assume l: "live d s st"
  obtain st1 C where 1: "generate_expr a st = Some st1" "enc_expr d s (place_of st) a C" "out d s st C {} (d + 1) s st1" "loops st1 = loops st"
    by (rule producesE [OF assms(1) l])
  obtain st2 D where 2: "generate_expr b st1 = Some st2" "enc_expr (d + 1) s (place_of st1) b D" "out (d + 1) s st1 D {} (d + 1 + 1) s st2" "loops st2 = loops st1"
    by (rule producesE [OF assms(2) out_live [OF 1(3)]])
  have "out d s st (C @ D @ binary_items k) {} (d + 1) s (pop_stack 1 (emit_ops (binary_op k) st2))"
    using out_pop [OF out_ext [OF out_more [OF 1(3) 2(3)] emits_binary], of "d + 1" 1 k] by simp
  moreover have "enc_expr d s (place_of st) (EXPR_BINARY k a b) (C @ D @ binary_items k)"
    using enc_binary [OF 1(2)] 2(2) out_place(1) [OF 1(3)] by simp
  ultimately show "\<exists>st' C. generate_expr (EXPR_BINARY k a b) st = Some st' \<and> enc_expr d s (place_of st) (EXPR_BINARY k a b) C \<and>
    out d s st C {} (d + 1) s st' \<and> loops st' = loops st"
    using 1 2 by auto
qed

lemma gen_index:
  assumes "gen_expr d s a" "gen_expr (d + 1) (Some d) b"
  shows "gen_expr d s (EXPR_INDEX a b)"
proof (rule producesI)
  fix st assume l: "live d s st"
  obtain st1 C where 1: "generate_expr a st = Some st1" "enc_expr d s (place_of st) a C" "out d s st C {} (d + 1) s st1" "loops st1 = loops st"
    by (rule producesE [OF assms(1) l])
  have s: "out d s st C {} (d + 1) (Some d) (saved_state st1)" "saved_stack st1 = s"
    using out_save [OF 1(3)] liveD(2) [OF out_live [OF 1(3)]] by simp_all
  obtain st2 D where 2: "generate_expr b (saved_state st1) = Some st2" "enc_expr (d + 1) (Some d) (place_of (saved_state st1)) b D"
      "out (d + 1) (Some d) (saved_state st1) D {} (d + 1 + 1) (Some d) st2" "loops st2 = loops (saved_state st1)"
    by (rule producesE [OF assms(2) out_live [OF s(1)]])
  have "out d s st (C @ D @ [B OP_REF]) {} (d + 1) s (pop_stack 1 (emit_byte OP_REF (restore_stack_top s st2)))"
    using out_pop [OF out_byte [OF out_restore [OF out_more [OF s(1) 2(3)]]], of OP_REF "d + 1" 1 s] by simp
  moreover have "enc_expr d s (place_of st) (EXPR_INDEX a b) (C @ D @ [B OP_REF])"
    using enc_index [OF 1(2)] 2(2) out_place(1) [OF s(1)] by simp
  ultimately show "\<exists>st' C. generate_expr (EXPR_INDEX a b) st = Some st' \<and> enc_expr d s (place_of st) (EXPR_INDEX a b) C \<and>
    out d s st C {} (d + 1) s st' \<and> loops st' = loops st"
    using 1 2 s by auto
qed

lemma gen_range:
  assumes "gen_expr d s a" "gen_expr (d + 1) (Some d) b" "gen_expr (d + 2) (Some d) c"
  shows "gen_expr d s (EXPR_RANGE a b c)"
proof (rule producesI)
  fix st assume l: "live d s st"
  obtain st1 C where 1: "generate_expr a st = Some st1" "enc_expr d s (place_of st) a C" "out d s st C {} (d + 1) s st1" "loops st1 = loops st"
    by (rule producesE [OF assms(1) l])
  have s: "out d s st C {} (d + 1) (Some d) (saved_state st1)" "saved_stack st1 = s"
    using out_save [OF 1(3)] liveD(2) [OF out_live [OF 1(3)]] by simp_all
  obtain st2 D where 2: "generate_expr b (saved_state st1) = Some st2" "enc_expr (d + 1) (Some d) (place_of (saved_state st1)) b D"
      "out (d + 1) (Some d) (saved_state st1) D {} (d + 1 + 1) (Some d) st2" "loops st2 = loops (saved_state st1)"
    by (rule producesE [OF assms(2) out_live [OF s(1)]])
  have m: "out d s st (C @ D) {} (d + 2) (Some d) st2" using out_more [OF s(1) 2(3)] by simp
  obtain st3 E where 3: "generate_expr c st2 = Some st3" "enc_expr (d + 2) (Some d) (place_of st2) c E"
      "out (d + 2) (Some d) st2 E {} (d + 2 + 1) (Some d) st3" "loops st3 = loops st2"
    by (rule producesE [OF assms(3) out_live [OF m]])
  have "out d s st (C @ D @ E @ [B OP_RANGE_REF]) {} (d + 1) s (pop_stack 2 (emit_byte OP_RANGE_REF (restore_stack_top s st3)))"
    using out_pop [OF out_byte [OF out_restore [OF out_more [OF m 3(3)]]], of OP_RANGE_REF "d + 1" 2 s] by simp
  moreover have "enc_expr d s (place_of st) (EXPR_RANGE a b c) (C @ D @ E @ [B OP_RANGE_REF])"
    using enc_range [OF 1(2)] 2(2) 3(2) out_place(1) [OF s(1)] out_place(1) [OF m] by simp
  ultimately show "\<exists>st' C. generate_expr (EXPR_RANGE a b c) st = Some st' \<and> enc_expr d s (place_of st) (EXPR_RANGE a b c) C \<and>
    out d s st C {} (d + 1) s st' \<and> loops st' = loops st"
    using 1 2 3 s by auto
qed

lemma gen_length:
  assumes "d < MAX_DEPTH" "s \<noteq> None"
  shows "gen_expr d s EXPR_LENGTH"
proof (rule producesI)
  fix st assume l: "live d s st"
  obtain n where n: "s = Some n" using assms(2) by blast
  have "out d s st [B OP_EXTENDED, B EOP_LENGTH, STK n] {} (d + 1) s (push_stack 1 (add_stack_ref n (emit_extended_byte EOP_LENGTH st)))"
    using out_push [OF out_ext [OF out_extended [OF out_refl [OF l]] emits_stack_ref], of EOP_LENGTH "d + 1" 1 n] assms(1) by simp
  then show "\<exists>st' C. generate_expr EXPR_LENGTH st = Some st' \<and> enc_expr d s (place_of st) EXPR_LENGTH C \<and>
    out d s st C {} (d + 1) s st' \<and> loops st' = loops st"
    using enc_length [of d n] n liveD(2) [OF l] by (auto simp: saved_stack_top_def)
qed

lemma gen_list:
  assumes "gen_args True d s args"
  shows "gen_expr d s (EXPR_LIST args)"
  using assms enc_list unfolding produces_def by simp blast

lemma gen_call:
  assumes "gen_args True d s args" "f < 256"
  shows "gen_expr d s (EXPR_CALL f args)"
proof (rule producesI)
  fix st assume l: "live d s st"
  obtain st1 C where 1: "generate_arg_list args st = Some st1" "enc_args True d s (place_of st) args C" "out d s st C {} (d + 1) s st1" "loops st1 = loops st"
    by (rule producesE [OF assms(1) l]) simp
  show "\<exists>st' C. generate_expr (EXPR_CALL f args) st = Some st' \<and> enc_expr d s (place_of st) (EXPR_CALL f args) C \<and>
    out d s st C {} (d + 1) s st' \<and> loops st' = loops st"
    using out_byte [OF out_byte [OF 1(3)], of OP_BI_FUNC_CALL f] assms(2) 1 enc_call [OF 1(2), of f] by auto
qed

lemma gen_verb:
  assumes "gen_expr d s a" "gen_expr (d + 1) s b" "gen_args True (d + 2) s args"
  shows "gen_expr d s (EXPR_VERB a b args)"
proof (rule producesI)
  fix st assume l: "live d s st"
  obtain st1 C where 1: "generate_expr a st = Some st1" "enc_expr d s (place_of st) a C" "out d s st C {} (d + 1) s st1" "loops st1 = loops st"
    by (rule producesE [OF assms(1) l])
  obtain st2 D where 2: "generate_expr b st1 = Some st2" "enc_expr (d + 1) s (place_of st1) b D" "out (d + 1) s st1 D {} (d + 1 + 1) s st2" "loops st2 = loops st1"
    by (rule producesE [OF assms(2) out_live [OF 1(3)]])
  have m: "out d s st (C @ D) {} (d + 2) s st2" using out_more [OF 1(3) 2(3)] by simp
  obtain st3 E where 3: "generate_arg_list args st2 = Some st3" "enc_args True (d + 2) s (place_of st2) args E"
      "out (d + 2) s st2 E {} (d + 2 + 1) s st3" "loops st3 = loops st2"
    by (rule producesE [OF assms(3) out_live [OF m]]) simp
  have "out d s st (C @ D @ E @ [B OP_CALL_VERB]) {} (d + 1) s (pop_stack 2 (emit_call_verb_op OP_CALL_VERB st3))"
    using out_pop [OF out_byte [OF out_more [OF m 3(3)]], of OP_CALL_VERB "d + 1" 2] by (simp add: emit_call_verb_op_def)
  moreover have "enc_expr d s (place_of st) (EXPR_VERB a b args) (C @ D @ E @ [B OP_CALL_VERB])"
    using enc_verb [OF 1(2)] 2(2) 3(2) out_place(1) [OF 1(3)] out_place(1) [OF m] by simp
  ultimately show "\<exists>st' C. generate_expr (EXPR_VERB a b args) st = Some st' \<and> enc_expr d s (place_of st) (EXPR_VERB a b args) C \<and>
    out d s st C {} (d + 1) s st' \<and> loops st' = loops st"
    using 1 2 3 by (auto simp: emit_call_verb_op_def)
qed

lemma gen_cond:
  assumes "gen_expr d s a" "gen_expr d s b" "gen_expr d s c"
  shows "gen_expr d s (EXPR_COND a b c)"
proof (rule producesI)
  fix st assume l: "live d s st"
  obtain st1 C where 1: "generate_expr a st = Some st1" "enc_expr d s (place_of st) a C" "out d s st C {} (d + 1) s st1" "loops st1 = loops st"
    by (rule producesE [OF assms(1) l])
  let ?l = "length (fixups st1)" and ?st2 = "pop_stack 1 (label_state None (emit_byte OP_IF_QUES st1))"
  note b1 = out_byte [OF 1(3), of OP_IF_QUES, simplified]
  have 2: "out d s st (C @ [B OP_IF_QUES, LAB q]) {?l} d s ?st2" for q using out_pop [OF out_label [OF b1], of d 1] by simp
  obtain st3 D where 3: "generate_expr b ?st2 = Some st3" "enc_expr d s (place_of ?st2) b D" "out d s ?st2 D {} (d + 1) s st3" "loops st3 = loops ?st2"
    by (rule producesE [OF assms(2) out_live [OF 2]])
  let ?m = "length (fixups st3)" and ?st4 = "pop_stack 1 (label_state None (emit_byte OP_JUMP st3))"
  let ?r = "place_of ?st4" and ?CD = "\<lambda>q. C @ [B OP_IF_QUES, LAB q] @ D @ [B OP_JUMP]"
  have b3: "out d s st (?CD q) {?l} (d + 1) s (emit_byte OP_JUMP st3)" for q using out_byte [OF out_more [OF 2 3(3)], of OP_JUMP] by simp
  define T where "T = place_of (the (Option.bind (define_label (Some ?l) ?st4) (generate_expr c)))"
  have j: "out d s ?st2 (D @ [B OP_JUMP, LAB T]) {?m} d s ?st4"
    using out_pop [OF out_label [OF out_byte [OF 3(3)]], of OP_JUMP d 1 T] by simp
  have 4: "out d s st (?CD ?r @ [LAB T]) {?m, ?l} d s ?st4" using out_pop [OF out_label [OF b3], of d 1] by simp
  have "hole_at st (C @ [B OP_IF_QUES, LAB ?r]) ?st2 ?l ?r" using hole_at_label [OF b1, of ?r] by (simp add: hole_at_def)
  from hole_at_later [OF 2 this j] have h: "hole_at st (?CD ?r @ [LAB T]) ?st4 ?l ?r" by simp
  have ne: "{?m, ?l} - {?l} = {?m}" using out_place(2) [OF 2] out_place(2) [OF 1(3)] out_place(2) [OF 3(3)] by auto
  obtain st5 where 5: "define_label (Some ?l) ?st4 = Some st5" "out d s st (?CD ?r @ [LAB T]) {?m} d s st5" "place_of st5 = ?r"
      "map fnext (fixups st5) = map fnext (fixups ?st4)" "loops st5 = loops ?st4"
    by (rule out_defineE [OF 4 h refl ne])
  obtain st6 E where 6: "generate_expr c st5 = Some st6" "enc_expr d s (place_of st5) c E" "out d s st5 E {} (d + 1) s st6" "loops st6 = loops st5"
    by (rule producesE [OF assms(3) out_live [OF 5(2)]])
  have T: "T = place_of st6" using 5(1) 6(1) by (simp add: T_def)
  note 7 = out_more [OF 5(2) 6(3)]
  have "hole_at st (?CD ?r @ [LAB T]) ?st4 ?m T" using hole_at_label [OF b3, of ?r T] by (simp add: hole_at_def)
  then have h: "hole_at st ((?CD ?r @ [LAB T]) @ E) st6 ?m T" by (intro hole_at_later [OF 5(2) _ 6(3)] hole_at_same [OF _ 5(4)])
  obtain st7 where 8: "define_label (Some ?m) st6 = Some st7" "out d s st ((?CD ?r @ [LAB T]) @ E) {} (d + 1) s st7" "loops st7 = loops st6"
    by (rule out_defineE [OF 7 h T Diff_cancel])
  have "enc_expr d s (place_of st) (EXPR_COND a b c) (C @ [B OP_IF_QUES, LAB ?r] @ D @ [B OP_JUMP, LAB T] @ E)"
    by (rule enc_cond [OF 1(2) _ 3(2)]) (use out_place(1) [OF 2] out_place(1) [OF j] 6(2) 5(3) out_place(1) [OF 6(3)] T in simp_all)
  moreover have "out d s st (C @ [B OP_IF_QUES, LAB ?r] @ D @ [B OP_JUMP, LAB T] @ E) {} (d + 1) s st7" using 8(2) by simp
  moreover have "generate_expr (EXPR_COND a b c) st = Some st7" using 1(1) 3(1) 5(1) 6(1) 8(1) by simp
  moreover have "loops st7 = loops st" using 1(4) 3(4) 5(5) 6(4) 8(3) by simp
  ultimately show "\<exists>st' C. generate_expr (EXPR_COND a b c) st = Some st' \<and> enc_expr d s (place_of st) (EXPR_COND a b c) C \<and>
    out d s st C {} (d + 1) s st' \<and> loops st' = loops st" by blast
qed

lemma gen_lrange:
  assumes "gen_lvalue True d s a" "t = d + lvalue_depth True a" "gen_expr t (Some (t - 1)) b" "gen_expr (t + 1) (Some (t - 1)) c"
  shows "gen_lvalue False d s (EXPR_RANGE a b c)"
proof (rule producesI)
  fix st assume l: "live d s st"
  obtain st1 C where 1: "push_lvalue a True st = Some st1" "enc_lvalue True d s (place_of st) a C" "out d s st C {} t s st1" "loops st1 = loops st"
    using producesE [OF assms(1) l] assms(2) by metis
  have s: "out d s st C {} t (Some (t - 1)) (saved_state st1)" "saved_stack st1 = s"
    using out_save [OF 1(3)] liveD(2) [OF out_live [OF 1(3)]] by simp_all
  obtain st2 D where 2: "generate_expr b (saved_state st1) = Some st2" "enc_expr t (Some (t - 1)) (place_of (saved_state st1)) b D"
      "out t (Some (t - 1)) (saved_state st1) D {} (t + 1) (Some (t - 1)) st2" "loops st2 = loops (saved_state st1)"
    by (rule producesE [OF assms(3) out_live [OF s(1)]])
  note m = out_more [OF s(1) 2(3)]
  obtain st3 E where 3: "generate_expr c st2 = Some st3" "enc_expr (t + 1) (Some (t - 1)) (place_of st2) c E"
      "out (t + 1) (Some (t - 1)) st2 E {} (t + 1 + 1) (Some (t - 1)) st3" "loops st3 = loops st2"
    by (rule producesE [OF assms(4) out_live [OF m]])
  have "out d s st (C @ D @ E) {} (d + lvalue_depth False (EXPR_RANGE a b c)) s (restore_stack_top s st3)"
    using out_restore [OF out_more [OF m 3(3)], of s] assms(2) by simp
  moreover have "enc_lvalue False d s (place_of st) (EXPR_RANGE a b c) (C @ D @ E)"
    using enc_lrange [OF 1(2) assms(2)] 2(2) 3(2) out_place(1) [OF s(1)] out_place(1) [OF m] by simp
  moreover have "push_lvalue (EXPR_RANGE a b c) False st = Some (restore_stack_top s st3)" using 1 2 3 s by (simp add: push_lvalue.simps [of "EXPR_RANGE a b c"])
  moreover have "loops (restore_stack_top s st3) = loops st" using 1(4) 2(4) 3(4) by simp
  ultimately show "\<exists>st' C. push_lvalue (EXPR_RANGE a b c) False st = Some st' \<and> enc_lvalue False d s (place_of st) (EXPR_RANGE a b c) C \<and>
    out d s st C {} (d + lvalue_depth False (EXPR_RANGE a b c)) s st' \<and> loops st' = loops st" by blast
qed

lemma gen_lindex:
  assumes "gen_lvalue True d s a" "t = d + lvalue_depth True a" "gen_expr t (Some (t - 1)) b" "ia \<Longrightarrow> t + 1 < MAX_DEPTH"
  shows "gen_lvalue ia d s (EXPR_INDEX a b)"
proof (rule producesI)
  fix st assume l: "live d s st"
  obtain st1 C where 1: "push_lvalue a True st = Some st1" "enc_lvalue True d s (place_of st) a C" "out d s st C {} t s st1" "loops st1 = loops st"
    using producesE [OF assms(1) l] assms(2) by metis
  have s: "out d s st C {} t (Some (t - 1)) (saved_state st1)" "saved_stack st1 = s"
    using out_save [OF 1(3)] liveD(2) [OF out_live [OF 1(3)]] by simp_all
  obtain st2 D where 2: "generate_expr b (saved_state st1) = Some st2" "enc_expr t (Some (t - 1)) (place_of (saved_state st1)) b D"
      "out t (Some (t - 1)) (saved_state st1) D {} (t + 1) (Some (t - 1)) st2" "loops st2 = loops (saved_state st1)"
    by (rule producesE [OF assms(3) out_live [OF s(1)]])
  note m = out_restore [OF out_more [OF s(1) 2(3)], of s]
  let ?st3 = "if ia then push_stack 1 (emit_byte OP_PUSH_REF (restore_stack_top s st2)) else restore_stack_top s st2"
  let ?C = "C @ D @ (if ia then [B OP_PUSH_REF] else [])"
  have "out d s st ?C {} (d + lvalue_depth ia (EXPR_INDEX a b)) s ?st3"
    using m out_push [OF out_byte [OF m], of OP_PUSH_REF "t + 2" 1] assms(2,4) by (auto simp: Suc_le_eq)
  moreover have "enc_lvalue ia d s (place_of st) (EXPR_INDEX a b) ?C"
    using enc_lindex [OF 1(2) assms(2)] 2(2) out_place(1) [OF s(1)] by simp
  moreover have "push_lvalue (EXPR_INDEX a b) ia st = Some ?st3" using 1 2 s by (simp add: push_lvalue.simps [of "EXPR_INDEX a b"])
  moreover have "loops ?st3 = loops st" using 1(4) 2(4) by simp
  ultimately show "\<exists>st' C. push_lvalue (EXPR_INDEX a b) ia st = Some st' \<and> enc_lvalue ia d s (place_of st) (EXPR_INDEX a b) C \<and>
    out d s st C {} (d + lvalue_depth ia (EXPR_INDEX a b)) s st' \<and> loops st' = loops st" by blast
qed

lemma gen_lid:
  assumes "x < MAX_VARS" "ia \<Longrightarrow> d < MAX_DEPTH"
  shows "gen_lvalue ia d s (EXPR_ID x)"
proof (rule producesI)
  fix st assume l: "live d s st"
  show "\<exists>st' C. push_lvalue (EXPR_ID x) ia st = Some st' \<and> enc_lvalue ia d s (place_of st) (EXPR_ID x) C \<and>
    out d s st C {} (d + lvalue_depth ia (EXPR_ID x)) s st' \<and> loops st' = loops st"
    using out_push [OF out_var_op [OF out_refl [OF l] assms(1), of OP_PUSH], of "d + 1" 1] out_refl [OF l] assms(2) enc_lid [OF assms(1), of ia d s "place_of st"]
    by (cases ia) (auto simp: push_lvalue.simps Suc_le_eq)
qed

lemma gen_lprop:
  assumes "gen_expr d s a" "gen_expr (d + 1) s b" "ia \<Longrightarrow> d + 2 < MAX_DEPTH"
  shows "gen_lvalue ia d s (EXPR_BINARY EXPR_PROP a b)"
proof (rule producesI)
  fix st assume l: "live d s st"
  obtain st1 C where 1: "generate_expr a st = Some st1" "enc_expr d s (place_of st) a C" "out d s st C {} (d + 1) s st1" "loops st1 = loops st"
    by (rule producesE [OF assms(1) l])
  obtain st2 D where 2: "generate_expr b st1 = Some st2" "enc_expr (d + 1) s (place_of st1) b D" "out (d + 1) s st1 D {} (d + 1 + 1) s st2" "loops st2 = loops st1"
    by (rule producesE [OF assms(2) out_live [OF 1(3)]])
  note m = out_more [OF 1(3) 2(3)]
  let ?st3 = "if ia then push_stack 1 (emit_byte OP_PUSH_GET_PROP st2) else st2" and ?C = "C @ D @ (if ia then [B OP_PUSH_GET_PROP] else [])"
  have "out d s st ?C {} (d + lvalue_depth ia (EXPR_BINARY EXPR_PROP a b)) s ?st3"
    using m out_push [OF out_byte [OF m], of OP_PUSH_GET_PROP "d + 3" 1] assms(3) by (auto simp: Suc_le_eq)
  moreover have "enc_lvalue ia d s (place_of st) (EXPR_BINARY EXPR_PROP a b) ?C"
    using enc_lprop [OF 1(2)] 2(2) out_place(1) [OF 1(3)] by simp
  moreover have "push_lvalue (EXPR_BINARY EXPR_PROP a b) ia st = Some ?st3" using 1 2 by (simp add: push_lvalue.simps [of "EXPR_BINARY _ a b"])
  moreover have "loops ?st3 = loops st" using 1(4) 2(4) by simp
  ultimately show "\<exists>st' C. push_lvalue (EXPR_BINARY EXPR_PROP a b) ia st = Some st' \<and> enc_lvalue ia d s (place_of st) (EXPR_BINARY EXPR_PROP a b) C \<and>
    out d s st C {} (d + lvalue_depth ia (EXPR_BINARY EXPR_PROP a b)) s st' \<and> loops st' = loops st" by blast
qed

lemma gen_no_args: "(first \<Longrightarrow> d < MAX_DEPTH) \<Longrightarrow> gen_args first d s []"
proof (rule producesI)
  fix st assume l: "live d s st" and d: "first \<Longrightarrow> d < MAX_DEPTH"
  show "\<exists>st' C. (if first then generate_arg_list [] else generate_args [] OP_LIST_ADD_TAIL OP_LIST_APPEND 1) st = Some st' \<and>
    enc_args first d s (place_of st) [] C \<and> out d s st C {} (if first then d + 1 else d) s st' \<and> loops st' = loops st"
  proof (cases first)
    case True
    then show ?thesis
      using out_push [OF out_byte [OF out_refl [OF l]], of OP_MAKE_EMPTY_LIST "d + 1" 1] d enc_empty [of d s "place_of st"]
      by (auto simp: generate_arg_list.simps Suc_le_eq)
  next
    case False
    then show ?thesis using out_refl [OF l] enc_done [of d s "place_of st"] by auto
  qed
qed

lemma gen_arg:
  assumes "gen_expr d s e" "gen_args False (if first then d + 1 else d) s args"
  shows "gen_args first d s ((k, e) # args)"
proof (rule producesI)
  fix st assume l: "live d s st"
  let ?op = "if first then (if k = ARG_NORMAL then OP_MAKE_SINGLETON_LIST else OP_CHECK_LIST_FOR_SPLICE)
    else (if k = ARG_NORMAL then OP_LIST_ADD_TAIL else OP_LIST_APPEND)"
  let ?d = "if first then d + 1 else d"
  obtain st1 C where 1: "generate_expr e st = Some st1" "enc_expr d s (place_of st) e C" "out d s st C {} (d + 1) s st1" "loops st1 = loops st"
    by (rule producesE [OF assms(1) l])
  let ?st2 = "pop_stack (if first then 0 else 1) (emit_byte ?op st1)"
  have k: "arg_item first k = B ?op" by (cases first; cases k) simp_all
  have 2: "out d s st (C @ [arg_item first k]) {} ?d s ?st2"
    by (subst k, rule out_pop [OF out_byte [OF 1(3)]]) simp_all
  obtain st3 D where 3: "generate_args args OP_LIST_ADD_TAIL OP_LIST_APPEND 1 ?st2 = Some st3" "enc_args False ?d s (place_of ?st2) args D"
      "out ?d s ?st2 D {} ?d s st3" "loops st3 = loops ?st2"
    by (rule producesE [OF assms(2) out_live [OF 2]]) simp
  have "enc_args first d s (place_of st) ((k, e) # args) (C @ [arg_item first k] @ D)"
    by (rule enc_arg [OF 1(2)]) (use 3(2) out_place(1) [OF 2] k in simp)
  moreover have "out d s st (C @ [arg_item first k] @ D) {} ?d s st3" using out_more [OF 2 3(3)] by simp
  moreover have "(if first then generate_arg_list ((k, e) # args) else generate_args ((k, e) # args) OP_LIST_ADD_TAIL OP_LIST_APPEND 1) st = Some st3"
    using 1(1) 3(1) by (auto simp: generate_arg_list.simps)
  moreover have "loops st3 = loops st" using 1(4) 3(4) by simp
  ultimately show "\<exists>st' C. (if first then generate_arg_list ((k, e) # args) else generate_args ((k, e) # args) OP_LIST_ADD_TAIL OP_LIST_APPEND 1) st = Some st' \<and>
    enc_args first d s (place_of st) ((k, e) # args) C \<and> out d s st C {} ?d s st' \<and> loops st' = loops st" by blast
qed

lemma gen_codes:
  assumes "gen_args True d s codes" "d < MAX_DEPTH"
  shows "produces (generate_codes codes) d s (d + 1) (\<lambda>p. enc_codes d s p codes)"
proof (rule producesI)
  fix st assume l: "live d s st"
  show "\<exists>st' C. generate_codes codes st = Some st' \<and> enc_codes d s (place_of st) codes C \<and> out d s st C {} (d + 1) s st' \<and> loops st' = loops st"
  proof (cases "codes = []")
    case True
    have "OPTIM_NUM_TO_OPCODE 0 < 256" by (simp add: optim_num_defs)
    from out_push [OF out_byte [OF out_refl [OF l] this], of "d + 1" 1] show ?thesis
      using True assms(2) enc_any [of d s "place_of st"] by (auto simp: generate_codes.simps)
  next
    case False
    obtain st1 C where 1: "generate_arg_list codes st = Some st1" "enc_args True d s (place_of st) codes C" "out d s st C {} (d + 1) s st1" "loops st1 = loops st"
      by (rule producesE [OF assms(1) l]) simp
    then show ?thesis using enc_some [OF False 1(2)] False by (auto simp: generate_codes.simps)
  qed
qed

text \<open>The handler of a catch expression, entered with the exception on the stack.\<close>

definition generate_except :: "Expr option \<Rightarrow> state \<Rightarrow> state option" where
  "generate_except x st =
     (case x of
        Some e \<Rightarrow> generate_expr e (pop_stack 1 (emit_byte OP_POP st))
      | None \<Rightarrow> Some (emit_byte OP_REF (emit_byte (OPTIM_NUM_TO_OPCODE 1) st)))"

lemma gen_except:
  assumes "pred_option (gen_expr d s) x"
  shows "produces (generate_except x) (d + 1) s (d + 1) (\<lambda>p. enc_except d s p x)"
proof (rule producesI)
  fix st assume l: "live (d + 1) s st"
  show "\<exists>st' C. generate_except x st = Some st' \<and> enc_except d s (place_of st) x C \<and> out (d + 1) s st C {} (d + 1) s st' \<and> loops st' = loops st"
  proof (cases x)
    case None
    have "OPTIM_NUM_TO_OPCODE 1 < 256" by (simp add: optim_num_defs)
    from out_byte [OF out_byte [OF out_refl [OF l] this], of OP_REF] show ?thesis
      using None enc_first [of d s "place_of st"] by (auto simp: generate_except_def)
  next
    case (Some e)
    have 1: "out (d + 1) s st [B OP_POP] {} d s (pop_stack 1 (emit_byte OP_POP st))"
      using out_pop [OF out_byte [OF out_refl [OF l]], of OP_POP d 1] by simp
    obtain st2 C where 2: "generate_expr e (pop_stack 1 (emit_byte OP_POP st)) = Some st2" "enc_expr d s (byte_pass (place_of st)) e C"
        "out d s (pop_stack 1 (emit_byte OP_POP st)) C {} (d + 1) s st2" "loops st2 = loops st"
      using producesE [OF assms [unfolded Some option.pred_inject] out_live [OF 1]] out_place(1) [OF 1] by auto
    have "generate_except x st = Some st2" using Some 2(1) by (simp add: generate_except_def)
    moreover have "enc_except d s (place_of st) x (B OP_POP # C)" using enc_other [OF 2(2)] Some by simp
    moreover have "out (d + 1) s st (B OP_POP # C) {} (d + 1) s st2" using out_more [OF 1 2(3)] by simp
    ultimately show ?thesis using 2(4) by blast
  qed
qed

lemma gen_catch:
  assumes "produces (generate_codes codes) d s (d + 1) (\<lambda>p. enc_codes d s p codes)" "gen_expr (d + 3) s a" "pred_option (gen_expr d s) x" "d + 2 < MAX_DEPTH"
  shows "gen_expr d s (EXPR_CATCH a codes x)"
proof (rule producesI)
  fix st assume l: "live d s st"
  obtain st1 C where 1: "generate_codes codes st = Some st1" "enc_codes d s (place_of st) codes C" "out d s st C {} (d + 1) s st1" "loops st1 = loops st"
    by (rule producesE [OF assms(1) l])
  let ?P = "[B OP_EXTENDED, B EOP_PUSH_LABEL]" and ?N = "[B OP_EXTENDED, B EOP_CATCH]" and ?X = "[B OP_EXTENDED, B EOP_END_CATCH]"
  let ?e = "emit_extended_byte EOP_PUSH_LABEL st1" and ?l = "length (fixups st1)"
  let ?st2 = "push_stack 1 (emit_extended_byte EOP_CATCH (push_stack 1 (label_state None ?e)))"
  have b1: "out d s st (C @ ?P) {} (d + 1) s ?e" using out_extended [OF 1(3), of EOP_PUSH_LABEL] by simp
  have n1: "out d s st (C @ ?P @ [LAB q]) {?l} (d + 2) s (push_stack 1 (label_state None ?e))" for q
    using out_push [OF out_label [OF b1], of "d + 2" 1] assms(4) by simp
  have 2: "out d s st (C @ ?P @ [LAB q] @ ?N) {?l} (d + 3) s ?st2" for q
    using out_push [OF out_extended [OF n1], of EOP_CATCH "d + 3" 1 q] assms(4) by simp
  obtain st3 D where 3: "generate_expr a ?st2 = Some st3" "enc_expr (d + 3) s (place_of ?st2) a D" "out (d + 3) s ?st2 D {} (d + 3 + 1) s st3"
      "loops st3 = loops ?st2"
    by (rule producesE [OF assms(2) out_live [OF 2]])
  let ?m = "length (fixups st3)" and ?st4 = "pop_stack 3 (label_state None (emit_extended_byte EOP_END_CATCH st3))"
  let ?r = "place_of ?st4" and ?CD = "\<lambda>q. C @ ?P @ [LAB q] @ ?N @ D @ ?X"
  define T where "T = place_of (the (Option.bind (define_label (Some ?l) ?st4) (generate_except x)))"
  have b3: "out d s st (?CD q) {?l} (d + 3 + 1) s (emit_extended_byte EOP_END_CATCH st3)" for q using out_extended [OF out_more [OF 2 3(3)], of EOP_END_CATCH] by simp
  have j: "out (d + 3) s ?st2 (D @ ?X @ [LAB T]) {?m} (d + 1) s ?st4"
    using out_pop [OF out_label [OF out_extended [OF 3(3)]], of EOP_END_CATCH "d + 1" 3 T] by simp
  have 4: "out d s st (?CD ?r @ [LAB T]) {?m, ?l} (d + 1) s ?st4" using out_pop [OF out_label [OF b3], of "d + 1" 3] by simp
  have "hole_at st ((C @ ?P) @ [LAB ?r]) (label_state None ?e) ?l ?r" using hole_at_label [OF b1, of ?r] by simp
  then have "hole_at st (C @ ?P @ [LAB ?r] @ ?N) ?st2 ?l ?r" by (auto simp: hole_at_def nth_append)
  from hole_at_later [OF 2 this j] have h: "hole_at st (?CD ?r @ [LAB T]) ?st4 ?l ?r" by simp
  have ne: "{?m, ?l} - {?l} = {?m}" using out_place(2) [OF 2] out_place(2) [OF 1(3)] out_place(2) [OF 3(3)] by auto
  obtain st5 where 5: "define_label (Some ?l) ?st4 = Some st5" "out d s st (?CD ?r @ [LAB T]) {?m} (d + 1) s st5" "place_of st5 = ?r"
      "map fnext (fixups st5) = map fnext (fixups ?st4)" "loops st5 = loops ?st4"
    by (rule out_defineE [OF 4 h refl ne])
  obtain st6 E where 6: "generate_except x st5 = Some st6" "enc_except d s (place_of st5) x E" "out (d + 1) s st5 E {} (d + 1) s st6" "loops st6 = loops st5"
    by (rule producesE [OF gen_except [OF assms(3)] out_live [OF 5(2)]])
  have T: "T = place_of st6" using 5(1) 6(1) by (simp add: T_def)
  note 7 = out_more [OF 5(2) 6(3)]
  have "hole_at st (?CD ?r @ [LAB T]) ?st4 ?m T" using hole_at_label [OF b3, of ?r T] by (simp add: hole_at_def)
  then have h: "hole_at st ((?CD ?r @ [LAB T]) @ E) st6 ?m T" by (intro hole_at_later [OF 5(2) _ 6(3)] hole_at_same [OF _ 5(4)])
  obtain st7 where 8: "define_label (Some ?m) st6 = Some st7" "out d s st ((?CD ?r @ [LAB T]) @ E) {} (d + 1) s st7" "loops st7 = loops st6"
    by (rule out_defineE [OF 7 h T Diff_cancel])
  let ?Y = "C @ [B OP_EXTENDED, B EOP_PUSH_LABEL, LAB ?r, B OP_EXTENDED, B EOP_CATCH] @ D @ [B OP_EXTENDED, B EOP_END_CATCH, LAB T] @ E"
  have "enc_expr d s (place_of st) (EXPR_CATCH a codes x) ?Y"
  proof (rule enc_catch [OF 1(2) _ 3(2)])
    show "place_of ?st2 = advance (label_pass (byte_pass (byte_pass (advance (place_of st) C)))) [B OP_EXTENDED, B EOP_CATCH]"
      using out_place(1) [OF 2] by simp
    show "?r = label_pass (byte_pass (byte_pass (advance (place_of ?st2) D)))" using out_place(1) [OF j] by simp
    show "enc_except d s ?r x E" using 6(2) 5(3) by simp
    show "T = advance ?r E" using out_place(1) [OF 6(3)] T 5(3) by simp
  qed
  moreover have "out d s st ?Y {} (d + 1) s st7" using 8(2) by simp
  moreover have "generate_expr (EXPR_CATCH a codes x) st = Some st7"
    using 1(1) 3(1) 5(1) 6(1) 8(1) by (cases x) (simp_all add: generate_except_def)
  moreover have "loops st7 = loops st" using 1(4) 3(4) 5(5) 6(4) 8(3) by simp
  ultimately show "\<exists>st' C. generate_expr (EXPR_CATCH a codes x) st = Some st' \<and> enc_expr d s (place_of st) (EXPR_CATCH a codes x) C \<and>
    out d s st C {} (d + 1) s st' \<and> loops st' = loops st" by blast
qed

lemma gen_asgn:
  assumes "gen_lvalue False d b e" "gen_expr (d + lvalue_depth False e) b a" "wf_lvalue False d s e"
  shows "gen_expr d b (EXPR_ASGN e a)"
proof (rule producesI)
  fix st assume l: "live d b st"
  let ?d = "d + lvalue_depth False e"
  let ?S = "if indexed e then [B OP_PUT_TEMP] @ store_items e @ [B OP_POP, B OP_PUSH_TEMP] else store_items e"
  obtain st1 C where 1: "push_lvalue e False st = Some st1" "enc_lvalue False d b (place_of st) e C" "out d b st C {} ?d b st1" "loops st1 = loops st"
    by (rule producesE [OF assms(1) l])
  obtain st2 D where 2: "generate_expr a st1 = Some st2" "enc_expr ?d b (place_of st1) a D" "out ?d b st1 D {} (?d + 1) b st2" "loops st2 = loops st1"
    by (rule producesE [OF assms(2) out_live [OF 1(3)]])
  obtain st3 where 3: "finish_store e st2 = Some st3" "out d b st ((C @ D) @ ?S) {} (d + 1) b st3" "loops st3 = loops st2"
    using out_finish_store [OF assms(3) out_more [OF 1(3) 2(3)]] by blast
  have "generate_expr (EXPR_ASGN e a) st = Some st3" using assms(3) 1(1) 2(1) 3(1) by (cases e) (simp_all add: wf_lvalue.simps)
  moreover have "enc_expr d b (place_of st) (EXPR_ASGN e a) (C @ D @ ?S)" by (rule enc_asgn [OF 1(2) _ refl]) (use 2(2) out_place(1) [OF 1(3)] in simp)
  ultimately show "\<exists>st' C. generate_expr (EXPR_ASGN e a) st = Some st' \<and> enc_expr d b (place_of st) (EXPR_ASGN e a) C \<and>
    out d b st C {} (d + 1) b st' \<and> loops st' = loops st" using 1(4) 2(4) 3(2,3) by (intro exI [of _ st3] exI [of _ "C @ D @ ?S"]) simp
qed

lemma gen_defaults:
  assumes "\<forall>(k, i, x) \<in> set sc. i < MAX_VARS \<and> pred_option (gen_expr d s) x"
  shows "out d0 s0 st0 C0 K d s st \<Longrightarrow> holes_at st0 C0 st sc ls (default_places sc ls st) \<Longrightarrow>
    \<exists>st' C. generate_defaults sc ls st = Some st' \<and> enc_defaults d s (place_of st) sc (default_places sc ls st) C \<and>
      out d0 s0 st0 (C0 @ C) (K - hole_labels sc ls) d s st' \<and> loops st' = loops st \<and>
      (\<forall>l T. hole_at st0 C0 st l T \<longrightarrow> hole_at st0 (C0 @ C) st' l T)"
  using assms
proof (induction sc arbitrary: C0 K st ls)
  case Nil
  then show ?case using enc_no_default [of d s "place_of st"] by (intro exI [of _ st] exI [of _ "[]"]) simp
next
  case (Cons t sc)
  obtain k i x where t: "t = (k, i, x)" using prod_cases3 by blast
  have sc: "\<forall>(k, i, x) \<in> set sc. i < MAX_VARS \<and> pred_option (gen_expr d s) x" using Cons.prems(3) by simp
  show ?case
  proof (cases "k = SCAT_OPTIONAL \<and> x \<noteq> None")
    case False
    then have g: "generate_defaults [t] ls st = Some st" using t by (auto split: option.splits)
    obtain st' C where r: "generate_defaults sc (tl ls) st = Some st'" "enc_defaults d s (place_of st) sc (default_places sc (tl ls) st) C"
        "out d0 s0 st0 (C0 @ C) (K - hole_labels sc (tl ls)) d s st'" "loops st' = loops st"
        "\<forall>l T. hole_at st0 C0 st l T \<longrightarrow> hole_at st0 (C0 @ C) st' l T"
      using Cons.IH [OF Cons.prems(1) _ sc, of "tl ls"] Cons.prems(2) t g by auto
    have "enc_defaults d s (place_of st) (t # sc) (default_places (t # sc) ls st) C" using enc_skip [OF _ r(2)] False t g by auto
    moreover have "generate_defaults (t # sc) ls st = Some st'" using r(1) g by (simp add: generate_defaults_cons [of t sc] del: generate_defaults.simps)
    moreover have "hole_labels (t # sc) ls = hole_labels sc (tl ls)" using False t by auto
    ultimately show ?thesis using r(3-5) by auto
  next
    case True
    then obtain e where e: "k = SCAT_OPTIONAL" "x = Some e" by blast
    have h: "hole_at st0 C0 st (hd ls) (place_of st)" "holes_at st0 C0 st sc (tl ls) (default_places sc (tl ls) (the (generate_defaults [t] ls st)))"
      using Cons.prems(2) t e by (simp_all del: generate_defaults.simps)
    have v: "i < MAX_VARS" "gen_expr d s e" using Cons.prems(3) t e by auto
    obtain st1 where 1: "define_label (Some (hd ls)) st = Some st1" "out d0 s0 st0 C0 (K - {hd ls}) d s st1" "place_of st1 = place_of st"
        "map fnext (fixups st1) = map fnext (fixups st)" "loops st1 = loops st"
      by (rule out_defineE [OF Cons.prems(1) h(1) refl refl])
    obtain st2 C where 2: "generate_expr e st1 = Some st2" "enc_expr d s (place_of st1) e C" "out d s st1 C {} (d + 1) s st2" "loops st2 = loops st1"
      by (rule producesE [OF v(2) out_live [OF 1(2)]])
    let ?st3 = "pop_stack 1 (emit_byte OP_POP (emit_var_op OP_PUT i st2))" and ?P = "var_items OP_PUT i @ [B OP_POP]"
    have 3: "out d s st1 (C @ ?P) {} d s ?st3" using out_pop [OF out_byte [OF out_var_op [OF 2(3) v(1)]], of OP_PUT OP_POP d 1] by simp
    note 4 = out_more [OF 1(2) 3]
    have g: "generate_defaults [t] ls st = Some ?st3" using 1(1) 2(1) t e by simp
    have "holes_at st0 (C0 @ C @ ?P) ?st3 sc (tl ls) (default_places sc (tl ls) ?st3)"
      using holes_at_later [OF 1(2) 3 holes_at_same [OF 1(4) h(2)]] g by (simp del: generate_defaults.simps)
    from Cons.IH [OF 4 this sc] obtain st' D where r: "generate_defaults sc (tl ls) ?st3 = Some st'"
        "enc_defaults d s (place_of ?st3) sc (default_places sc (tl ls) ?st3) D" "out d0 s0 st0 ((C0 @ C @ ?P) @ D) (K - {hd ls} - hole_labels sc (tl ls)) d s st'"
        "loops st' = loops ?st3" "\<forall>l T. hole_at st0 (C0 @ C @ ?P) ?st3 l T \<longrightarrow> hole_at st0 ((C0 @ C @ ?P) @ D) st' l T"
      by blast
    have "enc_defaults d s (place_of st) (t # sc) (default_places (t # sc) ls st) (C @ ?P @ D)"
      using enc_default [OF 2(2) refl, of i sc] r(2) out_place(1) [OF 3] 1(3) t e g by (simp del: generate_defaults.simps)
    moreover have "generate_defaults (t # sc) ls st = Some st'" using r(1) g by (simp add: generate_defaults_cons [of t sc] del: generate_defaults.simps)
    moreover have "K - {hd ls} - hole_labels sc (tl ls) = K - hole_labels (t # sc) ls" using t e by auto
    then have "out d0 s0 st0 (C0 @ C @ ?P @ D) (K - hole_labels (t # sc) ls) d s st'" using r(3) by simp
    moreover have "loops st' = loops st" using r(4) 1(5) 2(4) by simp
    moreover have "hole_at st0 (C0 @ C @ ?P @ D) st' l T" if "hole_at st0 C0 st l T" for l T
      using r(5) hole_at_later [OF 1(2) hole_at_same [OF that 1(4)] 3] by simp
    ultimately show ?thesis by blast
  qed
qed

lemma gen_scatter:
  assumes "gen_expr d s a" "\<forall>(k, i, x) \<in> set sc. i < MAX_VARS \<and> pred_option (gen_expr (d + 1) s) x" "scatter_ok sc"
  shows "gen_expr d s (EXPR_ASGN (EXPR_SCATTER sc) a)"
proof (rule producesI)
  fix st assume l: "live d s st"
  obtain st1 C where 1: "generate_expr a st = Some st1" "enc_expr d s (place_of st) a C" "out d s st C {} (d + 1) s st1" "loops st1 = loops st"
    by (rule producesE [OF assms(1) l])
  let ?n = "length sc" and ?nreq = "length (filter (\<lambda>(k, _). k = SCAT_REQUIRED) sc)" and ?rest = "rest_place 1 sc"
  let ?H = "[B OP_EXTENDED, B EOP_SCATTER, B ?n, B ?nreq, B (?rest mod 256)]"
  let ?st2 = "emit_byte ?rest (emit_byte ?nreq (emit_byte ?n (emit_extended_byte EOP_SCATTER st1)))"
  have n: "?n < 256" "?nreq < 256" using assms(3) le_less_trans [OF length_filter_le] by (auto simp: scatter_ok_def)
  have m: "emit_byte ?rest x = emit_byte (?rest mod 256) x" for x by (simp add: emit_byte_def)
  have 2: "out d s st (C @ ?H) {} (d + 1) s ?st2" unfolding m
    using out_byte [OF out_byte [OF out_byte [OF out_extended [OF 1(3), of EOP_SCATTER] n(1)] n(2)], of "?rest mod 256"] by simp
  obtain labels st3 where t: "scatter_targets sc ?st2 = (labels, st3)" by fastforce
  let ?st4 = "label_state None st3" and ?m = "length (fixups st3)"
  define Ls T where "Ls = default_places sc labels ?st4" and "T = place_of (the (generate_defaults sc labels ?st4))"
  have len: "length Ls = length sc" by (simp add: Ls_def length_default_places)
  have "\<forall>(k, x, e) \<in> set sc. x < MAX_VARS" using assms(2) by auto
  from out_scatter_targets [OF out_live [OF 2] this len t] have 3: "out (d + 1) s ?st2 (scatter_items sc Ls) (hole_labels sc labels) (d + 1) s st3"
      "holes_at ?st2 (scatter_items sc Ls) st3 sc labels Ls" "loops st3 = loops ?st2" by blast+
  have b: "out d s st ((C @ ?H) @ scatter_items sc Ls) (hole_labels sc labels) (d + 1) s st3" using out_trans [OF 2 3(1)] by simp
  let ?CH = "((C @ ?H) @ scatter_items sc Ls) @ [LAB T]"
  have 4: "out d s st ?CH (insert ?m (hole_labels sc labels)) (d + 1) s ?st4" by (rule out_label [OF b])
  have lb: "out (d + 1) s st3 [LAB T] {?m} (d + 1) s ?st4" using out_label [OF out_refl [OF out_live [OF b]]] by simp
  have "holes_at st ?CH ?st4 sc labels (default_places sc labels ?st4)"
    using holes_at_later [OF b lb holes_at_earlier [OF 2 3(2)]] by (simp add: Ls_def)
  from gen_defaults [OF assms(2) 4 this] obtain st5 D where 5: "generate_defaults sc labels ?st4 = Some st5"
      "enc_defaults (d + 1) s (place_of ?st4) sc Ls D" "out d s st (?CH @ D) (insert ?m (hole_labels sc labels) - hole_labels sc labels) (d + 1) s st5"
      "loops st5 = loops ?st4" "\<And>l T'. hole_at st ?CH ?st4 l T' \<Longrightarrow> hole_at st (?CH @ D) st5 l T'" by (auto simp: Ls_def)
  have T: "T = place_of st5" using 5(1) by (simp add: T_def)
  note h = 5(5) [OF hole_at_label [OF b]]
  have ne: "insert ?m (hole_labels sc labels) - hole_labels sc labels - {?m} = {}" by auto
  obtain st6 where 6: "define_label (Some ?m) st5 = Some st6" "out d s st (?CH @ D) {} (d + 1) s st6" "loops st6 = loops st5"
    by (rule out_defineE [OF 5(3) h T ne])
  let ?HH = "?H @ scatter_items sc Ls"
  have "enc_expr d s (place_of st) (EXPR_ASGN (EXPR_SCATTER sc) a) (C @ ?HH @ [LAB T] @ D)"
  proof (rule enc_scatter [OF 1(2) len assms(3) refl _ 5(2)])
    show "place_of ?st4 = label_pass (advance (advance (place_of st) C) ?HH)" using out_place(1) [OF 4] by simp
    show "T = advance (place_of ?st4) D" using out_place(1) [OF 5(3)] out_place(1) [OF 4] T by simp
  qed
  moreover have "out d s st (C @ ?HH @ [LAB T] @ D) {} (d + 1) s st6" using 6(2) by simp
  moreover have "scatter_counts sc 0 0 (-1) = (?n, ?nreq, if ?rest = 1 + ?n then -1 else int ?rest)"
    using scatter_counts_eq [of sc "-1" 0 0] assms(3) by (simp add: scatter_ok_def)
  then have "generate_expr (EXPR_ASGN (EXPR_SCATTER sc) a) st = Some st6" using 1(1) t 5(1) 6(1) rest_place_le [of 1 sc] by (auto simp: Let_def nat_add_distrib)
  moreover have "loops st6 = loops st" using 1(4) 3(3) 5(4) 6(3) by simp
  ultimately show "\<exists>st' C. generate_expr (EXPR_ASGN (EXPR_SCATTER sc) a) st = Some st' \<and> enc_expr d s (place_of st) (EXPR_ASGN (EXPR_SCATTER sc) a) C \<and>
    out d s st C {} (d + 1) s st' \<and> loops st' = loops st" by blast
qed

section \<open>All expressions\<close>

declare generate_expr.simps [simp del]

theorem generate_expr_enc:
  "b = (s \<noteq> None) \<Longrightarrow> wf_expr d b e \<Longrightarrow> gen_expr d s e"
  "b = (s \<noteq> None) \<Longrightarrow> wf_lvalue ia d b e \<Longrightarrow> gen_lvalue ia d s e"
  "b = (s \<noteq> None) \<Longrightarrow> wf_args first d b args \<Longrightarrow> gen_args first d s args"
  "b = (s \<noteq> None) \<Longrightarrow> wf_scatter d b sc \<Longrightarrow> \<forall>(k, i, x) \<in> set sc. i < MAX_VARS \<and> pred_option (gen_expr d s) x"
proof (induction d b e and ia d b e and first d b args and d b sc arbitrary: s and s and s and s rule: wf_expr_wf_lvalue_wf_args_wf_scatter.induct)
  case (1 d b v)
  then show ?case by (intro gen_var) simp_all
next
  case (2 d b x)
  then show ?case by (intro gen_id) simp_all
next
  case (3 d b k a e)
  then show ?case by (intro gen_logic) simp_all
next
  case (4 d b k a)
  then show ?case by (intro gen_unary) simp_all
next
  case (5 d b k a e)
  then show ?case by (intro gen_binary) simp_all
next
  case (6 d b a e)
  then show ?case by (intro gen_index) simp_all
next
  case (7 d b a e c)
  then show ?case by (intro gen_range) simp_all
next
  case (8 d b)
  then show ?case by (intro gen_length) simp_all
next
  case (9 d b args)
  then show ?case by (intro gen_list) simp_all
next
  case (10 d b f args)
  then show ?case by (intro gen_call) simp_all
next
  case (11 d b a e args)
  then show ?case by (intro gen_verb) simp_all
next
  case (12 d b a e c)
  then show ?case by (intro gen_cond) simp_all
next
  case (13 d b e a)
  show ?case
  proof (cases "\<exists>sc. e = EXPR_SCATTER sc")
    case True
    then obtain sc where sc: "e = EXPR_SCATTER sc" by blast
    show ?thesis unfolding sc by (intro gen_scatter) (use 13 sc in simp_all)
  next
    case False
    then have "wf_lvalue False d b e" "wf_expr (d + lvalue_depth False e) b a" using 13 by (auto split: Expr.splits)
    then show ?thesis using 13 False by (intro gen_asgn [where s = b]) (auto split: Expr.splits)
  qed
next
  case (14 d b sc)
  then show ?case by simp
next
  case (15 d b a codes x)
  then show ?case by (intro gen_catch gen_codes) (auto split: option.splits)
next
  case (16 ia d b e)
  from 16(9) show ?case
  proof (cases rule: wf_lvalue_cases)
    case (1 a f c)
    then show ?thesis using 16(9) by (simp only: wf_lvalue_simps) (rule gen_lrange [OF _ refl]; use 16 1 in simp)
  next
    case (2 a f)
    then show ?thesis using 16(9) by (simp only: wf_lvalue_simps) (rule gen_lindex [OF _ refl]; use 16 2 in simp)
  next
    case (3 x)
    then show ?thesis using 16(9) by (simp only: wf_lvalue_simps) (rule gen_lid; simp)
  next
    case (4 a f)
    then show ?thesis using 16(9) by (simp only: wf_lvalue_simps) (rule gen_lprop; use 16 4 in simp)
  qed
next
  case (17 first d b)
  then show ?case by (intro gen_no_args) simp
next
  case (18 first d b k e args)
  then show ?case by (intro gen_arg) simp_all
next
  case (19 d b)
  then show ?case by simp
next
  case (20 d b k x e sc)
  then show ?case by (auto split: option.splits)
qed

end
