(* ===== verification/Code_Gen_Finish.thy ===== *)
theory Code_Gen_Finish
  imports Code_Gen_Laws
begin

text \<open>The end of \<open>stmt_to_code\<close>: the sizes that \<open>layout\<close> chooses are large enough, and expanding the fixups
  puts every item at the address of its place.\<close>

section \<open>Expansion\<close>

fun item_bytes :: "Bytecodes \<Rightarrow> item list \<Rightarrow> fixup list \<Rightarrow> Byte list" where
  "item_bytes bc [] fs = []"
| "item_bytes bc (i # C) fs = (if is_ref i then fixup_bytes bc (hd fs) @ item_bytes bc C (tl fs) else item_byte i # item_bytes bc C fs)"

lemma ref_pcs_ge: "x \<in> set (ref_pcs n C) \<Longrightarrow> n \<le> x"
  by (induction C arbitrary: n) (auto split: if_splits dest: Suc_leD)

lemma expand_loop_items: "map pc fs = ref_pcs n C \<Longrightarrow> expand_loop bc n (map item_byte C) fs = item_bytes bc C fs"
proof (induction C arbitrary: n fs)
  case (Cons i C)
  show ?case
  proof (cases "is_ref i")
    case True
    then obtain f fs' where "fs = f # fs'" "pc f = n" "map pc fs' = ref_pcs (Suc n) C" using Cons.prems by auto
    then show ?thesis using Cons.IH True by simp
  next
    case False
    then have m: "map pc fs = ref_pcs (Suc n) C" using Cons.prems by simp
    then have "pc f \<noteq> n" if "f \<in> set fs" for f using ref_pcs_ge [of "pc f" "Suc n" C] that by (metis Suc_n_not_le_n image_eqI set_map)
    then show ?thesis using Cons.IH [OF m] False by (cases fs) auto
  qed
qed simp

lemma length_ref_bytes: "n \<in> {1, 2, 4} \<Longrightarrow> length (ref_bytes n v) = n"
  by (auto simp: ref_bytes_def)

text \<open>Every item has the size its kind of reference has.\<close>

lemma item_bytes_append:
  assumes "sized bc" "list_all2 (fix_rel g q) (refs C) fs"
  shows "length (item_bytes bc C fs) + addr bc p = addr bc (advance p C) \<and> item_bytes bc (C @ D) (fs @ fs') = item_bytes bc C fs @ item_bytes bc D fs'"
  using assms(2)
proof (induction C arbitrary: p fs)
  case (Cons i C)
  show ?case
  proof (cases i)
    case (B b)
    then show ?thesis using Cons.IH [of fs "byte_pass p"] Cons.prems addr_pass(5) [OF assms(1), of p] by simp
  next
    case (LIT v)
    then obtain f fs0 where f: "fs = f # fs0" "fix_rel g q i f" "list_all2 (fix_rel g q) (refs C) fs0" using Cons.prems by (auto simp: list_all2_Cons1)
    then show ?thesis using Cons.IH [OF f(3), of "pass p i"] LIT assms(1) addr_pass(1) [OF assms(1), of p v] by (simp add: fixup_bytes_def length_ref_bytes sized_def)
  next
    case (FORK ss)
    then obtain f fs0 where f: "fs = f # fs0" "fix_rel g q i f" "list_all2 (fix_rel g q) (refs C) fs0" using Cons.prems by (auto simp: list_all2_Cons1)
    then show ?thesis using Cons.IH [OF f(3), of "pass p i"] FORK assms(1) addr_pass(2) [OF assms(1), of p ss] by (simp add: fixup_bytes_def length_ref_bytes sized_def)
  next
    case (VAR x)
    then obtain f fs0 where f: "fs = f # fs0" "fix_rel g q i f" "list_all2 (fix_rel g q) (refs C) fs0" using Cons.prems by (auto simp: list_all2_Cons1)
    then show ?thesis using Cons.IH [OF f(3), of "pass p i"] VAR assms(1) addr_pass(3) [OF assms(1), of p x] by (simp add: fixup_bytes_def length_ref_bytes sized_def)
  next
    case (STK n)
    then obtain f fs0 where f: "fs = f # fs0" "fix_rel g q i f" "list_all2 (fix_rel g q) (refs C) fs0" using Cons.prems by (auto simp: list_all2_Cons1)
    then show ?thesis using Cons.IH [OF f(3), of "pass p i"] STK assms(1) addr_pass(5) [OF assms(1), of p] by (simp add: fixup_bytes_def length_ref_bytes sized_def)
  next
    case (LAB n)
    then obtain f fs0 where f: "fs = f # fs0" "fix_rel g q i f" "list_all2 (fix_rel g q) (refs C) fs0" using Cons.prems by (auto simp: list_all2_Cons1)
    then show ?thesis using Cons.IH [OF f(3), of "pass p i"] LAB assms(1) addr_pass(4) [OF assms(1), of p] by (simp add: fixup_bytes_def length_ref_bytes sized_def label_fixup_def)
  next
    case (PSEUDO n)
    then obtain f fs0 where f: "fs = f # fs0" "fix_rel g q i f" "list_all2 (fix_rel g q) (refs C) fs0" using Cons.prems by (auto simp: list_all2_Cons1)
    then show ?thesis using Cons.IH [OF f(3), of "pass p i"] PSEUDO assms(1) addr_pass(4) [OF assms(1), of p] by (simp add: fixup_bytes_def length_ref_bytes sized_def label_fixup_def)
  qed
qed simp

section \<open>Reading back\<close>

lemma read_ref_bytes:
  assumes "vector bc = u @ ref_bytes n v @ w" "n \<in> {1, 2, 4}" "v < 256 ^ n"
  shows "read_bytes bc n (length u) = Some (v, length u + n)"
proof -
  have b: "byte_at bc (length u + k) = Some (ref_bytes n v ! k)" if "k < n" for k
    using that assms(1) length_ref_bytes [OF assms(2), of v] by (simp add: byte_at_def nth_append)
  consider "n = 1" | "n = 2" | "n = 4" using assms(2) by auto
  then show ?thesis
  proof cases
    case 1
    then show ?thesis using b [of 0] assms(3) by (simp add: read_bytes_def ref_bytes_def)
  next
    case 2
    have "v div 256 < 256" using 2 assms(3) by (simp add: less_mult_imp_div_less)
    then show ?thesis using b [of 0] b [of 1] 2 by (simp add: read_bytes_def ref_bytes_def)
  next
    case 3
    have "v div 16777216 < 256" using 3 assms(3) by (simp add: less_mult_imp_div_less)
    moreover have "v = v div 16777216 * 16777216 + v div 65536 mod 256 * 65536 + v div 256 mod 256 * 256 + v mod 256"
    proof -
      have "v = v div 256 * 256 + v mod 256" by simp
      moreover have "v div 256 = v div 65536 * 256 + v div 256 mod 256" using div_mod_decomp [of "v div 256" 256] div_mult2_eq [of v 256 256] by simp
      moreover have "v div 65536 = v div 16777216 * 256 + v div 65536 mod 256" using div_mod_decomp [of "v div 65536" 256] div_mult2_eq [of v 65536 256] by simp
      ultimately show ?thesis by linarith
    qed
    ultimately show ?thesis using b [of 0] b [of 1] b [of 2] b [of 3] 3 by (simp add: read_bytes_def ref_bytes_def)
  qed
qed

lemma ref_size_fits: "v < m \<Longrightarrow> m < 2 ^ 32 \<Longrightarrow> v < 256 ^ ref_size m"
  by (auto simp: ref_size_def)

lemma ref_size_sizes: "ref_size m \<in> {1, 2, 4}"
  by (simp add: ref_size_def)

lemma place_le_addr: "place_le p q \<Longrightarrow> addr bc p \<le> addr bc q"
  by (auto simp: place_le_def addr_def intro!: add_mono mult_le_mono1)

text \<open>The sizes hold every value.\<close>

definition roomy :: "Bytecodes \<Rightarrow> gstate \<Rightarrow> place \<Rightarrow> bool" where
  "roomy bc g q \<longleftrightarrow> sized bc \<and> (\<forall>k < length (g_literals g). k < 256 ^ numbytes_literal bc) \<and>
     (\<forall>k < length (g_fork_vectors g). k < 256 ^ numbytes_fork bc) \<and> 1 < (256::nat) ^ numbytes_label bc \<and>
     addr bc q < 256 ^ numbytes_label bc"

lemma label_bytes: "label_fixup f q \<Longrightarrow> fixup_bytes bc f = ref_bytes (numbytes_label bc) (addr bc q)"
  by (simp add: fixup_bytes_def label_fixup_def addr_def)

lemma item_at_ref:
  assumes "roomy bc g q" "small_tables g" "fix_rel g q i f" "vector bc = u @ fixup_bytes bc f @ w" "length u = addr bc p"
  shows "item_at (encoded (tables g)) (tables g) bc p i"
proof -
  have sz: "numbytes_literal bc \<in> {1, 2, 4}" "numbytes_fork bc \<in> {1, 2, 4}" "numbytes_var_name bc \<in> {1, 2, 4}" "numbytes_label bc \<in> {1, 2, 4}"
    using assms(1) by (auto simp: roomy_def sized_def)
  show ?thesis
  proof (cases i)
    case (LIT v)
    then show ?thesis using read_ref_bytes [of bc u _ "fvalue f" w, OF _ sz(1)] assms
      by (auto simp: fixup_bytes_def roomy_def READ_LITERAL_def tables_def)
  next
    case (FORK zs)
    then show ?thesis using read_ref_bytes [of bc u _ "fvalue f" w, OF _ sz(2)] assms
      by (auto simp: fixup_bytes_def roomy_def READ_FORK_def tables_def fork_ok_def)
  next
    case (VAR x)
    have "x < 256 ^ numbytes_var_name bc" using assms(3) VAR sz(3) by (auto simp: MAX_VARS_def)
    then show ?thesis using read_ref_bytes [of bc u _ "fvalue f" w, OF _ sz(3)] assms VAR by (simp add: fixup_bytes_def READ_ID_def)
  next
    case (LAB T)
    have l: "label_fixup f T" "place_le T q" using assms(3) LAB by simp_all
    then have "addr bc T < 256 ^ numbytes_label bc" using assms(1) place_le_addr [of T q bc] by (auto simp: roomy_def)
    then show ?thesis using read_ref_bytes [of bc u _ "addr bc T" w, OF _ sz(4)] assms(4,5) LAB by (simp add: label_bytes [OF l(1)] READ_LABEL_def)
  next
    case (PSEUDO n)
    have l: "label_fixup f (origin\<lparr>at_item := n\<rparr>)" "n < 2" using assms(3) PSEUDO by simp_all
    have "addr bc (origin\<lparr>at_item := n\<rparr>) = n" by (simp add: addr_def origin_def)
    moreover have "n < 256 ^ numbytes_label bc" using assms(1) l(2) by (auto simp: roomy_def)
    ultimately show ?thesis using read_ref_bytes [of bc u _ n w, OF _ sz(4)] assms(4,5) PSEUDO by (simp add: label_bytes [OF l(1)] READ_LABEL_def)
  qed (use assms(3) in simp_all)
qed

lemma coded_items:
  assumes "roomy bc g q" "small_tables g"
  shows "list_all2 (fix_rel g q) (refs C) fs \<Longrightarrow> vector bc = u @ item_bytes bc C fs \<Longrightarrow> length u = addr bc p \<Longrightarrow>
    coded (encoded (tables g)) (tables g) bc p C"
proof (induction C arbitrary: p fs u)
  case (Cons i C)
  have s: "sized bc" using assms(1) by (simp add: roomy_def)
  show ?case
  proof (cases "is_ref i")
    case True
    then obtain f fs' where f: "fs = f # fs'" "fix_rel g q i f" "list_all2 (fix_rel g q) (refs C) fs'" using Cons.prems(1) by (auto simp: list_all2_Cons1)
    have v: "vector bc = u @ fixup_bytes bc f @ item_bytes bc C fs'" using Cons.prems(2) f True by simp
    have "length (item_bytes bc [i] [f]) + addr bc p = addr bc (advance p [i])"
      using item_bytes_append [OF s, of g q "[i]" "[f]" p] f(2) True by simp
    then have "length (u @ fixup_bytes bc f) = addr bc (pass p i)" using Cons.prems(3) True by simp
    then show ?thesis using Cons.IH [OF f(3), of "u @ fixup_bytes bc f"] v item_at_ref [OF assms f(2) v Cons.prems(3)] by simp
  next
    case False
    then obtain b where b: "i = B b" by (cases i) auto
    have "byte_at bc (addr bc p) = Some b" using Cons.prems(2,3) b by (simp add: byte_at_def nth_append)
    then show ?thesis using Cons.IH [of fs "u @ [b]" "byte_pass p"] Cons.prems b addr_pass(5) [OF s, of p] by simp
  qed
qed simp

section \<open>The end of \<open>stmt_to_code\<close>\<close>

lemma layout_fields:
  "numbytes_literal (layout st) = ref_size (max (max_literal st) (length (g_literals (gs st))))"
  "numbytes_fork (layout st) = ref_size (max (max_fork st) (length (g_fork_vectors (gs st))))"
  "numbytes_var_name (layout st) = ref_size (max (max_var_ref st) (total_var_refs (gs st)))"
  "numbytes_stack (layout st) = ref_size (max_stack st)"
  by (simp_all add: layout_def Let_def)

lemma layout_label:
  "\<exists>n. bc_size (layout st) = n + (numbytes_label (layout st) - 1) * num_labels st \<and>
    numbytes_label (layout st) = (if n \<le> 256 then 1 else if n + num_labels st \<le> 256 * 256 then 2 else 4)"
  unfolding layout_def Let_def Bytecodes.simps by (rule exI, rule conjI, rule refl, rule refl)

lemma layout_sized:
  assumes "max_stack st \<le> MAX_DEPTH"
  shows "sized (layout st)"
proof -
  have "numbytes_label (layout st) \<in> {1, 2, 4}" using layout_label [of st] by (auto split: if_splits)
  moreover have "numbytes_stack (layout st) = 1" using assms by (simp add: layout_fields ref_size_def MAX_DEPTH_def)
  ultimately show ?thesis using ref_size_sizes by (simp add: sized_def layout_fields)
qed

lemma layout_roomy:
  assumes "max_stack st \<le> MAX_DEPTH" "small_tables (gs st)" "bc_size (layout st) < 2 ^ 32" "addr (layout st) q < bc_size (layout st)"
  shows "roomy (layout st) (gs st) q"
proof -
  let ?bc = "layout st"
  note sz = layout_sized [OF assms(1)]
  have lim: "length (g_literals (gs st)) < 2 ^ 32" "length (g_fork_vectors (gs st)) < 2 ^ 32" using assms(2) by (simp_all add: small_tables_def)
  have big: "k < 256 ^ ref_size (max m n)" if "k < n" "n < 2 ^ 32" for k m n :: nat
    using that by (auto simp: ref_size_def max_def)
  have "k < 256 ^ numbytes_literal ?bc" if "k < length (g_literals (gs st))" for k
    using big [OF that lim(1)] by (simp add: layout_fields)
  moreover have "k < 256 ^ numbytes_fork ?bc" if "k < length (g_fork_vectors (gs st))" for k
    using big [OF that lim(2)] by (simp add: layout_fields)
  moreover have "1 < (256::nat) ^ numbytes_label ?bc" using sz by (auto simp: sized_def)
  moreover have "bc_size ?bc \<le> 256 ^ numbytes_label ?bc" using assms(3) layout_label [of st] by (auto split: if_splits)
  ultimately show ?thesis using sz assms(4) by (simp add: roomy_def)
qed

lemma layout_size: "bc_size (layout st) = addr (layout st) (place_of st)"
  by (simp add: layout_def Let_def addr_def place_of_def)

lemma finish_code_encoded:
  assumes "ok {} 0 None C st" "enc_stmts [] 0 origin zs C" and st': "st' = emit_ending_op OP_DONE st"
  shows "\<exists>bc. finish_code st' = Some bc \<and> (small_tables (gs st') \<longrightarrow> bc_size bc < 2 ^ 32 \<longrightarrow> encoded (tables (gs st')) bc zs)"
proof -
  let ?X = "C @ [B OP_DONE]" and ?q = "advance origin C" and ?l = "layout st'"
  let ?bc = "?l\<lparr>vector := item_bytes ?l ?X (fixups st')\<rparr>"
  have o: "ok {} 0 None ?X st'" using emits_byte [of OP_DONE 0 None st] assms(1) by (simp add: st' emit_ending_op_def emits_def)
  have fr: "list_all2 (fix_rel (gs st') ?q) (refs ?X) (fixups st')"
    using assms(1) by (auto simp: ok_def fits_def st' emit_ending_op_def emit_byte_def list_all2_conv_all_nth)
  have e: "expand_loop ?l 0 (bytes st') (fixups st') = item_bytes ?l ?X (fixups st')"
    using expand_loop_items [of "fixups st'" 0 ?X] o by (simp add: ok_def)
  have mx: "max_stack st' \<le> MAX_DEPTH" using o by (simp add: ok_def)
  note sz = layout_sized [OF mx]
  have p: "place_of st' = advance origin ?X" using o by (simp add: ok_def)
  have a: "bc_size ?l = addr ?l (advance origin ?X)" using layout_size p by simp
  have len: "length (item_bytes ?l ?X (fixups st')) = bc_size ?l"
    using item_bytes_append [OF sz fr, of origin "[]" "[]"] a addr_origin [of ?l] by simp
  have f: "finish_code st' = Some ?bc" using o e len by (simp add: finish_code_def ok_def Let_def)
  have same: "addr ?bc = addr ?l" "fixup_bytes ?bc = fixup_bytes ?l" by (rule ext, simp add: addr_def fixup_bytes_def split: fixup_kind.split)+
  have ib: "item_bytes ?bc X fs = item_bytes ?l X fs" for X fs by (induction X arbitrary: fs) (simp_all add: same(2))
  have "encoded (tables (gs st')) ?bc zs" if "small_tables (gs st')" "bc_size ?bc < 2 ^ 32"
  proof (rule encoded.intros [OF _ assms(2)])
    have "addr ?l ?q < bc_size ?l" using a addr_pass(5) [OF sz, of ?q] by simp
    then have "roomy ?l (gs st') ?q" using layout_roomy [OF mx that(1)] that(2) by simp
    then have r: "roomy ?bc (gs st') ?q" by (simp add: roomy_def sized_def same(1))
    then show "sized ?bc" by (simp add: roomy_def)
    show "coded (encoded (tables (gs st'))) (tables (gs st')) ?bc origin ?X"
      by (rule coded_items [OF r that(1) fr, of "[]"]) (simp_all add: ib addr_origin)
    show "bc_size ?bc = addr ?bc (advance origin ?X)" using a same(1) by simp
  qed
  then show ?thesis using f by blast
qed

end
