(* ===== verification/Code_Gen_Stmts.thy ===== *)
theory Code_Gen_Stmts
  imports Code_Gen_Cases Code_Gen_Finish
begin

text \<open>The code of statements. Labels of forward jumps are linked into chains: one for the end of a
  conditional or \<^verbatim>\<open>try\<close> statement, and one for the bottom of each loop, which \<^verbatim>\<open>break\<close> extends.\<close>

section \<open>Chains that grow\<close>

definition nexts :: "state \<Rightarrow> nat option list" where
  "nexts st = map fnext (fixups st)"

text \<open>Between \<open>st\<close> and \<open>st'\<close> the chain \<open>l\<close> has grown to \<open>l'\<close> by labels of the items \<open>C\<close> that stand for \<open>T\<close>;
  among them are all of \<open>K\<close>.\<close>

definition links :: "state \<Rightarrow> item list \<Rightarrow> state \<Rightarrow> nat option \<Rightarrow> nat option \<Rightarrow> place \<Rightarrow> nat set \<Rightarrow> bool" where
  "links st C st' l l' T K \<longleftrightarrow> (\<exists>ns. K \<subseteq> set ns \<and> (\<forall>ys. chain (nexts st) l ys \<longrightarrow> chain (nexts st') l' (ns @ ys)) \<and>
     (\<forall>x \<in> set ns. length (fixups st) \<le> x \<and> x < length (fixups st') \<and> refs C ! (x - length (fixups st)) = LAB T))"

lemma links_same: "prefix (nexts st) (nexts st') \<Longrightarrow> links st C st' l l T {}"
  unfolding links_def by (rule exI [of _ "[]"]) (auto intro: chain_prefix)

lemma links_mono: "links st C st' l l' T K \<Longrightarrow> L \<subseteq> K \<Longrightarrow> links st C st' l l' T L"
  unfolding links_def by blast

lemma links_trans:
  assumes "links st C st1 l l1 T K" "links st1 D st2 l1 l2 T L"
    and "length (fixups st1) = length (fixups st) + length (refs C)" "length (fixups st1) \<le> length (fixups st2)"
  shows "links st (C @ D) st2 l l2 T (K \<union> L)"
proof -
  obtain ns ms where n: "K \<subseteq> set ns" "\<And>ys. chain (nexts st) l ys \<Longrightarrow> chain (nexts st1) l1 (ns @ ys)"
      "\<And>x. x \<in> set ns \<Longrightarrow> length (fixups st) \<le> x \<and> x < length (fixups st1) \<and> refs C ! (x - length (fixups st)) = LAB T"
    and m: "L \<subseteq> set ms" "\<And>ys. chain (nexts st1) l1 ys \<Longrightarrow> chain (nexts st2) l2 (ms @ ys)"
      "\<And>x. x \<in> set ms \<Longrightarrow> length (fixups st1) \<le> x \<and> x < length (fixups st2) \<and> refs D ! (x - length (fixups st1)) = LAB T"
    using assms(1,2) unfolding links_def by blast
  have "length (fixups st) \<le> x \<and> x < length (fixups st2) \<and> refs (C @ D) ! (x - length (fixups st)) = LAB T" if "x \<in> set (ms @ ns)" for x
  proof (cases "x \<in> set ms")
    case True
    then show ?thesis using m(3) [OF True] assms(3) by (auto simp: nth_append)
  next
    case False
    then have "x \<in> set ns" using that by simp
    then show ?thesis using n(3) [of x] assms(3,4) by (auto simp: nth_append)
  qed
  moreover have "\<forall>ys. chain (nexts st) l ys \<longrightarrow> chain (nexts st2) l2 ((ms @ ns) @ ys)" using n(2) m(2) by simp
  moreover have "K \<union> L \<subseteq> set (ms @ ns)" using n(1) m(1) by auto
  ultimately show ?thesis unfolding links_def by blast
qed

lemma links_more:
  assumes "links st C st' l l' T K" "nexts st'' = nexts st'"
  shows "links st C st'' l l' T K"
proof -
  have "length (fixups st'') = length (fixups st')" using arg_cong [OF assms(2), of length] by (simp add: nexts_def)
  then show ?thesis using assms by (simp add: links_def)
qed

lemma links_label:
  assumes "out d s st C K d' s' st1"
  shows "links st (C @ [LAB T]) (label_state nxt st1) nxt (Some (length (fixups st1))) T {length (fixups st1)}"
proof -
  have p: "prefix (nexts st) (nexts (label_state nxt st1))" using out_place(3) [OF assms]
    by (simp add: nexts_def fnext_label_state prefix_def) (metis append_assoc)
  have "chain (nexts (label_state nxt st1)) (Some (length (fixups st1))) ([length (fixups st1)] @ ys)" if "chain (nexts st) nxt ys" for ys
    using chain_prefix [OF p that] by (simp add: nexts_def fnext_label_state nth_append)
  then show ?thesis unfolding links_def
    by (intro exI [of _ "[length (fixups st1)]"]) (use out_place(2) [OF assms] in \<open>auto simp: nth_append\<close>)
qed

text \<open>Defining a chain that has grown from nothing since \<open>st\<close>.\<close>

lemma out_define_links:
  assumes "out d s st C K d' s' st'" "links st C st' None l T M" "T = place_of st'"
  shows "\<exists>st'' H. define_label l st' = Some st'' \<and> H \<subseteq> K - M \<and> out d s st C H d' s' st'' \<and> place_of st'' = place_of st' \<and>
    nexts st'' = nexts st' \<and> loops st'' = loops st'"
proof -
  obtain ns where n: "M \<subseteq> set ns" "chain (nexts st') l ns" "\<forall>x \<in> set ns. length (fixups st) \<le> x \<and> refs C ! (x - length (fixups st)) = LAB T"
    using assms(2) unfolding links_def by (metis append_Nil2 chain.simps(1))
  have x: "\<forall>x \<in> set ns. length (fixups st) \<le> x \<and> refs C ! (x - length (fixups st)) = LAB (place_of st')" using n(3) assms(3) by blast
  obtain st'' where d: "define_label l st' = Some st''" "out d s st C (K - set ns) d' s' st''" "place_of st'' = place_of st'"
      "map fnext (fixups st'') = map fnext (fixups st')" "loops st'' = loops st'"
    using out_define [OF assms(1) n(2) [unfolded nexts_def] x] by blast
  have "K - set ns \<subseteq> K - M" using n(1) by blast
  then show ?thesis using d by (auto simp: nexts_def)
qed

section \<open>Loops\<close>

fun bottom_of :: "nat option \<times> place \<times> nat \<times> place \<times> nat \<Rightarrow> place" where
  "bottom_of (x, t, ts, b, bs) = b"

text \<open>\<open>K\<close> are labels of the bottoms of the enclosing loops.\<close>

definition exits :: "loop_env \<Rightarrow> state \<Rightarrow> item list \<Rightarrow> nat set \<Rightarrow> state \<Rightarrow> bool" where
  "exits env st C K st' \<longleftrightarrow> length (loops st') = length (loops st) \<and> (\<exists>Ks. K \<subseteq> (\<Union>i < length env. Ks i) \<and>
     (\<forall>i < length env. loops st' ! i = (loops st ! i)\<lparr>bottom_label := bottom_label (loops st' ! i)\<rparr> \<and>
        links st C st' (Some (bottom_label (loops st ! i))) (Some (bottom_label (loops st' ! i))) (bottom_of (rev env ! i)) (Ks i)))"

lemma exits_same: "loops st' = loops st \<Longrightarrow> prefix (nexts st) (nexts st') \<Longrightarrow> exits env st C {} st'"
  unfolding exits_def by (auto intro!: exI [of _ "\<lambda>_. {}"] links_same)

lemma exits_mono: "exits env st C K st' \<Longrightarrow> L \<subseteq> K \<Longrightarrow> exits env st C L st'"
  unfolding exits_def by (meson order_trans)

lemma exits_more: "exits env st C K st' \<Longrightarrow> nexts st'' = nexts st' \<Longrightarrow> loops st'' = loops st' \<Longrightarrow> exits env st C K st''"
  unfolding exits_def by (auto intro: links_more)

lemma exits_trans:
  assumes "exits env st C K st1" "exits env st1 D L st2"
    and "length (fixups st1) = length (fixups st) + length (refs C)" "length (fixups st1) \<le> length (fixups st2)"
  shows "exits env st (C @ D) (K \<union> L) st2"
proof -
  obtain Ks Ls where k: "K \<subseteq> (\<Union>i < length env. Ks i)" "\<And>i. i < length env \<Longrightarrow> loops st1 ! i = (loops st ! i)\<lparr>bottom_label := bottom_label (loops st1 ! i)\<rparr>"
      "\<And>i. i < length env \<Longrightarrow> links st C st1 (Some (bottom_label (loops st ! i))) (Some (bottom_label (loops st1 ! i))) (bottom_of (rev env ! i)) (Ks i)"
    and l: "L \<subseteq> (\<Union>i < length env. Ls i)" "\<And>i. i < length env \<Longrightarrow> loops st2 ! i = (loops st1 ! i)\<lparr>bottom_label := bottom_label (loops st2 ! i)\<rparr>"
      "\<And>i. i < length env \<Longrightarrow> links st1 D st2 (Some (bottom_label (loops st1 ! i))) (Some (bottom_label (loops st2 ! i))) (bottom_of (rev env ! i)) (Ls i)"
    using assms(1,2) unfolding exits_def by blast
  have "loops st2 ! i = (loops st ! i)\<lparr>bottom_label := bottom_label (loops st2 ! i)\<rparr>" if "i < length env" for i
    by (subst l(2) [OF that], subst k(2) [OF that]) simp
  moreover have "K \<union> L \<subseteq> (\<Union>i < length env. Ks i \<union> Ls i)" using k(1) l(1) by blast
  moreover have "length (loops st2) = length (loops st)" using assms(1,2) by (simp add: exits_def)
  ultimately show ?thesis unfolding exits_def using links_trans [OF k(3) l(3) assms(3,4)]
    by (intro conjI exI [of _ "\<lambda>i. Ks i \<union> Ls i"]) auto
qed

definition loops_match :: "loop_env \<Rightarrow> state \<Rightarrow> bool" where
  "loops_match env st \<longleftrightarrow> length (loops st) = length env \<and> (\<forall>i < length env. case rev env ! i of (x, t, ts, b, bs) \<Rightarrow>
     loop_id (loops st ! i) = x \<and> label_fixup (top_label (loops st ! i)) t \<and> place_le t (place_of st) \<and>
     top_stack (loops st ! i) = ts \<and> bottom_stack (loops st ! i) = bs)"

lemma loops_match_later:
  assumes "loops_match env st" "exits env st C K st'" "place_of st' = advance (place_of st) C"
  shows "loops_match env st'"
proof -
  have "case rev env ! i of (x, t, ts, b, bs) \<Rightarrow> loop_id (loops st' ! i) = x \<and> label_fixup (top_label (loops st' ! i)) t \<and> place_le t (place_of st') \<and>
     top_stack (loops st' ! i) = ts \<and> bottom_stack (loops st' ! i) = bs" if "i < length env" for i
  proof -
    have "loops st' ! i = (loops st ! i)\<lparr>bottom_label := bottom_label (loops st' ! i)\<rparr>" using assms(2) that by (auto simp: exits_def)
    then have "loop_id (loops st' ! i) = loop_id (loops st ! i)" "top_label (loops st' ! i) = top_label (loops st ! i)"
        "top_stack (loops st' ! i) = top_stack (loops st ! i)" "bottom_stack (loops st' ! i) = bottom_stack (loops st ! i)"
      by (metis loop.select_convs loop.surjective loop.update_convs(4))+
    then show ?thesis using assms(1,3) that place_le_advance [of _ "place_of st" C] by (auto simp: loops_match_def split: prod.splits)
  qed
  then show ?thesis using assms(1,2) by (simp add: loops_match_def exits_def)
qed

lemma enter_loop_simps [simp]:
  "fixups (enter_loop x lab ts l bs st) = fixups st" "place_of (enter_loop x lab ts l bs st) = place_of st" "nexts (enter_loop x lab ts l bs st) = nexts st"
  "loops (enter_loop x lab ts l bs st) = loops st @ [\<lparr>loop_id = x, top_label = lab, top_stack = ts, bottom_label = l, bottom_stack = bs\<rparr>]"
  by (simp_all add: enter_loop_def nexts_def)

lemma loops_match_enter:
  assumes "loops_match env st" "label_fixup lab t" "place_le t (place_of st)"
  shows "loops_match ((x, t, ts, T, bs) # env) (enter_loop x lab ts l bs st)"
  using assms by (auto simp: loops_match_def nth_append less_Suc_eq split: prod.splits)

lemma exits_leave:
  assumes "exits ((x, t, ts, T, bs) # env) (enter_loop x lab ts l bs st) C K st'" "length (loops st) = length env"
  shows "\<exists>l' K0 L. exit_loop st' = Some (l', st'\<lparr>loops := butlast (loops st')\<rparr>) \<and> K \<subseteq> K0 \<union> L \<and>
    exits env st C K0 (st'\<lparr>loops := butlast (loops st')\<rparr>) \<and> links st C st' (Some l) (Some l') T L"
proof -
  let ?n = "length env" and ?e = "enter_loop x lab ts l bs st"
  obtain Ks where k: "K \<subseteq> (\<Union>i < Suc ?n. Ks i)" "\<And>i. i < Suc ?n \<Longrightarrow> loops st' ! i = (loops ?e ! i)\<lparr>bottom_label := bottom_label (loops st' ! i)\<rparr>"
      "\<And>i. i < Suc ?n \<Longrightarrow> links ?e C st' (Some (bottom_label (loops ?e ! i))) (Some (bottom_label (loops st' ! i))) (bottom_of (rev ((x, t, ts, T, bs) # env) ! i)) (Ks i)"
    using assms(1) by (auto simp: exits_def)
  have len: "length (loops st') = Suc ?n" using assms by (simp add: exits_def)
  have fx: "links st C st'' a b c M = links ?e C st' a b c M" if "fixups st'' = fixups st'" for st'' a b c M using that by (simp add: links_def nexts_def)
  have "last (loops st') = loops st' ! ?n" using len by (metis diff_Suc_1 last_conv_nth length_0_conv nat.distinct(1))
  then have "exit_loop st' = Some (bottom_label (loops st' ! ?n), st'\<lparr>loops := butlast (loops st')\<rparr>)" using len by (auto simp: exit_loop_def)
  moreover have "links st C st' (Some l) (Some (bottom_label (loops st' ! ?n))) T (Ks ?n)"
    using k(3) [of ?n] assms(2) fx [of st'] by (simp add: nth_append)
  moreover have "exits env st C (\<Union>i < ?n. Ks i) (st'\<lparr>loops := butlast (loops st')\<rparr>)"
    unfolding exits_def
  proof (intro conjI exI [of _ Ks] allI impI)
    fix i assume i: "i < ?n"
    then have b: "butlast (loops st') ! i = loops st' ! i" "loops ?e ! i = loops st ! i" "rev ((x, t, ts, T, bs) # env) ! i = rev env ! i"
      using len assms(2) by (simp_all add: nth_butlast nth_append)
    show "loops (st'\<lparr>loops := butlast (loops st')\<rparr>) ! i = (loops st ! i)\<lparr>bottom_label := bottom_label (loops (st'\<lparr>loops := butlast (loops st')\<rparr>) ! i)\<rparr>"
      using k(2) [of i] i b by simp
    show "links st C (st'\<lparr>loops := butlast (loops st')\<rparr>) (Some (bottom_label (loops st ! i)))
        (Some (bottom_label (loops (st'\<lparr>loops := butlast (loops st')\<rparr>) ! i))) (bottom_of (rev env ! i)) (Ks i)"
      using k(3) [of i] i b fx [of "st'\<lparr>loops := butlast (loops st')\<rparr>"] by simp
  qed (use len assms(2) in simp_all)
  moreover have "K \<subseteq> (\<Union>i < ?n. Ks i) \<union> Ks ?n" using k(1) by (auto simp: lessThan_Suc)
  ultimately show ?thesis by blast
qed

section \<open>Sequences of statements\<close>

text \<open>As \<open>out\<close>, with the labels of enclosing loops left open, and those of \<open>L\<close>.\<close>

definition xout :: "loop_env \<Rightarrow> nat \<Rightarrow> state \<Rightarrow> item list \<Rightarrow> nat \<Rightarrow> state \<Rightarrow> nat set \<Rightarrow> bool" where
  "xout env d st C d' st' L \<longleftrightarrow> (\<exists>K H. H \<subseteq> K \<union> L \<and> out d None st C H d' None st' \<and> exits env st C K st')"

lemma xout_out:
  assumes "xout env d st C d1 st1 L" "out d1 None st1 D M d2 None st2" "loops st2 = loops st1"
  shows "xout env d st (C @ D) d2 st2 (L \<union> M)"
proof -
  obtain K H where k: "H \<subseteq> K \<union> L" "out d None st C H d1 None st1" "exits env st C K st1" using assms(1) by (auto simp: xout_def)
  have "exits env st1 D {} st2" using exits_same [OF assms(3)] out_place(3) [OF assms(2)] by (simp add: nexts_def)
  from exits_trans [OF k(3) this] have "exits env st (C @ D) K st2" using out_place(2) [OF k(2)] out_place(2) [OF assms(2)] by simp
  moreover have "H \<union> M \<subseteq> K \<union> (L \<union> M)" using k(1) by blast
  ultimately show ?thesis using out_trans [OF k(2) assms(2)] unfolding xout_def by blast
qed

lemma xout_refl: "live d None st \<Longrightarrow> xout env d st [] d st {}"
  unfolding xout_def using out_refl [of d None st] exits_same [of st st env "[]"] by auto

lemma xout_start: "out d None st C K d' None st' \<Longrightarrow> loops st' = loops st \<Longrightarrow> xout env d st C d' st' K"
  using xout_out [OF xout_refl, of d st C K d' st' env] by (auto simp: out_def)

lemma xout_trans:
  assumes "xout env d st C d1 st1 L" "xout env d1 st1 D d2 st2 M"
  shows "xout env d st (C @ D) d2 st2 (L \<union> M)"
proof -
  obtain K H K' H' where k: "H \<subseteq> K \<union> L" "out d None st C H d1 None st1" "exits env st C K st1"
      and k': "H' \<subseteq> K' \<union> M" "out d1 None st1 D H' d2 None st2" "exits env st1 D K' st2"
    using assms by (auto simp: xout_def)
  from exits_trans [OF k(3) k'(3)] have "exits env st (C @ D) (K \<union> K') st2" using out_place(2) [OF k(2)] out_place(2) [OF k'(2)] by simp
  moreover have "H \<union> H' \<subseteq> (K \<union> K') \<union> (L \<union> M)" using k(1) k'(1) by blast
  ultimately show ?thesis using out_trans [OF k(2) k'(2)] unfolding xout_def by blast
qed

lemma xoutD:
  assumes "xout env d st C d' st' L"
  shows "live d None st" "live d' None st'" "place_of st' = advance (place_of st) C" "length (fixups st') = length (fixups st) + length (refs C)"
    "prefix (nexts st) (nexts st')" "loops_match env st \<Longrightarrow> loops_match env st'" "length (loops st') = length (loops st)"
proof -
  obtain K H where k: "out d None st C H d' None st'" "exits env st C K st'" using assms by (auto simp: xout_def)
  show "live d None st" using k(1) by (simp add: out_def)
  show "live d' None st'" by (rule out_live [OF k(1)])
  show p: "place_of st' = advance (place_of st) C" "length (fixups st') = length (fixups st) + length (refs C)" "prefix (nexts st) (nexts st')"
    using out_place [OF k(1)] by (simp_all add: nexts_def)
  show "loops_match env st \<Longrightarrow> loops_match env st'" using loops_match_later [OF _ k(2) p(1)] .
  show "length (loops st') = length (loops st)" using k(2) by (simp add: exits_def)
qed

lemma xout_mono: "xout env d st C d' st' L \<Longrightarrow> L \<subseteq> M \<Longrightarrow> xout env d st C d' st' M"
  unfolding xout_def by blast

lemma xout_define_links:
  assumes "xout env d st C d' st' L" "links st C st' None l T M" "T = place_of st'" "L - M \<subseteq> N"
  obtains st'' where "define_label l st' = Some st''" "xout env d st C d' st'' N" "place_of st'' = place_of st'" "nexts st'' = nexts st'" "loops st'' = loops st'"
proof -
  obtain K H where k: "H \<subseteq> K \<union> L" "out d None st C H d' None st'" "exits env st C K st'" using assms(1) by (auto simp: xout_def)
  obtain st'' H' where d: "define_label l st' = Some st''" "H' \<subseteq> H - M" "out d None st C H' d' None st''" "place_of st'' = place_of st'"
      "nexts st'' = nexts st'" "loops st'' = loops st'"
    using out_define_links [OF k(2) assms(2,3)] by blast
  have "H' \<subseteq> K \<union> N" using d(2) k(1) assms(4) by blast
  then have "xout env d st C d' st'' N" unfolding xout_def using d(3) exits_more [OF k(3) d(5,6)] by blast
  then show ?thesis using that d by blast
qed

lemma chain_None [simp]: "chain ns None ys \<longleftrightarrow> ys = []"
  by (cases ys) auto

lemma links_hole: "hole_at st C st' l T \<Longrightarrow> links st C st' None (Some l) T {l}"
  unfolding links_def by (rule exI [of _ "[l]"]) (auto simp: hole_at_def nexts_def)

lemma xout_define_hole:
  assumes "xout env d st C d' st' L" "hole_at st C st' l T" "T = place_of st'" "L - {l} \<subseteq> N"
  obtains st'' where "define_label (Some l) st' = Some st''" "xout env d st C d' st'' N" "place_of st'' = place_of st'" "nexts st'' = nexts st'" "loops st'' = loops st'"
  using xout_define_links [OF assms(1) links_hole [OF assms(2)] assms(3,4)] by blast

lemma hole_at_xlater:
  assumes "xout env d0 st0 C0 d st L0" "hole_at st0 C0 st l T" "xout env' d st C d' st' L"
  shows "hole_at st0 (C0 @ C) st' l T"
  using hole_at_later [OF _ assms(2)] assms(1,3) by (auto simp: xout_def)

lemma links_xtrans:
  assumes "xout env d st C d1 st1 L" "xout env' d1 st1 D d2 st2 M" "links st C st1 l l1 T X" "links st1 D st2 l1 l2 T Y"
  shows "links st (C @ D) st2 l l2 T (X \<union> Y)"
  using links_trans [OF assms(3,4)] xoutD(4) [OF assms(1)] xoutD(4) [OF assms(2)] by simp

lemma links_stay: "xout env d st C d' st' L \<Longrightarrow> links st C st' l l T {}"
  by (rule links_same) (rule xoutD(5))

definition gen_stmts :: "loop_env \<Rightarrow> nat \<Rightarrow> Stmt list \<Rightarrow> bool" where
  "gen_stmts env d xs \<longleftrightarrow> (\<forall>st. live d None st \<longrightarrow> loops_match env st \<longrightarrow>
     (\<exists>st' C. generate_stmt xs st = Some st' \<and> enc_stmts env d (place_of st) xs C \<and> xout env d st C d st' {}))"

definition gen_stmt :: "loop_env \<Rightarrow> nat \<Rightarrow> Stmt \<Rightarrow> bool" where
  "gen_stmt env d x \<longleftrightarrow> (\<forall>st. live d None st \<longrightarrow> loops_match env st \<longrightarrow>
     (\<exists>st' C. generate_stmt [x] st = Some st' \<and> enc_stmt env d (place_of st) x C \<and> xout env d st C d st' {}))"

lemma gen_stmtsE:
  assumes "gen_stmts env d xs" "live d None st" "loops_match env st"
  obtains st' C where "generate_stmt xs st = Some st'" "enc_stmts env d (place_of st) xs C" "xout env d st C d st' {}"
  using assms unfolding gen_stmts_def by blast

lemma gen_stmtI:
  assumes "\<And>st. live d None st \<Longrightarrow> loops_match env st \<Longrightarrow>
    \<exists>st' C. generate_stmt [x] st = Some st' \<and> enc_stmt env d (place_of st) x C \<and> xout env d st C d st' {}"
  shows "gen_stmt env d x"
  using assms unfolding gen_stmt_def by blast

lemma generate_stmt_cons: "generate_stmt (x # xs) st = Option.bind (generate_stmt [x] st) (generate_stmt xs)"
  by (cases x) (simp_all add: Let_def case_prod_unfold split: option.split)

lemma gen_nil: "gen_stmts env d []"
  using xout_refl enc_nil unfolding gen_stmts_def by fastforce

lemma gen_cons:
  assumes "gen_stmt env d x" "gen_stmts env d xs"
  shows "gen_stmts env d (x # xs)"
  unfolding gen_stmts_def
proof (intro allI impI)
  fix st assume l: "live d None st" "loops_match env st"
  obtain st1 C where 1: "generate_stmt [x] st = Some st1" "enc_stmt env d (place_of st) x C" "xout env d st C d st1 {}"
    using assms(1) l unfolding gen_stmt_def by blast
  obtain st2 D where 2: "generate_stmt xs st1 = Some st2" "enc_stmts env d (place_of st1) xs D" "xout env d st1 D d st2 {}"
    by (rule gen_stmtsE [OF assms(2) xoutD(2) [OF 1(3)] xoutD(6) [OF 1(3) l(2)]])
  have "generate_stmt (x # xs) st = Some st2" using 1(1) 2(1) by (subst generate_stmt_cons) simp
  then show "\<exists>st' C. generate_stmt (x # xs) st = Some st' \<and> enc_stmts env d (place_of st) (x # xs) C \<and> xout env d st C d st' {}"
    using enc_cons [OF 1(2)] 2(2) xoutD(3) [OF 1(3)] xout_trans [OF 1(3) 2(3)] by auto
qed

end
