(* ===== verification/Code_Gen_Loops.thy ===== *)
theory Code_Gen_Loops
  imports Code_Gen_Stmts
begin

text \<open>The kinds of statements, one by one.\<close>

section \<open>Simple statements\<close>

lemma live_loops [simp]: "live d s (st\<lparr>loops := ls\<rparr>) = live d s st"
  by (simp add: live_def ok_def)

lemma out_loops [simp]: "out d s st C K d' s' (st'\<lparr>loops := ls\<rparr>) = out d s st C K d' s' st'" "out d s (st\<lparr>loops := ls\<rparr>) C K d' s' st' = out d s st C K d' s' st'"
  by (simp_all add: out_def emits_def ok_def)

lemma expr_xout:
  assumes "wf_expr d False e" "live d None st"
  obtains st' C where "generate_expr e st = Some st'" "enc_expr d None (place_of st) e C" "xout env d st C (d + 1) st' {}"
    "out d None st C {} (d + 1) None st'" "loops st' = loops st"
proof -
  have "gen_expr d None e" using generate_expr_enc(1) [of False None d e] assms(1) by simp
  from producesE [OF this assms(2)] show ?thesis using that xout_start by metis
qed

lemma gen_expr_stmt:
  assumes "wf_expr d False e"
  shows "gen_stmt env d (STMT_EXPR e)"
proof (rule gen_stmtI)
  fix st assume l: "live d None st" "loops_match env st"
  obtain st1 C where 1: "generate_expr e st = Some st1" "enc_expr d None (place_of st) e C" "out d None st C {} (d + 1) None st1" "loops st1 = loops st"
    by (rule expr_xout [OF assms l(1)])
  have "out d None st (C @ [B OP_POP]) {} d None (pop_stack 1 (emit_byte OP_POP st1))" by (rule out_pop [OF out_byte [OF 1(3)]]) simp_all
  from xout_start [OF this, of env] show "\<exists>st' C. generate_stmt [STMT_EXPR e] st = Some st' \<and> enc_stmt env d (place_of st) (STMT_EXPR e) C \<and> xout env d st C d st' {}"
    using 1 enc_expr_stmt [OF 1(2), of env] by auto
qed

lemma gen_return:
  assumes "pred_option (wf_expr d False) x"
  shows "gen_stmt env d (STMT_RETURN x)"
proof (rule gen_stmtI)
  fix st assume l: "live d None st" "loops_match env st"
  show "\<exists>st' C. generate_stmt [STMT_RETURN x] st = Some st' \<and> enc_stmt env d (place_of st) (STMT_RETURN x) C \<and> xout env d st C d st' {}"
  proof (cases x)
    case None
    have "out d None st [B OP_RETURN0] {} d None (emit_byte OP_RETURN0 st)" using out_byte [OF out_refl [OF l(1)], of OP_RETURN0] by simp
    from xout_start [OF this, of env] show ?thesis using None enc_return0 [of env d "place_of st"] by (auto simp: emit_ending_op_def)
  next
    case (Some e)
    then have e: "wf_expr d False e" using assms by simp
    obtain st1 C where 1: "generate_expr e st = Some st1" "enc_expr d None (place_of st) e C" "out d None st C {} (d + 1) None st1" "loops st1 = loops st"
      by (rule expr_xout [OF e l(1)])
    have "out d None st (C @ [B OP_RETURN]) {} d None (pop_stack 1 (emit_byte OP_RETURN st1))" by (rule out_pop [OF out_byte [OF 1(3)]]) simp_all
    from xout_start [OF this, of env] show ?thesis using Some 1 enc_return [OF 1(2), of env] by (auto simp: emit_ending_op_def)
  qed
qed

section \<open>Loops\<close>

lemma gen_loop:
  assumes x: "xout env d st C d1 st1 {}" "loops_match env st"
    and l: "\<And>q. out d1 None st1 [LAB q] {length (fixups st1)} d2 None st2" "loops st2 = loops st1" "nexts st2 = nexts st1 @ [None]"
    and t: "label_fixup lab t" "place_le t (place_of st2)"
    and body: "\<And>T. gen_stmts ((x, t, d2, T, bs) # env) d2 body"
  obtains st3 st5 D T where "generate_stmt body (enter_loop x lab d2 (length (fixups st1)) bs st2) = Some st3" "finish_loop lab st3 = Some st5"
    "enc_stmts ((x, t, d2, T, bs) # env) d2 (place_of st2) body D" "T = label_pass (byte_pass (advance (place_of st2) D))"
    "xout env d st (C @ [LAB T] @ D @ [B OP_JUMP, LAB t]) d2 st5 {}"
proof -
  let ?l = "length (fixups st1)"
  let ?e = "enter_loop x lab d2 ?l bs st2"
  define T where "T = label_pass (byte_pass (place_of (the (generate_stmt body ?e))))"
  have x2: "xout env d st (C @ [LAB T]) d2 st2 {?l}" using xout_out [OF x(1) l(1,2)] by simp
  have m: "loops_match env st2" by (rule xoutD(6) [OF x2 x(2)])
  have "live d2 None ?e" using xoutD(2) [OF x2] by (simp add: enter_loop_def)
  then obtain st3 D where 3: "generate_stmt body ?e = Some st3" "enc_stmts ((x, t, d2, T, bs) # env) d2 (place_of ?e) body D"
      "xout ((x, t, d2, T, bs) # env) d2 ?e D d2 st3 {}"
    by (rule gen_stmtsE [OF body _ loops_match_enter [OF m t]])
  then obtain K H where k: "H \<subseteq> K" "out d2 None ?e D H d2 None st3" "exits ((x, t, d2, T, bs) # env) ?e D K st3" by (auto simp: xout_def)
  let ?st3 = "st3\<lparr>loops := butlast (loops st3)\<rparr>"
  obtain l' K0 L where 4: "exit_loop st3 = Some (l', ?st3)" "K \<subseteq> K0 \<union> L" "exits env st2 D K0 ?st3" "links st2 D st3 (Some ?l) (Some l') T L"
    using exits_leave [OF k(3)] m by (auto simp: loops_match_def)
  have o: "out d2 None st2 D H d2 None ?st3" using k(2) by (simp add: enter_loop_def)
  have x3: "xout env d2 st2 D d2 ?st3 L" unfolding xout_def using o k(1) 4(2,3) by blast
  let ?st4 = "add_known_label lab (emit_byte OP_JUMP ?st3)"
  have p3: "place_of ?st3 = advance (place_of st2) D" by (rule xoutD(3) [OF x3])
  have j: "out d2 None ?st3 [B OP_JUMP] {} d2 None (emit_byte OP_JUMP ?st3)"
    using out_byte [OF out_refl [OF xoutD(2) [OF x3]], of OP_JUMP] by simp
  have le: "place_le t (place_of (emit_byte OP_JUMP ?st3))" using place_le_advance [OF t(2)] out_place(1) [OF j] p3 by (simp add: place_le_pass [of _ _ "B OP_JUMP", simplified])
  have "out d2 None ?st3 ([B OP_JUMP] @ [LAB t]) {} d2 None ?st4" using out_ext [OF j emits_known_label [OF t(1) le]] by simp
  from xout_out [OF x3 this] have x4: "xout env d2 st2 (D @ [B OP_JUMP, LAB t]) d2 ?st4 L" by simp
  have p4: "place_of ?st4 = label_pass (byte_pass (advance (place_of st2) D))" using xoutD(3) [OF x4] by simp
  have T: "T = place_of ?st4" using p4 p3 3(1) by (simp add: T_def)
  have lk3: "links st2 D ?st3 (Some ?l) (Some l') T L" using 4(4) by (rule links_more) (simp add: nexts_def)
  have pre: "prefix (nexts ?st3) (nexts ?st4)" by (simp add: nexts_def add_known_label_def add_defs Let_def)
  have lkb: "links st2 (D @ [B OP_JUMP, LAB t]) ?st4 (Some ?l) (Some l') T L"
    using links_trans [OF lk3 links_same [OF pre]] xoutD(4) [OF x3] xoutD(4) [OF x4] by simp
  have lka: "links st (C @ [LAB T]) st2 None (Some ?l) T {?l}"
  proof -
    obtain H' where "out d None st C H' d1 None st1" using x(1) by (auto simp: xout_def)
    from links_label [OF this, of T None] show ?thesis by (rule links_more) (use l(3) in \<open>simp add: nexts_def fnext_label_state\<close>)
  qed
  note lk = links_xtrans [OF x2 x4 lka lkb]
  obtain st5 where 5: "define_label (Some l') ?st4 = Some st5" "xout env d st ((C @ [LAB T]) @ D @ [B OP_JUMP, LAB t]) d2 st5 {}"
    by (rule xout_define_links [OF xout_trans [OF x2 x4] lk T, of "{}"]) simp
  have "finish_loop lab st3 = Some st5" using 4(1) 5(1) by (simp add: finish_loop_def)
  then show ?thesis using that [of st3 st5 T D] 3(1,2) 5(2) T p4 by simp
qed

lemma place_le_label: "place_le p q \<Longrightarrow> place_le p (label_pass q)" "place_le p q \<Longrightarrow> place_le p (byte_pass q)"
  using place_le_pass [of p q "LAB q"] place_le_pass [of p q "B 0"] by simp_all

lemma gen_while:
  assumes "wf_expr d False c" "pred_option (\<lambda>i. i < MAX_VARS) x" "\<And>t T. gen_stmts ((x, t, d, T, d) # env) d body"
  shows "gen_stmt env d (STMT_WHILE x c body)"
proof (rule gen_stmtI)
  fix st assume l: "live d None st" "loops_match env st"
  obtain st1 C where 1: "generate_expr c st = Some st1" "enc_expr d None (place_of st) c C" "out d None st C {} (d + 1) None st1" "loops st1 = loops st"
    by (rule expr_xout [OF assms(1) l(1)])
  let ?st2 = "case x of None \<Rightarrow> emit_byte OP_WHILE st1 | Some i \<Rightarrow> add_var_ref i (emit_extended_byte EOP_WHILE_ID st1)"
  let ?W = "while_items x" and ?t = "place_of st"
  have 2: "out d None st (C @ ?W) {} (d + 1) None ?st2"
    using out_byte [OF 1(3), of OP_WHILE] out_var_ref [OF out_extended [OF 1(3), of EOP_WHILE_ID]] assms(2) by (cases x) (auto simp: while_items_def)
  have lp: "loops ?st2 = loops st" using 1(4) by (cases x) simp_all
  let ?st3 = "pop_stack 1 (label_state None ?st2)"
  have lab: "out (d + 1) None ?st2 [LAB q] {length (fixups ?st2)} d None ?st3" for q
    using out_pop [OF out_label [OF out_refl [OF out_live [OF 2]]], of d 1 q None] by simp
  have p3: "place_of ?st3 = label_pass (advance ?t (C @ ?W))" using out_place(1) [OF lab] out_place(1) [OF 2] by simp
  obtain st4 st5 D T where 4: "generate_stmt body (enter_loop x (capture_label st) d (length (fixups ?st2)) d ?st3) = Some st4" "finish_loop (capture_label st) st4 = Some st5"
      "enc_stmts ((x, ?t, d, T, d) # env) d (place_of ?st3) body D" "T = label_pass (byte_pass (advance (place_of ?st3) D))"
      "xout env d st ((C @ ?W) @ [LAB T] @ D @ [B OP_JUMP, LAB ?t]) d st5 {}"
  proof (rule gen_loop [OF xout_start [OF 2 lp] l(2) lab])
    show "nexts ?st3 = nexts ?st2 @ [None]" by (simp add: nexts_def fnext_label_state)
    show "place_le ?t (place_of ?st3)" unfolding p3 by (intro place_le_label place_le_advance place_le_refl)
    show "label_fixup (capture_label st) ?t" by (rule capture_label [OF l(1)])
    show "\<And>T. gen_stmts ((x, ?t, d, T, d) # env) d body" by (rule assms(3))
  qed simp_all
  have c: "cur_stack ?st3 = d" by (rule liveD(1) [OF out_live [OF lab]])
  have "enc_stmt env d ?t (STMT_WHILE x c body) (C @ ?W @ [LAB T] @ D @ [B OP_JUMP, LAB ?t])"
    by (rule enc_while [OF 1(2) _ 4(3,4)]) (use p3 in simp)
  moreover have "generate_stmt [STMT_WHILE x c body] st = Some st5" using 1(1) 4(1,2) c by (simp add: Let_def)
  ultimately show "\<exists>st' C. generate_stmt [STMT_WHILE x c body] st = Some st' \<and> enc_stmt env d ?t (STMT_WHILE x c body) C \<and> xout env d st C d st' {}"
    using 4(5) by auto
qed

lemma xout_pop: "xout env d st C D st' L \<Longrightarrow> D = d' + n \<Longrightarrow> xout env d st C d' (pop_stack n st') L"
  using xout_out [OF _ out_pop [OF out_refl], of env d st C D st' L d' n] by (auto dest: xoutD(2))

lemma gen_for_list:
  assumes "wf_expr d False e" "i < MAX_VARS" "d + 1 < MAX_DEPTH" "\<And>t T. gen_stmts ((Some i, t, d + 2, T, d) # env) (d + 2) body"
  shows "gen_stmt env d (STMT_LIST i e body)"
proof (rule gen_stmtI)
  fix st assume l: "live d None st" "loops_match env st"
  obtain st1 C where 1: "generate_expr e st = Some st1" "enc_expr d None (place_of st) e C" "out d None st C {} (d + 1) None st1" "loops st1 = loops st"
    by (rule expr_xout [OF assms(1) l(1)])
  let ?n = "OPTIM_NUM_TO_OPCODE 1"
  let ?st2 = "push_stack 1 (emit_byte ?n st1)"
  have n: "?n < 256" by (simp add: optim_num_defs)
  have 2: "out d None st (C @ [B ?n]) {} (d + 2) None ?st2" by (rule out_push [OF out_byte [OF 1(3) n]]) (use assms(3) in simp_all)
  let ?t = "place_of ?st2" and ?st3 = "add_var_ref i (emit_byte OP_FOR_LIST ?st2)"
  have 3: "out d None st (C @ [B ?n, B OP_FOR_LIST, VAR i]) {} (d + 2) None ?st3" using out_var_ref [OF out_byte [OF 2, of OP_FOR_LIST] assms(2)] by simp
  let ?st4 = "label_state None ?st3"
  have lab: "out (d + 2) None ?st3 [LAB q] {length (fixups ?st3)} (d + 2) None ?st4" for q using out_label [OF out_refl [OF out_live [OF 3]]] by simp
  have p4: "place_of ?st4 = label_pass (advance ?t [B OP_FOR_LIST, VAR i])" using out_place(1) [OF lab] out_place(1) [OF 3] out_place(1) [OF 2] by simp
  obtain st5 st6 D T where 5: "generate_stmt body (enter_loop (Some i) (capture_label ?st2) (d + 2) (length (fixups ?st3)) d ?st4) = Some st5"
      "finish_loop (capture_label ?st2) st5 = Some st6"
      "enc_stmts ((Some i, ?t, d + 2, T, d) # env) (d + 2) (place_of ?st4) body D" "T = label_pass (byte_pass (advance (place_of ?st4) D))"
      "xout env d st ((C @ [B ?n, B OP_FOR_LIST, VAR i]) @ [LAB T] @ D @ [B OP_JUMP, LAB ?t]) (d + 2) st6 {}"
  proof (rule gen_loop [OF xout_start [OF 3] l(2) lab])
    show "nexts ?st4 = nexts ?st3 @ [None]" by (simp add: nexts_def fnext_label_state)
    show "place_le ?t (place_of ?st4)" unfolding p4 by (intro place_le_label place_le_advance place_le_refl)
    show "label_fixup (capture_label ?st2) ?t" by (rule capture_label [OF out_live [OF 2]])
    show "\<And>T. gen_stmts ((Some i, ?t, d + 2, T, d) # env) (d + 2) body" by (rule assms(4))
  qed (simp_all add: 1(4))
  have c: "cur_stack ?st4 = d + 2" by (rule liveD(1) [OF out_live [OF lab]])
  have "enc_stmt env d (place_of st) (STMT_LIST i e body) (C @ [B ?n, B OP_FOR_LIST, VAR i, LAB T] @ D @ [B OP_JUMP, LAB ?t])"
    by (rule enc_for_list [OF 1(2) _ _ 5(3,4)]) (use p4 out_place(1) [OF 2] in simp_all)
  moreover have "generate_stmt [STMT_LIST i e body] st = Some (pop_stack 2 st6)" using 1(1) 5(1,2) c by (simp add: Let_def)
  ultimately show "\<exists>st' C. generate_stmt [STMT_LIST i e body] st = Some st' \<and> enc_stmt env d (place_of st) (STMT_LIST i e body) C \<and> xout env d st C d st' {}"
    using xout_pop [OF 5(5), of d 2] by auto
qed

lemma gen_for_range:
  assumes "wf_expr d False a" "wf_expr (d + 1) False b" "i < MAX_VARS" "\<And>t T. gen_stmts ((Some i, t, d + 2, T, d) # env) (d + 2) body"
  shows "gen_stmt env d (STMT_RANGE i a b body)"
proof (rule gen_stmtI)
  fix st assume l: "live d None st" "loops_match env st"
  obtain st1 C where 1: "generate_expr a st = Some st1" "enc_expr d None (place_of st) a C" "out d None st C {} (d + 1) None st1" "loops st1 = loops st"
    by (rule expr_xout [OF assms(1) l(1)])
  obtain st2 E where 2: "generate_expr b st1 = Some st2" "enc_expr (d + 1) None (place_of st1) b E" "out (d + 1) None st1 E {} (d + 1 + 1) None st2" "loops st2 = loops st1"
    by (rule expr_xout [OF assms(2) out_live [OF 1(3)]])
  have o2: "out d None st (C @ E) {} (d + 2) None st2" using out_more [OF 1(3) 2(3)] by simp
  let ?t = "place_of st2" and ?st3 = "add_var_ref i (emit_byte OP_FOR_RANGE st2)"
  have 3: "out d None st (C @ E @ [B OP_FOR_RANGE, VAR i]) {} (d + 2) None ?st3" using out_var_ref [OF out_byte [OF o2, of OP_FOR_RANGE] assms(3)] by simp
  let ?st4 = "label_state None ?st3"
  have lab: "out (d + 2) None ?st3 [LAB q] {length (fixups ?st3)} (d + 2) None ?st4" for q using out_label [OF out_refl [OF out_live [OF 3]]] by simp
  have p4: "place_of ?st4 = label_pass (advance ?t [B OP_FOR_RANGE, VAR i])" using out_place(1) [OF lab] out_place(1) [OF 3] out_place(1) [OF o2] by simp
  obtain st5 st6 D T where 5: "generate_stmt body (enter_loop (Some i) (capture_label st2) (d + 2) (length (fixups ?st3)) d ?st4) = Some st5"
      "finish_loop (capture_label st2) st5 = Some st6"
      "enc_stmts ((Some i, ?t, d + 2, T, d) # env) (d + 2) (place_of ?st4) body D" "T = label_pass (byte_pass (advance (place_of ?st4) D))"
      "xout env d st ((C @ E @ [B OP_FOR_RANGE, VAR i]) @ [LAB T] @ D @ [B OP_JUMP, LAB ?t]) (d + 2) st6 {}"
  proof (rule gen_loop [OF xout_start [OF 3] l(2) lab])
    show "nexts ?st4 = nexts ?st3 @ [None]" by (simp add: nexts_def fnext_label_state)
    show "place_le ?t (place_of ?st4)" unfolding p4 by (intro place_le_label place_le_advance place_le_refl)
    show "label_fixup (capture_label st2) ?t" by (rule capture_label [OF out_live [OF o2]])
    show "\<And>T. gen_stmts ((Some i, ?t, d + 2, T, d) # env) (d + 2) body" by (rule assms(4))
  qed (simp_all add: 1(4) 2(4))
  have c: "cur_stack ?st4 = d + 2" by (rule liveD(1) [OF out_live [OF lab]])
  have "enc_stmt env d (place_of st) (STMT_RANGE i a b body) (C @ E @ [B OP_FOR_RANGE, VAR i, LAB T] @ D @ [B OP_JUMP, LAB ?t])"
    by (rule enc_for_range [OF 1(2) _ _ _ 5(3,4)]) (use p4 2(2) out_place(1) [OF o2] out_place(1) [OF 1(3)] in simp_all)
  moreover have "generate_stmt [STMT_RANGE i a b body] st = Some (pop_stack 2 st6)" using 1(1) 2(1) 5(1,2) c by (simp add: Let_def)
  ultimately show "\<exists>st' C. generate_stmt [STMT_RANGE i a b body] st = Some st' \<and> enc_stmt env d (place_of st) (STMT_RANGE i a b body) C \<and> xout env d st C d st' {}"
    using xout_pop [OF 5(5), of d 2] by auto
qed

section \<open>Exits\<close>

lemma find_loop_result:
  assumes "\<forall>i < length env. loop_id (ls ! i) = fst (rev env ! i)" "find (\<lambda>l. fst l = Some x) env = Some e"
  shows "\<exists>n < length env. find_loop x (length env) ls = Some n \<and> rev env ! n = e"
  using assms
proof (induction env)
  case (Cons a env)
  have a: "loop_id (ls ! length env) = fst a" using Cons.prems(1) by (auto simp: nth_append)
  show ?case
  proof (cases "fst a = Some x")
    case True
    then show ?thesis using Cons.prems(2) a by (auto simp: nth_append)
  next
    case False
    have "\<forall>i < length env. loop_id (ls ! i) = fst (rev env ! i)" using Cons.prems(1) by (auto simp: nth_append less_Suc_eq)
    from Cons.IH [OF this] show ?thesis using Cons.prems(2) False a by (auto simp: nth_append)
  qed
qed simp

lemma exit_target_result:
  assumes "live d None st" "loops_match env st" "exit_loop_of x env = Some e" "pred_option (\<lambda>i. i < MAX_VARS) x"
  obtains n st1 where "n < length env" "rev env ! n = e" "exit_target x st = Some (n, st1)" "out d None st (exit_items x) {} d None st1" "loops st1 = loops st"
proof (cases x)
  case None
  then obtain env' where e: "env = e # env'" using assms(3) by (cases env) (auto simp: exit_loop_of_def)
  then have len: "length (loops st) = Suc (length env')" using assms(2) by (simp add: loops_match_def)
  then have t: "exit_target x st = Some (length env', emit_extended_byte EOP_EXIT st)" using None by (auto simp: exit_target_def)
  have "out d None st (exit_items x) {} d None (emit_extended_byte EOP_EXIT st)"
    using out_extended [OF out_refl [OF assms(1)], of EOP_EXIT] None by (simp add: exit_items_def)
  then show ?thesis using that [OF _ _ t] e by (simp add: nth_append)
next
  case (Some i)
  have "loop_id (loops st ! k) = fst (rev env ! k)" if "k < length env" for k
    using assms(2) that by (cases "rev env ! k") (auto simp: loops_match_def)
  then have "\<forall>k < length env. loop_id (loops st ! k) = fst (rev env ! k)" by blast
  moreover have "find (\<lambda>l. fst l = Some i) env = Some e" using assms(3) Some by (simp add: exit_loop_of_def)
  ultimately obtain n where n: "n < length env" "find_loop i (length env) (loops st) = Some n" "rev env ! n = e"
    using find_loop_result by blast
  then have t: "exit_target x st = Some (n, add_var_ref i (emit_extended_byte EOP_EXIT_ID st))"
    using Some assms(2) by (auto simp: exit_target_def loops_match_def)
  have "out d None st (exit_items x) {} d None (add_var_ref i (emit_extended_byte EOP_EXIT_ID st))"
    using out_var_ref [OF out_extended [OF out_refl [OF assms(1)], of EOP_EXIT_ID], of i] Some assms(4) by (simp add: exit_items_def)
  then show ?thesis using that [OF n(1,3) t] by simp
qed

lemma out_stack_ref: "out d s st C K d' s' st' \<Longrightarrow> out d s st (C @ [STK n]) K d' s' (add_stack_ref n st')"
  using out_ext [OF _ emits_stack_ref] by force

lemma gen_continue:
  assumes "exit_loop_of x env = Some e" "pred_option (\<lambda>i. i < MAX_VARS) x"
  shows "gen_stmt env d (STMT_CONTINUE x)"
proof (rule gen_stmtI)
  fix st assume l: "live d None st" "loops_match env st"
  obtain n st1 where 1: "n < length env" "rev env ! n = e" "exit_target x st = Some (n, st1)" "out d None st (exit_items x) {} d None st1" "loops st1 = loops st"
    by (rule exit_target_result [OF l assms])
  obtain i t ts b bs where e: "e = (i, t, ts, b, bs)" by (metis prod_cases5)
  let ?lp = "loops st1 ! n"
  have lp: "label_fixup (top_label ?lp) t" "place_le t (place_of st)" "top_stack ?lp = ts" using l(2) 1(1,2,5) e by (auto simp: loops_match_def)
  note 2 = out_stack_ref [OF 1(4), of ts]
  have "place_le t (place_of (add_stack_ref ts st1))" using place_le_label(2) [OF place_le_advance [OF lp(2)]] out_place(1) [OF 2] by simp
  from out_ext [OF 2 emits_known_label [OF lp(1) this]]
  have "out d None st (exit_items x @ [STK ts, LAB t]) {} d None (add_known_label (top_label ?lp) (add_stack_ref ts st1))" by simp
  from xout_start [OF this, of env] show "\<exists>st' C. generate_stmt [STMT_CONTINUE x] st = Some st' \<and> enc_stmt env d (place_of st) (STMT_CONTINUE x) C \<and> xout env d st C d st' {}"
    using 1(3,5) lp(3) enc_continue [OF assms(1) [unfolded e], of d "place_of st"] by (auto simp: generate_exit_def Let_def)
qed

lemma gen_break:
  assumes "exit_loop_of x env = Some e" "pred_option (\<lambda>i. i < MAX_VARS) x"
  shows "gen_stmt env d (STMT_BREAK x)"
proof (rule gen_stmtI)
  fix st assume l: "live d None st" "loops_match env st"
  obtain n st1 where 1: "n < length env" "rev env ! n = e" "exit_target x st = Some (n, st1)" "out d None st (exit_items x) {} d None st1" "loops st1 = loops st"
    by (rule exit_target_result [OF l assms])
  obtain i t ts b bs where e: "e = (i, t, ts, b, bs)" by (metis prod_cases5)
  let ?lp = "loops st ! n" and ?nx = "Some (bottom_label (loops st ! n))"
  let ?st2 = "add_stack_ref bs st1" and ?C = "exit_items x @ [STK bs]"
  let ?m = "length (fixups ?st2)" and ?st3 = "label_state ?nx ?st2"
  let ?st4 = "?st3\<lparr>loops := (loops st)[n := ?lp\<lparr>bottom_label := ?m\<rparr>]\<rparr>"
  have bs: "bottom_stack ?lp = bs" and len: "length (loops st) = length env" using l(2) 1(1,2) e by (auto simp: loops_match_def)
  have 2: "out d None st ?C {} d None ?st2" by (rule out_stack_ref [OF 1(4)])
  have 3: "out d None st (?C @ [LAB b]) {?m} d None ?st3" by (rule out_label [OF 2])
  have nx: "nexts ?st4 = nexts ?st3" by (simp add: nexts_def)
  have pre: "prefix (nexts st) (nexts ?st4)" using out_place(3) [OF 3] by (simp add: nexts_def)
  have "exits env st (?C @ [LAB b]) {?m} ?st4" unfolding exits_def
  proof (intro conjI exI [of _ "\<lambda>i. if i = n then {?m} else {}"] allI impI)
    show "{?m} \<subseteq> (\<Union>i < length env. if i = n then {?m} else {})" using 1(1) by auto
    fix i assume i: "i < length env"
    show "loops ?st4 ! i = (loops st ! i)\<lparr>bottom_label := bottom_label (loops ?st4 ! i)\<rparr>"
      using i len by (cases "i = n") simp_all
    show "links st (?C @ [LAB b]) ?st4 (Some (bottom_label (loops st ! i))) (Some (bottom_label (loops ?st4 ! i))) (bottom_of (rev env ! i)) (if i = n then {?m} else {})"
    proof (cases "i = n")
      case True
      then show ?thesis using links_more [OF links_label [OF 2, of b ?nx] nx] 1(2) e i len by simp
    next
      case False
      then show ?thesis using links_same [OF pre] i len by simp
    qed
  qed simp
  then have "xout env d st (?C @ [LAB b]) d ?st4 {}" unfolding xout_def using 3 by (intro exI [of _ "{?m}"]) simp
  moreover have "generate_stmt [STMT_BREAK x] st = Some ?st4"
    using 1(3,5) bs by (simp add: generate_exit_def Let_def)
  ultimately show "\<exists>st' C. generate_stmt [STMT_BREAK x] st = Some st' \<and> enc_stmt env d (place_of st) (STMT_BREAK x) C \<and> xout env d st C d st' {}"
    using enc_break [OF assms(1) [unfolded e], of d "place_of st"] by auto
qed

section \<open>Conditionals\<close>

definition gen_arms :: "loop_env \<Rightarrow> nat \<Rightarrow> Cond_Arm list \<Rightarrow> bool" where
  "gen_arms env d arms \<longleftrightarrow> (\<forall>st l T first. live d None st \<longrightarrow> loops_match env st \<longrightarrow>
     (\<exists>l' st' C L. generate_arms arms (if first then OP_IF else OP_EIF) l st = Some (l', st') \<and>
        enc_arms env d first (place_of st) arms T C \<and> xout env d st C d st' L \<and> links st C st' l l' T L))"

lemma gen_armsE:
  assumes "gen_arms env d arms" "live d None st" "loops_match env st"
  obtains l' st' C L where "generate_arms arms (if first then OP_IF else OP_EIF) l st = Some (l', st')" "enc_arms env d first (place_of st) arms T C"
    "xout env d st C d st' L" "links st C st' l l' T L"
  using assms unfolding gen_arms_def by blast

lemma gen_no_arm: "gen_arms env d []"
  unfolding gen_arms_def using enc_no_arm xout_refl links_stay [OF xout_refl] by fastforce

lemma gen_arm:
  assumes "wf_expr d False c" "gen_stmts env d body" "gen_arms env d arms"
  shows "gen_arms env d ((c, body) # arms)"
  unfolding gen_arms_def
proof (intro allI impI)
  fix st l T first assume lv: "live d None st" "loops_match env st"
  let ?op = "if first then OP_IF else OP_EIF"
  obtain st1 C where 1: "generate_expr c st = Some st1" "enc_expr d None (place_of st) c C" "out d None st C {} (d + 1) None st1" "loops st1 = loops st"
    by (rule expr_xout [OF assms(1) lv(1)])
  let ?e = "length (fixups st1)" and ?st2 = "pop_stack 1 (label_state None (emit_byte ?op st1))"
  have b1: "out d None st (C @ [B ?op]) {} (d + 1) None (emit_byte ?op st1)" by (rule out_byte [OF 1(3)]) simp
  have 2: "xout env d st (C @ [B ?op, LAB q]) d ?st2 {?e}" for q
    by (rule xout_start) (use out_pop [OF out_label [OF b1, of q None], of d 1] 1(4) in simp_all)
  obtain st3 D where 3: "generate_stmt body ?st2 = Some st3" "enc_stmts env d (place_of ?st2) body D" "xout env d ?st2 D d st3 {}"
    by (rule gen_stmtsE [OF assms(2) xoutD(2) [OF 2] xoutD(6) [OF 2 lv(2)]])
  let ?st4 = "label_state l (emit_byte OP_JUMP st3)" and ?m = "length (fixups st3)"
  let ?r = "place_of ?st4"
  have bj: "out d None st3 [B OP_JUMP] {} d None (emit_byte OP_JUMP st3)" using out_byte [OF out_refl [OF xoutD(2) [OF 3(3)]], of OP_JUMP] by simp
  have j: "xout env d st3 [B OP_JUMP, LAB T] d ?st4 {?m}" by (rule xout_start) (use out_label [OF bj, of T l] in simp_all)
  have lj: "links st3 [B OP_JUMP, LAB T] ?st4 l (Some ?m) T {?m}" using links_label [OF bj, of T l] by simp
  let ?C2 = "C @ [B ?op, LAB ?r]" and ?D = "D @ [B OP_JUMP, LAB T]"
  have x3: "xout env d ?st2 ?D d ?st4 {?m}" using xout_trans [OF 3(3) j] by simp
  have x4: "xout env d st (?C2 @ ?D) d ?st4 ({?e} \<union> {?m})" by (rule xout_trans [OF 2 x3])
  have l3: "links ?st2 ?D ?st4 l (Some ?m) T {?m}" using links_xtrans [OF 3(3) j links_stay [OF 3(3)] lj] by simp
  have l4: "links st (?C2 @ ?D) ?st4 l (Some ?m) T {?m}" using links_xtrans [OF 2 x3 links_stay [OF 2] l3] by simp
  have "hole_at st ?C2 ?st2 ?e ?r" using hole_at_label [OF b1, of ?r] by (simp add: hole_at_def)
  note h = hole_at_xlater [OF 2 this x3]
  obtain st5 where 5: "define_label (Some ?e) ?st4 = Some st5" "xout env d st (?C2 @ ?D) d st5 {?m}" "place_of st5 = ?r" "nexts st5 = nexts ?st4" "loops st5 = loops ?st4"
    by (rule xout_define_hole [OF x4 h refl, of "{?m}"]) auto
  obtain l' st6 E L where 6: "generate_arms arms OP_EIF (Some ?m) st5 = Some (l', st6)" "enc_arms env d False (place_of st5) arms T E" "xout env d st5 E d st6 L"
      "links st5 E st6 (Some ?m) l' T L"
    by (rule gen_armsE [OF assms(3) xoutD(2) [OF 5(2)] xoutD(6) [OF 5(2) lv(2)], where first = False]) simp
  have "links st ((?C2 @ ?D) @ E) st6 l l' T ({?m} \<union> L)" by (rule links_xtrans [OF 5(2) 6(3) links_more [OF l4 5(4)] 6(4)])
  moreover have "xout env d st ((?C2 @ ?D) @ E) d st6 ({?m} \<union> L)" by (rule xout_trans [OF 5(2) 6(3)])
  moreover have "generate_arms ((c, body) # arms) ?op l st = Some (l', st6)" using 1(1) 3(1) 5(1) 6(1) by simp
  moreover have "enc_arms env d first (place_of st) ((c, body) # arms) T (C @ [B ?op, LAB ?r] @ D @ [B OP_JUMP, LAB T] @ E)"
    by (rule enc_arm [OF 1(2) _ 3(2)]) (use 6(2) 5(3) xoutD(3) [OF 2] xoutD(3) [OF x3] in simp_all)
  ultimately show "\<exists>l' st' C L. generate_arms ((c, body) # arms) ?op l st = Some (l', st') \<and> enc_arms env d first (place_of st) ((c, body) # arms) T C \<and>
    xout env d st C d st' L \<and> links st C st' l l' T L" by (intro exI conjI) (assumption | simp)+
qed

lemma gen_if:
  assumes "arms \<noteq> []" "gen_arms env d arms" "gen_stmts env d other"
  shows "gen_stmt env d (STMT_COND arms other)"
proof (rule gen_stmtI)
  fix st assume lv: "live d None st" "loops_match env st"
  define T where "T = place_of (the (do { (l, st) \<leftarrow> generate_arms arms OP_IF None st; generate_stmt other st }))"
  obtain l st1 C L where 1: "generate_arms arms OP_IF None st = Some (l, st1)" "enc_arms env d True (place_of st) arms T C" "xout env d st C d st1 L"
      "links st C st1 None l T L"
    by (rule gen_armsE [OF assms(2) lv, where first = True]) simp
  obtain st2 D where 2: "generate_stmt other st1 = Some st2" "enc_stmts env d (place_of st1) other D" "xout env d st1 D d st2 {}"
    by (rule gen_stmtsE [OF assms(3) xoutD(2) [OF 1(3)] xoutD(6) [OF 1(3) lv(2)]])
  have T: "T = place_of st2" using 1(1) 2(1) by (simp add: T_def)
  have lk: "links st (C @ D) st2 None l T L" using links_xtrans [OF 1(3) 2(3) 1(4) links_stay [OF 2(3)]] by simp
  obtain st3 where 3: "define_label l st2 = Some st3" "xout env d st (C @ D) d st3 {}"
    by (rule xout_define_links [OF xout_trans [OF 1(3) 2(3)] lk T, of "{}"]) simp
  have "enc_stmt env d (place_of st) (STMT_COND arms other) (C @ D)"
    by (rule enc_if [OF assms(1) 1(2)]) (use 2(2) xoutD(3) [OF 1(3)] xoutD(3) [OF 2(3)] T in simp_all)
  then show "\<exists>st' C. generate_stmt [STMT_COND arms other] st = Some st' \<and> enc_stmt env d (place_of st) (STMT_COND arms other) C \<and> xout env d st C d st' {}"
    using 1(1) 2(1) 3 by auto
qed

end
