(* ===== verification/Code_Gen_Top.thy ===== *)
theory Code_Gen_Top
  imports Code_Gen_Loops
begin

text \<open>Statements with handlers, forks, and whole programs. \<open>generate_code_encoded\<close>: the compiler
  succeeds on every well-formed tree and its program holds the code of the tree.\<close>

section \<open>Try statements\<close>

lemma xout_push: "xout env d st C d1 st' L \<Longrightarrow> D = d1 + n \<Longrightarrow> D \<le> MAX_DEPTH \<Longrightarrow> xout env d st C D (push_stack n st') L"
  using xout_out [OF _ out_push [OF out_refl], of env d st C d1 st' L D n] by (auto dest: xoutD(2))

lemma xout_byte: "xout env d st C d1 st' L \<Longrightarrow> b < 256 \<Longrightarrow> xout env d st (C @ [B b]) d1 (emit_byte b st') L"
  using xout_out [OF _ out_byte [OF out_refl], of env d st C d1 st' L b] by (auto dest: xoutD(2))

lemma xout_extended: "xout env d st C d1 st' L \<Longrightarrow> b < 256 \<Longrightarrow> xout env d st (C @ [B OP_EXTENDED, B b]) d1 (emit_extended_byte b st') L"
  using xout_out [OF _ out_extended [OF out_refl], of env d st C d1 st' L b] by (auto dest: xoutD(2))

lemma gen_try_finally:
  assumes "gen_stmts env (d + 1) body" "gen_stmts env (d + 2) handler" "d + 1 < MAX_DEPTH"
  shows "gen_stmt env d (STMT_TRY_FINALLY body handler)"
proof (rule gen_stmtI)
  fix st assume lv: "live d None st" "loops_match env st"
  let ?F = "[B OP_EXTENDED, B EOP_TRY_FINALLY]" and ?N = "[B OP_EXTENDED, B EOP_END_FINALLY]" and ?c = "[B OP_EXTENDED, B EOP_CONTINUE]"
  let ?e = "emit_extended_byte EOP_TRY_FINALLY st" and ?l = "length (fixups st)"
  let ?st2 = "push_stack 1 (label_state None ?e)"
  have e: "out d None st ?F {} d None ?e" using out_extended [OF out_refl [OF lv(1)], of EOP_TRY_FINALLY] by simp
  have 2: "xout env d st (?F @ [LAB q]) (d + 1) ?st2 {?l}" for q
    by (rule xout_push [OF xout_start]) (use out_label [OF e, of q None] assms(3) in simp_all)
  obtain st3 C where 3: "generate_stmt body ?st2 = Some st3" "enc_stmts env (d + 1) (place_of ?st2) body C" "xout env (d + 1) ?st2 C (d + 1) st3 {}"
    by (rule gen_stmtsE [OF assms(1) xoutD(2) [OF 2] xoutD(6) [OF 2 lv(2)]])
  let ?st4 = "pop_stack 1 (emit_extended_byte EOP_END_FINALLY st3)"
  let ?r = "place_of ?st4"
  have x3: "xout env (d + 1) ?st2 (C @ ?N) d ?st4 {}" by (rule xout_pop [OF xout_extended [OF 3(3)]]) simp_all
  have x4: "xout env d st ((?F @ [LAB ?r]) @ C @ ?N) d ?st4 ({?l} \<union> {})" by (rule xout_trans [OF 2 x3])
  have "hole_at st (?F @ [LAB ?r]) ?st2 ?l ?r" using hole_at_label [OF e, of ?r] by (simp add: hole_at_def)
  note h = hole_at_xlater [OF 2 this x3]
  obtain st5 where 5: "define_label (Some ?l) ?st4 = Some st5" "xout env d st ((?F @ [LAB ?r]) @ C @ ?N) d st5 {}" "place_of st5 = ?r"
    by (rule xout_define_hole [OF x4 h refl, of "{}"]) auto
  have x5: "xout env d st ((?F @ [LAB ?r]) @ C @ ?N) (d + 2) (push_stack 2 st5) {}" by (rule xout_push [OF 5(2)]) (use assms(3) in simp_all)
  have p5: "place_of (push_stack 2 st5) = ?r" using xoutD(3) [OF x5] xoutD(3) [OF 5(2)] 5(3) by simp
  obtain st6 D where 6: "generate_stmt handler (push_stack 2 st5) = Some st6" "enc_stmts env (d + 2) ?r handler D" "xout env (d + 2) (push_stack 2 st5) D (d + 2) st6 {}"
    using gen_stmtsE [OF assms(2) xoutD(2) [OF x5] xoutD(6) [OF x5 lv(2)]] p5 by metis
  have "xout env d st (((?F @ [LAB ?r]) @ C @ ?N) @ D) (d + 2) st6 {}" using xout_trans [OF x5 6(3)] by simp
  from xout_pop [OF xout_extended [OF this, of EOP_CONTINUE], of d 2]
  have "xout env d st ([B OP_EXTENDED, B EOP_TRY_FINALLY, LAB ?r] @ C @ ?N @ D @ ?c) d (pop_stack 2 (emit_extended_byte EOP_CONTINUE st6)) {}" by simp
  moreover have "enc_stmt env d (place_of st) (STMT_TRY_FINALLY body handler) ([B OP_EXTENDED, B EOP_TRY_FINALLY, LAB ?r] @ C @ ?N @ D @ ?c)"
  proof (rule enc_try_finally [OF _ 3(2) _ 6(2)])
    show "place_of ?st2 = label_pass (byte_pass (byte_pass (place_of st)))" using xoutD(3) [OF 2] by simp
    show "?r = byte_pass (byte_pass (advance (place_of ?st2) C))" using xoutD(3) [OF x3] by simp
  qed
  moreover have "generate_stmt [STMT_TRY_FINALLY body handler] st = Some (pop_stack 2 (emit_extended_byte EOP_CONTINUE st6))"
    using 3(1) 5(1) 6(1) by simp
  ultimately show "\<exists>st' C. generate_stmt [STMT_TRY_FINALLY body handler] st = Some st' \<and> enc_stmt env d (place_of st) (STMT_TRY_FINALLY body handler) C \<and> xout env d st C d st' {}"
    by blast
qed

text \<open>The codes and labels of the handlers.\<close>

fun wf_codes :: "nat \<Rightarrow> Except_Arm list \<Rightarrow> bool" where
  "wf_codes d [] \<longleftrightarrow> True"
| "wf_codes d ((i, codes, body) # exs) \<longleftrightarrow> wf_args True d False codes \<and> wf_codes (d + 2) exs"

lemma wf_heads_codes: "wf_heads ls d d' exs \<Longrightarrow> wf_codes d' exs"
  by (induction exs arbitrary: d') auto

lemma gen_heads:
  "wf_codes d exs \<Longrightarrow> d + 2 * length exs < MAX_DEPTH \<Longrightarrow> live d None st \<Longrightarrow>
    \<exists>labels st'. except_labels exs st = Some (labels, st') \<and> loops st' = loops st \<and> length labels = length exs \<and>
      (\<forall>Ls. length Ls = length exs \<longrightarrow> (\<exists>C. enc_heads d (place_of st) exs Ls C \<and> out d None st C (set labels) (d + 2 * length exs) None st' \<and>
        list_all2 (hole_at st C st') labels Ls))"
proof (induction exs arbitrary: d st)
  case Nil
  then show ?case using out_refl [of d None st] enc_no_head [of d "place_of st"] by auto
next
  case (Cons ex exs)
  obtain i codes body where ex: "ex = (i, codes, body)" by (metis prod_cases3)
  have w: "wf_args True d False codes" "wf_codes (d + 2) exs" using Cons.prems(1) ex by auto
  have "gen_args True d None codes" using generate_expr_enc(3) [of False None True d codes] w(1) by simp
  then have gc: "produces (generate_codes codes) d None (d + 1) (\<lambda>p. enc_codes d None p codes)" using gen_codes Cons.prems(2) by simp
  obtain st1 C where 1: "generate_codes codes st = Some st1" "enc_codes d None (place_of st) codes C" "out d None st C {} (d + 1) None st1" "loops st1 = loops st"
    by (rule producesE [OF gc Cons.prems(3)])
  let ?P = "[B OP_EXTENDED, B EOP_PUSH_LABEL]" and ?e = "emit_extended_byte EOP_PUSH_LABEL st1" and ?l = "length (fixups st1)"
  let ?st2 = "push_stack 1 (label_state None ?e)"
  have e: "out d None st (C @ ?P) {} (d + 1) None ?e" by (rule out_extended [OF 1(3)]) simp
  have 2: "out d None st (C @ ?P @ [LAB q]) {?l} (d + 2) None ?st2" for q
    using out_push [OF out_label [OF e, of q None], of "d + 2" 1] Cons.prems(2) by simp
  obtain labels st' where r: "except_labels exs ?st2 = Some (labels, st')" "loops st' = loops ?st2" "length labels = length exs"
      "\<And>Ls. length Ls = length exs \<Longrightarrow> \<exists>D. enc_heads (d + 2) (place_of ?st2) exs Ls D \<and> out (d + 2) None ?st2 D (set labels) (d + 2 + 2 * length exs) None st' \<and>
        list_all2 (hole_at ?st2 D st') labels Ls"
    using Cons.IH [OF w(2) _ out_live [OF 2]] Cons.prems(2) by auto
  have "\<exists>C. enc_heads d (place_of st) (ex # exs) Ls C \<and> out d None st C (set (?l # labels)) (d + 2 * length (ex # exs)) None st' \<and>
      list_all2 (hole_at st C st') (?l # labels) Ls" if len: "length Ls = length (ex # exs)" for Ls
  proof -
    obtain L Ls' where L: "Ls = L # Ls'" "length Ls' = length exs" using len by (cases Ls) auto
    obtain D where D: "enc_heads (d + 2) (place_of ?st2) exs Ls' D" "out (d + 2) None ?st2 D (set labels) (d + 2 + 2 * length exs) None st'"
        "list_all2 (hole_at ?st2 D st') labels Ls'" using r(4) [OF L(2)] by blast
    let ?C = "C @ [B OP_EXTENDED, B EOP_PUSH_LABEL, LAB L] @ D"
    have "enc_heads d (place_of st) (ex # exs) Ls ?C" unfolding ex L
      by (rule enc_head [OF 1(2) refl]) (use D(1) out_place(1) [OF 2] in simp)
    moreover have "out d None st ?C (set (?l # labels)) (d + 2 * length (ex # exs)) None st'" using out_trans [OF 2 D(2), of L] by simp
    moreover have "hole_at st (C @ ?P @ [LAB L]) ?st2 ?l L" using hole_at_label [OF e, of L] by (simp add: hole_at_def)
    from hole_at_later [OF 2 this D(2)] have "hole_at st ?C st' ?l L" by simp
    moreover have "list_all2 (hole_at st ?C st') labels Ls'"
      by (rule list_all2_mono [OF D(3)]) (use hole_at_earlier [OF 2, of D st'] in simp)
    ultimately show ?thesis using L(1) by blast
  qed
  then show ?case using 1(1,4) r(1-3) ex by (intro exI [of _ "?l # labels"] exI [of _ st']) auto
qed

text \<open>One handler, and the places where the handlers start.\<close>

definition generate_handler :: "bool \<Rightarrow> Except_Arm \<Rightarrow> nat \<Rightarrow> nat \<Rightarrow> state \<Rightarrow> (nat \<times> state) option" where
  "generate_handler final ex label end_label st =
     (case ex of (i, codes, body) \<Rightarrow>
        do {
          st \<leftarrow> define_label (Some label) st;
          let st = push_stack 1 st;
          let st = (case i of Some x \<Rightarrow> emit_var_op OP_PUT x st | None \<Rightarrow> st);
          st \<leftarrow> generate_stmt body (pop_stack 1 (emit_byte OP_POP st));
          Some (if final then (end_label, st) else add_linked_label (Some end_label) (emit_byte OP_JUMP st))
        })"

lemma generate_handlers_cons:
  "generate_handlers (x # exs) labels l st =
     Option.bind (generate_handler (exs = []) x (hd labels) l st) (\<lambda>(l, st). generate_handlers exs (tl labels) l st)"
  by (cases x) (simp add: generate_handler_def Let_def case_prod_unfold)

fun handler_places :: "Except_Arm list \<Rightarrow> nat list \<Rightarrow> nat \<Rightarrow> state \<Rightarrow> place list" where
  "handler_places [] labels l st = []"
| "handler_places (x # exs) labels l st =
     place_of st # (case the (generate_handler (exs = []) x (hd labels) l st) of (l', st') \<Rightarrow> handler_places exs (tl labels) l' st')"

lemma length_handler_places: "length (handler_places exs labels l st) = length exs"
  by (induction exs arbitrary: labels l st) (auto split: prod.split)

lemma links_from: "nexts st1 = nexts st \<Longrightarrow> links st1 C st' l l' T K = links st C st' l l' T K"
  by (metis (no_types, lifting) length_map links_def nexts_def)

lemma gen_handler_body:
  assumes "pred_option (\<lambda>i. i < MAX_VARS) i" "gen_stmts env d body" "d < MAX_DEPTH" "live d None st" "loops_match env st"
  obtains l' st' C J M where "Option.bind (generate_stmt body (pop_stack 1 (emit_byte OP_POP (case i of Some x \<Rightarrow> emit_var_op OP_PUT x (push_stack 1 st) | None \<Rightarrow> push_stack 1 st))))
      (\<lambda>st. Some (if final then (l, st) else add_linked_label (Some l) (emit_byte OP_JUMP st))) = Some (l', st')"
    "enc_stmts env d (advance (place_of st) (handler_items i)) body C" "J = (if final then [] else [B OP_JUMP, LAB T])"
    "xout env d st (handler_items i @ C @ J) d st' M" "links st (handler_items i @ C @ J) st' (Some l) (Some l') T M"
proof -
  let ?p = "push_stack 1 st" and ?st2 = "pop_stack 1 (emit_byte OP_POP (case i of Some x \<Rightarrow> emit_var_op OP_PUT x (push_stack 1 st) | None \<Rightarrow> push_stack 1 st))"
  have p: "out d None st [] {} (d + 1) None ?p" by (rule out_push [OF out_refl [OF assms(4)]]) (use assms(3) in simp_all)
  have "out d None st (handler_items i) {} d None ?st2"
  proof (cases i)
    case None
    then show ?thesis using out_pop [OF out_byte [OF p, of OP_POP], of d 1] by (simp add: handler_items_def)
  next
    case (Some x)
    then show ?thesis using out_pop [OF out_byte [OF out_var_op [OF p, of x OP_PUT], of OP_POP], of d 1] assms(1) by (simp add: handler_items_def)
  qed
  moreover have "loops ?st2 = loops st" by (cases i) simp_all
  ultimately have 2: "xout env d st (handler_items i) d ?st2 {}" by (rule xout_start)
  obtain st3 C where 3: "generate_stmt body ?st2 = Some st3" "enc_stmts env d (place_of ?st2) body C" "xout env d ?st2 C d st3 {}"
    by (rule gen_stmtsE [OF assms(2) xoutD(2) [OF 2] xoutD(6) [OF 2 assms(5)]])
  have 4: "xout env d st (handler_items i @ C) d st3 {}" using xout_trans [OF 2 3(3)] by simp
  have e: "enc_stmts env d (advance (place_of st) (handler_items i)) body C" using 3(2) xoutD(3) [OF 2] by simp
  show ?thesis
  proof (cases final)
    case True
    then show ?thesis using that [of l st3 C "[]" "{}"] 3(1) e 4 links_stay [OF 4] by simp
  next
    case False
    let ?m = "length (fixups st3)" and ?st4 = "label_state (Some l) (emit_byte OP_JUMP st3)"
    have bj: "out d None st3 [B OP_JUMP] {} d None (emit_byte OP_JUMP st3)" using out_byte [OF out_refl [OF xoutD(2) [OF 4]], of OP_JUMP] by simp
    have j: "xout env d st3 [B OP_JUMP, LAB T] d ?st4 {?m}" by (rule xout_start) (use out_label [OF bj, of T "Some l"] in simp_all)
    have lj: "links st3 [B OP_JUMP, LAB T] ?st4 (Some l) (Some ?m) T {?m}" using links_label [OF bj, of T "Some l"] by simp
    show ?thesis using that [of ?m ?st4 C "[B OP_JUMP, LAB T]" "{?m}"] False 3(1) e xout_trans [OF 4 j] links_xtrans [OF 4 j links_stay [OF 4] lj] by simp
  qed
qed

lemma gen_handlers:
  "\<forall>(i, codes, body) \<in> set exs. pred_option (\<lambda>i. i < MAX_VARS) i \<and> gen_stmts env d body \<Longrightarrow> d < MAX_DEPTH \<Longrightarrow>
    xout env d st0 C0 d st L \<Longrightarrow> loops_match env st0 \<Longrightarrow> list_all2 (hole_at st0 C0 st) labels (handler_places exs labels l st) \<Longrightarrow>
    \<exists>l' st' C M. generate_handlers exs labels l st = Some (l', st') \<and> enc_handlers env d (place_of st) exs (handler_places exs labels l st) T C \<and>
      xout env d st0 (C0 @ C) d st' ((L - set labels) \<union> M) \<and> links st C st' (Some l) (Some l') T M"
proof (induction exs arbitrary: C0 st L labels l)
  case Nil
  then show ?case using enc_no_handler [of env d "place_of st" T] links_same [of st st "[]" "Some l" T]
    by (intro exI [of _ l] exI [of _ st] exI [of _ "[]"] exI [of _ "{}"]) simp
next
  case (Cons ex exs)
  obtain i codes body where ex: "ex = (i, codes, body)" by (metis prod_cases3)
  have b: "pred_option (\<lambda>i. i < MAX_VARS) i" "gen_stmts env d body" using Cons.prems(1) ex by auto
  obtain lb labels' where lb: "labels = lb # labels'" using Cons.prems(5) by (cases labels) auto
  have h: "hole_at st0 C0 st lb (place_of st)" using Cons.prems(5) lb by simp
  obtain st1 where 1: "define_label (Some lb) st = Some st1" "xout env d st0 C0 d st1 (L - {lb})" "place_of st1 = place_of st" "nexts st1 = nexts st" "loops st1 = loops st"
    by (rule xout_define_hole [OF Cons.prems(3) h refl subset_refl])
  obtain l1 st2 C J M where 2: "Option.bind (generate_stmt body (pop_stack 1 (emit_byte OP_POP (case i of Some x \<Rightarrow> emit_var_op OP_PUT x (push_stack 1 st1) | None \<Rightarrow> push_stack 1 st1))))
      (\<lambda>st. Some (if exs = [] then (l, st) else add_linked_label (Some l) (emit_byte OP_JUMP st))) = Some (l1, st2)"
    "enc_stmts env d (advance (place_of st1) (handler_items i)) body C" "J = (if exs = [] then [] else [B OP_JUMP, LAB T])"
    "xout env d st1 (handler_items i @ C @ J) d st2 M" "links st1 (handler_items i @ C @ J) st2 (Some l) (Some l1) T M"
    by (rule gen_handler_body [OF b Cons.prems(2) xoutD(2) [OF 1(2)] xoutD(6) [OF 1(2) Cons.prems(4)], where final = "exs = []" and l = l and T = T])
  let ?S = "handler_items i @ C @ J"
  have g: "generate_handler (exs = []) ex (hd labels) l st = Some (l1, st2)" using 1(1) 2(1) ex lb by (simp add: generate_handler_def Let_def cong: option.case_cong)
  have x2: "xout env d st0 (C0 @ ?S) d st2 (L - {lb} \<union> M)" by (rule xout_trans [OF 1(2) 2(4)])
  have "list_all2 (hole_at st0 (C0 @ ?S) st2) labels' (handler_places exs labels' l1 st2)"
  proof -
    have "list_all2 (hole_at st0 C0 st) labels' (handler_places exs labels' l1 st2)" using Cons.prems(5) lb g by simp
    moreover have "hole_at st0 (C0 @ ?S) st2 x q" if "hole_at st0 C0 st x q" for x q
      by (rule hole_at_xlater [OF 1(2) hole_at_same [OF that] 2(4)]) (use 1(4) in \<open>simp add: nexts_def\<close>)
    ultimately show ?thesis by (rule list_all2_mono)
  qed
  from Cons.IH [OF _ Cons.prems(2) x2 Cons.prems(4) this] Cons.prems(1)
  obtain l' st' D N where r: "generate_handlers exs labels' l1 st2 = Some (l', st')" "enc_handlers env d (place_of st2) exs (handler_places exs labels' l1 st2) T D"
      "xout env d st0 ((C0 @ ?S) @ D) d st' ((L - {lb} \<union> M) - set labels' \<union> N)" "links st2 D st' (Some l1) (Some l') T N" by auto
  have "generate_handlers (ex # exs) labels l st = Some (l', st')" using g r(1) lb by (simp add: generate_handlers_cons [of ex exs])
  moreover have "enc_handlers env d (place_of st) (ex # exs) (handler_places (ex # exs) labels l st) T (handler_items i @ C @ J @ D)"
    unfolding ex
  proof -
    have "enc_handlers env d (place_of st) ((i, codes, body) # exs) (place_of st # handler_places exs labels' l1 st2) T (handler_items i @ C @ J @ D)"
      by (rule enc_handler [OF refl _ 2(3)]) (use 2(2) r(2) 1(3) xoutD(3) [OF 2(4)] in simp_all)
    then show "enc_handlers env d (place_of st) ((i, codes, body) # exs) (handler_places ((i, codes, body) # exs) labels l st) T (handler_items i @ C @ J @ D)"
      using g ex lb by simp
  qed
  moreover have "xout env d st0 (C0 @ handler_items i @ C @ J @ D) d st' (L - set labels \<union> (M \<union> N))"
    by (rule xout_mono [where L = "(L - {lb} \<union> M) - set labels' \<union> N"]) (use r(3) lb in auto)
  moreover have "links st (handler_items i @ C @ J @ D) st' (Some l) (Some l') T (M \<union> N)"
  proof -
    have "length (fixups st2) \<le> length (fixups st')" using xoutD(4) [OF x2] xoutD(4) [OF r(3)] by simp
    moreover have "length (fixups st) = length (fixups st1)" using arg_cong [OF 1(4), of length] by (simp add: nexts_def)
    ultimately show ?thesis using links_trans [OF 2(5) [unfolded links_from [OF 1(4)]] r(4)] xoutD(4) [OF 2(4)] by simp
  qed
  ultimately show ?case by blast
qed

lemma gen_try_except:
  assumes "exs \<noteq> []" "length exs < 256" "d + 2 * length exs < MAX_DEPTH" "wf_codes d exs"
    and "\<forall>(i, codes, body) \<in> set exs. pred_option (\<lambda>i. i < MAX_VARS) i \<and> gen_stmts env d body" "gen_stmts env (d + 2 * length exs + 1) body"
  shows "gen_stmt env d (STMT_TRY_EXCEPT body exs)"
proof (rule gen_stmtI)
  fix st assume lv: "live d None st" "loops_match env st"
  let ?n = "length exs"
  obtain labels st1 where 1: "except_labels exs st = Some (labels, st1)" "loops st1 = loops st" "length labels = ?n"
      "\<And>Ls. length Ls = ?n \<Longrightarrow> \<exists>C. enc_heads d (place_of st) exs Ls C \<and> out d None st C (set labels) (d + 2 * ?n) None st1 \<and> list_all2 (hole_at st C st1) labels Ls"
    using gen_heads [OF assms(4,3) lv(1)] by blast
  let ?H = "[B OP_EXTENDED, B EOP_TRY_EXCEPT, B ?n]" and ?N = "[B OP_EXTENDED, B EOP_END_EXCEPT]"
  let ?st2 = "push_stack 1 (emit_byte ?n (emit_extended_byte EOP_TRY_EXCEPT st1))"
  define st3 where "st3 = the (generate_stmt body ?st2)"
  let ?e = "emit_extended_byte EOP_END_EXCEPT st3" and ?m = "length (fixups st3)"
  define st4 where "st4 = pop_stack (2 * ?n + 1) (label_state None ?e)"
  define Ls where "Ls = handler_places exs labels ?m st4"
  define T where "T = place_of (snd (the (generate_handlers exs labels ?m st4)))"
  have len: "length Ls = ?n" by (simp add: Ls_def length_handler_places)
  obtain C where C: "enc_heads d (place_of st) exs Ls C" "out d None st C (set labels) (d + 2 * ?n) None st1" "list_all2 (hole_at st C st1) labels Ls"
    using 1(4) [OF len] by blast
  have x1: "xout env d st C (d + 2 * ?n) st1 (set labels)" by (rule xout_start [OF C(2) 1(2)])
  have "xout env d st ((C @ [B OP_EXTENDED, B EOP_TRY_EXCEPT]) @ [B ?n]) (d + 2 * ?n + 1) ?st2 (set labels)"
    by (rule xout_push [OF xout_byte [OF xout_extended [OF x1]]]) (use assms(2,3) in simp_all)
  then have 2: "xout env d st (C @ ?H) (d + 2 * ?n + 1) ?st2 (set labels)" by simp
  have h2: "xout env (d + 2 * ?n) st1 ?H (d + 2 * ?n + 1) ?st2 {}"
    using xout_push [OF xout_byte [OF xout_extended [OF xout_refl [OF xoutD(2) [OF x1]], of EOP_TRY_EXCEPT], of ?n], of "d + 2 * ?n + 1" 1] assms(2,3) by simp
  obtain st3' D where 3: "generate_stmt body ?st2 = Some st3'" "enc_stmts env (d + 2 * ?n + 1) (place_of ?st2) body D"
      "xout env (d + 2 * ?n + 1) ?st2 D (d + 2 * ?n + 1) st3' {}"
    by (rule gen_stmtsE [OF assms(6) xoutD(2) [OF 2] xoutD(6) [OF 2 lv(2)]])
  have st3: "st3' = st3" using 3(1) by (simp add: st3_def)
  have e: "out (d + 2 * ?n + 1) None st3 ?N {} (d + 2 * ?n + 1) None ?e"
    using out_extended [OF out_refl [OF xoutD(2) [OF 3(3)]], of EOP_END_EXCEPT] st3 by simp
  have 4: "xout env (d + 2 * ?n + 1) st3 (?N @ [LAB T]) d st4 {?m}" unfolding st4_def
    by (rule xout_start) (use out_pop [OF out_label [OF e, of T None], of d "2 * ?n + 1"] in simp_all)
  let ?R = "D @ ?N @ [LAB T]" and ?C0 = "(C @ ?H) @ D @ ?N @ [LAB T]"
  have x3: "xout env (d + 2 * ?n + 1) ?st2 ?R d st4 {?m}" using xout_trans [OF 3(3) 4 [folded st3]] st3 by simp
  have x4: "xout env d st ?C0 d st4 (set labels \<union> {?m})" by (rule xout_trans [OF 2 x3])
  have "list_all2 (hole_at st ?C0 st4) labels Ls"
  proof (rule list_all2_mono [OF C(3)])
    fix x q assume "hole_at st C st1 x q"
    from hole_at_xlater [OF 2 hole_at_xlater [OF x1 this h2] x3] show "hole_at st ?C0 st4 x q" by simp
  qed
  then have hs: "list_all2 (hole_at st ?C0 st4) labels (handler_places exs labels ?m st4)" by (simp add: Ls_def)
  have "d < MAX_DEPTH" using assms(3) by simp
  from gen_handlers [OF assms(5) this x4 lv(2) hs, of T] obtain l' st5 E M where 5: "generate_handlers exs labels ?m st4 = Some (l', st5)"
      "enc_handlers env d (place_of st4) exs Ls T E" "xout env d st (?C0 @ E) d st5 ((set labels \<union> {?m} - set labels) \<union> M)" "links st4 E st5 (Some ?m) (Some l') T M"
    unfolding Ls_def by blast
  have T: "T = place_of st5" using 5(1) by (simp add: T_def)
  have l4: "links st3 (?N @ [LAB T]) st4 None (Some ?m) T {?m}" using links_more [OF links_label [OF e, of T None], of st4] by (simp add: st4_def nexts_def)
  have "links ?st2 ?R st4 None (Some ?m) T {?m}" using links_xtrans [OF 3(3) 4 [folded st3] links_stay [OF 3(3)] l4 [folded st3]] st3 by simp
  then have "links st ?C0 st4 None (Some ?m) T {?m}" using links_xtrans [OF 2 x3 links_stay [OF 2]] by simp
  then have lk: "links st (?C0 @ E) st5 None (Some l') T ({?m} \<union> M)"
    by (rule links_trans [OF _ 5(4)]) (use xoutD(4) [OF x4] xoutD(4) [OF 5(3)] in simp_all)
  obtain st6 where 6: "define_label (Some l') st5 = Some st6" "xout env d st (?C0 @ E) d st6 {}"
    by (rule xout_define_links [OF 5(3) lk T, of "{}"]) auto
  have "generate_stmt [STMT_TRY_EXCEPT body exs] st = Some st6" using 1(1) 3(1) st3 5(1) 6(1) by (simp add: st4_def)
  moreover have "enc_stmt env d (place_of st) (STMT_TRY_EXCEPT body exs) (C @ ?H @ D @ [B OP_EXTENDED, B EOP_END_EXCEPT, LAB T] @ E)"
  proof (rule enc_try_except [OF C(1) refl _ 3(2) _ 5(2)])
    show "place_of ?st2 = advance (place_of st) (C @ ?H)" by (rule xoutD(3) [OF 2])
    show "place_of st4 = label_pass (byte_pass (byte_pass (advance (place_of ?st2) D)))" using xoutD(3) [OF x3] by simp
    show "T = advance (place_of st4) E" using T xoutD(3) [OF 5(3)] xoutD(3) [OF x4] by simp
  qed
  moreover have "xout env d st (C @ ?H @ D @ [B OP_EXTENDED, B EOP_END_EXCEPT, LAB T] @ E) d st6 {}" using 6(2) by simp
  ultimately show "\<exists>st' C. generate_stmt [STMT_TRY_EXCEPT body exs] st = Some st' \<and> enc_stmt env d (place_of st) (STMT_TRY_EXCEPT body exs) C \<and> xout env d st C d st' {}"
    by blast
qed

section \<open>Forks and whole programs\<close>

lemma stmt_to_code_encoded:
  assumes "gen_stmts [] 0 body" "\<forall>v \<in> set (g_literals g). wf_literal v"
  obtains bc g' where "stmt_to_code body g = Some (bc, g')" "grows g g'" "\<forall>v \<in> set (g_literals g'). wf_literal v"
    "small_tables g' \<and> bc_size bc < 2 ^ 32 \<longrightarrow> encoded (tables g') bc body"
proof -
  let ?st = "init_state g"
  have o: "ok {} 0 None [] ?st" using assms(2) by (simp add: ok_def init_state_def place_of_def origin_def fits_def MAX_DEPTH_def)
  have p: "place_of ?st = origin" by (simp add: init_state_def place_of_def origin_def)
  have lv: "live 0 None ?st" using o by (auto simp: live_def)
  have m: "loops_match [] ?st" by (simp add: loops_match_def init_state_def)
  obtain st1 C where 1: "generate_stmt body ?st = Some st1" "enc_stmts [] 0 (place_of ?st) body C" "xout [] 0 ?st C 0 st1 {}"
    by (rule gen_stmtsE [OF assms(1) lv m])
  have x: "out 0 None ?st C {} 0 None st1" using 1(3) by (auto simp: xout_def exits_def)
  then have o1: "ok {} 0 None C st1" using o unfolding out_def emits_def by (metis Un_empty_right append_Nil)
  let ?st2 = "emit_ending_op OP_DONE st1"
  have g: "gs ?st2 = gs st1" by (simp add: emit_ending_op_def emit_byte_def)
  obtain bc where bc: "finish_code ?st2 = Some bc" "small_tables (gs st1) \<Longrightarrow> bc_size bc < 2 ^ 32 \<Longrightarrow> encoded (tables (gs st1)) bc body"
    using finish_code_encoded [OF o1 1(2) [unfolded p] refl] g by auto
  have "grows g (gs st1)" using x by (simp add: out_def emits_def init_state_def)
  then show ?thesis using that [of bc "gs st1"] 1(1) bc g liveD(4) [OF out_live [OF x]] by simp
qed

lemma gen_fork:
  assumes "pred_option (\<lambda>i. i < MAX_VARS) x" "wf_expr d False e" "gen_stmts [] 0 body"
  shows "gen_stmt env d (STMT_FORK x e body)"
proof (rule gen_stmtI)
  fix st assume lv: "live d None st" "loops_match env st"
  obtain st1 C where 1: "generate_expr e st = Some st1" "enc_expr d None (place_of st) e C" "out d None st C {} (d + 1) None st1" "loops st1 = loops st"
    by (rule expr_xout [OF assms(2) lv(1)])
  define op where "op = (if x \<noteq> None then OP_FORK_WITH_ID else OP_FORK)"
  let ?st2 = "emit_byte op st1"
  have 2: "out d None st (C @ [B op]) {} (d + 1) None ?st2" by (rule out_byte [OF 1(3)]) (simp add: op_def)
  obtain bc g where 3: "stmt_to_code body (gs ?st2) = Some (bc, g)" "grows (gs ?st2) g" "\<forall>v \<in> set (g_literals g). wf_literal v"
      "small_tables g \<and> bc_size bc < 2 ^ 32 \<longrightarrow> encoded (tables g) bc body"
    by (rule stmt_to_code_encoded [OF assms(3) liveD(4) [OF out_live [OF 2]]])
  let ?st3 = "add_fork bc (?st2\<lparr>gs := g\<rparr>)"
  have gs3: "gs ?st3 = g\<lparr>g_fork_vectors := g_fork_vectors g @ [bc]\<rparr>" by (simp add: add_fork_def add_defs Let_def)
  have gr: "grows g (gs ?st3)" by (simp add: gs3 grows_def)
  have fk: "fork_ok (gs ?st3) body bc" unfolding fork_ok_def
  proof
    assume s: "small_tables (gs ?st3)"
    then have "encoded (tables g) bc body" using 3(4) small_tables_grows [OF gr s] by (simp add: small_tables_def gs3)
    then show "encoded (tables (gs ?st3)) bc body" by (rule encoded_extends [rotated]) (simp add: extends_def tables_def gs3)
  qed
  have "emits (d + 1) None ?st2 [FORK body] {} (d + 1) None ?st3"
    by (rule emits_fix [where f = "last (fixups ?st3)"])
      (use fk 3(3) grows_trans [OF 3(2) gr] gs3 in \<open>simp_all add: add_fork_def add_defs Let_def place_of_def pass.simps\<close>)
  from out_ext [OF 2 this] have o3: "out d None st (C @ [B op, FORK body]) {} (d + 1) None ?st3" by simp
  let ?st4 = "case x of Some i \<Rightarrow> add_var_ref i ?st3 | None \<Rightarrow> ?st3"
  have "out d None st (C @ fork_items x body) {} (d + 1) None ?st4"
    using o3 out_var_ref [OF o3] assms(1) by (cases x) (auto simp: fork_items_def op_def)
  from out_pop [OF this, of d 1] have "out d None st (C @ fork_items x body) {} d None (pop_stack 1 ?st4)" by simp
  moreover have "loops (pop_stack 1 ?st4) = loops st" using 1(4) by (cases x) (simp_all add: add_fork_def add_defs Let_def)
  ultimately have "xout env d st (C @ fork_items x body) d (pop_stack 1 ?st4) {}" by (rule xout_start)
  moreover have "generate_stmt [STMT_FORK x e body] st = Some (pop_stack 1 ?st4)" using 1(1) 3(1) by (cases x) (simp_all add: Let_def op_def del: stmt_to_code.simps)
  ultimately show "\<exists>st' C. generate_stmt [STMT_FORK x e body] st = Some st' \<and> enc_stmt env d (place_of st) (STMT_FORK x e body) C \<and> xout env d st C d st' {}"
    using enc_fork [OF 1(2), of env x body] by blast
qed

lemma exit_loop_found:
  assumes "case x of None \<Rightarrow> map fst env \<noteq> [] | Some i \<Rightarrow> i < MAX_VARS \<and> Some i \<in> set (map fst env)"
  shows "\<exists>e. exit_loop_of x env = Some e" "pred_option (\<lambda>i. i < MAX_VARS) x"
proof -
  show "\<exists>e. exit_loop_of x env = Some e"
  proof (cases x)
    case None
    then show ?thesis using assms by (cases env) (auto simp: exit_loop_of_def)
  next
    case (Some i)
    then obtain l where "l \<in> set env" "fst l = Some i" using assms by fastforce
    then have "find (\<lambda>l. fst l = Some i) env \<noteq> None" unfolding find_None_iff by blast
    then show ?thesis using Some by (auto simp: exit_loop_of_def)
  qed
  show "pred_option (\<lambda>i. i < MAX_VARS) x" using assms by (cases x) auto
qed

theorem generate_stmt_enc:
  "wf_stmts (map fst env) d xs \<Longrightarrow> gen_stmts env d xs"
  "wf_stmt (map fst env) d x \<Longrightarrow> gen_stmt env d x"
  "wf_arms (map fst env) d arms \<Longrightarrow> gen_arms env d arms"
  "wf_heads (map fst env) d d' exs \<Longrightarrow> \<forall>(i, codes, body) \<in> set exs. pred_option (\<lambda>i. i < MAX_VARS) i \<and> gen_stmts env d body"
proof (induction "map fst env" d xs and "map fst env" d x and "map fst env" d arms and "map fst env" d d' exs
    arbitrary: env and env and env and env rule: wf_stmts_wf_stmt_wf_arms_wf_heads.induct)
  case (1 d)
  show ?case by (rule gen_nil)
next
  case (2 d x xs)
  then show ?case by (intro gen_cons) simp_all
next
  case (3 d arms other)
  then show ?case by (intro gen_if) simp_all
next
  case (4 d i e body)
  then show ?case by (intro gen_for_list) simp_all
next
  case (5 d i a b body)
  then show ?case by (intro gen_for_range) simp_all
next
  case (6 d x c body)
  then show ?case by (intro gen_while) simp_all
next
  case (7 d x e body)
  then show ?case by (intro gen_fork) simp_all
next
  case (8 d e)
  then show ?case by (intro gen_expr_stmt) simp_all
next
  case (9 d x)
  then show ?case by (intro gen_return) (simp split: option.splits)
next
  case (10 d body exs)
  then show ?case by (intro gen_try_except) (auto dest: wf_heads_codes)
next
  case (11 d body handler)
  then show ?case by (intro gen_try_finally) simp_all
next
  case (12 d x)
  then show ?case using exit_loop_found [of env x] gen_break by auto
next
  case (13 d x)
  then show ?case using exit_loop_found [of env x] gen_continue by auto
next
  case (14 d)
  show ?case by (rule gen_no_arm)
next
  case (15 d c body arms)
  then show ?case by (intro gen_arm) simp_all
next
  case (16 d d')
  show ?case by simp
next
  case (17 d d' i codes body exs)
  then show ?case by auto
qed

text \<open>Programs whose vectors can be addressed with four bytes.\<close>

definition small_program :: "Program \<Rightarrow> bool" where
  "small_program prog \<longleftrightarrow> length (literals prog) < 2 ^ 32 \<and> length (fork_vectors prog) < 2 ^ 32 \<and>
     list_all (\<lambda>bc. bc_size bc < 2 ^ 32) (main_vector prog # fork_vectors prog)"

lemma generate_code_encoded:
  assumes "wf_stmts [] 0 ss"
  obtains prog where "generate_code ss = Some prog" "small_program prog \<Longrightarrow> encoded prog (main_vector prog) ss"
proof -
  have "gen_stmts [] 0 ss" using generate_stmt_enc(1) [of "[]"] assms by simp
  then obtain bc g where g: "stmt_to_code ss init_gstate = Some (bc, g)" "small_tables g \<and> bc_size bc < 2 ^ 32 \<longrightarrow> encoded (tables g) bc ss"
    by (rule stmt_to_code_encoded [where g = init_gstate]) (simp_all add: init_gstate_def)
  let ?prog = "\<lparr>main_vector = bc, literals = g_literals g, fork_vectors = g_fork_vectors g\<rparr>"
  have "encoded ?prog bc ss" if "small_program ?prog"
    by (rule encoded_extends [OF _ mp [OF g(2)]]) (use that in \<open>simp_all add: extends_def tables_def small_tables_def small_program_def\<close>)
  then show ?thesis using that [of ?prog] g(1) by (simp add: generate_code_def del: stmt_to_code.simps)
qed

end
