(* ===== verification/Round_Trip.thy ===== *)
theory Round_Trip
  imports Code_Gen_Top
begin

text \<open>
  Compiling and decompiling a program, and the limits of both.
\<close>

section \<open>The round trip\<close>

text \<open>C5: every program that the parser can build, within the limits of \<open>wf_stmts\<close> (fewer variables
  than the opcode \<^verbatim>\<open>OP_PUSH_TEMP\<close>, a stack of at most 256 values, no NaN or negative zero among the
  literals, loop exits inside a loop of that name, and what the grammar guarantees), is compiled without a
  panic; and unless a vector or table has \<^verbatim>\<open>2\<^sup>3\<^sup>2\<close> or more entries, decompiling the result gives back
  the same program, with all its nested forks, loops and handlers.\<close>

theorem compile_decompile:
  assumes "wf_stmts [] 0 ss"
  shows "\<exists>prog. generate_code ss = Some prog \<and> (small_program prog \<longrightarrow> decompile_program prog None = Some ss)"
proof -
  obtain prog where p: "generate_code ss = Some prog" "small_program prog \<longrightarrow> encoded prog (main_vector prog) ss"
    using generate_code_encoded [OF assms] by blast
  have "decompile_program prog None = Some ss" if "small_program prog"
    using decompile_encoded [OF mp [OF p(2) that]] by (auto simp: yields_def decompile_program_def Let_def)
  then show ?thesis using p(1) by blast
qed

definition sample_program :: "Stmt list" where
  "sample_program =
     [STMT_WHILE None (EXPR_ID 33)
        [STMT_COND [(EXPR_ID 3, [STMT_BREAK None])]
           [STMT_EXPR (EXPR_ASGN (EXPR_INDEX (EXPR_ID 4) (EXPR_VAR (TYPE_INT 1))) (EXPR_VAR (TYPE_STR ''none'')))]],
      STMT_FORK None (EXPR_VAR (TYPE_INT 5)) [STMT_RETURN None]]"

theorem compile_decompile_witness: "decompile_program (the (generate_code sample_program)) None = Some sample_program"
proof -
  have "wf_stmts [] 0 sample_program" by (simp add: sample_program_def MAX_VARS_def MAX_DEPTH_def wf_literal_def scatter_ok_def)
  moreover have "map_option (\<lambda>p. (length (literals p), length (fork_vectors p), map bc_size (main_vector p # fork_vectors p))) (generate_code sample_program) =
      Some (1, 1, [29, 2])" by code_simp
  then have "small_program (the (generate_code sample_program))" by (auto simp: small_program_def)
  ultimately show ?thesis using compile_decompile [of sample_program] by auto
qed

section \<open>Beyond the limits\<close>

text \<open>An indexed assignment to variable 106, whose number is the opcode the decompiler searches for, cannot be decompiled.\<close>

lemma indexed_assignment_106:
  "decompile_program (the (generate_code [STMT_EXPR (EXPR_ASGN (EXPR_INDEX (EXPR_ID 106) (EXPR_VAR (TYPE_INT 1))) (EXPR_VAR (TYPE_INT 2)))])) None = None"
  by code_simp

text \<open>Stack positions that need two bytes are not counted in the size of the vector, so that expanding them writes behind its end.\<close>

lemma stack_position_overrun: "finish_code (add_stack_ref 300 (init_state init_gstate)\<lparr>max_stack := 301\<rparr>) = None"
  by code_simp

text \<open>The variable number 256 is given one byte, which stores zero.\<close>

lemma variable_256_truncated: "ref_bytes (ref_size 256) 256 = [0]"
  by code_simp

text \<open>Negative zero is interned as zero when zero was used before it.\<close>

lemma negative_zero_interned: "find_literal (TYPE_FLOAT (word_of_int (2 ^ 63))) [TYPE_FLOAT 0] 0 = Some 0"
  by code_simp

end
