(* ===== verification/Numbers.thy ===== *)
theory Numbers
  imports Values
begin

text \<open>
  Numbers (\<^verbatim>\<open>numbers.c\<close>): reading them from strings, the arithmetic and comparison operators
  of the language, and the built-in functions on numbers.

  Integers are computed with their width written out: \<open>wrap64\<close> is what the machine does with
  an \<^verbatim>\<open>int64_t\<close> sum, difference or product that leaves the range. A division that the machine
  traps on (\<^verbatim>\<open>INT64_MIN / -1\<close>) has no result, \<open>None\<close>. The arithmetic of doubles and the functions
  of the C library's \<^verbatim>\<open>math.h\<close>, \<^verbatim>\<open>strtod\<close> and \<^verbatim>\<open>sprintf\<close> on doubles are the fields of a record
  \<open>fpu\<close>; comparison, negation and absolute value of doubles are exact on their bit patterns.
\<close>

section \<open>The floating-point unit\<close>

datatype math_errno = Errno_0 | EDOM | Errno_other

datatype mathfn =
    Fn_sqrt | Fn_sin | Fn_cos | Fn_tan | Fn_asin | Fn_acos | Fn_atan | Fn_sinh | Fn_cosh | Fn_tanh
  | Fn_asinh | Fn_acosh | Fn_atanh | Fn_exp | Fn_log | Fn_log10 | Fn_ceil | Fn_floor | Fn_expm1
  | Fn_log1p | Fn_erf | Fn_erfc | Fn_lgamma | Fn_j0 | Fn_j1 | Fn_y0 | Fn_y1

record fpu =
  fp_add :: "double \<Rightarrow> double \<Rightarrow> double"
  fp_sub :: "double \<Rightarrow> double \<Rightarrow> double"
  fp_mul :: "double \<Rightarrow> double \<Rightarrow> double"
  fp_div :: "double \<Rightarrow> double \<Rightarrow> double"
  fp_fmod :: "double \<Rightarrow> double \<Rightarrow> double"
  fp_pow :: "double \<Rightarrow> double \<Rightarrow> double \<times> math_errno"
  fp_math :: "mathfn \<Rightarrow> double \<Rightarrow> double \<times> math_errno"
  fp_atan2 :: "double \<Rightarrow> double \<Rightarrow> double \<times> math_errno"
  fp_jn :: "int \<Rightarrow> double \<Rightarrow> double \<times> math_errno"
  fp_of_int :: "Num \<Rightarrow> double"
  fp_to_int :: "double \<Rightarrow> Num"
  fp_to_cint :: "double \<Rightarrow> int"
  fp_strtod :: "string \<Rightarrow> double \<times> string"
  fp_format :: "Num \<Rightarrow> bool \<Rightarrow> double \<Rightarrow> string"
  fp_DECIMAL_DIG :: Num

definition dbl_neg :: "double \<Rightarrow> double" where
  "dbl_neg d = d XOR 0x8000000000000000"

definition dbl_fabs :: "double \<Rightarrow> double" where
  "dbl_fabs d = d AND 0x7FFFFFFFFFFFFFFF"

definition dbl_zero :: double where
  "dbl_zero = 0"

section \<open>Reading numbers\<close>

definition isspace :: "char \<Rightarrow> bool" where
  "isspace c \<longleftrightarrow> c = CHR '' '' \<or> 9 \<le> byte c \<and> byte c \<le> 13"

definition isdigit :: "char \<Rightarrow> bool" where
  "isdigit c \<longleftrightarrow> 48 \<le> byte c \<and> byte c \<le> 57"

fun digits_value :: "int \<Rightarrow> string \<Rightarrow> int" where
  "digits_value acc [] = acc"
| "digits_value acc (c # s) = digits_value (acc * 10 + (byte c - 48)) s"

definition clamp64 :: "int \<Rightarrow> int" where
  "clamp64 x = (if x > 2 ^ 63 - 1 then 2 ^ 63 - 1 else if x < - (2 ^ 63) then - (2 ^ 63) else x)"

text \<open>\<^verbatim>\<open>strtoimax(s, &p, 10)\<close> and \<^verbatim>\<open>strtol\<close>: the value and the rest of the string at \<^verbatim>\<open>p\<close>; without
  digits the rest is the whole string. Out-of-range values are clamped.\<close>

definition strtoimax :: "string \<Rightarrow> int \<times> string" where
  "strtoimax s =
     (let t = dropWhile isspace s;
          neg = (hd0 t = CHR ''-'');
          u = (if hd0 t = CHR ''-'' \<or> hd0 t = CHR ''+'' then tl t else t);
          ds = takeWhile isdigit u
      in if ds = [] then (0, s)
         else (clamp64 (if neg then - digits_value 0 ds else digits_value 0 ds), dropWhile isdigit u))"

definition only_blanks :: "string \<Rightarrow> bool" where
  "only_blanks p \<longleftrightarrow> list_all (\<lambda>c. c = CHR '' '') (cstr p)"

definition parse_number :: "fpu \<Rightarrow> string \<Rightarrow> bool \<Rightarrow> Num option" where
  "parse_number F str try_floating_point =
     (let (r1, p1) = strtoimax str;
          (r, p) = (if try_floating_point
                       \<and> (p1 = str \<or> hd0 p1 = CHR ''.'' \<or> hd0 p1 = CHR ''e'' \<or> hd0 p1 = CHR ''E'')
                    then (let (d, q) = fp_strtod F str in (fp_to_int F d, q))
                    else (r1, p1))
      in if p = str then None else if only_blanks p then Some r else None)"

definition skip_blanks :: "string \<Rightarrow> string" where
  "skip_blanks s = dropWhile (\<lambda>c. c = CHR '' '') s"

definition parse_object :: "fpu \<Rightarrow> string \<Rightarrow> Objid option" where
  "parse_object F str =
     (let s = skip_blanks str
      in parse_number F (if hd0 s = CHR ''#'' then tl s else s) False)"

definition parse_float :: "fpu \<Rightarrow> string \<Rightarrow> double option" where
  "parse_float F str =
     (let s0 = skip_blanks str; negative = (hd0 s0 = CHR ''-'');
          s = (if negative then tl s0 else s0);
          (d, p) = fp_strtod F s
      in if p = s then None
         else if only_blanks p then Some (if negative then dbl_neg d else d)
         else None)"

fun become_integer :: "fpu \<Rightarrow> Var \<Rightarrow> bool \<Rightarrow> error + Num" where
  "become_integer F (TYPE_INT n) called_from_tonum = Inr n"
| "become_integer F (TYPE_STR s) called_from_tonum =
     Inr (case (if called_from_tonum then parse_number F s True else parse_object F s) of
            Some n \<Rightarrow> n
          | None \<Rightarrow> 0)"
| "become_integer F (TYPE_OBJ n) called_from_tonum = Inr n"
| "become_integer F (TYPE_ERR e) called_from_tonum = Inr (error_number e)"
| "become_integer F (TYPE_FLOAT d) called_from_tonum =
     (if \<not> IS_REAL d then Inl E_FLOAT else Inr (fp_to_int F d))"
| "become_integer F v called_from_tonum = Inl E_TYPE"

fun become_float :: "fpu \<Rightarrow> Var \<Rightarrow> error + double" where
  "become_float F (TYPE_INT n) = Inr (fp_of_int F n)"
| "become_float F (TYPE_STR s) =
     (case parse_float F s of
        None \<Rightarrow> Inl E_INVARG
      | Some d \<Rightarrow> if \<not> IS_REAL d then Inl E_INVARG else Inr d)"
| "become_float F (TYPE_OBJ n) = Inr (fp_of_int F n)"
| "become_float F (TYPE_ERR e) = Inr (fp_of_int F (error_number e))"
| "become_float F (TYPE_FLOAT d) = Inr d"
| "become_float F v = Inl E_TYPE"

section \<open>Operators\<close>

definition compare_integers :: "Num \<Rightarrow> Num \<Rightarrow> int" where
  "compare_integers a b = (if a < b then - 1 else if a > b then 1 else 0)"

text \<open>The callers of the operators pass only integers and floats; on other values the code reads
  the wrong member of the union, and the model has no result.\<close>

definition compare_numbers :: "Var \<Rightarrow> Var \<Rightarrow> Var option" where
  "compare_numbers a b =
     (if var_type a \<noteq> var_type b then Some (TYPE_ERR E_TYPE)
      else case (a, b) of
             (TYPE_INT m, TYPE_INT n) \<Rightarrow> Some (TYPE_INT (if m < n then - 1 else if m > n then 1 else 0))
           | (TYPE_FLOAT d, TYPE_FLOAT e) \<Rightarrow>
               Some (TYPE_INT (if dbl_less d e then - 1 else if dbl_less e d then 1 else 0))
           | _ \<Rightarrow> None)"

definition float_result :: "double \<Rightarrow> Var" where
  "float_result d = (if \<not> IS_REAL d then TYPE_ERR E_FLOAT else TYPE_FLOAT d)"

definition SIMPLE_BINARY :: "(int \<Rightarrow> int \<Rightarrow> int) \<Rightarrow> (double \<Rightarrow> double \<Rightarrow> double) \<Rightarrow> Var \<Rightarrow> Var \<Rightarrow> Var option" where
  "SIMPLE_BINARY iop fop a b =
     (if var_type a \<noteq> var_type b then Some (TYPE_ERR E_TYPE)
      else case (a, b) of
             (TYPE_INT m, TYPE_INT n) \<Rightarrow> Some (TYPE_INT (wrap64 (iop m n)))
           | (TYPE_FLOAT d, TYPE_FLOAT e) \<Rightarrow> Some (float_result (fop d e))
           | _ \<Rightarrow> None)"

definition do_add :: "fpu \<Rightarrow> Var \<Rightarrow> Var \<Rightarrow> Var option" where
  "do_add F = SIMPLE_BINARY (+) (fp_add F)"

definition do_subtract :: "fpu \<Rightarrow> Var \<Rightarrow> Var \<Rightarrow> Var option" where
  "do_subtract F = SIMPLE_BINARY (-) (fp_sub F)"

definition do_multiply :: "fpu \<Rightarrow> Var \<Rightarrow> Var \<Rightarrow> Var option" where
  "do_multiply F = SIMPLE_BINARY (*) (fp_mul F)"

text \<open>C's \<^verbatim>\<open>/\<close> and \<^verbatim>\<open>%\<close> truncate towards zero.\<close>

definition c_div :: "int \<Rightarrow> int \<Rightarrow> int" where
  "c_div a b = sgn a * sgn b * (\<bar>a\<bar> div \<bar>b\<bar>)"

definition c_mod :: "int \<Rightarrow> int \<Rightarrow> int" where
  "c_mod a b = sgn a * (\<bar>a\<bar> mod \<bar>b\<bar>)"

definition DIVISION_OP :: "(int \<Rightarrow> int \<Rightarrow> int) \<Rightarrow> (double \<Rightarrow> double \<Rightarrow> double) \<Rightarrow> Var \<Rightarrow> Var \<Rightarrow> Var option" where
  "DIVISION_OP iop fop a b =
     (if var_type a \<noteq> var_type b then Some (TYPE_ERR E_TYPE)
      else case (a, b) of
             (TYPE_INT m, TYPE_INT n) \<Rightarrow>
               if n \<noteq> 0 then if m = - (2 ^ 63) \<and> n = - 1 then None else Some (TYPE_INT (iop m n))
               else Some (TYPE_ERR E_DIV)
           | (TYPE_FLOAT d, TYPE_FLOAT e) \<Rightarrow>
               if \<not> dbl_eq e dbl_zero then Some (float_result (fop d e)) else Some (TYPE_ERR E_DIV)
           | _ \<Rightarrow> None)"

definition do_divide :: "fpu \<Rightarrow> Var \<Rightarrow> Var \<Rightarrow> Var option" where
  "do_divide F = DIVISION_OP c_div (fp_div F)"

definition do_modulus :: "fpu \<Rightarrow> Var \<Rightarrow> Var \<Rightarrow> Var option" where
  "do_modulus F = DIVISION_OP c_mod (fp_fmod F)"

text \<open>The loop of the integer power: square and multiply, in 64 bits.\<close>

function power_loop :: "Num \<Rightarrow> Num \<Rightarrow> Num \<Rightarrow> Num" where
  "power_loop a b r =
     (if b \<le> 0 then r
      else power_loop (wrap64 (a * a)) (b div 2) (if b mod 2 = 1 then wrap64 (r * a) else r))"
  by pat_completeness auto
termination by (relation "measure (\<lambda>(a, b, r). nat b)") auto

declare power_loop.simps [simp del]

definition do_power :: "fpu \<Rightarrow> Var \<Rightarrow> Var \<Rightarrow> Var" where
  "do_power F lhs rhs =
     (case lhs of
        TYPE_INT a \<Rightarrow>
          (case rhs of
             TYPE_INT b \<Rightarrow>
               if b < 0
               then if a = - 1 then TYPE_INT (if b mod 2 = 1 then 1 else - 1)
                    else if a = 0 then TYPE_ERR E_DIV
                    else if a = 1 then TYPE_INT 1
                    else TYPE_INT 0
               else TYPE_INT (power_loop a b 1)
           | _ \<Rightarrow> TYPE_ERR E_TYPE)
      | TYPE_FLOAT a \<Rightarrow>
          (case (case rhs of TYPE_INT b \<Rightarrow> Some (fp_of_int F b) | TYPE_FLOAT b \<Rightarrow> Some b | _ \<Rightarrow> None) of
             None \<Rightarrow> TYPE_ERR E_TYPE
           | Some e \<Rightarrow>
               let (d, err) = fp_pow F a e
               in if err \<noteq> Errno_0 \<or> \<not> IS_REAL d then TYPE_ERR E_FLOAT else TYPE_FLOAT d)
      | _ \<Rightarrow> TYPE_ERR E_TYPE)"

section \<open>Built-in functions\<close>

text \<open>The arguments have the types the functions are registered with; on other arguments the
  model has no result.\<close>

definition bf_toint :: "fpu \<Rightarrow> Var list \<Rightarrow> package" where
  "bf_toint F arglist =
     (case become_integer F (elt arglist 1) True of Inl e \<Rightarrow> Inl e | Inr n \<Rightarrow> Inr (TYPE_INT n))"

definition bf_tofloat :: "fpu \<Rightarrow> Var list \<Rightarrow> package" where
  "bf_tofloat F arglist =
     (case become_float F (elt arglist 1) of Inl e \<Rightarrow> Inl e | Inr d \<Rightarrow> Inr (TYPE_FLOAT d))"

text \<open>The loops of \<open>bf_min\<close> and \<open>bf_max\<close>; \<open>bad\<close> is the flag \<^verbatim>\<open>bad_types\<close>.\<close>

fun extreme_int :: "(Num \<Rightarrow> Num \<Rightarrow> bool) \<Rightarrow> Num \<Rightarrow> bool \<Rightarrow> Var list \<Rightarrow> Num \<times> bool" where
  "extreme_int better r bad [] = (r, bad)"
| "extreme_int better r bad (v # vs) =
     (case v of
        TYPE_INT n \<Rightarrow> extreme_int better (if better n r then n else r) bad vs
      | _ \<Rightarrow> extreme_int better r True vs)"

fun extreme_float :: "(double \<Rightarrow> double \<Rightarrow> bool) \<Rightarrow> double \<Rightarrow> bool \<Rightarrow> Var list \<Rightarrow> double \<times> bool" where
  "extreme_float better r bad [] = (r, bad)"
| "extreme_float better r bad (v # vs) =
     (case v of
        TYPE_FLOAT d \<Rightarrow> extreme_float better (if better d r then d else r) bad vs
      | _ \<Rightarrow> extreme_float better r True vs)"

definition extreme :: "(Num \<Rightarrow> Num \<Rightarrow> bool) \<Rightarrow> (double \<Rightarrow> double \<Rightarrow> bool) \<Rightarrow> Var list \<Rightarrow> package option" where
  "extreme ibetter fbetter arglist =
     (case arglist of
        TYPE_INT n # vs \<Rightarrow>
          let (r, bad) = extreme_int ibetter n False vs in Some (if bad then Inl E_TYPE else Inr (TYPE_INT r))
      | TYPE_FLOAT d # vs \<Rightarrow>
          let (r, bad) = extreme_float fbetter d False vs in Some (if bad then Inl E_TYPE else Inr (TYPE_FLOAT r))
      | _ \<Rightarrow> None)"

definition bf_min :: "Var list \<Rightarrow> package option" where
  "bf_min = extreme (<) dbl_less"

definition bf_max :: "Var list \<Rightarrow> package option" where
  "bf_max = extreme (>) (\<lambda>a b. dbl_less b a)"

definition bf_abs :: "Var list \<Rightarrow> package option" where
  "bf_abs arglist =
     (case elt arglist 1 of
        TYPE_INT n \<Rightarrow> Some (Inr (TYPE_INT (if n < 0 then wrap64 (- n) else n)))
      | TYPE_FLOAT d \<Rightarrow> Some (Inr (TYPE_FLOAT (dbl_fabs d)))
      | _ \<Rightarrow> None)"

definition math_package :: "double \<times> math_errno \<Rightarrow> package" where
  "math_package r =
     (case r of (d, err) \<Rightarrow>
        if err = EDOM then Inl E_INVARG
        else if err \<noteq> Errno_0 \<or> \<not> IS_REAL d then Inl E_FLOAT
        else Inr (TYPE_FLOAT d))"

definition MATH_FUNC :: "fpu \<Rightarrow> mathfn \<Rightarrow> Var list \<Rightarrow> package option" where
  "MATH_FUNC F name arglist =
     (case elt arglist 1 of TYPE_FLOAT d \<Rightarrow> Some (math_package (fp_math F name d)) | _ \<Rightarrow> None)"

definition bf_trunc :: "fpu \<Rightarrow> Var list \<Rightarrow> package option" where
  "bf_trunc F arglist =
     (case elt arglist 1 of
        TYPE_FLOAT d \<Rightarrow>
          Some (math_package (fp_math F (if dbl_less d dbl_zero then Fn_ceil else Fn_floor) d))
      | _ \<Rightarrow> None)"

definition bf_atan :: "fpu \<Rightarrow> Var list \<Rightarrow> package option" where
  "bf_atan F arglist =
     (case arglist of
        [TYPE_FLOAT d] \<Rightarrow> Some (math_package (fp_math F Fn_atan d))
      | TYPE_FLOAT d # TYPE_FLOAT dd # _ \<Rightarrow> Some (math_package (fp_atan2 F d dd))
      | _ \<Rightarrow> None)"

text \<open>Both Bessel functions pass their arguments to \<^verbatim>\<open>jn(int, double)\<close> in the wrong order, so the
  float is narrowed to the order and the order is the argument.\<close>

definition bf_j :: "fpu \<Rightarrow> Var list \<Rightarrow> package option" where
  "bf_j F arglist =
     (case arglist of
        TYPE_INT n # TYPE_FLOAT d # _ \<Rightarrow>
          Some (math_package
            (if n = 0 then fp_math F Fn_j0 d
             else if n = 1 then fp_math F Fn_j1 d
             else fp_jn F (fp_to_cint F d) (fp_of_int F n)))
      | _ \<Rightarrow> None)"

definition bf_y :: "fpu \<Rightarrow> Var list \<Rightarrow> package option" where
  "bf_y F arglist =
     (case arglist of
        TYPE_INT n # TYPE_FLOAT d # _ \<Rightarrow>
          Some (math_package
            (if n = 0 then fp_math F Fn_y0 d
             else if n = 1 then fp_math F Fn_y1 d
             else fp_jn F (fp_to_cint F d) (fp_of_int F n)))
      | _ \<Rightarrow> None)"

text \<open>\<open>bf_random\<close> with the values of its three calls of \<^verbatim>\<open>RANDOM()\<close> (each from 0 to \<^verbatim>\<open>RAND_MAX\<close>, here
  2147483647).\<close>

definition bf_random :: "int \<Rightarrow> int \<Rightarrow> int \<Rightarrow> Var list \<Rightarrow> package option" where
  "bf_random r1 r2 r3 arglist =
     (case (case arglist of [] \<Rightarrow> Some MAXINT | TYPE_INT n # _ \<Rightarrow> Some n | _ \<Rightarrow> None) of
        None \<Rightarrow> None
      | Some num \<Rightarrow>
          Some (if num \<le> 0 then Inl E_INVARG
                else let rr = wrap64 (wrap64 (push_bit 32 r1 + push_bit 1 r2) + drop_bit 30 r3)
                     in Inr (TYPE_INT (wrap64 (1 + c_mod rr num)))))"

definition bf_floatstr :: "fpu \<Rightarrow> Var list \<Rightarrow> package option" where
  "bf_floatstr F arglist =
     (case arglist of
        TYPE_FLOAT d # TYPE_INT prec # vs \<Rightarrow>
          let use_sci = (case vs of [] \<Rightarrow> False | v # _ \<Rightarrow> is_true v)
          in Some (if prec > fp_DECIMAL_DIG F then Inr (TYPE_STR (fp_format F (fp_DECIMAL_DIG F) use_sci d))
                   else if prec < 0 then Inl E_INVARG
                   else Inr (TYPE_STR (fp_format F prec use_sci d)))
      | _ \<Rightarrow> None)"

section \<open>What the operators compute\<close>

lemma wrap64_sint: "wrap64 x = sint (word_of_int x :: 64 word)"
  by (simp add: wrap64_def sint_sbintrunc' signed_take_bit_eq_take_bit_shift take_bit_eq_mod)

lemma power_loop_eq:
  assumes "num_range r"
  shows "power_loop a b r = wrap64 (r * a ^ nat b)"
  using assms
proof (induction a b r rule: power_loop.induct)
  case (1 a b r)
  show ?case
  proof (cases "b \<le> 0")
    case True
    then show ?thesis using 1 by (simp add: power_loop.simps wrap64_id)
  next
    case False
    then have n: "nat b = nat (b div 2) + nat (b div 2) + nat (b mod 2)"
      using nat_add_distrib [of "2 * (b div 2)" "b mod 2"] nat_mult_distrib [of 2 "b div 2"] by simp
    have "a ^ nat b = (a * a) ^ nat (b div 2) * a ^ nat (b mod 2)"
      by (subst n) (simp add: power_add power_mult_distrib)
    moreover have "b mod 2 = 0 \<or> b mod 2 = 1" by linarith
    ultimately have e: "r * a ^ nat b = (if b mod 2 = 1 then r * a else r) * (a * a) ^ nat (b div 2)"
      by auto
    have pw: "wrap64 (x * wrap64 y ^ k) = wrap64 (x * y ^ k)" for x y k
    proof (induction k arbitrary: x)
      case (Suc k)
      have "wrap64 (x * wrap64 y ^ Suc k) = wrap64 (x * wrap64 y * wrap64 y ^ k)" by (simp add: mult.assoc)
      also have "\<dots> = wrap64 (x * wrap64 y * y ^ k)" by (rule Suc)
      also have "\<dots> = wrap64 (x * y ^ k * wrap64 y)" by (simp only: ac_simps)
      also have "\<dots> = wrap64 (x * y ^ k * y)" by (rule wrap64_mult_right)
      also have "\<dots> = wrap64 (x * y ^ Suc k)" by (simp only: power_Suc ac_simps)
      finally show ?case .
    qed simp
    have "power_loop a b r =
        wrap64 ((if b mod 2 = 1 then wrap64 (r * a) else r) * wrap64 (a * a) ^ nat (b div 2))"
      using 1 False by (subst power_loop.simps) auto
    then show ?thesis unfolding e by (auto simp: pw)
  qed
qed

lemma c_div_mod:
  assumes "b \<noteq> 0"
  shows "a = c_div a b * b + c_mod a b" "\<bar>c_mod a b\<bar> < \<bar>b\<bar>" "c_mod a b = 0 \<or> sgn (c_mod a b) = sgn a"
    "\<bar>c_div a b\<bar> \<le> \<bar>a\<bar>"
proof -
  have "a = sgn a * (\<bar>a\<bar> div \<bar>b\<bar> * \<bar>b\<bar> + \<bar>a\<bar> mod \<bar>b\<bar>)"
    by (simp add: div_mult_mod_eq sgn_mult_abs)
  also have "\<dots> = c_div a b * b + c_mod a b"
    by (simp add: c_div_def c_mod_def abs_sgn [of b] algebra_simps)
  finally show "a = c_div a b * b + c_mod a b" .
  have m: "0 \<le> \<bar>a\<bar> mod \<bar>b\<bar>" "\<bar>a\<bar> mod \<bar>b\<bar> < \<bar>b\<bar>" using assms by auto
  then show "\<bar>c_mod a b\<bar> < \<bar>b\<bar>" using assms by (auto simp: c_mod_def abs_mult sgn_if)
  show "c_mod a b = 0 \<or> sgn (c_mod a b) = sgn a" using m by (auto simp: c_mod_def sgn_if)
  have "\<bar>a\<bar> div \<bar>b\<bar> \<le> \<bar>a\<bar>"
    using assms zdiv_mono2 [of "\<bar>a\<bar>" 1 "\<bar>b\<bar>"] by simp
  moreover have "0 \<le> \<bar>a\<bar> div \<bar>b\<bar>" using assms by (simp add: pos_imp_zdiv_nonneg_iff)
  ultimately show "\<bar>c_div a b\<bar> \<le> \<bar>a\<bar>" by (auto simp: c_div_def abs_mult sgn_if)
qed

section \<open>Reading back what was printed\<close>

lemma isdigit_ascii: "d < 10 \<Longrightarrow> isdigit (char_of (48 + d :: nat)) \<and> byte (char_of (48 + d :: nat)) = 48 + int d"
  unfolding isdigit_def of_nat_of_char [symmetric, where 'a = int] by simp

lemma digits_value_append: "digits_value a (s @ t) = digits_value (digits_value a s) t"
  by (induction s arbitrary: a) auto

lemma decimal_digits:
  "list_all isdigit (decimal n) \<and> decimal n \<noteq> [] \<and> digits_value 0 (decimal n) = int n"
proof (induction n rule: decimal.induct)
  case (1 n)
  show ?case
  proof (cases "n < 10")
    case True
    then show ?thesis using isdigit_ascii [of n] by (simp add: decimal.simps [of n])
  next
    case False
    have "int n = int (n div 10) * 10 + int (n mod 10)" by (metis div_mult_mod_eq of_nat_add of_nat_mult of_nat_numeral)
    then show ?thesis
      using 1 False isdigit_ascii [of "n mod 10"] by (simp add: decimal.simps [of n] digits_value_append)
  qed
qed

lemma isdigit_not: "isdigit c \<Longrightarrow> \<not> isspace c \<and> c \<noteq> CHR ''-'' \<and> c \<noteq> CHR ''+'' \<and> c \<noteq> NUL \<and> c \<noteq> CHR '' '' \<and> c \<noteq> CHR ''#''"
  by (auto simp: isdigit_def isspace_def)

lemma strtoimax_decimal:
  assumes "ds \<noteq> []" "list_all isdigit ds" "\<not> isdigit (hd0 rest)"
  shows "strtoimax (ds @ rest) = (clamp64 (digits_value 0 ds), rest)"
    "strtoimax (CHR ''-'' # ds @ rest) = (clamp64 (- digits_value 0 ds), rest)"
proof -
  obtain d ds' where d: "ds = d # ds'" "isdigit d" using assms by (cases ds) auto
  have m: "\<not> isspace (CHR ''-'')" by (simp add: isspace_def)
  have "takeWhile isdigit (ds @ rest) = ds" "dropWhile isdigit (ds @ rest) = rest"
    using assms by (cases rest; auto simp: list_all_iff takeWhile_append dropWhile_append)+
  then show "strtoimax (ds @ rest) = (clamp64 (digits_value 0 ds), rest)"
      "strtoimax (CHR ''-'' # ds @ rest) = (clamp64 (- digits_value 0 ds), rest)"
    using d isdigit_not [OF d(2)] m by (simp_all add: strtoimax_def Let_def)
qed

lemma strtoimax_printf:
  assumes "num_range n" "\<not> isdigit (hd0 rest)"
  shows "strtoimax (printf_d n @ rest) = (n, rest)"
  using strtoimax_decimal [of "decimal (nat n)" rest] strtoimax_decimal [of "decimal (nat (- n))" rest]
    decimal_digits [of "nat n"] decimal_digits [of "nat (- n)"] assms
  by (auto simp: printf_d_def clamp64_def num_range_def)

lemma printf_d_head: "printf_d n = c # s \<Longrightarrow> isdigit c \<or> c = CHR ''-''"
  using decimal_digits [of "nat n"] by (cases "decimal (nat n)") (auto simp: printf_d_def split: if_splits)

lemma parse_printf:
  assumes "num_range n"
  shows "parse_number F (printf_d n) t = Some n" "parse_object F (printf_d n) = Some n"
    "parse_object F (CHR ''#'' # printf_d n) = Some n"
proof -
  have ne: "printf_d n \<noteq> []" using decimal_digits by (auto simp: printf_d_def)
  have num: "parse_number F (printf_d n) t = Some n" for t
    using strtoimax_printf [OF assms, of "[]"] ne by (simp add: parse_number_def only_blanks_def isdigit_def)
  then show "parse_number F (printf_d n) t = Some n" .
  obtain c s where c: "printf_d n = c # s" using ne by (cases "printf_d n") auto
  then have "c \<noteq> CHR '' ''" "c \<noteq> CHR ''#''" using printf_d_head [OF c] isdigit_not [of c] by auto
  then show "parse_object F (printf_d n) = Some n" using num c by (simp add: parse_object_def skip_blanks_def)
  show "parse_object F (CHR ''#'' # printf_d n) = Some n" using num by (simp add: parse_object_def skip_blanks_def)
qed

section \<open>Properties\<close>

text \<open>C25: integer exponentiation by repeated squaring, with every product cut to 64 bits,
  returns for a non-negative exponent the power modulo 2^64, read as a signed number.\<close>

theorem integer_power:
  assumes "0 \<le> b"
  shows "do_power F (TYPE_INT a) (TYPE_INT b) = TYPE_INT (sint (word_of_int (a ^ nat b) :: 64 word))"
  using assms power_loop_eq [of 1 a b] by (simp add: do_power_def wrap64_sint num_range_def)

theorem integer_power_witness:
  "\<forall>F. do_power F (TYPE_INT 3) (TYPE_INT 41) = TYPE_INT (- 420491770248316829)"
  using integer_power [of 41 _ 3] by (simp add: signed_of_int signed_take_bit_eq_if_positive)

text \<open>C26: integer division and modulus truncate towards zero and fit together: for a divisor
  other than zero, and but for the one quotient that is out of range, the results satisfy
  a = q * b + r with |r| < |b|, r zero or of the sign of a, and both in the range of \<open>Num\<close>.
  A zero divisor gives \<open>E_DIV\<close>.\<close>

theorem integer_division:
  assumes "num_range a" "num_range b" "\<not> (a = - (2 ^ 63) \<and> b = - 1)"
  shows "if b = 0
    then do_divide F (TYPE_INT a) (TYPE_INT b) = Some (TYPE_ERR E_DIV)
      \<and> do_modulus F (TYPE_INT a) (TYPE_INT b) = Some (TYPE_ERR E_DIV)
    else \<exists>q r. do_divide F (TYPE_INT a) (TYPE_INT b) = Some (TYPE_INT q)
      \<and> do_modulus F (TYPE_INT a) (TYPE_INT b) = Some (TYPE_INT r)
      \<and> a = q * b + r \<and> \<bar>r\<bar> < \<bar>b\<bar> \<and> (r = 0 \<or> sgn r = sgn a) \<and> num_range q \<and> num_range r"
proof (cases "b = 0")
  case True
  then show ?thesis by (simp add: do_divide_def do_modulus_def DIVISION_OP_def)
next
  case False
  note dm = c_div_mod [OF False, of a]
  have "num_range (c_mod a b)" using dm(2) assms(2) by (auto simp: num_range_def)
  moreover have "num_range (c_div a b)"
  proof (cases "\<bar>a\<bar> = 2 ^ 63")
    case True
    then have a: "a = - (2 ^ 63)" using assms(1) by (auto simp: num_range_def)
    show ?thesis
    proof (cases "b = 1")
      case True
      then show ?thesis using a by (simp add: c_div_def num_range_def)
    next
      case b: False
      then have "2 \<le> \<bar>b\<bar>" using False assms(3) a by auto
      then have "\<bar>a\<bar> div \<bar>b\<bar> \<le> 2 ^ 63 div 2" using True zdiv_mono2 [of "2 ^ 63" 2 "\<bar>b\<bar>"] by simp
      moreover have "0 \<le> \<bar>a\<bar> div \<bar>b\<bar>" using False by (simp add: pos_imp_zdiv_nonneg_iff)
      ultimately have "\<bar>c_div a b\<bar> \<le> 2 ^ 63 div 2" by (auto simp: c_div_def abs_mult sgn_if)
      then show ?thesis by (auto simp: num_range_def)
    qed
  next
    case False
    then show ?thesis using dm(4) assms(1) by (auto simp: num_range_def)
  qed
  ultimately show ?thesis
    using False dm assms(3) by (simp add: do_divide_def do_modulus_def DIVISION_OP_def)
qed

theorem integer_division_witness:
  "\<forall>F. do_divide F (TYPE_INT (- 7)) (TYPE_INT 2) = Some (TYPE_INT (- 3)) \<and>
    do_modulus F (TYPE_INT (- 7)) (TYPE_INT 2) = Some (TYPE_INT (- 1))"
proof
  fix F
  obtain q r where qr: "do_divide F (TYPE_INT (- 7)) (TYPE_INT 2) = Some (TYPE_INT q)"
      "do_modulus F (TYPE_INT (- 7)) (TYPE_INT 2) = Some (TYPE_INT r)"
      "- 7 = q * 2 + r" "\<bar>r\<bar> < \<bar>2 :: int\<bar>" "r = 0 \<or> sgn r = sgn (- 7 :: int)"
    using integer_division [of "- 7" 2 F] by (auto simp: num_range_def)
  then have "r \<noteq> 0" by presburger
  then have "sgn r = - 1" using qr(5) by simp
  then have r: "r = - 1" using qr(4) by (simp add: sgn_if split: if_splits)
  then have "q = - 3" using qr(3) by simp
  with r show "do_divide F (TYPE_INT (- 7)) (TYPE_INT 2) = Some (TYPE_INT (- 3)) \<and>
    do_modulus F (TYPE_INT (- 7)) (TYPE_INT 2) = Some (TYPE_INT (- 1))" using qr(1,2) by simp
qed

text \<open>The excluded quotient: the machine traps, and the server has no guard.\<close>

lemma division_traps:
  "do_divide F (TYPE_INT (- 9223372036854775808)) (TYPE_INT (- 1)) = None \<and>
   do_modulus F (TYPE_INT (- 9223372036854775808)) (TYPE_INT (- 1)) = None"
  by (simp add: do_divide_def do_modulus_def DIVISION_OP_def)

text \<open>A negative odd power of minus one comes out as one.\<close>

lemma power_of_minus_one:
  "do_power F (TYPE_INT (- 1)) (TYPE_INT (- 1)) = TYPE_INT 1 \<and>
   do_power F (TYPE_INT (- 1)) (TYPE_INT (- 2)) = TYPE_INT (- 1)"
  by (simp add: do_power_def)

text \<open>C27: every integer survives printing and reading: \<open>toint\<close> of its decimal form, and the
  object reader on that form with or without \<^verbatim>\<open>#\<close>, give it back.\<close>

theorem number_round_trip:
  assumes "num_range n"
  shows "become_integer F (TYPE_STR (printf_d n)) True = Inr n \<and>
    become_integer F (TYPE_STR (printf_d n)) False = Inr n \<and>
    become_integer F (TYPE_STR (CHR ''#'' # printf_d n)) False = Inr n"
  using parse_printf [OF assms] by simp

theorem number_round_trip_witness:
  "\<forall>F. become_integer F (TYPE_STR (printf_d (- 9223372036854775808))) True = Inr (- 9223372036854775808)"
  using number_round_trip [of "- 9223372036854775808"] by (simp add: num_range_def)

text \<open>C29: \<open>random(n)\<close> is between 1 and n for a positive n, whatever the three numbers of the
  generator, and raises \<open>E_INVARG\<close> otherwise.\<close>

theorem random_bounds:
  assumes "num_range n" "0 \<le> r1" "r1 < 2 ^ 31" "0 \<le> r2" "r2 < 2 ^ 31" "0 \<le> r3" "r3 < 2 ^ 31"
  shows "if n \<le> 0 then bf_random r1 r2 r3 [TYPE_INT n] = Some (make_error_pack E_INVARG)
    else \<exists>k. bf_random r1 r2 r3 [TYPE_INT n] = Some (make_var_pack (TYPE_INT k)) \<and> 1 \<le> k \<and> k \<le> n"
proof (cases "n \<le> 0")
  case True
  then show ?thesis by (simp add: bf_random_def)
next
  case False
  have "drop_bit 30 r3 = r3 div 2 ^ 30" by (simp add: drop_bit_eq_div)
  then have d: "0 \<le> drop_bit 30 r3" "drop_bit 30 r3 \<le> 1" using assms by auto
  have p: "push_bit 32 r1 = r1 * 2 ^ 32" "push_bit 1 r2 = r2 * 2" by (simp_all add: push_bit_eq_mult)
  let ?rr = "push_bit 32 r1 + push_bit 1 r2 + drop_bit 30 r3"
  have rr: "0 \<le> ?rr" "?rr < 2 ^ 63" "0 \<le> push_bit 32 r1 + push_bit 1 r2" "push_bit 32 r1 + push_bit 1 r2 < 2 ^ 63"
    unfolding p using assms d by auto
  then have w: "wrap64 (wrap64 (push_bit 32 r1 + push_bit 1 r2) + drop_bit 30 r3) = ?rr"
    by (simp add: wrap64_id num_range_def)
  have "c_mod ?rr n = ?rr mod n" using rr(1) False by (auto simp: c_mod_def sgn_if)
  then have "0 \<le> c_mod ?rr n" "c_mod ?rr n < n" using False by auto
  then have "wrap64 (1 + c_mod ?rr n) = 1 + c_mod ?rr n" "1 \<le> 1 + c_mod ?rr n" "1 + c_mod ?rr n \<le> n"
    using assms(1) by (auto simp: wrap64_id num_range_def)
  then show ?thesis using False w by (simp add: bf_random_def Let_def)
qed

theorem random_bounds_witness:
  "\<exists>k. bf_random 2147483647 2147483647 2147483647 [TYPE_INT 6] = Some (make_var_pack (TYPE_INT k)) \<and> 1 \<le> k \<and> k \<le> 6"
  using random_bounds [of 6 2147483647 2147483647 2147483647] by (simp add: num_range_def)

end
