(* ===== verification/Words.thy ===== *)
theory Words
  imports Numbers
begin

text \<open>
  Splitting a line into words (the first half of \<^verbatim>\<open>parse_cmd.c\<close>). The C code rewrites the line in
  place; since the write pointer never passes the read pointer, the words are a function of the
  line.
\<close>

text \<open>The inner loop: one word, with the rest of the line and the state of \<^verbatim>\<open>in_quotes\<close>.\<close>

definition emit :: "char \<Rightarrow> string \<times> string \<times> bool \<Rightarrow> string \<times> string \<times> bool" where
  "emit c r = (c # fst r, snd r)"

fun word_loop :: "bool \<Rightarrow> string \<Rightarrow> string \<times> string \<times> bool" where
  "word_loop in_quotes [] = ([], [], in_quotes)"
| "word_loop in_quotes (c # s) =
     (if c = NUL \<or> \<not> in_quotes \<and> c = CHR '' '' then ([], c # s, in_quotes)
      else if c = CHR 0x22 then word_loop (\<not> in_quotes) s
      else if c = CHR 0x5C
      then (case s of
              [] \<Rightarrow> word_loop in_quotes []
            | d # s' \<Rightarrow> if d = NUL then word_loop in_quotes s else emit d (word_loop in_quotes s'))
      else emit c (word_loop in_quotes s))"

lemma word_loop_length: "length (fst (snd (word_loop q s))) \<le> length s"
proof (induction q s rule: word_loop.induct)
  case (2 q c s)
  consider "c = NUL \<or> \<not> q \<and> c = CHR '' ''" | "c = CHR 0x22" | d s' where "c = CHR 0x5C" "s = d # s'" "d \<noteq> NUL"
    | "\<not> (c = NUL \<or> \<not> q \<and> c = CHR '' '')" "c \<noteq> CHR 0x22"
      "c = CHR 0x5C \<Longrightarrow> s = [] \<or> hd s = NUL"
    by (cases s) auto
  then show ?case
  proof cases
    case 3
    then have "length (fst (snd (word_loop q s'))) \<le> length s'" using 2(4) [of d s'] by simp
    then show ?thesis using 3 by (simp add: emit_def)
  next
    case 4
    show ?thesis
    proof (cases "c = CHR 0x5C")
      case True
      then show ?thesis using 4 by (cases s) simp_all
    next
      case False
      then show ?thesis using 4(1,2) 2(5) by (simp add: emit_def)
    qed
  qed (use 2(1) in \<open>simp_all\<close>)
qed simp

lemma word_loop_progress:
  assumes "hd0 s \<noteq> NUL"
  shows "length (skip_blanks (fst (snd (word_loop q s)))) < length s"
proof -
  obtain c t where s: "s = c # t" "c \<noteq> NUL" using assms by (cases s) auto
  have drop: "length (skip_blanks u) \<le> length u" for u by (simp add: skip_blanks_def length_dropWhile_le)
  show ?thesis
  proof (cases "\<not> q \<and> c = CHR '' ''")
    case True
    then show ?thesis using s drop [of t] by (simp add: skip_blanks_def)
  next
    case False
    have "length (fst (snd (word_loop q s))) \<le> length t"
    proof (cases t)
      case Nil
      then show ?thesis using False s by (simp add: emit_def)
    next
      case (Cons d u)
      then show ?thesis
        using False s word_loop_length [of q t] word_loop_length [of "\<not> q" t] word_loop_length [of q u]
        by (cases "c = CHR 0x22"; cases "c = CHR 0x5C"; cases "d = NUL") (simp_all add: emit_def)
    qed
    then show ?thesis using drop [of "fst (snd (word_loop q s))"] s(1) by simp
  qed
qed

function words_loop :: "bool \<Rightarrow> string \<Rightarrow> string list" where
  "words_loop in_quotes input =
     (if hd0 input = NUL then []
      else let r = word_loop in_quotes input
           in fst r # words_loop (snd (snd r)) (skip_blanks (fst (snd r))))"
  by pat_completeness auto
termination
  by (relation "measure (\<lambda>(q, s). length s)") (simp_all add: word_loop_progress)

declare words_loop.simps [simp del]

definition parse_into_words :: "string \<Rightarrow> string list" where
  "parse_into_words input = words_loop False (skip_blanks input)"

text \<open>\<open>build_string\<close>: the words with single blanks between them.\<close>

fun build_string :: "string list \<Rightarrow> string" where
  "build_string [] = []"
| "build_string [w] = w"
| "build_string (w # ws) = w @ CHR '' '' # build_string ws"

definition parse_into_wordlist :: "string \<Rightarrow> Var list" where
  "parse_into_wordlist command = map TYPE_STR (parse_into_words command)"

section \<open>Quoting\<close>

text \<open>A word in double quotes, with a backslash before each quote and backslash of its own.\<close>

definition quote_char :: "char \<Rightarrow> string" where
  "quote_char c = (if c = CHR 0x22 \<or> c = CHR 0x5C then [CHR 0x5C, c] else [c])"

definition quote_word :: "string \<Rightarrow> string" where
  "quote_word w = CHR 0x22 # concat (map quote_char w) @ [CHR 0x22]"

lemma word_loop_quoted:
  assumes "NUL \<notin> set w"
  shows "word_loop True (concat (map quote_char w) @ CHR 0x22 # rest) =
    (w @ fst (word_loop False rest), snd (word_loop False rest))"
  using assms by (induction w) (auto simp: quote_char_def emit_def)

lemma word_loop_quote_word:
  assumes "NUL \<notin> set w" "rest = [] \<or> hd0 rest = CHR '' ''"
  shows "word_loop False (quote_word w @ rest) = (w, rest, False)"
  using word_loop_quoted [OF assms(1), of rest] assms(2) by (cases rest) (auto simp: quote_word_def)

lemma quote_word_head: "hd0 (quote_word w @ rest) = CHR 0x22" "skip_blanks (quote_word w @ rest) = quote_word w @ rest"
  by (simp_all add: quote_word_def skip_blanks_def)

lemma build_string_quoted: "skip_blanks (build_string (map quote_word ws)) = build_string (map quote_word ws)"
  using quote_word_head(2) [of _ "[]"] quote_word_head(2)
  by (cases ws rule: build_string.cases) (simp_all add: skip_blanks_def)

lemma words_loop_quoted:
  "\<forall>w \<in> set ws. NUL \<notin> set w \<Longrightarrow> words_loop False (build_string (map quote_word ws)) = ws"
proof (induction ws rule: build_string.induct)
  case 1
  then show ?case by (simp add: words_loop.simps)
next
  case (2 w)
  have "words_loop False [] = []" by (simp add: words_loop.simps)
  then show ?case
    using 2 word_loop_quote_word [of w "[]"] quote_word_head(1) [of w "[]"]
    by (subst words_loop.simps) (simp add: skip_blanks_def)
next
  case (3 w v vs)
  let ?rest = "CHR '' '' # build_string (map quote_word (v # vs))"
  have "skip_blanks ?rest = build_string (map quote_word (v # vs))"
    using build_string_quoted [of "v # vs"] by (simp add: skip_blanks_def)
  then show ?case
    using 3 word_loop_quote_word [of w ?rest] quote_word_head(1) [of w ?rest]
    by (subst words_loop.simps) simp
qed

text \<open>C21: splitting undoes quoting: a line made of quoted words, with blanks between them,
  splits into exactly those words, whatever blanks, quotes and backslashes they contain.\<close>

theorem words_round_trip:
  assumes "\<forall>w \<in> set ws. NUL \<notin> set w"
  shows "parse_into_words (build_string (map quote_word ws)) = ws"
  using words_loop_quoted [OF assms] build_string_quoted by (simp add: parse_into_words_def)

theorem words_round_trip_witness:
  "parse_into_words (build_string (map quote_word [''put'', [CHR 0x22, CHR '' '', CHR 0x5C], []])) = [''put'', [CHR 0x22, CHR '' '', CHR 0x5C], []]"
  using words_round_trip [of "[''put'', [CHR 0x22, CHR '' '', CHR 0x5C], []]"] by simp

end
