(* ===== verification/Db_State.thy ===== *)
theory Db_State
  imports Values
begin

text \<open>
  The in-memory database of \<^verbatim>\<open>db_private.h\<close>: objects, verb definitions, property definitions
  and property values, and the state that \<^verbatim>\<open>db_objects.c\<close> and \<^verbatim>\<open>db_verbs.c\<close> keep in static
  variables: the object table, the list of users and the verb cache.

  The table \<^verbatim>\<open>Object **objects\<close> is a map from object numbers; a null entry is \<open>None\<close>. Where
  the code follows \<^verbatim>\<open>objects[oid]\<close> without a check, a missing object makes the model's result
  \<open>None\<close>, as a panic does. The C arrays with a separate length (\<^verbatim>\<open>propdefs.l\<close> with
  \<^verbatim>\<open>cur_length\<close>, \<^verbatim>\<open>propval\<close>) and the linked list of verb definitions are lists; a
  \<^verbatim>\<open>Program *\<close> is an address, and the handle to a verb is its definer and its position.
\<close>

section \<open>Objects\<close>

record verbdef =
  v_name :: string
  v_program :: "nat option"
  v_owner :: Objid
  v_perms :: int
  v_prep :: int

record propdef =
  pd_name :: string
  pd_hash :: "32 word"

record proplist =
  max_length :: int
  pl :: "propdef list"

abbreviation cur_length :: "proplist \<Rightarrow> nat" where
  "cur_length p \<equiv> length (pl p)"

record pval =
  p_var :: Var
  p_owner :: Objid
  p_perms :: int

record obj =
  o_id :: Objid
  o_owner :: Objid
  o_location :: Objid
  o_contents :: Objid
  o_next :: Objid
  o_parent :: Objid
  o_child :: Objid
  o_sibling :: Objid
  o_name :: string
  o_flags :: int
  o_verbdefs :: "verbdef list"
  o_propdefs :: proplist
  o_propval :: "pval list"
  o_waif_propdefs :: "propdef list option"

type_synonym heap = "Objid \<Rightarrow> obj option"

section \<open>The database\<close>

text \<open>An entry of the verb cache: its handle is the definer and the position of the verb on
  it; a null \<^verbatim>\<open>h.verbdef\<close>, a cached failure, is \<open>None\<close>.\<close>

record vc_entry =
  vc_hash :: "32 word"
  vc_oid_key :: Objid
  vc_verbname :: string
  vc_h :: "(Objid \<times> nat) option"

record db =
  objects :: heap
  num_objects :: int
  max_objects :: int
  all_users :: "Var list"
  vc_table :: "vc_entry list list option"
  db_verb_generation :: int
  verbcache_hit :: int
  verbcache_neg_hit :: int
  verbcache_miss :: int

definition dbpriv_find_object :: "db \<Rightarrow> Objid \<Rightarrow> obj option" where
  "dbpriv_find_object db oid =
     (if oid < 0 \<or> oid \<ge> num_objects db then None else objects db oid)"

definition valid :: "db \<Rightarrow> Objid \<Rightarrow> bool" where
  "valid db oid \<longleftrightarrow> dbpriv_find_object db oid \<noteq> None"

text \<open>An assignment through \<^verbatim>\<open>objects[oid]->...\<close>.\<close>

definition upd :: "Objid \<Rightarrow> (obj \<Rightarrow> obj) \<Rightarrow> heap \<Rightarrow> heap option" where
  "upd oid f H = (case H oid of None \<Rightarrow> None | Some o' \<Rightarrow> Some (H(oid \<mapsto> f o')))"

definition upd_db :: "Objid \<Rightarrow> (obj \<Rightarrow> obj) \<Rightarrow> db \<Rightarrow> db option" where
  "upd_db oid f db = map_option (\<lambda>H. db\<lparr>objects := H\<rparr>) (upd oid f (objects db))"

text \<open>\<open>db_priv_affected_callable_verb_lookup\<close>: every bucket of the cache is emptied.\<close>

definition db_priv_affected_callable_verb_lookup :: "db \<Rightarrow> db" where
  "db_priv_affected_callable_verb_lookup db =
     (case vc_table db of
        None \<Rightarrow> db
      | Some t \<Rightarrow>
          db\<lparr>db_verb_generation := db_verb_generation db + 1,
             vc_table := Some (replicate (length t) [])\<rparr>)"

section \<open>Basic facts\<close>

lemma upd_Some [simp]: "H oid = Some o' \<Longrightarrow> upd oid f H = Some (H(oid \<mapsto> f o'))"
  by (simp add: upd_def)

lemma upd_eq_Some: "upd oid f H = Some H' \<longleftrightarrow> (\<exists>o'. H oid = Some o' \<and> H' = H(oid \<mapsto> f o'))"
  by (auto simp: upd_def split: option.splits)

lemma upd_db_eq_Some:
  "upd_db oid f db = Some db' \<longleftrightarrow>
     (\<exists>o'. objects db oid = Some o' \<and> db' = db\<lparr>objects := (objects db)(oid \<mapsto> f o')\<rparr>)"
  by (auto simp: upd_db_def upd_eq_Some)

lemma affected_objects [simp]:
  "objects (db_priv_affected_callable_verb_lookup db) = objects db"
  "num_objects (db_priv_affected_callable_verb_lookup db) = num_objects db"
  "max_objects (db_priv_affected_callable_verb_lookup db) = max_objects db"
  "all_users (db_priv_affected_callable_verb_lookup db) = all_users db"
  by (auto simp: db_priv_affected_callable_verb_lookup_def split: option.splits)

lemma find_affected [simp]:
  "dbpriv_find_object (db_priv_affected_callable_verb_lookup db) = dbpriv_find_object db"
  by (simp add: dbpriv_find_object_def fun_eq_iff)

text \<open>The table holds objects only below \<^verbatim>\<open>num_objects\<close>, each under its own number.\<close>

definition wf_table :: "db \<Rightarrow> bool" where
  "wf_table db \<longleftrightarrow>
     (\<forall>i x. objects db i = Some x \<longrightarrow> 0 \<le> i \<and> i < num_objects db \<and> o_id x = i)
     \<and> 0 \<le> num_objects db \<and> num_objects db \<le> max_objects db"

lemma wf_tableD:
  "wf_table db \<Longrightarrow> objects db i = Some x \<Longrightarrow> 0 \<le> i \<and> i < num_objects db \<and> o_id x = i"
  unfolding wf_table_def by blast

lemma wf_table_find: "wf_table db \<Longrightarrow> dbpriv_find_object db i = objects db i"
  by (cases "objects db i") (auto simp: dbpriv_find_object_def dest: wf_tableD)

lemma wf_table_NOTHING: "wf_table db \<Longrightarrow> objects db NOTHING = None"
  by (cases "objects db NOTHING") (auto dest: wf_tableD)

end
