(* ===== verification/Links.thy ===== *)
theory Links
  imports Db_State
begin

text \<open>
  The two intrusive linked lists of the object table: the children of an object
  (\<^verbatim>\<open>parent\<close>/\<^verbatim>\<open>child\<close>/\<^verbatim>\<open>sibling\<close>) and its contents
  (\<^verbatim>\<open>location\<close>/\<^verbatim>\<open>contents\<close>/\<^verbatim>\<open>next\<close>). The macros \<^verbatim>\<open>LL_REMOVE\<close> and \<^verbatim>\<open>LL_APPEND\<close> of
  \<^verbatim>\<open>db_objects.c\<close> take the names of the fields; the model takes the functions that read and
  write them.

  The locale \<open>link_fields\<close> states what those functions promise. Its lemmas show that the two
  loops find their place and end, and that moving an element keeps the invariant \<open>forest\<close>:
  every list is finite and without repetition, and holds exactly the objects whose back
  pointer names its owner. The locale is interpreted on the two triples of fields.
\<close>

section \<open>The macros\<close>

partial_function (option) ll_unlink ::
  "(obj \<Rightarrow> Objid) \<Rightarrow> (Objid \<Rightarrow> obj \<Rightarrow> obj) \<Rightarrow> Objid \<Rightarrow> Objid \<Rightarrow> heap \<Rightarrow> heap option" where
  "ll_unlink gn sn what lid H =
     (if lid = NOTHING then Some H
      else case H lid of
             None \<Rightarrow> None
           | Some ol \<Rightarrow>
               (if gn ol = what
                then case H what of
                       None \<Rightarrow> None
                     | Some ow \<Rightarrow> upd lid (sn (gn ow)) H
                else ll_unlink gn sn what (gn ol) H))"

declare ll_unlink.simps [code]

definition LL_REMOVE ::
  "(obj \<Rightarrow> Objid) \<Rightarrow> (Objid \<Rightarrow> obj \<Rightarrow> obj) \<Rightarrow> (obj \<Rightarrow> Objid) \<Rightarrow> (Objid \<Rightarrow> obj \<Rightarrow> obj) \<Rightarrow>
   Objid \<Rightarrow> Objid \<Rightarrow> heap \<Rightarrow> heap option" where
  "LL_REMOVE gl sl gn sn where what H =
     do {
       ow \<leftarrow> H where;
       H1 \<leftarrow> (if gl ow = what
             then do { ot \<leftarrow> H what; upd where (sl (gn ot)) H }
             else ll_unlink gn sn what (gl ow) H);
       upd what (sn NOTHING) H1
     }"

partial_function (option) ll_last :: "(obj \<Rightarrow> Objid) \<Rightarrow> Objid \<Rightarrow> heap \<Rightarrow> Objid option" where
  "ll_last gn lid H =
     (case H lid of
        None \<Rightarrow> None
      | Some ol \<Rightarrow> if gn ol = NOTHING then Some lid else ll_last gn (gn ol) H)"

declare ll_last.simps [code]

definition LL_APPEND ::
  "(obj \<Rightarrow> Objid) \<Rightarrow> (Objid \<Rightarrow> obj \<Rightarrow> obj) \<Rightarrow> (obj \<Rightarrow> Objid) \<Rightarrow> (Objid \<Rightarrow> obj \<Rightarrow> obj) \<Rightarrow>
   Objid \<Rightarrow> Objid \<Rightarrow> heap \<Rightarrow> heap option" where
  "LL_APPEND gl sl gn sn where what H =
     do {
       ow \<leftarrow> H where;
       H1 \<leftarrow> (if gl ow = NOTHING then upd where (sl what) H
             else do { lid \<leftarrow> ll_last gn (gl ow) H; upd lid (sn what) H });
       upd what (sn NOTHING) H1
     }"

text \<open>The loops \<^verbatim>\<open>for (c = ...; c != NOTHING; c = objects[c]->next)\<close>: the objects they visit.\<close>

partial_function (option) ll_members :: "(obj \<Rightarrow> Objid) \<Rightarrow> Objid \<Rightarrow> heap \<Rightarrow> Objid list option" where
  "ll_members gn c H =
     (if c = NOTHING then Some []
      else do { oc \<leftarrow> H c; cs \<leftarrow> ll_members gn (gn oc) H; Some (c # cs) })"

declare ll_members.simps [code]

lemma ll_unlink_step:
  "ll_unlink gn sn what lid H =
     (if lid = NOTHING then Some H
      else case H lid of
             None \<Rightarrow> None
           | Some ol \<Rightarrow>
               (if gn ol = what
                then case H what of
                       None \<Rightarrow> None
                     | Some ow \<Rightarrow> upd lid (sn (gn ow)) H
                else ll_unlink gn sn what (gn ol) H))"
  by (fact ll_unlink.simps)

section \<open>Chains\<close>

text \<open>\<open>links nx a xs\<close>: following \<open>nx\<close> from \<open>a\<close> visits exactly \<open>xs\<close> and ends at \<^verbatim>\<open>NOTHING\<close>.\<close>

fun links :: "(Objid \<Rightarrow> Objid option) \<Rightarrow> Objid \<Rightarrow> Objid list \<Rightarrow> bool" where
  "links nx a [] \<longleftrightarrow> a = NOTHING"
| "links nx a (x # xs) \<longleftrightarrow> a = x \<and> a \<noteq> NOTHING \<and> (\<exists>b. nx a = Some b \<and> links nx b xs)"

declare links.simps [simp del]

lemma links_Nil [simp]: "links nx a [] \<longleftrightarrow> a = NOTHING"
  by (fact links.simps(1))

lemma links_Cons [simp]:
  "links nx a (x # xs) \<longleftrightarrow> a = x \<and> a \<noteq> NOTHING \<and> (\<exists>b. nx a = Some b \<and> links nx b xs)"
  by (fact links.simps(2))

text \<open>One field of every object.\<close>

definition field :: "(obj \<Rightarrow> 'a) \<Rightarrow> heap \<Rightarrow> Objid \<Rightarrow> 'a option" where
  "field g H i = map_option g (H i)"

lemma field_upd [simp]: "field g (H(i \<mapsto> x)) = (field g H)(i \<mapsto> g x)"
  by (simp add: field_def fun_eq_iff)

lemma field_Some: "H i = Some x \<Longrightarrow> field g H i = Some (g x)"
  by (simp add: field_def)

lemma field_eq_Some: "field g H i = Some y \<longleftrightarrow> (\<exists>x. H i = Some x \<and> g x = y)"
  by (auto simp: field_def)

lemma field_eq_None [simp]: "field g H i = None \<longleftrightarrow> H i = None"
  by (simp add: field_def)

lemma links_unique: "links nx a xs \<Longrightarrow> links nx a ys \<Longrightarrow> xs = ys"
proof (induction xs arbitrary: a ys)
  case Nil
  then show ?case by (cases ys) auto
next
  case (Cons x xs)
  then show ?case by (cases ys) auto
qed

lemma links_cong: "(\<And>i. i \<in> set xs \<Longrightarrow> nx i = nx' i) \<Longrightarrow> links nx a xs \<longleftrightarrow> links nx' a xs"
  by (induction xs arbitrary: a) auto

lemma links_upd [simp]: "i \<notin> set xs \<Longrightarrow> links (nx(i := v)) a xs \<longleftrightarrow> links nx a xs"
  by (rule links_cong) auto

lemma links_append:
  "links nx a (xs @ ys) \<Longrightarrow> \<exists>b. links nx b ys \<and> (xs = [] \<longrightarrow> b = a) \<and> (ys = [] \<longrightarrow> b = NOTHING)"
  by (induction xs arbitrary: a) auto

lemma links_tail: "links nx a (xs @ y # ys) \<Longrightarrow> links nx y (y # ys)"
  by (induction xs arbitrary: a) auto

lemma links_NOTHING: "links nx NOTHING xs \<longleftrightarrow> xs = []"
  by (cases xs) auto

lemma links_not_NOTHING: "links nx a xs \<Longrightarrow> NOTHING \<notin> set xs"
  by (induction xs arbitrary: a) auto

lemma links_acyclic:
  assumes "links nx x (x # ys)"
  shows "x \<notin> set ys"
proof
  assume "x \<in> set ys"
  then obtain us vs where ys: "ys = us @ x # vs" by (meson split_list)
  then have "links nx x (x # vs)"
    using assms links_tail [of nx x "x # us" x vs] by (metis append_Cons)
  with assms have "x # ys = x # vs" by (rule links_unique)
  then show False using ys by auto
qed

lemma links_distinct: "links nx a xs \<Longrightarrow> distinct xs"
proof (induction xs arbitrary: a)
  case (Cons x xs)
  then have "links nx x (x # xs)" by auto
  then have "x \<notin> set xs" by (rule links_acyclic)
  with Cons show ?case by auto
qed simp

lemma links_bypass:
  assumes "links nx a (qs @ p # what # post)"
    and "\<And>i. i \<noteq> p \<Longrightarrow> i \<noteq> what \<Longrightarrow> nx' i = nx i" and "nx' p = nx what"
  shows "links nx' a (qs @ p # post)"
proof -
  have "distinct (qs @ p # what # post)" using links_distinct [OF assms(1)] .
  then show ?thesis
    using assms
  proof (induction qs arbitrary: a)
    case Nil
    then have same: "nx' i = nx i" if "i \<in> set post" for i
      using that by (intro Nil.prems(3)) auto
    have "links nx' b post \<longleftrightarrow> links nx b post" for b
      by (intro links_cong same)
    then show ?case using Nil by auto
  next
    case (Cons q qs)
    then show ?case by auto
  qed
qed

lemma links_snoc:
  assumes "links nx a (qs @ [p])" "what \<notin> set (qs @ [p])" "what \<noteq> NOTHING"
    and "\<And>i. i \<noteq> p \<Longrightarrow> i \<noteq> what \<Longrightarrow> nx' i = nx i"
    and "nx' p = Some what" "nx' what = Some NOTHING"
  shows "links nx' a (qs @ [p, what])"
proof -
  have "distinct (qs @ [p])" using links_distinct [OF assms(1)] .
  then show ?thesis
    using assms by (induction qs arbitrary: a) auto
qed

lemma ll_members_links: "links (field gn H) a xs \<Longrightarrow> ll_members gn a H = Some xs"
proof (induction xs arbitrary: a)
  case Nil
  then show ?case by (simp add: ll_members.simps)
next
  case (Cons x xs)
  then show ?case by (subst ll_members.simps) (auto simp: field_eq_Some)
qed

text \<open>A member list that was computed is a chain.\<close>

lemma ll_members_Some:
  assumes "ll_members gn a H = Some xs"
  shows "links (field gn H) a xs"
  using assms
proof (induction xs arbitrary: a)
  case Nil
  then show ?case by (subst (asm) ll_members.simps) (auto simp: bind_Some_conv split: if_splits)
next
  case (Cons x xs)
  from Cons.prems obtain oc where "a \<noteq> NOTHING" "x = a" "H a = Some oc" "ll_members gn (gn oc) H = Some xs"
    by (subst (asm) ll_members.simps) (auto simp: bind_Some_conv split: if_splits)
  with Cons.IH [of "gn oc"] show ?case by (simp add: field_Some)
qed

lemma ll_members_same:
  assumes "field gn H' = field gn H"
  shows "ll_members gn a H' = ll_members gn a H"
proof (cases "ll_members gn a H")
  case None
  then have "ll_members gn a H' \<noteq> Some xs" for xs
    using ll_members_Some [of gn a H' xs] ll_members_links [of gn H a xs] assms by auto
  then show ?thesis using None by (cases "ll_members gn a H'") auto
next
  case (Some xs)
  then show ?thesis using ll_members_Some [OF Some] ll_members_links [of gn H' a xs] assms by simp
qed

section \<open>Lists with back pointers\<close>

text \<open>\<open>listed gl gn H w xs\<close>: the list that starts in the field \<open>gl\<close> of \<open>w\<close> holds \<open>xs\<close>.\<close>

definition listed :: "(obj \<Rightarrow> Objid) \<Rightarrow> (obj \<Rightarrow> Objid) \<Rightarrow> heap \<Rightarrow> Objid \<Rightarrow> Objid list \<Rightarrow> bool" where
  "listed gl gn H w xs \<longleftrightarrow> (\<exists>x. H w = Some x \<and> links (field gn H) (gl x) xs)"

text \<open>The invariant: each list is a chain that holds exactly the objects pointing back at its
  owner, and back pointers lead to objects or to \<^verbatim>\<open>NOTHING\<close>.\<close>

definition forest :: "(obj \<Rightarrow> Objid) \<Rightarrow> (obj \<Rightarrow> Objid) \<Rightarrow> (obj \<Rightarrow> Objid) \<Rightarrow> heap \<Rightarrow> bool" where
  "forest gl gn gu H \<longleftrightarrow>
     H NOTHING = None \<and>
     (\<forall>c w. field gu H c = Some w \<longrightarrow> w = NOTHING \<or> H w \<noteq> None) \<and>
     (\<forall>w. H w \<noteq> None \<longrightarrow>
        (\<exists>xs. listed gl gn H w xs \<and> (\<forall>c. c \<in> set xs \<longleftrightarrow> field gu H c = Some w)))"

lemma listed_unique: "listed gl gn H w xs \<Longrightarrow> listed gl gn H w ys \<Longrightarrow> xs = ys"
  by (auto simp: listed_def dest: links_unique)

lemma listed_members:
  assumes "listed gl gn H w xs" "H w = Some x"
  shows "ll_members gn (gl x) H = Some xs"
  using assms by (auto simp: listed_def intro: ll_members_links)

lemma listed_cong:
  assumes "listed gl gn H w xs" "field gl H' w = field gl H w"
    and "\<And>i. i \<in> set xs \<Longrightarrow> field gn H' i = field gn H i"
  shows "listed gl gn H' w xs"
proof -
  obtain x where x: "H w = Some x" "links (field gn H) (gl x) xs"
    using assms(1) by (auto simp: listed_def)
  have "links (field gn H') (gl x) xs \<longleftrightarrow> links (field gn H) (gl x) xs"
    by (intro links_cong assms(3))
  with x assms(2) show ?thesis by (auto simp: listed_def field_def)
qed

lemma forest_listed:
  assumes "forest gl gn gu H" "listed gl gn H w xs"
  shows "c \<in> set xs \<longleftrightarrow> field gu H c = Some w"
  using assms listed_unique unfolding forest_def by (metis listed_def option.discI)

lemma forest_obtain:
  assumes "forest gl gn gu H" "H w \<noteq> None"
  obtains xs where "listed gl gn H w xs" "\<And>c. c \<in> set xs \<longleftrightarrow> field gu H c = Some w"
  using assms unfolding forest_def by blast

text \<open>Heaps that differ in the two list fields only.\<close>

inductive relinks :: "(Objid \<Rightarrow> obj \<Rightarrow> obj) \<Rightarrow> (Objid \<Rightarrow> obj \<Rightarrow> obj) \<Rightarrow> heap \<Rightarrow> heap \<Rightarrow> bool"
  for sl sn where
  relinks_refl: "relinks sl sn H H"
| relinks_sl: "relinks sl sn H H' \<Longrightarrow> H' i = Some x \<Longrightarrow> relinks sl sn H (H'(i \<mapsto> sl v x))"
| relinks_sn: "relinks sl sn H H' \<Longrightarrow> H' i = Some x \<Longrightarrow> relinks sl sn H (H'(i \<mapsto> sn v x))"

lemma relinks_field:
  "relinks sl sn H H' \<Longrightarrow> (\<And>v x. f (sl v x) = f x) \<Longrightarrow> (\<And>v x. f (sn v x) = f x) \<Longrightarrow>
   field f H' = field f H"
  by (induction rule: relinks.induct) (simp_all, (metis field_Some fun_upd_triv)+)

lemma relinks_trans: "relinks sl sn H1 H2 \<Longrightarrow> relinks sl sn H H1 \<Longrightarrow> relinks sl sn H H2"
  by (induction rule: relinks.induct) (auto intro: relinks.intros)

lemma relinks_None: "relinks sl sn H H' \<Longrightarrow> H' i = None \<longleftrightarrow> H i = None"
  by (induction rule: relinks.induct) auto

locale link_fields =
  fixes gl :: "obj \<Rightarrow> Objid" and sl :: "Objid \<Rightarrow> obj \<Rightarrow> obj"
    and gn :: "obj \<Rightarrow> Objid" and sn :: "Objid \<Rightarrow> obj \<Rightarrow> obj"
    and gu :: "obj \<Rightarrow> Objid" and su :: "Objid \<Rightarrow> obj \<Rightarrow> obj"
  assumes gl_sl [simp]: "gl (sl v x) = v" and gl_sn [simp]: "gl (sn v x) = gl x"
    and gl_su [simp]: "gl (su v x) = gl x"
    and gn_sn [simp]: "gn (sn v x) = v" and gn_sl [simp]: "gn (sl v x) = gn x"
    and gn_su [simp]: "gn (su v x) = gn x"
    and gu_su [simp]: "gu (su v x) = v" and gu_sl [simp]: "gu (sl v x) = gu x"
    and gu_sn [simp]: "gu (sn v x) = gu x"
begin

lemma ll_unlink_links:
  assumes "links (field gn H) a (pre @ p # what # post)" "H p = Some op" "H what = Some ow"
  shows "ll_unlink gn sn what a H = Some (H(p \<mapsto> sn (gn ow) op))"
  using assms(1)
proof (induction pre arbitrary: a)
  case Nil
  then show ?case using assms(2,3) by (subst ll_unlink_step) (auto simp: field_eq_Some)
next
  case (Cons q pre)
  then obtain oq where q: "a = q" "q \<noteq> NOTHING" "H q = Some oq"
      "links (field gn H) (gn oq) (pre @ p # what # post)"
    by (auto simp: field_eq_Some)
  have "gn oq \<noteq> what"
  proof
    assume "gn oq = what"
    then have "what \<in> set (pre @ [p])" using q(4) by (cases pre) auto
    moreover have "distinct (pre @ p # what # post)" using links_distinct [OF q(4)] .
    ultimately show False by auto
  qed
  moreover have "ll_unlink gn sn what (gn oq) H = Some (H(p \<mapsto> sn (gn ow) op))"
    using q(4) by (rule Cons.IH)
  ultimately show "ll_unlink gn sn what a H = Some (H(p \<mapsto> sn (gn ow) op))"
    using q(1,2,3) by (subst ll_unlink_step) simp
qed

lemma ll_last_links: "links (field gn H) a (pre @ [p]) \<Longrightarrow> ll_last gn a H = Some p"
proof (induction pre arbitrary: a)
  case Nil
  then show ?case by (subst ll_last.simps) (auto simp: field_eq_Some)
next
  case (Cons q pre)
  then obtain oq where q: "a = q" "H q = Some oq" "links (field gn H) (gn oq) (pre @ [p])"
    by (auto simp: field_eq_Some)
  then have "gn oq \<noteq> NOTHING" by (cases pre) auto
  then show ?case using Cons.IH [OF q(3)] q by (subst ll_last.simps) simp
qed

lemma LL_REMOVE_first:
  assumes w: "H where = Some xw" and a: "gl xw = what" and ot: "H what = Some ot"
  obtains H' where "LL_REMOVE gl sl gn sn where what H = Some H'" "relinks sl sn H H'"
    and "field gl H' = (field gl H)(where \<mapsto> gn ot)"
    and "field gn H' = (field gn H)(what \<mapsto> NOTHING)"
proof -
  define H1 where "H1 = H(where \<mapsto> sl (gn ot) xw)"
  obtain y where y: "H1 what = Some y" "what \<noteq> where \<Longrightarrow> y = ot" "what = where \<Longrightarrow> y = sl (gn ot) xw"
    using w ot by (cases "what = where") (auto simp: H1_def)
  show ?thesis
  proof (rule that)
    show "LL_REMOVE gl sl gn sn where what H = Some (H1(what \<mapsto> sn NOTHING y))"
      using w ot a y(1) by (simp add: LL_REMOVE_def H1_def [symmetric])
    show "relinks sl sn H (H1(what \<mapsto> sn NOTHING y))"
      unfolding H1_def by (intro relinks.intros w) (use y(1) H1_def in simp)
    show "field gl (H1(what \<mapsto> sn NOTHING y)) = (field gl H)(where \<mapsto> gn ot)"
      using w ot y(2,3) by (cases "what = where") (auto simp: H1_def field_def fun_eq_iff)
    show "field gn (H1(what \<mapsto> sn NOTHING y)) = (field gn H)(what \<mapsto> NOTHING)"
      using w ot y(2,3) by (cases "what = where") (auto simp: H1_def field_def fun_eq_iff)
  qed
qed

lemma LL_REMOVE_later:
  assumes w: "H where = Some xw" and xs: "links (field gn H) (gl xw) (qs @ p # what # post)"
    and p: "H p = Some xp" and ot: "H what = Some ot"
  obtains H' where "LL_REMOVE gl sl gn sn where what H = Some H'" "relinks sl sn H H'"
    and "field gl H' = field gl H"
    and "field gn H' = (field gn H)(p \<mapsto> gn ot, what \<mapsto> NOTHING)"
proof -
  have dist: "distinct (qs @ p # what # post)" using links_distinct [OF xs] .
  have ne: "p \<noteq> what" "gl xw \<noteq> what" using dist xs by (auto, cases qs, auto)
  define H' where "H' = H(p \<mapsto> sn (gn ot) xp, what \<mapsto> sn NOTHING ot)"
  show ?thesis
  proof (rule that)
    show "LL_REMOVE gl sl gn sn where what H = Some H'"
      using w ot ne ll_unlink_links [OF xs p ot] by (simp add: LL_REMOVE_def H'_def)
    show "relinks sl sn H H'"
      unfolding H'_def by (intro relinks.intros p) (use ot ne in simp)
    show "field gl H' = field gl H"
      using p ot by (auto simp: H'_def field_def fun_eq_iff)
    show "field gn H' = (field gn H)(p \<mapsto> gn ot, what \<mapsto> NOTHING)"
      unfolding H'_def field_upd gn_sn ..
  qed
qed

lemma LL_REMOVE_listed:
  assumes "listed gl gn H where (pre @ what # post)"
  obtains H' where "LL_REMOVE gl sl gn sn where what H = Some H'" "relinks sl sn H H'"
    and "listed gl gn H' where (pre @ post)"
    and "\<And>w ys. w \<noteq> where \<Longrightarrow> listed gl gn H w ys \<Longrightarrow> set ys \<inter> set (pre @ what # post) = {} \<Longrightarrow>
      listed gl gn H' w ys"
proof -
  obtain xw where w: "H where = Some xw"
    and xs: "links (field gn H) (gl xw) (pre @ what # post)"
    using assms by (auto simp: listed_def)
  obtain ot where ot: "H what = Some ot" "links (field gn H) (gn ot) post"
    using links_tail [OF xs] by (auto simp: field_eq_Some)
  have dist: "distinct (pre @ what # post)" using links_distinct [OF xs] .
  show ?thesis
  proof (cases pre rule: rev_exhaust)
    case Nil
    then have a: "gl xw = what" using xs by simp
    obtain H' where H': "LL_REMOVE gl sl gn sn where what H = Some H'" "relinks sl sn H H'"
        "field gl H' = (field gl H)(where \<mapsto> gn ot)"
        "field gn H' = (field gn H)(what \<mapsto> NOTHING)"
      using LL_REMOVE_first [OF w a ot(1)] .
    have "listed gl gn H' where (pre @ post)"
      using ot(2) dist Nil fun_cong [OF H'(3), of "where"]
      by (auto simp: listed_def H'(4) field_eq_Some)
    moreover have "listed gl gn H' w ys"
      if "w \<noteq> where" "listed gl gn H w ys" "set ys \<inter> set (pre @ what # post) = {}" for w ys
      using that(2) by (rule listed_cong) (use that in \<open>auto simp: H'(3,4)\<close>)
    ultimately show ?thesis using H'(1,2) that by blast
  next
    case (snoc qs p)
    have xs': "links (field gn H) (gl xw) (qs @ p # what # post)" using xs snoc by simp
    obtain xp where p: "H p = Some xp" using links_tail [OF xs'] by (auto simp: field_eq_Some)
    obtain H' where H': "LL_REMOVE gl sl gn sn where what H = Some H'" "relinks sl sn H H'"
        "field gl H' = field gl H"
        "field gn H' = (field gn H)(p \<mapsto> gn ot, what \<mapsto> NOTHING)"
      using LL_REMOVE_later [OF w xs' p ot(1)] .
    have "links (field gn H') (gl xw) (qs @ p # post)"
      using xs' by (rule links_bypass) (use dist snoc ot in \<open>simp_all add: H'(4) field_Some\<close>)
    then have "listed gl gn H' where (pre @ post)"
      using fun_cong [OF H'(3), of "where"] w snoc by (auto simp: listed_def field_def)
    moreover have "listed gl gn H' w ys"
      if "w \<noteq> where" "listed gl gn H w ys" "set ys \<inter> set (pre @ what # post) = {}" for w ys
      using that(2) by (rule listed_cong) (use that snoc in \<open>auto simp: H'(3,4)\<close>)
    ultimately show ?thesis using H'(1,2) that by blast
  qed
qed

lemma LL_APPEND_listed:
  assumes l: "listed gl gn H where xs" and what: "H what \<noteq> None" "what \<notin> set xs" "what \<noteq> NOTHING"
  obtains H' where "LL_APPEND gl sl gn sn where what H = Some H'" "relinks sl sn H H'"
    and "listed gl gn H' where (xs @ [what])"
    and "\<And>w ys. w \<noteq> where \<Longrightarrow> listed gl gn H w ys \<Longrightarrow> what \<notin> set ys \<Longrightarrow> set ys \<inter> set xs = {} \<Longrightarrow>
      listed gl gn H' w ys"
proof (cases xs rule: rev_exhaust)
  case Nil
  obtain xw ot where w: "H where = Some xw" "gl xw = NOTHING" and ot: "H what = Some ot"
    using l what Nil by (auto simp: listed_def)
  define H1 where "H1 = H(where \<mapsto> sl what xw)"
  obtain y where y: "H1 what = Some y" "gl y = (if what = where then what else gl ot)"
    using w ot by (cases "what = where") (auto simp: H1_def)
  define H' where "H' = H1(what \<mapsto> sn NOTHING y)"
  have gn: "field gn H' = (field gn H)(what \<mapsto> NOTHING)"
    using w ot y by (auto simp: H'_def H1_def field_def fun_eq_iff)
  have gl: "field gl H' = (field gl H)(where \<mapsto> what)"
    using w ot y by (auto simp: H'_def H1_def field_def fun_eq_iff)
  show ?thesis
  proof (rule that)
    show "LL_APPEND gl sl gn sn where what H = Some H'"
      using w y by (simp add: LL_APPEND_def H1_def [symmetric] H'_def)
    show "relinks sl sn H H'"
      unfolding H'_def H1_def by (intro relinks.intros w) (use y(1) H1_def in simp)
    show "listed gl gn H' where (xs @ [what])"
      using fun_cong [OF gl, of "where"] Nil what by (auto simp: listed_def gn field_eq_Some)
    show "listed gl gn H' w ys" if "w \<noteq> where" "listed gl gn H w ys" "what \<notin> set ys" for w ys
      using that(2) by (rule listed_cong) (use that in \<open>auto simp: gn gl\<close>)
  qed
next
  case (snoc qs p)
  obtain xw ot where w: "H where = Some xw" "links (field gn H) (gl xw) (qs @ [p])"
      and ot: "H what = Some ot"
    using l what snoc by (auto simp: listed_def)
  obtain xp where p: "H p = Some xp" using links_tail [OF w(2)] by (auto simp: field_eq_Some)
  have ne: "p \<noteq> what" "gl xw \<noteq> NOTHING" using what snoc w(2) by (auto, cases qs, auto)
  define H' where "H' = H(p \<mapsto> sn what xp, what \<mapsto> sn NOTHING ot)"
  have gn: "field gn H' = (field gn H)(p \<mapsto> what, what \<mapsto> NOTHING)"
    unfolding H'_def field_upd gn_sn ..
  have gl: "field gl H' = field gl H"
    using p ot by (auto simp: H'_def field_def fun_eq_iff)
  show ?thesis
  proof (rule that)
    show "LL_APPEND gl sl gn sn where what H = Some H'"
      using w ot p ne ll_last_links [OF w(2)] by (simp add: LL_APPEND_def H'_def)
    show "relinks sl sn H H'"
      unfolding H'_def by (intro relinks.intros p) (use ot ne in simp)
    have "links (field gn H') (gl xw) (qs @ [p, what])"
      using w(2) by (rule links_snoc) (use what snoc ne in \<open>auto simp: gn\<close>)
    then show "listed gl gn H' where (xs @ [what])"
      using fun_cong [OF gl, of "where"] w snoc by (auto simp: listed_def field_def)
    show "listed gl gn H' w ys"
      if "w \<noteq> where" "listed gl gn H w ys" "what \<notin> set ys" "set ys \<inter> set xs = {}" for w ys
      using that(2) by (rule listed_cong) (use that snoc in \<open>auto simp: gn gl\<close>)
  qed
qed

end

section \<open>Moving an object from one list to another\<close>

text \<open>The common part of \<open>db_change_parent\<close> and \<open>db_change_location\<close>: leave the old list, join
  the new one, set the back pointer.\<close>

definition relink ::
  "(obj \<Rightarrow> Objid) \<Rightarrow> (Objid \<Rightarrow> obj \<Rightarrow> obj) \<Rightarrow> (obj \<Rightarrow> Objid) \<Rightarrow> (Objid \<Rightarrow> obj \<Rightarrow> obj) \<Rightarrow>
   (obj \<Rightarrow> Objid) \<Rightarrow> (Objid \<Rightarrow> obj \<Rightarrow> obj) \<Rightarrow> Objid \<Rightarrow> Objid \<Rightarrow> heap \<Rightarrow> heap option" where
  "relink gl sl gn sn gu su what dest H =
     do {
       ot \<leftarrow> H what;
       H1 \<leftarrow> (if H (gu ot) \<noteq> None then LL_REMOVE gl sl gn sn (gu ot) what H else Some H);
       H2 \<leftarrow> (if H dest \<noteq> None then LL_APPEND gl sl gn sn dest what H1 else Some H1);
       upd what (su dest) H2
     }"

text \<open>What it does: \<open>what\<close> is gone from its old list and last in the new one, all other
  lists keep their elements and order, and only the list fields of the heap and the back
  pointer of \<open>what\<close> change.\<close>

definition moved ::
  "(obj \<Rightarrow> Objid) \<Rightarrow> (Objid \<Rightarrow> obj \<Rightarrow> obj) \<Rightarrow> (obj \<Rightarrow> Objid) \<Rightarrow> (Objid \<Rightarrow> obj \<Rightarrow> obj) \<Rightarrow>
   (obj \<Rightarrow> Objid) \<Rightarrow> (Objid \<Rightarrow> obj \<Rightarrow> obj) \<Rightarrow> Objid \<Rightarrow> Objid \<Rightarrow> heap \<Rightarrow> heap \<Rightarrow> bool" where
  "moved gl sl gn sn gu su what dest H H' \<longleftrightarrow>
     (\<forall>w ys. listed gl gn H w ys \<longrightarrow>
        listed gl gn H' w (filter (\<lambda>c. c \<noteq> what) ys @ (if w = dest then [what] else []))) \<and>
     field gu H' = (field gu H)(what \<mapsto> dest) \<and>
     (\<exists>H2 x. relinks sl sn H H2 \<and> H2 what = Some x \<and> H' = H2(what \<mapsto> su dest x))"

lemma moved_field:
  assumes "moved gl sl gn sn gu su what dest H H'"
    and "\<And>v x. f (sl v x) = f x" "\<And>v x. f (sn v x) = f x" "\<And>v x. f (su v x) = f x"
  shows "field f H' = field f H"
proof -
  obtain H2 x where x: "relinks sl sn H H2" "H2 what = Some x" "H' = H2(what \<mapsto> su dest x)"
    using assms(1) unfolding moved_def by blast
  have "field f H2 = field f H" using relinks_field [OF x(1), of f] assms(2,3) by blast
  moreover have "field f H' = field f H2"
    unfolding x(3) field_upd assms(4) using field_Some [of H2 what x f, OF x(2)]
    by (simp add: fun_upd_idem)
  ultimately show ?thesis by simp
qed

lemma moved_None: "moved gl sl gn sn gu su what dest H H' \<Longrightarrow> H' i = None \<longleftrightarrow> H i = None"
  using moved_field [of gl sl gn sn gu su what dest H H' "\<lambda>_. ()"]
  by (simp add: fun_eq_iff) (metis field_eq_None)

lemma moved_listed:
  "moved gl sl gn sn gu su what dest H H' \<Longrightarrow> listed gl gn H w ys \<Longrightarrow>
     listed gl gn H' w (filter (\<lambda>c. c \<noteq> what) ys @ (if w = dest then [what] else []))"
  unfolding moved_def by blast

lemma moved_up:
  "moved gl sl gn sn gu su what dest H H' \<Longrightarrow> field gu H' = (field gu H)(what \<mapsto> dest)"
  unfolding moved_def by blast

context link_fields
begin

text \<open>Leaving the old list, if any, takes the object out of every list.\<close>

lemma leave_listed:
  assumes f: "forest gl gn gu H" and what: "H what = Some ot"
  obtains H' where
    "(if H (gu ot) \<noteq> None then LL_REMOVE gl sl gn sn (gu ot) what H else Some H) = Some H'"
    "relinks sl sn H H'"
    "\<And>w ys. listed gl gn H w ys \<Longrightarrow> listed gl gn H' w (filter (\<lambda>c. c \<noteq> what) ys)"
proof (cases "H (gu ot)")
  case None
  have "filter (\<lambda>c. c \<noteq> what) ys = ys" if "listed gl gn H w ys" for w ys
  proof -
    have "H w \<noteq> None" using that by (auto simp: listed_def)
    then have "what \<notin> set ys"
      using forest_listed [OF f that] None what by (auto simp: field_def)
    then show ?thesis by (auto intro: filter_True)
  qed
  then show ?thesis using that [of H] None by (simp add: relinks_refl)
next
  case (Some xo)
  then obtain xs where xs: "listed gl gn H (gu ot) xs"
    using forest_obtain [OF f, of "gu ot"] by auto
  then have "what \<in> set xs" using forest_listed [OF f xs] what by (simp add: field_def)
  then obtain pre post where split: "xs = pre @ what # post" by (meson split_list)
  obtain H' where H': "LL_REMOVE gl sl gn sn (gu ot) what H = Some H'" "relinks sl sn H H'"
      "listed gl gn H' (gu ot) (pre @ post)"
      "\<And>w ys. w \<noteq> gu ot \<Longrightarrow> listed gl gn H w ys \<Longrightarrow> set ys \<inter> set (pre @ what # post) = {} \<Longrightarrow>
        listed gl gn H' w ys"
    using LL_REMOVE_listed [OF xs [unfolded split]] by blast
  have "distinct xs" using xs links_distinct by (auto simp: listed_def)
  then have "filter (\<lambda>c. c \<noteq> what) pre = pre" "filter (\<lambda>c. c \<noteq> what) post = post"
    by (auto simp: split intro!: filter_True)
  then have old: "filter (\<lambda>c. c \<noteq> what) xs = pre @ post" by (simp add: split)
  have "listed gl gn H' w (filter (\<lambda>c. c \<noteq> what) ys)" if l: "listed gl gn H w ys" for w ys
  proof (cases "w = gu ot")
    case True
    then have "ys = xs" using l xs by (auto dest: listed_unique)
    then show ?thesis using True old H'(3) by simp
  next
    case False
    then have dj: "set ys \<inter> set xs = {}"
      using forest_listed [OF f l] forest_listed [OF f xs] by auto
    then have "filter (\<lambda>c. c \<noteq> what) ys = ys" using split by (auto intro: filter_True)
    then show ?thesis using H'(4) [OF False l] dj split by simp
  qed
  then show ?thesis using that H'(1,2) Some by simp
qed

lemma relink_moved:
  assumes f: "forest gl gn gu H" and what: "H what \<noteq> None"
  obtains H' where "relink gl sl gn sn gu su what dest H = Some H'"
    and "moved gl sl gn sn gu su what dest H H'"
proof -
  obtain ot where ot: "H what = Some ot" using what by auto
  obtain H1 where H1:
    "(if H (gu ot) \<noteq> None then LL_REMOVE gl sl gn sn (gu ot) what H else Some H) = Some H1"
    "relinks sl sn H H1"
    "\<And>w ys. listed gl gn H w ys \<Longrightarrow> listed gl gn H1 w (filter (\<lambda>c. c \<noteq> what) ys)"
    using leave_listed [OF f ot] by blast
  have wN: "what \<noteq> NOTHING" using f what by (auto simp: forest_def)
  obtain H2 where H2:
    "(if H dest \<noteq> None then LL_APPEND gl sl gn sn dest what H1 else Some H1) = Some H2"
    "relinks sl sn H1 H2"
    "\<And>w ys. listed gl gn H w ys \<Longrightarrow>
      listed gl gn H2 w (filter (\<lambda>c. c \<noteq> what) ys @ (if w = dest then [what] else []))"
  proof (cases "H dest")
    case None
    then have "w \<noteq> dest" if "listed gl gn H w ys" for w ys
      using that by (auto simp: listed_def)
    then show ?thesis using that [of H1] H1(3) None by (simp add: relinks_refl)
  next
    case (Some xd)
    then obtain xs where xs: "listed gl gn H dest xs" using forest_obtain [OF f, of dest] by auto
    obtain H2 where run: "LL_APPEND gl sl gn sn dest what H1 = Some H2" "relinks sl sn H1 H2"
        "listed gl gn H2 dest (filter (\<lambda>c. c \<noteq> what) xs @ [what])"
      and other: "\<And>w ys. w \<noteq> dest \<Longrightarrow> listed gl gn H1 w ys \<Longrightarrow> what \<notin> set ys \<Longrightarrow>
        set ys \<inter> set (filter (\<lambda>c. c \<noteq> what) xs) = {} \<Longrightarrow> listed gl gn H2 w ys"
      using LL_APPEND_listed [OF H1(3) [OF xs], of what] wN ot relinks_None [OF H1(2), of what]
      by auto
    have "listed gl gn H2 w (filter (\<lambda>c. c \<noteq> what) ys @ (if w = dest then [what] else []))"
      if l: "listed gl gn H w ys" for w ys
    proof (cases "w = dest")
      case True
      then show ?thesis using l xs run(3) listed_unique by fastforce
    next
      case False
      then have "set ys \<inter> set xs = {}"
        using forest_listed [OF f l] forest_listed [OF f xs] by auto
      then have "listed gl gn H2 w (filter (\<lambda>c. c \<noteq> what) ys)"
        using other [OF False H1(3) [OF l]] by auto
      then show ?thesis using False by simp
    qed
    then show ?thesis using that [of H2] run Some by simp
  qed
  have rl: "relinks sl sn H H2" using H1(2) H2(2) by (rule relinks_trans [rotated])
  then obtain x where x: "H2 what = Some x" using relinks_None [OF rl, of what] ot by auto
  define H' where "H' = H2(what \<mapsto> su dest x)"
  have same: "field gl H' = field gl H2" "field gn H' = field gn H2"
    using x by (auto simp: H'_def field_def fun_eq_iff)
  show ?thesis
  proof (rule that)
    show "relink gl sl gn sn gu su what dest H = Some H'"
      using ot H1(1) H2(1) x by (simp add: relink_def H'_def del: not_None_eq)
    have "listed gl gn H' w (filter (\<lambda>c. c \<noteq> what) ys @ (if w = dest then [what] else []))"
      if "listed gl gn H w ys" for w ys
      using H2(3) [OF that] by (rule listed_cong) (simp_all add: same)
    moreover have "field gu H' = (field gu H)(what \<mapsto> dest)"
      using relinks_field [OF rl, of gu] by (simp add: H'_def)
    ultimately show "moved gl sl gn sn gu su what dest H H'"
      using rl x H'_def unfolding moved_def by blast
  qed
qed

lemma moved_forest:
  assumes f: "forest gl gn gu H" and dest: "dest = NOTHING \<or> H dest \<noteq> None"
    and m: "moved gl sl gn sn gu su what dest H H'"
  shows "forest gl gn gu H'"
proof -
  note lists = moved_listed [OF m] and gu = moved_up [OF m] and dom = moved_None [OF m]
  have "\<exists>xs. listed gl gn H' w xs \<and> (\<forall>c. c \<in> set xs \<longleftrightarrow> field gu H' c = Some w)"
    if "H' w \<noteq> None" for w
  proof -
    have "H w \<noteq> None" using that dom [of w] by simp
    then obtain ys where ys: "listed gl gn H w ys" "\<And>c. c \<in> set ys \<longleftrightarrow> field gu H c = Some w"
      using f unfolding forest_def by blast
    have "c \<in> set (filter (\<lambda>c. c \<noteq> what) ys @ (if w = dest then [what] else [])) \<longleftrightarrow>
        field gu H' c = Some w" for c
      using ys(2) [of c] by (auto simp: gu)
    with lists [OF ys(1)] show ?thesis by blast
  qed
  moreover have "w = NOTHING \<or> H' w \<noteq> None" if "field gu H' c = Some w" for c w
  proof (cases "c = what")
    case True
    then show ?thesis using that dest dom [of w] by (simp add: gu)
  next
    case False
    then have "field gu H c = Some w" using that by (simp add: gu)
    then show ?thesis using f dom [of w] unfolding forest_def by simp
  qed
  moreover have "H' NOTHING = None" using f dom [of NOTHING] by (simp add: forest_def)
  ultimately show ?thesis by (simp add: forest_def)
qed

end

interpretation kids: link_fields o_child "\<lambda>v. o_child_update (\<lambda>_. v)" o_sibling
  "\<lambda>v. o_sibling_update (\<lambda>_. v)" o_parent "\<lambda>v. o_parent_update (\<lambda>_. v)"
  by unfold_locales simp_all

interpretation inv: link_fields o_contents "\<lambda>v. o_contents_update (\<lambda>_. v)" o_next
  "\<lambda>v. o_next_update (\<lambda>_. v)" o_location "\<lambda>v. o_location_update (\<lambda>_. v)"
  by unfold_locales simp_all

end
