(* ===== verification/Hierarchy.thy ===== *)
theory Hierarchy
  imports Links
begin

text \<open>
  The parent/children hierarchy. The recursive functions of \<^verbatim>\<open>db_properties.c\<close> all have one
  shape: do something to an object, then recur on each object of its \<^verbatim>\<open>child\<close> list. \<open>walk\<close>
  is that shape, with the local step as an argument.

  \<open>wf_tree\<close> says that the table is finite, that the child lists are consistent with the
  parent pointers and that every ancestor chain ends. Under it \<open>walk\<close> returns and visits every
  descendant exactly once, each after its parent (\<open>walk_visits\<close>), and there is an induction
  rule along the recursion (\<open>tree_induct\<close>).
\<close>

section \<open>The recursion over children\<close>

partial_function (option) walk ::
  "(Objid \<Rightarrow> 'a \<Rightarrow> db \<Rightarrow> ('a \<times> db) option) \<Rightarrow> 'a \<Rightarrow> Objid \<Rightarrow> db \<Rightarrow> db option" where
  "walk visit a c db =
     (if c = NOTHING then Some db
      else do {
        (a', db1) \<leftarrow> visit c a db;
        oc \<leftarrow> dbpriv_find_object db1 c;
        db2 \<leftarrow> walk visit a' (o_child oc) db1;
        oc2 \<leftarrow> dbpriv_find_object db2 c;
        walk visit a (o_sibling oc2) db2
      })"

declare walk.simps [code]

definition visit_tree ::
  "(Objid \<Rightarrow> 'a \<Rightarrow> db \<Rightarrow> ('a \<times> db) option) \<Rightarrow> 'a \<Rightarrow> Objid \<Rightarrow> db \<Rightarrow> db option" where
  "visit_tree visit a root db =
     do {
       (a', db1) \<leftarrow> visit root a db;
       r \<leftarrow> dbpriv_find_object db1 root;
       walk visit a' (o_child r) db1
     }"

section \<open>Ancestors and descendants\<close>

abbreviation ancestry :: "heap \<Rightarrow> Objid \<Rightarrow> Objid list \<Rightarrow> bool" where
  "ancestry H \<equiv> links (field o_parent H)"

abbreviation children :: "heap \<Rightarrow> Objid \<Rightarrow> Objid list \<Rightarrow> bool" where
  "children H \<equiv> listed o_child o_sibling H"

definition desc :: "heap \<Rightarrow> Objid \<Rightarrow> Objid \<Rightarrow> bool" where
  "desc H r d \<longleftrightarrow> (\<exists>xs. ancestry H d xs \<and> r \<in> set xs)"

definition wf_tree :: "heap \<Rightarrow> bool" where
  "wf_tree H \<longleftrightarrow>
     finite (dom H) \<and> forest o_child o_sibling o_parent H \<and>
     (\<forall>i. H i \<noteq> None \<longrightarrow> (\<exists>xs. ancestry H i xs))"

lemma wf_treeD:
  assumes "wf_tree H"
  shows "finite (dom H)" "forest o_child o_sibling o_parent H" "H NOTHING = None"
  using assms by (auto simp: wf_tree_def forest_def)

lemma wf_tree_ancestry:
  assumes "wf_tree H" "H i \<noteq> None"
  obtains xs where "ancestry H i xs"
  using assms by (auto simp: wf_tree_def)

lemma wf_tree_children:
  assumes "wf_tree H" "H w \<noteq> None"
  obtains xs where "children H w xs" "\<And>c. c \<in> set xs \<longleftrightarrow> field o_parent H c = Some w"
  using assms forest_obtain [of o_child o_sibling o_parent H w] by (auto simp: wf_tree_def)

lemma ancestry_dom: "ancestry H i xs \<Longrightarrow> x \<in> set xs \<Longrightarrow> H x \<noteq> None"
  by (induction xs arbitrary: i) (auto simp: field_eq_Some)

lemma ancestry_bounded:
  assumes "wf_tree H" "ancestry H i xs"
  shows "length xs \<le> card (dom H)"
proof -
  have "set xs \<subseteq> dom H" using ancestry_dom [OF assms(2)] by auto
  then have "card (set xs) \<le> card (dom H)" using wf_treeD(1) [OF assms(1)] by (rule card_mono [rotated])
  then show ?thesis using links_distinct [OF assms(2)] by (simp add: distinct_card)
qed

lemma children_iff:
  assumes "wf_tree H" "children H p zs"
  shows "z \<in> set zs \<longleftrightarrow> field o_parent H z = Some p"
  using forest_listed [OF wf_treeD(2) [OF assms(1)] assms(2)] .

lemma children_dom: "children H p zs \<Longrightarrow> H p \<noteq> None"
  by (auto simp: listed_def)

lemma desc_refl:
  assumes "wf_tree H" "H r \<noteq> None"
  shows "desc H r r"
proof -
  obtain xs where xs: "ancestry H r xs" using wf_tree_ancestry [OF assms] .
  moreover have "r \<in> set xs" using xs assms wf_treeD(3) [OF assms(1)] by (cases xs) auto
  ultimately show ?thesis by (auto simp: desc_def)
qed

lemma desc_dom:
  assumes "desc H r d"
  shows "H r \<noteq> None" "H d \<noteq> None"
proof -
  obtain xs where xs: "ancestry H d xs" "r \<in> set xs" using assms by (auto simp: desc_def)
  then have "d \<in> set xs" by (cases xs) auto
  then show "H r \<noteq> None" "H d \<noteq> None" using xs ancestry_dom by auto
qed

lemma desc_unfold:
  assumes tree: "wf_tree H" and zs: "children H z ws"
  shows "desc H z d \<longleftrightarrow> d = z \<or> (\<exists>w \<in> set ws. desc H w d)"
proof
  assume "desc H z d"
  then obtain xs where xs: "ancestry H d xs" "z \<in> set xs" by (auto simp: desc_def)
  obtain us vs where split: "xs = us @ z # vs" using split_list [OF xs(2)] by blast
  show "d = z \<or> (\<exists>w \<in> set ws. desc H w d)"
  proof (cases us rule: rev_exhaust)
    case Nil
    then show ?thesis using xs split by simp
  next
    case (snoc us' w)
    then have "ancestry H w (w # z # vs)" using links_tail [of "field o_parent H" d us' w "z # vs"] xs split
      by simp
    then have "w \<in> set ws" using children_iff [OF tree zs] by auto
    moreover have "desc H w d" using xs split snoc by (auto simp: desc_def)
    ultimately show ?thesis by blast
  qed
next
  assume "d = z \<or> (\<exists>w \<in> set ws. desc H w d)"
  then show "desc H z d"
  proof
    assume "d = z"
    then show ?thesis using desc_refl [OF tree children_dom [OF zs]] by simp
  next
    assume "\<exists>w \<in> set ws. desc H w d"
    then obtain w xs where w: "w \<in> set ws" and xs: "ancestry H d xs" "w \<in> set xs"
      by (auto simp: desc_def)
    have up: "field o_parent H w = Some z" using children_iff [OF tree zs] w by simp
    obtain us vs where split: "xs = us @ w # vs" using split_list [OF xs(2)] by blast
    then have "ancestry H w (w # vs)" using links_tail xs(1) by blast
    then have "ancestry H z vs" using up by auto
    moreover have "z \<noteq> NOTHING" using children_dom [OF zs] wf_treeD(3) [OF tree] by metis
    ultimately have "z \<in> set vs" by (cases vs) auto
    then show ?thesis using xs split by (auto simp: desc_def)
  qed
qed

lemma desc_child:
  assumes "desc H r p" "field o_parent H z = Some p" "z \<noteq> NOTHING"
  shows "desc H r z"
proof -
  obtain xs where "ancestry H p xs" "r \<in> set xs" using assms(1) by (auto simp: desc_def)
  then have "ancestry H z (z # xs)" "r \<in> set (z # xs)" using assms by auto
  then show ?thesis unfolding desc_def by blast
qed

text \<open>No object is below one of its children, and the subtrees of siblings are disjoint.\<close>

lemma parent_not_desc:
  assumes "field o_parent H z = Some p" "p \<noteq> NOTHING"
  shows "\<not> desc H z p"
proof
  assume "desc H z p"
  then obtain xs where xs: "ancestry H p xs" "z \<in> set xs" by (auto simp: desc_def)
  then obtain us vs where split: "xs = us @ z # vs" by (meson split_list)
  then have z: "ancestry H z (z # vs)" using links_tail xs(1) by blast
  then have "ancestry H p vs" using assms by auto
  then have "xs = vs" using xs(1) by (simp add: links_unique)
  then show False using split by auto
qed

lemma siblings_disjoint:
  assumes "field o_parent H z = Some p" "field o_parent H w = Some p" "desc H z d" "desc H w d"
  shows "z = w"
proof -
  obtain xs where xs: "ancestry H d xs" "z \<in> set xs" using assms(3) by (auto simp: desc_def)
  have w: "w \<in> set xs" using assms(4) xs(1) links_unique by (auto simp: desc_def)
  obtain us vs where z: "xs = us @ z # vs" using split_list [OF xs(2)] by blast
  obtain us' vs' where w: "xs = us' @ w # vs'" using split_list [OF w] by blast
  have "ancestry H z (z # vs)" "ancestry H w (w # vs')"
    using links_tail xs(1) z w by metis+
  then have "ancestry H p vs" "ancestry H p vs'" using assms(1,2) by auto
  then have "vs = vs'" by (rule links_unique)
  then have "us @ [z] = us' @ [w]" using z w by simp
  then show ?thesis by simp
qed

section \<open>Induction along the recursion\<close>

lemma tree_induct:
  assumes tree: "wf_tree H" and zs: "children H p (ys @ zs)"
    and Nil: "\<And>p. P p []"
    and Cons: "\<And>p us z zs ws. children H p (us @ z # zs) \<Longrightarrow> field o_parent H z = Some p \<Longrightarrow>
      children H z ws \<Longrightarrow> P z ws \<Longrightarrow> P p zs \<Longrightarrow> P p (z # zs)"
  shows "P p zs"
proof -
  obtain as where as: "ancestry H p as" using wf_tree_ancestry [OF tree children_dom [OF zs]] .
  have "P p zs" if "ancestry H p as" "children H p (ys @ zs)" "n = card (dom H) - length as"
    for n p as ys zs
    using that
  proof (induction n arbitrary: p as ys zs rule: less_induct)
    case (less n)
    show ?case using less.prems(2)
    proof (induction zs arbitrary: ys)
      case Nil
      show ?case by (rule assms(3))
    next
      case (Cons z zs)
      have up: "field o_parent H z = Some p" using children_iff [OF tree Cons.prems, of z] by simp
      then have z: "H z \<noteq> None" by (auto simp: field_eq_Some)
      then obtain ws where ws: "children H z ws" using wf_tree_children [OF tree] by blast
      have az: "ancestry H z (z # as)"
        using up less.prems(1) z wf_treeD(3) [OF tree] by auto
      have "length as < length (z # as)" "length (z # as) \<le> card (dom H)"
        using ancestry_bounded [OF tree az] by simp_all
      then have "P z ws" using less.IH [OF _ az, of "card (dom H) - length (z # as)" "[]" ws] ws less.prems(3)
        by simp
      moreover have "P p zs" using Cons.IH [of "ys @ [z]"] Cons.prems by simp
      ultimately show ?case using assms(4) [OF Cons.prems up ws] by blast
    qed
  qed
  then show ?thesis using as zs by blast
qed

lemma next_sibling:
  assumes "children H p (us @ z # zs)" "H z = Some x"
  shows "o_sibling x = (case zs of [] \<Rightarrow> NOTHING | w # _ \<Rightarrow> w)"
proof -
  obtain a where "links (field o_sibling H) a (us @ z # zs)" using assms(1) by (auto simp: listed_def)
  then have "links (field o_sibling H) z (z # zs)" by (rule links_tail)
  then show ?thesis using assms(2) by (cases zs) (auto simp: field_eq_Some)
qed

lemma next_distinct: "children H p (us @ z # zs) \<Longrightarrow> z \<notin> set zs"
  by (auto simp: listed_def dest!: links_distinct)

section \<open>What a walk does\<close>

text \<open>The fields that hold the hierarchy.\<close>

definition same_tree :: "db \<Rightarrow> db \<Rightarrow> bool" where
  "same_tree db db' \<longleftrightarrow>
     num_objects db' = num_objects db \<and>
     field o_parent (objects db') = field o_parent (objects db) \<and>
     field o_child (objects db') = field o_child (objects db) \<and>
     field o_sibling (objects db') = field o_sibling (objects db)"

lemma same_tree_refl [simp]: "same_tree db db"
  by (simp add: same_tree_def)

lemma same_tree_find:
  assumes "same_tree db db'" "dbpriv_find_object db i = Some x"
  obtains x' where "dbpriv_find_object db' i = Some x'" "o_child x' = o_child x"
    "o_sibling x' = o_sibling x" "o_parent x' = o_parent x"
proof -
  have x: "objects db i = Some x" "0 \<le> i" "i < num_objects db"
    using assms(2) by (auto simp: dbpriv_find_object_def split: if_splits)
  have eq: "field g (objects db') i = Some (g x)"
    if "field g (objects db') = field g (objects db)" for g :: "obj \<Rightarrow> Objid"
    using fun_cong [OF that, of i] x(1) by (simp add: field_def)
  note tree = assms(1) [unfolded same_tree_def]
  obtain x' where x': "objects db' i = Some x'"
    using eq [of o_parent] tree unfolding field_eq_Some by blast
  have "o_child x' = o_child x" "o_sibling x' = o_sibling x" "o_parent x' = o_parent x"
    using eq [of o_child] eq [of o_sibling] eq [of o_parent] tree
      field_Some [of "objects db'" i x', OF x'] by (metis option.inject)+
  then show ?thesis
    using that [of x'] x x' tree by (simp add: dbpriv_find_object_def)
qed

text \<open>The rule for \<open>walk\<close>: if the local step succeeds on every object whose parent is done and
  keeps the invariant \<open>I\<close> of the set of objects done so far, then the walk returns and has
  done all descendants. \<open>ctx\<close> gives the argument that each object passes to its children.\<close>

lemma walk_visits:
  assumes wft: "wf_table db0" and tree: "wf_tree (objects db0)"
    and links: "\<And>S db. I S db \<Longrightarrow> same_tree db0 db"
    and step: "\<And>S db c p. I S db \<Longrightarrow> c \<notin> S \<Longrightarrow> p \<in> S \<Longrightarrow> field o_parent (objects db0) c = Some p \<Longrightarrow>
      desc (objects db0) root c \<Longrightarrow> \<exists>db'. visit c (ctx p) db = Some (ctx c, db') \<and> I (insert c S) db'"
    and zs: "children (objects db0) p (us @ zs)" and p: "desc (objects db0) root p"
    and I: "I S db" "p \<in> S" "\<And>z d. z \<in> set zs \<Longrightarrow> desc (objects db0) z d \<Longrightarrow> d \<notin> S"
    and c: "c = (case zs of [] \<Rightarrow> NOTHING | z # _ \<Rightarrow> z)"
  shows "\<exists>db'. walk visit (ctx p) c db = Some db' \<and>
    I (S \<union> {d. \<exists>z \<in> set zs. desc (objects db0) z d}) db'"
  using p I c
proof (induction arbitrary: S db c rule: tree_induct [OF tree zs])
  case (1 p)
  then show ?case by (subst walk.simps) simp
next
  case (2 p us z zs ws)
  let ?H = "objects db0"
  have c: "c = z" using 2 by simp
  have zN: "z \<noteq> NOTHING" using 2(2) wf_treeD(3) [OF tree] by (auto simp: field_eq_Some)
  have rz: "desc ?H root z" using desc_child [OF 2(6) 2(2) zN] .
  have zz: "desc ?H z z" using desc_refl [OF tree children_dom [OF 2(3)]] .
  obtain xz where xz: "dbpriv_find_object db0 z = Some xz" "links (field o_sibling ?H) (o_child xz) ws"
    using 2(3) wf_table_find [OF wft] by (auto simp: listed_def)
  obtain db1 where v: "visit z (ctx p) db = Some (ctx z, db1)" "I (insert z S) db1"
    using step [OF 2(7) _ 2(8) 2(2) rz] 2(9) [of z z] zz by auto
  obtain x1 where x1: "dbpriv_find_object db1 z = Some x1" "o_child x1 = o_child xz"
    using same_tree_find [OF links [OF v(2)] xz(1)] by metis
  have "o_child x1 = (case ws of [] \<Rightarrow> NOTHING | w # _ \<Rightarrow> w)"
    using xz(2) x1(2) by (cases ws) auto
  moreover have "d \<notin> insert z S" if "w \<in> set ws" "desc ?H w d" for w d
  proof -
    have up: "field o_parent ?H w = Some z" using children_iff [OF tree 2(3)] that(1) by simp
    then have "d \<noteq> z" using parent_not_desc [OF up zN] that(2) by blast
    moreover have "desc ?H z d" using desc_unfold [OF tree 2(3)] that by blast
    ultimately show ?thesis using 2(9) [of z d] by simp
  qed
  ultimately obtain db2 where w1: "walk visit (ctx z) (o_child x1) db1 = Some db2"
      "I (insert z S \<union> {d. \<exists>w \<in> set ws. desc ?H w d}) db2"
    using 2(4) [OF rz v(2), of "o_child x1"] by blast
  have S2: "insert z S \<union> {d. \<exists>w \<in> set ws. desc ?H w d} = S \<union> {d. desc ?H z d}"
    using desc_unfold [OF tree 2(3)] by blast
  obtain x2 where x2: "dbpriv_find_object db2 z = Some x2" "o_sibling x2 = o_sibling xz"
    using same_tree_find [OF links [OF w1(2)] xz(1)] by metis
  have sib: "o_sibling x2 = (case zs of [] \<Rightarrow> NOTHING | z # _ \<Rightarrow> z)"
    using next_sibling [OF 2(1)] xz(1) x2(2) wf_table_find [OF wft] by auto
  have "d \<notin> S \<union> {d. desc ?H z d}" if "w \<in> set zs" "desc ?H w d" for w d
  proof -
    have "field o_parent ?H w = Some p" using children_iff [OF tree 2(1), of w] that(1) by simp
    then have "\<not> desc ?H z d"
      using siblings_disjoint [OF 2(2) _ _ that(2)] next_distinct [OF 2(1)] that(1) by blast
    then show ?thesis using 2(9) [of w d] that by simp
  qed
  then obtain db3 where "walk visit (ctx p) (o_sibling x2) db2 = Some db3"
      "I ((S \<union> {d. desc ?H z d}) \<union> {d. \<exists>w \<in> set zs. desc ?H w d}) db3"
    using 2(5) [OF 2(6) w1(2) [unfolded S2] _ _ sib] 2(8) by blast
  moreover have "(S \<union> {d. desc ?H z d}) \<union> {d. \<exists>w \<in> set zs. desc ?H w d} =
      S \<union> {d. \<exists>w \<in> set (z # zs). desc ?H w d}" by auto
  moreover have "walk visit (ctx p) c db = walk visit (ctx p) (o_sibling x2) db2"
    using v(1) x1(1) w1(1) x2(1) zN unfolding c by (subst walk.simps) simp
  ultimately show ?case by metis
qed

section \<open>Walks that update each object once\<close>

definition apply_at :: "(Objid \<Rightarrow> obj \<Rightarrow> obj) \<Rightarrow> Objid set \<Rightarrow> db \<Rightarrow> db" where
  "apply_at g S db =
     db\<lparr>objects := (\<lambda>d. if d \<in> S then map_option (g d) (objects db d) else objects db d)\<rparr>"

definition keeps_tree :: "(Objid \<Rightarrow> obj \<Rightarrow> obj) \<Rightarrow> bool" where
  "keeps_tree g \<longleftrightarrow>
     (\<forall>d x. o_id (g d x) = o_id x \<and> o_parent (g d x) = o_parent x \<and>
       o_child (g d x) = o_child x \<and> o_sibling (g d x) = o_sibling x)"

lemma apply_at_objects:
  "objects (apply_at g S db) d = (if d \<in> S then map_option (g d) (objects db d) else objects db d)"
  by (simp add: apply_at_def)

lemma apply_at_empty [simp]: "apply_at g {} db = db"
  by (simp add: apply_at_def)

lemma apply_at_insert:
  assumes "objects db c = Some x" "c \<notin> S"
  shows "(apply_at g S db)\<lparr>objects := (objects (apply_at g S db))(c \<mapsto> g c x)\<rparr> = apply_at g (insert c S) db"
  using assms by (auto simp: apply_at_def fun_eq_iff intro!: db.equality)

lemma apply_at_field:
  "(\<And>d x. f (g d x) = f x) \<Longrightarrow> field f (objects (apply_at g S db)) = field f (objects db)"
  by (auto simp: fun_eq_iff field_def apply_at_def option.map_comp comp_def)

lemma same_tree_apply_at: "keeps_tree g \<Longrightarrow> same_tree db (apply_at g S db)"
  unfolding same_tree_def keeps_tree_def
  by (simp add: apply_at_field [of o_parent] apply_at_field [of o_child] apply_at_field [of o_sibling])
    (simp add: apply_at_def)

lemma wf_table_apply_at: "keeps_tree g \<Longrightarrow> wf_table db \<Longrightarrow> wf_table (apply_at g S db)"
  unfolding wf_table_def apply_at_def keeps_tree_def by (auto split: if_splits)

lemma listed_same:
  assumes "field o_child H' = field o_child H" "field o_sibling H' = field o_sibling H"
  shows "children H' = children H"
proof (intro ext iffI)
  fix w xs
  show "children H w xs" if "children H' w xs"
    using that by (rule listed_cong) (simp_all add: assms)
  show "children H' w xs" if "children H w xs"
    using that by (rule listed_cong) (simp_all add: assms)
qed

lemma wf_tree_same:
  assumes "wf_tree H" "field o_parent H' = field o_parent H" "field o_child H' = field o_child H"
    "field o_sibling H' = field o_sibling H"
  shows "wf_tree H'"
proof -
  have None: "H' i = None \<longleftrightarrow> H i = None" for i
    using fun_cong [OF assms(2), of i] by (metis field_eq_None)
  then have "dom H' = dom H" by (auto simp: dom_def)
  then show ?thesis
    using assms None listed_same [OF assms(3,4)] by (simp add: wf_tree_def forest_def del: not_None_eq)
qed

lemma desc_same: "field o_parent H' = field o_parent H \<Longrightarrow> desc H' = desc H"
  unfolding desc_def by simp

lemma walk_apply_at:
  assumes wft: "wf_table db0" and tree: "wf_tree (objects db0)" and r: "objects db0 root = Some x"
    and g: "keeps_tree g"
    and step: "\<And>S c p. c \<notin> S \<Longrightarrow> p \<in> S \<Longrightarrow> field o_parent (objects db0) c = Some p \<Longrightarrow>
      desc (objects db0) root c \<Longrightarrow> c \<noteq> root \<Longrightarrow>
      visit c (ctx p) (apply_at g S db0) = Some (ctx c, apply_at g (insert c S) db0)"
  shows "walk visit (ctx root) (o_child x) (apply_at g {root} db0) =
    Some (apply_at g {d. desc (objects db0) root d} db0)"
proof -
  let ?H = "objects db0" and ?I = "\<lambda>S db. root \<in> S \<and> db = apply_at g S db0"
  have rn: "?H root \<noteq> None" using r by simp
  obtain zs where zs: "children ?H root zs" using wf_tree_children [OF tree rn] by blast
  have first: "o_child x = (case zs of [] \<Rightarrow> NOTHING | w # _ \<Rightarrow> w)"
    using zs r by (cases zs) (auto simp: listed_def)
  have rN: "root \<noteq> NOTHING" using r wf_treeD(3) [OF tree] by auto
  have dj: "d \<notin> {root}" if "z \<in> set zs" "desc ?H z d" for z d
  proof -
    have "field o_parent ?H z = Some root" using children_iff [OF tree zs] that(1) by simp
    from parent_not_desc [OF this rN] show ?thesis using that(2) by auto
  qed
  have "\<exists>db'. walk visit (ctx root) (o_child x) (apply_at g {root} db0) = Some db' \<and>
      ?I ({root} \<union> {d. \<exists>z \<in> set zs. desc ?H z d}) db'"
  proof (rule walk_visits [where us = "[]" and I = ?I and root = root and p = root and S = "{root}"])
    show "\<exists>db'. visit c (ctx p) db = Some (ctx c, db') \<and> ?I (insert c S) db'"
      if "?I S db" "c \<notin> S" "p \<in> S" "field o_parent ?H c = Some p" "desc ?H root c" for S db c p
      using step [OF that(2-5)] that(1,2) by auto
    show "same_tree db0 db" if "?I S db" for S db
      using that same_tree_apply_at [OF g] by auto
  qed (use wft tree zs first dj desc_refl [OF tree rn] in auto)
  moreover have "{root} \<union> {d. \<exists>z \<in> set zs. desc ?H z d} = {d. desc ?H root d}"
    unfolding desc_unfold [OF tree zs] by auto
  ultimately show ?thesis by simp
qed

lemma visit_tree_apply_at:
  assumes wft: "wf_table db0" and tree: "wf_tree (objects db0)" and r: "objects db0 root = Some x"
    and g: "keeps_tree g"
    and start: "visit root a db0 = Some (ctx root, apply_at g {root} db0)"
    and step: "\<And>S c p. c \<notin> S \<Longrightarrow> p \<in> S \<Longrightarrow> field o_parent (objects db0) c = Some p \<Longrightarrow>
      desc (objects db0) root c \<Longrightarrow> c \<noteq> root \<Longrightarrow>
      visit c (ctx p) (apply_at g S db0) = Some (ctx c, apply_at g (insert c S) db0)"
  shows "visit_tree visit a root db0 = Some (apply_at g {d. desc (objects db0) root d} db0)"
proof -
  have "objects (apply_at g {root} db0) root = Some (g root x)" "o_child (g root x) = o_child x"
    using r g by (simp_all add: apply_at_objects keeps_tree_def)
  then obtain y where "dbpriv_find_object (apply_at g {root} db0) root = Some y" "o_child y = o_child x"
    using wf_table_find [OF wf_table_apply_at [OF g wft]] by simp
  moreover have "walk visit (ctx root) (o_child x) (apply_at g {root} db0) =
      Some (apply_at g {d. desc (objects db0) root d} db0)"
    by (rule walk_apply_at [OF wft tree r g]) (rule step)
  ultimately show ?thesis unfolding visit_tree_def start by simp
qed

end
