(* ===== verification/Attributes.thy ===== *)
theory Attributes
  imports Hierarchy
begin

text \<open>
  The attributes of objects (\<^verbatim>\<open>db_objects.c\<close>, second half): owner, name, parent, location, the
  loops that count and enumerate children and contents, the flag bits, and the list of users
  that \<^verbatim>\<open>db_all_users\<close> returns.

  A flag is the number of its bit, as in \<^verbatim>\<open>db.h\<close>. \<open>users_ok\<close> says that the list of users is
  the list of the objects with the user flag; setting and clearing flags keep it, and change
  one bit only.
\<close>

unbundle bit_operations_syntax

section \<open>Plain fields\<close>

definition db_last_used_objid :: "db \<Rightarrow> Objid" where
  "db_last_used_objid db = num_objects db - 1"

definition db_object_owner :: "db \<Rightarrow> Objid \<Rightarrow> Objid option" where
  "db_object_owner db oid = map_option o_owner (objects db oid)"

definition db_set_object_owner :: "db \<Rightarrow> Objid \<Rightarrow> Objid \<Rightarrow> db option" where
  "db_set_object_owner db oid owner = upd_db oid (\<lambda>x. x\<lparr>o_owner := owner\<rparr>) db"

definition db_object_name :: "db \<Rightarrow> Objid \<Rightarrow> string option" where
  "db_object_name db oid = map_option o_name (objects db oid)"

definition db_set_object_name :: "db \<Rightarrow> Objid \<Rightarrow> string \<Rightarrow> db option" where
  "db_set_object_name db oid name = upd_db oid (\<lambda>x. x\<lparr>o_name := name\<rparr>) db"

definition db_object_parent :: "db \<Rightarrow> Objid \<Rightarrow> Objid option" where
  "db_object_parent db oid = map_option o_parent (objects db oid)"

definition db_object_location :: "db \<Rightarrow> Objid \<Rightarrow> Objid option" where
  "db_object_location db oid = map_option o_location (objects db oid)"

section \<open>Enumerating children and contents\<close>

definition db_count_children :: "db \<Rightarrow> Objid \<Rightarrow> int option" where
  "db_count_children db oid =
     do { x \<leftarrow> objects db oid; cs \<leftarrow> ll_members o_sibling (o_child x) (objects db); Some (len cs) }"

definition db_count_contents :: "db \<Rightarrow> Objid \<Rightarrow> int option" where
  "db_count_contents db oid =
     do { x \<leftarrow> objects db oid; cs \<leftarrow> ll_members o_next (o_contents x) (objects db); Some (len cs) }"

text \<open>\<open>db_for_all_children\<close> and \<open>db_for_all_contents\<close>: the callback threads its data and stops
  the loop by returning true.\<close>

partial_function (option) for_all_loop ::
  "(obj \<Rightarrow> Objid) \<Rightarrow> ('d \<Rightarrow> Objid \<Rightarrow> bool \<times> 'd) \<Rightarrow> 'd \<Rightarrow> Objid \<Rightarrow> heap \<Rightarrow> (bool \<times> 'd) option" where
  "for_all_loop gn func data c H =
     (if c = NOTHING then Some (False, data)
      else case func data c of
             (stop, data') \<Rightarrow>
               if stop then Some (True, data')
               else do { oc \<leftarrow> H c; for_all_loop gn func data' (gn oc) H })"

declare for_all_loop.simps [code]

definition db_for_all_children ::
  "db \<Rightarrow> Objid \<Rightarrow> ('d \<Rightarrow> Objid \<Rightarrow> bool \<times> 'd) \<Rightarrow> 'd \<Rightarrow> (bool \<times> 'd) option" where
  "db_for_all_children db oid func data =
     do { x \<leftarrow> objects db oid; for_all_loop o_sibling func data (o_child x) (objects db) }"

definition db_for_all_contents ::
  "db \<Rightarrow> Objid \<Rightarrow> ('d \<Rightarrow> Objid \<Rightarrow> bool \<times> 'd) \<Rightarrow> 'd \<Rightarrow> (bool \<times> 'd) option" where
  "db_for_all_contents db oid func data =
     do { x \<leftarrow> objects db oid; for_all_loop o_next func data (o_contents x) (objects db) }"

section \<open>Flags\<close>

definition FLAG_USER :: nat where "FLAG_USER = 0"
definition FLAG_PROGRAMMER :: nat where "FLAG_PROGRAMMER = 1"
definition FLAG_WIZARD :: nat where "FLAG_WIZARD = 2"
definition FLAG_READ :: nat where "FLAG_READ = 4"
definition FLAG_WRITE :: nat where "FLAG_WRITE = 5"
definition FLAG_FERTILE :: nat where "FLAG_FERTILE = 7"

definition flag_mask :: "nat \<Rightarrow> int" where
  "flag_mask f = push_bit f 1"

definition db_object_has_flag :: "db \<Rightarrow> Objid \<Rightarrow> nat \<Rightarrow> bool option" where
  "db_object_has_flag db oid f =
     map_option (\<lambda>x. (o_flags x AND flag_mask f) \<noteq> 0) (objects db oid)"

definition db_set_object_flag :: "db \<Rightarrow> Objid \<Rightarrow> nat \<Rightarrow> db option" where
  "db_set_object_flag db oid f =
     do {
       db1 \<leftarrow> upd_db oid (\<lambda>x. x\<lparr>o_flags := o_flags x OR flag_mask f\<rparr>) db;
       if f = FLAG_USER
       then map_option (\<lambda>us. db1\<lparr>all_users := us\<rparr>) (setadd (all_users db1) (TYPE_OBJ oid))
       else Some db1
     }"

definition db_clear_object_flag :: "db \<Rightarrow> Objid \<Rightarrow> nat \<Rightarrow> db option" where
  "db_clear_object_flag db oid f =
     do {
       db1 \<leftarrow> upd_db oid (\<lambda>x. x\<lparr>o_flags := o_flags x AND NOT (flag_mask f)\<rparr>) db;
       if f = FLAG_USER
       then map_option (\<lambda>us. db1\<lparr>all_users := us\<rparr>) (setremove (all_users db1) (TYPE_OBJ oid))
       else Some db1
     }"

definition is_wizard :: "db \<Rightarrow> Objid \<Rightarrow> bool" where
  "is_wizard db oid \<longleftrightarrow> valid db oid \<and> db_object_has_flag db oid FLAG_WIZARD = Some True"

definition is_programmer :: "db \<Rightarrow> Objid \<Rightarrow> bool" where
  "is_programmer db oid \<longleftrightarrow> valid db oid \<and> db_object_has_flag db oid FLAG_PROGRAMMER = Some True"

definition is_user :: "db \<Rightarrow> Objid \<Rightarrow> bool" where
  "is_user db oid \<longleftrightarrow> valid db oid \<and> db_object_has_flag db oid FLAG_USER = Some True"

definition db_object_allows :: "db \<Rightarrow> Objid \<Rightarrow> Objid \<Rightarrow> nat \<Rightarrow> bool option" where
  "db_object_allows db oid progr f =
     do {
       owner \<leftarrow> db_object_owner db oid;
       flag \<leftarrow> db_object_has_flag db oid f;
       Some (progr = owner \<or> is_wizard db progr \<or> flag)
     }"

definition db_all_users :: "db \<Rightarrow> Var list" where
  "db_all_users db = all_users db"

section \<open>Lemmas\<close>

lemma bit_flag_mask: "bit (flag_mask f) g \<longleftrightarrow> g = f"
  by (auto simp: flag_mask_def bit_exp_iff)

lemma flag_bit: "(x AND flag_mask f) \<noteq> 0 \<longleftrightarrow> bit x f"
  using bit_eq_iff [of "x AND flag_mask f" 0] by (auto simp: bit_and_iff bit_flag_mask)

lemma has_flag_eq: "db_object_has_flag db oid f = map_option (\<lambda>x. bit (o_flags x) f) (objects db oid)"
  by (simp add: db_object_has_flag_def flag_bit)

lemma is_user_eq: "wf_table db \<Longrightarrow> is_user db i \<longleftrightarrow> (\<exists>x. objects db i = Some x \<and> bit (o_flags x) 0)"
  by (auto simp: is_user_def valid_def has_flag_eq wf_table_find FLAG_USER_def)

lemma bit_set_flag: "bit (x OR flag_mask f) g \<longleftrightarrow> g = f \<or> bit x g"
  by (auto simp: bit_or_iff bit_flag_mask)

lemma bit_clear_flag: "bit (x AND NOT (flag_mask f)) g \<longleftrightarrow> g \<noteq> f \<and> bit x g"
  by (auto simp: bit_and_iff bit_not_iff bit_flag_mask)

text \<open>The users, as a duplicate-free list of the objects with the flag.\<close>

definition users_ok :: "db \<Rightarrow> bool" where
  "users_ok db \<longleftrightarrow> distinct (all_users db) \<and> set (all_users db) = TYPE_OBJ ` {i. is_user db i}"

lemma canon_obj [simp]: "canon c x = TYPE_OBJ i \<longleftrightarrow> x = TYPE_OBJ i"
  by (cases x) auto

lemma objs_user_value: "set xs \<subseteq> range TYPE_OBJ \<Longrightarrow> list_all user_value xs"
  by (induction xs) auto

lemma setadd_obj:
  assumes "set xs \<subseteq> range TYPE_OBJ"
  shows "setadd xs (TYPE_OBJ i) = Some (if TYPE_OBJ i \<in> set xs then xs else xs @ [TYPE_OBJ i])"
  using setadd_eq [of "TYPE_OBJ i" xs] objs_user_value [OF assms] by auto

lemma remove1_takeWhile: "takeWhile (\<lambda>x. x \<noteq> a) xs @ tl (dropWhile (\<lambda>x. x \<noteq> a) xs) = remove1 a xs"
  by (induction xs) auto

lemma setremove_obj:
  assumes "set xs \<subseteq> range TYPE_OBJ"
  shows "setremove xs (TYPE_OBJ i) = Some (remove1 (TYPE_OBJ i) xs)"
  using setremove_eq [of "TYPE_OBJ i" xs] objs_user_value [OF assms] by (simp add: remove1_takeWhile)

lemma users_ok_objs: "users_ok db \<Longrightarrow> set (all_users db) \<subseteq> range TYPE_OBJ"
  by (auto simp: users_ok_def)

lemma wf_table_upd:
  assumes "wf_table db" "objects db i = Some x" "o_id y = o_id x"
  shows "wf_table (db\<lparr>objects := (objects db)(i \<mapsto> y)\<rparr>)"
  using assms unfolding wf_table_def by auto

lemma for_all_members:
  assumes "ll_members gn c H = Some cs"
  shows "for_all_loop gn func data c H =
    Some (fold (\<lambda>c (stop, d). if stop then (stop, d) else func d c) cs (False, data))"
proof -
  have stuck: "fold (\<lambda>c (stop, d). if stop then (stop, d) else func d c) cs (True, d) = (True, d)" for cs d
    by (induction cs) auto
  have "\<forall>data. for_all_loop gn func data c H =
    Some (fold (\<lambda>c (stop, d). if stop then (stop, d) else func d c) cs (False, data))"
    using assms
  proof (induction cs arbitrary: c)
    case Nil
    then have "c = NOTHING" by (subst (asm) ll_members.simps) (auto simp: bind_Some_conv split: if_splits)
    then show ?case by (subst for_all_loop.simps) simp
  next
    case (Cons d cs)
    then obtain oc where "c \<noteq> NOTHING" "d = c" "H c = Some oc" "ll_members gn (gn oc) H = Some cs"
      by (subst (asm) ll_members.simps) (auto simp: bind_Some_conv split: if_splits)
    with Cons.IH [of "gn oc"] show ?case
      by (subst for_all_loop.simps) (auto simp: stuck split: prod.splits bool.splits)
  qed
  then show ?thesis by simp
qed

text \<open>Collecting into a list, as \<open>add_to_list\<close> does, gives the members in order.\<close>

lemma for_all_collect:
  assumes "ll_members gn c H = Some cs"
  shows "for_all_loop gn (\<lambda>d c. (False, d @ [h c])) [] c H = Some (False, map h cs)"
proof -
  have "fold (\<lambda>c (stop, d). if stop then (stop, d) else (False, d @ [h c])) cs (False, ds)
      = (False, ds @ map h cs)" for ds
    by (induction cs arbitrary: ds) auto
  then show ?thesis using for_all_members [OF assms, of "\<lambda>d c. (False, d @ [h c])" "[]"] by simp
qed

lemma set_flag_result:
  assumes "wf_table db" "users_ok db" "objects db oid = Some x"
  obtains db' where "db_set_object_flag db oid f = Some db'"
    and "objects db' = (objects db)(oid \<mapsto> x\<lparr>o_flags := o_flags x OR flag_mask f\<rparr>)"
    and "users_ok db'" and "wf_table db'"
proof -
  define y where "y = x\<lparr>o_flags := o_flags x OR flag_mask f\<rparr>"
  define db1 where "db1 = db\<lparr>objects := (objects db)(oid \<mapsto> y)\<rparr>"
  define us where "us = (if f = FLAG_USER \<and> TYPE_OBJ oid \<notin> set (all_users db)
    then all_users db @ [TYPE_OBJ oid] else all_users db)"
  have run: "db_set_object_flag db oid f = Some (db1\<lparr>all_users := us\<rparr>)"
    using assms(3) setadd_obj [OF users_ok_objs [OF assms(2)], of oid]
    by (simp add: db_set_object_flag_def upd_db_def db1_def y_def us_def)
  have wf: "wf_table (db1\<lparr>all_users := us\<rparr>)"
    using wf_table_upd [OF assms(1,3), of y] by (simp add: db1_def y_def wf_table_def)
  have "is_user (db1\<lparr>all_users := us\<rparr>) i \<longleftrightarrow> is_user db i \<or> (i = oid \<and> f = 0)" for i
    using assms(3) bit_set_flag [of "o_flags x" f 0]
    unfolding is_user_eq [OF wf] is_user_eq [OF assms(1)] by (auto simp: db1_def y_def)
  then have "users_ok (db1\<lparr>all_users := us\<rparr>)"
    using assms(2) by (auto simp: users_ok_def us_def FLAG_USER_def)
  then show ?thesis using that [OF run] wf by (simp add: db1_def y_def)
qed

lemma clear_flag_result:
  assumes "wf_table db" "users_ok db" "objects db oid = Some x"
  obtains db' where "db_clear_object_flag db oid f = Some db'"
    and "objects db' = (objects db)(oid \<mapsto> x\<lparr>o_flags := o_flags x AND NOT (flag_mask f)\<rparr>)"
    and "users_ok db'" and "wf_table db'"
proof -
  define y where "y = x\<lparr>o_flags := o_flags x AND NOT (flag_mask f)\<rparr>"
  define db1 where "db1 = db\<lparr>objects := (objects db)(oid \<mapsto> y)\<rparr>"
  define us where "us = (if f = FLAG_USER then remove1 (TYPE_OBJ oid) (all_users db) else all_users db)"
  have run: "db_clear_object_flag db oid f = Some (db1\<lparr>all_users := us\<rparr>)"
    using assms(3) setremove_obj [OF users_ok_objs [OF assms(2)], of oid]
    by (simp add: db_clear_object_flag_def upd_db_def db1_def y_def us_def)
  have wf: "wf_table (db1\<lparr>all_users := us\<rparr>)"
    using wf_table_upd [OF assms(1,3), of y] by (simp add: db1_def y_def wf_table_def)
  have "is_user (db1\<lparr>all_users := us\<rparr>) i \<longleftrightarrow> is_user db i \<and> \<not> (i = oid \<and> f = 0)" for i
    using assms(3) bit_clear_flag [of "o_flags x" f 0]
    unfolding is_user_eq [OF wf] is_user_eq [OF assms(1)] by (auto simp: db1_def y_def)
  then have "users_ok (db1\<lparr>all_users := us\<rparr>)"
    using assms(2) by (auto simp: users_ok_def us_def FLAG_USER_def)
  then show ?thesis using that [OF run] wf by (simp add: db1_def y_def)
qed

end
