(* ===== verification/Properties.thy ===== *)
theory Properties
  imports Attributes
begin

text \<open>
  Properties (\<^verbatim>\<open>db_properties.c\<close>). An object holds the definitions of the properties added to
  it, \<^verbatim>\<open>propdefs\<close>, and one value slot for every property defined on it or on an ancestor,
  \<^verbatim>\<open>propval\<close>: first its own, then those of its parent, and so on up. A slot holding
  \<open>TYPE_CLEAR\<close> stands for the value of the parent's slot. Adding, deleting and changing parents
  therefore rewrite the slots of every descendant; these recursions are \<open>visit_tree\<close> with the
  local step as argument, and the step returns what the code passes on to the children.

  An access outside a \<^verbatim>\<open>propval\<close> array is undefined behaviour in C, and \<open>None\<close> here. Slot
  numbers are naturals. The pointer \<^verbatim>\<open>ptr\<close> of a handle is the object and the slot.
\<close>

section \<open>Definitions\<close>

definition PF_READ :: int where "PF_READ = 1"
definition PF_WRITE :: int where "PF_WRITE = 2"
definition PF_CHOWN :: int where "PF_CHOWN = 4"

datatype bi_prop =
  BP_NONE | BP_NAME | BP_OWNER | BP_PROGRAMMER | BP_WIZARD | BP_R | BP_W | BP_F | BP_LOCATION
  | BP_CONTENTS

text \<open>What \<^verbatim>\<open>ptr\<close> of a handle points to: nothing, the object number of a built-in property, or
  a value slot.\<close>

datatype prop_ptr = Null_prop | Object_prop Objid | Slot_prop Objid nat

record db_prop_handle =
  built_in :: bi_prop
  definer :: Objid
  ptr :: prop_ptr

definition dbpriv_new_propdef :: "string \<Rightarrow> propdef" where
  "dbpriv_new_propdef name = \<lparr>pd_name = name, pd_hash = str_hash name\<rparr>"

partial_function (option) count_loop :: "db \<Rightarrow> Objid \<Rightarrow> nat \<Rightarrow> nat option" where
  "count_loop db oid nprops =
     (case dbpriv_find_object db oid of
        None \<Rightarrow> Some nprops
      | Some x \<Rightarrow> count_loop db (o_parent x) (nprops + cur_length (o_propdefs x)))"

declare count_loop.simps [code]

definition dbpriv_count_properties :: "db \<Rightarrow> Objid \<Rightarrow> nat option" where
  "dbpriv_count_properties db oid = count_loop db oid 0"

text \<open>The scan of one \<^verbatim>\<open>propdefs\<close> array: the index of the first definition with the name.\<close>

definition same_name :: "string \<Rightarrow> 32 word \<Rightarrow> propdef \<Rightarrow> bool" where
  "same_name name hash p \<longleftrightarrow> pd_hash p = hash \<and> mystrcasecmp (pd_name p) name = 0"

fun find_def :: "string \<Rightarrow> 32 word \<Rightarrow> propdef list \<Rightarrow> nat \<Rightarrow> nat option" where
  "find_def name hash [] i = None"
| "find_def name hash (p # ps) i =
     (if same_name name hash p then Some i else find_def name hash ps (Suc i))"

partial_function (option) defined_below_loop :: "db \<Rightarrow> string \<Rightarrow> 32 word \<Rightarrow> Objid \<Rightarrow> bool option" where
  "defined_below_loop db pname phash c =
     (if c = NOTHING then Some False
      else do {
        oc \<leftarrow> dbpriv_find_object db c;
        if find_def pname phash (pl (o_propdefs oc)) 0 \<noteq> None then Some True
        else do {
          b \<leftarrow> defined_below_loop db pname phash (o_child oc);
          if b then Some True else defined_below_loop db pname phash (o_sibling oc)
        }
      })"

declare defined_below_loop.simps [code]

definition property_defined_at_or_below :: "db \<Rightarrow> string \<Rightarrow> 32 word \<Rightarrow> Objid \<Rightarrow> bool option" where
  "property_defined_at_or_below db pname phash oid =
     do {
       x \<leftarrow> dbpriv_find_object db oid;
       if find_def pname phash (pl (o_propdefs x)) 0 \<noteq> None then Some True
       else defined_below_loop db pname phash (o_child x)
     }"

section \<open>Looking up a property\<close>

definition ptable :: "(string \<times> bi_prop) list" where
  "ptable =
     [(''name'', BP_NAME), (''owner'', BP_OWNER), (''programmer'', BP_PROGRAMMER),
      (''wizard'', BP_WIZARD), (''r'', BP_R), (''w'', BP_W), (''f'', BP_F),
      (''location'', BP_LOCATION), (''contents'', BP_CONTENTS)]"

definition get_bi_value :: "db \<Rightarrow> bi_prop \<Rightarrow> Objid \<Rightarrow> Var option" where
  "get_bi_value db b oid =
     (case b of
        BP_NAME \<Rightarrow> map_option TYPE_STR (db_object_name db oid)
      | BP_OWNER \<Rightarrow> map_option TYPE_OBJ (db_object_owner db oid)
      | BP_PROGRAMMER \<Rightarrow> map_option (TYPE_INT \<circ> of_bool) (db_object_has_flag db oid FLAG_PROGRAMMER)
      | BP_WIZARD \<Rightarrow> map_option (TYPE_INT \<circ> of_bool) (db_object_has_flag db oid FLAG_WIZARD)
      | BP_R \<Rightarrow> map_option (TYPE_INT \<circ> of_bool) (db_object_has_flag db oid FLAG_READ)
      | BP_W \<Rightarrow> map_option (TYPE_INT \<circ> of_bool) (db_object_has_flag db oid FLAG_WRITE)
      | BP_F \<Rightarrow> map_option (TYPE_INT \<circ> of_bool) (db_object_has_flag db oid FLAG_FERTILE)
      | BP_LOCATION \<Rightarrow> map_option TYPE_OBJ (db_object_location db oid)
      | BP_CONTENTS \<Rightarrow>
          map_option (\<lambda>(_, r). TYPE_LIST r)
            (db_for_all_contents db oid (\<lambda>r c. (False, r @ [TYPE_OBJ c])) [])
      | BP_NONE \<Rightarrow> None)"

text \<open>The search up the ancestors: the definer and the number of the slot.\<close>

partial_function (option) find_prop_loop ::
  "db \<Rightarrow> Objid \<Rightarrow> string \<Rightarrow> 32 word \<Rightarrow> nat \<Rightarrow> (Objid \<times> nat) option option" where
  "find_prop_loop db oid name hash n =
     (case dbpriv_find_object db oid of
        None \<Rightarrow> Some None
      | Some x \<Rightarrow>
          (case find_def name hash (pl (o_propdefs x)) n of
             Some k \<Rightarrow> Some (Some (o_id x, k))
           | None \<Rightarrow> find_prop_loop db (o_parent x) name hash (n + cur_length (o_propdefs x))))"

declare find_prop_loop.simps [code]

text \<open>The loop \<^verbatim>\<open>while (prop->var.type == TYPE_CLEAR)\<close>.\<close>

partial_function (option) clear_loop :: "db \<Rightarrow> obj \<Rightarrow> nat \<Rightarrow> Var option" where
  "clear_loop db x n =
     (if n < length (o_propval x)
      then if p_var (o_propval x ! n) = TYPE_CLEAR
           then if n < cur_length (o_propdefs x) then None
                else do {
                  x' \<leftarrow> dbpriv_find_object db (o_parent x);
                  clear_loop db x' (n - cur_length (o_propdefs x))
                }
           else Some (p_var (o_propval x ! n))
      else None)"

declare clear_loop.simps [code]

text \<open>\<open>db_find_property\<close>: the handle and, when the caller asks for it, the value.\<close>

definition db_find_property :: "db \<Rightarrow> Objid \<Rightarrow> string \<Rightarrow> bool \<Rightarrow> (db_prop_handle \<times> Var option) option" where
  "db_find_property db oid name want =
     (case find (\<lambda>(n, _). str_hash n = str_hash name \<and> mystrcasecmp name n = 0) ptable of
        Some (_, b) \<Rightarrow>
          do {
            v \<leftarrow> (if want then map_option Some (get_bi_value db b oid) else Some None);
            Some (\<lparr>built_in = b, definer = NOTHING, ptr = Object_prop oid\<rparr>, v)
          }
      | None \<Rightarrow>
          do {
            r \<leftarrow> find_prop_loop db oid name (str_hash name) 0;
            (case r of
               None \<Rightarrow> Some (\<lparr>built_in = BP_NONE, definer = NOTHING, ptr = Null_prop\<rparr>, None)
             | Some (d, n) \<Rightarrow>
                 do {
                   x \<leftarrow> dbpriv_find_object db oid;
                   v \<leftarrow> (if want then map_option Some (clear_loop db x n) else Some None);
                   Some (\<lparr>built_in = BP_NONE, definer = d, ptr = Slot_prop oid n\<rparr>, v)
                 })
          })"

section \<open>Adding a property\<close>

definition insert_prop :: "db \<Rightarrow> Objid \<Rightarrow> nat \<Rightarrow> pval \<Rightarrow> db option" where
  "insert_prop db oid pos pval =
     do {
       nprops \<leftarrow> dbpriv_count_properties db oid;
       x \<leftarrow> dbpriv_find_object db oid;
       if pos < nprops \<and> nprops \<le> Suc (length (o_propval x))
       then upd_db oid
              (\<lambda>x. x\<lparr>o_waif_propdefs := None,
                     o_propval :=
                       take pos (o_propval x)
                       @ (if p_perms pval AND PF_CHOWN \<noteq> 0 then pval\<lparr>p_owner := o_owner x\<rparr> else pval)
                       # take (nprops - Suc pos) (drop pos (o_propval x))\<rparr>) db
       else None
     }"

text \<open>One object of \<open>insert_prop_recursively\<close>; what its children get is the slot number and
  the value made clear. The recursive call adds the child's own definitions to the number.\<close>

definition insert_prop_visit :: "Objid \<Rightarrow> nat \<times> pval \<Rightarrow> db \<Rightarrow> ((nat \<times> pval) \<times> db) option" where
  "insert_prop_visit c = (\<lambda>(root_pos, pv) db.
     do {
       x \<leftarrow> dbpriv_find_object db c;
       let new_prop_count = cur_length (o_propdefs x);
       db1 \<leftarrow> insert_prop db c (new_prop_count + root_pos) pv;
       Some ((new_prop_count + root_pos, pv\<lparr>p_var := TYPE_CLEAR\<rparr>), db1)
     })"

definition insert_prop_recursively :: "db \<Rightarrow> Objid \<Rightarrow> nat \<Rightarrow> pval \<Rightarrow> db option" where
  "insert_prop_recursively db root root_pos pv =
     do {
       db1 \<leftarrow> insert_prop db root root_pos pv;
       r \<leftarrow> dbpriv_find_object db1 root;
       walk insert_prop_visit (root_pos, pv\<lparr>p_var := TYPE_CLEAR\<rparr>) (o_child r) db1
     }"

text \<open>The growing of the array in \<open>db_add_propdef\<close>.\<close>

definition add_def :: "propdef \<Rightarrow> proplist \<Rightarrow> proplist" where
  "add_def p ps =
     (if int (cur_length ps) = max_length ps
      then \<lparr>max_length = (if max_length ps = 0 then 8 else 2 * max_length ps), pl = pl ps @ [p]\<rparr>
      else \<lparr>max_length = max_length ps, pl = pl ps @ [p]\<rparr>)"

definition db_add_propdef :: "db \<Rightarrow> Objid \<Rightarrow> string \<Rightarrow> Var \<Rightarrow> Objid \<Rightarrow> int \<Rightarrow> (bool \<times> db) option" where
  "db_add_propdef db oid pname value owner flags =
     do {
       (h, _) \<leftarrow> db_find_property db oid pname False;
       below \<leftarrow> (if ptr h \<noteq> Null_prop then Some True
                else property_defined_at_or_below db pname (str_hash pname) oid);
       if below then Some (False, db)
       else do {
         db1 \<leftarrow> upd_db oid (\<lambda>x. x\<lparr>o_propdefs := add_def (dbpriv_new_propdef pname) (o_propdefs x)\<rparr>) db;
         x \<leftarrow> dbpriv_find_object db1 oid;
         db2 \<leftarrow> insert_prop_recursively db1 oid (cur_length (o_propdefs x) - 1)
                 \<lparr>p_var = value, p_owner = owner, p_perms = flags\<rparr>;
         Some (True, db2)
       }
     }"

section \<open>Renaming a property\<close>

abbreviation waif_prop :: "string \<Rightarrow> bool" where
  "waif_prop s \<equiv> hd0 s = CHR '':''"

fun find_index_of :: "string \<Rightarrow> propdef list \<Rightarrow> nat option" where
  "find_index_of old [] = None"
| "find_index_of old (p # ps) =
     (if pd_name p = old then Some 0 else map_option Suc (find_index_of old ps))"

text \<open>\<open>waif_rename_propdef\<close> of \<^verbatim>\<open>waif.c\<close>. The entry is found by comparing string pointers, here by
  comparing the strings: the cached definitions share the string objects of \<^verbatim>\<open>propdefs\<close>, and
  \<open>waif_defs_ok\<close> below shows that at most one has the name.\<close>

definition waif_rename_propdef :: "string \<Rightarrow> string \<Rightarrow> obj \<Rightarrow> obj option" where
  "waif_rename_propdef old new x =
     (case o_waif_propdefs x of
        None \<Rightarrow> None
      | Some wpd \<Rightarrow>
          if waif_prop old \<and> waif_prop new
          then (case find_index_of old wpd of
                  None \<Rightarrow> None
                | Some i \<Rightarrow> Some (x\<lparr>o_waif_propdefs := Some (wpd[i := dbpriv_new_propdef new])\<rparr>))
          else Some (x\<lparr>o_waif_propdefs := None\<rparr>))"

definition rename_visit :: "string \<Rightarrow> string \<Rightarrow> Objid \<Rightarrow> unit \<Rightarrow> db \<Rightarrow> (unit \<times> db) option" where
  "rename_visit old new c a db =
     do {
       x \<leftarrow> dbpriv_find_object db c;
       db1 \<leftarrow> (if o_waif_propdefs x \<noteq> None
              then do { x' \<leftarrow> waif_rename_propdef old new x; upd_db c (\<lambda>_. x') db }
              else Some db);
       Some ((), db1)
     }"

definition rename_prop_recursively :: "db \<Rightarrow> Objid \<Rightarrow> string \<Rightarrow> string \<Rightarrow> db option" where
  "rename_prop_recursively db root old new = visit_tree (rename_visit old new) () root db"

definition db_rename_propdef :: "db \<Rightarrow> Objid \<Rightarrow> string \<Rightarrow> string \<Rightarrow> (bool \<times> db) option" where
  "db_rename_propdef db oid old new =
     do {
       x \<leftarrow> dbpriv_find_object db oid;
       (case find_def old (str_hash old) (pl (o_propdefs x)) 0 of
          None \<Rightarrow> Some (False, db)
        | Some i \<Rightarrow>
            do {
              clash \<leftarrow> (if mystrcasecmp old new \<noteq> 0
                       then do {
                         (h, _) \<leftarrow> db_find_property db oid new False;
                         if ptr h \<noteq> Null_prop then Some True
                         else property_defined_at_or_below db new (str_hash new) oid
                       }
                       else Some False);
              if clash then Some (False, db)
              else do {
                db1 \<leftarrow> rename_prop_recursively db oid (pd_name (pl (o_propdefs x) ! i)) new;
                db2 \<leftarrow> upd_db oid (\<lambda>x. x\<lparr>o_propdefs := (o_propdefs x)\<lparr>pl :=
                         (pl (o_propdefs x))[i := dbpriv_new_propdef new]\<rparr>\<rparr>) db1;
                Some (True, db2)
              }
            })
     }"

section \<open>Deleting a property\<close>

definition remove_prop :: "db \<Rightarrow> Objid \<Rightarrow> nat \<Rightarrow> db option" where
  "remove_prop db oid pos =
     do {
       x \<leftarrow> dbpriv_find_object db oid;
       nprops \<leftarrow> dbpriv_count_properties db oid;
       if pos < length (o_propval x) \<and> pos \<le> nprops \<and> nprops < length (o_propval x)
       then upd_db oid
              (\<lambda>x. x\<lparr>o_waif_propdefs := None,
                     o_propval := take pos (o_propval x) @ take (nprops - pos) (drop (Suc pos) (o_propval x))\<rparr>) db
       else None
     }"

definition remove_prop_visit :: "Objid \<Rightarrow> nat \<Rightarrow> db \<Rightarrow> (nat \<times> db) option" where
  "remove_prop_visit c root_pos db =
     do {
       x \<leftarrow> dbpriv_find_object db c;
       let new_prop_count = cur_length (o_propdefs x);
       db1 \<leftarrow> remove_prop db c (new_prop_count + root_pos);
       Some (new_prop_count + root_pos, db1)
     }"

definition remove_prop_recursively :: "db \<Rightarrow> Objid \<Rightarrow> nat \<Rightarrow> db option" where
  "remove_prop_recursively db root root_pos =
     do {
       db1 \<leftarrow> remove_prop db root root_pos;
       r \<leftarrow> dbpriv_find_object db1 root;
       walk remove_prop_visit root_pos (o_child r) db1
     }"

definition remove_def :: "nat \<Rightarrow> proplist \<Rightarrow> proplist" where
  "remove_def i ps =
     \<lparr>max_length = (if max_length ps > 8 \<and> int (cur_length ps) \<le> (max_length ps * 3) div 8
                    then max_length ps div 2 else max_length ps),
      pl = take i (pl ps) @ drop (Suc i) (pl ps)\<rparr>"

definition db_delete_propdef :: "db \<Rightarrow> Objid \<Rightarrow> string \<Rightarrow> (bool \<times> db) option" where
  "db_delete_propdef db oid pname =
     do {
       x \<leftarrow> dbpriv_find_object db oid;
       (case find_def pname (str_hash pname) (pl (o_propdefs x)) 0 of
          None \<Rightarrow> Some (False, db)
        | Some i \<Rightarrow>
            do {
              db1 \<leftarrow> upd_db oid (\<lambda>x. x\<lparr>o_propdefs := remove_def i (o_propdefs x)\<rparr>) db;
              db2 \<leftarrow> remove_prop_recursively db1 oid i;
              Some (True, db2)
            })
     }"

definition db_count_propdefs :: "db \<Rightarrow> Objid \<Rightarrow> nat option" where
  "db_count_propdefs db oid = map_option (\<lambda>x. cur_length (o_propdefs x)) (dbpriv_find_object db oid)"

text \<open>\<open>db_for_all_propdefs\<close>: the callback sees the names in order until it returns true.\<close>

fun for_all_names :: "('d \<Rightarrow> string \<Rightarrow> bool \<times> 'd) \<Rightarrow> 'd \<Rightarrow> propdef list \<Rightarrow> bool \<times> 'd" where
  "for_all_names func data [] = (False, data)"
| "for_all_names func data (p # ps) =
     (case func data (pd_name p) of
        (True, data') \<Rightarrow> (True, data')
      | (False, data') \<Rightarrow> for_all_names func data' ps)"

definition db_for_all_propdefs ::
  "db \<Rightarrow> Objid \<Rightarrow> ('d \<Rightarrow> string \<Rightarrow> bool \<times> 'd) \<Rightarrow> 'd \<Rightarrow> (bool \<times> 'd) option" where
  "db_for_all_propdefs db oid func data =
     map_option (\<lambda>x. for_all_names func data (pl (o_propdefs x))) (dbpriv_find_object db oid)"

section \<open>Reading and writing through a handle\<close>

definition slot :: "db \<Rightarrow> db_prop_handle \<Rightarrow> pval option" where
  "slot db h =
     (case ptr h of
        Slot_prop oid n \<Rightarrow>
          do { x \<leftarrow> objects db oid; if n < length (o_propval x) then Some (o_propval x ! n) else None }
      | _ \<Rightarrow> None)"

definition set_slot :: "(pval \<Rightarrow> pval) \<Rightarrow> db \<Rightarrow> db_prop_handle \<Rightarrow> db option" where
  "set_slot f db h =
     (case ptr h of
        Slot_prop oid n \<Rightarrow>
          do {
            x \<leftarrow> objects db oid;
            if n < length (o_propval x)
            then upd_db oid (\<lambda>x. x\<lparr>o_propval := (o_propval x)[n := f (o_propval x ! n)]\<rparr>) db
            else None
          }
      | _ \<Rightarrow> None)"

definition db_property_value :: "db \<Rightarrow> db_prop_handle \<Rightarrow> Var option" where
  "db_property_value db h =
     (if built_in h \<noteq> BP_NONE
      then (case ptr h of Object_prop oid \<Rightarrow> get_bi_value db (built_in h) oid | _ \<Rightarrow> None)
      else map_option p_var (slot db h))"

definition set_bi_flag :: "db \<Rightarrow> Objid \<Rightarrow> nat \<Rightarrow> Var \<Rightarrow> db option" where
  "set_bi_flag db oid flag value =
     (if is_true value then db_set_object_flag db oid flag else db_clear_object_flag db oid flag)"

definition db_set_property_value :: "db \<Rightarrow> db_prop_handle \<Rightarrow> Var \<Rightarrow> db option" where
  "db_set_property_value db h value =
     (if built_in h = BP_NONE then set_slot (\<lambda>p. p\<lparr>p_var := value\<rparr>) db h
      else case ptr h of
             Object_prop oid \<Rightarrow>
               (case built_in h of
                  BP_NAME \<Rightarrow> (case value of TYPE_STR s \<Rightarrow> db_set_object_name db oid s | _ \<Rightarrow> None)
                | BP_OWNER \<Rightarrow> (case value of TYPE_OBJ ow \<Rightarrow> db_set_object_owner db oid ow | _ \<Rightarrow> None)
                | BP_PROGRAMMER \<Rightarrow> set_bi_flag db oid FLAG_PROGRAMMER value
                | BP_WIZARD \<Rightarrow> set_bi_flag db oid FLAG_WIZARD value
                | BP_R \<Rightarrow> set_bi_flag db oid FLAG_READ value
                | BP_W \<Rightarrow> set_bi_flag db oid FLAG_WRITE value
                | BP_F \<Rightarrow> set_bi_flag db oid FLAG_FERTILE value
                | _ \<Rightarrow> None)
           | _ \<Rightarrow> None)"

definition db_property_owner :: "db \<Rightarrow> db_prop_handle \<Rightarrow> Objid option" where
  "db_property_owner db h = (if built_in h \<noteq> BP_NONE then None else map_option p_owner (slot db h))"

definition db_set_property_owner :: "db \<Rightarrow> db_prop_handle \<Rightarrow> Objid \<Rightarrow> db option" where
  "db_set_property_owner db h oid =
     (if built_in h \<noteq> BP_NONE then None else set_slot (\<lambda>p. p\<lparr>p_owner := oid\<rparr>) db h)"

definition db_property_flags :: "db \<Rightarrow> db_prop_handle \<Rightarrow> int option" where
  "db_property_flags db h = (if built_in h \<noteq> BP_NONE then None else map_option p_perms (slot db h))"

definition db_set_property_flags :: "db \<Rightarrow> db_prop_handle \<Rightarrow> int \<Rightarrow> db option" where
  "db_set_property_flags db h flags =
     (if built_in h \<noteq> BP_NONE then None else set_slot (\<lambda>p. p\<lparr>p_perms := flags\<rparr>) db h)"

definition db_property_allows :: "db \<Rightarrow> db_prop_handle \<Rightarrow> Objid \<Rightarrow> int \<Rightarrow> bool option" where
  "db_property_allows db h progr flag =
     do {
       flags \<leftarrow> db_property_flags db h;
       owner \<leftarrow> db_property_owner db h;
       Some (flags AND flag \<noteq> 0 \<or> progr = owner \<or> is_wizard db progr)
     }"

section \<open>Changing parents\<close>

text \<open>One object of \<open>fix_props\<close>: \<open>local\<close> slots stay, \<open>old\<close> ones are dropped, \<open>new\<close> ones are
  taken over from the parent as clear, \<open>common\<close> ones stay.\<close>

definition inherit :: "obj \<Rightarrow> pval \<Rightarrow> pval" where
  "inherit me pv =
     (if p_perms pv AND PF_CHOWN \<noteq> 0 then pv\<lparr>p_var := TYPE_CLEAR, p_owner := o_owner me\<rparr>
      else pv\<lparr>p_var := TYPE_CLEAR\<rparr>)"

definition fix_props_visit :: "nat \<Rightarrow> nat \<Rightarrow> nat \<Rightarrow> Objid \<Rightarrow> nat \<Rightarrow> db \<Rightarrow> (nat \<times> db) option" where
  "fix_props_visit old new common oid parent_local db =
     do {
       me \<leftarrow> dbpriv_find_object db oid;
       let local = parent_local + cur_length (o_propdefs me);
       inherited \<leftarrow>
         (if new = 0 then Some []
          else do {
            parent \<leftarrow> dbpriv_find_object db (o_parent me);
            if parent_local + new \<le> length (o_propval parent)
            then Some (map (inherit me) (take new (drop parent_local (o_propval parent))))
            else None
          });
       if local + old + common \<le> length (o_propval me)
       then do {
         db1 \<leftarrow> upd_db oid
                 (\<lambda>x. x\<lparr>o_waif_propdefs := None,
                        o_propval := take local (o_propval x) @ inherited
                                     @ take common (drop (local + old) (o_propval x))\<rparr>) db;
         Some (local, db1)
       }
       else None
     }"

definition fix_props :: "db \<Rightarrow> Objid \<Rightarrow> nat \<Rightarrow> nat \<Rightarrow> nat \<Rightarrow> nat \<Rightarrow> db option" where
  "fix_props db oid parent_local old new common =
     visit_tree (fix_props_visit old new common) parent_local oid db"

text \<open>\<open>dbpriv_check_properties_for_chparent\<close>: no property that the new parent has may be defined
  on the object or below it.\<close>

fun none_defined :: "db \<Rightarrow> Objid \<Rightarrow> propdef list \<Rightarrow> bool option" where
  "none_defined db oid [] = Some True"
| "none_defined db oid (p # ps) =
     do {
       b \<leftarrow> property_defined_at_or_below db (pd_name p) (pd_hash p) oid;
       if b then Some False else none_defined db oid ps
     }"

partial_function (option) check_chparent_loop :: "db \<Rightarrow> Objid \<Rightarrow> Objid \<Rightarrow> bool option" where
  "check_chparent_loop db oid p =
     (case dbpriv_find_object db p of
        None \<Rightarrow> Some True
      | Some x \<Rightarrow>
          do {
            ok \<leftarrow> none_defined db oid (pl (o_propdefs x));
            if ok then check_chparent_loop db oid (o_parent x) else Some False
          })"

declare check_chparent_loop.simps [code]

definition dbpriv_check_properties_for_chparent :: "db \<Rightarrow> Objid \<Rightarrow> Objid \<Rightarrow> bool option" where
  "dbpriv_check_properties_for_chparent db oid new_parent = check_chparent_loop db oid new_parent"

text \<open>The search for the nearest common ancestor.\<close>

partial_function (option) on_chain :: "db \<Rightarrow> Objid \<Rightarrow> Objid \<Rightarrow> bool option" where
  "on_chain db o1 o2 =
     (if o2 = NOTHING then Some False
      else if o1 = o2 then Some True
      else do { p \<leftarrow> db_object_parent db o2; on_chain db o1 p })"

declare on_chain.simps [code]

partial_function (option) common_loop :: "db \<Rightarrow> Objid \<Rightarrow> Objid \<Rightarrow> Objid option" where
  "common_loop db o1 old_parent =
     (if o1 = NOTHING then Some NOTHING
      else do {
        b \<leftarrow> on_chain db o1 old_parent;
        if b then Some o1
        else do { p \<leftarrow> db_object_parent db o1; common_loop db p old_parent }
      })"

declare common_loop.simps [code]

definition dbpriv_fix_properties_after_chparent :: "db \<Rightarrow> Objid \<Rightarrow> Objid \<Rightarrow> db option" where
  "dbpriv_fix_properties_after_chparent db oid old_parent =
     do {
       new_parent \<leftarrow> db_object_parent db oid;
       common \<leftarrow> common_loop db new_parent old_parent;
       common_props \<leftarrow> (if common \<noteq> NOTHING then dbpriv_count_properties db common else Some 0);
       n_old \<leftarrow> dbpriv_count_properties db old_parent;
       n_new \<leftarrow> dbpriv_count_properties db new_parent;
       fix_props db oid 0 (n_old - common_props) (n_new - common_props) common_props
     }"

end
