(* ===== verification/Objects.thy ===== *)
theory Objects
  imports Properties
begin

text \<open>
  Objects as a whole (\<^verbatim>\<open>db_objects.c\<close>): creating, destroying and renumbering them, moving them in
  the hierarchy of parents and in the hierarchy of locations.

  A freshly allocated object has whatever owner its memory holds; the model takes that number
  as the argument \<open>junk\<close>.
\<close>

section \<open>The table\<close>

definition ensure_new_object :: "db \<Rightarrow> db" where
  "ensure_new_object db =
     (let m = (if max_objects db = 0 then 100 else max_objects db)
      in db\<lparr>max_objects := (if num_objects db \<ge> m then m * 2 else m)\<rparr>)"

definition dbpriv_new_object :: "obj \<Rightarrow> db \<Rightarrow> Objid \<times> db" where
  "dbpriv_new_object mem db =
     (let db1 = ensure_new_object db; n = num_objects db1
      in (n, db1\<lparr>objects := (objects db1)(n \<mapsto> mem\<lparr>o_id := n, o_waif_propdefs := None\<rparr>),
                num_objects := n + 1\<rparr>))"

definition dbpriv_new_recycled_object :: "db \<Rightarrow> db" where
  "dbpriv_new_recycled_object db =
     (let db1 = ensure_new_object db; n = num_objects db1
      in db1\<lparr>objects := (objects db1)(n := None), num_objects := n + 1\<rparr>)"

text \<open>All fields but the owner are assigned, so only the owner of the memory \<open>mem\<close> survives.\<close>

definition db_create_object :: "obj \<Rightarrow> db \<Rightarrow> (Objid \<times> db) option" where
  "db_create_object mem db =
     (let (oid, db1) = dbpriv_new_object mem db
      in map_option (Pair oid)
           (upd_db oid
              (\<lambda>x. x\<lparr>o_name := '''', o_flags := 0, o_parent := NOTHING, o_child := NOTHING,
                     o_sibling := NOTHING, o_location := NOTHING, o_contents := NOTHING,
                     o_next := NOTHING, o_propval := [], o_propdefs := \<lparr>max_length = 0, pl = []\<rparr>,
                     o_verbdefs := []\<rparr>) db1))"

partial_function (option) db_reset_last_used_objid :: "db \<Rightarrow> db option" where
  "db_reset_last_used_objid db =
     (if num_objects db \<le> 0 then None
      else if objects db (num_objects db - 1) = None
      then db_reset_last_used_objid (db\<lparr>num_objects := num_objects db - 1\<rparr>)
      else Some db)"

declare db_reset_last_used_objid.simps [code]

definition db_destroy_object :: "db \<Rightarrow> Objid \<Rightarrow> db option" where
  "db_destroy_object db oid =
     (let db1 = db_priv_affected_callable_verb_lookup db
      in case dbpriv_find_object db oid of
           None \<Rightarrow> None
         | Some x \<Rightarrow>
             if o_location x \<noteq> NOTHING \<or> o_contents x \<noteq> NOTHING \<or> o_parent x \<noteq> NOTHING
                \<or> o_child x \<noteq> NOTHING
             then None
             else do {
               users \<leftarrow> (if is_user db1 oid then setremove (all_users db1) (TYPE_OBJ oid)
                        else Some (all_users db1));
               Some (db1\<lparr>all_users := users, objects := (objects db1)(oid := None)\<rparr>)
             })"

section \<open>Moving objects\<close>

definition db_change_parent :: "db \<Rightarrow> Objid \<Rightarrow> Objid \<Rightarrow> (bool \<times> db) option" where
  "db_change_parent db oid parent =
     do {
       ok \<leftarrow> dbpriv_check_properties_for_chparent db oid parent;
       if \<not> ok then Some (False, db)
       else do {
         x \<leftarrow> objects db oid;
         let db1 = (if o_child x = NOTHING \<and> o_verbdefs x = [] then db
                    else db_priv_affected_callable_verb_lookup db);
         let old_parent = o_parent x;
         H1 \<leftarrow> (if old_parent \<noteq> NOTHING
               then LL_REMOVE o_child (\<lambda>v. o_child_update (\<lambda>_. v)) o_sibling (\<lambda>v. o_sibling_update (\<lambda>_. v))
                      old_parent oid (objects db1)
               else Some (objects db1));
         H2 \<leftarrow> (if parent \<noteq> NOTHING
               then LL_APPEND o_child (\<lambda>v. o_child_update (\<lambda>_. v)) o_sibling (\<lambda>v. o_sibling_update (\<lambda>_. v))
                      parent oid H1
               else Some H1);
         H3 \<leftarrow> upd oid (\<lambda>x. x\<lparr>o_parent := parent\<rparr>) H2;
         db4 \<leftarrow> dbpriv_fix_properties_after_chparent (db1\<lparr>objects := H3\<rparr>) oid old_parent;
         Some (True, db4)
       }
     }"

definition db_change_location :: "db \<Rightarrow> Objid \<Rightarrow> Objid \<Rightarrow> db option" where
  "db_change_location db oid location =
     do {
       x \<leftarrow> objects db oid;
       let old_location = o_location x;
       H1 \<leftarrow> (if valid db old_location
             then LL_REMOVE o_contents (\<lambda>v. o_contents_update (\<lambda>_. v)) o_next (\<lambda>v. o_next_update (\<lambda>_. v))
                    old_location oid (objects db)
             else Some (objects db));
       H2 \<leftarrow> (if valid db location
             then LL_APPEND o_contents (\<lambda>v. o_contents_update (\<lambda>_. v)) o_next (\<lambda>v. o_next_update (\<lambda>_. v))
                    location oid H1
             else Some H1);
       H3 \<leftarrow> upd oid (\<lambda>x. x\<lparr>o_location := location\<rparr>) H2;
       Some (db\<lparr>objects := H3\<rparr>)
     }"

section \<open>Renumbering\<close>

text \<open>The loops over \<^verbatim>\<open>oidp\<close>: the pointer in the list of \<open>where\<close> that holds \<open>old\<close> is set to
  \<open>new\<close>; reaching the end of the list is a panic.\<close>

partial_function (option) ll_redirect ::
  "(obj \<Rightarrow> Objid) \<Rightarrow> (Objid \<Rightarrow> obj \<Rightarrow> obj) \<Rightarrow> Objid \<Rightarrow> Objid \<Rightarrow> Objid \<Rightarrow> heap \<Rightarrow> heap option" where
  "ll_redirect gn sn old new lid H =
     (case H lid of
        None \<Rightarrow> None
      | Some x \<Rightarrow>
          if gn x = old then Some (H(lid \<mapsto> sn new x))
          else if gn x = NOTHING then None
          else ll_redirect gn sn old new (gn x) H)"

declare ll_redirect.simps [code]

definition ll_rename ::
  "(obj \<Rightarrow> Objid) \<Rightarrow> (Objid \<Rightarrow> obj \<Rightarrow> obj) \<Rightarrow> (obj \<Rightarrow> Objid) \<Rightarrow> (Objid \<Rightarrow> obj \<Rightarrow> obj) \<Rightarrow>
   Objid \<Rightarrow> Objid \<Rightarrow> Objid \<Rightarrow> heap \<Rightarrow> heap option" where
  "ll_rename gl sl gn sn where old new H =
     (if where = NOTHING then Some H
      else case H where of
             None \<Rightarrow> None
           | Some x \<Rightarrow>
               if gl x = old then Some (H(where \<mapsto> sl new x))
               else if gl x = NOTHING then None
               else ll_redirect gn sn old new (gl x) H)"

partial_function (option) ll_set_all ::
  "(obj \<Rightarrow> Objid) \<Rightarrow> (Objid \<Rightarrow> obj \<Rightarrow> obj) \<Rightarrow> Objid \<Rightarrow> Objid \<Rightarrow> heap \<Rightarrow> heap option" where
  "ll_set_all gn su new c H =
     (if c = NOTHING then Some H
      else case H c of
             None \<Rightarrow> None
           | Some x \<Rightarrow> ll_set_all gn su new (gn x) (H(c \<mapsto> su new x)))"

declare ll_set_all.simps [code]

definition fix_owner :: "Objid \<Rightarrow> Objid \<Rightarrow> Objid \<Rightarrow> Objid" where
  "fix_owner old new owner = (if owner = new then NOTHING else if owner = old then new else owner)"

text \<open>The owners on one object; \<open>count\<close> is the number of its properties.\<close>

definition fix_owners :: "Objid \<Rightarrow> Objid \<Rightarrow> nat \<Rightarrow> obj \<Rightarrow> obj" where
  "fix_owners old new count x =
     x\<lparr>o_owner := fix_owner old new (o_owner x),
       o_verbdefs := map (\<lambda>v. v\<lparr>v_owner := fix_owner old new (v_owner v)\<rparr>) (o_verbdefs x),
       o_propval := map (\<lambda>p. p\<lparr>p_owner := fix_owner old new (p_owner p)\<rparr>) (take count (o_propval x))
                    @ drop count (o_propval x)\<rparr>"

fun fix_owners_loop :: "Objid \<Rightarrow> Objid \<Rightarrow> Objid list \<Rightarrow> db \<Rightarrow> db option" where
  "fix_owners_loop old new [] db = Some db"
| "fix_owners_loop old new (oid # oids) db =
     (case objects db oid of
        None \<Rightarrow> fix_owners_loop old new oids db
      | Some x \<Rightarrow>
          do {
            count \<leftarrow> dbpriv_count_properties db oid;
            if count \<le> length (o_propval x)
            then fix_owners_loop old new oids
                   (db\<lparr>objects := (objects db)(oid \<mapsto> fix_owners old new count x)\<rparr>)
            else None
          })"

text \<open>The user list: the first entry \<open>old\<close> becomes \<open>new\<close>.\<close>

fun rename_user :: "Objid \<Rightarrow> Objid \<Rightarrow> Var list \<Rightarrow> Var list" where
  "rename_user old new [] = []"
| "rename_user old new (v # vs) =
     (case v of
        TYPE_OBJ i \<Rightarrow> if i = old then TYPE_OBJ new # vs else v # rename_user old new vs
      | _ \<Rightarrow> v # rename_user old new vs)"

definition db_renumber_object :: "db \<Rightarrow> Objid \<Rightarrow> (Objid \<times> db) option" where
  "db_renumber_object db0 old =
     (let db = db_priv_affected_callable_verb_lookup db0
      in case find (\<lambda>n. objects db n = None) [0..old - 1] of
           None \<Rightarrow> Some (old, db)
         | Some new \<Rightarrow>
             do {
               x \<leftarrow> objects db old;
               let H1 = ((objects db)(new \<mapsto> x\<lparr>o_id := new\<rparr>))(old := None);
               H2 \<leftarrow> ll_rename o_child (\<lambda>v. o_child_update (\<lambda>_. v)) o_sibling (\<lambda>v. o_sibling_update (\<lambda>_. v))
                      (o_parent x) old new H1;
               H3 \<leftarrow> ll_set_all o_sibling (\<lambda>v. o_parent_update (\<lambda>_. v)) new (o_child x) H2;
               H4 \<leftarrow> ll_rename o_contents (\<lambda>v. o_contents_update (\<lambda>_. v)) o_next (\<lambda>v. o_next_update (\<lambda>_. v))
                      (o_location x) old new H3;
               H5 \<leftarrow> ll_set_all o_next (\<lambda>v. o_location_update (\<lambda>_. v)) new (o_contents x) H4;
               let db5 = db\<lparr>objects := H5\<rparr>;
               let db6 = (if is_user db5 new then db5\<lparr>all_users := rename_user old new (all_users db5)\<rparr>
                          else db5);
               db7 \<leftarrow> fix_owners_loop old new [0..num_objects db6 - 1] db6;
               Some (new, db7)
             })"

section \<open>Sizes\<close>

text \<open>\<open>db_object_bytes\<close>, with the sizes of the C structures and of a program as arguments:
  object, pointer to object, verb definition, property definition, and slot less value.\<close>

record sizes =
  sz_object :: int
  sz_verbdef :: int
  sz_propdef :: int
  sz_slot :: int
  sz_program :: "nat \<Rightarrow> int"

definition db_object_bytes :: "sizes \<Rightarrow> (Var \<Rightarrow> int) \<Rightarrow> db \<Rightarrow> Objid \<Rightarrow> int option" where
  "db_object_bytes sz vb db oid =
     do {
       x \<leftarrow> objects db oid;
       n \<leftarrow> dbpriv_count_properties db oid;
       if n \<le> length (o_propval x)
       then Some (sz_object sz + len (o_name x) + 1
         + sum_list (map (\<lambda>v. sz_verbdef sz + len (v_name v) + 1
             + (case v_program v of None \<Rightarrow> 0 | Some a \<Rightarrow> sz_program sz a)) (o_verbdefs x))
         + sz_propdef sz * int (cur_length (o_propdefs x))
         + sum_list (map (\<lambda>p. len (pd_name p) + 1) (pl (o_propdefs x)))
         + sz_slot sz * int n
         + sum_list (map (\<lambda>p. vb (p_var p)) (take n (o_propval x))))
       else None
     }"

end
