(* ===== verification/Verbs.thy ===== *)
theory Verbs
  imports Words Objects
begin

text \<open>
  Verbs (\<^verbatim>\<open>db_verbs.c\<close>): the table of prepositions, defining and deleting verbs, the searches for
  a verb by name, number, command or call, the cache of callable verbs, and the attributes of a
  verb.

  A handle to a verb is its definer and its position in the definer's list; the null handle is
  \<open>None\<close>. \<open>verbcasecmp\<close> accepts two pointers to one string object without looking at the text,
  so the searches take an argument \<open>same\<close> that says of which verbs the name is the very string
  object searched for.
\<close>

section \<open>Prepositions\<close>

definition prep_list :: "string list" where
  "prep_list =
     [''with/using'', ''at/to'', ''in front of'', ''in/inside/into'', ''on top of/on/onto/upon'',
      ''out of/from inside/from'', ''over'', ''through'', ''under/underneath/beneath'', ''behind'',
      ''beside'', ''for/about'', ''is'', ''as'', ''off/off of'']"

definition NPREPS :: nat where "NPREPS = length prep_list"

definition PREP_ANY :: int where "PREP_ANY = - 2"
definition PREP_NONE :: int where "PREP_NONE = - 1"

text \<open>\<open>dbpriv_build_prep_table\<close>: the aliases of one entry, each split into words.\<close>

function prep_aliases :: "string \<Rightarrow> string list list" where
  "prep_aliases p =
     (if p = [] then []
      else let q = (if hd p = CHR ''/'' then tl p else p)
           in parse_into_words (takeWhile (\<lambda>c. c \<noteq> CHR ''/'') q)
              # prep_aliases (dropWhile (\<lambda>c. c \<noteq> CHR ''/'') q))"
  by pat_completeness auto
termination
proof (relation "measure length")
  fix p :: string and q
  assume p: "p \<noteq> []" and q: "q = (if hd p = CHR ''/'' then tl p else p)"
  have le: "length (dropWhile (\<lambda>c. c \<noteq> CHR ''/'') s) \<le> length s" for s by (rule length_dropWhile_le)
  show "(dropWhile (\<lambda>c. c \<noteq> CHR ''/'') q, p) \<in> measure length"
  proof (cases p)
    case (Cons c s)
    then show ?thesis using q le [of s] by (cases "c = CHR ''/''") simp_all
  qed (use p in simp)
qed simp

declare prep_aliases.simps [simp del]

definition prep_table :: "string list list list" where
  "prep_table = map prep_aliases prep_list"

text \<open>The words of an alias at a position of the command.\<close>

fun words_match :: "string list \<Rightarrow> string list \<Rightarrow> bool" where
  "words_match argv [] \<longleftrightarrow> True"
| "words_match [] (w # ws) \<longleftrightarrow> False"
| "words_match (a # argv) (w # ws) \<longleftrightarrow> mystrcasecmp a w = 0 \<and> words_match argv ws"

text \<open>The aliases in the order of the two inner loops: each with the number of its preposition.\<close>

definition all_aliases :: "(nat \<times> string list) list" where
  "all_aliases = concat (map (\<lambda>(j, as). map (Pair j) as) (zip [0..<NPREPS] prep_table))"

definition alias_at :: "bool \<Rightarrow> string list \<Rightarrow> string list \<Rightarrow> bool" where
  "alias_at exact argv alias \<longleftrightarrow> words_match argv alias \<and> (exact \<longrightarrow> length argv = length alias)"

text \<open>\<open>db_find_prep\<close>: the preposition with the positions of its first and last word. With
  \<open>exact\<close> (null \<^verbatim>\<open>first\<close> and \<^verbatim>\<open>last\<close>) only the first position is tried and the whole must match.\<close>

fun find_prep_from :: "bool \<Rightarrow> nat \<Rightarrow> string list \<Rightarrow> (nat \<times> nat \<times> nat) option" where
  "find_prep_from exact i [] = None"
| "find_prep_from exact i (a # argv) =
     (case find (\<lambda>(j, alias). alias_at exact (a # argv) alias) all_aliases of
        Some (j, alias) \<Rightarrow> Some (j, i, i + length alias - 1)
      | None \<Rightarrow> if exact then None else find_prep_from exact (Suc i) argv)"

definition db_find_prep :: "bool \<Rightarrow> string list \<Rightarrow> int \<times> nat \<times> nat" where
  "db_find_prep exact argv =
     (case find_prep_from exact 0 argv of
        Some (j, pstart, pend) \<Rightarrow> (int j, pstart, pend)
      | None \<Rightarrow> (PREP_NONE, 0, 0))"

text \<open>\<open>db_match_prep\<close>; \<^verbatim>\<open>prep\<close> is an enumeration, an \<^verbatim>\<open>int\<close>, compared with an unsigned size.\<close>

definition db_match_prep :: "string \<Rightarrow> int" where
  "db_match_prep prepname =
     (let s = (if hd0 prepname = CHR ''#'' then tl prepname else prepname);
          first = hd0 s;
          (n, p) = strtoimax s
      in if hd0 p = NUL
         then if \<not> isdigit first \<or> wrap32 n < 0 \<or> wrap32 n \<ge> int NPREPS then PREP_NONE else wrap32 n
         else fst (db_find_prep True (parse_into_words (takeWhile (\<lambda>c. c \<noteq> CHR ''/'') (cstr s)))))"

definition db_unparse_prep :: "int \<Rightarrow> string option" where
  "db_unparse_prep prep =
     (if prep = PREP_NONE then Some ''none''
      else if prep = PREP_ANY then Some ''any''
      else if 0 \<le> prep \<and> prep < int NPREPS then Some (prep_list ! nat prep) else None)"

section \<open>Defining and finding verbs\<close>

definition VF_READ :: int where "VF_READ = 1"
definition VF_WRITE :: int where "VF_WRITE = 2"
definition VF_EXEC :: int where "VF_EXEC = 4"
definition VF_DEBUG :: int where "VF_DEBUG = 8"

definition ASPEC_NONE :: int where "ASPEC_NONE = 0"
definition ASPEC_ANY :: int where "ASPEC_ANY = 1"
definition ASPEC_THIS :: int where "ASPEC_THIS = 2"

definition DOBJSHIFT :: nat where "DOBJSHIFT = 4"
definition IOBJSHIFT :: nat where "IOBJSHIFT = 6"
definition OBJMASK :: int where "OBJMASK = 3"
definition PERMMASK :: int where "PERMMASK = 15"

text \<open>Assignment to a \<^verbatim>\<open>short\<close>.\<close>

definition to_short :: "int \<Rightarrow> int" where
  "to_short x = (x + 2 ^ 15) mod 2 ^ 16 - 2 ^ 15"

type_synonym verb_handle = "Objid \<times> nat"

definition db_add_verb ::
  "db \<Rightarrow> Objid \<Rightarrow> string \<Rightarrow> Objid \<Rightarrow> int \<Rightarrow> int \<Rightarrow> int \<Rightarrow> int \<Rightarrow> (nat \<times> db) option" where
  "db_add_verb db oid vnames owner flags dobj prep iobj =
     (case dbpriv_find_object db oid of
        None \<Rightarrow> None
      | Some x \<Rightarrow>
          let db1 = db_priv_affected_callable_verb_lookup db;
              newv = \<lparr>v_name = vnames, v_program = None, v_owner = owner,
                      v_perms = to_short (flags OR push_bit DOBJSHIFT dobj OR push_bit IOBJSHIFT iobj),
                      v_prep = to_short prep\<rparr>
          in map_option (Pair (Suc (length (o_verbdefs x))))
               (upd_db oid (\<lambda>x. x\<lparr>o_verbdefs := o_verbdefs x @ [newv]\<rparr>) db1))"

text \<open>\<open>find_verbdef_by_name\<close>, from position \<open>n\<close> of the list of verbs of object \<open>d\<close>.\<close>

fun find_verb_from ::
  "(verb_handle \<Rightarrow> bool) \<Rightarrow> Objid \<Rightarrow> string \<Rightarrow> bool \<Rightarrow> nat \<Rightarrow> verbdef list \<Rightarrow> nat option" where
  "find_verb_from same d vname check_x_bit n [] = None"
| "find_verb_from same d vname check_x_bit n (v # vs) =
     (if verbcasecmp (same (d, n)) (v_name v) vname
         \<and> (\<not> check_x_bit \<or> v_perms v AND VF_EXEC \<noteq> 0)
      then Some n
      else find_verb_from same d vname check_x_bit (Suc n) vs)"

definition find_verbdef_by_name ::
  "(verb_handle \<Rightarrow> bool) \<Rightarrow> obj \<Rightarrow> string \<Rightarrow> bool \<Rightarrow> nat option" where
  "find_verbdef_by_name same x vname check_x_bit =
     find_verb_from same (o_id x) vname check_x_bit 0 (o_verbdefs x)"

definition db_count_verbs :: "db \<Rightarrow> Objid \<Rightarrow> nat option" where
  "db_count_verbs db oid = map_option (\<lambda>x. length (o_verbdefs x)) (dbpriv_find_object db oid)"

fun for_all_verb_names :: "('d \<Rightarrow> string \<Rightarrow> bool \<times> 'd) \<Rightarrow> 'd \<Rightarrow> verbdef list \<Rightarrow> bool \<times> 'd" where
  "for_all_verb_names func data [] = (False, data)"
| "for_all_verb_names func data (v # vs) =
     (let (stop, data') = func data (v_name v)
      in if stop then (True, data') else for_all_verb_names func data' vs)"

definition db_for_all_verbs ::
  "db \<Rightarrow> Objid \<Rightarrow> ('d \<Rightarrow> string \<Rightarrow> bool \<times> 'd) \<Rightarrow> 'd \<Rightarrow> (bool \<times> 'd) option" where
  "db_for_all_verbs db oid func data =
     map_option (\<lambda>x. for_all_verb_names func data (o_verbdefs x)) (dbpriv_find_object db oid)"

text \<open>\<open>db_delete_verb\<close>: the search for the predecessor of a verb that is not in the list of its
  definer runs off the list.\<close>

definition db_delete_verb :: "db \<Rightarrow> verb_handle \<Rightarrow> db option" where
  "db_delete_verb db h =
     (let (oid, n) = h
      in case dbpriv_find_object db oid of
           None \<Rightarrow> None
         | Some x \<Rightarrow>
             if n < length (o_verbdefs x)
             then upd_db oid (\<lambda>x. x\<lparr>o_verbdefs := take n (o_verbdefs x) @ drop (Suc n) (o_verbdefs x)\<rparr>)
                    (db_priv_affected_callable_verb_lookup db)
             else None)"

text \<open>\<open>db_find_command_verb\<close>.\<close>

definition verb_dobj :: "int \<Rightarrow> int" where
  "verb_dobj perms = drop_bit DOBJSHIFT perms AND OBJMASK"

definition verb_iobj :: "int \<Rightarrow> int" where
  "verb_iobj perms = drop_bit IOBJSHIFT perms AND OBJMASK"

definition command_fits :: "bool \<Rightarrow> string \<Rightarrow> int \<Rightarrow> int \<Rightarrow> int \<Rightarrow> verbdef \<Rightarrow> bool" where
  "command_fits same verb dobj prep iobj v \<longleftrightarrow>
     verbcasecmp same (v_name v) verb
     \<and> (verb_dobj (v_perms v) = ASPEC_ANY \<or> verb_dobj (v_perms v) = dobj)
     \<and> (v_prep v = PREP_ANY \<or> v_prep v = prep)
     \<and> (verb_iobj (v_perms v) = ASPEC_ANY \<or> verb_iobj (v_perms v) = iobj)"

fun find_command_from ::
  "(verb_handle \<Rightarrow> bool) \<Rightarrow> Objid \<Rightarrow> string \<Rightarrow> int \<Rightarrow> int \<Rightarrow> int \<Rightarrow> nat \<Rightarrow> verbdef list \<Rightarrow> nat option" where
  "find_command_from same d verb dobj prep iobj n [] = None"
| "find_command_from same d verb dobj prep iobj n (v # vs) =
     (if command_fits (same (d, n)) verb dobj prep iobj v then Some n
      else find_command_from same d verb dobj prep iobj (Suc n) vs)"

partial_function (option) db_find_command_verb ::
  "(verb_handle \<Rightarrow> bool) \<Rightarrow> db \<Rightarrow> Objid \<Rightarrow> string \<Rightarrow> int \<Rightarrow> int \<Rightarrow> int \<Rightarrow> verb_handle option option" where
  "db_find_command_verb same db oid verb dobj prep iobj =
     (case dbpriv_find_object db oid of
        None \<Rightarrow> Some None
      | Some x \<Rightarrow>
          (case find_command_from same (o_id x) verb dobj prep iobj 0 (o_verbdefs x) of
             Some n \<Rightarrow> Some (Some (o_id x, n))
           | None \<Rightarrow> db_find_command_verb same db (o_parent x) verb dobj prep iobj))"

declare db_find_command_verb.simps [code]

section \<open>Calling verbs, with the cache\<close>

definition DEFAULT_VC_SIZE :: nat where "DEFAULT_VC_SIZE = 7507"

definition make_vc_table :: "nat \<Rightarrow> db \<Rightarrow> db" where
  "make_vc_table n db = db\<lparr>vc_table := Some (replicate n [])\<rparr>"

text \<open>The first loop stops at the nearest object with verbs, the second searches from there.\<close>

partial_function (option) with_verbs :: "db \<Rightarrow> Objid \<Rightarrow> obj option option" where
  "with_verbs db oid =
     (case dbpriv_find_object db oid of
        None \<Rightarrow> Some None
      | Some x \<Rightarrow> if o_verbdefs x \<noteq> [] then Some (Some x) else with_verbs db (o_parent x))"

declare with_verbs.simps [code]

partial_function (option) callable_loop ::
  "(verb_handle \<Rightarrow> bool) \<Rightarrow> db \<Rightarrow> obj option \<Rightarrow> string \<Rightarrow> verb_handle option option" where
  "callable_loop same db ob verb =
     (case ob of
        None \<Rightarrow> Some None
      | Some x \<Rightarrow>
          (case find_verbdef_by_name same x verb True of
             Some n \<Rightarrow> Some (Some (o_id x, n))
           | None \<Rightarrow> callable_loop same db (dbpriv_find_object db (o_parent x)) verb))"

declare callable_loop.simps [code]

text \<open>\<^verbatim>\<open>str_hash(verb) ^ (~first_parent_with_verbs)\<close>, in 64 bits, cut to an \<^verbatim>\<open>unsigned int\<close>.\<close>

definition vc_hash_of :: "string \<Rightarrow> Objid \<Rightarrow> 32 word" where
  "vc_hash_of verb first = str_hash verb XOR word_of_int (NOT first)"

definition vc_matches :: "32 word \<Rightarrow> Objid \<Rightarrow> string \<Rightarrow> vc_entry \<Rightarrow> bool" where
  "vc_matches hash first verb vc \<longleftrightarrow>
     hash = vc_hash vc \<and> first = vc_oid_key vc \<and> mystrcasecmp verb (vc_verbname vc) = 0"

definition db_find_callable_verb ::
  "(verb_handle \<Rightarrow> bool) \<Rightarrow> db \<Rightarrow> Objid \<Rightarrow> string \<Rightarrow> (verb_handle option \<times> db) option" where
  "db_find_callable_verb same db0 oid verb =
     (let db = (if vc_table db0 = None then make_vc_table DEFAULT_VC_SIZE db0 else db0);
          table = the (vc_table db)
      in do {
           ob \<leftarrow> with_verbs db oid;
           let first = (case ob of Some x \<Rightarrow> o_id x | None \<Rightarrow> NOTHING);
           let hash = vc_hash_of verb first;
           let bucket = nat (uint hash mod int (length table));
           (case find (vc_matches hash first verb) (table ! bucket) of
              Some vc \<Rightarrow>
                (case vc_h vc of
                   Some h \<Rightarrow> Some (Some h, db\<lparr>verbcache_hit := verbcache_hit db + 1\<rparr>)
                 | None \<Rightarrow> Some (None, db\<lparr>verbcache_neg_hit := verbcache_neg_hit db + 1\<rparr>))
            | None \<Rightarrow>
                do {
                  h \<leftarrow> callable_loop same db ob verb;
                  let new_vc = \<lparr>vc_hash = hash, vc_oid_key = first, vc_verbname = verb, vc_h = h\<rparr>;
                  Some (h, db\<lparr>verbcache_miss := verbcache_miss db + 1,
                             vc_table := Some (table[bucket := new_vc # table ! bucket])\<rparr>)
                })
         })"

definition VC_CACHE_STATS_MAX :: nat where "VC_CACHE_STATS_MAX = 16"

definition vc_histogram :: "vc_entry list list \<Rightarrow> int list" where
  "vc_histogram table =
     map (\<lambda>d. int (length (filter (\<lambda>b. min (length b) VC_CACHE_STATS_MAX = d) table)))
       [0..<VC_CACHE_STATS_MAX + 1]"

definition db_verb_cache_stats :: "db \<Rightarrow> Var" where
  "db_verb_cache_stats db =
     TYPE_LIST [TYPE_INT (verbcache_hit db), TYPE_INT (verbcache_neg_hit db), TYPE_INT (verbcache_miss db),
       TYPE_INT (db_verb_generation db),
       TYPE_LIST (map TYPE_INT (vc_histogram (case vc_table db of None \<Rightarrow> [] | Some t \<Rightarrow> t)))]"

section \<open>Verbs by name or number on one object\<close>

fun find_defined_from ::
  "(verb_handle \<Rightarrow> bool) \<Rightarrow> Objid \<Rightarrow> string \<Rightarrow> int \<Rightarrow> nat \<Rightarrow> verbdef list \<Rightarrow> nat option" where
  "find_defined_from same d vname num i [] = None"
| "find_defined_from same d vname num i (v # vs) =
     (if int i = num \<or> verbcasecmp (same (d, i)) (v_name v) vname then Some i
      else find_defined_from same d vname num (Suc i) vs)"

definition verb_number :: "bool \<Rightarrow> string \<Rightarrow> int" where
  "verb_number allow_numbers vname =
     (let (n, p) = strtoimax vname
      in if \<not> allow_numbers \<or> isspace (hd0 vname) \<or> hd0 p \<noteq> NUL then - 1 else wrap32 n)"

definition db_find_defined_verb ::
  "(verb_handle \<Rightarrow> bool) \<Rightarrow> db \<Rightarrow> Objid \<Rightarrow> string \<Rightarrow> bool \<Rightarrow> verb_handle option option" where
  "db_find_defined_verb same db oid vname allow_numbers =
     map_option
       (\<lambda>x. map_option (Pair (o_id x))
          (find_defined_from same (o_id x) vname (verb_number allow_numbers vname) 0 (o_verbdefs x)))
       (dbpriv_find_object db oid)"

text \<open>\<open>db_find_indexed_verb\<close>; the index is an \<^verbatim>\<open>unsigned\<close>.\<close>

definition db_find_indexed_verb :: "db \<Rightarrow> Objid \<Rightarrow> nat \<Rightarrow> verb_handle option option" where
  "db_find_indexed_verb db oid index =
     map_option
       (\<lambda>x. if 1 \<le> index \<and> index \<le> length (o_verbdefs x) then Some (o_id x, index - 1) else None)
       (dbpriv_find_object db oid)"

section \<open>Attributes of a verb\<close>

definition get_verb :: "db \<Rightarrow> verb_handle option \<Rightarrow> verbdef option" where
  "get_verb db vh =
     (case vh of
        None \<Rightarrow> None
      | Some (d, n) \<Rightarrow>
          do { x \<leftarrow> objects db d; if n < length (o_verbdefs x) then Some (o_verbdefs x ! n) else None })"

definition set_verb :: "(verbdef \<Rightarrow> verbdef) \<Rightarrow> db \<Rightarrow> verb_handle option \<Rightarrow> db option" where
  "set_verb f db vh =
     (case vh of
        None \<Rightarrow> None
      | Some (d, n) \<Rightarrow>
          do {
            x \<leftarrow> objects db d;
            if n < length (o_verbdefs x)
            then upd_db d (\<lambda>x. x\<lparr>o_verbdefs := (o_verbdefs x)[n := f (o_verbdefs x ! n)]\<rparr>) db
            else None
          })"

definition db_verb_definer :: "verb_handle option \<Rightarrow> Objid option" where
  "db_verb_definer vh = map_option fst vh"

definition db_verb_names :: "db \<Rightarrow> verb_handle option \<Rightarrow> string option" where
  "db_verb_names db vh = map_option v_name (get_verb db vh)"

definition db_set_verb_names :: "db \<Rightarrow> verb_handle option \<Rightarrow> string \<Rightarrow> db option" where
  "db_set_verb_names db vh names =
     set_verb (\<lambda>v. v\<lparr>v_name := names\<rparr>) (db_priv_affected_callable_verb_lookup db) vh"

definition db_verb_owner :: "db \<Rightarrow> verb_handle option \<Rightarrow> Objid option" where
  "db_verb_owner db vh = map_option v_owner (get_verb db vh)"

definition db_set_verb_owner :: "db \<Rightarrow> verb_handle option \<Rightarrow> Objid \<Rightarrow> db option" where
  "db_set_verb_owner db vh owner = set_verb (\<lambda>v. v\<lparr>v_owner := owner\<rparr>) db vh"

definition db_verb_flags :: "db \<Rightarrow> verb_handle option \<Rightarrow> int option" where
  "db_verb_flags db vh = map_option (\<lambda>v. v_perms v AND PERMMASK) (get_verb db vh)"

definition db_set_verb_flags :: "db \<Rightarrow> verb_handle option \<Rightarrow> int \<Rightarrow> db option" where
  "db_set_verb_flags db vh flags =
     set_verb (\<lambda>v. v\<lparr>v_perms := to_short (v_perms v AND NOT PERMMASK OR flags)\<rparr>)
       (db_priv_affected_callable_verb_lookup db) vh"

text \<open>\<open>db_verb_program\<close>: the address of the program, or of the shared empty program.\<close>

definition db_verb_program :: "nat \<Rightarrow> db \<Rightarrow> verb_handle option \<Rightarrow> nat option" where
  "db_verb_program null_program db vh =
     map_option (\<lambda>v. case v_program v of Some p \<Rightarrow> p | None \<Rightarrow> null_program) (get_verb db vh)"

definition db_set_verb_program :: "db \<Rightarrow> verb_handle option \<Rightarrow> nat option \<Rightarrow> db option" where
  "db_set_verb_program db vh program = set_verb (\<lambda>v. v\<lparr>v_program := program\<rparr>) db vh"

definition db_verb_arg_specs :: "db \<Rightarrow> verb_handle option \<Rightarrow> (int \<times> int \<times> int) option" where
  "db_verb_arg_specs db vh =
     map_option (\<lambda>v. (verb_dobj (v_perms v), v_prep v, verb_iobj (v_perms v))) (get_verb db vh)"

definition db_set_verb_arg_specs :: "db \<Rightarrow> verb_handle option \<Rightarrow> int \<Rightarrow> int \<Rightarrow> int \<Rightarrow> db option" where
  "db_set_verb_arg_specs db vh dobj prep iobj =
     set_verb
       (\<lambda>v. v\<lparr>v_perms := to_short (v_perms v AND PERMMASK OR push_bit DOBJSHIFT dobj OR push_bit IOBJSHIFT iobj),
              v_prep := to_short prep\<rparr>)
       (db_priv_affected_callable_verb_lookup db) vh"

definition db_verb_allows :: "db \<Rightarrow> verb_handle option \<Rightarrow> Objid \<Rightarrow> int \<Rightarrow> bool option" where
  "db_verb_allows db h progr flag =
     do {
       flags \<leftarrow> db_verb_flags db h;
       owner \<leftarrow> db_verb_owner db h;
       Some (flags AND flag \<noteq> 0 \<or> progr = owner \<or> is_wizard db progr)
     }"

end
