(* ===== verification/Property_Laws.thy ===== *)
theory Property_Laws
  imports Properties
begin

text \<open>
  The invariant of the property slots and what the operations of \<open>Properties\<close> do to it.

  The abstract state of an object is \<open>pslot H i\<close>: a map from the properties visible on \<open>i\<close>
  (the definer and the definition) to their value slots. \<open>wf_props\<close> is the invariant of the
  concrete arrays: one slot for every visible property, no two visible properties with the
  same name, no built-in name, a value for every locally defined property, correct hashes, and
  an up-to-date cache of the waif properties. Every operation keeps it, and is described by
  its effect on \<open>pslot\<close>.
\<close>

section \<open>Visible properties\<close>

definition defs_at :: "heap \<Rightarrow> Objid \<Rightarrow> (Objid \<times> propdef) list" where
  "defs_at H j = (case H j of None \<Rightarrow> [] | Some x \<Rightarrow> map (Pair j) (pl (o_propdefs x)))"

definition visible :: "heap \<Rightarrow> Objid list \<Rightarrow> (Objid \<times> propdef) list" where
  "visible H xs = concat (map (defs_at H) xs)"

abbreviation key_name :: "Objid \<times> propdef \<Rightarrow> string" where
  "key_name k \<equiv> folded (pd_name (snd k))"

definition pslot :: "heap \<Rightarrow> Objid \<Rightarrow> (Objid \<times> propdef) \<Rightarrow> pval option" where
  "pslot H i =
     (case (H i, ll_members o_parent i H) of
        (Some x, Some xs) \<Rightarrow> map_of (zip (visible H xs) (o_propval x))
      | _ \<Rightarrow> Map.empty)"

definition builtin_name :: "string \<Rightarrow> bool" where
  "builtin_name s \<longleftrightarrow> (\<exists>(n, _) \<in> set ptable. folded n = folded s)"

text \<open>What holds of one object with ancestors \<open>xs\<close>.\<close>

definition wf_prop :: "heap \<Rightarrow> obj \<Rightarrow> Objid list \<Rightarrow> bool" where
  "wf_prop H x xs \<longleftrightarrow>
     length (o_propval x) = length (visible H xs) \<and>
     distinct (map key_name (visible H xs)) \<and>
     (\<forall>n < cur_length (o_propdefs x). p_var (o_propval x ! n) \<noteq> TYPE_CLEAR) \<and>
     (\<forall>p \<in> set (pl (o_propdefs x)). pd_hash p = str_hash (pd_name p) \<and> \<not> builtin_name (pd_name p)) \<and>
     int (cur_length (o_propdefs x)) \<le> max_length (o_propdefs x) \<and>
     (\<forall>ds. o_waif_propdefs x = Some ds \<longrightarrow>
        ds = filter (\<lambda>p. waif_prop (pd_name p)) (map snd (visible H xs)))"

definition wf_props :: "heap \<Rightarrow> bool" where
  "wf_props H \<longleftrightarrow> (\<forall>i x xs. H i = Some x \<longrightarrow> ancestry H i xs \<longrightarrow> wf_prop H x xs)"

definition wf_objects :: "db \<Rightarrow> bool" where
  "wf_objects db \<longleftrightarrow> wf_table db \<and> wf_tree (objects db) \<and> wf_props (objects db)"

lemma wf_objectsD:
  assumes "wf_objects db"
  shows "wf_table db" "wf_tree (objects db)" "wf_props (objects db)"
  using assms by (simp_all add: wf_objects_def)

lemma wf_propsD: "wf_props H \<Longrightarrow> H i = Some x \<Longrightarrow> ancestry H i xs \<Longrightarrow> wf_prop H x xs"
  unfolding wf_props_def by blast

lemma visible_Nil [simp]: "visible H [] = []"
  by (simp add: visible_def)

lemma visible_Cons [simp]: "visible H (x # xs) = defs_at H x @ visible H xs"
  by (simp add: visible_def)

lemma visible_append [simp]: "visible H (xs @ ys) = visible H xs @ visible H ys"
  by (simp add: visible_def)

lemma defs_at_Some [simp]: "H j = Some x \<Longrightarrow> defs_at H j = map (Pair j) (pl (o_propdefs x))"
  by (simp add: defs_at_def)

lemma visible_cong: "(\<And>j. j \<in> set xs \<Longrightarrow> defs_at H j = defs_at H' j) \<Longrightarrow> visible H xs = visible H' xs"
  unfolding visible_def by (induction xs) auto

lemma visible_fst: "k \<in> set (visible H xs) \<Longrightarrow> fst k \<in> set xs"
  by (auto simp: visible_def defs_at_def split: option.splits)

lemma pslot_eq:
  assumes "H i = Some x" "ancestry H i xs"
  shows "pslot H i = map_of (zip (visible H xs) (o_propval x))"
  using assms ll_members_links [OF assms(2)] by (simp add: pslot_def)

lemma pslot_None: "H i = None \<Longrightarrow> pslot H i = Map.empty"
  by (simp add: pslot_def fun_eq_iff)

lemma dom_pslot:
  assumes "wf_prop H x xs" "H i = Some x" "ancestry H i xs"
  shows "dom (pslot H i) = set (visible H xs)"
  using assms by (simp add: pslot_eq wf_prop_def)

lemma wf_prop_distinct: "wf_prop H x xs \<Longrightarrow> distinct (visible H xs)"
  by (auto simp: wf_prop_def distinct_map)

text \<open>The chain above an object, with its parent.\<close>

lemma ancestry_Cons:
  assumes "ancestry H i xs" "H i = Some x" "H NOTHING = None"
  obtains ys where "xs = i # ys" "ancestry H (o_parent x) ys"
  using assms by (cases xs) (auto simp: field_def)

section \<open>Counting and searching\<close>

lemma count_loop_eq:
  "wf_table db \<Longrightarrow> ancestry (objects db) i xs \<Longrightarrow>
   count_loop db i n = Some (n + length (visible (objects db) xs))"
proof (induction xs arbitrary: i n)
  case Nil
  then show ?case using wf_table_NOTHING [OF Nil(1)]
    by (subst count_loop.simps) (simp add: wf_table_find)
next
  case (Cons j xs)
  then obtain x where "objects db j = Some x" "ancestry (objects db) (o_parent x) xs" "i = j"
    by (auto simp: field_eq_Some)
  with Cons show ?case
    by (subst count_loop.simps) (simp add: wf_table_find)
qed

lemma count_properties_eq:
  "wf_table db \<Longrightarrow> ancestry (objects db) i xs \<Longrightarrow>
   dbpriv_count_properties db i = Some (length (visible (objects db) xs))"
  by (simp add: dbpriv_count_properties_def count_loop_eq)

text \<open>The first index with a property.\<close>

fun index_of :: "('a \<Rightarrow> bool) \<Rightarrow> 'a list \<Rightarrow> nat option" where
  "index_of P [] = None"
| "index_of P (x # xs) = (if P x then Some 0 else map_option Suc (index_of P xs))"

lemma index_of_None: "index_of P xs = None \<longleftrightarrow> (\<forall>x \<in> set xs. \<not> P x)"
  by (induction xs) auto

lemma index_of_Some:
  "index_of P xs = Some k \<Longrightarrow> k < length xs \<and> P (xs ! k) \<and> (\<forall>j < k. \<not> P (xs ! j))"
  by (induction xs arbitrary: k) (auto simp: less_Suc_eq_0_disj split: if_splits)

lemma index_of_append:
  "index_of P (xs @ ys) =
     (case index_of P xs of Some k \<Rightarrow> Some k | None \<Rightarrow> map_option (\<lambda>k. length xs + k) (index_of P ys))"
  by (cases "index_of P ys"; induction xs) (auto split: option.splits)

lemma index_of_map: "index_of P (map f xs) = index_of (P \<circ> f) xs"
  by (induction xs) auto

lemma same_name_iff:
  "pd_hash p = str_hash (pd_name p) \<Longrightarrow>
   same_name name (str_hash name) p \<longleftrightarrow> folded (pd_name p) = folded name"
  by (auto simp: same_name_def mystrcasecmp_eq_0 intro: str_hash_folded)

lemma find_def_eq:
  assumes "\<forall>p \<in> set ps. pd_hash p = str_hash (pd_name p)"
  shows "find_def name (str_hash name) ps n =
    map_option (\<lambda>k. n + k) (index_of (\<lambda>p. folded (pd_name p) = folded name) ps)"
  using assms
  by (induction ps arbitrary: n)
    (auto simp: same_name_iff option.map_comp comp_def intro!: option.map_cong)

lemma find_prop_loop_eq:
  assumes "wf_table db" "wf_props (objects db)"
  shows "ancestry (objects db) i xs \<Longrightarrow> find_prop_loop db i name (str_hash name) n =
    Some (map_option (\<lambda>k. (fst (visible (objects db) xs ! k), n + k))
      (index_of (\<lambda>k. key_name k = folded name) (visible (objects db) xs)))"
proof (induction xs arbitrary: i n)
  case Nil
  then show ?case using wf_table_NOTHING [OF assms(1)] assms(1)
    by (subst find_prop_loop.simps) (simp add: wf_table_find)
next
  case (Cons j xs)
  then obtain x where x: "objects db j = Some x" "ancestry (objects db) (o_parent x) xs" "i = j"
    by (auto simp: field_eq_Some)
  have h: "\<forall>p \<in> set (pl (o_propdefs x)). pd_hash p = str_hash (pd_name p)"
    using wf_propsD [OF assms(2) x(1) Cons.prems [unfolded x(3)]] by (simp add: wf_prop_def)
  let ?P = "\<lambda>p. folded (pd_name p) = folded name"
  have ix: "index_of (\<lambda>k. key_name k = folded name) (map (Pair j) (pl (o_propdefs x))) =
      index_of ?P (pl (o_propdefs x))"
    by (simp add: index_of_map comp_def)
  show ?case
  proof (cases "index_of ?P (pl (o_propdefs x))")
    case None
    then show ?thesis
      using x assms(1) Cons.IH [OF x(2)] find_def_eq [OF h, of name n]
      by (subst find_prop_loop.simps)
        (simp add: wf_table_find index_of_append ix option.map_comp comp_def nth_append add.assoc)
  next
    case (Some k)
    then have "k < cur_length (o_propdefs x)" using index_of_Some by fastforce
    then show ?thesis
      using x assms(1) find_def_eq [OF h, of name n] Some wf_tableD [OF assms(1) x(1)]
      by (subst find_prop_loop.simps)
        (simp add: wf_table_find index_of_append ix nth_append)
  qed
qed

lemma ptable_hit:
  "find (\<lambda>(n, _). str_hash n = str_hash name \<and> mystrcasecmp name n = 0) ptable = None
    \<longleftrightarrow> \<not> builtin_name name"
  unfolding find_None_iff builtin_name_def
  by (auto simp: mystrcasecmp_eq_0 intro: str_hash_folded dest: sym)

text \<open>The value of a property: that of the nearest object on the chain whose slot is not
  clear.\<close>

definition inherited :: "heap \<Rightarrow> Objid list \<Rightarrow> Objid \<times> propdef \<Rightarrow> Var \<Rightarrow> bool" where
  "inherited H xs k v \<longleftrightarrow>
     (\<exists>as a bs pv. xs = as @ a # bs \<and>
        (\<forall>b \<in> set as. \<exists>pv. pslot H b k = Some pv \<and> p_var pv = TYPE_CLEAR) \<and>
        pslot H a k = Some pv \<and> p_var pv = v \<and> v \<noteq> TYPE_CLEAR)"

lemma pslot_nth:
  assumes "wf_prop H x xs" "H i = Some x" "ancestry H i xs" "n < length (visible H xs)"
  shows "pslot H i (visible H xs ! n) = Some (o_propval x ! n)"
proof -
  have len: "length (o_propval x) = length (visible H xs)" using assms(1) by (simp add: wf_prop_def)
  then have "(visible H xs ! n, o_propval x ! n) \<in> set (zip (visible H xs) (o_propval x))"
    using assms(4) by (auto simp: set_zip)
  moreover have "distinct (map fst (zip (visible H xs) (o_propval x)))"
    using wf_prop_distinct [OF assms(1)] len by simp
  ultimately show ?thesis using pslot_eq [OF assms(2,3)] by (simp add: map_of_eq_Some_iff)
qed

lemma inherited_Cons:
  assumes "pslot H i k = Some pv"
  shows "p_var pv \<noteq> TYPE_CLEAR \<Longrightarrow> inherited H (i # xs) k (p_var pv)"
    and "p_var pv = TYPE_CLEAR \<Longrightarrow> inherited H xs k v \<Longrightarrow> inherited H (i # xs) k v"
proof -
  show "inherited H (i # xs) k (p_var pv)" if "p_var pv \<noteq> TYPE_CLEAR"
    using assms that unfolding inherited_def
    by (intro exI [of _ "[]"] exI [of _ i] exI [of _ xs] exI [of _ pv]) simp
  assume c: "p_var pv = TYPE_CLEAR" "inherited H xs k v"
  then obtain as a bs pw where "xs = as @ a # bs"
      "\<forall>b \<in> set as. \<exists>pv. pslot H b k = Some pv \<and> p_var pv = TYPE_CLEAR"
      "pslot H a k = Some pw" "p_var pw = v" "v \<noteq> TYPE_CLEAR"
    unfolding inherited_def by blast
  then show "inherited H (i # xs) k v"
    using assms c(1) unfolding inherited_def
    by (intro exI [of _ "i # as"] exI [of _ a] exI [of _ bs] exI [of _ pw]) simp
qed

lemma clear_loop_inherited:
  assumes wf: "wf_objects db"
  shows "objects db i = Some x \<Longrightarrow> ancestry (objects db) i xs \<Longrightarrow> n < length (visible (objects db) xs) \<Longrightarrow>
    \<exists>v. clear_loop db x n = Some v \<and> inherited (objects db) xs (visible (objects db) xs ! n) v"
proof (induction xs arbitrary: i x n)
  case Nil
  then show ?case by simp
next
  case (Cons j xs)
  let ?H = "objects db" and ?k = "visible (objects db) (j # xs) ! n"
  have j: "j = i" and up: "ancestry ?H (o_parent x) xs"
    using Cons.prems by (auto simp: field_eq_Some)
  have wfp: "wf_prop ?H x (j # xs)"
    using wf_propsD [OF wf_objectsD(3) [OF wf] Cons.prems(1,2)] .
  have sl: "pslot ?H i ?k = Some (o_propval x ! n)"
    using pslot_nth [OF wfp Cons.prems(1,2,3)] .
  have bound: "n < length (o_propval x)" using wfp Cons.prems(3) by (simp add: wf_prop_def)
  show ?case
  proof (cases "p_var (o_propval x ! n) = TYPE_CLEAR")
    case False
    then have "clear_loop db x n = Some (p_var (o_propval x ! n))"
      using bound by (subst clear_loop.simps) simp
    then show ?thesis using inherited_Cons(1) [OF sl False] j by auto
  next
    case True
    let ?m = "cur_length (o_propdefs x)"
    have n: "\<not> n < ?m" using wfp True by (auto simp: wf_prop_def)
    have k: "?k = visible ?H xs ! (n - ?m)" "n - ?m < length (visible ?H xs)"
      using n Cons.prems(1,3) j by (auto simp: nth_append)
    then obtain px where px: "?H (o_parent x) = Some px"
      using up by (cases xs) (auto simp: field_eq_Some)
    obtain v where v: "clear_loop db px (n - ?m) = Some v" "inherited ?H xs ?k v"
      using Cons.IH [OF px up k(2)] k(1) by auto
    have "clear_loop db x n = clear_loop db px (n - ?m)"
      using True n bound px wf_table_find [OF wf_objectsD(1) [OF wf]] by (subst clear_loop.simps) simp
    then show ?thesis using v inherited_Cons(2) [OF sl True v(2)] j by auto
  qed
qed

lemma visible_key_unique:
  assumes "wf_prop H x xs" "k \<in> set (visible H xs)" "k' \<in> set (visible H xs)" "key_name k = key_name k'"
  shows "k = k'"
  using assms by (auto simp: wf_prop_def distinct_map dest: inj_onD)

text \<open>\<open>db_find_property\<close> on a name that is not built in.\<close>

lemma find_property_eq:
  assumes wf: "wf_objects db" and x: "objects db i = Some x" "ancestry (objects db) i xs"
    and nb: "\<not> builtin_name name"
  shows "(\<forall>k \<in> dom (pslot (objects db) i). key_name k \<noteq> folded name) \<Longrightarrow>
      db_find_property db i name want = Some (\<lparr>built_in = BP_NONE, definer = NOTHING, ptr = Null_prop\<rparr>, None)"
    and "k \<in> dom (pslot (objects db) i) \<Longrightarrow> key_name k = folded name \<Longrightarrow>
      \<exists>n v. db_find_property db i name want =
          Some (\<lparr>built_in = BP_NONE, definer = fst k, ptr = Slot_prop i n\<rparr>, if want then Some v else None) \<and>
        n < length (o_propval x) \<and> n < length (visible (objects db) xs) \<and> visible (objects db) xs ! n = k \<and>
        inherited (objects db) xs k v"
proof -
  let ?H = "objects db"
  note wfp = wf_propsD [OF wf_objectsD(3) [OF wf] x]
  note wft = wf_objectsD(1) [OF wf]
  have D: "dom (pslot ?H i) = set (visible ?H xs)" using dom_pslot [OF wfp x] .
  note loop = find_prop_loop_eq [OF wft wf_objectsD(3) [OF wf] x(2), of name 0]
  note tab = nb [folded ptable_hit]
  show "db_find_property db i name want = Some (\<lparr>built_in = BP_NONE, definer = NOTHING, ptr = Null_prop\<rparr>, None)"
    if "\<forall>k \<in> dom (pslot ?H i). key_name k \<noteq> folded name"
  proof -
    have "index_of (\<lambda>k. key_name k = folded name) (visible ?H xs) = None"
      using that D by (simp add: index_of_None)
    then show ?thesis by (simp add: db_find_property_def tab loop)
  qed
  assume k: "k \<in> dom (pslot ?H i)" "key_name k = folded name"
  obtain n where n: "index_of (\<lambda>k. key_name k = folded name) (visible ?H xs) = Some n"
    using k D by (cases "index_of (\<lambda>k. key_name k = folded name) (visible ?H xs)")
      (auto simp: index_of_None)
  then have hit: "n < length (visible ?H xs)" "key_name (visible ?H xs ! n) = folded name"
    using index_of_Some [OF n] by auto
  have "visible ?H xs ! n = k"
    using visible_key_unique [OF wfp, of "visible ?H xs ! n" k] k hit D by auto
  moreover obtain v where v: "clear_loop db x n = Some v" "inherited ?H xs (visible ?H xs ! n) v"
    using clear_loop_inherited [OF wf x hit(1)] by blast
  moreover have "n < length (o_propval x)" using wfp hit by (simp add: wf_prop_def)
  ultimately show "\<exists>n v. db_find_property db i name want =
          Some (\<lparr>built_in = BP_NONE, definer = fst k, ptr = Slot_prop i n\<rparr>, if want then Some v else None) \<and>
        n < length (o_propval x) \<and> n < length (visible ?H xs) \<and> visible ?H xs ! n = k \<and> inherited ?H xs k v"
    using hit(1) x(1)
    by (intro exI [of _ n] exI [of _ v])
      (simp add: db_find_property_def tab loop n wf_table_find [OF wft])
qed

section \<open>Searching below\<close>

definition has_def :: "heap \<Rightarrow> string \<Rightarrow> Objid \<Rightarrow> bool" where
  "has_def H name d \<longleftrightarrow> (\<exists>k \<in> set (defs_at H d). key_name k = folded name)"

lemma defined_below_eq:
  assumes wf: "wf_objects db"
  shows "children (objects db) p (us @ zs) \<Longrightarrow>
    defined_below_loop db name (str_hash name) (case zs of [] \<Rightarrow> NOTHING | z # _ \<Rightarrow> z) =
    Some (\<exists>z d. z \<in> set zs \<and> desc (objects db) z d \<and> has_def (objects db) name d)"
    (is "_ \<Longrightarrow> _ = Some (?D zs)")
proof -
  let ?H = "objects db"
  note tree = wf_objectsD(2) [OF wf] and wft = wf_objectsD(1) [OF wf]
  assume zs: "children ?H p (us @ zs)"
  show ?thesis
  proof (induction rule: tree_induct [OF tree zs])
    case (1 p)
    then show ?case by (subst defined_below_loop.simps) simp
  next
    case (2 p us z zs ws)
    obtain xz where xz: "?H z = Some xz" "links (field o_sibling ?H) (o_child xz) ws"
      using 2(3) by (auto simp: listed_def)
    have zN: "z \<noteq> NOTHING" using wf_treeD(3) [OF tree] xz(1) by auto
    obtain as where as: "ancestry ?H z as" using wf_tree_ancestry [OF tree, of z] xz(1) by auto
    have h: "\<forall>p \<in> set (pl (o_propdefs xz)). pd_hash p = str_hash (pd_name p)"
      using wf_propsD [OF wf_objectsD(3) [OF wf] xz(1) as] by (simp add: wf_prop_def)
    have child: "o_child xz = (case ws of [] \<Rightarrow> NOTHING | w # _ \<Rightarrow> w)"
      using xz(2) by (cases ws) auto
    have here: "find_def name (str_hash name) (pl (o_propdefs xz)) 0 \<noteq> None \<longleftrightarrow>
        has_def ?H name z"
      using xz(1) find_def_eq [OF h, of name 0] by (auto simp: index_of_None has_def_def)
    have sib: "o_sibling xz = (case zs of [] \<Rightarrow> NOTHING | z # _ \<Rightarrow> z)"
      using next_sibling [OF 2(1) xz(1)] .
    have "?D (z # zs) \<longleftrightarrow> (\<exists>d. desc ?H z d \<and> has_def ?H name d) \<or> ?D zs" by auto
    moreover have "(\<exists>d. desc ?H z d \<and> has_def ?H name d) \<longleftrightarrow> has_def ?H name z \<or> ?D ws"
      unfolding desc_unfold [OF tree 2(3)] by blast
    ultimately have D: "?D (z # zs) \<longleftrightarrow> has_def ?H name z \<or> ?D ws \<or> ?D zs" by blast
    show ?case
      using xz(1) zN here 2(4,5) D unfolding child [symmetric] sib [symmetric]
      by (subst list.case, subst defined_below_loop.simps) (simp add: wf_table_find [OF wft], blast)
  qed
qed

lemma defined_at_or_below_eq:
  assumes wf: "wf_objects db" and x: "objects db i = Some x"
  shows "property_defined_at_or_below db name (str_hash name) i =
    Some (\<exists>d. desc (objects db) i d \<and> has_def (objects db) name d)"
proof -
  let ?H = "objects db"
  note tree = wf_objectsD(2) [OF wf]
  obtain ws where ws: "children ?H i ws" using wf_tree_children [OF tree, of i] x by auto
  then have child: "o_child x = (case ws of [] \<Rightarrow> NOTHING | w # _ \<Rightarrow> w)"
    using x by (cases ws) (auto simp: listed_def)
  obtain as where as: "ancestry ?H i as" using wf_tree_ancestry [OF tree, of i] x by auto
  have h: "\<forall>p \<in> set (pl (o_propdefs x)). pd_hash p = str_hash (pd_name p)"
    using wf_propsD [OF wf_objectsD(3) [OF wf] x as] by (simp add: wf_prop_def)
  have here: "find_def name (str_hash name) (pl (o_propdefs x)) 0 \<noteq> None \<longleftrightarrow>
      has_def ?H name i"
    using x find_def_eq [OF h, of name 0] by (auto simp: index_of_None has_def_def)
  show ?thesis
    using here defined_below_eq [OF wf, of i "[]" ws name] ws child x
    unfolding desc_unfold [OF tree ws] by (auto simp: property_defined_at_or_below_def wf_table_find [OF wf_objectsD(1) [OF wf]])
qed

end
