(* ===== verification/Property_Changes.thy ===== *)
theory Property_Changes
  imports Property_Laws
begin

text \<open>
  Adding, deleting and renaming a property: the recursions over the descendants of the definer
  shift every \<^verbatim>\<open>propval\<close> array by one slot at the right place. \<open>slot_pos\<close> is that place; the
  lemmas show that the numbers the code passes down are these, that no access leaves an
  array, that the invariant is kept and what happens to the abstract slots.
\<close>

section \<open>Shared facts\<close>

text \<open>Only the property fields of objects change.\<close>

definition no_props :: "obj \<Rightarrow> obj" where
  "no_props x = x\<lparr>o_propdefs := \<lparr>max_length = 0, pl = []\<rparr>, o_propval := [], o_waif_propdefs := None\<rparr>"

definition props_only :: "db \<Rightarrow> db \<Rightarrow> bool" where
  "props_only db db' \<longleftrightarrow>
     db' = db\<lparr>objects := objects db'\<rparr> \<and> field no_props (objects db') = field no_props (objects db)"

lemma no_props_fields [simp]:
  "o_id (no_props x) = o_id x" "o_owner (no_props x) = o_owner x" "o_location (no_props x) = o_location x"
  "o_contents (no_props x) = o_contents x" "o_next (no_props x) = o_next x" "o_parent (no_props x) = o_parent x"
  "o_child (no_props x) = o_child x" "o_sibling (no_props x) = o_sibling x" "o_name (no_props x) = o_name x"
  "o_flags (no_props x) = o_flags x" "o_verbdefs (no_props x) = o_verbdefs x"
  by (simp_all add: no_props_def)

lemma props_only_refl [simp]: "props_only db db"
  by (simp add: props_only_def)

lemma props_only_trans: "props_only a b \<Longrightarrow> props_only b c \<Longrightarrow> props_only a c"
  unfolding props_only_def by (metis db.surjective db.update_convs(1))

lemma props_only_field:
  assumes "props_only db db'" "\<And>x. f (no_props x) = f x"
  shows "field f (objects db') = field f (objects db)"
proof
  fix i
  have "field no_props (objects db') i = field no_props (objects db) i"
    using assms(1) by (simp add: props_only_def)
  then have "map_option f (map_option no_props (objects db' i)) = map_option f (map_option no_props (objects db i))"
    by (simp add: field_def)
  then show "field f (objects db') i = field f (objects db) i"
    using assms(2) by (simp add: option.map_comp comp_def field_def)
qed

lemma props_only_None: "props_only db db' \<Longrightarrow> objects db' i = None \<longleftrightarrow> objects db i = None"
  using props_only_field [of db db' o_id] by (metis field_eq_None no_props_fields(1))

lemma props_only_same_tree: "props_only db db' \<Longrightarrow> same_tree db db'"
  by (simp add: same_tree_def props_only_field) (metis db.select_convs(2) db.surjective db.update_convs(1) props_only_def)

lemma props_only_upd:
  assumes "objects db i = Some x" "no_props y = no_props x"
  shows "props_only db (db\<lparr>objects := (objects db)(i \<mapsto> y)\<rparr>)"
  using assms field_Some [of "objects db" i x no_props] by (simp add: props_only_def fun_upd_idem)

lemma props_only_apply_at: "(\<And>d x. no_props (g d x) = no_props x) \<Longrightarrow> props_only db (apply_at g S db)"
  using apply_at_field [of no_props g S db] by (simp add: props_only_def apply_at_def)

lemma props_only_wf:
  assumes "props_only db db'" "wf_table db" "wf_tree (objects db)"
  shows "wf_table db'" "wf_tree (objects db')"
proof -
  note f = props_only_field [OF assms(1)]
  show "wf_tree (objects db')" by (rule wf_tree_same [OF assms(3)]) (simp_all add: f)
  have n: "num_objects db' = num_objects db" "max_objects db' = max_objects db"
    using assms(1) unfolding props_only_def by (metis db.select_convs db.surjective db.update_convs(1))+
  have "\<exists>y. objects db i = Some y \<and> o_id y = o_id x" if "objects db' i = Some x" for i x
    using fun_cong [OF f [of o_id], of i] that
    by (cases "objects db i") (auto simp: field_def)
  then show "wf_table db'" using assms(2) n unfolding wf_table_def by metis
qed

lemma keeps_tree_no_props: "(\<And>d x. no_props (g d x) = no_props x) \<Longrightarrow> keeps_tree g"
  unfolding keeps_tree_def by (metis no_props_fields)

lemma visible_apply_at:
  "(\<And>d x. o_propdefs (g d x) = o_propdefs x) \<Longrightarrow>
   visible (objects (apply_at g S db)) xs = visible (objects db) xs"
  by (rule visible_cong) (auto simp: defs_at_def apply_at_objects split: option.splits)

section \<open>Positions\<close>

definition slot_pos :: "heap \<Rightarrow> Objid \<Rightarrow> nat \<Rightarrow> Objid \<Rightarrow> nat" where
  "slot_pos H r n d = length (visible H (takeWhile (\<lambda>j. j \<noteq> r) (the (ll_members o_parent d H)))) + n"

lemma slot_pos_eq:
  "ancestry H d xs \<Longrightarrow> slot_pos H r n d = length (visible H (takeWhile (\<lambda>j. j \<noteq> r) xs)) + n"
  by (simp add: slot_pos_def ll_members_links)

lemma slot_pos_root:
  assumes "wf_tree H" "H r \<noteq> None"
  shows "slot_pos H r n r = n"
proof -
  obtain xs where xs: "ancestry H r xs" using wf_tree_ancestry [OF assms] .
  then have "takeWhile (\<lambda>j. j \<noteq> r) xs = []" by (cases xs) auto
  then show ?thesis by (simp add: slot_pos_eq [OF xs])
qed

lemma desc_parent:
  assumes "desc H r c" "c \<noteq> r" "field o_parent H c = Some p"
  shows "desc H r p"
proof -
  obtain xs where "ancestry H c xs" "r \<in> set xs" using assms(1) by (auto simp: desc_def)
  then show ?thesis using assms(2,3) unfolding desc_def by (cases xs) auto
qed

lemma slot_pos_child:
  assumes "wf_tree H" "desc H r c" "c \<noteq> r" "H c = Some y" "o_parent y = p"
  shows "slot_pos H r n c = cur_length (o_propdefs y) + slot_pos H r n p"
proof -
  obtain ps where ps: "ancestry H p ps"
    using desc_parent [OF assms(2,3), of p] assms(4,5) by (auto simp: field_def desc_def)
  have "c \<noteq> NOTHING" using assms(1,4) wf_treeD(3) by fastforce
  then have cs: "ancestry H c (c # ps)" using ps assms(4,5) by (auto simp: field_def)
  show ?thesis using assms(3,4) by (simp add: slot_pos_eq [OF ps] slot_pos_eq [OF cs])
qed

text \<open>The chain of a descendant splits at the definer.\<close>

lemma desc_split:
  assumes "ancestry H d xs" "desc H r d"
  obtains bs where "xs = takeWhile (\<lambda>j. j \<noteq> r) xs @ r # bs" "ancestry H r (r # bs)"
    "r \<notin> set (takeWhile (\<lambda>j. j \<noteq> r) xs)"
proof -
  have "r \<in> set xs" using assms links_unique by (auto simp: desc_def)
  then obtain as bs where split: "xs = as @ r # bs" "r \<notin> set as" by (meson split_list_first)
  have as: "takeWhile (\<lambda>j. j \<noteq> r) xs = as" using split(2) unfolding split(1) by (induction as) auto
  have "ancestry H r (r # bs)" using assms(1) unfolding split(1) by (rule links_tail)
  then show ?thesis using that split as by simp
qed

lemma below_desc:
  assumes "ancestry H d xs" "desc H r d" "j \<in> set (takeWhile (\<lambda>j. j \<noteq> r) xs)"
  shows "desc H r j"
proof -
  obtain bs where xs: "xs = takeWhile (\<lambda>j. j \<noteq> r) xs @ r # bs" using desc_split [OF assms(1,2)] .
  obtain us vs where us: "takeWhile (\<lambda>j. j \<noteq> r) xs = us @ j # vs" using split_list [OF assms(3)] by blast
  have "ancestry H d (us @ j # vs @ r # bs)" using assms(1) xs us by simp
  then have "ancestry H j (j # vs @ r # bs)" by (rule links_tail)
  then show ?thesis unfolding desc_def by (intro exI [of _ "j # vs @ r # bs"]) simp
qed

section \<open>The insertion\<close>

definition chown :: "obj \<Rightarrow> pval \<Rightarrow> pval" where
  "chown x pv = (if p_perms pv AND PF_CHOWN \<noteq> 0 then pv\<lparr>p_owner := o_owner x\<rparr> else pv)"

definition insert_slot :: "heap \<Rightarrow> Objid \<Rightarrow> nat \<Rightarrow> pval \<Rightarrow> Objid \<Rightarrow> obj \<Rightarrow> obj" where
  "insert_slot H r n pv d x =
     x\<lparr>o_waif_propdefs := None,
       o_propval := take (slot_pos H r n d) (o_propval x)
         @ chown x (if d = r then pv else pv\<lparr>p_var := TYPE_CLEAR\<rparr>) # drop (slot_pos H r n d) (o_propval x)\<rparr>"

lemma insert_slot_no_props [simp]: "no_props (insert_slot H r n pv d x) = no_props x"
  by (simp add: insert_slot_def no_props_def)

lemma insert_slot_propdefs [simp]: "o_propdefs (insert_slot H r n pv d x) = o_propdefs x"
  by (simp add: insert_slot_def)

lemma insert_prop_step:
  assumes wft: "wf_table db" and tree: "wf_tree (objects db)"
    and c: "objects db c = Some x" "c \<notin> S" "ancestry (objects db) c xs"
    and len: "length (visible (objects db) xs) = Suc (length (o_propval x))"
      "slot_pos (objects db) r n c \<le> length (o_propval x)"
    and pv: "pv' = (if c = r then pv else pv\<lparr>p_var := TYPE_CLEAR\<rparr>)"
  shows "insert_prop (apply_at (insert_slot (objects db) r n pv) S db) c (slot_pos (objects db) r n c) pv' =
    Some (apply_at (insert_slot (objects db) r n pv) (insert c S) db)"
proof -
  let ?g = "insert_slot (objects db) r n pv"
  let ?db = "apply_at ?g S db" and ?p = "slot_pos (objects db) r n c"
  have k: "keeps_tree ?g" by (rule keeps_tree_no_props) simp
  have wf1: "wf_table ?db" by (rule wf_table_apply_at [OF k wft])
  have "field o_parent (objects ?db) = field o_parent (objects db)"
    using same_tree_apply_at [OF k] by (simp add: same_tree_def)
  then have "ancestry (objects ?db) c xs" using c(3) by simp
  then have cnt: "dbpriv_count_properties ?db c = Some (Suc (length (o_propval x)))"
    using count_properties_eq [OF wf1] len(1) by (simp add: visible_apply_at)
  have obj: "objects ?db c = Some x" using c by (simp add: apply_at_objects)
  have "insert_prop ?db c ?p pv' = Some (?db\<lparr>objects := (objects ?db)(c \<mapsto> ?g c x)\<rparr>)"
    using len(2) pv obj cnt wf_table_find [OF wf1]
    by (simp add: insert_prop_def upd_db_def insert_slot_def chown_def)
  then show ?thesis using apply_at_insert [OF c(1,2), of ?g] by simp
qed

lemma insert_prop_recursively_eq:
  assumes wft: "wf_table db" and tree: "wf_tree (objects db)" and r: "objects db r \<noteq> None"
    and len: "\<And>d x xs. desc (objects db) r d \<Longrightarrow> objects db d = Some x \<Longrightarrow> ancestry (objects db) d xs \<Longrightarrow>
      length (visible (objects db) xs) = Suc (length (o_propval x)) \<and>
      slot_pos (objects db) r n d \<le> length (o_propval x)"
  shows "insert_prop_recursively db r n pv =
    Some (apply_at (insert_slot (objects db) r n pv) {d. desc (objects db) r d} db)"
proof -
  let ?H = "objects db"
  let ?g = "insert_slot ?H r n pv"
  let ?ctx = "\<lambda>d. (slot_pos ?H r n d, pv\<lparr>p_var := TYPE_CLEAR\<rparr>)"
  have k: "keeps_tree ?g" by (rule keeps_tree_no_props) simp
  have step: "insert_prop (apply_at ?g S db) c (slot_pos ?H r n c) (if c = r then pv else pv\<lparr>p_var := TYPE_CLEAR\<rparr>)
      = Some (apply_at ?g (insert c S) db)" if c: "c \<notin> S" "desc ?H r c" for S c
  proof -
    obtain x where x: "?H c = Some x" using desc_dom(2) [OF c(2)] by auto
    obtain xs where xs: "ancestry ?H c xs" using c(2) by (auto simp: desc_def)
    show ?thesis using insert_prop_step [OF wft tree x c(1) xs] len [OF c(2) x xs] by blast
  qed
  obtain x where x: "?H r = Some x" using r by blast
  have first: "insert_prop db r n pv = Some (apply_at ?g {r} db)"
    using step [of r "{}"] desc_refl [OF tree r] slot_pos_root [OF tree r] by simp
  have "walk insert_prop_visit (?ctx r) (o_child x) (apply_at ?g {r} db) = Some (apply_at ?g {d. desc ?H r d} db)"
  proof (rule walk_apply_at [where ctx = ?ctx, OF wft tree x k])
    fix S c p
    assume c: "c \<notin> S" "p \<in> S" "field o_parent ?H c = Some p" "desc ?H r c" "c \<noteq> r"
    obtain y where y: "?H c = Some y" "o_parent y = p" using c(3) by (auto simp: field_eq_Some)
    have "dbpriv_find_object (apply_at ?g S db) c = Some y"
      using wf_table_find [OF wf_table_apply_at [OF k wft]] y c(1) by (simp add: apply_at_objects)
    then show "insert_prop_visit c (?ctx p) (apply_at ?g S db) = Some (?ctx c, apply_at ?g (insert c S) db)"
      using step [OF c(1,4)] slot_pos_child [OF tree c(4,5) y] c(5)
      by (simp add: insert_prop_visit_def Let_def)
  qed
  moreover have "dbpriv_find_object (apply_at ?g {r} db) r = Some (?g r x)"
    using wf_table_find [OF wf_table_apply_at [OF k wft]] x by (simp add: apply_at_objects)
  ultimately show ?thesis
    using first slot_pos_root [OF tree r] by (simp add: insert_prop_recursively_def insert_slot_def)
qed

section \<open>Adding a property\<close>

lemma map_of_insert_mid:
  "map_of a k = None \<Longrightarrow> map_of (a @ (k, v) # b) = (map_of (a @ b))(k \<mapsto> v)"
  by (auto simp: fun_eq_iff map_add_def split: option.splits)

lemma map_of_zip_insert:
  assumes len: "length ks = length vs" and "k \<notin> set ks"
  shows "map_of (zip (take p ks @ k # drop p ks) (take p vs @ v # drop p vs)) = (map_of (zip ks vs))(k \<mapsto> v)"
proof -
  have "zip (take p ks @ k # drop p ks) (take p vs @ v # drop p vs) =
      take p (zip ks vs) @ (k, v) # drop p (zip ks vs)"
    using len by (simp add: take_zip drop_zip)
  moreover have "k \<notin> fst ` set (take p (zip ks vs))"
    using assms(2) by (auto dest!: in_set_takeD set_zip_leftD)
  ultimately show ?thesis
    using map_of_insert_mid [of "take p (zip ks vs)" k v "drop p (zip ks vs)"]
    by (simp add: map_of_eq_None_iff)
qed

text \<open>One more definition on \<open>r\<close>, seen from an object whose chain runs through \<open>r\<close>.\<close>

lemma visible_add:
  assumes "ancestry H d xs" "desc H r d" "H r = Some x" "pl ps = pl (o_propdefs x) @ [nd]"
    and "p = slot_pos H r (cur_length (o_propdefs x)) d"
  shows "visible (H(r \<mapsto> x\<lparr>o_propdefs := ps\<rparr>)) xs = take p (visible H xs) @ (r, nd) # drop p (visible H xs)"
    and "p \<le> length (visible H xs)"
proof -
  obtain bs where bs: "xs = takeWhile (\<lambda>j. j \<noteq> r) xs @ r # bs" "r \<notin> set (takeWhile (\<lambda>j. j \<noteq> r) xs)"
      "ancestry H r (r # bs)"
    using desc_split [OF assms(1,2)] by metis
  define as where "as = takeWhile (\<lambda>j. j \<noteq> r) xs"
  have xs: "xs = as @ r # bs" "r \<notin> set as" "r \<notin> set bs"
    using bs links_acyclic by (auto simp: as_def)
  let ?H = "H(r \<mapsto> x\<lparr>o_propdefs := ps\<rparr>)"
  have same: "visible ?H ys = visible H ys" if "r \<notin> set ys" for ys
    using that by (intro visible_cong) (auto simp: defs_at_def)
  have p: "p = length (visible H as @ defs_at H r)"
    using assms(3,5) slot_pos_eq [OF assms(1)] by (simp add: as_def)
  have "visible ?H xs = (visible H as @ defs_at H r) @ (r, nd) # visible H bs"
    using assms(3,4) by (simp add: xs(1) same [OF xs(2)] same [OF xs(3)] defs_at_def)
  moreover have "visible H xs = (visible H as @ defs_at H r) @ visible H bs" by (simp add: xs(1))
  ultimately show "visible ?H xs = take p (visible H xs) @ (r, nd) # drop p (visible H xs)"
    and "p \<le> length (visible H xs)" unfolding p by simp_all
qed

lemma visible_not_below:
  assumes "ancestry H d xs" "\<not> desc H r d"
  shows "visible (H(r := v)) xs = visible H xs"
  using assms by (intro visible_cong) (auto simp: defs_at_def desc_def)

lemma add_def_props:
  "pl (add_def p ps) = pl ps @ [p]"
  "int (cur_length ps) \<le> max_length ps \<Longrightarrow> int (cur_length (add_def p ps)) \<le> max_length (add_def p ps)"
  by (auto simp: add_def_def)

text \<open>The names that clash with a new property on \<open>r\<close>.\<close>

definition name_taken :: "heap \<Rightarrow> Objid \<Rightarrow> string \<Rightarrow> bool" where
  "name_taken H r name \<longleftrightarrow>
     builtin_name name \<or> (\<exists>d. (desc H r d \<or> desc H d r) \<and> has_def H name d)"

lemma has_def_visible:
  "(\<exists>k \<in> set (visible H xs). key_name k = folded name) \<longleftrightarrow> (\<exists>d \<in> set xs. has_def H name d)"
  by (auto simp: visible_def has_def_def)

lemma name_free_visible:
  assumes "\<not> name_taken H r name" "ancestry H d xs" "desc H r d" "k \<in> set (visible H xs)"
  shows "key_name k \<noteq> folded name"
proof
  assume "key_name k = folded name"
  then obtain j where j: "j \<in> set xs" "has_def H name j"
    using assms(4) has_def_visible by blast
  obtain bs where bs: "xs = takeWhile (\<lambda>j. j \<noteq> r) xs @ r # bs" "ancestry H r (r # bs)"
    using desc_split [OF assms(2,3)] by metis
  have "desc H r j \<or> desc H j r"
  proof (cases "j \<in> set (takeWhile (\<lambda>j. j \<noteq> r) xs)")
    case True
    then show ?thesis using below_desc [OF assms(2,3)] by blast
  next
    case False
    then have "j \<in> set (r # bs)" using j(1) bs(1) by (metis Un_iff set_append)
    then show ?thesis using bs(2) unfolding desc_def by blast
  qed
  then show False using assms(1) j(2) by (auto simp: name_taken_def)
qed

lemma find_property_taken:
  assumes wf: "wf_objects db" and x: "objects db r = Some x"
  shows "\<exists>h v. db_find_property db r name False = Some (h, v) \<and>
    (ptr h \<noteq> Null_prop \<longleftrightarrow> builtin_name name \<or> (\<exists>d. desc (objects db) d r \<and> has_def (objects db) name d))"
proof (cases "builtin_name name")
  case True
  then have "find (\<lambda>(n, _). str_hash n = str_hash name \<and> mystrcasecmp name n = 0) ptable \<noteq> None"
    using ptable_hit by blast
  then show ?thesis using True by (auto simp: db_find_property_def)
next
  case False
  obtain xs where xs: "ancestry (objects db) r xs"
    using wf_tree_ancestry [OF wf_objectsD(2) [OF wf], of r] x by auto
  have D: "dom (pslot (objects db) r) = set (visible (objects db) xs)"
    using dom_pslot [OF wf_propsD [OF wf_objectsD(3) [OF wf] x xs] x xs] .
  have up: "desc (objects db) d r \<longleftrightarrow> d \<in> set xs" for d
    using xs links_unique by (auto simp: desc_def)
  show ?thesis
  proof (cases "\<exists>k \<in> dom (pslot (objects db) r). key_name k = folded name")
    case True
    then obtain k where k: "k \<in> dom (pslot (objects db) r)" "key_name k = folded name" by blast
    then have "\<exists>d \<in> set xs. has_def (objects db) name d" using D has_def_visible by metis
    then show ?thesis using find_property_eq(2) [OF wf x xs False k, of False] up by auto
  next
    case nok: False
    then have "\<not> (\<exists>d \<in> set xs. has_def (objects db) name d)" using D has_def_visible by metis
    then show ?thesis using find_property_eq(1) [OF wf x xs False, of False] nok False up by auto
  qed
qed

lemma taken_check:
  assumes wf: "wf_objects db" and x: "objects db r = Some x"
  shows "\<exists>h v. db_find_property db r name False = Some (h, v) \<and>
    (if ptr h \<noteq> Null_prop then Some True else property_defined_at_or_below db name (str_hash name) r) =
    Some (name_taken (objects db) r name)"
proof -
  obtain h v where hv: "db_find_property db r name False = Some (h, v)"
    "ptr h \<noteq> Null_prop \<longleftrightarrow> builtin_name name \<or> (\<exists>d. desc (objects db) d r \<and> has_def (objects db) name d)"
    using find_property_taken [OF wf x] by blast
  have "(if ptr h \<noteq> Null_prop then Some True else property_defined_at_or_below db name (str_hash name) r) =
    Some (name_taken (objects db) r name)"
    using hv(2) defined_at_or_below_eq [OF wf x, of name] unfolding name_taken_def by auto
  then show ?thesis using hv(1) by blast
qed

lemma slot_pos_upd:
  assumes "H r = Some x" "o_parent y = o_parent x" "ancestry H d xs"
  shows "slot_pos (H(r \<mapsto> y)) r n d = slot_pos H r n d"
proof -
  have "field o_parent (H(r \<mapsto> y)) = field o_parent H"
    using assms(1,2) by (auto simp: fun_eq_iff field_def)
  then have a: "ancestry (H(r \<mapsto> y)) d xs" using assms(3) by simp
  have "visible (H(r \<mapsto> y)) (takeWhile (\<lambda>j. j \<noteq> r) xs) = visible H (takeWhile (\<lambda>j. j \<noteq> r) xs)"
    by (intro visible_cong) (auto simp: defs_at_def dest: set_takeWhileD)
  then show ?thesis by (simp add: slot_pos_eq [OF a] slot_pos_eq [OF assms(3)])
qed

lemma slot_pos_own:
  assumes "ancestry H d xs" "desc H r d" "d \<noteq> r" "H d = Some y"
  shows "cur_length (o_propdefs y) \<le> slot_pos H r n d"
proof -
  have "r \<in> set xs" using assms(1,2) links_unique by (auto simp: desc_def)
  then show ?thesis using assms(1,3,4) by (cases xs) (auto simp: slot_pos_eq [OF assms(1)])
qed

lemma distinct_insert_mid:
  assumes "distinct xs" "a \<notin> set xs"
  shows "distinct (take p xs @ a # drop p xs)"
  using assms set_take_disj_set_drop_if_distinct [of xs p p]
  by (auto dest: in_set_takeD in_set_dropD)

text \<open>The invariant of one object after its array was widened.\<close>

lemma wf_prop_insert:
  assumes wfp: "wf_prop H y xs" and y: "H d = Some y" "ancestry H d xs" and d: "desc H r d"
    and r: "H r = Some x" and free: "\<not> name_taken H r name" and ok: "p_var pv \<noteq> TYPE_CLEAR"
    and ps: "ps = add_def (dbpriv_new_propdef name) (o_propdefs x)"
    and n: "n = cur_length (o_propdefs x)"
    and V: "visible H2 xs = visible (H(r \<mapsto> x\<lparr>o_propdefs := ps\<rparr>)) xs"
    and y2: "y2 = insert_slot H r n pv d (if d = r then y\<lparr>o_propdefs := ps\<rparr> else y)"
  shows "wf_prop H2 y2 xs"
proof -
  let ?p = "slot_pos H r n d" and ?nd = "dbpriv_new_propdef name"
  note va = visible_add [OF y(2) d r, of ps ?nd ?p]
  have vis: "visible H2 xs = take ?p (visible H xs) @ (r, ?nd) # drop ?p (visible H xs)"
      "?p \<le> length (visible H xs)"
    using va V n ps by (simp_all add: add_def_props)
  have len: "length (o_propval y) = length (visible H xs)" using wfp by (simp add: wf_prop_def)
  have key: "key_name (r, ?nd) = folded name" by (simp add: dbpriv_new_propdef_def)
  have "distinct (map key_name (visible H2 xs))"
  proof -
    have "distinct (map key_name (visible H xs))" using wfp by (simp add: wf_prop_def)
    moreover have "folded name \<notin> set (map key_name (visible H xs))"
      using name_free_visible [OF free y(2) d, THEN not_sym] unfolding set_map by blast
    ultimately show ?thesis
      using distinct_insert_mid [of "map key_name (visible H xs)" "folded name" ?p]
      by (simp add: vis(1) key [simplified] take_map drop_map del: distinct_append)
  qed
  moreover have "length (o_propval y2) = length (visible H2 xs)"
    using len vis by (cases "d = r") (simp_all add: y2 insert_slot_def)
  moreover have "p_var (o_propval y2 ! m) \<noteq> TYPE_CLEAR" if m: "m < cur_length (o_propdefs y2)" for m
  proof -
    have own: "\<forall>m < cur_length (o_propdefs y). p_var (o_propval y ! m) \<noteq> TYPE_CLEAR"
      using wfp by (simp add: wf_prop_def)
    show ?thesis
    proof (cases "d = r")
      case True
      have yx: "y = x" using True r y(1) by simp
      then have p: "?p = n" using slot_pos_eq [OF y(2)] True y(2) by (cases xs) auto
      have "n \<le> length (o_propval y)" using vis(2) len p by simp
      moreover have "m < n \<or> m = n" using m True yx n by (auto simp: y2 ps add_def_props)
      ultimately show ?thesis
        using own True ok p yx n by (auto simp: y2 insert_slot_def nth_append chown_def)
    next
      case False
      then have "m < ?p" "m < cur_length (o_propdefs y)"
        using m slot_pos_own [OF y(2) d False y(1), of n] by (auto simp: y2)
      then show ?thesis using own len vis(2) False by (simp add: y2 insert_slot_def nth_append)
    qed
  qed
  moreover have "pd_hash q = str_hash (pd_name q) \<and> \<not> builtin_name (pd_name q)"
    if "q \<in> set (pl (o_propdefs y2))" for q
  proof -
    have "q \<in> set (pl (o_propdefs y)) \<or> q = ?nd"
      using that r y(1) by (cases "d = r") (auto simp: y2 ps add_def_props)
    moreover have "\<not> builtin_name name" using free by (simp add: name_taken_def)
    ultimately show ?thesis using wfp by (auto simp: wf_prop_def dbpriv_new_propdef_def)
  qed
  moreover have "int (cur_length (o_propdefs y2)) \<le> max_length (o_propdefs y2)"
    using wfp r y(1) add_def_props(2) [of "o_propdefs x"]
    by (cases "d = r") (simp_all add: y2 ps wf_prop_def)
  moreover have "o_waif_propdefs y2 = None" by (simp add: y2 insert_slot_def)
  ultimately show ?thesis unfolding wf_prop_def by simp
qed

lemma add_propdef_free:
  assumes wf: "wf_objects db" and x: "objects db r = Some x" and ok: "value \<noteq> TYPE_CLEAR"
    and free: "\<not> name_taken (objects db) r name"
  shows "\<exists>db'. db_add_propdef db r name value owner flags = Some (True, db') \<and>
    wf_objects db' \<and> props_only db db' \<and>
    (\<forall>d. pslot (objects db') d =
       (if desc (objects db) r d
        then (pslot (objects db) d)((r, dbpriv_new_propdef name) \<mapsto>
          chown (the (objects db d))
            \<lparr>p_var = (if d = r then value else TYPE_CLEAR), p_owner = owner, p_perms = flags\<rparr>)
        else pslot (objects db) d))"
proof -
  let ?H = "objects db" and ?nd = "dbpriv_new_propdef name"
  let ?ps = "add_def ?nd (o_propdefs x)" and ?n = "cur_length (o_propdefs x)"
  let ?pv = "\<lparr>p_var = value, p_owner = owner, p_perms = flags\<rparr>"
  define db1 where "db1 = db\<lparr>objects := ?H(r \<mapsto> x\<lparr>o_propdefs := ?ps\<rparr>)\<rparr>"
  have po1: "props_only db db1"
    unfolding db1_def by (rule props_only_upd [OF x]) (simp add: no_props_def)
  note wf1 = props_only_wf [OF po1 wf_objectsD(1,2) [OF wf]]
  have par: "field o_parent (objects db1) = field o_parent ?H" by (rule props_only_field [OF po1]) simp
  have anc: "ancestry (objects db1) = ancestry ?H" using par by simp
  have de: "desc (objects db1) = desc ?H" by (rule desc_same [OF par])
  have pos: "slot_pos (objects db1) r ?n d = slot_pos ?H r ?n d" if "ancestry ?H d xs" for d xs
    using slot_pos_upd [OF x _ that] by (simp add: db1_def)
  let ?g = "insert_slot (objects db1) r ?n ?pv"
  define db2 where "db2 = apply_at ?g {d. desc ?H r d} db1"
  have run: "insert_prop_recursively db1 r ?n ?pv = Some db2"
    unfolding db2_def de [symmetric]
  proof (rule insert_prop_recursively_eq [OF wf1])
    show "objects db1 r \<noteq> None" by (simp add: db1_def)
    fix d y xs
    assume d: "desc (objects db1) r d" "objects db1 d = Some y" "ancestry (objects db1) d xs"
    obtain y0 where y0: "?H d = Some y0" "o_propval y0 = o_propval y"
      using d(2) x by (auto simp: db1_def split: if_splits)
    have wfp: "wf_prop ?H y0 xs" using wf_propsD [OF wf_objectsD(3) [OF wf] y0(1)] d(3) anc by simp
    show "length (visible (objects db1) xs) = Suc (length (o_propval y)) \<and>
        slot_pos (objects db1) r ?n d \<le> length (o_propval y)"
      using visible_add [OF d(3) [unfolded anc] d(1) [unfolded de] x, of ?ps ?nd] wfp y0(2)
        pos [OF d(3) [unfolded anc]]
      by (simp add: db1_def add_def_props wf_prop_def)
  qed
  have po2: "props_only db db2"
    using props_only_trans [OF po1] props_only_apply_at [where g = ?g and db = db1 and S = "{d. desc ?H r d}"]
    by (simp add: db2_def)
  have anc2: "ancestry (objects db2) = ancestry ?H" using props_only_field [OF po2, of o_parent] by simp
  have vis2: "visible (objects db2) xs = visible (objects db1) xs" for xs
    unfolding db2_def by (rule visible_apply_at) simp
  have obj: "objects db2 d = Some (insert_slot ?H r ?n ?pv d (if d = r then y\<lparr>o_propdefs := ?ps\<rparr> else y))"
    if d: "?H d = Some y" "ancestry ?H d xs" "desc ?H r d" for d y xs
    using d x pos [OF d(2)] by (auto simp: db2_def apply_at_objects db1_def insert_slot_def)
  have other: "objects db2 d = ?H d" if "\<not> desc ?H r d" for d
  proof -
    have "d \<noteq> r" using that desc_refl [OF wf_objectsD(2) [OF wf]] x by auto
    then show ?thesis using that by (simp add: db2_def apply_at_objects db1_def)
  qed
  have slots: "wf_prop (objects db2) y2 xs \<and> pslot (objects db2) d =
       (if desc ?H r d then (pslot ?H d)((r, ?nd) \<mapsto> chown (the (?H d)) (?pv\<lparr>p_var := (if d = r then value else TYPE_CLEAR)\<rparr>))
        else pslot ?H d)" if d: "objects db2 d = Some y2" "ancestry ?H d xs" for d y2 xs
  proof (cases "desc ?H r d")
    case True
    obtain y where y: "?H d = Some y" using desc_dom(2) [OF True] by auto
    have y2: "y2 = insert_slot ?H r ?n ?pv d (if d = r then y\<lparr>o_propdefs := ?ps\<rparr> else y)"
      using obj [OF y d(2) True] d(1) by simp
    note wfp = wf_propsD [OF wf_objectsD(3) [OF wf] y d(2)]
    have "wf_prop (objects db2) y2 xs"
      using wf_prop_insert [OF wfp y d(2) True x free, of ?pv ?ps ?n "objects db2" y2] ok y2 vis2
      by (simp add: db1_def)
    moreover have "(r, ?nd) \<notin> set (visible ?H xs)"
      using name_free_visible [OF free d(2) True] by (force simp: dbpriv_new_propdef_def)
    then have "pslot (objects db2) d = (pslot ?H d)((r, ?nd) \<mapsto> chown y (?pv\<lparr>p_var := (if d = r then value else TYPE_CLEAR)\<rparr>))"
      using pslot_eq [of "objects db2" d y2 xs] d pslot_eq [OF y d(2)] wfp anc2
        visible_add(1) [OF d(2) True x, of ?ps ?nd] vis2 map_of_zip_insert [of "visible ?H xs" "o_propval y"]
      by (auto simp: y2 insert_slot_def db1_def add_def_props wf_prop_def chown_def)
    ultimately show ?thesis using True y by simp
  next
    case False
    have y: "?H d = Some y2" using other [OF False] d(1) by simp
    have "visible (objects db2) xs = visible ?H xs"
      using visible_not_below [OF d(2) False] vis2 by (simp add: db1_def)
    then show ?thesis
      using wf_propsD [OF wf_objectsD(3) [OF wf] y d(2)] False pslot_eq [OF y d(2)]
        pslot_eq [of "objects db2" d y2 xs] d anc2 by (simp add: wf_prop_def)
  qed
  have "wf_objects db2"
    using props_only_wf [OF po2 wf_objectsD(1,2) [OF wf]] slots anc2
    unfolding wf_objects_def wf_props_def by simp
  moreover have "pslot (objects db2) d =
       (if desc ?H r d then (pslot ?H d)((r, ?nd) \<mapsto> chown (the (?H d)) (?pv\<lparr>p_var := (if d = r then value else TYPE_CLEAR)\<rparr>))
        else pslot ?H d)" for d
  proof (cases "objects db2 d")
    case None
    then have "?H d = None" using props_only_None [OF po2] by simp
    then show ?thesis using None desc_dom(2) [of ?H r d] by (auto simp: pslot_None)
  next
    case (Some y2)
    then have "?H d \<noteq> None" using props_only_None [OF po2, of d] by simp
    then obtain xs where "ancestry ?H d xs" using wf_tree_ancestry [OF wf_objectsD(2) [OF wf]] by blast
    then show ?thesis using slots [OF Some] by blast
  qed
  moreover have "db_add_propdef db r name value owner flags = Some (True, db2)"
  proof -
    obtain h v where hv: "db_find_property db r name False = Some (h, v)"
      "(if ptr h \<noteq> Null_prop then Some True else property_defined_at_or_below db name (str_hash name) r) = Some False"
      using taken_check [OF wf x, of name] free by auto
    have "upd_db r (\<lambda>x. x\<lparr>o_propdefs := add_def ?nd (o_propdefs x)\<rparr>) db = Some db1"
      using x by (simp add: upd_db_def db1_def)
    moreover have "dbpriv_find_object db1 r = Some (x\<lparr>o_propdefs := ?ps\<rparr>)"
      using wf_table_find [OF wf1(1)] by (simp add: db1_def)
    ultimately show ?thesis
      using hv(1) run unfolding db_add_propdef_def hv(2)
      by (simp add: hv(2) add_def_props)
  qed
  ultimately show ?thesis using po2 by auto
qed

lemma add_propdef_taken:
  assumes wf: "wf_objects db" and x: "objects db r = Some x" and "name_taken (objects db) r name"
  shows "db_add_propdef db r name value owner flags = Some (False, db)"
proof -
  obtain h v where hv: "db_find_property db r name False = Some (h, v)"
    "(if ptr h \<noteq> Null_prop then Some True else property_defined_at_or_below db name (str_hash name) r) = Some True"
    using taken_check [OF wf x, of name] assms(3) by auto
  then show ?thesis unfolding db_add_propdef_def by (simp add: hv(2))
qed

section \<open>Deleting a property\<close>

definition delete_slot :: "heap \<Rightarrow> Objid \<Rightarrow> nat \<Rightarrow> Objid \<Rightarrow> obj \<Rightarrow> obj" where
  "delete_slot H r n d x =
     x\<lparr>o_waif_propdefs := None,
       o_propval := take (slot_pos H r n d) (o_propval x) @ drop (Suc (slot_pos H r n d)) (o_propval x)\<rparr>"

lemma delete_slot_no_props [simp]: "no_props (delete_slot H r n d x) = no_props x"
  by (simp add: delete_slot_def no_props_def)

lemma delete_slot_propdefs [simp]: "o_propdefs (delete_slot H r n d x) = o_propdefs x"
  by (simp add: delete_slot_def)

lemma remove_prop_step:
  assumes wft: "wf_table db" and tree: "wf_tree (objects db)"
    and c: "objects db c = Some x" "c \<notin> S" "ancestry (objects db) c xs"
    and len: "Suc (length (visible (objects db) xs)) = length (o_propval x)"
      "slot_pos (objects db) r n c < length (o_propval x)"
  shows "remove_prop (apply_at (delete_slot (objects db) r n) S db) c (slot_pos (objects db) r n c) =
    Some (apply_at (delete_slot (objects db) r n) (insert c S) db)"
proof -
  let ?g = "delete_slot (objects db) r n"
  let ?db = "apply_at ?g S db" and ?p = "slot_pos (objects db) r n c"
  have k: "keeps_tree ?g" by (rule keeps_tree_no_props) simp
  have wf1: "wf_table ?db" by (rule wf_table_apply_at [OF k wft])
  have "field o_parent (objects ?db) = field o_parent (objects db)"
    using same_tree_apply_at [OF k] by (simp add: same_tree_def)
  then have "ancestry (objects ?db) c xs" using c(3) by simp
  then have cnt: "dbpriv_count_properties ?db c = Some (length (o_propval x) - 1)"
    using count_properties_eq [OF wf1] len(1) [symmetric] by (simp add: visible_apply_at)
  have obj: "objects ?db c = Some x" using c by (simp add: apply_at_objects)
  have "take (length (o_propval x) - 1 - ?p) (drop (Suc ?p) (o_propval x)) = drop (Suc ?p) (o_propval x)"
    by simp
  moreover have "?p \<le> length (o_propval x) - Suc 0" "length (o_propval x) - Suc 0 < length (o_propval x)"
    using len(2) by auto
  ultimately have "remove_prop ?db c ?p = Some (?db\<lparr>objects := (objects ?db)(c \<mapsto> ?g c x)\<rparr>)"
    using len(2) obj cnt wf_table_find [OF wf1]
    by (simp add: remove_prop_def upd_db_def delete_slot_def)
  then show ?thesis using apply_at_insert [OF c(1,2), of ?g] by simp
qed

lemma remove_prop_recursively_eq:
  assumes wft: "wf_table db" and tree: "wf_tree (objects db)" and r: "objects db r \<noteq> None"
    and len: "\<And>d x xs. desc (objects db) r d \<Longrightarrow> objects db d = Some x \<Longrightarrow> ancestry (objects db) d xs \<Longrightarrow>
      Suc (length (visible (objects db) xs)) = length (o_propval x) \<and>
      slot_pos (objects db) r n d < length (o_propval x)"
  shows "remove_prop_recursively db r n =
    Some (apply_at (delete_slot (objects db) r n) {d. desc (objects db) r d} db)"
proof -
  let ?H = "objects db"
  let ?g = "delete_slot ?H r n"
  let ?ctx = "slot_pos ?H r n"
  have k: "keeps_tree ?g" by (rule keeps_tree_no_props) simp
  have step: "remove_prop (apply_at ?g S db) c (?ctx c) = Some (apply_at ?g (insert c S) db)"
    if c: "c \<notin> S" "desc ?H r c" for S c
  proof -
    obtain x where x: "?H c = Some x" using desc_dom(2) [OF c(2)] by auto
    obtain xs where xs: "ancestry ?H c xs" using c(2) by (auto simp: desc_def)
    show ?thesis using remove_prop_step [OF wft tree x c(1) xs] len [OF c(2) x xs] by blast
  qed
  obtain x where x: "?H r = Some x" using r by blast
  have first: "remove_prop db r n = Some (apply_at ?g {r} db)"
    using step [of r "{}"] desc_refl [OF tree r] slot_pos_root [OF tree r] by simp
  have "walk remove_prop_visit (?ctx r) (o_child x) (apply_at ?g {r} db) = Some (apply_at ?g {d. desc ?H r d} db)"
  proof (rule walk_apply_at [where ctx = ?ctx, OF wft tree x k])
    fix S c p
    assume c: "c \<notin> S" "p \<in> S" "field o_parent ?H c = Some p" "desc ?H r c" "c \<noteq> r"
    obtain y where y: "?H c = Some y" "o_parent y = p" using c(3) by (auto simp: field_eq_Some)
    have "dbpriv_find_object (apply_at ?g S db) c = Some y"
      using wf_table_find [OF wf_table_apply_at [OF k wft]] y c(1) by (simp add: apply_at_objects)
    then show "remove_prop_visit c (?ctx p) (apply_at ?g S db) = Some (?ctx c, apply_at ?g (insert c S) db)"
      using step [OF c(1,4)] slot_pos_child [OF tree c(4,5) y] by (simp add: remove_prop_visit_def Let_def)
  qed
  moreover have "dbpriv_find_object (apply_at ?g {r} db) r = Some (?g r x)"
    using wf_table_find [OF wf_table_apply_at [OF k wft]] x by (simp add: apply_at_objects)
  ultimately show ?thesis
    using first slot_pos_root [OF tree r] by (simp add: remove_prop_recursively_def delete_slot_def)
qed

lemma map_of_zip_delete:
  assumes "length ks = length vs" "distinct ks" "p < length ks"
  shows "map_of (zip (take p ks @ drop (Suc p) ks) (take p vs @ drop (Suc p) vs)) = (map_of (zip ks vs))(ks ! p := None)"
proof -
  let ?ks = "take p ks @ drop (Suc p) ks" and ?vs = "take p vs @ drop (Suc p) vs"
  have "take p ?ks @ ks ! p # drop p ?ks = ks" "take p ?vs @ vs ! p # drop p ?vs = vs"
    using assms(1,3) by (simp_all add: id_take_nth_drop [symmetric])
  moreover have out: "ks ! p \<notin> set ?ks"
    using assms(2) id_take_nth_drop [OF assms(3)] by (metis distinct.simps(2) distinct_append not_distinct_conv_prefix
        Un_iff disjoint_iff list.set_intros(1) set_append)
  moreover have len: "length ?ks = length ?vs" using assms(1,3) by simp
  ultimately have "map_of (zip ks vs) = (map_of (zip ?ks ?vs))(ks ! p \<mapsto> vs ! p)"
    using map_of_zip_insert [of ?ks ?vs "ks ! p" p "vs ! p"] by metis
  moreover have "map_of (zip ?ks ?vs) (ks ! p) = None"
    using out len by (simp add: map_of_zip_is_None)
  ultimately show ?thesis by (metis fun_upd_triv fun_upd_upd)
qed

lemma visible_remove:
  assumes "ancestry H d xs" "desc H r d" "H r = Some x" "n < cur_length (o_propdefs x)"
    and "pl ps = take n (pl (o_propdefs x)) @ drop (Suc n) (pl (o_propdefs x))"
    and "p = slot_pos H r n d"
  shows "visible (H(r \<mapsto> x\<lparr>o_propdefs := ps\<rparr>)) xs = take p (visible H xs) @ drop (Suc p) (visible H xs)"
    and "p < length (visible H xs)" and "visible H xs ! p = (r, pl (o_propdefs x) ! n)"
proof -
  obtain bs where bs: "xs = takeWhile (\<lambda>j. j \<noteq> r) xs @ r # bs" "r \<notin> set (takeWhile (\<lambda>j. j \<noteq> r) xs)"
      "ancestry H r (r # bs)"
    using desc_split [OF assms(1,2)] by metis
  define as where "as = takeWhile (\<lambda>j. j \<noteq> r) xs"
  have xs: "xs = as @ r # bs" "r \<notin> set as" "r \<notin> set bs"
    using bs links_acyclic by (auto simp: as_def)
  let ?H = "H(r \<mapsto> x\<lparr>o_propdefs := ps\<rparr>)" and ?ds = "map (Pair r) (pl (o_propdefs x))"
  have same: "visible ?H ys = visible H ys" if "r \<notin> set ys" for ys
    using that by (intro visible_cong) (auto simp: defs_at_def)
  have p: "p = length (visible H as) + n"
    using assms(6) slot_pos_eq [OF assms(1)] by (simp add: as_def)
  have V: "visible H xs = visible H as @ ?ds @ visible H bs" using assms(3) by (simp add: xs(1))
  have "visible ?H xs = visible H as @ (take n ?ds @ drop (Suc n) ?ds) @ visible H bs"
    using assms(5) by (simp add: xs(1) same [OF xs(2)] same [OF xs(3)] defs_at_def take_map drop_map)
  then show "visible ?H xs = take p (visible H xs) @ drop (Suc p) (visible H xs)"
    unfolding V p using assms(4) by simp
  show "p < length (visible H xs)" "visible H xs ! p = (r, pl (o_propdefs x) ! n)"
    unfolding V p using assms(4) by (simp_all add: nth_append)
qed

lemma remove_def_props:
  "pl (remove_def i ps) = take i (pl ps) @ drop (Suc i) (pl ps)"
  "int (cur_length ps) \<le> max_length ps \<Longrightarrow> i < cur_length ps \<Longrightarrow>
   int (cur_length (remove_def i ps)) \<le> max_length (remove_def i ps)"
  by (auto simp: remove_def_def)

text \<open>The invariant of one object after its array lost the slot.\<close>

lemma wf_prop_delete:
  assumes wfp: "wf_prop H y xs" and y: "H d = Some y" "ancestry H d xs" and d: "desc H r d"
    and r: "H r = Some x" and n: "n < cur_length (o_propdefs x)"
    and ps: "ps = remove_def n (o_propdefs x)"
    and V: "visible H2 xs = visible (H(r \<mapsto> x\<lparr>o_propdefs := ps\<rparr>)) xs"
    and y2: "y2 = delete_slot H r n d (if d = r then y\<lparr>o_propdefs := ps\<rparr> else y)"
  shows "wf_prop H2 y2 xs"
proof -
  let ?p = "slot_pos H r n d"
  note va = visible_remove [OF y(2) d r n, of ps ?p]
  have vis: "visible H2 xs = take ?p (visible H xs) @ drop (Suc ?p) (visible H xs)"
      "?p < length (visible H xs)"
    using va V ps by (simp_all add: remove_def_props)
  have len: "length (o_propval y) = length (visible H xs)" using wfp by (simp add: wf_prop_def)
  have "distinct (map key_name (visible H2 xs))"
  proof -
    have "distinct (map key_name (take ?p (visible H xs) @ visible H xs ! ?p # drop (Suc ?p) (visible H xs)))"
      using wfp vis(2) by (simp add: wf_prop_def id_take_nth_drop [symmetric])
    then show ?thesis unfolding vis(1) by auto
  qed
  moreover have "length (o_propval y2) = length (visible H2 xs)"
    using len vis by (cases "d = r") (simp_all add: y2 delete_slot_def)
  moreover have "p_var (o_propval y2 ! m) \<noteq> TYPE_CLEAR" if m: "m < cur_length (o_propdefs y2)" for m
  proof -
    have own: "\<forall>m < cur_length (o_propdefs y). p_var (o_propval y ! m) \<noteq> TYPE_CLEAR"
      using wfp by (simp add: wf_prop_def)
    show ?thesis
    proof (cases "d = r")
      case True
      have yx: "y = x" using True r y(1) by simp
      then have p: "?p = n" using slot_pos_eq [OF y(2)] True y(2) by (cases xs) auto
      have "n < length (o_propval y)" using vis(2) len p by simp
      moreover have "Suc m < cur_length (o_propdefs y)"
        using m True yx n by (auto simp: y2 ps remove_def_props)
      ultimately show ?thesis
        using own True p by (simp add: y2 delete_slot_def nth_append)
    next
      case False
      then have "m < ?p" "m < cur_length (o_propdefs y)"
        using m slot_pos_own [OF y(2) d False y(1), of n] by (auto simp: y2)
      then show ?thesis using own len vis(2) False by (simp add: y2 delete_slot_def nth_append)
    qed
  qed
  moreover have "pd_hash q = str_hash (pd_name q) \<and> \<not> builtin_name (pd_name q)"
    if "q \<in> set (pl (o_propdefs y2))" for q
  proof -
    have "q \<in> set (pl (o_propdefs y))"
      using that r y(1) by (cases "d = r") (auto simp: y2 ps remove_def_props dest: in_set_takeD in_set_dropD)
    then show ?thesis using wfp by (simp add: wf_prop_def)
  qed
  moreover have "int (cur_length (o_propdefs y2)) \<le> max_length (o_propdefs y2)"
    using wfp r y(1) n remove_def_props(2) [of "o_propdefs x" n]
    by (cases "d = r") (simp_all add: y2 ps wf_prop_def)
  moreover have "o_waif_propdefs y2 = None" by (simp add: y2 delete_slot_def)
  ultimately show ?thesis unfolding wf_prop_def by simp
qed

text \<open>The index the scan of \<^verbatim>\<open>propdefs\<close> finds.\<close>

lemma find_def_own:
  assumes wf: "wf_objects db" and x: "objects db r = Some x"
  shows "find_def name (str_hash name) (pl (o_propdefs x)) 0 = None \<longleftrightarrow> \<not> has_def (objects db) name r"
    and "find_def name (str_hash name) (pl (o_propdefs x)) 0 = Some n \<Longrightarrow>
      n < cur_length (o_propdefs x) \<and> folded (pd_name (pl (o_propdefs x) ! n)) = folded name"
proof -
  obtain xs where xs: "ancestry (objects db) r xs"
    using wf_tree_ancestry [OF wf_objectsD(2) [OF wf], of r] x by auto
  have h: "\<forall>p \<in> set (pl (o_propdefs x)). pd_hash p = str_hash (pd_name p)"
    using wf_propsD [OF wf_objectsD(3) [OF wf] x xs] by (simp add: wf_prop_def)
  note eq = find_def_eq [OF h, of name 0]
  show "find_def name (str_hash name) (pl (o_propdefs x)) 0 = None \<longleftrightarrow> \<not> has_def (objects db) name r"
    using x by (auto simp: eq index_of_None has_def_def)
  assume "find_def name (str_hash name) (pl (o_propdefs x)) 0 = Some n"
  then have "index_of (\<lambda>p. folded (pd_name p) = folded name) (pl (o_propdefs x)) = Some n" by (simp add: eq)
  then show "n < cur_length (o_propdefs x) \<and> folded (pd_name (pl (o_propdefs x) ! n)) = folded name"
    using index_of_Some by fastforce
qed

lemma delete_propdef_none:
  assumes "wf_objects db" "objects db r = Some x" "\<not> has_def (objects db) name r"
  shows "db_delete_propdef db r name = Some (False, db)"
  using find_def_own(1) [OF assms(1,2), of name] assms wf_table_find [OF wf_objectsD(1) [OF assms(1)]]
  by (simp add: db_delete_propdef_def)

lemma delete_propdef_some:
  assumes wf: "wf_objects db" and x: "objects db r = Some x" and has: "has_def (objects db) name r"
  shows "\<exists>db' p. db_delete_propdef db r name = Some (True, db') \<and> p \<in> set (pl (o_propdefs x)) \<and>
    folded (pd_name p) = folded name \<and> wf_objects db' \<and> props_only db db' \<and>
    (\<forall>d. pslot (objects db') d = (pslot (objects db) d)((r, p) := None))"
proof -
  let ?H = "objects db"
  obtain n where n: "find_def name (str_hash name) (pl (o_propdefs x)) 0 = Some n"
    using find_def_own(1) [OF wf x, of name] has by auto
  have nlt: "n < cur_length (o_propdefs x)" "folded (pd_name (pl (o_propdefs x) ! n)) = folded name"
    using find_def_own(2) [OF wf x n] by auto
  let ?ps = "remove_def n (o_propdefs x)" and ?k = "(r, pl (o_propdefs x) ! n)"
  define db1 where "db1 = db\<lparr>objects := ?H(r \<mapsto> x\<lparr>o_propdefs := ?ps\<rparr>)\<rparr>"
  have po1: "props_only db db1"
    unfolding db1_def by (rule props_only_upd [OF x]) (simp add: no_props_def)
  note wf1 = props_only_wf [OF po1 wf_objectsD(1,2) [OF wf]]
  have par: "field o_parent (objects db1) = field o_parent ?H" by (rule props_only_field [OF po1]) simp
  have anc: "ancestry (objects db1) = ancestry ?H" using par by simp
  have de: "desc (objects db1) = desc ?H" by (rule desc_same [OF par])
  have pos: "slot_pos (objects db1) r n d = slot_pos ?H r n d" if "ancestry ?H d xs" for d xs
    using slot_pos_upd [OF x _ that] by (simp add: db1_def)
  let ?g = "delete_slot (objects db1) r n"
  define db2 where "db2 = apply_at ?g {d. desc ?H r d} db1"
  have run: "remove_prop_recursively db1 r n = Some db2"
    unfolding db2_def de [symmetric]
  proof (rule remove_prop_recursively_eq [OF wf1])
    show "objects db1 r \<noteq> None" by (simp add: db1_def)
    fix d y xs
    assume d: "desc (objects db1) r d" "objects db1 d = Some y" "ancestry (objects db1) d xs"
    obtain y0 where y0: "?H d = Some y0" "o_propval y0 = o_propval y"
      using d(2) x by (auto simp: db1_def split: if_splits)
    have wfp: "wf_prop ?H y0 xs" using wf_propsD [OF wf_objectsD(3) [OF wf] y0(1)] d(3) anc by simp
    show "Suc (length (visible (objects db1) xs)) = length (o_propval y) \<and>
        slot_pos (objects db1) r n d < length (o_propval y)"
      using visible_remove [OF d(3) [unfolded anc] d(1) [unfolded de] x nlt(1), of ?ps] wfp y0(2)
        pos [OF d(3) [unfolded anc]]
      by (simp add: db1_def remove_def_props wf_prop_def)
  qed
  have po2: "props_only db db2"
    using props_only_trans [OF po1] props_only_apply_at [where g = ?g and db = db1 and S = "{d. desc ?H r d}"]
    by (simp add: db2_def)
  have anc2: "ancestry (objects db2) = ancestry ?H" using props_only_field [OF po2, of o_parent] by simp
  have vis2: "visible (objects db2) xs = visible (objects db1) xs" for xs
    unfolding db2_def by (rule visible_apply_at) simp
  have slots: "wf_prop (objects db2) y2 xs \<and> pslot (objects db2) d = (pslot ?H d)(?k := None)"
    if d: "objects db2 d = Some y2" "ancestry ?H d xs" for d y2 xs
  proof (cases "desc ?H r d")
    case True
    obtain y where y: "?H d = Some y" using desc_dom(2) [OF True] by auto
    have y2: "y2 = delete_slot ?H r n d (if d = r then y\<lparr>o_propdefs := ?ps\<rparr> else y)"
      using d(1) True x y pos [OF d(2)] by (auto simp: db2_def apply_at_objects db1_def delete_slot_def)
    note wfp = wf_propsD [OF wf_objectsD(3) [OF wf] y d(2)]
    note vr = visible_remove [OF d(2) True x nlt(1), of ?ps, OF remove_def_props(1) refl]
    have "wf_prop (objects db2) y2 xs"
      using wf_prop_delete [OF wfp y d(2) True x nlt(1), of ?ps "objects db2" y2] y2 vis2
      by (simp add: db1_def)
    moreover have "pslot (objects db2) d = (pslot ?H d)(?k := None)"
      using pslot_eq [of "objects db2" d y2 xs] d pslot_eq [OF y d(2)] wfp anc2 vr vis2
        map_of_zip_delete [of "visible ?H xs" "o_propval y" "slot_pos ?H r n d"] wf_prop_distinct [OF wfp]
      by (auto simp: y2 delete_slot_def db1_def wf_prop_def)
    ultimately show ?thesis by simp
  next
    case False
    have "d \<noteq> r" using False desc_refl [OF wf_objectsD(2) [OF wf]] x by auto
    then have y: "?H d = Some y2" using False d(1) by (simp add: db2_def apply_at_objects db1_def)
    have "visible (objects db2) xs = visible ?H xs"
      using visible_not_below [OF d(2) False] vis2 by (simp add: db1_def)
    moreover have "?k \<notin> set (visible ?H xs)"
      using visible_fst [of ?k ?H xs] False d(2) by (auto simp: desc_def)
    then have "pslot ?H d ?k = None"
      using dom_pslot [OF wf_propsD [OF wf_objectsD(3) [OF wf] y d(2)] y d(2)] by auto
    ultimately show ?thesis
      using wf_propsD [OF wf_objectsD(3) [OF wf] y d(2)] pslot_eq [OF y d(2)]
        pslot_eq [of "objects db2" d y2 xs] d anc2 by (simp add: wf_prop_def)
  qed
  have "wf_objects db2"
    using props_only_wf [OF po2 wf_objectsD(1,2) [OF wf]] slots anc2
    unfolding wf_objects_def wf_props_def by simp
  moreover have "pslot (objects db2) d = (pslot ?H d)(?k := None)" for d
  proof (cases "objects db2 d")
    case None
    then have "?H d = None" using props_only_None [OF po2] by simp
    then show ?thesis using None by (auto simp: pslot_None)
  next
    case (Some y2)
    then have "?H d \<noteq> None" using props_only_None [OF po2, of d] by simp
    then obtain xs where "ancestry ?H d xs" using wf_tree_ancestry [OF wf_objectsD(2) [OF wf]] by blast
    then show ?thesis using slots [OF Some] by blast
  qed
  moreover have "db_delete_propdef db r name = Some (True, db2)"
    using n run x wf_table_find [OF wf_objectsD(1) [OF wf]]
    by (simp add: db_delete_propdef_def upd_db_def db1_def)
  moreover have "pl (o_propdefs x) ! n \<in> set (pl (o_propdefs x))" using nlt(1) by simp
  ultimately show ?thesis using po2 nlt(2) by blast
qed

section \<open>Renaming a property\<close>

definition rename_defs :: "string \<Rightarrow> string \<Rightarrow> propdef list \<Rightarrow> propdef list" where
  "rename_defs old new ds = map (\<lambda>p. if pd_name p = old then dbpriv_new_propdef new else p) ds"

definition rename_slot :: "string \<Rightarrow> string \<Rightarrow> Objid \<Rightarrow> obj \<Rightarrow> obj" where
  "rename_slot old new d x =
     (case o_waif_propdefs x of
        None \<Rightarrow> x
      | Some ds \<Rightarrow>
          x\<lparr>o_waif_propdefs :=
              (if waif_prop old \<and> waif_prop new then Some (rename_defs old new ds) else None)\<rparr>)"

lemma rename_slot_no_props [simp]: "no_props (rename_slot old new d x) = no_props x"
  by (simp add: rename_slot_def no_props_def split: option.split)

lemma rename_slot_props [simp]:
  "o_propdefs (rename_slot old new d x) = o_propdefs x" "o_propval (rename_slot old new d x) = o_propval x"
  by (simp_all add: rename_slot_def split: option.split)

lemma find_index_of_rename:
  assumes "distinct (map pd_name ds)" "old \<in> pd_name ` set ds"
  shows "\<exists>i. find_index_of old ds = Some i \<and> ds[i := dbpriv_new_propdef new] = rename_defs old new ds"
  using assms
proof (induction ds)
  case Nil
  then show ?case by simp
next
  case (Cons p ds)
  show ?case
  proof (cases "pd_name p = old")
    case True
    then have "pd_name q \<noteq> old" if "q \<in> set ds" for q using Cons.prems(1) that
      by (metis distinct.simps(2) image_eqI list.map(2) set_map)
    then have "rename_defs old new ds = ds" by (auto simp: rename_defs_def intro!: map_idI)
    then show ?thesis using True by (simp add: rename_defs_def)
  next
    case False
    then obtain i where "find_index_of old ds = Some i" "ds[i := dbpriv_new_propdef new] = rename_defs old new ds"
      using Cons by auto
    then show ?thesis using False by (simp add: rename_defs_def)
  qed
qed

lemma rename_visit_step:
  assumes wft: "wf_table db" and c: "objects db c = Some x" "c \<notin> S"
    and ok: "\<And>ds. o_waif_propdefs x = Some ds \<Longrightarrow> distinct (map pd_name ds) \<and> (waif_prop old \<longrightarrow> old \<in> pd_name ` set ds)"
  shows "rename_visit old new c () (apply_at (rename_slot old new) S db) =
    Some ((), apply_at (rename_slot old new) (insert c S) db)"
proof -
  let ?g = "rename_slot old new"
  let ?db = "apply_at ?g S db"
  have k: "keeps_tree ?g" by (rule keeps_tree_no_props) simp
  have f: "dbpriv_find_object ?db c = Some x"
    using wf_table_find [OF wf_table_apply_at [OF k wft]] c by (simp add: apply_at_objects)
  have o: "objects ?db c = Some x" using c by (simp add: apply_at_objects)
  note ins = apply_at_insert [OF c, of ?g]
  show ?thesis
  proof (cases "o_waif_propdefs x")
    case None
    then have "?g c x = x" by (simp add: rename_slot_def)
    then have "?db = apply_at ?g (insert c S) db" using ins o by (simp add: fun_upd_idem)
    then show ?thesis using f None by (simp add: rename_visit_def)
  next
    case (Some ds)
    have "waif_rename_propdef old new x = Some (?g c x)"
      using find_index_of_rename [of ds old new] ok [OF Some] Some
      by (auto simp: waif_rename_propdef_def rename_slot_def)
    then show ?thesis using f Some o ins by (simp add: rename_visit_def upd_db_def)
  qed
qed

text \<open>Replacing one key by another.\<close>

definition rekey :: "'a \<Rightarrow> 'a \<Rightarrow> 'a \<Rightarrow> 'a" where
  "rekey a b k = (if k = a then b else k)"

lemma map_of_zip_rekey:
  assumes "length ks = length vs" "distinct ks" "b \<notin> set ks - {a}"
  shows "map_of (zip (map (rekey a b) ks) vs) =
    (\<lambda>k. if k = b then map_of (zip ks vs) a else if k = a then None else map_of (zip ks vs) k)"
  using assms
proof (induction ks vs rule: list_induct2)
  case Nil
  then show ?case by auto
next
  case (Cons k ks v vs)
  then have "map_of (zip (map (rekey a b) ks) vs) =
    (\<lambda>k. if k = b then map_of (zip ks vs) a else if k = a then None else map_of (zip ks vs) k)"
    by auto
  moreover have "map_of (zip ks vs) k = None" using Cons by (simp add: map_of_zip_is_None)
  ultimately show ?case using Cons.prems by (auto simp: rekey_def [of a b k] fun_eq_iff)
qed

lemma list_update_rekey:
  "distinct l \<Longrightarrow> n < length l \<Longrightarrow> l[n := b] = map (rekey (l ! n) b) l"
  by (rule nth_equalityI) (auto simp: rekey_def nth_list_update nth_eq_iff_index_eq)

lemma visible_rename:
  assumes "H r = Some x" "n < cur_length (o_propdefs x)" "distinct (pl (o_propdefs x))"
    and "pl ps = (pl (o_propdefs x))[n := nd]"
  shows "visible (H(r \<mapsto> x\<lparr>o_propdefs := ps\<rparr>)) xs =
    map (rekey (r, pl (o_propdefs x) ! n) (r, nd)) (visible H xs)"
proof -
  have "defs_at (H(r \<mapsto> x\<lparr>o_propdefs := ps\<rparr>)) j = map (rekey (r, pl (o_propdefs x) ! n) (r, nd)) (defs_at H j)" for j
  proof (cases "j = r")
    case True
    then show ?thesis
      using assms list_update_rekey [OF assms(3,2), of nd] by (simp add: defs_at_def rekey_def)
  next
    case False
    then show ?thesis by (auto simp: defs_at_def rekey_def split: option.split intro!: map_cong)
  qed
  then have "defs_at (H(r \<mapsto> x\<lparr>o_propdefs := ps\<rparr>)) =
      (\<lambda>j. map (rekey (r, pl (o_propdefs x) ! n) (r, nd)) (defs_at H j))" by (rule ext)
  then show ?thesis unfolding visible_def by (simp add: map_concat comp_def)
qed

lemma key_unique_name:
  assumes "wf_prop H y xs" "k \<in> set (visible H xs)" "k' \<in> set (visible H xs)" "pd_name (snd k) = pd_name (snd k')"
  shows "k = k'"
  using visible_key_unique [OF assms(1-3)] assms(4) by simp

text \<open>The cached waif definitions of an object contain the property under its exact name.\<close>

lemma waif_cache:
  assumes wfp: "wf_prop H y xs" and w: "o_waif_propdefs y = Some ds" and k: "k \<in> set (visible H xs)"
  shows "distinct (map pd_name ds)"
    and "waif_prop (pd_name (snd k)) \<Longrightarrow> pd_name (snd k) \<in> pd_name ` set ds"
    and "waif_prop (pd_name (snd k)) \<Longrightarrow> waif_prop new \<Longrightarrow>
      rename_defs (pd_name (snd k)) new ds =
      filter (\<lambda>p. waif_prop (pd_name p)) (map snd (map (rekey k (fst k, dbpriv_new_propdef new)) (visible H xs)))"
proof -
  have ds: "ds = filter (\<lambda>p. waif_prop (pd_name p)) (map snd (visible H xs))"
    using wfp w by (simp add: wf_prop_def)
  have "distinct (map pd_name (map snd (visible H xs)))"
    using wfp unfolding wf_prop_def distinct_map by (auto simp: inj_on_def)
  then show "distinct (map pd_name ds)" unfolding ds by (rule distinct_map_filter)
  show "pd_name (snd k) \<in> pd_name ` set ds" if "waif_prop (pd_name (snd k))"
    using that k unfolding ds by auto
  assume wo: "waif_prop (pd_name (snd k))" "waif_prop new"
  let ?f = "\<lambda>p. if pd_name p = pd_name (snd k) then dbpriv_new_propdef new else p"
  have "map snd (map (rekey k (fst k, dbpriv_new_propdef new)) (visible H xs)) = map ?f (map snd (visible H xs))"
    using key_unique_name [OF wfp _ k] by (auto simp: rekey_def)
  moreover have "filter (\<lambda>p. waif_prop (pd_name p)) (map ?f ps) = map ?f (filter (\<lambda>p. waif_prop (pd_name p)) ps)" for ps
    using wo by (induction ps) (auto simp: dbpriv_new_propdef_def)
  ultimately show "rename_defs (pd_name (snd k)) new ds =
      filter (\<lambda>p. waif_prop (pd_name p)) (map snd (map (rekey k (fst k, dbpriv_new_propdef new)) (visible H xs)))"
    unfolding ds rename_defs_def by (simp only:)
qed

lemma rename_propdef_none:
  assumes "wf_objects db" "objects db r = Some x" "\<not> has_def (objects db) old r"
  shows "db_rename_propdef db r old new = Some (False, db)"
  using find_def_own(1) [OF assms(1,2), of old] assms wf_table_find [OF wf_objectsD(1) [OF assms(1)]]
  by (simp add: db_rename_propdef_def)

lemma rename_propdef_taken:
  assumes wf: "wf_objects db" and x: "objects db r = Some x" and has: "has_def (objects db) old r"
    and "folded old \<noteq> folded new" "name_taken (objects db) r new"
  shows "db_rename_propdef db r old new = Some (False, db)"
proof -
  obtain n where n: "find_def old (str_hash old) (pl (o_propdefs x)) 0 = Some n"
    using find_def_own(1) [OF wf x, of old] has by auto
  obtain h v where hv: "db_find_property db r new False = Some (h, v)"
    "(if ptr h \<noteq> Null_prop then Some True else property_defined_at_or_below db new (str_hash new) r) = Some True"
    using taken_check [OF wf x, of new] assms(5) by auto
  then show ?thesis
    using n x assms(4) wf_table_find [OF wf_objectsD(1) [OF wf]]
    unfolding db_rename_propdef_def by (simp add: mystrcasecmp_eq_0 hv(2))
qed

lemma builtin_name_cong: "folded s = folded t \<Longrightarrow> builtin_name s \<longleftrightarrow> builtin_name t"
  by (simp add: builtin_name_def)

lemma distinct_rekey:
  assumes "distinct (map f ks)" "\<And>k. k \<in> set ks \<Longrightarrow> k \<noteq> a \<Longrightarrow> f k \<noteq> f b"
  shows "distinct (map f (map (rekey a b) ks))"
  using assms
proof (induction ks)
  case Nil
  then show ?case by simp
next
  case (Cons k ks)
  have "f (rekey a b k) \<noteq> f (rekey a b k')" if "k' \<in> set ks" for k'
    using Cons.prems that by (auto simp: rekey_def) metis
  then show ?case using Cons by auto
qed

lemma new_name_free:
  assumes wfp: "wf_prop H y xs" and d: "ancestry H d xs" "desc H r d"
    and a: "(r, p) \<in> set (visible H xs)"
    and free: "folded (pd_name p) = folded new \<or> \<not> name_taken H r new"
    and k: "k \<in> set (visible H xs)" "k \<noteq> (r, p)"
  shows "key_name k \<noteq> folded new"
  using free
proof
  assume "folded (pd_name p) = folded new"
  then show ?thesis using visible_key_unique [OF wfp k(1) a] k(2) by auto
next
  assume "\<not> name_taken H r new"
  then show ?thesis using name_free_visible [OF _ d k(1)] by blast
qed

lemma own_visible:
  assumes "ancestry H d xs" "desc H r d" "H r = Some x" "p \<in> set (pl (o_propdefs x))"
  shows "(r, p) \<in> set (visible H xs)"
proof -
  have "r \<in> set xs" using assms(1,2) links_unique by (auto simp: desc_def)
  moreover have "(r, p) \<in> set (defs_at H r)" using assms(3,4) by simp
  ultimately show ?thesis unfolding visible_def by auto
qed

text \<open>The invariant of one object after the definition got its new name.\<close>

lemma wf_prop_rename:
  assumes wfp: "wf_prop H y xs" and y: "H d = Some y" "ancestry H d xs" and d: "desc H r d"
    and r: "H r = Some x" and n: "n < cur_length (o_propdefs x)" and p: "p = pl (o_propdefs x) ! n"
    and nb: "\<not> builtin_name new"
    and free: "folded (pd_name p) = folded new \<or> \<not> name_taken H r new"
    and V: "visible H2 xs = map (rekey (r, p) (r, dbpriv_new_propdef new)) (visible H xs)"
    and y2: "y2 = (rename_slot (pd_name p) new d y)
        \<lparr>o_propdefs := (if d = r then (o_propdefs x)\<lparr>pl := (pl (o_propdefs x))[n := dbpriv_new_propdef new]\<rparr>
          else o_propdefs y)\<rparr>"
  shows "wf_prop H2 y2 xs"
proof -
  have a: "(r, p) \<in> set (visible H xs)" using own_visible [OF y(2) d r] n p by simp
  have "distinct (map key_name (visible H2 xs))"
    unfolding V using wfp new_name_free [OF wfp y(2) d a free]
    by (intro distinct_rekey) (auto simp: wf_prop_def dbpriv_new_propdef_def)
  moreover have "length (o_propval y2) = length (visible H2 xs)"
    using wfp by (simp add: y2 V wf_prop_def)
  moreover have cl: "cur_length (o_propdefs y2) = cur_length (o_propdefs y)"
    using r y(1) by (cases "d = r") (simp_all add: y2)
  then have "\<forall>m < cur_length (o_propdefs y2). p_var (o_propval y2 ! m) \<noteq> TYPE_CLEAR"
    using wfp by (simp add: y2 wf_prop_def)
  moreover have "pd_hash q = str_hash (pd_name q) \<and> \<not> builtin_name (pd_name q)"
    if q: "q \<in> set (pl (o_propdefs y2))" for q
  proof -
    have "q \<in> set (pl (o_propdefs y)) \<or> q = dbpriv_new_propdef new"
      using q r y(1) set_update_subset_insert [of "pl (o_propdefs x)" n "dbpriv_new_propdef new"]
      by (auto simp: y2 split: if_splits)
    then show ?thesis using wfp nb by (auto simp: wf_prop_def dbpriv_new_propdef_def)
  qed
  moreover have "int (cur_length (o_propdefs y2)) \<le> max_length (o_propdefs y2)"
    using wfp r y(1) by (cases "d = r") (simp_all add: y2 wf_prop_def)
  moreover have "ds = filter (\<lambda>q. waif_prop (pd_name q)) (map snd (visible H2 xs))"
    if w: "o_waif_propdefs y2 = Some ds" for ds
  proof -
    obtain ds0 where ds0: "o_waif_propdefs y = Some ds0" "waif_prop (pd_name p)" "waif_prop new"
        "ds = rename_defs (pd_name p) new ds0"
      using w by (auto simp: y2 rename_slot_def split: option.splits if_splits)
    then show ?thesis using waif_cache(3) [OF wfp ds0(1) a] by (simp add: V)
  qed
  ultimately show ?thesis unfolding wf_prop_def by blast
qed

lemma rename_propdef_some:
  assumes wf: "wf_objects db" and x: "objects db r = Some x" and has: "has_def (objects db) old r"
    and free: "folded old = folded new \<or> \<not> name_taken (objects db) r new"
  shows "\<exists>db' p. db_rename_propdef db r old new = Some (True, db') \<and> p \<in> set (pl (o_propdefs x)) \<and>
    folded (pd_name p) = folded old \<and> wf_objects db' \<and> props_only db db' \<and>
    (\<forall>d. pslot (objects db') d =
      (\<lambda>k. if k = (r, dbpriv_new_propdef new) then pslot (objects db) d (r, p)
        else if k = (r, p) then None else pslot (objects db) d k))"
proof -
  let ?H = "objects db" and ?nd = "dbpriv_new_propdef new"
  note wft = wf_objectsD(1) [OF wf] and tree = wf_objectsD(2) [OF wf]
  obtain n where n: "find_def old (str_hash old) (pl (o_propdefs x)) 0 = Some n"
    using find_def_own(1) [OF wf x, of old] has by auto
  define p where "p = pl (o_propdefs x) ! n"
  have nlt: "n < cur_length (o_propdefs x)" "folded (pd_name p) = folded old"
    using find_def_own(2) [OF wf x n] by (auto simp: p_def)
  have pin: "p \<in> set (pl (o_propdefs x))" using nlt(1) by (simp add: p_def)
  have free': "folded (pd_name p) = folded new \<or> \<not> name_taken ?H r new" using free nlt(2) by auto
  obtain rs where rs: "ancestry ?H r rs" using wf_tree_ancestry [OF tree, of r] x by auto
  note wfr = wf_propsD [OF wf_objectsD(3) [OF wf] x rs]
  have "\<not> builtin_name (pd_name p)" using wfr pin by (simp add: wf_prop_def)
  then have nb: "\<not> builtin_name new"
    using free' builtin_name_cong [of "pd_name p" new] by (auto simp: name_taken_def)
  have dist: "distinct (pl (o_propdefs x))"
  proof -
    have "distinct (map (Pair r) (pl (o_propdefs x)))"
      using wf_prop_distinct [OF wfr] rs x wf_treeD(3) [OF tree] by (cases rs) auto
    then show ?thesis by (simp add: distinct_map)
  qed
  let ?g = "rename_slot (pd_name p) new"
  let ?f = "\<lambda>x. x\<lparr>o_propdefs := (o_propdefs x)\<lparr>pl := (pl (o_propdefs x))[n := ?nd]\<rparr>\<rparr>"
  have k: "keeps_tree ?g" by (rule keeps_tree_no_props) simp
  define db1 where "db1 = apply_at ?g {d. desc ?H r d} db"
  have step: "rename_visit (pd_name p) new c () (apply_at ?g S db) = Some ((), apply_at ?g (insert c S) db)"
    if c: "c \<notin> S" "desc ?H r c" for S c
  proof -
    obtain y where y: "?H c = Some y" using desc_dom(2) [OF c(2)] by auto
    obtain xs where xs: "ancestry ?H c xs" using c(2) by (auto simp: desc_def)
    note wfc = wf_propsD [OF wf_objectsD(3) [OF wf] y xs]
    show ?thesis
      using waif_cache(1,2) [OF wfc _ own_visible [OF xs c(2) x pin]]
      by (intro rename_visit_step [OF wft y c(1)]) simp
  qed
  have run: "rename_prop_recursively db r (pd_name p) new = Some db1"
    unfolding rename_prop_recursively_def db1_def
    by (rule visit_tree_apply_at [where ctx = "\<lambda>_. ()", OF wft tree x k])
      (use step [of r "{}"] desc_refl [OF tree, of r] x in simp, rule step)
  have rr: "desc ?H r r" using desc_refl [OF tree, of r] x by simp
  have x1: "objects db1 r = Some (?g r x)" using rr x by (simp add: db1_def apply_at_objects)
  define db2 where "db2 = db1\<lparr>objects := (objects db1)(r \<mapsto> ?f (?g r x))\<rparr>"
  have po: "props_only db db2"
  proof (rule props_only_trans)
    show "props_only db db1" unfolding db1_def by (rule props_only_apply_at) simp
    show "props_only db1 db2" unfolding db2_def by (rule props_only_upd [OF x1]) (simp add: no_props_def)
  qed
  have anc2: "ancestry (objects db2) = ancestry ?H" using props_only_field [OF po, of o_parent] by simp
  have vis2: "visible (objects db2) xs = map (rekey (r, p) (r, ?nd)) (visible ?H xs)" for xs
  proof -
    let ?ps = "(o_propdefs x)\<lparr>pl := (pl (o_propdefs x))[n := ?nd]\<rparr>"
    have "defs_at (objects db2) j = defs_at (?H(r \<mapsto> x\<lparr>o_propdefs := ?ps\<rparr>)) j" for j
      by (auto simp: defs_at_def db2_def db1_def apply_at_objects split: option.splits)
    then have "visible (objects db2) xs = visible (?H(r \<mapsto> x\<lparr>o_propdefs := ?ps\<rparr>)) xs"
      by (intro visible_cong) simp
    then show ?thesis using visible_rename [of ?H r x n ?ps ?nd] x nlt(1) dist by (simp add: p_def)
  qed
  have slots: "wf_prop (objects db2) y2 xs \<and> pslot (objects db2) d =
      (\<lambda>k. if k = (r, ?nd) then pslot ?H d (r, p) else if k = (r, p) then None else pslot ?H d k)"
    if d: "objects db2 d = Some y2" "ancestry ?H d xs" for d y2 xs
  proof -
    have "?H d \<noteq> None" using props_only_None [OF po, of d] d(1) by simp
    then obtain y where y: "?H d = Some y" by blast
    note wfp = wf_propsD [OF wf_objectsD(3) [OF wf] y d(2)]
    have pv: "o_propval y2 = o_propval y"
      using d(1) y x by (auto simp: db2_def db1_def apply_at_objects split: if_splits)
    have len: "length (visible ?H xs) = length (o_propval y)" using wfp by (simp add: wf_prop_def)
    have notin: "(r, ?nd) \<notin> set (visible ?H xs) - {(r, p)}"
    proof
      assume asm: "(r, ?nd) \<in> set (visible ?H xs) - {(r, p)}"
      then have "desc ?H r d" using visible_fst [of "(r, ?nd)" ?H xs] d(2) by (auto simp: desc_def)
      then show False
        using new_name_free [OF wfp d(2) _ own_visible [OF d(2) _ x pin] free', of "(r, ?nd)"] asm
        by (simp add: dbpriv_new_propdef_def)
    qed
    have "pslot (objects db2) d = map_of (zip (map (rekey (r, p) (r, ?nd)) (visible ?H xs)) (o_propval y))"
      using pslot_eq [of "objects db2" d y2 xs] d anc2 vis2 pv by simp
    then have sl: "pslot (objects db2) d =
      (\<lambda>k. if k = (r, ?nd) then pslot ?H d (r, p) else if k = (r, p) then None else pslot ?H d k)"
      unfolding map_of_zip_rekey [OF len wf_prop_distinct [OF wfp] notin] pslot_eq [OF y d(2)] .
    show ?thesis
    proof (cases "desc ?H r d")
      case True
      have y2: "y2 = (?g d y)\<lparr>o_propdefs :=
          (if d = r then (o_propdefs x)\<lparr>pl := (pl (o_propdefs x))[n := ?nd]\<rparr> else o_propdefs y)\<rparr>"
        using d(1) y x True by (auto simp: db2_def db1_def apply_at_objects split: if_splits)
      show ?thesis using wf_prop_rename [OF wfp y d(2) True x nlt(1) p_def nb free' vis2 y2] sl by simp
    next
      case False
      have "(r, p) \<notin> set (visible ?H xs)"
        using visible_fst [of "(r, p)" ?H xs] False d(2) by (auto simp: desc_def)
      then have "visible (objects db2) xs = visible ?H xs"
        unfolding vis2 by (auto simp: rekey_def intro!: map_idI)
      moreover have "y2 = y" using d(1) y False rr by (auto simp: db2_def db1_def apply_at_objects split: if_splits)
      ultimately show ?thesis using wfp sl by (simp add: wf_prop_def)
    qed
  qed
  have "wf_objects db2"
    using props_only_wf [OF po wft tree] slots anc2 unfolding wf_objects_def wf_props_def by simp
  moreover have "pslot (objects db2) d =
      (\<lambda>k. if k = (r, ?nd) then pslot ?H d (r, p) else if k = (r, p) then None else pslot ?H d k)" for d
  proof (cases "objects db2 d")
    case None
    then have "?H d = None" using props_only_None [OF po] by simp
    then show ?thesis using None by (simp add: pslot_None fun_eq_iff)
  next
    case (Some y2)
    then have "?H d \<noteq> None" using props_only_None [OF po, of d] by simp
    then obtain xs where "ancestry ?H d xs" using wf_tree_ancestry [OF tree] by blast
    then show ?thesis using slots [OF Some] by blast
  qed
  moreover have "db_rename_propdef db r old new = Some (True, db2)"
  proof -
    have "(if mystrcasecmp old new \<noteq> 0
        then do { (h, _) \<leftarrow> db_find_property db r new False;
               if ptr h \<noteq> Null_prop then Some True else property_defined_at_or_below db new (str_hash new) r }
        else Some False) = Some False"
      using taken_check [OF wf x, of new] free by (auto simp: mystrcasecmp_eq_0)
    then show ?thesis
      using n run x x1 wf_table_find [OF wft] unfolding db_rename_propdef_def
      by (simp add: upd_db_def db2_def p_def)
  qed
  ultimately show ?thesis using po nlt(2) pin by blast
qed

end
