(* ===== verification/Chparent.thy ===== *)
theory Chparent
  imports Objects Property_Changes
begin

text \<open>
  Changing the parent of an object: \<open>db_change_parent\<close> relinks the child lists and then rewrites
  the property slots of the object and of all its descendants. The slots of the properties
  defined at or below the object and of those of the ancestors it keeps stay; those of lost
  ancestors go; those of gained ancestors are added as clear slots. The lemmas show that this
  is what the slot arithmetic of \<open>fix_props\<close> does, and that the invariant is kept.
\<close>

abbreviation set_child :: "Objid \<Rightarrow> obj \<Rightarrow> obj" where "set_child v \<equiv> o_child_update (\<lambda>_. v)"
abbreviation set_sibling :: "Objid \<Rightarrow> obj \<Rightarrow> obj" where "set_sibling v \<equiv> o_sibling_update (\<lambda>_. v)"
abbreviation set_parent :: "Objid \<Rightarrow> obj \<Rightarrow> obj" where "set_parent v \<equiv> o_parent_update (\<lambda>_. v)"

abbreviation moved_kid :: "Objid \<Rightarrow> Objid \<Rightarrow> heap \<Rightarrow> heap \<Rightarrow> bool" where
  "moved_kid \<equiv> moved o_child set_child o_sibling set_sibling o_parent set_parent"

section \<open>The hierarchy after a move\<close>

lemma desc_iff: "ancestry H d xs \<Longrightarrow> desc H r d \<longleftrightarrow> r \<in> set xs"
  unfolding desc_def by (metis links_unique)

lemma links_splice:
  assumes "links nx a (as @ r # bs)" "r \<notin> set as" "links nx np ns" "r \<notin> set ns"
    and nx': "\<And>i. i \<noteq> r \<Longrightarrow> nx' i = nx i" "nx' r = Some np"
  shows "links nx' a (as @ r # ns)"
  using assms(1,2)
proof (induction as arbitrary: a)
  case Nil
  have "links nx' np ns \<longleftrightarrow> links nx np ns"
    by (rule links_cong) (use assms(4) nx'(1) in metis)
  then show ?case using Nil assms(3) nx'(2) by auto
next
  case (Cons q as)
  then show ?case using nx'(1) by auto
qed

lemma moved_ancestry:
  assumes m: "moved_kid r np H H'" and nd: "\<not> desc H r np" and np: "ancestry H np ns"
    and d: "ancestry H d xs"
  shows "\<not> desc H r d \<Longrightarrow> ancestry H' d xs"
    and "desc H r d \<Longrightarrow> ancestry H' d (takeWhile (\<lambda>j. j \<noteq> r) xs @ r # ns)"
proof -
  note up = moved_up [OF m]
  have rn: "r \<notin> set ns" using nd np by (auto simp: desc_def)
  show "ancestry H' d xs" if "\<not> desc H r d"
  proof -
    have "r \<notin> set xs" using that d unfolding desc_def by blast
    then show ?thesis using d unfolding up by simp
  qed
  assume "desc H r d"
  then obtain bs where bs: "xs = takeWhile (\<lambda>j. j \<noteq> r) xs @ r # bs" "r \<notin> set (takeWhile (\<lambda>j. j \<noteq> r) xs)"
    using desc_split [OF d] by metis
  show "ancestry H' d (takeWhile (\<lambda>j. j \<noteq> r) xs @ r # ns)"
  proof (rule links_splice [OF _ bs(2) np rn])
    show "ancestry H d (takeWhile (\<lambda>j. j \<noteq> r) xs @ r # bs)" using d bs(1) by simp
  qed (simp_all add: up)
qed

lemma moved_desc:
  assumes tree: "wf_tree H" and m: "moved_kid r np H H'" and nd: "\<not> desc H r np" and np: "ancestry H np ns"
  shows "desc H' r d \<longleftrightarrow> desc H r d"
proof (cases "H d")
  case None
  moreover have "H' d = None" using moved_None [OF m] None by blast
  ultimately show ?thesis using desc_dom by metis
next
  case (Some y)
  then obtain xs where xs: "ancestry H d xs" using wf_tree_ancestry [OF tree, of d] by auto
  show ?thesis
  proof (cases "desc H r d")
    case True
    then show ?thesis using moved_ancestry(2) [OF m nd np xs] unfolding desc_def by fastforce
  next
    case False
    then have a: "ancestry H' d xs" "r \<notin> set xs"
      using moved_ancestry(1) [OF m nd np xs] desc_iff [OF xs] by auto
    then have "\<not> desc H' r d" using desc_iff [OF a(1)] by simp
    then show ?thesis using False by simp
  qed
qed

lemma moved_wf_tree:
  assumes tree: "wf_tree H" and m: "moved_kid r np H H'" and r: "H r \<noteq> None"
    and np: "np = NOTHING \<or> H np \<noteq> None" and nd: "\<not> desc H r np"
  shows "wf_tree H'"
proof -
  have dom: "dom H' = dom H" using moved_None [OF m] by (auto simp: dom_def)
  obtain ns where ns: "ancestry H np ns"
    using np wf_tree_ancestry [OF tree, of np] links_Nil by metis
  have "\<exists>xs. ancestry H' i xs" if "H' i \<noteq> None" for i
  proof -
    have "H i \<noteq> None" using that moved_None [OF m] by metis
    then obtain xs where "ancestry H i xs" using wf_tree_ancestry [OF tree] by blast
    then show ?thesis using moved_ancestry [OF m nd ns] by blast
  qed
  then show ?thesis
    using wf_treeD(1) [OF tree] dom kids.moved_forest [OF wf_treeD(2) [OF tree] np m]
    by (simp add: wf_tree_def del: not_None_eq)
qed

lemma ancestryE:
  assumes "ancestry H j (i # ns)"
  obtains y where "j = i" "i \<noteq> NOTHING" "H i = Some y" "ancestry H (o_parent y) ns"
  using assms by (auto simp: field_eq_Some)

section \<open>The check\<close>

definition chparent_clash :: "heap \<Rightarrow> Objid \<Rightarrow> Objid \<Rightarrow> bool" where
  "chparent_clash H r np \<longleftrightarrow>
     (\<exists>j d p. desc H j np \<and> desc H r d \<and> p \<in> snd ` set (defs_at H j) \<and> has_def H (pd_name p) d)"

definition free_below :: "heap \<Rightarrow> Objid \<Rightarrow> propdef \<Rightarrow> bool" where
  "free_below H r p \<longleftrightarrow> (\<forall>d. desc H r d \<longrightarrow> \<not> has_def H (pd_name p) d)"

lemma none_defined_eq:
  assumes wf: "wf_objects db" and x: "objects db r = Some x"
    and h: "\<forall>p \<in> set ps. pd_hash p = str_hash (pd_name p)"
  shows "none_defined db r ps =
    Some (\<forall>p \<in> set ps. free_below (objects db) r p)"
  using h
proof (induction ps)
  case (Cons p ps)
  have "property_defined_at_or_below db (pd_name p) (pd_hash p) r =
      Some (\<not> free_below (objects db) r p)"
    using defined_at_or_below_eq [OF wf x, of "pd_name p"] Cons.prems by (simp add: free_below_def)
  then show ?case using Cons by simp
qed simp

lemma check_loop_eq:
  assumes wf: "wf_objects db" and x: "objects db r = Some x"
  shows "ancestry (objects db) j ns \<Longrightarrow> check_chparent_loop db r j =
    Some (\<forall>i \<in> set ns. \<forall>p \<in> snd ` set (defs_at (objects db) i). free_below (objects db) r p)"
proof (induction ns arbitrary: j)
  case Nil
  then show ?case
    using wf_table_NOTHING [OF wf_objectsD(1) [OF wf]] wf_table_find [OF wf_objectsD(1) [OF wf]]
    by (subst check_chparent_loop.simps) simp
next
  case (Cons i ns)
  obtain y where "j = i" "i \<noteq> NOTHING" "objects db i = Some y" "ancestry (objects db) (o_parent y) ns"
    using Cons.prems by (rule ancestryE)
  then have y: "objects db j = Some y" "ancestry (objects db) (o_parent y) ns" "i = j" by simp_all
  have h: "\<forall>p \<in> set (pl (o_propdefs y)). pd_hash p = str_hash (pd_name p)"
    using wf_propsD [OF wf_objectsD(3) [OF wf] y(1) Cons.prems] by (simp add: wf_prop_def)
  have s: "snd ` set (defs_at (objects db) j) = set (pl (o_propdefs y))"
    using y(1) by (auto simp: image_image)
  show ?case
    using Cons.IH [OF y(2)] y(1) none_defined_eq [OF wf x h] wf_table_find [OF wf_objectsD(1) [OF wf]]
    unfolding y(3) list.set ball_simps s by (subst check_chparent_loop.simps) simp
qed

lemma check_chparent_eq:
  assumes wf: "wf_objects db" and x: "objects db r = Some x" and ns: "ancestry (objects db) np ns"
  shows "dbpriv_check_properties_for_chparent db r np = Some (\<not> chparent_clash (objects db) r np)"
proof -
  have "desc (objects db) j np \<longleftrightarrow> j \<in> set ns" for j
    by (rule desc_iff [OF ns])
  then show ?thesis
    unfolding dbpriv_check_properties_for_chparent_def check_loop_eq [OF wf x ns] chparent_clash_def
      free_below_def
    by blast
qed

section \<open>The nearest common ancestor\<close>

lemma on_chain_eq:
  "ancestry (objects db) o2 os \<Longrightarrow> on_chain db o1 o2 = Some (o1 \<in> set os)"
proof (induction os arbitrary: o2)
  case Nil
  then show ?case by (subst on_chain.simps) simp
next
  case (Cons i os)
  then obtain y where "objects db i = Some y" "ancestry (objects db) (o_parent y) os" "o2 = i" "i \<noteq> NOTHING"
    by (auto simp: field_eq_Some)
  then show ?case using Cons.IH by (subst on_chain.simps) (auto simp: db_object_parent_def)
qed

text \<open>The two chains share exactly the tail that starts at the common ancestor.\<close>

lemma common_loop_eq:
  "ancestry (objects db) n ns \<Longrightarrow> ancestry (objects db) p os \<Longrightarrow>
   \<exists>c n1 o1 cs. common_loop db n p = Some c \<and> ns = n1 @ cs \<and> os = o1 @ cs \<and>
     ancestry (objects db) c cs \<and> set n1 \<inter> set os = {}"
proof (induction ns arbitrary: n)
  case Nil
  then show ?case
    by (subst common_loop.simps) (intro exI [of _ NOTHING] exI [of _ "[]"] exI [of _ os], simp)
next
  case (Cons i ns)
  then obtain y where y: "objects db i = Some y" "ancestry (objects db) (o_parent y) ns" "n = i" "i \<noteq> NOTHING"
    by (auto simp: field_eq_Some)
  note oc = on_chain_eq [OF Cons.prems(2), of n]
  show ?case
  proof (cases "n \<in> set os")
    case True
    then obtain o1 o2 where os: "os = o1 @ n # o2" by (meson split_list)
    then have "ancestry (objects db) n (n # o2)" using Cons.prems(2) links_tail by metis
    then have "i # ns = n # o2" using Cons.prems(1) links_unique by metis
    then show ?thesis
      using True oc y Cons.prems(1) os
      by (subst common_loop.simps) (intro exI [of _ n] exI [of _ "[]"] exI [of _ o1] exI [of _ "i # ns"], simp)
  next
    case False
    obtain c n1 o1 cs where c: "common_loop db (o_parent y) p = Some c" "ns = n1 @ cs" "os = o1 @ cs"
        "ancestry (objects db) c cs" "set n1 \<inter> set os = {}"
      using Cons.IH [OF y(2) Cons.prems(2)] by blast
    have "common_loop db n p = Some c"
      using False oc y c(1) by (subst common_loop.simps) (simp add: db_object_parent_def)
    then show ?thesis
      using False c y by (intro exI [of _ c] exI [of _ "i # n1"] exI [of _ o1] exI [of _ cs]) simp
  qed
qed

section \<open>Rewriting the slots\<close>

definition fix_slots :: "heap \<Rightarrow> Objid \<Rightarrow> nat \<Rightarrow> nat \<Rightarrow> pval list \<Rightarrow> Objid \<Rightarrow> obj \<Rightarrow> obj" where
  "fix_slots H r n old N d x =
     x\<lparr>o_waif_propdefs := None,
       o_propval := take (slot_pos H r n d) (o_propval x) @ map (inherit x) N
         @ drop (slot_pos H r n d + old) (o_propval x)\<rparr>"

lemma fix_slots_no_props [simp]: "no_props (fix_slots H r n old N d x) = no_props x"
  by (simp add: fix_slots_def no_props_def)

lemma fix_slots_propdefs [simp]: "o_propdefs (fix_slots H r n old N d x) = o_propdefs x"
  by (simp add: fix_slots_def)

lemma inherit_inherit [simp]: "inherit a (inherit b pv) = inherit a pv"
  by (simp add: inherit_def)

lemma fix_props_step:
  assumes wft: "wf_table db" and c: "objects db c = Some y" "c \<notin> S"
    and len: "slot_pos (objects db) r n c + old + common = length (o_propval y)"
    and pos: "slot_pos (objects db) r n c = l + cur_length (o_propdefs y)"
    and N: "N \<noteq> [] \<Longrightarrow> \<exists>px. objects (apply_at (fix_slots (objects db) r n old N) S db) (o_parent y) = Some px \<and>
      l + length N \<le> length (o_propval px) \<and>
      map (inherit y) (take (length N) (drop l (o_propval px))) = map (inherit y) N"
  shows "fix_props_visit old (length N) common c l (apply_at (fix_slots (objects db) r n old N) S db) =
    Some (slot_pos (objects db) r n c, apply_at (fix_slots (objects db) r n old N) (insert c S) db)"
proof -
  let ?g = "fix_slots (objects db) r n old N"
  let ?db = "apply_at ?g S db" and ?l = "slot_pos (objects db) r n c"
  have k: "keeps_tree ?g" by (rule keeps_tree_no_props) simp
  note find = wf_table_find [OF wf_table_apply_at [OF k wft]]
  have obj: "objects ?db c = Some y" using c by (simp add: apply_at_objects)
  have inh: "(if length N = 0 then Some []
      else do {
        px \<leftarrow> dbpriv_find_object ?db (o_parent y);
        if l + length N \<le> length (o_propval px)
        then Some (map (inherit y) (take (length N) (drop l (o_propval px)))) else None }) = Some (map (inherit y) N)"
    using N find by (cases N) auto
  have "take common (drop (?l + old) (o_propval y)) = drop (?l + old) (o_propval y)"
    using len by simp
  then have "fix_props_visit old (length N) common c l ?db =
      Some (?l, ?db\<lparr>objects := (objects ?db)(c \<mapsto> ?g c y)\<rparr>)"
    using inh obj find len pos
    by (simp add: fix_props_visit_def Let_def upd_db_def fix_slots_def add.commute)
  then show ?thesis using apply_at_insert [OF c, of ?g] by simp
qed

lemma fix_props_eq:
  assumes wft: "wf_table db" and tree: "wf_tree (objects db)" and r: "objects db r = Some x"
    and n: "n = cur_length (o_propdefs x)"
    and len: "\<And>d y. desc (objects db) r d \<Longrightarrow> objects db d = Some y \<Longrightarrow>
      slot_pos (objects db) r n d + old + common = length (o_propval y)"
    and N: "N \<noteq> [] \<Longrightarrow> \<exists>px. objects db (o_parent x) = Some px \<and> length N \<le> length (o_propval px) \<and>
      take (length N) (o_propval px) = N"
  shows "fix_props db r 0 old (length N) common =
    Some (apply_at (fix_slots (objects db) r n old N) {d. desc (objects db) r d} db)"
proof -
  let ?H = "objects db"
  let ?g = "fix_slots ?H r n old N" and ?ctx = "slot_pos ?H r n"
  have k: "keeps_tree ?g" by (rule keeps_tree_no_props) simp
  have rn: "?H r \<noteq> None" using r by simp
  have rr: "desc ?H r r" by (rule desc_refl [OF tree rn])
  note root = slot_pos_root [OF tree rn, of n]
  show ?thesis
    unfolding fix_props_def
  proof (rule visit_tree_apply_at [where ctx = ?ctx, OF wft tree r k])
    show "fix_props_visit old (length N) common r 0 db = Some (?ctx r, apply_at ?g {r} db)"
    proof -
      have "N \<noteq> [] \<Longrightarrow> \<exists>px. objects db (o_parent x) = Some px \<and> length N \<le> length (o_propval px) \<and>
          map (inherit x) (take (length N) (o_propval px)) = map (inherit x) N"
        using N by fastforce
      then show ?thesis
        using fix_props_step [OF wft r, of "{}" r n old common 0 N] len [OF rr r] root n by simp
    qed
  next
    fix S c p
    assume c: "c \<notin> S" "p \<in> S" "field o_parent ?H c = Some p" "desc ?H r c" "c \<noteq> r"
    obtain y where y: "?H c = Some y" "o_parent y = p" using c(3) by (auto simp: field_eq_Some)
    have dp: "desc ?H r p" by (rule desc_parent [OF c(4,5,3)])
    obtain z where z: "?H p = Some z" using desc_dom(2) [OF dp] by auto
    have lp: "?ctx p + old + common = length (o_propval z)" using len [OF dp z] .
    have "objects (apply_at ?g S db) (o_parent y) = Some (?g p z)"
      using y z c(2) by (simp add: apply_at_objects)
    moreover have "take (length N) (drop (?ctx p) (o_propval (?g p z))) = map (inherit z) N"
      "?ctx p + length N \<le> length (o_propval (?g p z))"
      using lp by (simp_all add: fix_slots_def)
    ultimately show "fix_props_visit old (length N) common c (?ctx p) (apply_at ?g S db) =
        Some (?ctx c, apply_at ?g (insert c S) db)"
      using slot_pos_child [OF tree c(4,5) y, of n] len [OF c(4) y(1)]
      by (intro fix_props_step [OF wft y(1) c(1)]) (auto simp: comp_def)
  qed
qed

text \<open>The slots of an object, in three parts: at or below the object that moved, gained or
  lost, and common.\<close>

lemma map_of_zip_map: "length ks = length vs \<Longrightarrow> map_of (zip ks (map f vs)) k = map_option f (map_of (zip ks vs) k)"
  by (induction ks vs rule: list_induct2) auto

lemma map_of_three_parts:
  fixes A L C W :: "'k list" and PA PL PC N Q :: "'v list" and f :: "'v \<Rightarrow> 'v"
  assumes len: "length A = length PA" "length L = length PL" "length C = length PC" "length W = length N"
      "length C = length Q"
    and D: "\<And>k. k \<in> set A \<Longrightarrow> D k" "\<And>k. k \<in> set L \<union> set C \<union> set W \<Longrightarrow> \<not> D k"
    and dj: "set W \<inter> set L = {}" "set W \<inter> set C = {}" "set L \<inter> set C = {}"
  shows "map_of (zip (A @ W @ C) (PA @ map f N @ PC)) k =
    (if D k \<or> (map_of (zip (W @ C) (N @ Q)) k \<noteq> None \<and> map_of (zip (A @ L @ C) (PA @ PL @ PC)) k \<noteq> None)
     then map_of (zip (A @ L @ C) (PA @ PL @ PC)) k else map_option f (map_of (zip (W @ C) (N @ Q)) k))"
proof -
  have None: "map_of (zip ks vs) k = None \<longleftrightarrow> k \<notin> set ks" if "length ks = length vs" for ks :: "'k list" and vs :: "'v list"
    using that by (simp add: map_of_zip_is_None)
  have zips: "zip (A @ W @ C) (PA @ map f N @ PC) = zip A PA @ zip W (map f N) @ zip C PC"
    "zip (W @ C) (N @ Q) = zip W N @ zip C Q" "zip (A @ L @ C) (PA @ PL @ PC) = zip A PA @ zip L PL @ zip C PC"
    using len by simp_all
  consider "k \<in> set A" | "k \<in> set W" | "k \<in> set C" | "k \<notin> set A" "k \<notin> set W" "k \<notin> set C" by blast
  then show ?thesis
  proof cases
    case 1
    then obtain v where "map_of (zip A PA) k = Some v" using None [OF len(1)] by (cases "map_of (zip A PA) k") auto
    then show ?thesis using D(1) [OF 1] by (simp add: zips)
  next
    case 2
    have "\<not> D k" "k \<notin> set L" "k \<notin> set C" using D(2) 2 dj by auto
    moreover have "k \<notin> set A" using D(1) \<open>\<not> D k\<close> by blast
    ultimately show ?thesis
      using 2 None [OF len(1)] None [OF len(2)] None [OF len(3)] None [OF len(4)] None [OF len(5)]
        map_of_zip_map [OF len(4), of f k]
      by (auto simp: zips map_add_def split: option.splits)
  next
    case 3
    have "\<not> D k" "k \<notin> set L" "k \<notin> set W" using D(2) 3 dj by auto
    moreover have "k \<notin> set A" using D(1) \<open>\<not> D k\<close> by blast
    ultimately show ?thesis
      using 3 None [OF len(1)] None [OF len(2)] None [OF len(3)] None [OF len(4)] None [OF len(5)]
        map_of_zip_map [OF len(4), of f k]
      by (auto simp: zips map_add_def split: option.splits)
  next
    case 4
    then have "D k \<Longrightarrow> k \<notin> set L" using D(2) by blast
    then show ?thesis
      using 4 None [OF len(1)] None [OF len(2)] None [OF len(3)] None [OF len(4)] None [OF len(5)]
        map_of_zip_map [OF len(4), of f k]
      by (auto simp: zips map_add_def split: option.splits)
  qed
qed

section \<open>One descendant\<close>

text \<open>The slots of the new parent, split at the common ancestor.\<close>

lemma new_parent_slots:
  assumes wf: "wf_objects db" and np: "np = NOTHING \<or> objects db np \<noteq> None"
    and ns: "ancestry (objects db) np (n1 @ cs)"
  obtains N Q where "length N = length (visible (objects db) n1)" "length Q = length (visible (objects db) cs)"
    "\<And>k. pslot (objects db) np k = map_of (zip (visible (objects db) (n1 @ cs)) (N @ Q)) k"
    "distinct (map key_name (visible (objects db) (n1 @ cs)))"
    "\<And>px. objects db np = Some px \<Longrightarrow> o_propval px = N @ Q"
    "objects db np = None \<Longrightarrow> N = []"
proof (cases "objects db np")
  case None
  then have "n1 @ cs = []" using np ns links_NOTHING by auto
  then show ?thesis using that [of "[]" "[]"] None by (simp add: pslot_None)
next
  case (Some px)
  note wfp = wf_propsD [OF wf_objectsD(3) [OF wf] Some ns]
  let ?m = "length (visible (objects db) n1)"
  have len: "length (o_propval px) = length (visible (objects db) (n1 @ cs))" using wfp by (simp add: wf_prop_def)
  show ?thesis
  proof (rule that)
    show "length (take ?m (o_propval px)) = length (visible (objects db) n1)"
      "length (drop ?m (o_propval px)) = length (visible (objects db) cs)"
      using len by simp_all
    show "pslot (objects db) np k =
        map_of (zip (visible (objects db) (n1 @ cs)) (take ?m (o_propval px) @ drop ?m (o_propval px))) k" for k
      using pslot_eq [OF Some ns] by simp
    show "distinct (map key_name (visible (objects db) (n1 @ cs)))" using wfp by (simp add: wf_prop_def)
    show "o_propval py = take ?m (o_propval px) @ drop ?m (o_propval px)" if "objects db np = Some py" for py
      using that Some by simp
    show "take ?m (o_propval px) = []" if "objects db np = None" using that Some by simp
  qed
qed

text \<open>Objects on the chain above \<open>r\<close> and above its new parent are not below \<open>r\<close>.\<close>

lemma above_not_desc:
  assumes "ancestry H q qs" "r \<notin> set qs" "j \<in> set qs"
  shows "\<not> desc H r j"
proof -
  obtain us vs where qs: "qs = us @ j # vs" using split_list [OF assms(3)] by blast
  have a: "ancestry H j (j # vs)" using assms(1) unfolding qs by (rule links_tail)
  show ?thesis using assms(2) unfolding desc_iff [OF a] qs by simp
qed

lemma no_clash_names:
  assumes clash: "\<not> chparent_clash H r np" and ns: "ancestry H np ns"
    and k: "k \<in> set (visible H ns)" and k': "k' \<in> set (visible H js)" "\<And>j. j \<in> set js \<Longrightarrow> desc H r j"
  shows "key_name k \<noteq> key_name k'"
proof
  assume eq: "key_name k = key_name k'"
  obtain j where j: "j \<in> set ns" "k \<in> set (defs_at H j)" using k by (auto simp: visible_def)
  obtain i where i: "i \<in> set js" "k' \<in> set (defs_at H i)" using k'(1) by (auto simp: visible_def)
  have "has_def H (pd_name (snd k)) i" unfolding has_def_def using i(2) eq by metis
  moreover have "snd k \<in> snd ` set (defs_at H j)" using j(2) by simp
  moreover have "desc H j np" using desc_iff [OF ns] j(1) by simp
  ultimately show False using clash k'(2) [OF i(1)] unfolding chparent_clash_def by blast
qed

lemma disjoint_map:
  "(\<And>a b. a \<in> set xs \<Longrightarrow> b \<in> set ys \<Longrightarrow> f a \<noteq> f b) \<Longrightarrow> set (map f xs) \<inter> set (map f ys) = {}"
  by auto

lemma chparent_slots:
  assumes wf: "wf_objects db" and y: "objects db d = Some y" "ancestry (objects db) d (as @ r # o1 @ cs)"
    and as: "\<And>j. j \<in> set as \<Longrightarrow> desc (objects db) r j" and x: "objects db r = Some x"
    and np: "np = NOTHING \<or> objects db np \<noteq> None" and ns: "ancestry (objects db) np (n1 @ cs)"
    and rn: "r \<notin> set (n1 @ cs)" and dj: "set n1 \<inter> set (o1 @ cs) = {}"
    and clash: "\<not> chparent_clash (objects db) r np"
    and NQ: "length N = length (visible (objects db) n1)" "length Q = length (visible (objects db) cs)"
      "\<And>k. pslot (objects db) np k = map_of (zip (visible (objects db) (n1 @ cs)) (N @ Q)) k"
      "distinct (map key_name (visible (objects db) (n1 @ cs)))"
    and l: "l = length (visible (objects db) (as @ [r]))"
    and y': "o_propval y' = take l (o_propval y) @ map (inherit y) N
        @ drop (l + length (visible (objects db) o1)) (o_propval y)"
      "o_propdefs y' = o_propdefs y" "o_waif_propdefs y' = None"
    and V: "visible H' (as @ r # n1 @ cs) = visible (objects db) (as @ r # n1 @ cs)"
  shows "wf_prop H' y' (as @ r # n1 @ cs)"
    and "map_of (zip (visible H' (as @ r # n1 @ cs)) (o_propval y')) k =
      (if desc (objects db) r (fst k) \<or> (pslot (objects db) np k \<noteq> None \<and> pslot (objects db) d k \<noteq> None)
       then pslot (objects db) d k else map_option (inherit y) (pslot (objects db) np k))"
proof -
  let ?H = "objects db"
  let ?A = "visible ?H (as @ [r])" and ?L = "visible ?H o1" and ?C = "visible ?H cs" and ?W = "visible ?H n1"
  note wfp = wf_propsD [OF wf_objectsD(3) [OF wf] y]
  have rx: "desc ?H r r" by (rule desc_refl [OF wf_objectsD(2) [OF wf]]) (simp add: x)
  have V0: "visible ?H (as @ r # o1 @ cs) = ?A @ ?L @ ?C" by simp
  have V1: "visible H' (as @ r # n1 @ cs) = ?A @ ?W @ ?C" unfolding V by simp
  define PA where "PA = take l (o_propval y)"
  define PL where "PL = take (length ?L) (drop l (o_propval y))"
  define PC where "PC = drop (l + length ?L) (o_propval y)"
  have len0: "length (o_propval y) = length ?A + length ?L + length ?C"
    using wfp unfolding wf_prop_def V0 by simp
  have lens: "length ?A = length PA" "length ?L = length PL" "length ?C = length PC"
    using len0 l by (simp_all add: PA_def PL_def PC_def)
  have P: "o_propval y = PA @ PL @ PC"
    unfolding PA_def PL_def PC_def by (metis append_take_drop_id drop_drop add.commute)
  have P': "o_propval y' = PA @ map (inherit y) N @ PC" by (simp add: y'(1) PA_def PC_def)
  have ro: "r \<notin> set (o1 @ cs)"
    using links_distinct [OF y(2)] by simp
  have ancr: "ancestry ?H r (r # o1 @ cs)" using y(2) by (rule links_tail)
  then obtain q where q: "ancestry ?H q (o1 @ cs)" by auto
  have D1: "desc ?H r (fst k)" if "k \<in> set ?A" for k
    using visible_fst [OF that] as rx by auto
  have D2: "\<not> desc ?H r (fst k)" if "k \<in> set ?L \<union> set ?C \<union> set ?W" for k
  proof -
    have "fst k \<in> set (o1 @ cs) \<or> fst k \<in> set (n1 @ cs)"
      using that visible_fst [of k ?H o1] visible_fst [of k ?H cs] visible_fst [of k ?H n1] by auto
    then show ?thesis using above_not_desc [OF q ro] above_not_desc [OF ns rn] by blast
  qed
  have WL: "set ?W \<inter> set ?L = {}" using dj visible_fst [of _ ?H n1] visible_fst [of _ ?H o1] by fastforce
  have d1: "distinct (?W @ ?C)" using NQ(4) by (auto simp: distinct_map)
  have d2: "distinct (?A @ ?L @ ?C)" using wf_prop_distinct [OF wfp] unfolding V0 .
  have ps: "pslot ?H d k = map_of (zip (?A @ ?L @ ?C) (PA @ PL @ PC)) k" for k
    using pslot_eq [OF y] unfolding V0 P by simp
  have pn: "pslot ?H np k = map_of (zip (?W @ ?C) (N @ Q)) k" for k using NQ(3) by simp
  show "map_of (zip (visible H' (as @ r # n1 @ cs)) (o_propval y')) k =
      (if desc ?H r (fst k) \<or> (pslot ?H np k \<noteq> None \<and> pslot ?H d k \<noteq> None)
       then pslot ?H d k else map_option (inherit y) (pslot ?H np k))"
    unfolding V1 P' ps pn
    by (rule map_of_three_parts [where D = "\<lambda>k. desc ?H r (fst k)"])
      (use lens NQ D1 D2 WL d1 d2 in auto)
  have "distinct (map key_name (?A @ ?W @ ?C))"
  proof -
    have "distinct (map key_name ?A)"
      using wfp unfolding wf_prop_def V0 by (simp del: visible_append visible_Cons)
    moreover have "distinct (map key_name (?W @ ?C))" using NQ(4) by simp
    moreover have "set (map key_name ?A) \<inter> set (map key_name (?W @ ?C)) = {}"
    proof (rule disjoint_map)
      fix k' k assume k: "k' \<in> set ?A" "k \<in> set (?W @ ?C)"
      have kn: "k \<in> set (visible ?H (n1 @ cs))" using k(2) by simp
      have below: "desc ?H r j" if "j \<in> set (as @ [r])" for j using that as rx by auto
      show "key_name k' \<noteq> key_name k" using no_clash_names [OF clash ns kn k(1) below] by metis
    qed
    ultimately show ?thesis unfolding map_append distinct_append by blast
  qed
  then have "distinct (map key_name (visible H' (as @ r # n1 @ cs)))" unfolding V1 .
  moreover have "length (o_propval y') = length (visible H' (as @ r # n1 @ cs))"
    unfolding V1 P' using lens NQ(1) by simp
  moreover have "p_var (o_propval y' ! m) \<noteq> TYPE_CLEAR" if m: "m < cur_length (o_propdefs y')" for m
  proof -
    have "cur_length (o_propdefs y) \<le> length ?A"
      using y x by (cases as) auto
    then have mA: "m < length PA" using m lens(1) y'(2) by simp
    have "p_var (o_propval y ! m) \<noteq> TYPE_CLEAR" using wfp m y'(2) by (simp add: wf_prop_def)
    then show ?thesis using mA by (simp add: P P' nth_append)
  qed
  ultimately show "wf_prop H' y' (as @ r # n1 @ cs)"
    using wfp y'(2,3) unfolding wf_prop_def by simp
qed

section \<open>Changing the parent\<close>

lemma relink_run:
  assumes wf: "wf_objects db" and x: "objects db r = Some x" and np: "np = NOTHING \<or> objects db np \<noteq> None"
  obtains H3 where "moved_kid r np (objects db) H3"
    "do {
       H1 \<leftarrow> (if o_parent x \<noteq> NOTHING then LL_REMOVE o_child set_child o_sibling set_sibling (o_parent x) r (objects db)
             else Some (objects db));
       H2 \<leftarrow> (if np \<noteq> NOTHING then LL_APPEND o_child set_child o_sibling set_sibling np r H1 else Some H1);
       upd r (\<lambda>x. x\<lparr>o_parent := np\<rparr>) H2
     } = Some H3"
proof -
  note f = wf_treeD(2) [OF wf_objectsD(2) [OF wf]]
  have N: "objects db NOTHING = None" using f by (simp add: forest_def)
  have up: "field o_parent (objects db) r = Some (o_parent x)" using x by (rule field_Some)
  have "o_parent x = NOTHING \<or> objects db (o_parent x) \<noteq> None"
    using f up unfolding forest_def by blast
  then have "o_parent x \<noteq> NOTHING \<longleftrightarrow> objects db (o_parent x) \<noteq> None" using N by auto
  moreover have "np \<noteq> NOTHING \<longleftrightarrow> objects db np \<noteq> None" using np N by auto
  moreover obtain H3 where "relink o_child set_child o_sibling set_sibling o_parent set_parent r np (objects db) = Some H3"
      "moved_kid r np (objects db) H3"
    using kids.relink_moved [OF f, of r np] x by auto
  ultimately show ?thesis using that x by (simp add: relink_def del: not_None_eq)
qed

text \<open>What a move leaves alone: everything but the hierarchy and the properties.\<close>

definition no_kin :: "obj \<Rightarrow> obj" where
  "no_kin x = (no_props x)\<lparr>o_parent := 0, o_child := 0, o_sibling := 0\<rparr>"

lemma no_kin_upd [simp]:
  "no_kin (set_child v x) = no_kin x" "no_kin (set_sibling v x) = no_kin x" "no_kin (set_parent v x) = no_kin x"
  by (simp_all add: no_kin_def no_props_def)

lemma no_kin_no_props [simp]: "no_props (g x) = no_props x \<Longrightarrow> no_kin (g x) = no_kin x"
  by (simp add: no_kin_def)

lemma field_at: "field g H' = field g H \<Longrightarrow> map_option g (H' i) = map_option g (H i)"
  by (metis field_def)

lemma wf_table_moved:
  assumes "wf_table db" "moved_kid r np (objects db) H'"
  shows "wf_table (db\<lparr>objects := H'\<rparr>)"
proof -
  have "field o_id H' = field o_id (objects db)" by (rule moved_field [OF assms(2)]) simp_all
  then have "\<exists>y. objects db i = Some y \<and> o_id y = o_id x" if "H' i = Some x" for i x
    using that field_at [of o_id H' "objects db" i] by (cases "objects db i") auto
  then show ?thesis using assms(1) unfolding wf_table_def by fastforce
qed

lemma moved_visible: "moved_kid r np H H' \<Longrightarrow> visible H' xs = visible H xs"
proof -
  assume m: "moved_kid r np H H'"
  have "field o_propdefs H' = field o_propdefs H" by (rule moved_field [OF m]) simp_all
  then have "map_option o_propdefs (H' j) = map_option o_propdefs (H j)" for j by (rule field_at)
  then have "defs_at H' j = defs_at H j" for j
    unfolding defs_at_def by (metis (mono_tags, lifting) map_option_is_None option.case_eq_if option.map_sel)
  then show ?thesis by (intro visible_cong)
qed

lemma moved_obj:
  assumes m: "moved_kid r np H H'" and "H d = Some y"
  obtains y' where "H' d = Some y'" "o_propval y' = o_propval y" "o_propdefs y' = o_propdefs y"
    "o_waif_propdefs y' = o_waif_propdefs y" "o_owner y' = o_owner y" "no_kin y' = no_kin y"
proof -
  obtain y' where y': "H' d = Some y'" using moved_None [OF m, of d] assms(2) by auto
  show ?thesis
  proof (rule that [OF y'])
    show "o_propval y' = o_propval y"
      using fun_cong [OF moved_field [OF m, of o_propval], of d] y' assms(2) by (simp add: field_def)
    show "o_propdefs y' = o_propdefs y"
      using fun_cong [OF moved_field [OF m, of o_propdefs], of d] y' assms(2) by (simp add: field_def)
    show "o_waif_propdefs y' = o_waif_propdefs y"
      using fun_cong [OF moved_field [OF m, of o_waif_propdefs], of d] y' assms(2) by (simp add: field_def)
    show "o_owner y' = o_owner y"
      using fun_cong [OF moved_field [OF m, of o_owner], of d] y' assms(2) by (simp add: field_def)
    show "no_kin y' = no_kin y"
      using fun_cong [OF moved_field [OF m, of no_kin], of d] y' assms(2) by (simp add: field_def)
  qed
qed

lemma wf_prop_cong:
  assumes "wf_prop H y xs" "visible H' xs = visible H xs" "o_propval y' = o_propval y"
    "o_propdefs y' = o_propdefs y" "o_waif_propdefs y' = o_waif_propdefs y"
  shows "wf_prop H' y' xs"
  using assms by (simp add: wf_prop_def)

text \<open>The counts that \<open>dbpriv_fix_properties_after_chparent\<close> computes.\<close>

lemma fix_after_eq:
  assumes wft: "wf_table db" and x: "objects db r = Some x" "o_parent x = np"
    and ns: "ancestry (objects db) np ns" and os: "ancestry (objects db) p os"
  obtains n1 o1 cs where "ns = n1 @ cs" "os = o1 @ cs" "set n1 \<inter> set os = {}"
    "dbpriv_fix_properties_after_chparent db r p =
       fix_props db r 0 (length (visible (objects db) o1)) (length (visible (objects db) n1))
         (length (visible (objects db) cs))"
proof -
  obtain c n1 o1 cs where c: "common_loop db np p = Some c" "ns = n1 @ cs" "os = o1 @ cs"
      "ancestry (objects db) c cs" "set n1 \<inter> set os = {}"
    using common_loop_eq [OF ns os] by blast
  have "(if c \<noteq> NOTHING then dbpriv_count_properties db c else Some 0) = Some (length (visible (objects db) cs))"
    using count_properties_eq [OF wft c(4)] c(4) links_NOTHING by (cases "c = NOTHING") auto
  then have "dbpriv_fix_properties_after_chparent db r p =
       fix_props db r 0 (length (visible (objects db) o1)) (length (visible (objects db) n1))
         (length (visible (objects db) cs))"
    using x c(1) count_properties_eq [OF wft ns] count_properties_eq [OF wft os]
    by (simp add: dbpriv_fix_properties_after_chparent_def db_object_parent_def c(2,3))
  then show ?thesis using that c by blast
qed

lemma takeWhile_until: "r \<notin> set as \<Longrightarrow> takeWhile (\<lambda>j. j \<noteq> r) (as @ r # bs) = as"
  by (induction as) auto

lemma db_cache_neutral:
  "wf_objects (db_priv_affected_callable_verb_lookup db) \<longleftrightarrow> wf_objects db"
  by (simp add: wf_objects_def wf_table_def)

lemma change_parent_core:
  assumes wf: "wf_objects db" and x: "objects db r = Some x" and np: "np = NOTHING \<or> objects db np \<noteq> None"
    and nd: "\<not> desc (objects db) r np" and clash: "\<not> chparent_clash (objects db) r np"
    and m: "moved_kid r np (objects db) H3"
  shows "\<exists>db'. dbpriv_fix_properties_after_chparent (db\<lparr>objects := H3\<rparr>) r (o_parent x) = Some db' \<and>
    wf_objects db' \<and> props_only (db\<lparr>objects := H3\<rparr>) db' \<and>
    (\<forall>d k. pslot (objects db') d k =
      (if desc (objects db) r d
       then if desc (objects db) r (fst k) \<or> (pslot (objects db) np k \<noteq> None \<and> pslot (objects db) d k \<noteq> None)
            then pslot (objects db) d k
            else map_option (inherit (the (objects db d))) (pslot (objects db) np k)
       else pslot (objects db) d k))"
proof -
  let ?H = "objects db" and ?n = "cur_length (o_propdefs x)"
  define db3 where "db3 = db\<lparr>objects := H3\<rparr>"
  have H3: "objects db3 = H3" by (simp add: db3_def)
  note tree = wf_objectsD(2) [OF wf]
  have rn: "?H r \<noteq> None" using x by simp
  have wft3: "wf_table db3" unfolding db3_def by (rule wf_table_moved [OF wf_objectsD(1) [OF wf] m])
  have tree3: "wf_tree H3" by (rule moved_wf_tree [OF tree m rn np nd])
  obtain ns where ns: "ancestry ?H np ns" using np wf_tree_ancestry [OF tree, of np] links_Nil by metis
  obtain rs where rs: "ancestry ?H r rs" using wf_tree_ancestry [OF tree rn] .
  obtain os where os: "rs = r # os" "ancestry ?H (o_parent x) os"
    using ancestry_Cons [OF rs x wf_treeD(3) [OF tree]] by blast
  have ndo: "\<not> desc ?H r (o_parent x)"
    using links_acyclic rs os desc_iff [OF os(2)] by auto
  have ns3: "ancestry H3 np ns" by (rule moved_ancestry(1) [OF m nd ns ns nd])
  have os3: "ancestry H3 (o_parent x) os" by (rule moved_ancestry(1) [OF m nd ns os(2) ndo])
  obtain x3 where x3: "H3 r = Some x3" "o_propdefs x3 = o_propdefs x" by (rule moved_obj [OF m x])
  have px3: "o_parent x3 = np"
    using moved_up [OF m] field_Some [of H3 r x3 o_parent, OF x3(1)] by (simp add: fun_eq_iff)
  have vis3: "visible H3 zs = visible ?H zs" for zs by (rule moved_visible [OF m])
  obtain n1 o1 cs where parts: "ns = n1 @ cs" "os = o1 @ cs" "set n1 \<inter> set os = {}"
    and run: "dbpriv_fix_properties_after_chparent db3 r (o_parent x) =
      fix_props db3 r 0 (length (visible ?H o1)) (length (visible ?H n1)) (length (visible ?H cs))"
    using fix_after_eq [OF wft3, of r x3 np ns "o_parent x" os] x3(1) px3 ns3 os3 vis3 unfolding H3 by metis
  obtain N Q where NQ: "length N = length (visible ?H n1)" "length Q = length (visible ?H cs)"
    "\<And>k. pslot ?H np k = map_of (zip (visible ?H (n1 @ cs)) (N @ Q)) k"
    "distinct (map key_name (visible ?H (n1 @ cs)))"
    "\<And>px. ?H np = Some px \<Longrightarrow> o_propval px = N @ Q" "?H np = None \<Longrightarrow> N = []"
    using new_parent_slots [OF wf np ns [unfolded parts(1)]] by blast
  have de: "desc H3 r d \<longleftrightarrow> desc ?H r d" for d by (rule moved_desc [OF tree m nd ns])
  have split: "\<exists>as. xs = as @ r # o1 @ cs \<and> r \<notin> set as \<and> (\<forall>j \<in> set as. desc ?H r j) \<and>
      ancestry H3 d (as @ r # n1 @ cs) \<and> slot_pos H3 r ?n d = length (visible ?H (as @ [r]))"
    if d: "ancestry ?H d xs" "desc ?H r d" for d xs
  proof -
    let ?as = "takeWhile (\<lambda>j. j \<noteq> r) xs"
    obtain bs where bs: "xs = ?as @ r # bs" "ancestry ?H r (r # bs)" "r \<notin> set ?as"
      using desc_split [OF d] by blast
    have "r # bs = r # os" using bs(2) rs os(1) links_unique by metis
    then have xs: "xs = ?as @ r # o1 @ cs" using bs(1) parts(2) by simp
    have a3: "ancestry H3 d (?as @ r # n1 @ cs)"
      using moved_ancestry(2) [OF m nd ns d] parts(1) by simp
    have "takeWhile (\<lambda>j. j \<noteq> r) (?as @ r # n1 @ cs) = ?as"
      using bs(3) by (rule takeWhile_until)
    then have "slot_pos H3 r ?n d = length (visible ?H (?as @ [r]))"
      using slot_pos_eq [OF a3, of r ?n] vis3 x by simp
    then show ?thesis using xs bs(3) a3 below_desc [OF d] by blast
  qed
  let ?g = "fix_slots H3 r ?n (length (visible ?H o1)) N"
  define db4 where "db4 = apply_at ?g {d. desc ?H r d} db3"
  have fixd: "fix_props db3 r 0 (length (visible ?H o1)) (length N) (length (visible ?H cs)) = Some db4"
    unfolding db4_def de [symmetric] H3 [symmetric]
  proof (rule fix_props_eq [OF wft3])
    show "wf_tree (objects db3)" "objects db3 r = Some x3" "?n = cur_length (o_propdefs x3)"
      using tree3 x3 H3 by simp_all
    show "slot_pos (objects db3) r ?n d + length (visible ?H o1) + length (visible ?H cs) = length (o_propval y3)"
      if d: "desc (objects db3) r d" "objects db3 d = Some y3" for d y3
    proof -
      have dH: "desc ?H r d" using d(1) de H3 by simp
      obtain y where y: "?H d = Some y" using desc_dom(2) [OF dH] by auto
      obtain z where "H3 d = Some z" "o_propval z = o_propval y" by (rule moved_obj [OF m y])
      then have pv: "o_propval y3 = o_propval y" using d(2) H3 by simp
      obtain xs where xs: "ancestry ?H d xs" using wf_tree_ancestry [OF tree, of d] y by auto
      obtain as where "xs = as @ r # o1 @ cs" "slot_pos H3 r ?n d = length (visible ?H (as @ [r]))"
        using split [OF xs dH] by blast
      then show ?thesis
        using wf_propsD [OF wf_objectsD(3) [OF wf] y xs] pv H3 by (simp add: wf_prop_def)
    qed
    show "\<exists>px. objects db3 (o_parent x3) = Some px \<and> length N \<le> length (o_propval px) \<and>
        take (length N) (o_propval px) = N" if N: "N \<noteq> []"
    proof -
      obtain px where px: "?H np = Some px" using NQ(6) N by auto
      obtain pz where pz: "H3 np = Some pz" "o_propval pz = o_propval px" by (rule moved_obj [OF m px])
      show ?thesis using pz NQ(5) [OF px] px3 H3 by simp
    qed
  qed
  have po: "props_only db3 db4" unfolding db4_def by (rule props_only_apply_at) simp
  have anc4: "ancestry (objects db4) = ancestry H3" using props_only_field [OF po, of o_parent] H3 by simp
  have vis4: "visible (objects db4) zs = visible ?H zs" for zs
    using visible_apply_at [of ?g "{d. desc ?H r d}" db3 zs] vis3 H3 by (simp add: db4_def)
  have slots: "wf_prop (objects db4) y4 xs4 \<and> (\<forall>k. pslot (objects db4) d k =
      (if desc ?H r d
       then if desc ?H r (fst k) \<or> (pslot ?H np k \<noteq> None \<and> pslot ?H d k \<noteq> None)
            then pslot ?H d k else map_option (inherit (the (?H d))) (pslot ?H np k)
       else pslot ?H d k))"
    if d: "objects db4 d = Some y4" "ancestry H3 d xs4" for d y4 xs4
  proof -
    have "H3 d \<noteq> None" using props_only_None [OF po, of d] d(1) H3 by simp
    then obtain y where y: "?H d = Some y" using moved_None [OF m, of d] by auto
    obtain y3 where y3: "H3 d = Some y3" "o_propval y3 = o_propval y" "o_propdefs y3 = o_propdefs y"
        "o_waif_propdefs y3 = o_waif_propdefs y" "o_owner y3 = o_owner y" by (rule moved_obj [OF m y])
    obtain xs where xs: "ancestry ?H d xs" using wf_tree_ancestry [OF tree, of d] y by auto
    note wfp = wf_propsD [OF wf_objectsD(3) [OF wf] y xs]
    show ?thesis
    proof (cases "desc ?H r d")
      case True
      obtain as where as: "xs = as @ r # o1 @ cs" "\<forall>j \<in> set as. desc ?H r j"
          "ancestry H3 d (as @ r # n1 @ cs)" "slot_pos H3 r ?n d = length (visible ?H (as @ [r]))"
        using split [OF xs True] by blast
      have x4: "xs4 = as @ r # n1 @ cs" using as(3) d(2) links_unique by metis
      have y4: "y4 = ?g d y3" using d(1) True y3(1) H3 by (simp add: db4_def apply_at_objects)
      have inh: "inherit y3 = inherit y" using y3(5) by (simp add: inherit_def fun_eq_iff)
      have rns: "r \<notin> set (n1 @ cs)" using nd desc_iff [OF ns] parts(1) by simp
      have dj: "set n1 \<inter> set (o1 @ cs) = {}" using parts(2,3) by simp
      have pv4: "o_propval y4 = take (length (visible ?H (as @ [r]))) (o_propval y) @ map (inherit y) N
          @ drop (length (visible ?H (as @ [r])) + length (visible ?H o1)) (o_propval y)"
        unfolding y4 fix_slots_def using as(4) y3(2) inh by simp
      have pd4: "o_propdefs y4 = o_propdefs y" "o_waif_propdefs y4 = None"
        using y3(3) by (simp_all add: y4 fix_slots_def)
      have asd: "\<And>j. j \<in> set as \<Longrightarrow> desc ?H r j" using as(2) by blast
      note cs = chparent_slots [OF wf y xs [unfolded as(1)] asd x np ns [unfolded parts(1)] rns dj clash
          NQ(1-4) refl pv4 pd4 vis4]
      have "pslot (objects db4) d = map_of (zip (visible (objects db4) (as @ r # n1 @ cs)) (o_propval y4))"
        using pslot_eq [of "objects db4" d y4] d(1) as(3) anc4 by simp
      then have "\<forall>k. pslot (objects db4) d k =
          (if desc ?H r (fst k) \<or> (pslot ?H np k \<noteq> None \<and> pslot ?H d k \<noteq> None)
           then pslot ?H d k else map_option (inherit y) (pslot ?H np k))"
        using cs(2) by (simp only:) blast
      then show ?thesis using cs(1) by (simp only: True if_True y option.sel x4 simp_thms)
    next
      case False
      have x4: "xs4 = xs" using moved_ancestry(1) [OF m nd ns xs False] d(2) links_unique by metis
      have y4: "y4 = y3" using d(1) False y3(1) H3 by (simp add: db4_def apply_at_objects)
      have "pslot (objects db4) d = pslot ?H d"
        using pslot_eq [of "objects db4" d y4 xs] d x4 anc4 pslot_eq [OF y xs] vis4 y3(2) y4 by simp
      moreover have "wf_prop (objects db4) y4 xs4"
        unfolding x4 y4 by (rule wf_prop_cong [OF wfp vis4 y3(2,3,4)])
      ultimately show ?thesis using False by simp
    qed
  qed
  have "wf_objects db4"
    using props_only_wf [OF po wft3] tree3 slots anc4 H3 unfolding wf_objects_def wf_props_def by simp
  moreover have "pslot (objects db4) d k =
      (if desc ?H r d
       then if desc ?H r (fst k) \<or> (pslot ?H np k \<noteq> None \<and> pslot ?H d k \<noteq> None)
            then pslot ?H d k else map_option (inherit (the (?H d))) (pslot ?H np k)
       else pslot ?H d k)" for d k
  proof (cases "objects db4 d")
    case None
    then have "?H d = None" using props_only_None [OF po, of d] moved_None [OF m, of d] H3 by simp
    then show ?thesis using None desc_dom(2) [of ?H r d] by (auto simp: pslot_None)
  next
    case (Some y4)
    then have "H3 d \<noteq> None" using props_only_None [OF po, of d] H3 by simp
    then obtain xs where "ancestry H3 d xs" using wf_tree_ancestry [OF tree3] by blast
    then show ?thesis using slots [OF Some] by blast
  qed
  moreover have "dbpriv_fix_properties_after_chparent db3 r (o_parent x) = Some db4"
    using run fixd NQ(1) by simp
  ultimately show ?thesis using po unfolding db3_def by blast
qed

lemma change_parent_clash:
  assumes wf: "wf_objects db" and x: "objects db r = Some x" and np: "np = NOTHING \<or> objects db np \<noteq> None"
    and "chparent_clash (objects db) r np"
  shows "db_change_parent db r np = Some (False, db)"
proof -
  obtain ns where ns: "ancestry (objects db) np ns"
    using np wf_tree_ancestry [OF wf_objectsD(2) [OF wf], of np] links_Nil by metis
  show ?thesis using check_chparent_eq [OF wf x ns] assms(4) by (simp add: db_change_parent_def)
qed

lemma change_parent_ok:
  assumes wf: "wf_objects db" and x: "objects db r = Some x" and np: "np = NOTHING \<or> objects db np \<noteq> None"
    and nd: "\<not> desc (objects db) r np" and clash: "\<not> chparent_clash (objects db) r np"
  shows "\<exists>db'. db_change_parent db r np = Some (True, db') \<and> wf_objects db' \<and>
    field o_parent (objects db') = (field o_parent (objects db))(r \<mapsto> np) \<and>
    (\<forall>w ys. children (objects db) w ys \<longrightarrow>
      children (objects db') w (filter (\<lambda>c. c \<noteq> r) ys @ (if w = np then [r] else []))) \<and>
    field no_kin (objects db') = field no_kin (objects db) \<and> all_users db' = all_users db \<and>
    vc_table db' = (if o_child x = NOTHING \<and> o_verbdefs x = [] then vc_table db
      else vc_table (db_priv_affected_callable_verb_lookup db)) \<and>
    (\<forall>d k. pslot (objects db') d k =
      (if desc (objects db) r d
       then if desc (objects db) r (fst k) \<or> (pslot (objects db) np k \<noteq> None \<and> pslot (objects db) d k \<noteq> None)
            then pslot (objects db) d k
            else map_option (inherit (the (objects db d))) (pslot (objects db) np k)
       else pslot (objects db) d k))"
proof -
  define db1 where "db1 = (if o_child x = NOTHING \<and> o_verbdefs x = [] then db
    else db_priv_affected_callable_verb_lookup db)"
  have o1: "objects db1 = objects db" "all_users db1 = all_users db" by (simp_all add: db1_def)
  have wf1: "wf_objects db1" using wf db_cache_neutral by (simp add: db1_def)
  obtain ns where ns: "ancestry (objects db) np ns"
    using np wf_tree_ancestry [OF wf_objectsD(2) [OF wf], of np] links_Nil by metis
  obtain H3 where m: "moved_kid r np (objects db1) H3" and run:
    "do {
       H1 \<leftarrow> (if o_parent x \<noteq> NOTHING then LL_REMOVE o_child set_child o_sibling set_sibling (o_parent x) r (objects db1)
             else Some (objects db1));
       H2 \<leftarrow> (if np \<noteq> NOTHING then LL_APPEND o_child set_child o_sibling set_sibling np r H1 else Some H1);
       upd r (\<lambda>x. x\<lparr>o_parent := np\<rparr>) H2
     } = Some H3"
    using relink_run [OF wf1, of r x np] x np unfolding o1 by blast
  have core: "\<exists>db'. dbpriv_fix_properties_after_chparent (db1\<lparr>objects := H3\<rparr>) r (o_parent x) = Some db' \<and>
    wf_objects db' \<and> props_only (db1\<lparr>objects := H3\<rparr>) db' \<and>
    (\<forall>d k. pslot (objects db') d k =
      (if desc (objects db) r d
       then if desc (objects db) r (fst k) \<or> (pslot (objects db) np k \<noteq> None \<and> pslot (objects db) d k \<noteq> None)
            then pslot (objects db) d k
            else map_option (inherit (the (objects db d))) (pslot (objects db) np k)
       else pslot (objects db) d k))"
    using change_parent_core [OF wf1, of r x np H3] x np nd clash m unfolding o1 by blast
  then obtain db' where fixd: "dbpriv_fix_properties_after_chparent (db1\<lparr>objects := H3\<rparr>) r (o_parent x) = Some db'"
    and wf': "wf_objects db'" and po: "props_only (db1\<lparr>objects := H3\<rparr>) db'"
    and ps: "\<forall>d k. pslot (objects db') d k =
      (if desc (objects db) r d
       then if desc (objects db) r (fst k) \<or> (pslot (objects db) np k \<noteq> None \<and> pslot (objects db) d k \<noteq> None)
            then pslot (objects db) d k
            else map_option (inherit (the (objects db d))) (pslot (objects db) np k)
       else pslot (objects db) d k)" by blast
  have f: "field g (objects db') = field g H3" if "\<And>x. g (no_props x) = g x" for g :: "obj \<Rightarrow> Objid"
    using props_only_field [OF po, of g] that by simp
  have "db_change_parent db r np = Some (True, db')"
  proof -
    obtain H1 H2 where
      r1: "(if o_parent x \<noteq> NOTHING then LL_REMOVE o_child set_child o_sibling set_sibling (o_parent x) r (objects db1)
        else Some (objects db1)) = Some H1" and
      r2: "(if np \<noteq> NOTHING then LL_APPEND o_child set_child o_sibling set_sibling np r H1 else Some H1) = Some H2" and
      r3: "upd r (\<lambda>x. x\<lparr>o_parent := np\<rparr>) H2 = Some H3"
      using run unfolding bind_eq_Some_conv by blast
    have ck: "dbpriv_check_properties_for_chparent db r np = Some True"
      using check_chparent_eq [OF wf x ns] clash by simp
    show ?thesis
      unfolding db_change_parent_def ck x Let_def db1_def [symmetric]
      by (simp only: bind.bind_lunit db1_def [symmetric] r1 r2 r3 fixd not_True_eq_False if_False)
  qed
  moreover have "field o_parent (objects db') = (field o_parent (objects db))(r \<mapsto> np)"
    using f [of o_parent] moved_up [OF m] o1 by simp
  moreover have "children (objects db') w (filter (\<lambda>c. c \<noteq> r) ys @ (if w = np then [r] else []))"
    if "children (objects db) w ys" for w ys
    using moved_listed [OF m, of w ys] that listed_same [of "objects db'" H3] f [of o_child] f [of o_sibling] o1
    by simp
  moreover have "field no_kin (objects db') = field no_kin (objects db)"
    using props_only_field [OF po, of no_kin] moved_field [OF m, of no_kin] o1
    by (simp add: no_kin_def no_props_def)
  moreover have r: "db' = (db1\<lparr>objects := H3\<rparr>)\<lparr>objects := objects db'\<rparr>" using po by (simp add: props_only_def)
  have "all_users db' = all_users db" by (subst r) (simp add: o1(2))
  moreover have "vc_table db' = (if o_child x = NOTHING \<and> o_verbdefs x = [] then vc_table db
      else vc_table (db_priv_affected_callable_verb_lookup db))"
    by (subst r) (simp add: db1_def)
  ultimately show ?thesis using wf' ps by blast
qed

end
