(* ===== verification/Object_Laws.thy ===== *)
theory Object_Laws
  imports Chparent
begin

text \<open>
  The invariant \<open>wf_db\<close> of the whole database and its preservation by the operations of
  \<open>Objects\<close> and \<open>Attributes\<close>: the table is in order, the hierarchy of parents is a forest with
  consistent child lists and property slots, the contents lists are consistent with the
  locations, and the list of users is the list of objects with the user flag.
\<close>

section \<open>The invariant\<close>

abbreviation contents :: "heap \<Rightarrow> Objid \<Rightarrow> Objid list \<Rightarrow> bool" where
  "contents H \<equiv> listed o_contents o_next H"

definition wf_db :: "db \<Rightarrow> bool" where
  "wf_db db \<longleftrightarrow> wf_objects db \<and> forest o_contents o_next o_location (objects db) \<and> users_ok db"

lemma wf_dbD:
  assumes "wf_db db"
  shows "wf_objects db" "forest o_contents o_next o_location (objects db)" "users_ok db"
    "wf_table db" "wf_tree (objects db)" "wf_props (objects db)"
  using assms by (simp_all add: wf_db_def wf_objects_def)

definition empty_db :: db where
  "empty_db = \<lparr>objects = Map.empty, num_objects = 0, max_objects = 0, all_users = [], vc_table = None,
     db_verb_generation = 0, verbcache_hit = 0, verbcache_neg_hit = 0, verbcache_miss = 0\<rparr>"

lemma wf_empty_db: "wf_db empty_db"
  by (auto simp: wf_db_def wf_objects_def wf_table_def wf_tree_def wf_props_def forest_def users_ok_def
      is_user_def valid_def dbpriv_find_object_def empty_db_def field_def)

section \<open>Changes that leave the structure alone\<close>

definition kin_fields :: "obj \<Rightarrow> Objid \<times> Objid \<times> Objid" where
  "kin_fields x = (o_parent x, o_child x, o_sibling x)"

definition prop_fields :: "obj \<Rightarrow> proplist \<times> pval list \<times> propdef list option" where
  "prop_fields x = (o_propdefs x, o_propval x, o_waif_propdefs x)"

definition place_fields :: "obj \<Rightarrow> Objid \<times> Objid \<times> Objid" where
  "place_fields x = (o_location x, o_contents x, o_next x)"

lemma field_comp:
  assumes "field f H' = field f H" "\<And>x. g x = h (f x)"
  shows "field g H' = field g H"
proof -
  have gh: "g = h \<circ> f" using assms(2) by (simp add: fun_eq_iff)
  have "field g K = (\<lambda>i. map_option h (field f K i))" for K
    unfolding gh by (simp add: field_def fun_eq_iff option.map_comp)
  then show ?thesis using assms(1) by simp
qed

lemma kin_fieldsD:
  assumes "field kin_fields H' = field kin_fields H"
  shows "field o_parent H' = field o_parent H" "field o_child H' = field o_child H"
    "field o_sibling H' = field o_sibling H"
  by (rule field_comp [OF assms, where h = fst], simp add: kin_fields_def,
      rule field_comp [OF assms, where h = "fst \<circ> snd"], simp add: kin_fields_def,
      rule field_comp [OF assms, where h = "snd \<circ> snd"], simp add: kin_fields_def)

lemma place_fieldsD:
  assumes "field place_fields H' = field place_fields H"
  shows "field o_location H' = field o_location H" "field o_contents H' = field o_contents H"
    "field o_next H' = field o_next H"
  by (rule field_comp [OF assms, where h = fst], simp add: place_fields_def,
      rule field_comp [OF assms, where h = "fst \<circ> snd"], simp add: place_fields_def,
      rule field_comp [OF assms, where h = "snd \<circ> snd"], simp add: place_fields_def)

lemma forest_same:
  assumes "forest gl gn gu H" "field gl H' = field gl H" "field gn H' = field gn H" "field gu H' = field gu H"
  shows "forest gl gn gu H'"
proof -
  have N: "H' i = None \<longleftrightarrow> H i = None" for i using fun_cong [OF assms(4), of i] by (metis field_eq_None)
  have "listed gl gn H' w xs" if "listed gl gn H w xs" for w xs
    using that by (rule listed_cong) (simp_all add: assms)
  then show ?thesis using assms(1,4) N unfolding forest_def by (metis (no_types, lifting))
qed

lemma same_slots:
  assumes kin: "field kin_fields H' = field kin_fields H" and pf: "field prop_fields H' = field prop_fields H"
    and wf: "wf_props H"
  shows "wf_props H'" "pslot H' = pslot H"
proof -
  note par = kin_fieldsD(1) [OF kin]
  have obj: "\<exists>y. H i = Some y \<and> prop_fields y = prop_fields x" if "H' i = Some x" for i x
    using field_at [OF pf, of i] that by (cases "H i") auto
  have N: "H' i = None \<longleftrightarrow> H i = None" for i using fun_cong [OF pf, of i] by (metis field_eq_None)
  have "defs_at H' j = defs_at H j" for j
    using field_at [OF pf, of j] by (cases "H j"; cases "H' j") (auto simp: defs_at_def prop_fields_def)
  then have vis: "visible H' xs = visible H xs" for xs by (intro visible_cong)
  show "wf_props H'"
    unfolding wf_props_def
  proof (intro allI impI)
    fix i x xs assume x: "H' i = Some x" "ancestry H' i xs"
    obtain y where y: "H i = Some y" "prop_fields y = prop_fields x" using obj [OF x(1)] by blast
    have "wf_prop H y xs" using wf_propsD [OF wf y(1)] x(2) par by simp
    then show "wf_prop H' x xs" by (rule wf_prop_cong) (use vis y(2) in \<open>simp_all add: prop_fields_def\<close>)
  qed
  show "pslot H' = pslot H"
  proof
    fix i
    have mem: "ll_members o_parent i H' = ll_members o_parent i H" by (rule ll_members_same [OF par])
    show "pslot H' i = pslot H i"
      unfolding pslot_def mem
      using field_at [OF pf, of i] by (cases "H i"; cases "H' i") (auto simp: vis prop_fields_def split: option.split)
  qed
qed

lemma wf_db_same:
  assumes wf: "wf_db db" and kin: "field kin_fields (objects db') = field kin_fields (objects db)"
    and pf: "field prop_fields (objects db') = field prop_fields (objects db)"
    and pl: "field place_fields (objects db') = field place_fields (objects db)"
    and "wf_table db'" "users_ok db'"
  shows "wf_db db'"
  using assms(5,6) wf_tree_same [OF wf_dbD(5) [OF wf] kin_fieldsD [OF kin]] same_slots(1) [OF kin pf wf_dbD(6) [OF wf]]
    forest_same [OF wf_dbD(2) [OF wf]] place_fieldsD [OF pl]
  by (simp add: wf_db_def wf_objects_def)

lemma field_upd_same: "H i = Some x \<Longrightarrow> f y = f x \<Longrightarrow> field f (H(i \<mapsto> y)) = field f H"
  using field_Some [of H i x f] by (simp add: fun_upd_idem)

lemma users_ok_upd:
  assumes "wf_table db" "users_ok db" "objects db i = Some x" "o_flags y = o_flags x" "o_id y = o_id x"
  shows "users_ok (db\<lparr>objects := (objects db)(i \<mapsto> y)\<rparr>)"
proof -
  have "is_user (db\<lparr>objects := (objects db)(i \<mapsto> y)\<rparr>) j \<longleftrightarrow> is_user db j" for j
    unfolding is_user_eq [OF wf_table_upd [OF assms(1,3,5)]] is_user_eq [OF assms(1)] using assms(3,4) by auto
  then show ?thesis using assms(2) by (simp add: users_ok_def)
qed

lemma wf_db_one:
  assumes wf: "wf_db db" and x: "objects db i = Some x" and o: "objects db' = (objects db)(i \<mapsto> y)"
    and "kin_fields y = kin_fields x" "prop_fields y = prop_fields x" "place_fields y = place_fields x"
    and "wf_table db'" "users_ok db'"
  shows "wf_db db'"
  unfolding o using assms(4-8)
    field_upd_same [of "objects db" i x kin_fields y, OF x] field_upd_same [of "objects db" i x prop_fields y, OF x]
    field_upd_same [of "objects db" i x place_fields y, OF x]
  by (intro wf_db_same [OF wf]) (simp_all add: o del: field_upd)

lemma wf_db_upd:
  assumes wf: "wf_db db" and x: "objects db i = Some x"
    and "kin_fields y = kin_fields x" "prop_fields y = prop_fields x" "place_fields y = place_fields x"
      "o_flags y = o_flags x" "o_id y = o_id x"
  shows "wf_db (db\<lparr>objects := (objects db)(i \<mapsto> y)\<rparr>)"
  by (rule wf_db_one [where y = y, OF wf x])
    (use assms wf_table_upd [OF wf_dbD(4) [OF wf] x] users_ok_upd [OF wf_dbD(4,3) [OF wf] x] in simp_all)

lemma wf_set_owner: "wf_db db \<Longrightarrow> objects db i = Some x \<Longrightarrow> \<exists>db'. db_set_object_owner db i w = Some db' \<and> wf_db db'"
  using wf_db_upd [of db i x "x\<lparr>o_owner := w\<rparr>"]
  by (simp add: db_set_object_owner_def upd_db_def kin_fields_def prop_fields_def place_fields_def)

lemma wf_set_name: "wf_db db \<Longrightarrow> objects db i = Some x \<Longrightarrow> \<exists>db'. db_set_object_name db i s = Some db' \<and> wf_db db'"
  using wf_db_upd [of db i x "x\<lparr>o_name := s\<rparr>"]
  by (simp add: db_set_object_name_def upd_db_def kin_fields_def prop_fields_def place_fields_def)

lemma wf_set_flag:
  assumes "wf_db db" "objects db i = Some x"
  shows "\<exists>db'. db_set_object_flag db i f = Some db' \<and> wf_db db'"
proof -
  obtain db' where "db_set_object_flag db i f = Some db'" "users_ok db'" "wf_table db'"
      "objects db' = (objects db)(i \<mapsto> x\<lparr>o_flags := o_flags x OR flag_mask f\<rparr>)"
    using set_flag_result [OF wf_dbD(4,3) [OF assms(1)] assms(2)] by metis
  then show ?thesis
    using wf_db_one [OF assms, of db'] by (simp add: kin_fields_def prop_fields_def place_fields_def)
qed

lemma wf_clear_flag:
  assumes "wf_db db" "objects db i = Some x"
  shows "\<exists>db'. db_clear_object_flag db i f = Some db' \<and> wf_db db'"
proof -
  obtain db' where "db_clear_object_flag db i f = Some db'" "users_ok db'" "wf_table db'"
      "objects db' = (objects db)(i \<mapsto> x\<lparr>o_flags := o_flags x AND NOT (flag_mask f)\<rparr>)"
    using clear_flag_result [OF wf_dbD(4,3) [OF assms(1)] assms(2)] by metis
  then show ?thesis
    using wf_db_one [OF assms, of db'] by (simp add: kin_fields_def prop_fields_def place_fields_def)
qed

section \<open>Creating\<close>

lemma forest_new:
  assumes f: "forest gl gn gu H" and n: "H n = None" "n \<noteq> NOTHING" and x: "gl x = NOTHING" "gu x = NOTHING"
  shows "forest gl gn gu (H(n \<mapsto> x))"
proof -
  let ?H = "H(n \<mapsto> x)"
  have up: "field gu H c = Some w \<Longrightarrow> w \<noteq> n" for c w using f n unfolding forest_def by metis
  have "\<exists>xs. listed gl gn ?H w xs \<and> (\<forall>c. c \<in> set xs \<longleftrightarrow> field gu ?H c = Some w)" if w: "?H w \<noteq> None" for w
  proof (cases "w = n")
    case True
    have "listed gl gn ?H n []" using x(1) by (simp add: listed_def)
    moreover have "field gu ?H c \<noteq> Some n" for c using up [of c n] x(2) n(2) by auto
    ultimately show ?thesis using True by (intro exI [of _ "[]"]) simp
  next
    case False
    then have "H w \<noteq> None" using w by simp
    then obtain xs where xs: "listed gl gn H w xs" "\<And>c. c \<in> set xs \<longleftrightarrow> field gu H c = Some w"
      using forest_obtain [OF f] by metis
    have "n \<notin> set xs" using xs(2) [of n] n(1) by (simp add: field_def)
    then have "listed gl gn ?H w xs" using xs(1) False by (intro listed_cong [OF xs(1)]) auto
    moreover have "w \<noteq> NOTHING" using \<open>H w \<noteq> None\<close> f by (auto simp: forest_def)
    then have "c \<in> set xs \<longleftrightarrow> field gu ?H c = Some w" for c
      using xs(2) [of c] x(2) \<open>n \<notin> set xs\<close> by auto
    ultimately show ?thesis by blast
  qed
  moreover have "w = NOTHING \<or> ?H w \<noteq> None" if "field gu ?H c = Some w" for c w
  proof (cases "c = n")
    case False
    then have "field gu H c = Some w" using that by simp
    then have "w = NOTHING \<or> H w \<noteq> None" using f unfolding forest_def by blast
    then show ?thesis by auto
  qed (use that x(2) in simp)
  moreover have "?H NOTHING = None" using f n(2) by (simp add: forest_def)
  ultimately show ?thesis unfolding forest_def by blast
qed

lemma ancestry_new:
  assumes tree: "wf_tree H" and n: "H n = None" "n \<noteq> NOTHING" and x: "o_parent x = NOTHING"
  shows "ancestry (H(n \<mapsto> x)) n [n]"
    and "H i \<noteq> None \<Longrightarrow> ancestry H i xs \<Longrightarrow> ancestry (H(n \<mapsto> x)) i xs"
proof -
  show "ancestry (H(n \<mapsto> x)) n [n]" using n(2) x by simp
  assume i: "H i \<noteq> None" "ancestry H i xs"
  have "n \<notin> set xs" using ancestry_dom [OF i(2), of n] n(1) by blast
  then show "ancestry (H(n \<mapsto> x)) i xs" using i(2) by simp
qed

lemma wf_tree_new:
  assumes tree: "wf_tree H" and n: "H n = None" "n \<noteq> NOTHING" and x: "o_parent x = NOTHING" "o_child x = NOTHING"
  shows "wf_tree (H(n \<mapsto> x))"
proof -
  have "\<exists>xs. ancestry (H(n \<mapsto> x)) i xs" if "(H(n \<mapsto> x)) i \<noteq> None" for i
  proof (cases "i = n")
    case True
    then show ?thesis using ancestry_new(1) [OF tree n x(1)] by blast
  next
    case False
    then have "H i \<noteq> None" using that by simp
    then show ?thesis using wf_tree_ancestry [OF tree] ancestry_new(2) [OF tree n x(1)] by metis
  qed
  then show ?thesis
    using wf_treeD(1) [OF tree] forest_new [OF wf_treeD(2) [OF tree] n x(2,1)] unfolding wf_tree_def by simp
qed

lemma slots_new:
  assumes wf: "wf_tree H" "wf_props H" and n: "H n = None" "n \<noteq> NOTHING"
    and x: "o_parent x = NOTHING" "pl (o_propdefs x) = []" "o_propval x = []" "o_waif_propdefs x = None"
      "0 \<le> max_length (o_propdefs x)"
  shows "wf_props (H(n \<mapsto> x))" "pslot (H(n \<mapsto> x)) = pslot H"
proof -
  let ?H = "H(n \<mapsto> x)"
  have vis: "visible ?H xs = visible H xs" if "n \<notin> set xs" for xs
    using that by (intro visible_cong) (auto simp: defs_at_def)
  have old: "ancestry H i xs \<and> n \<notin> set xs" if i: "H i = Some y" "ancestry ?H i xs" for i y xs
  proof -
    obtain ys where ys: "ancestry H i ys" using wf_tree_ancestry [OF wf(1), of i] i(1) by auto
    have "ancestry ?H i ys" by (rule ancestry_new(2) [OF wf(1) n x(1) _ ys]) (use i(1) in simp)
    then have "xs = ys" using i(2) by (rule links_unique [rotated])
    then show ?thesis using ys ancestry_dom [OF ys, of n] n(1) by blast
  qed
  show "wf_props ?H"
    unfolding wf_props_def
  proof (intro allI impI)
    fix i y xs assume y: "?H i = Some y" "ancestry ?H i xs"
    show "wf_prop ?H y xs"
    proof (cases "i = n")
      case True
      then have "xs = [n]" "y = x" using y ancestry_new(1) [OF wf(1) n x(1)] links_unique by auto
      then show ?thesis using x by (simp add: wf_prop_def)
    next
      case False
      then have yH: "H i = Some y" using y(1) by simp
      have "wf_prop H y xs" using wf_propsD [OF wf(2) yH] old [OF yH y(2)] by blast
      then show ?thesis by (rule wf_prop_cong) (use old [OF yH y(2)] vis in simp_all)
    qed
  qed
  show "pslot ?H = pslot H"
  proof
    fix i
    consider "i = n" | y where "i \<noteq> n" "H i = Some y" | "i \<noteq> n" "H i = None" by (cases "H i") auto
    then show "pslot ?H i = pslot H i"
    proof cases
      case 1
      then show ?thesis using pslot_eq [of ?H n x "[n]"] ancestry_new(1) [OF wf(1) n x(1)] x(3) n(1)
        by (simp add: pslot_None)
    next
      case (2 y)
      obtain ys where ys: "ancestry H i ys" using wf_tree_ancestry [OF wf(1), of i] 2 by auto
      have "n \<notin> set ys" using ancestry_dom [OF ys, of n] n(1) by blast
      then show ?thesis
        using pslot_eq [OF 2(2) ys] pslot_eq [of ?H i y ys] ancestry_new(2) [OF wf(1) n x(1) _ ys] 2 vis [of ys]
        by simp
    next
      case 3
      then show ?thesis by (simp add: pslot_None)
    qed
  qed
qed

lemma ensure_new_object_objects [simp]:
  "objects (ensure_new_object db) = objects db" "num_objects (ensure_new_object db) = num_objects db"
  "all_users (ensure_new_object db) = all_users db"
  by (simp_all add: ensure_new_object_def Let_def)

lemma ensure_new_object_room: "wf_table db \<Longrightarrow> num_objects db < max_objects (ensure_new_object db)"
  by (auto simp: ensure_new_object_def wf_table_def Let_def)

text \<open>The object that \<open>db_create_object\<close> leaves in the table.\<close>

definition fresh_object :: "obj \<Rightarrow> Objid \<Rightarrow> obj" where
  "fresh_object mem n =
     mem\<lparr>o_id := n, o_waif_propdefs := None, o_name := '''', o_flags := 0, o_parent := NOTHING,
       o_child := NOTHING, o_sibling := NOTHING, o_location := NOTHING, o_contents := NOTHING,
       o_next := NOTHING, o_propval := [], o_propdefs := \<lparr>max_length = 0, pl = []\<rparr>, o_verbdefs := []\<rparr>"

lemma create_object_result:
  assumes wf: "wf_db db"
  obtains db' where "db_create_object mem db = Some (num_objects db, db')" "wf_db db'"
    "objects db' = (objects db)(num_objects db \<mapsto> fresh_object mem (num_objects db))"
    "num_objects db' = num_objects db + 1" "pslot (objects db') = pslot (objects db)"
    "all_users db' = all_users db" "objects db (num_objects db) = None"
proof -
  let ?n = "num_objects db" and ?x = "fresh_object mem (num_objects db)"
  define db' where "db' = (ensure_new_object db)\<lparr>objects := (objects db)(?n \<mapsto> ?x), num_objects := ?n + 1\<rparr>"
  note wft = wf_dbD(4) [OF wf]
  have n: "objects db ?n = None" using wf_tableD [OF wft, of ?n] by (cases "objects db ?n") auto
  have nN: "?n \<noteq> NOTHING" using wft by (simp add: wf_table_def)
  have run: "db_create_object mem db = Some (?n, db')"
    by (simp add: db_create_object_def dbpriv_new_object_def upd_db_def db'_def fresh_object_def Let_def)
  have o: "objects db' = (objects db)(?n \<mapsto> ?x)" by (simp add: db'_def)
  have wft': "wf_table db'"
    using wft ensure_new_object_room [OF wft] less_le_trans
    unfolding wf_table_def by (auto simp: db'_def fresh_object_def intro: less_imp_le)
  have slots: "wf_props (objects db')" "pslot (objects db') = pslot (objects db)"
    unfolding o using slots_new [OF wf_dbD(5,6) [OF wf] n nN, of ?x] by (simp_all add: fresh_object_def)
  have "wf_tree (objects db')"
    unfolding o using wf_tree_new [OF wf_dbD(5) [OF wf] n nN, of ?x] by (simp add: fresh_object_def)
  moreover have "forest o_contents o_next o_location (objects db')"
    unfolding o using forest_new [OF wf_dbD(2) [OF wf] n nN, of ?x] by (simp add: fresh_object_def)
  moreover have "is_user db' i \<longleftrightarrow> is_user db i" for i
    unfolding is_user_eq [OF wft'] is_user_eq [OF wft] o using n by (simp add: fresh_object_def)
  then have "users_ok db'" using wf_dbD(3) [OF wf] by (simp add: users_ok_def db'_def)
  ultimately have "wf_db db'" using wft' slots by (simp add: wf_db_def wf_objects_def)
  then show ?thesis using that [OF run _ o _ slots(2) _ n] by (simp add: db'_def)
qed

section \<open>Destroying\<close>

lemma forest_delete:
  assumes f: "forest gl gn gu H" and n: "H n = Some x" "gl x = NOTHING" "gu x = NOTHING"
  shows "forest gl gn gu (H(n := None))"
proof -
  let ?H = "H(n := None)"
  have fld: "field g ?H = (field g H)(n := None)" for g :: "obj \<Rightarrow> Objid"
    by (auto simp: field_def fun_eq_iff)
  have l: "listed gl gn H n []" using n by (simp add: listed_def)
  have noone: "field gu H c \<noteq> Some n" for c using forest_listed [OF f l, of c] by simp
  have nN: "H NOTHING = None" using f by (simp add: forest_def)
  have "\<exists>xs. listed gl gn ?H w xs \<and> (\<forall>c. c \<in> set xs \<longleftrightarrow> field gu ?H c = Some w)" if w: "?H w \<noteq> None" for w
  proof -
    have w': "w \<noteq> n" "H w \<noteq> None" using w by (auto split: if_splits)
    obtain xs where xs: "listed gl gn H w xs" "\<And>c. c \<in> set xs \<longleftrightarrow> field gu H c = Some w"
      using forest_obtain [OF f w'(2)] by metis
    have "w \<noteq> NOTHING" using w'(2) nN by metis
    then have out: "n \<notin> set xs" using xs(2) [of n] n field_Some [of H n x gu] by simp
    have "listed gl gn ?H w xs" using out w'(1) by (intro listed_cong [OF xs(1)]) (auto simp: fld)
    moreover have "c \<in> set xs \<longleftrightarrow> field gu ?H c = Some w" for c
      using xs(2) [of c] out by (auto simp: fld)
    ultimately show ?thesis by blast
  qed
  moreover have "w = NOTHING \<or> ?H w \<noteq> None" if "field gu ?H c = Some w" for c w
  proof -
    have c: "field gu H c = Some w" using that by (auto simp: fld split: if_splits)
    then have "w \<noteq> n" using noone [of c] by auto
    moreover have "w = NOTHING \<or> H w \<noteq> None" using c f unfolding forest_def by blast
    ultimately show ?thesis by auto
  qed
  ultimately show ?thesis using nN unfolding forest_def by simp
qed

lemma leaf_not_above:
  assumes tree: "wf_tree H" and n: "H n = Some x" "o_child x = NOTHING" and i: "ancestry H i xs" "i \<noteq> n"
  shows "n \<notin> set xs"
proof
  assume "n \<in> set xs"
  then have d: "desc H n i" using i(1) by (simp add: desc_iff)
  have "children H n []" using n by (simp add: listed_def)
  then show False using desc_unfold [OF tree, of n "[]" i] d i(2) by simp
qed

lemma delete_leaf:
  assumes tree: "wf_tree H" and wfp: "wf_props H" and n: "H n = Some x" "o_child x = NOTHING" "o_parent x = NOTHING"
  shows "wf_tree (H(n := None))" "wf_props (H(n := None))" "i \<noteq> n \<Longrightarrow> pslot (H(n := None)) i = pslot H i"
proof -
  let ?H = "H(n := None)"
  have fld: "field o_parent ?H = (field o_parent H)(n := None)" by (auto simp: field_def fun_eq_iff)
  have anc: "ancestry ?H i xs" if "ancestry H i xs" "i \<noteq> n" for i xs
    using leaf_not_above [OF tree n(1,2) that] that(1) by (simp add: fld)
  have vis: "visible ?H xs = visible H xs" if "n \<notin> set xs" for xs
    using that by (intro visible_cong) (auto simp: defs_at_def)
  have "\<exists>xs. ancestry ?H i xs" if "?H i \<noteq> None" for i
  proof -
    have "i \<noteq> n" "H i \<noteq> None" using that by (auto split: if_splits)
    then show ?thesis using wf_tree_ancestry [OF tree] anc by metis
  qed
  then show "wf_tree ?H"
    using wf_treeD(1) [OF tree] forest_delete [OF wf_treeD(2) [OF tree] n] unfolding wf_tree_def by simp
  have old: "ancestry H i xs \<and> n \<notin> set xs" if i: "i \<noteq> n" "H i = Some y" "ancestry ?H i xs" for i y xs
  proof -
    obtain ys where ys: "ancestry H i ys" using wf_tree_ancestry [OF tree, of i] i(2) by auto
    have "xs = ys" using anc [OF ys i(1)] i(3) by (rule links_unique [rotated])
    then show ?thesis using ys leaf_not_above [OF tree n(1,2) ys i(1)] by simp
  qed
  show "wf_props ?H"
    unfolding wf_props_def
  proof (intro allI impI)
    fix i y xs assume y: "?H i = Some y" "ancestry ?H i xs"
    have i: "i \<noteq> n" "H i = Some y" using y(1) by (auto split: if_splits)
    have "wf_prop H y xs" using wf_propsD [OF wfp i(2)] old [OF i y(2)] by blast
    then show "wf_prop ?H y xs" by (rule wf_prop_cong) (use old [OF i y(2)] vis in simp_all)
  qed
  assume i: "i \<noteq> n"
  show "pslot ?H i = pslot H i"
  proof (cases "H i")
    case None
    then show ?thesis using i by (simp add: pslot_None)
  next
    case (Some y)
    obtain ys where ys: "ancestry H i ys" using wf_tree_ancestry [OF tree, of i] Some by auto
    show ?thesis
      using pslot_eq [OF Some ys] pslot_eq [of ?H i y ys] anc [OF ys i] i Some vis leaf_not_above [OF tree n(1,2) ys i]
      by simp
  qed
qed

lemma destroy_object_result:
  assumes wf: "wf_db db" and x: "objects db oid = Some x"
    and barren: "o_location x = NOTHING" "o_contents x = NOTHING" "o_parent x = NOTHING" "o_child x = NOTHING"
  obtains db' where "db_destroy_object db oid = Some db'" "wf_db db'" "objects db' = (objects db)(oid := None)"
    "num_objects db' = num_objects db" "\<And>i. i \<noteq> oid \<Longrightarrow> pslot (objects db') i = pslot (objects db) i"
    "set (all_users db') = set (all_users db) - {TYPE_OBJ oid}"
proof -
  let ?db1 = "db_priv_affected_callable_verb_lookup db"
  let ?us = "remove1 (TYPE_OBJ oid) (all_users db)"
  define db' where "db' = ?db1\<lparr>all_users := ?us, objects := (objects db)(oid := None)\<rparr>"
  note wft = wf_dbD(4) [OF wf] and us = wf_dbD(3) [OF wf]
  have u: "is_user ?db1 oid \<longleftrightarrow> is_user db oid"
    by (simp add: is_user_def valid_def db_object_has_flag_def)
  have "(if is_user ?db1 oid then setremove (all_users ?db1) (TYPE_OBJ oid) else Some (all_users ?db1)) = Some ?us"
    using us setremove_obj [OF users_ok_objs [OF us], of oid]
    by (cases "is_user db oid") (auto simp: u users_ok_def remove1_idem)
  then have run: "db_destroy_object db oid = Some db'"
    using x barren wf_table_find [OF wft] by (simp add: db_destroy_object_def db'_def Let_def)
  note dl = delete_leaf [OF wf_dbD(5,6) [OF wf] x barren(4,3)]
  have wft': "wf_table db'" using wft by (auto simp: wf_table_def db'_def split: if_splits)
  have "is_user db' i \<longleftrightarrow> is_user db i \<and> i \<noteq> oid" for i
    unfolding is_user_eq [OF wft'] is_user_eq [OF wft] by (auto simp: db'_def)
  then have "users_ok db'" using us by (auto simp: users_ok_def db'_def)
  moreover have "forest o_contents o_next o_location (objects db')"
    using forest_delete [OF wf_dbD(2) [OF wf] x barren(2,1)] by (simp add: db'_def)
  ultimately have "wf_db db'" using dl(1,2) wft' by (simp add: wf_db_def wf_objects_def db'_def)
  moreover have "set (all_users db') = set (all_users db) - {TYPE_OBJ oid}"
    using us by (simp add: users_ok_def db'_def)
  ultimately show ?thesis using that [OF run] dl(3) by (simp add: db'_def)
qed

lemma destroy_object_panics:
  assumes wf: "wf_db db"
  shows "db_destroy_object db oid = None \<longleftrightarrow>
    (case objects db oid of None \<Rightarrow> True
     | Some x \<Rightarrow> o_location x \<noteq> NOTHING \<or> o_contents x \<noteq> NOTHING \<or> o_parent x \<noteq> NOTHING \<or> o_child x \<noteq> NOTHING)"
proof (cases "objects db oid")
  case None
  then show ?thesis using wf_table_find [OF wf_dbD(4) [OF wf]] by (simp add: db_destroy_object_def Let_def)
next
  case (Some x)
  show ?thesis
  proof (cases "o_location x \<noteq> NOTHING \<or> o_contents x \<noteq> NOTHING \<or> o_parent x \<noteq> NOTHING \<or> o_child x \<noteq> NOTHING")
    case True
    then show ?thesis using Some wf_table_find [OF wf_dbD(4) [OF wf]] by (simp add: db_destroy_object_def Let_def)
  next
    case False
    then have b: "o_location x = NOTHING" "o_contents x = NOTHING" "o_parent x = NOTHING" "o_child x = NOTHING" by simp_all
    obtain db' where "db_destroy_object db oid = Some db'" by (rule destroy_object_result [OF wf Some b])
    then show ?thesis using Some b by simp
  qed
qed

end
