(* ===== verification/Db_Steps.thy ===== *)
theory Db_Steps
  imports Object_Laws
begin

text \<open>
  The operations of the database as one transition system. Each operation that the rest of the
  server can apply to objects, flags, properties, parents and locations is a labelled step with
  the guards its callers establish; the databases reachable from the empty one satisfy the
  invariant \<open>wf_db\<close>.
\<close>

section \<open>Operations on properties and parents\<close>

lemma users_ok_same:
  assumes "wf_table db" "wf_table db'" "users_ok db" "all_users db' = all_users db"
    "field o_flags (objects db') = field o_flags (objects db)"
  shows "users_ok db'"
proof -
  have "is_user db' j \<longleftrightarrow> is_user db j" for j
    unfolding is_user_eq [OF assms(1)] is_user_eq [OF assms(2)]
    using field_at [OF assms(5), of j] by (cases "objects db j"; cases "objects db' j") auto
  then show ?thesis using assms(3,4) by (simp add: users_ok_def)
qed

lemma wf_db_objects:
  assumes "wf_db db" "wf_objects db'" "all_users db' = all_users db"
    "field o_flags (objects db') = field o_flags (objects db)"
    "field place_fields (objects db') = field place_fields (objects db)"
  shows "wf_db db'"
  using assms(2) forest_same [OF wf_dbD(2) [OF assms(1)] place_fieldsD(2,3,1) [OF assms(5)]]
    users_ok_same [OF wf_dbD(4) [OF assms(1)] wf_objectsD(1) [OF assms(2)] wf_dbD(3) [OF assms(1)] assms(3,4)]
  by (simp add: wf_db_def)

lemma wf_db_props_only:
  assumes "wf_db db" "wf_objects db'" "props_only db db'"
  shows "wf_db db'"
proof (rule wf_db_objects [OF assms(1,2)])
  have f: "field no_props (objects db') = field no_props (objects db)" and r: "db' = db\<lparr>objects := objects db'\<rparr>"
    using assms(3) by (simp_all add: props_only_def)
  show "all_users db' = all_users db" by (subst r) simp
  show "field o_flags (objects db') = field o_flags (objects db)"
    by (rule field_comp [OF f, where h = o_flags]) (simp add: no_props_def)
  show "field place_fields (objects db') = field place_fields (objects db)"
    by (rule field_comp [OF f, where h = place_fields]) (simp add: no_props_def place_fields_def)
qed

lemma wf_db_no_kin:
  assumes "wf_db db" "wf_objects db'" "field no_kin (objects db') = field no_kin (objects db)"
    "all_users db' = all_users db"
  shows "wf_db db'"
proof (rule wf_db_objects [OF assms(1,2,4)])
  show "field o_flags (objects db') = field o_flags (objects db)"
    by (rule field_comp [OF assms(3), where h = o_flags]) (simp add: no_kin_def no_props_def)
  show "field place_fields (objects db') = field place_fields (objects db)"
    by (rule field_comp [OF assms(3), where h = place_fields]) (simp add: no_kin_def no_props_def place_fields_def)
qed

section \<open>Changing the location\<close>

lemma change_location_result:
  assumes wf: "wf_db db" and x: "objects db what = Some x" and dest: "dest = NOTHING \<or> objects db dest \<noteq> None"
  obtains db' where "db_change_location db what dest = Some db'" "wf_db db'"
    "field o_location (objects db') = (field o_location (objects db))(what \<mapsto> dest)"
    "\<And>w ys. contents (objects db) w ys \<Longrightarrow>
       contents (objects db') w (filter (\<lambda>c. c \<noteq> what) ys @ (if w = dest then [what] else []))"
    "pslot (objects db') = pslot (objects db)" "field o_parent (objects db') = field o_parent (objects db)"
    "field o_verbdefs (objects db') = field o_verbdefs (objects db)" "vc_table db' = vc_table db"
proof -
  let ?sl = "\<lambda>v. o_contents_update (\<lambda>_. v)" and ?sn = "\<lambda>v. o_next_update (\<lambda>_. v)" and ?su = "\<lambda>v. o_location_update (\<lambda>_. v)"
  note wft = wf_dbD(4) [OF wf] and f = wf_dbD(2) [OF wf]
  obtain H' where run: "relink o_contents ?sl o_next ?sn o_location ?su what dest (objects db) = Some H'"
      and m: "moved o_contents ?sl o_next ?sn o_location ?su what dest (objects db) H'"
    by (rule inv.relink_moved [OF f, of what dest]) (use x in simp)
  define db' where "db' = db\<lparr>objects := H'\<rparr>"
  have o: "objects db' = H'" by (simp add: db'_def)
  have fld: "field g H' = field g (objects db)"
    if "\<And>v y. g (?sl v y) = g y" "\<And>v y. g (?sn v y) = g y" "\<And>v y. g (?su v y) = g y" for g :: "obj \<Rightarrow> 'b"
    by (rule moved_field [OF m]) (simp_all add: that)
  have kin: "field kin_fields H' = field kin_fields (objects db)" by (rule fld) (simp_all add: kin_fields_def)
  have pf: "field prop_fields H' = field prop_fields (objects db)" by (rule fld) (simp_all add: prop_fields_def)
  have ids: "field o_id H' = field o_id (objects db)" by (rule moved_field [OF m]) simp_all
  have verbs: "field o_verbdefs H' = field o_verbdefs (objects db)" by (rule moved_field [OF m]) simp_all
  have flags: "field o_flags H' = field o_flags (objects db)" by (rule moved_field [OF m]) simp_all
  have "\<exists>y. objects db i = Some y \<and> o_id y = o_id z" if "H' i = Some z" for i z
    using that field_at [OF ids, of i] by (cases "objects db i") auto
  then have wft': "wf_table db'" using wft unfolding wf_table_def db'_def by fastforce
  have "wf_objects db'"
    using wft' wf_tree_same [OF wf_dbD(5) [OF wf] kin_fieldsD [OF kin]] same_slots(1) [OF kin pf wf_dbD(6) [OF wf]]
    by (simp add: wf_objects_def o)
  moreover have "users_ok db'"
    using users_ok_same [OF wft wft' wf_dbD(3) [OF wf]] flags by (simp add: db'_def)
  ultimately have "wf_db db'" using inv.moved_forest [OF f dest m] by (simp add: wf_db_def o)
  moreover have "db_change_location db what dest = Some db'"
    using run x by (cases "objects db dest"; cases "objects db (o_location x)")
      (auto simp: db_change_location_def relink_def valid_def wf_table_find [OF wft] db'_def bind_eq_Some_conv Let_def)
  ultimately show ?thesis
    using that [of db'] moved_up [OF m] moved_listed [OF m] same_slots(2) [OF kin pf wf_dbD(6) [OF wf]]
      kin_fieldsD(1) [OF kin] verbs by (simp add: o) (simp add: db'_def)
qed

section \<open>Writing through a handle\<close>

lemma map_of_zip_list_update:
  assumes "length ks = length vs" "distinct ks" "n < length ks"
  shows "map_of (zip ks (vs[n := v])) = (map_of (zip ks vs))(ks ! n \<mapsto> v)"
proof
  fix k
  have "map_of (zip ks (vs[n := v])) k = (if k = ks ! n then Some v else map_of (zip ks vs) k)"
    using assms
  proof (induction ks vs arbitrary: n rule: list_induct2)
    case (Cons a ks b vs)
    then show ?case by (cases n) (auto simp del: map_of_eq_Some_iff Some_eq_map_of_iff)
  qed simp
  then show "map_of (zip ks (vs[n := v])) k = ((map_of (zip ks vs))(ks ! n \<mapsto> v)) k" by simp
qed

lemma set_slot_result:
  assumes wf: "wf_objects db" and x: "objects db i = Some x" "ancestry (objects db) i xs"
    and n: "n < length (visible (objects db) xs)" and h: "ptr h = Slot_prop i n"
    and keep: "n < cur_length (o_propdefs x) \<Longrightarrow> p_var (f (o_propval x ! n)) \<noteq> TYPE_CLEAR"
  obtains db' where "set_slot f db h = Some db'" "wf_objects db'" "props_only db db'"
    "pslot (objects db') = (pslot (objects db))(i := (pslot (objects db) i)(visible (objects db) xs ! n \<mapsto> f (o_propval x ! n)))"
proof -
  let ?H = "objects db"
  define y where "y = x\<lparr>o_propval := (o_propval x)[n := f (o_propval x ! n)]\<rparr>"
  define db' where "db' = db\<lparr>objects := ?H(i \<mapsto> y)\<rparr>"
  have wp: "wf_prop ?H x xs" using wf_propsD [OF wf_objectsD(3) [OF wf] x] .
  have len: "length (o_propval x) = length (visible ?H xs)" using wp by (simp add: wf_prop_def)
  have run: "set_slot f db h = Some db'" using h x(1) n len by (simp add: set_slot_def upd_db_def db'_def y_def)
  have po: "props_only db db'"
    unfolding db'_def by (rule props_only_upd [OF x(1)]) (simp add: y_def no_props_def)
  have par: "field o_parent (objects db') = field o_parent ?H" by (rule props_only_field [OF po]) simp
  have "defs_at (objects db') j = defs_at ?H j" for j using x(1) by (simp add: db'_def y_def defs_at_def)
  then have vis: "visible (objects db') zs = visible ?H zs" for zs by (intro visible_cong)
  have wp': "wf_prop ?H y xs"
    using wp keep n len by (auto simp: wf_prop_def y_def nth_list_update)
  have "wf_props (objects db')"
    unfolding wf_props_def
  proof (intro allI impI)
    fix j z zs assume z: "objects db' j = Some z" "ancestry (objects db') j zs"
    then have zs: "ancestry ?H j zs" using par by simp
    have "wf_prop ?H z zs"
    proof (cases "j = i")
      case True
      then show ?thesis using z(1) zs x(2) wp' links_unique [OF zs [unfolded True] x(2)] by (simp add: db'_def)
    next
      case False
      then show ?thesis using wf_propsD [OF wf_objectsD(3) [OF wf] _ zs, of z] z(1) by (simp add: db'_def)
    qed
    then show "wf_prop (objects db') z zs" by (rule wf_prop_cong) (simp_all add: vis)
  qed
  then have wf': "wf_objects db'"
    using props_only_wf [OF po wf_objectsD(1,2) [OF wf]] by (simp add: wf_objects_def)
  have "pslot (objects db') j = ((pslot ?H)(i := (pslot ?H i)(visible ?H xs ! n \<mapsto> f (o_propval x ! n)))) j" for j
  proof (cases "j = i")
    case True
    have "ancestry (objects db') i xs" using x(2) par by simp
    then have "pslot (objects db') i = map_of (zip (visible ?H xs) (o_propval y))"
      using pslot_eq [of "objects db'" i y xs] by (simp add: db'_def vis [unfolded db'_def, simplified])
    also have "\<dots> = (map_of (zip (visible ?H xs) (o_propval x)))(visible ?H xs ! n \<mapsto> f (o_propval x ! n))"
      using map_of_zip_list_update [of "visible ?H xs" "o_propval x" n] len wf_prop_distinct [OF wp] n by (simp add: y_def)
    finally show ?thesis using True pslot_eq [OF x] by simp
  next
    case False
    have "ll_members o_parent j (objects db') = ll_members o_parent j ?H" by (rule ll_members_same [OF par])
    then show ?thesis using False by (simp add: pslot_def db'_def vis [unfolded db'_def, simplified] split: option.split)
  qed
  then show ?thesis using that [OF run wf' po] by blast
qed

end
