(* ===== verification/Memo.thy ===== *)
theory Memo
  imports Prelude
begin

text \<open>
  The contract of the caches of the server: a table of results computed earlier, from which
  entries may disappear at any time and which must never change an answer.
\<close>

section \<open>Memo tables\<close>

text \<open>
  A cache of the results of \<open>compute\<close> that answers a key with the result stored for a key that
  counts as the same. Only the keys that are \<open>ok\<close> are promised a right answer.
\<close>

locale memo =
  fixes compute :: "'k \<Rightarrow> 'v"
    and same_key :: "'k \<Rightarrow> 'k \<Rightarrow> bool"
    and ok :: "'k \<Rightarrow> bool"
  assumes same_compute: "ok k \<Longrightarrow> same_key k k' \<Longrightarrow> compute k' = compute k"
    and same_ok: "ok k \<Longrightarrow> same_key k k' \<Longrightarrow> ok k'"
begin

definition coherent :: "('k \<times> 'v) set \<Rightarrow> bool" where
  "coherent es \<longleftrightarrow> (\<forall>(k, v) \<in> es. ok k \<longrightarrow> v = compute k)"

lemma coherent_empty: "coherent {}"
  by (simp add: coherent_def)

lemma coherent_subset: "coherent es \<Longrightarrow> es' \<subseteq> es \<Longrightarrow> coherent es'"
  by (auto simp: coherent_def)

lemma coherent_insert: "coherent es \<Longrightarrow> (ok k \<Longrightarrow> v = compute k) \<Longrightarrow> coherent (insert (k, v) es)"
  by (auto simp: coherent_def)

lemma coherent_hit:
  assumes "coherent es" "(k', v) \<in> es" "same_key k k'" "ok k"
  shows "v = compute k"
  using assms same_compute [OF assms(4,3)] same_ok [OF assms(4,3)] by (auto simp: coherent_def)

end

end
