(* ===== verification/Verb_Laws.thy ===== *)
theory Verb_Laws
  imports Verbs Db_Steps Memo
begin

text \<open>
  What the verb operations guarantee: the attributes packed into one \<^verbatim>\<open>short\<close> are read back as
  they were written, a search returns the first fitting verb on the chain of ancestors, and the
  cache of callable verbs never changes the answer of a search.
\<close>

section \<open>Searching the ancestors\<close>

fun callable_on :: "(verb_handle \<Rightarrow> bool) \<Rightarrow> heap \<Rightarrow> string \<Rightarrow> Objid list \<Rightarrow> verb_handle option" where
  "callable_on same H verb [] = None"
| "callable_on same H verb (i # xs) =
     (case H i of
        None \<Rightarrow> None
      | Some x \<Rightarrow>
          (case find_verb_from same i verb True 0 (o_verbdefs x) of
             Some n \<Rightarrow> Some (i, n)
           | None \<Rightarrow> callable_on same H verb xs))"

lemma ancestry_step:
  assumes "wf_table db" "ancestry (objects db) i (j # xs)"
  obtains x where "i = j" "objects db j = Some x" "o_id x = j" "ancestry (objects db) (o_parent x) xs"
  using assms wf_tableD [OF assms(1)] by (auto simp: field_eq_Some)

lemma ancestry_find:
  assumes "wf_table db" "ancestry (objects db) i []"
  shows "objects db i = None"
  using assms wf_table_NOTHING by simp

lemma callable_loop_eq:
  assumes "wf_table db"
  shows "ancestry (objects db) i xs \<Longrightarrow>
    callable_loop same db (objects db i) verb = Some (callable_on same (objects db) verb xs)"
proof (induction xs arbitrary: i)
  case Nil
  then show ?case using ancestry_find [OF assms Nil] by (subst callable_loop.simps) simp
next
  case (Cons j xs)
  obtain x where x: "i = j" "objects db j = Some x" "o_id x = j" "ancestry (objects db) (o_parent x) xs"
    by (rule ancestry_step [OF assms Cons(2)])
  show ?case
    using x Cons(1) [OF x(4)]
    by (subst callable_loop.simps)
      (simp add: find_verbdef_by_name_def wf_table_find [OF assms] split: option.split)
qed

lemma with_verbs_eq:
  assumes "wf_table db"
  shows "ancestry (objects db) i xs \<Longrightarrow>
    \<exists>ys zs. xs = ys @ zs \<and> (\<forall>y \<in> set ys. \<exists>x. objects db y = Some x \<and> o_verbdefs x = []) \<and>
      with_verbs db i = Some (case zs of [] \<Rightarrow> None | z # _ \<Rightarrow> objects db z) \<and>
      (zs \<noteq> [] \<longrightarrow> (\<exists>x. objects db (hd zs) = Some x \<and> o_verbdefs x \<noteq> [] \<and> o_id x = hd zs)) \<and>
      ancestry (objects db) (case zs of [] \<Rightarrow> NOTHING | z # _ \<Rightarrow> z) zs"
proof (induction xs arbitrary: i)
  case Nil
  then show ?case
    using ancestry_find [OF assms Nil] by (subst with_verbs.simps) (simp add: wf_table_find [OF assms])
next
  case (Cons j xs)
  obtain x where x: "i = j" "objects db j = Some x" "o_id x = j" "ancestry (objects db) (o_parent x) xs"
    by (rule ancestry_step [OF assms Cons(2)])
  show ?case
  proof (cases "o_verbdefs x = []")
    case True
    obtain ys zs where yz: "xs = ys @ zs" "\<forall>y \<in> set ys. \<exists>x. objects db y = Some x \<and> o_verbdefs x = []"
        "with_verbs db (o_parent x) = Some (case zs of [] \<Rightarrow> None | z # _ \<Rightarrow> objects db z)"
        "zs \<noteq> [] \<longrightarrow> (\<exists>x. objects db (hd zs) = Some x \<and> o_verbdefs x \<noteq> [] \<and> o_id x = hd zs)"
        "ancestry (objects db) (case zs of [] \<Rightarrow> NOTHING | z # _ \<Rightarrow> z) zs"
      using Cons(1) [OF x(4)] by blast
    then have "with_verbs db i = Some (case zs of [] \<Rightarrow> None | z # _ \<Rightarrow> objects db z)"
      using x True by (subst with_verbs.simps) (simp add: wf_table_find [OF assms])
    then show ?thesis using yz x True by (intro exI [of _ "j # ys"] exI [of _ zs]) auto
  next
    case False
    then have "with_verbs db i = Some (Some x)"
      using x by (subst with_verbs.simps) (simp add: wf_table_find [OF assms])
    then show ?thesis using x False Cons(2) by (intro exI [of _ "[]"] exI [of _ "j # xs"]) auto
  qed
qed

lemma callable_on_skip:
  "\<forall>y \<in> set ys. \<exists>x. H y = Some x \<and> o_verbdefs x = [] \<Longrightarrow> callable_on same H verb (ys @ zs) = callable_on same H verb zs"
  by (induction ys) auto

section \<open>Which strings a search distinguishes\<close>

lemma alias_matches_folded: "map cmap w = map cmap w' \<Longrightarrow> alias_matches a w = alias_matches a w'"
  using map_eq_imp_length_eq [of cmap w cmap w'] by (simp add: alias_matches_def Let_def)

lemma verb_loop_folded: "folded w = folded w' \<Longrightarrow> verb_loop v w = verb_loop v w'"
  unfolding verb_loop_iff folded_def using alias_matches_folded [of "cstr w" "cstr w'"] by simp

text \<open>The words that a caller of a verb normally uses: neither empty nor with blanks or stars.\<close>

definition plain_word :: "string \<Rightarrow> bool" where
  "plain_word w \<longleftrightarrow> cstr w \<noteq> [] \<and> CHR '' '' \<notin> set (cstr w) \<and> CHR ''*'' \<notin> set (cstr w)"

lemma cmap_fixed:
  assumes "\<not> (0x41 \<le> byte d \<and> byte d \<le> 0x5a)" "\<not> (0x61 \<le> byte d \<and> byte d \<le> 0x7a)"
  shows "cmap c = d \<longleftrightarrow> c = d"
proof (cases "0x41 \<le> byte c \<and> byte c \<le> 0x5a")
  case True
  then have "byte (cmap c) = byte c + 0x20" by (simp add: cmap_def)
  then have "cmap c \<noteq> d" "c \<noteq> d" using True assms by auto
  then show ?thesis by simp
qed (auto simp: cmap_def)

lemma cmap_eq_blank [simp]: "cmap c = CHR '' '' \<longleftrightarrow> c = CHR '' ''"
  by (rule cmap_fixed) simp_all

lemma cmap_eq_star [simp]: "cmap c = CHR ''*'' \<longleftrightarrow> c = CHR ''*''"
  by (rule cmap_fixed) simp_all

lemma set_map_cmap: "(\<And>c. cmap c = d \<longleftrightarrow> c = d) \<Longrightarrow> d \<in> set (map cmap s) \<longleftrightarrow> d \<in> set s"
  unfolding set_map by (metis imageE image_eqI)

lemma plain_word_folded: "folded w = folded w' \<Longrightarrow> plain_word w = plain_word w'"
proof -
  have "plain_word w \<longleftrightarrow> folded w \<noteq> [] \<and> CHR '' '' \<notin> set (folded w) \<and> CHR ''*'' \<notin> set (folded w)" for w
    using set_map_cmap [OF cmap_eq_blank, of "cstr w"] set_map_cmap [OF cmap_eq_star, of "cstr w"]
    by (simp add: plain_word_def folded_def)
  then show "folded w = folded w' \<Longrightarrow> plain_word w = plain_word w'" by metis
qed

lemma verb_loop_self: "plain_word w \<Longrightarrow> verb_loop w w"
proof -
  assume w: "plain_word w"
  have "takeWhile (\<lambda>c. c \<noteq> NUL \<and> c \<noteq> CHR '' '') w = cstr w"
  proof -
    have "takeWhile (\<lambda>c. c \<noteq> NUL \<and> c \<noteq> CHR '' '') w = takeWhile (\<lambda>c. c \<noteq> CHR '' '') (cstr w)"
      by (induction w) auto
    also have "\<dots> = cstr w" using w unfolding plain_word_def by (simp add: takeWhile_eq_all_conv) metis
    finally show ?thesis .
  qed
  moreover have "literals (cstr w) = cstr w" using w by (auto simp: literals_def plain_word_def intro: filter_True)
  moreover have "hd0 w \<noteq> NUL" using w by (cases w) (auto simp: plain_word_def)
  ultimately show "verb_loop w w" by (subst verb_loop_iff, subst verb_names.simps) (simp add: alias_matches_def)
qed

text \<open>The argument \<open>same\<close> of a search for \<open>w\<close> tells the truth: it holds only of verbs with that
  name.\<close>

definition same_ok :: "heap \<Rightarrow> string \<Rightarrow> (verb_handle \<Rightarrow> bool) \<Rightarrow> bool" where
  "same_ok H w same \<longleftrightarrow>
     (\<forall>d n x. same (d, n) \<longrightarrow> H d = Some x \<longrightarrow> n < length (o_verbdefs x) \<longrightarrow> v_name (o_verbdefs x ! n) = w)"

lemma find_verb_from_same:
  assumes "plain_word w" "\<And>k. k < length vs \<Longrightarrow> same (d, n + k) \<Longrightarrow> v_name (vs ! k) = w"
  shows "find_verb_from same d w b n vs = find_verb_from (\<lambda>_. False) d w b n vs"
  using assms(2)
proof (induction vs arbitrary: n)
  case (Cons v vs)
  have "verbcasecmp (same (d, n)) (v_name v) w = verbcasecmp False (v_name v) w"
    using Cons(2) [of 0] verb_loop_self [OF assms(1)] by (auto simp: verbcasecmp_def)
  moreover have "find_verb_from same d w b (Suc n) vs = find_verb_from (\<lambda>_. False) d w b (Suc n) vs"
    by (rule Cons(1)) (use Cons(2) in force)
  ultimately show ?case by (simp only: find_verb_from.simps)
qed simp

lemma callable_on_same:
  assumes "plain_word w" "same_ok H w same"
  shows "callable_on same H w xs = callable_on (\<lambda>_. False) H w xs"
proof (induction xs)
  case (Cons i xs)
  have "find_verb_from same i w True 0 (o_verbdefs x) = find_verb_from (\<lambda>_. False) i w True 0 (o_verbdefs x)"
    if "H i = Some x" for x
    using assms that by (intro find_verb_from_same) (auto simp: same_ok_def)
  then show ?case using Cons by (simp split: option.split)
qed simp

lemma find_verb_from_folded:
  "folded w = folded w' \<Longrightarrow> find_verb_from (\<lambda>_. False) d w b n vs = find_verb_from (\<lambda>_. False) d w' b n vs"
  using verb_loop_folded [of w w'] by (induction vs arbitrary: n) (auto simp: verbcasecmp_def)

lemma callable_on_folded:
  "folded w = folded w' \<Longrightarrow> callable_on (\<lambda>_. False) H w xs = callable_on (\<lambda>_. False) H w' xs"
  by (induction xs) (auto simp: find_verb_from_folded [of w w'] split: option.split)

section \<open>The cache\<close>

text \<open>The specification: the first verb with the executable flag that accepts the word, on the
  object and then its ancestors.\<close>

definition callable :: "heap \<Rightarrow> Objid \<Rightarrow> string \<Rightarrow> verb_handle option" where
  "callable H i w =
     (case ll_members o_parent i H of Some xs \<Rightarrow> callable_on (\<lambda>_. False) H w xs | None \<Rightarrow> None)"

lemma callable_eq: "ancestry H i xs \<Longrightarrow> callable H i w = callable_on (\<lambda>_. False) H w xs"
  by (simp add: callable_def ll_members_links)

lemma callable_NOTHING [simp]: "callable H NOTHING w = None"
  using callable_eq [of H NOTHING "[]"] by simp

definition vc_compute :: "heap \<Rightarrow> Objid \<times> string \<Rightarrow> verb_handle option" where
  "vc_compute H k = callable H (fst k) (snd k)"

definition vc_same_key :: "Objid \<times> string \<Rightarrow> Objid \<times> string \<Rightarrow> bool" where
  "vc_same_key k k' \<longleftrightarrow> fst k = fst k' \<and> folded (snd k) = folded (snd k')"

definition vc_plain :: "Objid \<times> string \<Rightarrow> bool" where
  "vc_plain k \<longleftrightarrow> plain_word (snd k)"

lemma vc_compute_same: "vc_same_key k k' \<Longrightarrow> vc_compute H k' = vc_compute H k"
proof -
  assume k: "vc_same_key k k'"
  have f: "folded (snd k') = folded (snd k)" using k by (simp only: vc_same_key_def)
  have "callable H i (snd k') = callable H i (snd k)" for i
    unfolding callable_def by (cases "ll_members o_parent i H") (simp_all only: option.case callable_on_folded [OF f])
  then show "vc_compute H k' = vc_compute H k" using k by (simp only: vc_compute_def vc_same_key_def)
qed

interpretation vc: memo "vc_compute H" vc_same_key vc_plain for H :: heap
proof unfold_locales
  fix k k' assume "vc_same_key k k'" "vc_plain k"
  then show "vc_compute H k' = vc_compute H k" "vc_plain k'"
    using vc_compute_same plain_word_folded unfolding vc_plain_def vc_same_key_def by blast+
qed

definition vc_pair :: "vc_entry \<Rightarrow> (Objid \<times> string) \<times> verb_handle option" where
  "vc_pair e = ((vc_oid_key e, vc_verbname e), vc_h e)"

definition has_verbs :: "heap \<Rightarrow> Objid \<Rightarrow> bool" where
  "has_verbs H i \<longleftrightarrow> (\<exists>x. H i = Some x \<and> o_verbdefs x \<noteq> [])"

text \<open>The entries of the cache hold right answers, and their keys are objects that have verbs.\<close>

definition vc_ok :: "db \<Rightarrow> bool" where
  "vc_ok db \<longleftrightarrow>
     (case vc_table db of
        None \<Rightarrow> True
      | Some t \<Rightarrow>
          t \<noteq> [] \<and> memo.coherent (vc_compute (objects db)) vc_plain (vc_pair ` set (concat t)) \<and>
          (\<forall>e \<in> set (concat t). vc_oid_key e = NOTHING \<or> has_verbs (objects db) (vc_oid_key e)))"

definition cache_only :: "db \<Rightarrow> db \<Rightarrow> bool" where
  "cache_only db db' \<longleftrightarrow>
     db' = db\<lparr>vc_table := vc_table db', verbcache_hit := verbcache_hit db',
             verbcache_neg_hit := verbcache_neg_hit db', verbcache_miss := verbcache_miss db'\<rparr>"

lemma vc_ok_flush: "vc_ok db \<Longrightarrow>
    vc_table db' = vc_table (db_priv_affected_callable_verb_lookup db) \<Longrightarrow> vc_ok db'"
  by (auto simp: vc_ok_def db_priv_affected_callable_verb_lookup_def vc.coherent_empty split: option.splits)

lemma make_vc_table_ok: "vc_ok (make_vc_table DEFAULT_VC_SIZE db)"
  by (simp add: vc_ok_def make_vc_table_def DEFAULT_VC_SIZE_def vc.coherent_empty concat_replicate_trivial)

lemma callable_first:
  assumes wft: "wf_table db" and anc: "ancestry (objects db) i xs"
  obtains ob where "with_verbs db i = Some ob"
    "callable (objects db) (case ob of Some x \<Rightarrow> o_id x | None \<Rightarrow> NOTHING) w = callable (objects db) i w"
    "(case ob of Some x \<Rightarrow> o_id x | None \<Rightarrow> NOTHING) = NOTHING \<or>
      has_verbs (objects db) (case ob of Some x \<Rightarrow> o_id x | None \<Rightarrow> NOTHING)"
    "callable_loop same db ob w = Some (callable_on same (objects db) w xs)"
proof -
  obtain ys zs where yz: "xs = ys @ zs" "\<forall>y \<in> set ys. \<exists>x. objects db y = Some x \<and> o_verbdefs x = []"
      "with_verbs db i = Some (case zs of [] \<Rightarrow> None | z # _ \<Rightarrow> objects db z)"
      "zs \<noteq> [] \<longrightarrow> (\<exists>x. objects db (hd zs) = Some x \<and> o_verbdefs x \<noteq> [] \<and> o_id x = hd zs)"
      "ancestry (objects db) (case zs of [] \<Rightarrow> NOTHING | z # _ \<Rightarrow> z) zs"
    using with_verbs_eq [OF wft anc] by blast
  have skip: "callable_on s (objects db) w xs = callable_on s (objects db) w zs" for s
    unfolding yz(1) by (rule callable_on_skip [OF yz(2)])
  have call: "callable (objects db) i w = callable_on (\<lambda>_. False) (objects db) w zs"
    using callable_eq [OF anc] skip by simp
  show ?thesis
  proof (cases zs)
    case Nil
    then show ?thesis using that [of None] yz(3) call skip by (simp add: callable_loop.simps)
  next
    case (Cons z zs')
    then obtain x where x: "objects db z = Some x" "o_verbdefs x \<noteq> []" "o_id x = z" using yz(4) by auto
    have anz: "ancestry (objects db) z zs" using yz(5) Cons by simp
    have "callable_loop same db (Some x) w = Some (callable_on same (objects db) w xs)"
      using callable_loop_eq [OF wft anz, of same w] x(1) skip by simp
    moreover have "callable (objects db) z w = callable (objects db) i w" using callable_eq [OF anz] call by simp
    ultimately show ?thesis using that [of "Some x"] yz(3) Cons x by (simp add: has_verbs_def)
  qed
qed

lemma vc_ok_insert:
  assumes ok: "vc_ok db" and t: "vc_table db = Some t"
    and new: "vc_plain (fst (vc_pair e)) \<Longrightarrow> vc_h e = vc_compute (objects db) (fst (vc_pair e))"
    and key: "vc_oid_key e = NOTHING \<or> has_verbs (objects db) (vc_oid_key e)"
    and db': "objects db' = objects db" "vc_table db' = Some (t[b := e # t ! b])" and b: "b < length t"
  shows "vc_ok db'"
proof -
  have sub: "set (concat (t[b := e # t ! b])) \<subseteq> insert e (set (concat t))"
    using b set_update_subset_insert [of t b "e # t ! b"] nth_mem [OF b] by fastforce
  have "memo.coherent (vc_compute (objects db)) vc_plain (insert (vc_pair e) (vc_pair ` set (concat t)))"
    using ok t new vc.coherent_insert [of "objects db" "vc_pair ` set (concat t)" "fst (vc_pair e)" "vc_h e"]
    by (simp add: vc_ok_def vc_pair_def)
  then have "memo.coherent (vc_compute (objects db)) vc_plain (vc_pair ` set (concat (t[b := e # t ! b])))"
    by (rule vc.coherent_subset) (use sub in auto)
  then show ?thesis using ok t key sub by (fastforce simp: vc_ok_def db')
qed

text \<open>A search through the cache: it answers as the specification does, and the cache stays in
  order.\<close>

lemma vc_bucket: "t \<noteq> [] \<Longrightarrow> nat (uint (hash :: 32 word) mod int (length t)) < length t"
  by (simp add: nat_less_iff)

lemma find_callable_core:
  assumes wft: "wf_table db" and ok: "vc_ok db" and anc: "ancestry (objects db) i xs"
    and same: "same_ok (objects db) w same" and t: "vc_table db = Some t"
  obtains h db' where "db_find_callable_verb same db i w = Some (h, db')" "cache_only db db'" "vc_ok db'"
    "plain_word w \<Longrightarrow> h = callable (objects db) i w"
proof -
  obtain ob where ob: "with_verbs db i = Some ob"
      "callable (objects db) (case ob of Some x \<Rightarrow> o_id x | None \<Rightarrow> NOTHING) w = callable (objects db) i w"
      "(case ob of Some x \<Rightarrow> o_id x | None \<Rightarrow> NOTHING) = NOTHING \<or>
        has_verbs (objects db) (case ob of Some x \<Rightarrow> o_id x | None \<Rightarrow> NOTHING)"
      "callable_loop same db ob w = Some (callable_on same (objects db) w xs)"
    by (rule callable_first [OF wft anc])
  define first where "first = (case ob of Some x \<Rightarrow> o_id x | None \<Rightarrow> NOTHING)"
  define hash where "hash = vc_hash_of w first"
  define b where "b = nat (uint hash mod int (length t))"
  note ob' = ob [folded first_def]
  have tne: "t \<noteq> []" using ok t by (simp add: vc_ok_def)
  then have b: "b < length t" unfolding b_def by (rule vc_bucket)
  have made: "(if vc_table db = None then make_vc_table DEFAULT_VC_SIZE db else db) = db" using t by simp
  have run: "db_find_callable_verb same db i w =
    (case find (vc_matches hash first w) (t ! b) of
       Some vc \<Rightarrow>
         (case vc_h vc of
            Some h \<Rightarrow> Some (Some h, db\<lparr>verbcache_hit := verbcache_hit db + 1\<rparr>)
          | None \<Rightarrow> Some (None, db\<lparr>verbcache_neg_hit := verbcache_neg_hit db + 1\<rparr>))
     | None \<Rightarrow>
         do {
           h \<leftarrow> callable_loop same db ob w;
           let new_vc = \<lparr>vc_hash = hash, vc_oid_key = first, vc_verbname = w, vc_h = h\<rparr>;
           Some (h, db\<lparr>verbcache_miss := verbcache_miss db + 1, vc_table := Some (t[b := new_vc # t ! b])\<rparr>)
         })"
    unfolding db_find_callable_verb_def made unfolding Let_def t option.sel ob(1) first_def hash_def b_def by simp
  show ?thesis
  proof (cases "find (vc_matches hash first w) (t ! b)")
    case None
    define h where "h = callable_on same (objects db) w xs"
    define e where "e = \<lparr>vc_hash = hash, vc_oid_key = first, vc_verbname = w, vc_h = h\<rparr>"
    define db' where "db' = db\<lparr>verbcache_miss := verbcache_miss db + 1, vc_table := Some (t[b := e # t ! b])\<rparr>"
    have h: "plain_word w \<Longrightarrow> h = callable (objects db) i w"
      using callable_on_same [OF _ same, of xs] callable_eq [OF anc] by (simp add: h_def)
    have "vc_ok db'"
    proof (rule vc_ok_insert [OF ok t])
      show "vc_h e = vc_compute (objects db) (fst (vc_pair e))" if "vc_plain (fst (vc_pair e))"
        using that h ob'(2) by (simp add: e_def vc_pair_def vc_plain_def vc_compute_def)
    qed (use ob'(3) b in \<open>simp_all add: e_def db'_def\<close>)
    moreover have "db_find_callable_verb same db i w = Some (h, db')"
      using None ob'(4) by (simp add: run h_def [symmetric] e_def db'_def)
    moreover have "cache_only db db'" by (simp add: cache_only_def db'_def)
    ultimately show ?thesis using that h by blast
  next
    case (Some e)
    then have e: "e \<in> set (t ! b)" "vc_matches hash first w e" by (auto simp: find_Some_iff)
    then have "e \<in> set (concat t)" using b nth_mem by fastforce
    then have mem: "vc_pair e \<in> vc_pair ` set (concat t)" by simp
    have "vc_h e = vc_compute (objects db) (first, w)" if "plain_word w"
    proof (rule vc.coherent_hit [of _ "vc_pair ` set (concat t)" "fst (vc_pair e)"])
      show "memo.coherent (vc_compute (objects db)) vc_plain (vc_pair ` set (concat t))"
        using ok t by (simp add: vc_ok_def)
      show "(fst (vc_pair e), vc_h e) \<in> vc_pair ` set (concat t)" using mem by (simp add: vc_pair_def)
      show "vc_same_key (first, w) (fst (vc_pair e))"
        using e(2) by (simp add: vc_same_key_def vc_matches_def vc_pair_def mystrcasecmp_eq_0)
      show "vc_plain (first, w)" using that by (simp add: vc_plain_def)
    qed
    then have h: "plain_word w \<Longrightarrow> vc_h e = callable (objects db) i w"
      using ob'(2) by (simp add: vc_compute_def)
    define db' where "db' = (case vc_h e of Some _ \<Rightarrow> db\<lparr>verbcache_hit := verbcache_hit db + 1\<rparr>
      | None \<Rightarrow> db\<lparr>verbcache_neg_hit := verbcache_neg_hit db + 1\<rparr>)"
    have "db_find_callable_verb same db i w = Some (vc_h e, db')"
      using Some by (simp add: run db'_def split: option.split)
    moreover have "cache_only db db'" "vc_ok db'"
      using ok t by (auto simp: cache_only_def db'_def vc_ok_def split: option.split)
    ultimately show ?thesis using that h by blast
  qed
qed

lemma cache_only_fields:
  assumes "cache_only db db'"
  shows "objects db' = objects db" "num_objects db' = num_objects db" "max_objects db' = max_objects db"
    "all_users db' = all_users db"
  by (subst assms [unfolded cache_only_def], simp)+

lemma find_callable_result:
  assumes wf: "wf_db db" and ok: "vc_ok db" and i: "objects db i \<noteq> None" and same: "same_ok (objects db) w same"
  obtains h db' where "db_find_callable_verb same db i w = Some (h, db')" "cache_only db db'" "vc_ok db'"
    "plain_word w \<Longrightarrow> h = callable (objects db) i w"
proof -
  obtain xs where xs: "ancestry (objects db) i xs" using wf_tree_ancestry [OF wf_dbD(5) [OF wf] i] by blast
  show ?thesis
  proof (cases "vc_table db")
    case (Some t)
    show ?thesis by (rule find_callable_core [OF wf_dbD(4) [OF wf] ok xs same Some]) (rule that)
  next
    case None
    let ?db = "make_vc_table DEFAULT_VC_SIZE db"
    have o: "objects ?db = objects db" "wf_table ?db"
      using wf_dbD(4) [OF wf] by (simp_all add: make_vc_table_def wf_table_def)
    have run: "db_find_callable_verb same db i w = db_find_callable_verb same ?db i w"
      using None by (simp add: db_find_callable_verb_def make_vc_table_def)
    obtain h db' where r: "db_find_callable_verb same ?db i w = Some (h, db')" "cache_only ?db db'" "vc_ok db'"
        "plain_word w \<Longrightarrow> h = callable (objects ?db) i w"
      by (rule find_callable_core [of ?db i xs w same, OF o(2) make_vc_table_ok])
        (use xs same in \<open>simp_all add: make_vc_table_def\<close>)
    have "cache_only db db'" using r(2) by (simp add: cache_only_def make_vc_table_def)
    then show ?thesis using that [of h db'] r run o(1) by simp
  qed
qed

end
