(* ===== verification/Transitions.thy ===== *)
theory Transitions
  imports Verb_Laws
begin

text \<open>
  The database as a transition system: every operation that changes it is a labelled step with
  the conditions its callers establish. Each step that is enabled runs to its end without a
  panic, and every database reachable from the empty one satisfies the invariant \<open>inv_db\<close>: the
  structure of the objects is well formed and the verb cache holds only right answers.
\<close>

section \<open>What keeps the verb cache right\<close>

definition verb_view :: "obj \<Rightarrow> Objid \<times> (string \<times> int) list" where
  "verb_view x = (o_parent x, map (\<lambda>v. (v_name v, v_perms v)) (o_verbdefs x))"

lemma find_verb_from_view:
  "map (\<lambda>v. (v_name v, v_perms v)) vs = map (\<lambda>v. (v_name v, v_perms v)) vs' \<Longrightarrow>
   find_verb_from s d w b n vs = find_verb_from s d w b n vs'"
proof (induction vs arbitrary: vs' n)
  case (Cons v vs)
  then obtain v' ws where "vs' = v' # ws" "v_name v' = v_name v" "v_perms v' = v_perms v"
      "map (\<lambda>v. (v_name v, v_perms v)) vs = map (\<lambda>v. (v_name v, v_perms v)) ws"
    by (cases vs') auto
  then show ?case using Cons(1) [of ws "Suc n"] by (simp only: find_verb_from.simps)
qed simp

lemma callable_on_view:
  assumes "\<And>i. i \<in> set xs \<Longrightarrow> map_option verb_view (H' i) = map_option verb_view (H i)"
  shows "callable_on s H' w xs = callable_on s H w xs"
  using assms
proof (induction xs)
  case (Cons i xs)
  have i: "map_option verb_view (H' i) = map_option verb_view (H i)" by (rule Cons(2)) simp
  have IH: "callable_on s H' w xs = callable_on s H w xs" by (rule Cons(1)) (rule Cons(2), simp)
  show ?case
  proof (cases "H i")
    case None
    then show ?thesis using i by simp
  next
    case (Some x)
    then obtain y where y: "H' i = Some y" "verb_view y = verb_view x" using i by auto
    have "find_verb_from s i w True 0 (o_verbdefs y) = find_verb_from s i w True 0 (o_verbdefs x)"
      by (rule find_verb_from_view) (use y(2) in \<open>simp add: verb_view_def\<close>)
    then show ?thesis using Some y(1) IH by (simp only: callable_on.simps option.case)
  qed
qed simp

lemma callable_view:
  assumes "field verb_view H' = field verb_view H"
  shows "callable H' = callable H"
proof (intro ext)
  fix i w
  have "field o_parent H' = field o_parent H"
    by (rule field_comp [OF assms, where h = fst]) (simp add: verb_view_def)
  then have "ll_members o_parent i H' = ll_members o_parent i H" by (rule ll_members_same)
  moreover have "callable_on s H' w xs = callable_on s H w xs" for s xs
    by (rule callable_on_view) (rule field_at [OF assms])
  ultimately show "callable H' i w = callable H i w" by (simp only: callable_def)
qed

lemma verb_view_fields:
  assumes "field o_parent H' = field o_parent H" "field o_verbdefs H' = field o_verbdefs H"
  shows "field verb_view H' = field verb_view H"
proof
  fix i
  show "field verb_view H' i = field verb_view H i"
    using field_at [OF assms(1), of i] field_at [OF assms(2), of i]
    by (cases "H i"; cases "H' i") (auto simp: field_def verb_view_def)
qed

lemma has_verbs_view:
  assumes "field verb_view H' = field verb_view H"
  shows "has_verbs H' i = has_verbs H i"
  using field_at [OF assms, of i] by (cases "H i"; cases "H' i") (auto simp: has_verbs_def verb_view_def)

text \<open>The answers that the entries of the cache hold.\<close>

lemma vc_ok_transfer:
  assumes ok: "vc_ok db" and t: "vc_table db' = vc_table db"
    and call: "\<And>k w. k = NOTHING \<or> has_verbs (objects db) k \<Longrightarrow>
      callable (objects db') k w = callable (objects db) k w \<and> (k = NOTHING \<or> has_verbs (objects db') k)"
  shows "vc_ok db'"
proof (cases "vc_table db")
  case (Some tab)
  have key: "vc_oid_key e = NOTHING \<or> has_verbs (objects db) (vc_oid_key e)" if "e \<in> set (concat tab)" for e
    using ok Some that unfolding vc_ok_def by auto
  have "vc_h e = vc_compute (objects db') (fst (vc_pair e))" if e: "e \<in> set (concat tab)" "vc_plain (fst (vc_pair e))" for e
  proof -
    have "vc_h e = vc_compute (objects db) (fst (vc_pair e))"
      using ok Some e unfolding vc_ok_def vc.coherent_def by (force simp: vc_pair_def)
    then show ?thesis using call [OF key [OF e(1)]] by (simp add: vc_compute_def vc_pair_def)
  qed
  then have "memo.coherent (vc_compute (objects db')) vc_plain (vc_pair ` set (concat tab))"
    unfolding vc.coherent_def by (auto simp: vc_pair_def)
  moreover have "vc_oid_key e = NOTHING \<or> has_verbs (objects db') (vc_oid_key e)" if "e \<in> set (concat tab)" for e
    using call [OF key [OF that]] by blast
  ultimately show ?thesis using ok Some t unfolding vc_ok_def by simp
qed (simp add: vc_ok_def t)

lemma vc_ok_view:
  assumes "vc_ok db" "vc_table db' = vc_table db" "field verb_view (objects db') = field verb_view (objects db)"
  shows "vc_ok db'"
  by (rule vc_ok_transfer [OF assms(1,2)]) (simp add: callable_view [OF assms(3)] has_verbs_view [OF assms(3)])

lemma vc_ok_upd_db:
  assumes "vc_ok db" "upd_db i f db = Some db'" "\<And>x. verb_view (f x) = verb_view x"
  shows "vc_ok db'"
proof -
  obtain x where x: "objects db i = Some x" "db' = db\<lparr>objects := (objects db)(i \<mapsto> f x)\<rparr>"
    using assms(2) by (auto simp: upd_db_eq_Some)
  have "field verb_view ((objects db)(i \<mapsto> f x)) = field verb_view (objects db)"
    using field_upd_same [of "objects db" i x verb_view "f x"] x(1) assms(3) by blast
  then show ?thesis using vc_ok_view [OF assms(1), of db'] x(2) by simp
qed

lemma vc_ok_props_only:
  assumes "vc_ok db" "props_only db db'"
  shows "vc_ok db'"
proof (rule vc_ok_view [OF assms(1)])
  have r: "db' = db\<lparr>objects := objects db'\<rparr>" using assms(2) by (simp add: props_only_def)
  show "vc_table db' = vc_table db" by (subst r) simp
  show "field verb_view (objects db') = field verb_view (objects db)"
    by (rule props_only_field [OF assms(2)]) (simp add: verb_view_def)
qed

text \<open>A new object has no verbs and nothing below it.\<close>

lemma callable_new:
  assumes tree: "wf_tree H" and n: "H n = None" "n \<noteq> NOTHING" and x: "o_parent x = NOTHING"
    and k: "k = NOTHING \<or> has_verbs H k"
  shows "callable (H(n \<mapsto> x)) k w = callable H k w \<and> (k = NOTHING \<or> has_verbs (H(n \<mapsto> x)) k)"
proof (cases "k = NOTHING")
  case False
  then have hv: "has_verbs H k" using k by simp
  then have kn: "k \<noteq> n" "H k \<noteq> None" using n(1) by (auto simp: has_verbs_def)
  obtain xs where xs: "ancestry H k xs" using wf_tree_ancestry [OF tree kn(2)] by blast
  have "n \<notin> set xs" using ancestry_dom [OF xs, of n] n(1) by blast
  then have "callable_on s (H(n \<mapsto> x)) w xs = callable_on s H w xs" for s
    by (intro callable_on_view) auto
  then have "callable (H(n \<mapsto> x)) k w = callable H k w"
    using callable_eq [OF xs] callable_eq [OF ancestry_new(2) [OF tree n x kn(2) xs]] by simp
  then show ?thesis using hv kn(1) by (simp add: has_verbs_def)
qed simp

text \<open>An object without verbs and children is on the chain of no key.\<close>

lemma callable_moved_leaf:
  assumes tree: "wf_tree H" and r: "H r = Some x" "o_child x = NOTHING" "o_verbdefs x = []"
    and par: "field o_parent H' = (field o_parent H)(r \<mapsto> np)" and verbs: "field o_verbdefs H' = field o_verbdefs H"
    and k: "k = NOTHING \<or> has_verbs H k"
  shows "callable H' k w = callable H k w \<and> (k = NOTHING \<or> has_verbs H' k)"
proof (cases "k = NOTHING")
  case False
  then have hv: "has_verbs H k" using k by simp
  then have kr: "k \<noteq> r" "H k \<noteq> None" using r by (auto simp: has_verbs_def)
  obtain xs where xs: "ancestry H k xs" using wf_tree_ancestry [OF tree kr(2)] by blast
  have out: "r \<notin> set xs" by (rule leaf_not_above [OF tree r(1,2) xs kr(1)])
  have vb: "map_option o_verbdefs (H' i) = map_option o_verbdefs (H i)" for i by (rule field_at [OF verbs])
  have "map_option verb_view (H' i) = map_option verb_view (H i)" if "i \<in> set xs" for i
  proof -
    have "field o_parent H' i = field o_parent H i" using par that out by auto
    then show ?thesis using vb [of i] by (cases "H i"; cases "H' i") (auto simp: field_def verb_view_def)
  qed
  then have "callable_on s H' w xs = callable_on s H w xs" for s by (rule callable_on_view)
  moreover have "ancestry H' k xs" unfolding par using xs out by simp
  ultimately have "callable H' k w = callable H k w" using callable_eq [OF xs] callable_eq by metis
  moreover have "has_verbs H' k" using hv vb [of k] by (auto simp: has_verbs_def)
  ultimately show ?thesis by simp
qed simp

lemma wf_db_cong:
  assumes "wf_db db" "objects db' = objects db" "num_objects db' = num_objects db"
    "max_objects db' = max_objects db" "all_users db' = all_users db"
  shows "wf_db db'"
proof -
  have "is_user db' i = is_user db i" for i
    using assms by (simp add: is_user_def valid_def dbpriv_find_object_def db_object_has_flag_def)
  then show ?thesis
    using assms by (simp add: wf_db_def wf_objects_def wf_table_def users_ok_def)
qed

section \<open>The invariant, operation by operation\<close>

definition inv_db :: "db \<Rightarrow> bool" where
  "inv_db db \<longleftrightarrow> wf_db db \<and> vc_ok db"

lemma inv_dbD: "inv_db db \<Longrightarrow> wf_db db" "inv_db db \<Longrightarrow> vc_ok db" "inv_db db \<Longrightarrow> wf_objects db"
  by (simp_all add: inv_db_def wf_db_def)

lemma inv_empty_db: "inv_db empty_db"
  using wf_empty_db by (simp add: inv_db_def vc_ok_def empty_db_def)

lemma create_object_cache: "db_create_object mem db = Some (n, db') \<Longrightarrow> vc_table db' = vc_table db"
  by (auto simp: db_create_object_def dbpriv_new_object_def ensure_new_object_def upd_db_def Let_def)

lemma inv_create:
  assumes "inv_db db"
  shows "\<exists>db'. db_create_object mem db = Some (num_objects db, db') \<and> inv_db db'"
proof -
  note wf = inv_dbD(1) [OF assms]
  obtain db' where c: "db_create_object mem db = Some (num_objects db, db')" "wf_db db'"
    "objects db' = (objects db)(num_objects db \<mapsto> fresh_object mem (num_objects db))" "objects db (num_objects db) = None"
    by (rule create_object_result [OF wf])
  have nN: "num_objects db \<noteq> NOTHING" using wf_dbD(4) [OF wf] by (simp add: wf_table_def)
  have "vc_ok db'"
    by (rule vc_ok_transfer [OF inv_dbD(2) [OF assms] create_object_cache [OF c(1)]], unfold c(3),
        rule callable_new [OF wf_dbD(5) [OF wf] c(4) nN]) (simp_all add: fresh_object_def)
  then show ?thesis using c by (simp add: inv_db_def)
qed

lemma inv_destroy:
  assumes "inv_db db" "objects db i = Some x"
    "o_location x = NOTHING" "o_contents x = NOTHING" "o_parent x = NOTHING" "o_child x = NOTHING"
  shows "\<exists>db'. db_destroy_object db i = Some db' \<and> inv_db db'"
proof -
  obtain db' where d: "db_destroy_object db i = Some db'" "wf_db db'"
    by (rule destroy_object_result [OF inv_dbD(1) [OF assms(1)] assms(2-)])
  then have "vc_table db' = vc_table (db_priv_affected_callable_verb_lookup db)"
    by (auto simp: db_destroy_object_def Let_def bind_eq_Some_conv split: option.splits if_splits)
  then show ?thesis using d vc_ok_flush [OF inv_dbD(2) [OF assms(1)]] by (simp add: inv_db_def)
qed

lemma inv_attribute:
  assumes "inv_db db" "upd_db i f db = Some db'"
    "\<And>x. kin_fields (f x) = kin_fields x" "\<And>x. prop_fields (f x) = prop_fields x"
    "\<And>x. place_fields (f x) = place_fields x" "\<And>x. o_flags (f x) = o_flags x" "\<And>x. o_id (f x) = o_id x"
    "\<And>x. verb_view (f x) = verb_view x"
  shows "inv_db db'"
proof -
  obtain x where "objects db i = Some x" "db' = db\<lparr>objects := (objects db)(i \<mapsto> f x)\<rparr>"
    using assms(2) by (auto simp: upd_db_eq_Some)
  then have "wf_db db'" using wf_db_upd [OF inv_dbD(1) [OF assms(1)], of i x "f x"] assms(3-7) by simp
  then show ?thesis using vc_ok_upd_db [OF inv_dbD(2) [OF assms(1)] assms(2,8)] by (simp add: inv_db_def)
qed

lemmas field_views = kin_fields_def prop_fields_def place_fields_def verb_view_def

lemma inv_set_owner:
  assumes "inv_db db" "objects db i = Some x"
  shows "\<exists>db'. db_set_object_owner db i w = Some db' \<and> inv_db db'"
proof -
  obtain db' where "db_set_object_owner db i w = Some db'"
    using assms(2) by (simp add: db_set_object_owner_def upd_db_def)
  then show ?thesis
    using inv_attribute [OF assms(1), of i "\<lambda>x. x\<lparr>o_owner := w\<rparr>" db'] by (simp add: db_set_object_owner_def field_views)
qed

lemma inv_set_name:
  assumes "inv_db db" "objects db i = Some x"
  shows "\<exists>db'. db_set_object_name db i s = Some db' \<and> inv_db db'"
proof -
  obtain db' where "db_set_object_name db i s = Some db'"
    using assms(2) by (simp add: db_set_object_name_def upd_db_def)
  then show ?thesis
    using inv_attribute [OF assms(1), of i "\<lambda>x. x\<lparr>o_name := s\<rparr>" db'] by (simp add: db_set_object_name_def field_views)
qed

lemma vc_ok_flag:
  assumes "vc_ok db" "db_set_object_flag db i f = Some db' \<or> db_clear_object_flag db i f = Some db'"
  shows "vc_ok db'"
proof -
  obtain g db1 us where "upd_db i g db = Some db1" "\<And>x. verb_view (g x) = verb_view x"
      "db' = db1 \<or> db' = db1\<lparr>all_users := us\<rparr>"
  proof (cases "db_set_object_flag db i f = Some db'")
    case True
    then show ?thesis
      using that [of "\<lambda>x. x\<lparr>o_flags := o_flags x OR flag_mask f\<rparr>"]
      by (auto simp: db_set_object_flag_def bind_eq_Some_conv verb_view_def split: if_splits)
  next
    case False
    then have "db_clear_object_flag db i f = Some db'" using assms(2) by simp
    then show ?thesis
      using that [of "\<lambda>x. x\<lparr>o_flags := o_flags x AND NOT (flag_mask f)\<rparr>"]
      by (auto simp: db_clear_object_flag_def bind_eq_Some_conv verb_view_def split: if_splits)
  qed
  then show ?thesis using vc_ok_upd_db [OF assms(1)] vc_ok_view [of db1 db'] by auto
qed

lemma inv_set_flag:
  assumes "inv_db db" "objects db i = Some x"
  shows "\<exists>db'. db_set_object_flag db i f = Some db' \<and> inv_db db'"
  using wf_set_flag [OF inv_dbD(1) [OF assms(1)] assms(2), of f] vc_ok_flag [OF inv_dbD(2) [OF assms(1)]]
  unfolding inv_db_def by blast

lemma inv_clear_flag:
  assumes "inv_db db" "objects db i = Some x"
  shows "\<exists>db'. db_clear_object_flag db i f = Some db' \<and> inv_db db'"
  using wf_clear_flag [OF inv_dbD(1) [OF assms(1)] assms(2), of f] vc_ok_flag [OF inv_dbD(2) [OF assms(1)]]
  unfolding inv_db_def by blast

lemma inv_props:
  assumes "inv_db db" "wf_objects db'" "props_only db db'"
  shows "inv_db db'"
  using wf_db_props_only [OF inv_dbD(1) [OF assms(1)] assms(2,3)] vc_ok_props_only [OF inv_dbD(2) [OF assms(1)] assms(3)]
  by (simp add: inv_db_def)

lemma inv_add_propdef:
  assumes "inv_db db" "objects db r = Some x" "v \<noteq> TYPE_CLEAR"
  shows "\<exists>b db'. db_add_propdef db r name v owner flags = Some (b, db') \<and> inv_db db'"
proof (cases "name_taken (objects db) r name")
  case True
  then show ?thesis using add_propdef_taken [OF inv_dbD(3) [OF assms(1)] assms(2)] assms(1) by blast
next
  case False
  then show ?thesis
    using add_propdef_free [OF inv_dbD(3) [OF assms(1)] assms(2,3) False, of owner flags] inv_props [OF assms(1)] by blast
qed

lemma inv_delete_propdef:
  assumes "inv_db db" "objects db r = Some x"
  shows "\<exists>b db'. db_delete_propdef db r name = Some (b, db') \<and> inv_db db'"
proof (cases "has_def (objects db) name r")
  case True
  then show ?thesis
    using delete_propdef_some [OF inv_dbD(3) [OF assms(1)] assms(2) True] inv_props [OF assms(1)] by blast
next
  case False
  then show ?thesis using delete_propdef_none [OF inv_dbD(3) [OF assms(1)] assms(2)] assms(1) by blast
qed

lemma inv_rename_propdef:
  assumes "inv_db db" "objects db r = Some x"
  shows "\<exists>b db'. db_rename_propdef db r old new = Some (b, db') \<and> inv_db db'"
proof (cases "has_def (objects db) old r")
  case has: True
  show ?thesis
  proof (cases "folded old = folded new \<or> \<not> name_taken (objects db) r new")
    case True
    then show ?thesis
      using rename_propdef_some [OF inv_dbD(3) [OF assms(1)] assms(2) has True] inv_props [OF assms(1)] by blast
  next
    case False
    then show ?thesis using rename_propdef_taken [OF inv_dbD(3) [OF assms(1)] assms(2) has] assms(1) by blast
  qed
next
  case False
  then show ?thesis using rename_propdef_none [OF inv_dbD(3) [OF assms(1)] assms(2)] assms(1) by blast
qed

lemma inv_change_location:
  assumes "inv_db db" "objects db i = Some x" "dest = NOTHING \<or> objects db dest \<noteq> None"
  shows "\<exists>db'. db_change_location db i dest = Some db' \<and> inv_db db'"
proof -
  obtain db' where d: "db_change_location db i dest = Some db'" "wf_db db'" "vc_table db' = vc_table db"
      "field o_parent (objects db') = field o_parent (objects db)"
      "field o_verbdefs (objects db') = field o_verbdefs (objects db)"
    by (rule change_location_result [OF inv_dbD(1) [OF assms(1)] assms(2,3)])
  have "vc_ok db'"
    using vc_ok_view [OF inv_dbD(2) [OF assms(1)] d(3)] verb_view_fields [OF d(4,5)] by simp
  then show ?thesis using d by (simp add: inv_db_def)
qed

lemma inv_change_parent:
  assumes inv: "inv_db db" and r: "objects db r = Some x" and np: "np = NOTHING \<or> objects db np \<noteq> None"
    and nd: "\<not> desc (objects db) r np"
  shows "\<exists>b db'. db_change_parent db r np = Some (b, db') \<and> inv_db db'"
proof (cases "chparent_clash (objects db) r np")
  case True
  then show ?thesis using change_parent_clash [OF inv_dbD(3) [OF inv] r np] inv by blast
next
  case False
  obtain db' where d: "db_change_parent db r np = Some (True, db')" "wf_objects db'"
      "field o_parent (objects db') = (field o_parent (objects db))(r \<mapsto> np)"
      "field no_kin (objects db') = field no_kin (objects db)" "all_users db' = all_users db"
      "vc_table db' = (if o_child x = NOTHING \<and> o_verbdefs x = [] then vc_table db
        else vc_table (db_priv_affected_callable_verb_lookup db))"
    using change_parent_ok [OF inv_dbD(3) [OF inv] r np nd False] by blast
  have "vc_ok db'"
  proof (cases "o_child x = NOTHING \<and> o_verbdefs x = []")
    case True
    have verbs: "field o_verbdefs (objects db') = field o_verbdefs (objects db)"
      by (rule field_comp [OF d(4), where h = o_verbdefs]) (simp add: no_kin_def no_props_def)
    show ?thesis
      by (rule vc_ok_transfer [OF inv_dbD(2) [OF inv]])
        (use True d(6) callable_moved_leaf [OF wf_dbD(5) [OF inv_dbD(1) [OF inv]] r _ _ d(3) verbs] in simp_all)
  next
    case False
    then show ?thesis using d(6) vc_ok_flush [OF inv_dbD(2) [OF inv]] by auto
  qed
  then show ?thesis using d wf_db_no_kin [OF inv_dbD(1) [OF inv] d(2,4,5)] by (auto simp: inv_db_def)
qed

lemma inv_set_property:
  assumes inv: "inv_db db" and x: "objects db i = Some x" and nb: "\<not> builtin_name name"
    and k: "k \<in> dom (pslot (objects db) i)" "key_name k = folded name" and v: "v \<noteq> TYPE_CLEAR"
  obtains h db' where "db_find_property db i name False = Some (h, None)" "db_set_property_value db h v = Some db'"
    "inv_db db'" "pslot (objects db') = (pslot (objects db))(i := (pslot (objects db) i)(k \<mapsto> (the (pslot (objects db) i k))\<lparr>p_var := v\<rparr>))"
proof -
  note wf = inv_dbD(3) [OF inv]
  obtain xs where xs: "ancestry (objects db) i xs" using wf_tree_ancestry [OF wf_objectsD(2) [OF wf], of i] x by auto
  obtain n where n: "db_find_property db i name False =
        Some (\<lparr>built_in = BP_NONE, definer = fst k, ptr = Slot_prop i n\<rparr>, None)"
      "n < length (visible (objects db) xs)" "visible (objects db) xs ! n = k"
    using find_property_eq(2) [OF wf x xs nb k, of False] by auto
  let ?h = "\<lparr>built_in = BP_NONE, definer = fst k, ptr = Slot_prop i n\<rparr>"
  obtain db' where s: "set_slot (\<lambda>p. p\<lparr>p_var := v\<rparr>) db ?h = Some db'" "wf_objects db'" "props_only db db'"
    "pslot (objects db') = (pslot (objects db))(i := (pslot (objects db) i)(visible (objects db) xs ! n \<mapsto> (o_propval x ! n)\<lparr>p_var := v\<rparr>))"
    by (rule set_slot_result [OF wf x xs n(2), of ?h "\<lambda>p. p\<lparr>p_var := v\<rparr>"]) (use v in simp_all)
  have "pslot (objects db) i k = Some (o_propval x ! n)"
    using pslot_nth [OF wf_propsD [OF wf_objectsD(3) [OF wf] x xs] x xs n(2)] n(3) by simp
  then show ?thesis using that [OF n(1), of db'] s n(3) inv_props [OF inv s(2,3)] by (simp add: db_set_property_value_def)
qed

lemma inv_affected: "inv_db db \<Longrightarrow> inv_db (db_priv_affected_callable_verb_lookup db)"
  using wf_db_cong [of db "db_priv_affected_callable_verb_lookup db"] vc_ok_flush [of db]
  by (simp add: inv_db_def)

text \<open>A change of verbs after the cache has been emptied.\<close>

lemma inv_verbs:
  assumes inv: "inv_db db" and run: "upd_db i f (db_priv_affected_callable_verb_lookup db) = Some db'"
    and f: "\<And>x. kin_fields (f x) = kin_fields x" "\<And>x. prop_fields (f x) = prop_fields x"
      "\<And>x. place_fields (f x) = place_fields x" "\<And>x. o_flags (f x) = o_flags x" "\<And>x. o_id (f x) = o_id x"
  shows "inv_db db'"
proof -
  let ?db = "db_priv_affected_callable_verb_lookup db"
  obtain x where x: "objects db i = Some x" "db' = ?db\<lparr>objects := (objects db)(i \<mapsto> f x)\<rparr>"
    using run by (auto simp: upd_db_eq_Some)
  then have "wf_db db'" using wf_db_upd [OF inv_dbD(1) [OF inv_affected [OF inv]], of i x "f x"] f by simp
  then show ?thesis using x vc_ok_flush [OF inv_dbD(2) [OF inv], of db'] by (simp add: inv_db_def)
qed

lemma inv_add_verb:
  assumes "inv_db db" "objects db i = Some x"
  shows "\<exists>n db'. db_add_verb db i vnames owner flags dobj prep iobj = Some (n, db') \<and> inv_db db'"
proof -
  obtain n db' where "db_add_verb db i vnames owner flags dobj prep iobj = Some (n, db')"
    using assms wf_table_find [OF wf_dbD(4) [OF inv_dbD(1) [OF assms(1)]]] by (simp add: db_add_verb_def upd_db_def Let_def)
  moreover from this have "inv_db db'"
    using assms(2) wf_table_find [OF wf_dbD(4) [OF inv_dbD(1) [OF assms(1)]]]
    by (auto simp: db_add_verb_def Let_def field_views intro!: inv_verbs [OF assms(1)])
  ultimately show ?thesis by blast
qed

lemma inv_delete_verb:
  assumes "inv_db db" "objects db i = Some x" "n < length (o_verbdefs x)"
  shows "\<exists>db'. db_delete_verb db (i, n) = Some db' \<and> inv_db db'"
proof -
  obtain db' where "db_delete_verb db (i, n) = Some db'"
    using assms wf_table_find [OF wf_dbD(4) [OF inv_dbD(1) [OF assms(1)]]] by (simp add: db_delete_verb_def upd_db_def Let_def)
  moreover from this have "inv_db db'"
    using assms(2,3) wf_table_find [OF wf_dbD(4) [OF inv_dbD(1) [OF assms(1)]]]
    by (auto simp: db_delete_verb_def Let_def field_views intro!: inv_verbs [OF assms(1)])
  ultimately show ?thesis by blast
qed

lemma inv_set_verb_flush:
  assumes "inv_db db" "objects db i = Some x" "n < length (o_verbdefs x)"
  shows "\<exists>db'. set_verb f (db_priv_affected_callable_verb_lookup db) (Some (i, n)) = Some db' \<and> inv_db db'"
proof -
  obtain db' where "set_verb f (db_priv_affected_callable_verb_lookup db) (Some (i, n)) = Some db'"
    using assms by (simp add: set_verb_def upd_db_def)
  moreover from this have "inv_db db'"
    using assms(2,3) by (auto simp: set_verb_def field_views intro!: inv_verbs [OF assms(1)])
  ultimately show ?thesis by blast
qed

lemma inv_set_verb:
  assumes "inv_db db" "objects db i = Some x" "n < length (o_verbdefs x)"
    and f: "\<And>v. v_name (f v) = v_name v" "\<And>v. v_perms (f v) = v_perms v"
  shows "\<exists>db'. set_verb f db (Some (i, n)) = Some db' \<and> inv_db db'"
proof -
  obtain db' where r: "set_verb f db (Some (i, n)) = Some db'"
    using assms by (simp add: set_verb_def upd_db_def)
  have m: "map (\<lambda>v. (v_name v, v_perms v)) (vs[n := f (vs ! n)]) = map (\<lambda>v. (v_name v, v_perms v)) vs" for vs
    using f by (cases "n < length vs") (simp_all add: map_update list_update_same_conv list_update_beyond)
  have "inv_db db'"
    by (rule inv_attribute [OF assms(1), of i "\<lambda>x. x\<lparr>o_verbdefs := (o_verbdefs x)[n := f (o_verbdefs x ! n)]\<rparr>"])
      (use r assms(2,3) m in \<open>simp_all add: set_verb_def field_views\<close>)
  then show ?thesis using r by blast
qed

lemma inv_call:
  assumes "inv_db db" "objects db i \<noteq> None" "same_ok (objects db) w same"
  shows "\<exists>h db'. db_find_callable_verb same db i w = Some (h, db') \<and> inv_db db'"
proof -
  obtain h db' where r: "db_find_callable_verb same db i w = Some (h, db')" "cache_only db db'" "vc_ok db'"
    by (rule find_callable_result [OF inv_dbD(1,2) [OF assms(1)] assms(2,3)])
  then have "wf_db db'" using wf_db_cong [OF inv_dbD(1) [OF assms(1)] cache_only_fields [OF r(2)]] by simp
  then show ?thesis using r by (auto simp: inv_db_def)
qed

lemma reset_last_result:
  assumes "wf_table db" "objects db i = Some x"
  shows "\<exists>n. db_reset_last_used_objid db = Some (db\<lparr>num_objects := n\<rparr>) \<and> objects db (n - 1) \<noteq> None \<and>
    n \<le> num_objects db \<and> wf_table (db\<lparr>num_objects := n\<rparr>)"
  using assms
proof (induction "nat (num_objects db)" arbitrary: db rule: less_induct)
  case less
  have pos: "0 < num_objects db" using wf_tableD [OF less(2,3)] by simp
  show ?case
  proof (cases "objects db (num_objects db - 1)")
    case None
    let ?db = "db\<lparr>num_objects := num_objects db - 1\<rparr>"
    have "j < num_objects db - 1" if "objects db j = Some y" for j y
      using wf_tableD [OF less(2) that] None that by (cases "j = num_objects db - 1") auto
    then have wft: "wf_table ?db" using less(2) pos unfolding wf_table_def by fastforce
    obtain n where "db_reset_last_used_objid ?db = Some (?db\<lparr>num_objects := n\<rparr>)" "objects ?db (n - 1) \<noteq> None"
        "n \<le> num_objects ?db" "wf_table (?db\<lparr>num_objects := n\<rparr>)"
      using less(1) [of ?db] wft less(3) pos by auto
    then show ?thesis using None pos by (subst db_reset_last_used_objid.simps) auto
  next
    case (Some y)
    then have "db_reset_last_used_objid db = Some db" using pos by (subst db_reset_last_used_objid.simps) simp
    moreover have "db\<lparr>num_objects := num_objects db\<rparr> = db" by simp
    ultimately show ?thesis using Some less(2) by (intro exI [of _ "num_objects db"]) simp
  qed
qed

lemma inv_reset_last:
  assumes "inv_db db" "objects db i = Some x"
  shows "\<exists>db'. db_reset_last_used_objid db = Some db' \<and> inv_db db'"
proof -
  obtain n where n: "db_reset_last_used_objid db = Some (db\<lparr>num_objects := n\<rparr>)" "wf_table (db\<lparr>num_objects := n\<rparr>)"
    using reset_last_result [OF wf_dbD(4) [OF inv_dbD(1) [OF assms(1)]] assms(2)] by blast
  have "wf_db (db\<lparr>num_objects := n\<rparr>)"
    using wf_db_same [OF inv_dbD(1) [OF assms(1)], of "db\<lparr>num_objects := n\<rparr>"] n(2)
      users_ok_same [OF wf_dbD(4) [OF inv_dbD(1) [OF assms(1)]] n(2) wf_dbD(3) [OF inv_dbD(1) [OF assms(1)]]] by simp
  moreover have "vc_ok (db\<lparr>num_objects := n\<rparr>)" using vc_ok_view [OF inv_dbD(2) [OF assms(1)]] by simp
  ultimately show ?thesis using n(1) by (simp add: inv_db_def)
qed

section \<open>The transition system\<close>

text \<open>The operations. The functional arguments are an object's memory before it is assigned
  (\<open>Create\<close>) and the identity of string objects (\<open>Call\<close>).\<close>

datatype db_op =
    Create obj
  | Destroy Objid
  | Set_owner Objid Objid
  | Set_name Objid string
  | Set_flag Objid nat
  | Clear_flag Objid nat
  | Change_parent Objid Objid
  | Change_location Objid Objid
  | Reset_last
  | Add_propdef Objid string Var Objid int
  | Delete_propdef Objid string
  | Rename_propdef Objid string string
  | Set_property Objid string Var
  | Add_verb Objid string Objid int int int int
  | Delete_verb verb_handle
  | Set_verb_names verb_handle string
  | Set_verb_owner verb_handle Objid
  | Set_verb_flags verb_handle int
  | Set_verb_program verb_handle "nat option"
  | Set_verb_arg_specs verb_handle int int int
  | Call "verb_handle \<Rightarrow> bool" Objid string

fun run_op :: "db_op \<Rightarrow> db \<Rightarrow> db option" where
  "run_op (Create mem) db = map_option snd (db_create_object mem db)"
| "run_op (Destroy i) db = db_destroy_object db i"
| "run_op (Set_owner i w) db = db_set_object_owner db i w"
| "run_op (Set_name i s) db = db_set_object_name db i s"
| "run_op (Set_flag i f) db = db_set_object_flag db i f"
| "run_op (Clear_flag i f) db = db_clear_object_flag db i f"
| "run_op (Change_parent i p) db = map_option snd (db_change_parent db i p)"
| "run_op (Change_location i l) db = db_change_location db i l"
| "run_op Reset_last db = db_reset_last_used_objid db"
| "run_op (Add_propdef i name v owner flags) db = map_option snd (db_add_propdef db i name v owner flags)"
| "run_op (Delete_propdef i name) db = map_option snd (db_delete_propdef db i name)"
| "run_op (Rename_propdef i old new) db = map_option snd (db_rename_propdef db i old new)"
| "run_op (Set_property i name v) db =
     do { (h, _) \<leftarrow> db_find_property db i name False; db_set_property_value db h v }"
| "run_op (Add_verb i names owner flags dobj prep iobj) db =
     map_option snd (db_add_verb db i names owner flags dobj prep iobj)"
| "run_op (Delete_verb h) db = db_delete_verb db h"
| "run_op (Set_verb_names h names) db = db_set_verb_names db (Some h) names"
| "run_op (Set_verb_owner h owner) db = db_set_verb_owner db (Some h) owner"
| "run_op (Set_verb_flags h flags) db = db_set_verb_flags db (Some h) flags"
| "run_op (Set_verb_program h p) db = db_set_verb_program db (Some h) p"
| "run_op (Set_verb_arg_specs h dobj prep iobj) db = db_set_verb_arg_specs db (Some h) dobj prep iobj"
| "run_op (Call same i w) db = map_option snd (db_find_callable_verb same db i w)"

definition verb_exists :: "heap \<Rightarrow> verb_handle \<Rightarrow> bool" where
  "verb_exists H h \<longleftrightarrow> (\<exists>x. H (fst h) = Some x \<and> snd h < length (o_verbdefs x))"

definition barren :: "obj \<Rightarrow> bool" where
  "barren x \<longleftrightarrow> o_location x = NOTHING \<and> o_contents x = NOTHING \<and> o_parent x = NOTHING \<and> o_child x = NOTHING"

text \<open>What the callers make sure of: the objects and verbs exist, no object becomes its own
  ancestor, no value of a defined property is clear, and a destroyed object is on its own.\<close>

fun op_ok :: "db_op \<Rightarrow> heap \<Rightarrow> bool" where
  "op_ok (Create mem) H = True"
| "op_ok (Destroy i) H = (\<exists>x. H i = Some x \<and> barren x)"
| "op_ok (Change_parent i p) H = (H i \<noteq> None \<and> (p = NOTHING \<or> H p \<noteq> None) \<and> \<not> desc H i p)"
| "op_ok (Change_location i l) H = (H i \<noteq> None \<and> (l = NOTHING \<or> H l \<noteq> None))"
| "op_ok Reset_last H = (\<exists>i. H i \<noteq> None)"
| "op_ok (Add_propdef i name v owner flags) H = (H i \<noteq> None \<and> v \<noteq> TYPE_CLEAR)"
| "op_ok (Set_property i name v) H =
     (H i \<noteq> None \<and> \<not> builtin_name name \<and> (\<exists>k \<in> dom (pslot H i). key_name k = folded name) \<and> v \<noteq> TYPE_CLEAR)"
| "op_ok (Delete_verb h) H = verb_exists H h"
| "op_ok (Set_verb_names h names) H = verb_exists H h"
| "op_ok (Set_verb_owner h owner) H = verb_exists H h"
| "op_ok (Set_verb_flags h flags) H = verb_exists H h"
| "op_ok (Set_verb_program h p) H = verb_exists H h"
| "op_ok (Set_verb_arg_specs h dobj prep iobj) H = verb_exists H h"
| "op_ok (Call same i w) H = (H i \<noteq> None \<and> same_ok H w same)"
| "op_ok (Set_owner i w) H = (H i \<noteq> None)"
| "op_ok (Set_name i s) H = (H i \<noteq> None)"
| "op_ok (Set_flag i f) H = (H i \<noteq> None)"
| "op_ok (Clear_flag i f) H = (H i \<noteq> None)"
| "op_ok (Delete_propdef i name) H = (H i \<noteq> None)"
| "op_ok (Rename_propdef i old new) H = (H i \<noteq> None)"
| "op_ok (Add_verb i names owner flags dobj prep iobj) H = (H i \<noteq> None)"

lemma op_runs:
  assumes inv: "inv_db db" and ok: "op_ok op (objects db)"
  shows "\<exists>db'. run_op op db = Some db' \<and> inv_db db'"
proof (cases op)
  case (Create mem)
  then show ?thesis using inv_create [OF inv, of mem] by auto
next
  case (Destroy i)
  then show ?thesis using inv_destroy [OF inv, of i] ok by (auto simp: barren_def)
next
  case (Set_owner i w)
  then show ?thesis using inv_set_owner [OF inv, of i _ w] ok by auto
next
  case (Set_name i s)
  then show ?thesis using inv_set_name [OF inv, of i _ s] ok by auto
next
  case (Set_flag i f)
  then show ?thesis using inv_set_flag [OF inv, of i _ f] ok by auto
next
  case (Clear_flag i f)
  then show ?thesis using inv_clear_flag [OF inv, of i _ f] ok by auto
next
  case (Change_parent i p)
  then obtain x where x: "objects db i = Some x" "p = NOTHING \<or> objects db p \<noteq> None" "\<not> desc (objects db) i p"
    using ok by auto
  show ?thesis using inv_change_parent [OF inv x] Change_parent by auto
next
  case (Change_location i l)
  then obtain x where x: "objects db i = Some x" "l = NOTHING \<or> objects db l \<noteq> None" using ok by auto
  show ?thesis using inv_change_location [OF inv x] Change_location by auto
next
  case Reset_last
  then show ?thesis using inv_reset_last [OF inv] ok by auto
next
  case (Add_propdef i name v owner flags)
  then show ?thesis using inv_add_propdef [OF inv, of i _ v name owner flags] ok by auto
next
  case (Delete_propdef i name)
  then show ?thesis using inv_delete_propdef [OF inv, of i _ name] ok by auto
next
  case (Rename_propdef i old new)
  then show ?thesis using inv_rename_propdef [OF inv, of i _ old new] ok by auto
next
  case (Set_property i name v)
  then obtain x k where x: "objects db i = Some x" "\<not> builtin_name name" "k \<in> dom (pslot (objects db) i)"
      "key_name k = folded name" "v \<noteq> TYPE_CLEAR" using ok by (auto simp del: domIff)
  obtain h db' where "db_find_property db i name False = Some (h, None)" "db_set_property_value db h v = Some db'" "inv_db db'"
    by (rule inv_set_property [OF inv x])
  then show ?thesis using Set_property by simp
next
  case (Add_verb i names owner flags dobj prep iobj)
  then show ?thesis using inv_add_verb [OF inv, of i _ names owner flags dobj prep iobj] ok by auto
next
  case (Delete_verb h)
  then show ?thesis using inv_delete_verb [OF inv, of "fst h" _ "snd h"] ok by (auto simp: verb_exists_def)
next
  case (Set_verb_names h names)
  then show ?thesis using inv_set_verb_flush [OF inv, of "fst h" _ "snd h"] ok
    by (auto simp: verb_exists_def db_set_verb_names_def)
next
  case (Set_verb_owner h owner)
  then show ?thesis using inv_set_verb [OF inv, of "fst h" _ "snd h" "\<lambda>v. v\<lparr>v_owner := owner\<rparr>"] ok
    by (auto simp: verb_exists_def db_set_verb_owner_def)
next
  case (Set_verb_flags h flags)
  then show ?thesis using inv_set_verb_flush [OF inv, of "fst h" _ "snd h"] ok
    by (auto simp: verb_exists_def db_set_verb_flags_def)
next
  case (Set_verb_program h p)
  then show ?thesis using inv_set_verb [OF inv, of "fst h" _ "snd h" "\<lambda>v. v\<lparr>v_program := p\<rparr>"] ok
    by (auto simp: verb_exists_def db_set_verb_program_def)
next
  case (Set_verb_arg_specs h dobj prep iobj)
  then show ?thesis using inv_set_verb_flush [OF inv, of "fst h" _ "snd h"] ok
    by (auto simp: verb_exists_def db_set_verb_arg_specs_def)
next
  case (Call same i w)
  then show ?thesis using inv_call [OF inv, of i w same] ok by auto
qed

inductive db_step :: "db \<Rightarrow> db_op \<Rightarrow> db \<Rightarrow> bool" where
  step: "op_ok op (objects db) \<Longrightarrow> run_op op db = Some db' \<Longrightarrow> db_step db op db'"

inductive reachable :: "db \<Rightarrow> bool" where
  init: "reachable empty_db"
| more: "reachable db \<Longrightarrow> db_step db op db' \<Longrightarrow> reachable db'"

inductive_simps db_step_iff: "db_step db op db'"

lemma reachable_inv: "reachable db \<Longrightarrow> inv_db db"
proof (induction rule: reachable.induct)
  case init
  show ?case by (rule inv_empty_db)
next
  case (more db op db')
  then show ?case using op_runs [of db op] by (auto simp: db_step_iff)
qed

end
