(* ===== verification/Samples.thy ===== *)
theory Samples
  imports Transitions
begin

text \<open>
  A small database built by running operations: three objects, \<open>#1\<close> a child of \<open>#0\<close>, \<open>#2\<close> inside
  \<open>#1\<close>, a property \<open>size\<close> and a verb \<open>l*ook\<close> on \<open>#0\<close>. It is evaluated by the kernel, and is the
  input on which the statements about reachable databases are instantiated.
\<close>

definition blank :: obj where
  "blank = \<lparr>o_id = 0, o_owner = 0, o_location = 0, o_contents = 0, o_next = 0, o_parent = 0, o_child = 0,
     o_sibling = 0, o_name = [], o_flags = 0, o_verbdefs = [], o_propdefs = \<lparr>max_length = 0, pl = []\<rparr>,
     o_propval = [], o_waif_propdefs = None\<rparr>"

fun run_all :: "db_op list \<Rightarrow> db \<Rightarrow> db option" where
  "run_all [] db = Some db"
| "run_all (op # ops) db = do { db1 \<leftarrow> run_op op db; run_all ops db1 }"

lemma run_all_append: "run_all (ops @ ops') db = do { db1 \<leftarrow> run_all ops db; run_all ops' db1 }"
proof (induction ops arbitrary: db)
  case (Cons op ops)
  then show ?case by (cases "run_op op db") simp_all
qed simp

lemma run_all_reachable:
  assumes "run_all ops empty_db = Some db" "reachable db" "op_ok op (objects db)"
  obtains db' where "run_all (ops @ [op]) empty_db = Some db'" "reachable db'"
proof -
  obtain db' where "run_op op db = Some db'" using op_runs [OF reachable_inv [OF assms(2)] assms(3)] by blast
  then show ?thesis using that [of db'] assms reachable.more [OF assms(2)] by (simp add: run_all_append db_step_iff)
qed

definition sample_ops :: "db_op list" where
  "sample_ops = [Create blank, Create blank, Create blank, Change_parent 1 0,
     Add_propdef 0 ''size'' (TYPE_INT 5) 0 1, Add_verb 0 ''l*ook'' 0 5 0 (-1) 0, Change_location 2 1]"

definition sample_at :: "nat \<Rightarrow> db" where
  "sample_at k = the (run_all (take k sample_ops) empty_db)"

lemma sample_step:
  assumes "run_all (take k sample_ops) empty_db = Some (sample_at k) \<and> reachable (sample_at k)"
    "k < length sample_ops" "op_ok (sample_ops ! k) (objects (sample_at k))"
  shows "run_all (take (Suc k) sample_ops) empty_db = Some (sample_at (Suc k)) \<and> reachable (sample_at (Suc k))"
proof -
  obtain db' where "run_all (take k sample_ops @ [sample_ops ! k]) empty_db = Some db'" "reachable db'"
    using run_all_reachable assms(1,3) by blast
  then show ?thesis using assms(2) by (simp add: sample_at_def take_Suc_conv_app_nth)
qed

lemma desc_members: "desc H r d \<longleftrightarrow> (\<exists>xs. ll_members o_parent d H = Some xs \<and> r \<in> set xs)"
  unfolding desc_def using ll_members_links [of o_parent H d] ll_members_Some [of o_parent d H] by metis

lemma sample_ids: "map (\<lambda>i. map_option o_id (objects (sample_at 3) i)) [0, 1, 2] = [Some 0, Some 1, Some 2]"
    "map (\<lambda>i. map_option o_id (objects (sample_at 4) i)) [0, 1, 2] = [Some 0, Some 1, Some 2]"
    "map (\<lambda>i. map_option o_id (objects (sample_at 5) i)) [0, 1, 2] = [Some 0, Some 1, Some 2]"
    "map (\<lambda>i. map_option o_id (objects (sample_at 6) i)) [0, 1, 2] = [Some 0, Some 1, Some 2]"
    "map (\<lambda>i. map_option o_id (objects (sample_at 7) i)) [0, 1, 2] = [Some 0, Some 1, Some 2]"
    "ll_members o_parent 0 (objects (sample_at 3)) = Some [0]"
  by code_simp+

lemma sample_reachable: "reachable (sample_at 7)"
proof -
  let ?P = "\<lambda>k. run_all (take k sample_ops) empty_db = Some (sample_at k) \<and> reachable (sample_at k)"
  have len: "length sample_ops = 7" by (simp add: sample_ops_def)
  have 0: "?P 0" by (simp add: sample_at_def reachable.init)
  have 1: "?P 1" using sample_step [OF 0] len by (simp add: sample_ops_def)
  have 2: "?P 2" using sample_step [OF 1] len by (simp add: sample_ops_def numeral_2_eq_2)
  have 3: "?P 3" using sample_step [OF 2] len by (simp add: sample_ops_def numeral_3_eq_3 numeral_2_eq_2)
  have 4: "?P 4" using sample_step [OF 3] len sample_ids(1,6)
    by (auto simp: sample_ops_def desc_members)
  have 5: "?P 5" using sample_step [OF 4] len sample_ids(2) by (auto simp: sample_ops_def)
  have 6: "?P 6" using sample_step [OF 5] len sample_ids(3) by (auto simp: sample_ops_def)
  show ?thesis using sample_step [OF 6] len sample_ids(4) by (auto simp: sample_ops_def)
qed

end
