(* ===== verification/Verb_Attributes.thy ===== *)
theory Verb_Attributes
  imports Samples
begin

text \<open>
  The attributes of a verb: its flags and argument specifiers share one \<^verbatim>\<open>short\<close>, and its
  preposition is a number into a table of aliases. What is written is read back.
\<close>

section \<open>Attributes packed into a short\<close>

lemma packed_perms:
  fixes f d i :: int
  assumes "0 \<le> f" "f < 16" "0 \<le> d" "d < 4"
  shows "f OR push_bit DOBJSHIFT d OR push_bit IOBJSHIFT i = f + 16 * d + 64 * i"
proof -
  have "push_bit 4 d OR push_bit 6 i = push_bit 4 (push_bit 2 i OR d)"
    by (simp add: push_bit_or ac_simps)
  also have "\<dots> = push_bit 4 (push_bit 2 i + d)" using or_shift_add [of d 2 i] assms by simp
  finally have "push_bit 4 d OR push_bit 6 i = push_bit 4 (push_bit 2 i + d)" .
  moreover have "push_bit 4 m OR f = push_bit 4 m + f" for m using or_shift_add [of f 4 m] assms by simp
  ultimately have "(push_bit 4 d OR push_bit 6 i) OR f = push_bit 4 (push_bit 2 i + d) + f" by simp
  then show ?thesis by (simp add: DOBJSHIFT_def IOBJSHIFT_def push_bit_eq_mult ac_simps)
qed

lemma mask_values: "mask 4 = (15 :: int)" "mask 2 = (3 :: int)"
  by (simp_all add: mask_eq_exp_minus_1)

lemma and_masks: "x AND 15 = x mod 16" "x AND 3 = x mod 4" for x :: int
  unfolding mask_values [symmetric] take_bit_eq_mask [symmetric] by (simp_all add: take_bit_eq_mod)

lemma and_not_perms: "x AND NOT PERMMASK = push_bit 4 (x div 16)"
proof -
  have "x AND NOT (mask 4) = push_bit 4 (drop_bit 4 x)"
    by (rule bit_eqI) (auto simp: bit_simps)
  then show ?thesis by (simp add: PERMMASK_def mask_values drop_bit_eq_div)
qed

lemma unpacked_perms:
  assumes "0 \<le> f" "f < 16" "0 \<le> d" "d < 4" "0 \<le> i" "i < 4"
  shows "(f + 16 * d + 64 * i) AND PERMMASK = f" "verb_dobj (f + 16 * d + 64 * i) = d"
    "verb_iobj (f + 16 * d + 64 * i) = i" "to_short (f + 16 * d + 64 * i) = f + 16 * d + 64 * i"
proof -
  have e: "f + 16 * d + 64 * i = f + (d + i * 4) * 16" "f + 16 * d + 64 * i = (f + 16 * d) + i * 64" by simp_all
  have "(f + 16 * d + 64 * i) mod 16 = f"
    unfolding e(1) mod_mult_self1 using assms by (simp add: mod_pos_pos_trivial)
  moreover have "(f + 16 * d + 64 * i) div 16 = d + i * 4"
    unfolding e(1) using assms by (simp add: div_pos_pos_trivial)
  then have "(f + 16 * d + 64 * i) div 16 mod 4 = d"
    using assms by (simp only: mod_mult_self1 mod_pos_pos_trivial)
  moreover have "(f + 16 * d + 64 * i) div 64 = i"
    unfolding e(2) using assms by (simp add: div_pos_pos_trivial)
  then have "(f + 16 * d + 64 * i) div 64 mod 4 = i" using assms by (simp add: mod_pos_pos_trivial)
  ultimately show "(f + 16 * d + 64 * i) AND PERMMASK = f" "verb_dobj (f + 16 * d + 64 * i) = d"
      "verb_iobj (f + 16 * d + 64 * i) = i"
    by (simp_all add: PERMMASK_def verb_dobj_def verb_iobj_def OBJMASK_def DOBJSHIFT_def IOBJSHIFT_def and_masks
        drop_bit_eq_div)
  show "to_short (f + 16 * d + 64 * i) = f + 16 * d + 64 * i" using assms by (simp add: to_short_def)
qed

lemma split_word:
  fixes w :: int
  assumes "0 \<le> w" "w < 256"
  shows "w = w mod 16 + 16 * (w div 16 mod 4) + 64 * (w div 64 mod 4)"
proof -
  have "0 \<le> w div 64" "w div 64 < 4" using assms by presburger+
  then have "w div 64 mod 4 = w div 64" by (rule mod_pos_pos_trivial)
  moreover have "w div 16 = w div 64 * 4 + w div 16 mod 4"
    using div_mult_mod_eq [of "w div 16" 4] by (simp add: zdiv_zmult2_eq [symmetric] div_mult2_eq)
  ultimately show ?thesis using div_mult_mod_eq [of w 16] by linarith
qed

lemma high_bits:
  fixes w :: int
  assumes "0 \<le> w" "w < 256"
  shows "16 * (w div 16) = 16 * (w div 16 mod 4) + 64 * (w div 64 mod 4)"
  using split_word [OF assms] div_mult_mod_eq [of w 16] by linarith

lemma to_short_id: "- 32768 \<le> p \<Longrightarrow> p < 32768 \<Longrightarrow> to_short p = p"
  by (simp add: to_short_def)

text \<open>The flags of a verb whose packed word is in range.\<close>

lemma get_verb_set_verb:
  assumes "set_verb g db (Some h) = Some db'"
  shows "get_verb db' (Some h) = map_option g (get_verb db (Some h))"
    "h' \<noteq> h \<Longrightarrow> get_verb db' (Some h') = get_verb db (Some h')"
  using assms by (auto simp: set_verb_def get_verb_def upd_db_eq_Some nth_list_update bind_eq_Some_conv
      split: prod.splits if_splits option.splits)

lemma get_verb_affected [simp]: "get_verb (db_priv_affected_callable_verb_lookup db) = get_verb db"
  by (simp add: get_verb_def fun_eq_iff split: option.split)

text \<open>C22: a verb added with flags, argument specifiers and preposition in range can be read
  back as it was written: it is the last verb of the object, under the returned number, with its
  names, owner, flags and specifiers, and every other verb is unchanged.\<close>

theorem verb_add:
  assumes "wf_db db" "objects db oid = Some x" "0 \<le> flags" "flags < 16" "0 \<le> dobj" "dobj < 4" "0 \<le> iobj" "iobj < 4"
    "- 32768 \<le> prep" "prep < 32768"
  shows "\<exists>n db'. db_add_verb db oid vnames owner flags dobj prep iobj = Some (Suc n, db') \<and> n = length (o_verbdefs x) \<and>
    db_find_indexed_verb db' oid (Suc n) = Some (Some (oid, n)) \<and>
    db_verb_names db' (Some (oid, n)) = Some vnames \<and> db_verb_owner db' (Some (oid, n)) = Some owner \<and>
    db_verb_flags db' (Some (oid, n)) = Some flags \<and>
    db_verb_arg_specs db' (Some (oid, n)) = Some (dobj, prep, iobj) \<and>
    (\<forall>h. h \<noteq> (oid, n) \<longrightarrow> get_verb db' (Some h) = get_verb db (Some h))"
proof -
  note find = wf_table_find [OF wf_dbD(4) [OF assms(1)]]
  let ?v = "\<lparr>v_name = vnames, v_program = None, v_owner = owner,
    v_perms = flags + 16 * dobj + 64 * iobj, v_prep = prep\<rparr>"
  let ?y = "x\<lparr>o_verbdefs := o_verbdefs x @ [?v]\<rparr>" and ?n = "length (o_verbdefs x)"
  define db' where "db' = (db_priv_affected_callable_verb_lookup db)\<lparr>objects := (objects db)(oid \<mapsto> ?y)\<rparr>"
  have run: "db_add_verb db oid vnames owner flags dobj prep iobj = Some (Suc ?n, db')"
    using assms(2) packed_perms [OF assms(3-6), of iobj] unpacked_perms(4) [OF assms(3-8)] to_short_id [OF assms(9,10)]
    by (simp add: db_add_verb_def find upd_db_def db'_def)
  have new: "get_verb db' (Some (oid, ?n)) = Some ?v" by (simp add: get_verb_def db'_def)
  have old: "get_verb db' (Some h) = get_verb db (Some h)" if "h \<noteq> (oid, ?n)" for h
    using that assms(2) by (cases h) (auto simp: get_verb_def db'_def nth_append)
  have o: "o_id x = oid" "0 \<le> oid" "oid < num_objects db" using wf_tableD [OF wf_dbD(4) [OF assms(1)] assms(2)] by auto
  have idx: "db_find_indexed_verb db' oid (Suc ?n) = Some (Some (oid, ?n))"
    using o by (simp add: db_find_indexed_verb_def dbpriv_find_object_def db'_def)
  show ?thesis
    using run idx old by (intro exI [of _ ?n] exI [of _ db'])
      (simp add: db_verb_names_def db_verb_owner_def db_verb_flags_def db_verb_arg_specs_def new unpacked_perms [OF assms(3-8)])
qed

text \<open>C23: the flags and the argument specifiers share one 16-bit word without disturbing each
  other: writing the flags of a verb leaves its specifiers, and writing the specifiers leaves its
  flags.\<close>

theorem verb_word_fields:
  assumes "get_verb db (Some h) = Some v" "0 \<le> v_perms v" "v_perms v < 256"
    "0 \<le> flags" "flags < 16" "0 \<le> dobj" "dobj < 4" "0 \<le> iobj" "iobj < 4" "- 32768 \<le> prep" "prep < 32768"
  shows "(\<exists>db'. db_set_verb_flags db (Some h) flags = Some db' \<and> db_verb_flags db' (Some h) = Some flags \<and>
      db_verb_arg_specs db' (Some h) = db_verb_arg_specs db (Some h)) \<and>
    (\<exists>db'. db_set_verb_arg_specs db (Some h) dobj prep iobj = Some db' \<and>
      db_verb_arg_specs db' (Some h) = Some (dobj, prep, iobj) \<and> db_verb_flags db' (Some h) = db_verb_flags db (Some h))"
proof -
  let ?db = "db_priv_affected_callable_verb_lookup db"
  define f d i where "f = v_perms v mod 16" and "d = v_perms v div 16 mod 4" and "i = v_perms v div 64 mod 4"
  have runs: "\<exists>db'. set_verb g ?db (Some h) = Some db'" for g
    using assms(1) by (auto simp: set_verb_def get_verb_def upd_db_def bind_eq_Some_conv split: prod.splits if_splits)
  have p: "v_perms v = f + 16 * d + 64 * i" unfolding f_def d_def i_def by (rule split_word [OF assms(2,3)])
  have r: "0 \<le> f" "f < 16" "0 \<le> d" "d < 4" "0 \<le> i" "i < 4" by (auto simp: f_def d_def i_def)
  note new1 = unpacked_perms [OF assms(4,5) r(3-6)] and new2 = unpacked_perms [OF r(1,2) assms(6-9)]
    and old = unpacked_perms [OF r]
  have fl: "v_perms v AND NOT PERMMASK OR flags = flags + 16 * d + 64 * i"
  proof -
    have "push_bit 4 (v_perms v div 16) OR flags = push_bit 4 (v_perms v div 16) + flags"
      using or_shift_add [OF assms(4), of 4 "v_perms v div 16"] assms(5) by simp
    moreover have "push_bit 4 (v_perms v div 16) = 16 * (v_perms v div 16)" by (simp add: push_bit_eq_mult)
    ultimately show ?thesis unfolding and_not_perms using high_bits [OF assms(2,3)] d_def i_def by linarith
  qed
  have ar: "v_perms v AND PERMMASK OR push_bit DOBJSHIFT dobj OR push_bit IOBJSHIFT iobj = f + 16 * dobj + 64 * iobj"
    using packed_perms [OF r(1,2) assms(6,7), of iobj] old(1) by (simp only: p)
  obtain db1 where db1: "db_set_verb_flags db (Some h) flags = Some db1" using runs by (auto simp: db_set_verb_flags_def)
  obtain db2 where db2: "db_set_verb_arg_specs db (Some h) dobj prep iobj = Some db2"
    using runs by (auto simp: db_set_verb_arg_specs_def)
  have v1: "get_verb db1 (Some h) = Some (v\<lparr>v_perms := flags + 16 * d + 64 * i\<rparr>)"
    unfolding get_verb_set_verb(1) [OF db1 [unfolded db_set_verb_flags_def]] get_verb_affected assms(1) option.map fl new1(4) ..
  have v2: "get_verb db2 (Some h) = Some (v\<lparr>v_perms := f + 16 * dobj + 64 * iobj, v_prep := prep\<rparr>)"
    unfolding get_verb_set_verb(1) [OF db2 [unfolded db_set_verb_arg_specs_def]] get_verb_affected assms(1) option.map ar new2(4)
      to_short_id [OF assms(10,11)] ..
  have "db_verb_flags db1 (Some h) = Some flags" "db_verb_arg_specs db1 (Some h) = db_verb_arg_specs db (Some h)"
    unfolding db_verb_flags_def db_verb_arg_specs_def v1 assms(1) option.map p using new1 old by simp_all
  moreover have "db_verb_arg_specs db2 (Some h) = Some (dobj, prep, iobj)" "db_verb_flags db2 (Some h) = db_verb_flags db (Some h)"
    unfolding db_verb_flags_def db_verb_arg_specs_def v2 assms(1) option.map p using new2 old by simp_all
  ultimately show ?thesis using db1 db2 by blast
qed

section \<open>Witnesses, and prepositions\<close>

lemma sample_verbs: "objects (sample_at 7) 0 = Some x \<Longrightarrow> length (o_verbdefs x) = 1"
proof -
  have "map_option (\<lambda>x. length (o_verbdefs x)) (objects (sample_at 7) 0) = Some 1" by code_simp
  then show "objects (sample_at 7) 0 = Some x \<Longrightarrow> length (o_verbdefs x) = 1" by simp
qed

theorem verb_add_witness:
  "\<exists>db'. db_add_verb (sample_at 7) 0 ''put'' 2 13 ASPEC_ANY 0 ASPEC_THIS = Some (2, db') \<and>
    db_verb_arg_specs db' (Some (0, 1)) = Some (ASPEC_ANY, 0, ASPEC_THIS)"
proof -
  obtain x where x: "objects (sample_at 7) 0 = Some x" using sample_ids(5) by auto
  show ?thesis
    using verb_add [OF inv_dbD(1) [OF reachable_inv [OF sample_reachable]] x, of 13 ASPEC_ANY ASPEC_THIS 0 "''put''" 2] sample_verbs [OF x]
    by (auto simp: ASPEC_ANY_def ASPEC_THIS_def numeral_2_eq_2)
qed

theorem verb_word_fields_witness:
  "\<exists>db'. db_set_verb_flags (sample_at 7) (Some (0, 0)) 8 = Some db' \<and> db_verb_flags db' (Some (0, 0)) = Some 8"
proof -
  have "map_option v_perms (get_verb (sample_at 7) (Some (0, 0))) = Some 5" by code_simp
  then obtain v where v: "get_verb (sample_at 7) (Some (0, 0)) = Some v" "v_perms v = 5" by auto
  show ?thesis using verb_word_fields [OF v(1), of 8 0 0 0] v(2) by auto
qed

text \<open>C24: the printed form of every preposition of the table names that preposition: matching
  what \<open>db_unparse_prep\<close> prints gives the number back, as does matching the number, with or without
  \<^verbatim>\<open>#\<close>, and every alias of an entry finds its entry.\<close>

theorem prepositions_round_trip:
  "(\<forall>p \<in> set [0..14]. map_option db_match_prep (db_unparse_prep p) = Some p \<and>
      db_match_prep (printf_d p) = p \<and> db_match_prep (CHR ''#'' # printf_d p) = p) \<and>
   (\<forall>(j, alias) \<in> set all_aliases. fst (db_find_prep True alias) = int j)"
  by code_simp

theorem prepositions_round_trip_witness:
  "map_option db_match_prep (db_unparse_prep 4) = Some 4 \<and> db_match_prep (CHR ''#'' # printf_d 4) = 4"
proof -
  have "(4 :: int) \<in> set [0..14]" by simp
  then show ?thesis using prepositions_round_trip by blast
qed

end
