(* ===== verification/Db_Io.thy ===== *)
theory Db_Io
  imports Numbers
begin

text \<open>
  Reading and writing the primitive items of a database file (\<^verbatim>\<open>db_io.c\<close>): numbers, object
  numbers, strings and values, one to a line.

  The input is the rest of the file; reading gives the item and what is left. A read beyond the
  end of the file, whose buffer then holds no defined text, is \<open>None\<close>. \<open>fgets\<close> and the part of
  \<^verbatim>\<open>scanf\<close> that the server uses are written out, with the sizes of the C buffers: the loop of
  \<open>dbio_read_string\<close> over pieces of 1023 bytes is in the model. Complaints go to the log and are left
  out; the value returned after them is not.

  Printing and reading doubles, and reading and writing waifs, are the fields of a record
  \<open>formats\<close>. An error value is stored in 32 bits of a 64-bit union member and written as the whole
  member; the other half is the field \<open>io_high\<close>.
\<close>

section \<open>Input\<close>

record formats =
  io_float :: "double \<Rightarrow> string"
  io_strtod :: "string \<Rightarrow> double \<times> string"
  io_high :: "error \<Rightarrow> int"
  io_waif :: "waif \<Rightarrow> string"
  io_read_waif :: "string \<Rightarrow> (waif \<times> string) option"

abbreviation NL :: char where "NL \<equiv> CHR 0x0A"

text \<open>\<^verbatim>\<open>fgets(s, n, input)\<close>: at most \<open>n - 1\<close> bytes, up to and with the first newline.\<close>

fun fgets_loop :: "nat \<Rightarrow> string \<Rightarrow> string \<times> string" where
  "fgets_loop 0 s = ([], s)"
| "fgets_loop (Suc n) [] = ([], [])"
| "fgets_loop (Suc n) (c # s) =
     (if c = NL then ([c], s) else let (t, r) = fgets_loop n s in (c # t, r))"

definition fgets :: "nat \<Rightarrow> string \<Rightarrow> (string \<times> string) option" where
  "fgets n s = (if s = [] then None else Some (fgets_loop (n - 1) s))"

definition dbio_read_line :: "nat \<Rightarrow> string \<Rightarrow> (string \<times> string) option" where
  "dbio_read_line n s = fgets n s"

text \<open>The conversions of \<^verbatim>\<open>dbio_scanf\<close>: a character, white space, a decimal number. The numbers
  read before the first mismatch and the rest of the input.\<close>

datatype directive = Lit char | Ws | Dec

fun dbio_scanf :: "directive list \<Rightarrow> string \<Rightarrow> int list \<times> string" where
  "dbio_scanf [] s = ([], s)"
| "dbio_scanf (Lit c # ds) s = (if s \<noteq> [] \<and> hd s = c then dbio_scanf ds (tl s) else ([], s))"
| "dbio_scanf (Ws # ds) s = dbio_scanf ds (dropWhile isspace s)"
| "dbio_scanf (Dec # ds) s =
     (let t = dropWhile isspace s; (i, r) = strtoimax t
      in if r = t then ([], t) else (let (is, r') = dbio_scanf ds r in (i # is, r')))"

definition dbio_read_num :: "string \<Rightarrow> (Num \<times> string) option" where
  "dbio_read_num s = map_option (\<lambda>(l, r). (fst (strtoimax (cstr l)), r)) (fgets 22 s)"

definition dbio_read_float :: "formats \<Rightarrow> string \<Rightarrow> (double \<times> string) option" where
  "dbio_read_float F s = map_option (\<lambda>(l, r). (fst (io_strtod F (cstr l)), r)) (fgets 40 s)"

definition dbio_read_objid :: "string \<Rightarrow> (Objid \<times> string) option" where
  "dbio_read_objid s = dbio_read_num s"

lemma fgets_loop_length: "length (snd (fgets_loop n s)) \<le> length s"
  by (induction n s rule: fgets_loop.induct) (auto simp: Let_def split: prod.splits)

lemma fgets_shorter:
  assumes "fgets n s = Some (l, r)" "1 < n"
  shows "length r < length s"
proof (cases s)
  case Nil
  then show ?thesis using assms by (simp add: fgets_def)
next
  case (Cons c s')
  obtain m where m: "n - 1 = Suc m" using assms(2) by (cases "n - 1") auto
  show ?thesis using assms(1) Cons m fgets_loop_length [of m s']
    by (auto simp: fgets_def Let_def split: if_splits prod.splits)
qed

text \<open>The loop around \<^verbatim>\<open>try_again\<close>, with what the stream holds.\<close>

function read_string_loop :: "string \<Rightarrow> string \<Rightarrow> (string \<times> string) option" where
  "read_string_loop acc s =
     (case fgets 1024 s of
        None \<Rightarrow> None
      | Some (l, r) \<Rightarrow>
          let buffer = cstr l; n = length buffer
          in if n = 0 then None
             else if n = 1023 \<and> buffer ! (n - 1) \<noteq> NL then read_string_loop (acc @ buffer) r
             else Some (acc @ (if buffer ! (n - 1) = NL then take (n - 1) buffer else buffer), r))"
  by pat_completeness auto
termination
  by (relation "measure (\<lambda>(acc, s). length s)") (auto dest: fgets_shorter)

declare read_string_loop.simps [simp del]

definition dbio_read_string :: "string \<Rightarrow> (string \<times> string) option" where
  "dbio_read_string s = read_string_loop [] s"

text \<open>Interning shares the storage of equal strings and is the identity on their text.\<close>

definition dbio_read_string_intern :: "string \<Rightarrow> (string \<times> string) option" where
  "dbio_read_string_intern s = dbio_read_string s"

text \<open>The 32 bits of an error value; a number that names no error has no value in the model.\<close>

definition error_of :: "Num \<Rightarrow> error option" where
  "error_of n = find (\<lambda>e. error_number e = n mod 2 ^ 32)
     [E_NONE, E_TYPE, E_DIV, E_PERM, E_PROPNF, E_VERBNF, E_VARNF, E_INVIND, E_RECMOVE, E_MAXREC,
      E_RANGE, E_ARGS, E_NACC, E_INVARG, E_QUOTA, E_FLOAT]"

datatype DB_Version = DBV_Prehistory | DBV_Exceptions | DBV_BreakCont | DBV_Float | DBV_BFBugFixed

definition TYPE_ANY :: int where "TYPE_ANY = - 1"

primrec read_n :: "(string \<Rightarrow> ('a \<times> string) option) \<Rightarrow> nat \<Rightarrow> string \<Rightarrow> ('a list \<times> string) option" where
  "read_n rd 0 s = Some ([], s)"
| "read_n rd (Suc n) s =
     Option.bind (rd s) (\<lambda>(v, r). Option.bind (read_n rd n r) (\<lambda>(vs, r'). Some (v # vs, r')))"

lemma read_n_mono [partial_function_mono]:
  assumes "\<And>s. mono_option (\<lambda>f. B f s)"
  shows "mono_option (\<lambda>f. read_n (\<lambda>s. B f s) n s)"
proof (induction n arbitrary: s)
  case 0
  then show ?case by (simp add: option.const_mono)
next
  case (Suc n)
  have "mono_option (\<lambda>f. case p of (v, r) \<Rightarrow> Option.bind (read_n (\<lambda>s. B f s) n r) (\<lambda>(vs, r'). Some (v # vs, r')))" for p
    using Suc by (cases p) (auto intro!: bind_mono option.const_mono)
  then show ?case unfolding read_n.simps by (intro bind_mono assms)
qed

text \<open>The members of \<^verbatim>\<open>Var\<close> that are read as a number.\<close>

fun num_member :: "int \<Rightarrow> Num \<Rightarrow> Var option" where
  "num_member l n =
     (if l = 0 then Some (TYPE_INT n) else if l = 1 then Some (TYPE_OBJ n)
      else if l = 3 then map_option TYPE_ERR (error_of n)
      else if l = 7 then Some (TYPE_CATCH n) else Some (TYPE_FINALLY n))"

partial_function (option) dbio_read_var :: "formats \<Rightarrow> DB_Version \<Rightarrow> string \<Rightarrow> (Var \<times> string) option" where
  "dbio_read_var F version s =
     Option.bind (dbio_read_num s) (\<lambda>(n, r).
       let l = (if wrap32 n = TYPE_ANY \<and> version = DBV_Prehistory then 6 else wrap32 n)
       in if l = 5 then Some (TYPE_CLEAR, r)
          else if l = 6 then Some (TYPE_NONE, r)
          else if l = 2 then map_option (\<lambda>(str, r'). (TYPE_STR str, r')) (dbio_read_string_intern r)
          else if l \<in> {0, 1, 3, 7, 8}
          then Option.bind (dbio_read_num r) (\<lambda>(n, r'). map_option (\<lambda>v. (v, r')) (num_member l n))
          else if l = 9 then map_option (\<lambda>(d, r'). (TYPE_FLOAT d, r')) (dbio_read_float F r)
          else if l = 4
          then Option.bind (dbio_read_num r) (\<lambda>(n, r').
                 if wrap32 n < 0 then None
                 else Option.bind (read_n (\<lambda>t. dbio_read_var F version t) (nat (wrap32 n)) r')
                        (\<lambda>(vs, r''). Some (TYPE_LIST vs, r'')))
          else if l = 10 then map_option (\<lambda>(w, r'). (TYPE_WAIF w, r')) (io_read_waif F r)
          else Some (TYPE_INT 0, r))"

declare dbio_read_var.simps [code]

section \<open>Output\<close>

definition dbio_write_num :: "Num \<Rightarrow> string" where
  "dbio_write_num n = printf_d n @ [NL]"

definition dbio_write_float :: "formats \<Rightarrow> double \<Rightarrow> string" where
  "dbio_write_float F d = io_float F d @ [NL]"

definition dbio_write_objid :: "Objid \<Rightarrow> string" where
  "dbio_write_objid oid = dbio_write_num oid"

definition dbio_write_string :: "string \<Rightarrow> string" where
  "dbio_write_string s = cstr s @ [NL]"

fun dbio_write_var :: "formats \<Rightarrow> Var \<Rightarrow> string"
  and dbio_write_vars :: "formats \<Rightarrow> Var list \<Rightarrow> string" where
  "dbio_write_var F (TYPE_INT n) = dbio_write_num 0 @ dbio_write_num n"
| "dbio_write_var F (TYPE_OBJ n) = dbio_write_num 1 @ dbio_write_num n"
| "dbio_write_var F (TYPE_STR s) = dbio_write_num 2 @ dbio_write_string s"
| "dbio_write_var F (TYPE_ERR e) = dbio_write_num 3 @ dbio_write_num (wrap64 (io_high F e * 2 ^ 32 + error_number e))"
| "dbio_write_var F (TYPE_LIST vs) = dbio_write_num 4 @ dbio_write_num (int (length vs)) @ dbio_write_vars F vs"
| "dbio_write_var F TYPE_CLEAR = dbio_write_num 5"
| "dbio_write_var F TYPE_NONE = dbio_write_num 6"
| "dbio_write_var F (TYPE_CATCH n) = dbio_write_num 7 @ dbio_write_num n"
| "dbio_write_var F (TYPE_FINALLY n) = dbio_write_num 8 @ dbio_write_num n"
| "dbio_write_var F (TYPE_FLOAT d) = dbio_write_num 9 @ dbio_write_float F d"
| "dbio_write_var F (TYPE_WAIF w) = dbio_write_num 10 @ io_waif F w"
| "dbio_write_vars F [] = []"
| "dbio_write_vars F (v # vs) = dbio_write_var F v @ dbio_write_vars F vs"

section \<open>Round trips\<close>

text \<open>One line, read back.\<close>

lemma fgets_loop_line: "NL \<notin> set l \<Longrightarrow> length l < n \<Longrightarrow> fgets_loop n (l @ NL # r) = (l @ [NL], r)"
proof (induction l arbitrary: n)
  case Nil
  then show ?case by (cases n) auto
next
  case (Cons c l)
  then show ?case by (cases n) auto
qed

lemma fgets_line: "NL \<notin> set l \<Longrightarrow> length l + 1 < n \<Longrightarrow> fgets n (l @ NL # r) = Some (l @ [NL], r)"
  by (simp add: fgets_def fgets_loop_line)

lemma fgets_loop_long: "NL \<notin> set l \<Longrightarrow> n \<le> length l \<Longrightarrow> fgets_loop n (l @ r) = (take n l, drop n l @ r)"
proof (induction l arbitrary: n)
  case Nil
  then show ?case by simp
next
  case (Cons c l)
  then show ?case by (cases n) auto
qed

lemma cstr_append: "NUL \<notin> set s \<Longrightarrow> cstr (s @ t) = s @ cstr t"
  by (induction s) auto

definition storable_string :: "string \<Rightarrow> bool" where
  "storable_string s \<longleftrightarrow> NUL \<notin> set s \<and> NL \<notin> set s"

lemma read_string_loop_line:
  assumes "storable_string s"
  shows "read_string_loop acc (s @ NL # r) = Some (acc @ s, r)"
  using assms
proof (induction s arbitrary: acc rule: length_induct)
  case (1 s)
  then have no: "NUL \<notin> set s" "NL \<notin> set s" by (simp_all add: storable_string_def)
  show ?case
  proof (cases "length s < 1023")
    case True
    then have "fgets 1024 (s @ NL # r) = Some (s @ [NL], r)" using fgets_line no by simp
    moreover have "cstr (s @ [NL]) = s @ [NL]" using no cstr_append by simp
    ultimately show ?thesis using True by (subst read_string_loop.simps) (simp add: Let_def nth_append)
  next
    case False
    have f: "fgets 1024 (s @ NL # r) = Some (take 1023 s, drop 1023 s @ NL # r)"
      using False no fgets_loop_long [of s 1023 "NL # r"] by (simp add: fgets_def)
    have c: "cstr (take 1023 s) = take 1023 s" by (meson cstr_id in_set_takeD no(1))
    have "s ! 1022 \<in> set s" using False by (intro nth_mem) simp
    then have "take 1023 s ! 1022 \<noteq> NL" using no(2) by auto
    moreover have "storable_string (drop 1023 s)" using no by (auto simp: storable_string_def dest: in_set_dropD)
    then have "read_string_loop (acc @ take 1023 s) (drop 1023 s @ NL # r) = Some ((acc @ take 1023 s) @ drop 1023 s, r)"
      using 1(1) [rule_format, of "drop 1023 s" "acc @ take 1023 s"] False by simp
    moreover have "s \<noteq> []" using False by auto
    ultimately show ?thesis using False f c by (subst read_string_loop.simps) (simp add: Let_def)
  qed
qed

lemma read_write_string [simp]:
  "storable_string s \<Longrightarrow> dbio_read_string (dbio_write_string s @ r) = Some (s, r)"
  "storable_string s \<Longrightarrow> dbio_read_string_intern (dbio_write_string s @ r) = Some (s, r)"
  using read_string_loop_line [of s "[]" r]
  by (simp_all add: dbio_read_string_def dbio_read_string_intern_def dbio_write_string_def storable_string_def cstr_id)

lemma decimal_length: "n < 10 ^ k \<Longrightarrow> 0 < k \<Longrightarrow> length (decimal n) \<le> k"
proof (induction n arbitrary: k rule: decimal.induct)
  case (1 n)
  show ?case
  proof (cases "n < 10")
    case True
    then show ?thesis using 1 by (simp add: decimal.simps [of n])
  next
    case False
    have "k \<noteq> 1" using 1(2) False by auto
    then obtain j where j: "k = Suc j" "0 < j" using 1(3) by (cases k) auto
    then have "n div 10 < 10 ^ j" using 1(2) by (simp add: less_mult_imp_div_less mult.commute)
    then show ?thesis using 1(1) [OF False] j False by (simp add: decimal.simps [of n])
  qed
qed

lemma printf_d_length: "num_range n \<Longrightarrow> length (printf_d n) \<le> 20"
proof -
  assume "num_range n"
  then have "nat n < 10 ^ 19" "nat (- n) < 10 ^ 19" by (auto simp: num_range_def)
  then show ?thesis using decimal_length [of "nat (- n)" 19] decimal_length [of "nat n" 19]
    by (simp add: printf_d_def)
qed

lemma decimal_bytes: "c \<in> set (decimal n) \<Longrightarrow> isdigit c"
  using decimal_digits [of n] by (auto simp: list_all_iff)

lemma printf_d_bytes: "c \<in> set (printf_d n) \<Longrightarrow> c \<noteq> NUL \<and> c \<noteq> NL"
  using decimal_bytes [of c] by (auto simp: printf_d_def isdigit_def split: if_splits)

lemma read_write_num [simp]:
  assumes "num_range n"
  shows "dbio_read_num (dbio_write_num n @ r) = Some (n, r)"
    "dbio_read_objid (dbio_write_objid n @ r) = Some (n, r)"
proof -
  have b: "NUL \<notin> set (printf_d n)" "NL \<notin> set (printf_d n)" using printf_d_bytes by blast+
  have "fgets 22 (printf_d n @ NL # r) = Some (printf_d n @ [NL], r)"
    using fgets_line [OF b(2), of 22 r] printf_d_length [OF assms] by simp
  moreover have "strtoimax (printf_d n @ [NL]) = (n, [NL])"
    using strtoimax_printf [OF assms, of "[NL]"] by (simp add: isdigit_def)
  ultimately show "dbio_read_num (dbio_write_num n @ r) = Some (n, r)"
    using b by (simp add: dbio_read_num_def dbio_write_num_def cstr_append)
  then show "dbio_read_objid (dbio_write_objid n @ r) = Some (n, r)"
    by (simp add: dbio_read_objid_def dbio_write_objid_def)
qed

text \<open>What the C library promises for the 19 significant digits that are written: reading them back
  gives the same double, and the text fits the buffer.\<close>

definition float_io :: "formats \<Rightarrow> bool" where
  "float_io F \<longleftrightarrow> (\<forall>d. storable_string (io_float F d) \<and> length (io_float F d) < 39 \<and>
     fst (io_strtod F (io_float F d @ [NL])) = d)"

lemma read_write_float:
  assumes "float_io F"
  shows "dbio_read_float F (dbio_write_float F d @ r) = Some (d, r)"
proof -
  have f: "storable_string (io_float F d)" "length (io_float F d) < 39" "fst (io_strtod F (io_float F d @ [NL])) = d"
    using assms by (auto simp: float_io_def)
  have "fgets 40 (io_float F d @ NL # r) = Some (io_float F d @ [NL], r)"
    using f(1,2) fgets_line [of "io_float F d" 40 r] by (simp add: storable_string_def)
  moreover have "cstr (io_float F d @ [NL]) = io_float F d @ [NL]"
    using f(1) cstr_append [of "io_float F d" "[NL]"] by (simp add: storable_string_def)
  ultimately show ?thesis using f(3) by (simp add: dbio_read_float_def dbio_write_float_def)
qed

lemma error_of_number: "error_of (wrap64 (h * 2 ^ 32 + error_number e)) = Some e"
proof -
  have w: "wrap64 x mod 2 ^ 32 = x mod 2 ^ 32" for x
    using arg_cong [OF wrap64_mod [of x], of "\<lambda>y. y mod 2 ^ 32"] by (simp add: mod_mod_cancel)
  have "(h * 2 ^ 32 + error_number e) mod 2 ^ 32 = error_number e" by (cases e) simp_all
  then show ?thesis unfolding error_of_def w by (cases e) simp_all
qed

text \<open>Values that a file can hold: strings without line breaks, numbers in range, lists of a length
  that fits an \<^verbatim>\<open>int\<close>. Waifs are left to \<^verbatim>\<open>waif.c\<close>.\<close>

fun storable :: "Var \<Rightarrow> bool" where
  "storable (TYPE_INT n) \<longleftrightarrow> num_range n"
| "storable (TYPE_OBJ n) \<longleftrightarrow> num_range n"
| "storable (TYPE_STR s) \<longleftrightarrow> storable_string s"
| "storable (TYPE_LIST vs) \<longleftrightarrow> int (length vs) < 2 ^ 31 \<and> list_all storable vs"
| "storable (TYPE_CATCH n) \<longleftrightarrow> num_range n"
| "storable (TYPE_FINALLY n) \<longleftrightarrow> num_range n"
| "storable (TYPE_WAIF w) \<longleftrightarrow> False"
| "storable _ \<longleftrightarrow> True"

lemma small_num [simp]: "num_range (numeral k) \<longleftrightarrow> (numeral k :: int) < 2 ^ 63" "num_range 0" "num_range 1" "num_range (- 1)"
  using neg_numeral_le_numeral [of _ k] by (auto simp: num_range_def)

lemma read_write_header [simp]:
  "n \<in> {0 ..< 11} \<Longrightarrow> dbio_read_num (dbio_write_num n @ r) = Some (n, r) \<and> wrap32 n = n \<and> n \<noteq> TYPE_ANY"
  by (auto simp: num_range_def wrap32_def TYPE_ANY_def)

theorem value_read_write:
  assumes "float_io F" "storable v"
  shows "dbio_read_var F version (dbio_write_var F v @ r) = Some (v, r)"
proof -
  have l: "list_all storable vs \<Longrightarrow> (\<And>v r. v \<in> set vs \<Longrightarrow> storable v \<Longrightarrow> dbio_read_var F version (dbio_write_var F v @ r) = Some (v, r)) \<Longrightarrow>
      read_n (\<lambda>t. dbio_read_var F version t) (length vs) (dbio_write_vars F vs @ r) = Some (vs, r)" for vs r
    by (induction vs arbitrary: r) simp_all
  show ?thesis
    using assms(2)
  proof (induction v arbitrary: r)
    case (TYPE_LIST vs)
    then have n: "num_range (int (length vs))" "wrap32 (int (length vs)) = int (length vs)"
      by (simp_all add: num_range_def wrap32_id int_range_def)
    have "read_n (\<lambda>t. dbio_read_var F version t) (length vs) (dbio_write_vars F vs @ r) = Some (vs, r)"
      using TYPE_LIST by (intro l) auto
    then show ?case using n by (subst dbio_read_var.simps) (simp add: Let_def)
  next
    case (TYPE_FLOAT d)
    then show ?case using read_write_float [OF assms(1), of d r] by (subst dbio_read_var.simps) (simp add: Let_def)
  next
    case (TYPE_ERR e)
    then show ?case by (subst dbio_read_var.simps) (use error_of_number [of "io_high F e" e] in \<open>simp add: Let_def\<close>)
  qed (subst dbio_read_var.simps, simp add: Let_def)+
qed

end
