(* ===== verification/Validate.thy ===== *)
theory Validate
  imports Attributes
begin

text \<open>
  The check that \<^verbatim>\<open>db_file.c\<close> makes of a database it has just read: \<open>validate_hierarchies\<close> repairs
  object numbers that lead nowhere, looks for cycles with two pointers running at different
  speed, and compares the lists of children and contents with the back pointers, using two spare
  flag bits as marks.

  \<open>check_cycle_decides\<close> shows that the two pointers always meet or fall off the end, and
  \<open>validate_result\<close> that the function ends, accepts exactly the databases whose repaired
  hierarchies are forests, and changes nothing beyond the repairs.
\<close>

lemma less_int_Suc: "i < int (Suc n) \<longleftrightarrow> i < int n \<or> i = int n"
  by auto

section \<open>The phases\<close>

text \<open>\<^verbatim>\<open>for (oid = 0; oid < size; oid++)\<close>, over a state that the body may change.\<close>

primrec for_objids :: "(Objid \<Rightarrow> 's \<Rightarrow> 's option) \<Rightarrow> nat \<Rightarrow> 's \<Rightarrow> 's option" where
  "for_objids body 0 s = Some s"
| "for_objids body (Suc n) s = do { s' \<leftarrow> for_objids body n s; body (int n) s' }"

text \<open>Phase 1: the next pointer of an object that is nowhere, then each of the six fields.\<close>

definition check_field :: "db \<Rightarrow> (obj \<Rightarrow> Objid) \<Rightarrow> (Objid \<Rightarrow> obj \<Rightarrow> obj) \<Rightarrow> obj \<Rightarrow> obj" where
  "check_field db g s x = (if g x \<noteq> NOTHING \<and> dbpriv_find_object db (g x) = None then s NOTHING x else x)"

definition fix_fields :: "db \<Rightarrow> obj \<Rightarrow> obj" where
  "fix_fields db x =
     (let x0 = (if o_location x = NOTHING \<and> o_next x \<noteq> NOTHING then x\<lparr>o_next := NOTHING\<rparr> else x);
          x1 = check_field db o_parent (\<lambda>v y. y\<lparr>o_parent := v\<rparr>) x0;
          x2 = check_field db o_child (\<lambda>v y. y\<lparr>o_child := v\<rparr>) x1;
          x3 = check_field db o_sibling (\<lambda>v y. y\<lparr>o_sibling := v\<rparr>) x2;
          x4 = check_field db o_location (\<lambda>v y. y\<lparr>o_location := v\<rparr>) x3;
          x5 = check_field db o_contents (\<lambda>v y. y\<lparr>o_contents := v\<rparr>) x4
      in check_field db o_next (\<lambda>v y. y\<lparr>o_next := v\<rparr>) x5)"

definition validate_phase1 :: "Objid \<Rightarrow> db \<Rightarrow> db option" where
  "validate_phase1 oid db =
     (case dbpriv_find_object db oid of
        None \<Rightarrow> Some db
      | Some x \<Rightarrow> Some (db\<lparr>objects := (objects db)(oid \<mapsto> fix_fields db x)\<rparr>))"

text \<open>Phase 2: \<open>faster\<close> takes two steps when \<open>slower\<close> takes one.\<close>

partial_function (option) check_cycle :: "(obj \<Rightarrow> Objid) \<Rightarrow> db \<Rightarrow> Objid \<Rightarrow> Objid \<Rightarrow> bool option" where
  "check_cycle g db slower faster =
     (if faster = NOTHING then Some False
      else do {
        f1 \<leftarrow> dbpriv_find_object db faster;
        if g f1 = NOTHING then Some False
        else do {
          f2 \<leftarrow> dbpriv_find_object db (g f1);
          s1 \<leftarrow> dbpriv_find_object db slower;
          if g f2 = g s1 then Some True else check_cycle g db (g s1) (g f2)
        }
      })"

declare check_cycle.simps [code]

definition FLAG_FIRST_TEMP :: nat where "FLAG_FIRST_TEMP = 14"

definition temp_mask :: int where
  "temp_mask = push_bit FLAG_FIRST_TEMP 3"

definition validate_phase2 :: "Objid \<Rightarrow> bool \<times> db \<Rightarrow> (bool \<times> db) option" where
  "validate_phase2 oid s =
     (let (broken, db) = s in
      case dbpriv_find_object db oid of
        None \<Rightarrow> Some (broken, db)
      | Some x \<Rightarrow>
          do {
            b1 \<leftarrow> check_cycle o_parent db (o_parent x) (o_parent x);
            b2 \<leftarrow> check_cycle o_sibling db (o_child x) (o_child x);
            b3 \<leftarrow> check_cycle o_location db (o_location x) (o_location x);
            b4 \<leftarrow> check_cycle o_next db (o_contents x) (o_contents x);
            Some (broken \<or> b1 \<or> b2 \<or> b3 \<or> b4,
              db\<lparr>objects := (objects db)(oid \<mapsto> x\<lparr>o_flags := o_flags x OR temp_mask\<rparr>)\<rparr>)
          })"

text \<open>Phase 3a: every object on a list that points back at the owner of the list is marked as
  claimed by clearing its temporary flag.\<close>

partial_function (option) claim_loop ::
  "(obj \<Rightarrow> Objid) \<Rightarrow> (obj \<Rightarrow> Objid) \<Rightarrow> nat \<Rightarrow> Objid \<Rightarrow> Objid \<Rightarrow> bool \<times> db \<Rightarrow> (bool \<times> db) option" where
  "claim_loop up across f oid oidkid s =
     (if oidkid = NOTHING then Some s
      else do {
        okid \<leftarrow> dbpriv_find_object (snd s) oidkid;
        claim_loop up across f oid (across okid)
          (if up okid \<noteq> oid then (True, snd s)
           else (fst s, (snd s)\<lparr>objects := (objects (snd s))
                  (oidkid \<mapsto> okid\<lparr>o_flags := o_flags okid AND NOT (flag_mask f)\<rparr>)\<rparr>))
      })"

declare claim_loop.simps [code]

definition validate_phase3a :: "Objid \<Rightarrow> bool \<times> db \<Rightarrow> (bool \<times> db) option" where
  "validate_phase3a oid s =
     (case dbpriv_find_object (snd s) oid of
        None \<Rightarrow> Some s
      | Some x \<Rightarrow>
          do {
            s1 \<leftarrow> claim_loop o_parent o_sibling FLAG_FIRST_TEMP oid (o_child x) s;
            x1 \<leftarrow> dbpriv_find_object (snd s1) oid;
            claim_loop o_location o_next (FLAG_FIRST_TEMP + 1) oid (o_contents x1) s1
          })"

text \<open>Phase 3b: an object that nobody claims must have no back pointer.\<close>

definition validate_phase3b :: "Objid \<Rightarrow> bool \<times> db \<Rightarrow> (bool \<times> db) option" where
  "validate_phase3b oid s =
     (let (broken, db) = s in
      case dbpriv_find_object db oid of
        None \<Rightarrow> Some (broken, db)
      | Some x \<Rightarrow>
          Some (broken
              \<or> (o_flags x AND flag_mask FLAG_FIRST_TEMP) \<noteq> 0 \<and> o_parent x \<noteq> NOTHING
              \<or> (o_flags x AND flag_mask (FLAG_FIRST_TEMP + 1)) \<noteq> 0 \<and> o_location x \<noteq> NOTHING,
            db\<lparr>objects := (objects db)(oid \<mapsto> x\<lparr>o_flags := o_flags x AND NOT temp_mask\<rparr>)\<rparr>))"

definition validate_hierarchies :: "db \<Rightarrow> (bool \<times> db) option" where
  "validate_hierarchies db =
     (let size' = nat (num_objects db) in
      do {
        db1 \<leftarrow> for_objids validate_phase1 size' db;
        (broken, db2) \<leftarrow> for_objids validate_phase2 size' (False, db1);
        if broken then Some (False, db2)
        else do {
          s3 \<leftarrow> for_objids validate_phase3a size' (False, db2);
          (broken', db4) \<leftarrow> for_objids validate_phase3b size' s3;
          Some (\<not> broken', db4)
        }
      })"

section \<open>Two pointers\<close>

text \<open>A chain closes when every object number on it leads to an object or is \<^verbatim>\<open>NOTHING\<close>.\<close>

definition closed :: "(obj \<Rightarrow> Objid) \<Rightarrow> heap \<Rightarrow> bool" where
  "closed g H \<longleftrightarrow> H NOTHING = None \<and> (\<forall>i x. H i = Some x \<longrightarrow> g x = NOTHING \<or> H (g x) \<noteq> None)"

lemma check_cycle_links:
  assumes "wf_table db" "links (field g (objects db)) a ws" "links (field g (objects db)) b ys"
    and "length ys \<le> length ws"
  shows "check_cycle g db a b = Some False"
  using assms(2-4)
proof (induction ys arbitrary: a b ws rule: length_induct)
  case (1 ys)
  note find = wf_table_find [OF assms(1)]
  show ?case
  proof (cases ys)
    case Nil
    then show ?thesis using 1 by (simp add: check_cycle.simps)
  next
    case (Cons y ys1)
    then obtain fy where fy: "b = y" "y \<noteq> NOTHING" "objects db y = Some fy"
        "links (field g (objects db)) (g fy) ys1"
      using 1 by (auto simp: field_eq_Some)
    show ?thesis
    proof (cases ys1)
      case Nil
      then show ?thesis using fy by (subst check_cycle.simps) (simp add: find)
    next
      case (Cons z zs)
      then obtain fz where fz: "g fy = z" "z \<noteq> NOTHING" "objects db z = Some fz"
          "links (field g (objects db)) (g fz) zs"
        using fy by (auto simp: field_eq_Some)
      obtain w ws1 where w: "ws = w # ws1" using 1 \<open>ys = y # ys1\<close> by (cases ws) auto
      then obtain fw where fw: "a = w" "objects db w = Some fw" "links (field g (objects db)) (g fw) ws1"
        using 1 by (auto simp: field_eq_Some)
      have len: "length zs < length ws1" using 1 w Cons \<open>ys = y # ys1\<close> by simp
      have ne: "g fz \<noteq> g fw" using links_unique [of "field g (objects db)" "g fw" zs ws1] fz(4) fw(3) len by auto
      have "check_cycle g db (g fw) (g fz) = Some False"
        using 1(1) [rule_format, OF _ fw(3) fz(4)] len Cons \<open>ys = y # ys1\<close> by simp
      then show ?thesis using fy fz fw ne by (subst check_cycle.simps) (simp add: find)
    qed
  qed
qed

text \<open>The object reached from another by following the field; where it leads nowhere, \<^verbatim>\<open>NOTHING\<close>.\<close>

definition follow :: "(obj \<Rightarrow> Objid) \<Rightarrow> heap \<Rightarrow> Objid \<Rightarrow> Objid" where
  "follow g H i = (case H i of Some x \<Rightarrow> g x | None \<Rightarrow> NOTHING)"

lemma follow_Some [simp]: "H i = Some x \<Longrightarrow> follow g H i = g x"
  by (simp add: follow_def)

lemma chain_ends:
  assumes "closed g H" "H ((follow g H ^^ k) a) = None" "a = NOTHING \<or> H a \<noteq> None"
  shows "\<exists>xs. links (field g H) a xs"
  using assms(2,3)
proof (induction k arbitrary: a)
  case 0
  then show ?case by (intro exI [of _ "[]"]) simp
next
  case (Suc k)
  show ?case
  proof (cases "H a")
    case None
    then show ?thesis using Suc by (intro exI [of _ "[]"]) simp
  next
    case (Some x)
    then have "g x = NOTHING \<or> H (g x) \<noteq> None" "a \<noteq> NOTHING" using assms(1) by (auto simp: closed_def)
    moreover have "H ((follow g H ^^ k) (g x)) = None"
      using Suc.prems(1) Some by (simp add: funpow_swap1)
    ultimately obtain xs where "links (field g H) (g x) xs" using Suc.IH by blast
    then show ?thesis using Some \<open>a \<noteq> NOTHING\<close> by (intro exI [of _ "a # xs"]) (simp add: field_Some)
  qed
qed

lemma iterates_meet:
  fixes f :: "'a \<Rightarrow> 'a"
  assumes "finite A" "\<And>k. (f ^^ k) a \<in> A"
  shows "\<exists>i > 0. (f ^^ i) a = (f ^^ (2 * i)) a"
proof -
  let ?x = "\<lambda>k. (f ^^ k) a"
  have "finite (range ?x)" using assms finite_subset [of "range ?x" A] by auto
  then have "\<not> inj ?x" using finite_imageD infinite_UNIV_nat by blast
  then obtain m n where mn: "m < n" "?x m = ?x n" unfolding inj_def by (metis linorder_neqE_nat)
  define d where "d = n - m"
  have d: "0 < d" "?x (m + d) = ?x m" using mn by (simp_all add: d_def)
  have step: "?x (m + j + d) = ?x (m + j)" for j
  proof -
    have "?x (m + j + d) = (f ^^ (j + (m + d))) a" by (simp add: ac_simps)
    also have "\<dots> = (f ^^ j) (?x m)" using d(2) by (simp only: funpow_add comp_apply)
    also have "\<dots> = (f ^^ (j + m)) a" by (simp only: funpow_add comp_apply)
    also have "\<dots> = ?x (m + j)" by (simp only: add.commute)
    finally show ?thesis .
  qed
  have many: "?x (m + j + l * d) = ?x (m + j)" for j l
  proof (induction l)
    case (Suc l)
    have "m + j + Suc l * d = m + (j + l * d) + d" by simp
    then show ?case using step [of "j + l * d"] Suc by (simp add: ac_simps)
  qed simp
  define i where "i = Suc m * d"
  have "i \<ge> m" using d(1) by (simp add: i_def) (metis le_add2 mult_le_mono2 nat_mult_1_right Suc_leI One_nat_def le_trans)
  then obtain j where "i = m + j" using le_Suc_ex by blast
  then have "2 * i = m + j + Suc m * d" by (simp add: i_def)
  then have "?x (2 * i) = ?x i" using many [of j "Suc m"] by (simp only: \<open>i = m + j\<close>)
  then show ?thesis using d(1) by (intro exI [of _ i]) (simp add: i_def)
qed

lemma check_cycle_meets:
  assumes "wf_table db" "\<And>k. objects db ((follow g (objects db) ^^ k) a) \<noteq> None"
    and "k < i" "(follow g (objects db) ^^ i) a = (follow g (objects db) ^^ (2 * i)) a"
  shows "check_cycle g db ((follow g (objects db) ^^ k) a) ((follow g (objects db) ^^ (2 * k)) a) = Some True"
  using assms(3)
proof (induction "i - k" arbitrary: k)
  case 0
  then show ?case by simp
next
  case (Suc n)
  let ?x = "\<lambda>k. (follow g (objects db) ^^ k) a"
  note find = wf_table_find [OF assms(1)]
  have nn: "?x j \<noteq> NOTHING" for j using assms(2) [of j] wf_table_NOTHING [OF assms(1)] by auto
  obtain f1 where f1: "objects db (?x (2 * k)) = Some f1" "g f1 = ?x (2 * k + 1)" using assms(2) [of "2 * k"] by fastforce
  obtain f2 where f2: "objects db (?x (2 * k + 1)) = Some f2" "g f2 = ?x (2 * (k + 1))" using assms(2) [of "2 * k + 1"] by fastforce
  obtain s1 where s1: "objects db (?x k) = Some s1" "g s1 = ?x (k + 1)" using assms(2) [of k] by fastforce
  have rec: "?x (2 * (k + 1)) \<noteq> ?x (k + 1) \<Longrightarrow> check_cycle g db (?x (k + 1)) (?x (2 * (k + 1))) = Some True"
  proof -
    assume ne: "?x (2 * (k + 1)) \<noteq> ?x (k + 1)"
    then have "k + 1 \<noteq> i" using assms(4) by auto
    then show ?thesis using Suc.hyps(1) [of "k + 1"] Suc.hyps(2) Suc.prems by simp
  qed
  have "g f1 \<noteq> NOTHING" "objects db (g f1) = Some f2" using f1(2) f2(1) nn [of "2 * k + 1"] by simp_all
  moreover have "g f2 \<noteq> g s1 \<Longrightarrow> check_cycle g db (g s1) (g f2) = Some True" using rec f2(2) s1(2) by simp
  ultimately show ?case using nn [of "2 * k"] f1(1) s1(1)
    by (subst check_cycle.simps) (simp add: find)
qed

lemma check_cycle_decides:
  assumes "wf_table db" "finite (dom (objects db))" "closed g (objects db)" "a = NOTHING \<or> objects db a \<noteq> None"
  shows "check_cycle g db a a = Some (\<not> (\<exists>xs. links (field g (objects db)) a xs))"
proof (cases "\<exists>xs. links (field g (objects db)) a xs")
  case True
  then show ?thesis using check_cycle_links [OF assms(1)] by fastforce
next
  case False
  then have all: "objects db ((follow g (objects db) ^^ k) a) \<noteq> None" for k
    using chain_ends [OF assms(3) _ assms(4)] by blast
  then obtain i where "0 < i" "(follow g (objects db) ^^ i) a = (follow g (objects db) ^^ (2 * i)) a"
    using iterates_meet [OF assms(2), of "follow g (objects db)" a] by auto
  then show ?thesis using check_cycle_meets [OF assms(1) all, of 0 i] False by simp
qed

section \<open>Repairs\<close>

definition repaired :: "db \<Rightarrow> db" where
  "repaired db = db\<lparr>objects := \<lambda>i. map_option (fix_fields db) (objects db i)\<rparr>"

lemma fix_fields_cong:
  "(\<And>i. dbpriv_find_object db' i = None \<longleftrightarrow> dbpriv_find_object db i = None) \<Longrightarrow> fix_fields db' x = fix_fields db x"
  by (simp add: fix_fields_def check_field_def)

lemma phase1_loop:
  assumes "wf_table db"
  shows "for_objids validate_phase1 n db =
    Some (db\<lparr>objects := \<lambda>i. if 0 \<le> i \<and> i < int n then map_option (fix_fields db) (objects db i) else objects db i\<rparr>)"
proof (induction n)
  case 0
  have "(\<lambda>i. if 0 \<le> i \<and> i < int 0 then map_option (fix_fields db) (objects db i) else objects db i) = objects db"
    by (intro ext) auto
  then show ?case by simp
next
  case (Suc n)
  let ?H = "\<lambda>n i. if 0 \<le> i \<and> i < int n then map_option (fix_fields db) (objects db i) else objects db i"
  let ?d = "db\<lparr>objects := ?H n\<rparr>"
  have find: "dbpriv_find_object ?d i = (if 0 \<le> i \<and> i < num_objects db then ?H n i else None)" for i
    by (auto simp: dbpriv_find_object_def)
  have same: "fix_fields ?d x = fix_fields db x" for x
    by (rule fix_fields_cong) (auto simp: find dbpriv_find_object_def)
  have "validate_phase1 (int n) ?d = Some (db\<lparr>objects := ?H (Suc n)\<rparr>)"
  proof (cases "objects db (int n)")
    case None
    then have "?H (Suc n) = ?H n" by (auto simp: fun_eq_iff less_int_Suc simp del: of_nat_Suc)
    then show ?thesis using None by (simp add: validate_phase1_def find)
  next
    case (Some x)
    then have "int n < num_objects db" using wf_tableD [OF assms] by blast
    moreover have "?H (Suc n) = (?H n)(int n \<mapsto> fix_fields db x)" using Some by (auto simp: fun_eq_iff)
    ultimately show ?thesis using Some same by (simp add: validate_phase1_def find)
  qed
  then show ?case using Suc by simp
qed

lemma phase1_repairs:
  assumes "wf_table db"
  shows "for_objids validate_phase1 (nat (num_objects db)) db = Some (repaired db)"
proof -
  have "(\<lambda>i. if 0 \<le> i \<and> i < int (nat (num_objects db)) then map_option (fix_fields db) (objects db i) else objects db i) =
      (\<lambda>i. map_option (fix_fields db) (objects db i))"
  proof (rule ext)
    fix i
    show "(if 0 \<le> i \<and> i < int (nat (num_objects db)) then map_option (fix_fields db) (objects db i) else objects db i) =
        map_option (fix_fields db) (objects db i)"
      using wf_tableD [OF assms, of i] by (cases "objects db i") auto
  qed
  then show ?thesis using phase1_loop [OF assms, of "nat (num_objects db)"] by (simp add: repaired_def)
qed

text \<open>After the repairs every object number of the six fields leads to an object.\<close>

lemma check_field_valid:
  "(\<And>v y. g (s v y) = v) \<Longrightarrow> g (check_field db g s x) = NOTHING \<or> (\<exists>z. dbpriv_find_object db (g (check_field db g s x)) = Some z)"
  by (auto simp: check_field_def)

lemma check_field_same: "(\<And>v y. h (s v y) = h y) \<Longrightarrow> h (check_field db g s x) = h x"
  by (simp add: check_field_def)

lemma fix_fields_valid:
  "g \<in> {o_parent, o_child, o_sibling, o_location, o_contents, o_next} \<Longrightarrow>
   g (fix_fields db x) = NOTHING \<or> (\<exists>z. dbpriv_find_object db (g (fix_fields db x)) = Some z)"
  by (elim insertE) (simp_all add: fix_fields_def Let_def check_field_same check_field_valid)

lemma fix_fields_id [simp]: "o_id (fix_fields db x) = o_id x"
  by (simp add: fix_fields_def Let_def check_field_same)

lemma fix_fields_same:
  assumes "o_location x = NOTHING \<longrightarrow> o_next x = NOTHING"
    and "list_all (\<lambda>i. i = NOTHING \<or> dbpriv_find_object db i \<noteq> None)
      [o_parent x, o_child x, o_sibling x, o_location x, o_contents x, o_next x]"
  shows "fix_fields db x = x"
proof -
  have "check_field db g u x = x" if "g x = NOTHING \<or> dbpriv_find_object db (g x) \<noteq> None" for g u
    using that by (auto simp: check_field_def)
  then show ?thesis using assms by (auto simp: fix_fields_def Let_def)
qed

lemma repaired_table: "wf_table db \<Longrightarrow> wf_table (repaired db)"
  by (auto simp: wf_table_def repaired_def)

lemma repaired_closed:
  assumes "wf_table db" "g \<in> {o_parent, o_child, o_sibling, o_location, o_contents, o_next}"
  shows "closed g (objects (repaired db))"
proof -
  have "g (fix_fields db x) = NOTHING \<or> objects (repaired db) (g (fix_fields db x)) \<noteq> None" for x
    using fix_fields_valid [OF assms(2), of db x] wf_table_find [OF assms(1)] by (auto simp: repaired_def)
  then have "g y = NOTHING \<or> objects (repaired db) (g y) \<noteq> None" if "map_option (fix_fields db) (objects db i) = Some y" for i y
    using that by (cases "objects db i") auto
  then show ?thesis using wf_table_NOTHING [OF repaired_table [OF assms(1)]] unfolding closed_def
    by (auto simp: repaired_def)
qed

lemma wf_table_finite:
  assumes "wf_table db"
  shows "finite (dom (objects db))"
proof -
  have "dom (objects db) \<subseteq> {0 ..< num_objects db}" using wf_tableD [OF assms] by auto
  then show ?thesis by (rule finite_subset) simp
qed

section \<open>Marks\<close>

text \<open>The database with other flags: what the later phases change.\<close>

definition flagged :: "db \<Rightarrow> (Objid \<Rightarrow> int) \<Rightarrow> db" where
  "flagged db F = db\<lparr>objects := \<lambda>i. map_option (\<lambda>x. x\<lparr>o_flags := F i\<rparr>) (objects db i)\<rparr>"

definition unflagged :: "(obj \<Rightarrow> Objid) \<Rightarrow> bool" where
  "unflagged g \<longleftrightarrow> (\<forall>x v. g (x\<lparr>o_flags := v\<rparr>) = g x)"

lemma unflagged_fields [simp]: "unflagged o_parent" "unflagged o_child" "unflagged o_sibling"
    "unflagged o_location" "unflagged o_contents" "unflagged o_next"
  by (simp_all add: unflagged_def)

lemma flagged_field: "unflagged g \<Longrightarrow> field g (objects (flagged db F)) = field g (objects db)"
  by (auto simp: field_def flagged_def unflagged_def fun_eq_iff option.map_comp comp_def)

lemma flagged_find:
  "wf_table db \<Longrightarrow> dbpriv_find_object (flagged db F) i = map_option (\<lambda>x. x\<lparr>o_flags := F i\<rparr>) (objects db i)"
  by (cases "objects db i") (auto simp: dbpriv_find_object_def flagged_def dest: wf_tableD)

lemma flagged_table: "wf_table db \<Longrightarrow> wf_table (flagged db F)"
  by (auto simp: wf_table_def flagged_def)

lemma flagged_upd:
  assumes "objects db i = Some x"
  shows "(flagged db F)\<lparr>objects := (objects (flagged db F))(i \<mapsto> x\<lparr>o_flags := v\<rparr>)\<rparr> = flagged db (F(i := v))"
proof -
  have "(objects (flagged db F))(i \<mapsto> x\<lparr>o_flags := v\<rparr>) = objects (flagged db (F(i := v)))"
    using assms by (auto simp: flagged_def fun_eq_iff)
  then show ?thesis by (simp add: flagged_def)
qed

lemma flagged_cong:
  "(\<And>i x. objects db i = Some x \<Longrightarrow> F i = G i) \<Longrightarrow> flagged db F = flagged db G"
proof -
  assume a: "\<And>i x. objects db i = Some x \<Longrightarrow> F i = G i"
  have "map_option (\<lambda>x. x\<lparr>o_flags := F i\<rparr>) (objects db i) = map_option (\<lambda>x. x\<lparr>o_flags := G i\<rparr>) (objects db i)" for i
    using a [of i] by (cases "objects db i") auto
  then show ?thesis by (simp add: flagged_def)
qed

definition flags_of :: "db \<Rightarrow> Objid \<Rightarrow> int" where
  "flags_of db i = (case objects db i of Some x \<Rightarrow> o_flags x | None \<Rightarrow> 0)"

lemma flagged_self: "flagged db (flags_of db) = db"
proof -
  have "map_option (\<lambda>x. x\<lparr>o_flags := flags_of db i\<rparr>) (objects db i) = objects db i" for i
    by (cases "objects db i") (auto simp: flags_of_def)
  then show ?thesis by (simp add: flagged_def)
qed

section \<open>Phase 2\<close>

definition ends :: "(obj \<Rightarrow> Objid) \<Rightarrow> heap \<Rightarrow> Objid \<Rightarrow> bool" where
  "ends g H a \<longleftrightarrow> (\<exists>xs. links (field g H) a xs)"

definition chains_end :: "heap \<Rightarrow> obj \<Rightarrow> bool" where
  "chains_end H x \<longleftrightarrow> ends o_parent H (o_parent x) \<and> ends o_sibling H (o_child x) \<and>
     ends o_location H (o_location x) \<and> ends o_next H (o_contents x)"

text \<open>What the repairs leave behind, and all that the later phases need.\<close>

definition checked :: "db \<Rightarrow> bool" where
  "checked db \<longleftrightarrow> wf_table db \<and>
     (\<forall>g \<in> {o_parent, o_child, o_sibling, o_location, o_contents, o_next}. closed g (objects db))"

lemma repaired_checked: "wf_table db \<Longrightarrow> checked (repaired db)"
  using repaired_table repaired_closed by (simp add: checked_def)

lemma flagged_check_cycle:
  assumes "checked db" "g \<in> {o_parent, o_child, o_sibling, o_location, o_contents, o_next}"
    and "g' \<in> {o_parent, o_child, o_sibling, o_location, o_contents, o_next}" "objects db i = Some x"
  shows "check_cycle g (flagged db F) (g' x) (g' x) = Some (\<not> ends g (objects db) (g' x))"
proof -
  let ?d = "flagged db F"
  have u: "unflagged g" "unflagged g'" using assms(2,3) by auto
  have wt: "wf_table ?d" using assms(1) flagged_table by (simp add: checked_def)
  have cl: "closed g (objects db)" "closed g' (objects db)" using assms(1-3) unfolding checked_def by blast+
  have "closed g (objects ?d)" using cl(1) u(1) unfolding closed_def flagged_def unflagged_def by fastforce
  moreover have "g' x = NOTHING \<or> objects ?d (g' x) \<noteq> None" using cl(2) assms(4) by (auto simp: closed_def flagged_def)
  ultimately show ?thesis
    using check_cycle_decides [OF wt wf_table_finite [OF wt], of g "g' x"] by (simp add: ends_def flagged_field [OF u(1)])
qed

lemma phase2_loop:
  assumes "checked db"
  shows "for_objids validate_phase2 n (False, db) =
    Some (\<exists>i x. 0 \<le> i \<and> i < int n \<and> objects db i = Some x \<and> \<not> chains_end (objects db) x,
      flagged db (\<lambda>i. if 0 \<le> i \<and> i < int n then flags_of db i OR temp_mask else flags_of db i))"
proof (induction n)
  case 0
  have "flagged db (\<lambda>i. if 0 \<le> i \<and> i < int 0 then flags_of db i OR temp_mask else flags_of db i) = flagged db (flags_of db)"
    by (rule flagged_cong) simp
  then show ?case by (simp add: flagged_self)
next
  case (Suc n)
  let ?F = "\<lambda>n i. if 0 \<le> i \<and> i < int n then flags_of db i OR temp_mask else flags_of db i"
  have wt: "wf_table db" using assms by (simp add: checked_def)
  let ?b = "\<exists>i x. 0 \<le> i \<and> i < int n \<and> objects db i = Some x \<and> \<not> chains_end (objects db) x"
  have "validate_phase2 (int n) (?b, flagged db (?F n)) =
      Some (?b \<or> (\<exists>x. objects db (int n) = Some x \<and> \<not> chains_end (objects db) x), flagged db (?F (Suc n)))"
  proof (cases "objects db (int n)")
    case None
    then have "flagged db (?F (Suc n)) = flagged db (?F n)"
      by (intro flagged_cong) (auto simp: less_int_Suc simp del: of_nat_Suc)
    then show ?thesis using None by (simp add: validate_phase2_def flagged_find [OF wt])
  next
    case (Some x)
    note cyc = flagged_check_cycle [OF assms _ _ Some, of _ _ "?F n"]
    have eq: "flagged db (?F (Suc n)) = (flagged db (?F n))\<lparr>objects := (objects (flagged db (?F n)))
        (int n \<mapsto> x\<lparr>o_flags := ?F n (int n) OR temp_mask\<rparr>)\<rparr>"
      unfolding flagged_upd [OF Some] by (intro flagged_cong) (auto simp: less_int_Suc simp del: of_nat_Suc)
    show ?thesis
      unfolding eq using Some by (simp add: validate_phase2_def flagged_find [OF wt] cyc chains_end_def)
  qed
  moreover have "(\<exists>i x. 0 \<le> i \<and> i < int (Suc n) \<and> objects db i = Some x \<and> \<not> chains_end (objects db) x) \<longleftrightarrow>
      ?b \<or> (\<exists>x. objects db (int n) = Some x \<and> \<not> chains_end (objects db) x)"
    by (metis less_int_Suc of_nat_0_le_iff)
  ultimately show ?case using Suc by simp
qed

section \<open>Phase 3\<close>

lemma claim_loop_links:
  assumes wt: "wf_table db" and u: "unflagged up" "unflagged across"
    and l: "links (field across (objects db)) a ks"
  shows "claim_loop up across f oid a (b, flagged db F) =
    Some (b \<or> (\<exists>k \<in> set ks. field up (objects db) k \<noteq> Some oid),
      flagged db (\<lambda>i. if i \<in> set ks \<and> field up (objects db) i = Some oid then F i AND NOT (flag_mask f) else F i))"
  using l
proof (induction ks arbitrary: a b F)
  case Nil
  then show ?case by (simp add: claim_loop.simps)
next
  case (Cons k ks)
  then obtain x where x: "a = k" "k \<noteq> NOTHING" "objects db k = Some x" "links (field across (objects db)) (across x) ks"
    by (auto simp: field_eq_Some)
  have nk: "k \<notin> set ks" using links_distinct [OF Cons.prems] by simp
  have uk: "up (x\<lparr>o_flags := v\<rparr>) = up x" "across (x\<lparr>o_flags := v\<rparr>) = across x" for v
    using u by (simp_all add: unflagged_def)
  have fk: "field up (objects db) k = Some (up x)" using x(3) by (simp add: field_Some)
  let ?F = "if up x = oid then F(k := F k AND NOT (flag_mask f)) else F"
  have step: "claim_loop up across f oid a (b, flagged db F) =
      claim_loop up across f oid (across x) (b \<or> up x \<noteq> oid, flagged db ?F)"
    using x by (subst claim_loop.simps) (simp add: flagged_find [OF wt] uk flagged_upd [OF x(3), symmetric])
  show ?case
    unfolding step Cons.IH [OF x(4)] using fk nk by (auto intro!: flagged_cong)
qed

text \<open>The objects on one of the lists of an object, and whether one of them points elsewhere.\<close>

definition on_list :: "(obj \<Rightarrow> Objid) \<Rightarrow> (obj \<Rightarrow> Objid) \<Rightarrow> heap \<Rightarrow> Objid \<Rightarrow> Objid \<Rightarrow> bool" where
  "on_list gl gn H w c \<longleftrightarrow> (\<exists>xs. listed gl gn H w xs \<and> c \<in> set xs)"

definition stray :: "(obj \<Rightarrow> Objid) \<Rightarrow> (obj \<Rightarrow> Objid) \<Rightarrow> (obj \<Rightarrow> Objid) \<Rightarrow> heap \<Rightarrow> Objid \<Rightarrow> bool" where
  "stray gl gn gu H w \<longleftrightarrow> (\<exists>c. on_list gl gn H w c \<and> field gu H c \<noteq> Some w)"

definition claimed :: "(obj \<Rightarrow> Objid) \<Rightarrow> (obj \<Rightarrow> Objid) \<Rightarrow> (obj \<Rightarrow> Objid) \<Rightarrow> heap \<Rightarrow> Objid \<Rightarrow> Objid \<Rightarrow> bool" where
  "claimed gl gn gu H w c \<longleftrightarrow> on_list gl gn H w c \<and> field gu H c = Some w"

lemma on_list_eq: "listed gl gn H w xs \<Longrightarrow> on_list gl gn H w c \<longleftrightarrow> c \<in> set xs"
  by (auto simp: on_list_def dest: listed_unique)

lemma bit_clear: "bit (x AND NOT (flag_mask f)) b \<longleftrightarrow> bit x b \<and> b \<noteq> f" for x :: int
  by (auto simp: bit_and_iff bit_not_iff bit_flag_mask)

lemma claim_list:
  assumes "wf_table db" "unflagged gn" "unflagged gu" "listed gl gn (objects db) w xs" "objects db w = Some x"
  shows "\<exists>F'. claim_loop gu gn f w (gl x) (b, flagged db F) = Some (b \<or> stray gl gn gu (objects db) w, flagged db F') \<and>
    (\<forall>i p. bit (F' i) p \<longleftrightarrow> bit (F i) p \<and> \<not> (p = f \<and> claimed gl gn gu (objects db) w i))"
proof -
  have l: "links (field gn (objects db)) (gl x) xs" using assms(4,5) by (simp add: listed_def)
  show ?thesis
    using claim_loop_links [OF assms(1,3,2) l, of f w b F] on_list_eq [OF assms(4)]
    by (intro exI conjI) (auto simp: stray_def claimed_def bit_clear split: if_splits)
qed

lemma chains_end_listed:
  assumes "objects db i = Some x" "chains_end (objects db) x"
  shows "\<exists>xs. listed o_child o_sibling (objects db) i xs" "\<exists>xs. listed o_contents o_next (objects db) i xs"
  using assms by (auto simp: chains_end_def ends_def listed_def)

abbreviation kin_stray :: "heap \<Rightarrow> Objid \<Rightarrow> bool" where
  "kin_stray H w \<equiv> stray o_child o_sibling o_parent H w \<or> stray o_contents o_next o_location H w"

abbreviation kin_marks :: "heap \<Rightarrow> (Objid \<Rightarrow> bool) \<Rightarrow> (Objid \<Rightarrow> int) \<Rightarrow> (Objid \<Rightarrow> int) \<Rightarrow> bool" where
  "kin_marks H W F F' \<equiv> \<forall>i p. bit (F' i) p \<longleftrightarrow> bit (F i) p \<and>
     \<not> (p = FLAG_FIRST_TEMP \<and> (\<exists>w. W w \<and> claimed o_child o_sibling o_parent H w i)) \<and>
     \<not> (p = FLAG_FIRST_TEMP + 1 \<and> (\<exists>w. W w \<and> claimed o_contents o_next o_location H w i))"

lemma phase3a_step:
  assumes wt: "wf_table db" and x: "objects db w = Some x" and c: "chains_end (objects db) x"
  shows "\<exists>F'. validate_phase3a w (b, flagged db F) = Some (b \<or> kin_stray (objects db) w, flagged db F') \<and>
    kin_marks (objects db) (\<lambda>v. v = w) F F'"
proof -
  obtain ks cs where ks: "listed o_child o_sibling (objects db) w ks" and cs: "listed o_contents o_next (objects db) w cs"
    using chains_end_listed [of db w x] x c by blast
  obtain F1 where F1: "claim_loop o_parent o_sibling FLAG_FIRST_TEMP w (o_child x) (b, flagged db F) =
        Some (b \<or> stray o_child o_sibling o_parent (objects db) w, flagged db F1)"
      "\<And>i p. bit (F1 i) p \<longleftrightarrow> bit (F i) p \<and> \<not> (p = FLAG_FIRST_TEMP \<and> claimed o_child o_sibling o_parent (objects db) w i)"
    using claim_list [OF wt _ _ ks x, of o_parent FLAG_FIRST_TEMP b F] by auto
  let ?b = "b \<or> stray o_child o_sibling o_parent (objects db) w"
  obtain F2 where F2: "claim_loop o_location o_next (FLAG_FIRST_TEMP + 1) w (o_contents x) (?b, flagged db F1) =
        Some (?b \<or> stray o_contents o_next o_location (objects db) w, flagged db F2)"
      "\<And>i p. bit (F2 i) p \<longleftrightarrow> bit (F1 i) p \<and> \<not> (p = FLAG_FIRST_TEMP + 1 \<and> claimed o_contents o_next o_location (objects db) w i)"
    using claim_list [OF wt _ _ cs x, of o_location "FLAG_FIRST_TEMP + 1" ?b F1] by auto
  show ?thesis
    using x F1 F2 by (intro exI [of _ F2]) (simp add: validate_phase3a_def flagged_find [OF wt] disj_assoc conj_assoc)
qed

lemma phase3a_loop:
  assumes wt: "wf_table db" and c: "\<And>i x. objects db i = Some x \<Longrightarrow> chains_end (objects db) x"
  shows "\<exists>F'. for_objids validate_phase3a n (False, flagged db F) =
      Some (\<exists>w. 0 \<le> w \<and> w < int n \<and> kin_stray (objects db) w, flagged db F') \<and>
    kin_marks (objects db) (\<lambda>w. 0 \<le> w \<and> w < int n) F F'"
proof (induction n)
  case 0
  show ?case by (intro exI [of _ F]) auto
next
  case (Suc n)
  let ?W = "\<lambda>n w. 0 \<le> w \<and> w < int n"
  have W: "(\<exists>w. ?W (Suc n) w \<and> P w) \<longleftrightarrow> (\<exists>w. ?W n w \<and> P w) \<or> P (int n)" for P
    by (metis less_int_Suc of_nat_0_le_iff)
  obtain F1 where F1: "for_objids validate_phase3a n (False, flagged db F) = Some (\<exists>w. ?W n w \<and> kin_stray (objects db) w, flagged db F1)"
      "kin_marks (objects db) (?W n) F F1"
    using Suc by (auto simp: conj_assoc)
  have "\<exists>F'. validate_phase3a (int n) (b, flagged db F1) = Some (b \<or> kin_stray (objects db) (int n), flagged db F') \<and>
      kin_marks (objects db) (\<lambda>v. v = int n) F1 F'" for b
  proof (cases "objects db (int n)")
    case None
    then have none: "\<not> on_list gl gn (objects db) (int n) i" for gl gn i by (simp add: on_list_def listed_def)
    then have "\<not> kin_stray (objects db) (int n)" by (simp add: stray_def)
    moreover have "kin_marks (objects db) (\<lambda>v. v = int n) F1 F1" using none by (simp add: claimed_def)
    ultimately show ?thesis using None by (intro exI [of _ F1]) (simp add: validate_phase3a_def flagged_find [OF wt])
  next
    case (Some x)
    show ?thesis by (rule phase3a_step [OF wt Some c [OF Some]])
  qed
  then obtain F2 where F2: "validate_phase3a (int n) ((\<exists>w. ?W n w \<and> kin_stray (objects db) w), flagged db F1) =
        Some ((\<exists>w. ?W n w \<and> kin_stray (objects db) w) \<or> kin_stray (objects db) (int n), flagged db F2)"
      "kin_marks (objects db) (\<lambda>v. v = int n) F1 F2" by blast
  have W': "(\<exists>w. ?W (Suc n) w \<and> kin_stray (objects db) w) \<longleftrightarrow> (\<exists>w. ?W n w \<and> kin_stray (objects db) w) \<or> kin_stray (objects db) (int n)"
    by (rule W)
  show ?case
  proof (intro exI [of _ F2] conjI)
    show "for_objids validate_phase3a (Suc n) (False, flagged db F) = Some (\<exists>w. 0 \<le> w \<and> w < int (Suc n) \<and> kin_stray (objects db) w, flagged db F2)"
      using F1(1) F2(1) W' by (simp add: conj_assoc del: of_nat_Suc)
    show "kin_marks (objects db) (?W (Suc n)) F F2"
      unfolding W using F1(2) F2(2) by auto
  qed
qed

definition unclaimed :: "db \<Rightarrow> (Objid \<Rightarrow> int) \<Rightarrow> Objid \<Rightarrow> bool" where
  "unclaimed db F i \<longleftrightarrow> (\<exists>x. objects db i = Some x \<and>
     (bit (F i) FLAG_FIRST_TEMP \<and> o_parent x \<noteq> NOTHING \<or> bit (F i) (FLAG_FIRST_TEMP + 1) \<and> o_location x \<noteq> NOTHING))"

lemma phase3b_loop:
  assumes wt: "wf_table db"
  shows "for_objids validate_phase3b n (b, flagged db F) =
    Some (b \<or> (\<exists>i. 0 \<le> i \<and> i < int n \<and> unclaimed db F i),
      flagged db (\<lambda>i. if 0 \<le> i \<and> i < int n then F i AND NOT temp_mask else F i))"
proof (induction n)
  case 0
  have "flagged db (\<lambda>i. if 0 \<le> i \<and> i < int 0 then F i AND NOT temp_mask else F i) = flagged db F"
    by (rule flagged_cong) simp
  then show ?case by auto
next
  case (Suc n)
  let ?F = "\<lambda>n i. if 0 \<le> i \<and> i < int n then F i AND NOT temp_mask else F i"
  have "validate_phase3b (int n) (c, flagged db (?F n)) = Some (c \<or> unclaimed db F (int n), flagged db (?F (Suc n)))" for c
  proof (cases "objects db (int n)")
    case None
    then have "flagged db (?F (Suc n)) = flagged db (?F n)" by (intro flagged_cong) (auto simp: less_int_Suc simp del: of_nat_Suc)
    then show ?thesis using None by (simp add: validate_phase3b_def flagged_find [OF wt] unclaimed_def)
  next
    case (Some x)
    have eq: "flagged db (?F (Suc n)) = (flagged db (?F n))\<lparr>objects := (objects (flagged db (?F n)))
        (int n \<mapsto> x\<lparr>o_flags := ?F n (int n) AND NOT temp_mask\<rparr>)\<rparr>"
      unfolding flagged_upd [OF Some] by (intro flagged_cong) (auto simp: less_int_Suc simp del: of_nat_Suc)
    show ?thesis
      unfolding eq using Some by (simp add: validate_phase3b_def flagged_find [OF wt] unclaimed_def flag_bit)
  qed
  moreover have "(\<exists>i. 0 \<le> i \<and> i < int (Suc n) \<and> unclaimed db F i) \<longleftrightarrow>
      (\<exists>i. 0 \<le> i \<and> i < int n \<and> unclaimed db F i) \<or> unclaimed db F (int n)"
    by (metis less_int_Suc of_nat_0_le_iff)
  ultimately show ?case using Suc by (simp add: disj_assoc del: of_nat_Suc)
qed

section \<open>The verdict\<close>

text \<open>What a loaded database must satisfy: both hierarchies are forests without cycles.\<close>

definition hierarchies_ok :: "heap \<Rightarrow> bool" where
  "hierarchies_ok H \<longleftrightarrow>
     forest o_child o_sibling o_parent H \<and> forest o_contents o_next o_location H \<and>
     (\<forall>i. H i \<noteq> None \<longrightarrow> ends o_parent H i \<and> ends o_location H i)"

lemma ends_next: "H i = Some x \<Longrightarrow> i \<noteq> NOTHING \<Longrightarrow> ends g H i \<longleftrightarrow> ends g H (g x)"
proof
  assume a: "H i = Some x" "i \<noteq> NOTHING" and e: "ends g H i"
  obtain xs where xs: "links (field g H) i xs" using e by (auto simp: ends_def)
  then show "ends g H (g x)" using a by (cases xs) (auto simp: ends_def field_Some)
next
  assume a: "H i = Some x" "i \<noteq> NOTHING" and e: "ends g H (g x)"
  obtain xs where "links (field g H) (g x) xs" using e by (auto simp: ends_def)
  then show "ends g H i" using a unfolding ends_def by (intro exI [of _ "i # xs"]) (simp add: field_Some)
qed

lemma forest_iff:
  assumes "closed gu H" "\<And>w x. H w = Some x \<Longrightarrow> ends gn H (gl x)"
  shows "forest gl gn gu H \<longleftrightarrow>
    (\<forall>w. \<not> stray gl gn gu H w) \<and> (\<forall>c x. H c = Some x \<longrightarrow> gu x = NOTHING \<or> (\<exists>w. claimed gl gn gu H w c))"
proof -
  have ex: "\<exists>xs. listed gl gn H w xs" if "H w \<noteq> None" for w
    using assms(2) [of w] that by (auto simp: ends_def listed_def)
  have dom: "H w \<noteq> None" if "on_list gl gn H w c" for w c
    using that by (auto simp: on_list_def listed_def)
  have up: "w = NOTHING \<or> H w \<noteq> None" if "field gu H c = Some w" for c w
    using assms(1) that unfolding closed_def field_eq_Some by metis
  have null: "H NOTHING = None" using assms(1) by (simp add: closed_def)
  show ?thesis
  proof
    assume f: "forest gl gn gu H"
    have on: "on_list gl gn H w c \<longleftrightarrow> field gu H c = Some w" if "H w \<noteq> None" for w c
      using ex [OF that] forest_listed [OF f] on_list_eq by metis
    have "claimed gl gn gu H (gu x) c" if "H c = Some x" "gu x \<noteq> NOTHING" for c x
      using on [of "gu x" c] up [of c "gu x"] field_eq_Some [of gu H c "gu x"] that by (simp add: claimed_def)
    moreover have "\<not> stray gl gn gu H w" for w using on dom unfolding stray_def by blast
    ultimately show "(\<forall>w. \<not> stray gl gn gu H w) \<and>
        (\<forall>c x. H c = Some x \<longrightarrow> gu x = NOTHING \<or> (\<exists>w. claimed gl gn gu H w c))" by blast
  next
    assume a: "(\<forall>w. \<not> stray gl gn gu H w) \<and>
        (\<forall>c x. H c = Some x \<longrightarrow> gu x = NOTHING \<or> (\<exists>w. claimed gl gn gu H w c))"
    have "c \<in> set xs \<longleftrightarrow> field gu H c = Some w" if xs: "listed gl gn H w xs" for w xs c
    proof
      assume "c \<in> set xs"
      then show "field gu H c = Some w" using a on_list_eq [OF xs] unfolding stray_def by blast
    next
      assume g: "field gu H c = Some w"
      then obtain x where x: "H c = Some x" "gu x = w" by (auto simp: field_eq_Some)
      have "w \<noteq> NOTHING" using xs null by (auto simp: listed_def)
      then obtain w' where "claimed gl gn gu H w' c" using a x by blast
      then show "c \<in> set xs" using g on_list_eq [OF xs] by (auto simp: claimed_def)
    qed
    then show "forest gl gn gu H" using ex up null unfolding forest_def by blast
  qed
qed

lemma hierarchies_ok_iff:
  assumes "checked db"
  shows "hierarchies_ok (objects db) \<longleftrightarrow>
    (\<forall>i x. objects db i = Some x \<longrightarrow> chains_end (objects db) x) \<and> (\<forall>w. \<not> kin_stray (objects db) w) \<and>
    (\<forall>c x. objects db c = Some x \<longrightarrow>
      (o_parent x = NOTHING \<or> (\<exists>w. claimed o_child o_sibling o_parent (objects db) w c)) \<and>
      (o_location x = NOTHING \<or> (\<exists>w. claimed o_contents o_next o_location (objects db) w c)))"
proof -
  let ?H = "objects db"
  have cl: "closed o_parent ?H" "closed o_location ?H" "?H NOTHING = None"
    using assms by (simp_all add: checked_def closed_def)
  have up: "(\<forall>i. ?H i \<noteq> None \<longrightarrow> ends g ?H i) \<longleftrightarrow> (\<forall>i x. ?H i = Some x \<longrightarrow> ends g ?H (g x))" for g
    using ends_next [of ?H _ _ g] cl(3) by (metis option.discI option.exhaust)
  have down: "ends o_sibling ?H (o_child x) \<and> ends o_next ?H (o_contents x)"
    if "hierarchies_ok ?H" "?H i = Some x" for i x
    using that forest_obtain [of o_child o_sibling o_parent ?H i] forest_obtain [of o_contents o_next o_location ?H i]
    unfolding hierarchies_ok_def listed_def ends_def by (metis option.discI option.inject)
  show ?thesis
  proof (cases "\<forall>i x. ?H i = Some x \<longrightarrow> chains_end ?H x")
    case True
    then have e: "\<And>w x. ?H w = Some x \<Longrightarrow> ends o_sibling ?H (o_child x)" "\<And>w x. ?H w = Some x \<Longrightarrow> ends o_next ?H (o_contents x)"
        "\<forall>i. ?H i \<noteq> None \<longrightarrow> ends o_parent ?H i" "\<forall>i. ?H i \<noteq> None \<longrightarrow> ends o_location ?H i"
      unfolding up by (auto simp: chains_end_def)
    have f: "forest o_child o_sibling o_parent ?H \<longleftrightarrow> (\<forall>w. \<not> stray o_child o_sibling o_parent ?H w) \<and>
        (\<forall>c x. ?H c = Some x \<longrightarrow> o_parent x = NOTHING \<or> (\<exists>w. claimed o_child o_sibling o_parent ?H w c))"
      by (rule forest_iff [OF cl(1)]) (rule e(1))
    have g: "forest o_contents o_next o_location ?H \<longleftrightarrow> (\<forall>w. \<not> stray o_contents o_next o_location ?H w) \<and>
        (\<forall>c x. ?H c = Some x \<longrightarrow> o_location x = NOTHING \<or> (\<exists>w. claimed o_contents o_next o_location ?H w c))"
      by (rule forest_iff [OF cl(2)]) (rule e(2))
    show ?thesis unfolding hierarchies_ok_def f g using True e(3,4) by blast
  next
    case False
    have "\<not> hierarchies_ok ?H"
    proof
      assume ok: "hierarchies_ok ?H"
      then have "chains_end ?H x" if "?H i = Some x" for i x
        using down [OF ok that] up [of o_parent] up [of o_location] that unfolding hierarchies_ok_def chains_end_def by blast
      then show False using False by blast
    qed
    then show ?thesis using False by blast
  qed
qed

lemma bit_temp_mask: "bit temp_mask p \<longleftrightarrow> p = FLAG_FIRST_TEMP \<or> p = FLAG_FIRST_TEMP + 1"
proof -
  have mask: "temp_mask = flag_mask FLAG_FIRST_TEMP OR flag_mask (FLAG_FIRST_TEMP + 1)"
    by (simp add: temp_mask_def flag_mask_def FLAG_FIRST_TEMP_def push_bit_eq_mult)
  show ?thesis unfolding mask bit_or_iff bit_flag_mask by blast
qed

lemma marked_claims:
  assumes "kin_marks (objects db) (\<lambda>w. 0 \<le> w \<and> w < num_objects db) (\<lambda>i. flags_of db i OR temp_mask) F" "wf_table db"
  shows "unclaimed db F i \<longleftrightarrow> (\<exists>x. objects db i = Some x \<and>
    \<not> ((o_parent x = NOTHING \<or> (\<exists>w. claimed o_child o_sibling o_parent (objects db) w i)) \<and>
       (o_location x = NOTHING \<or> (\<exists>w. claimed o_contents o_next o_location (objects db) w i))))"
proof -
  have "0 \<le> w \<and> w < num_objects db" if "claimed gl gn gu (objects db) w i" for gl gn gu w i
    using that wf_tableD [OF assms(2), of w] by (auto simp: claimed_def on_list_def listed_def)
  then have w: "(\<exists>w. (0 \<le> w \<and> w < num_objects db) \<and> claimed gl gn gu (objects db) w i) \<longleftrightarrow>
      (\<exists>w. claimed gl gn gu (objects db) w i)" for gl gn gu i by blast
  have "bit (F i) FLAG_FIRST_TEMP \<longleftrightarrow> \<not> (\<exists>w. claimed o_child o_sibling o_parent (objects db) w i)"
      "bit (F i) (FLAG_FIRST_TEMP + 1) \<longleftrightarrow> \<not> (\<exists>w. claimed o_contents o_next o_location (objects db) w i)"
    using assms(1) [unfolded w] by (simp_all add: bit_or_iff bit_temp_mask)
  then show ?thesis by (auto simp: unclaimed_def)
qed

lemma cleared_marks:
  assumes "kin_marks H W (\<lambda>i. flags_of db i OR temp_mask) F"
  shows "F i AND NOT temp_mask = flags_of db i AND NOT temp_mask"
proof (rule bit_eqI)
  fix p
  have "bit (F i) p \<longleftrightarrow> bit (flags_of db i) p" if "\<not> bit temp_mask p"
    using assms that by (simp add: bit_or_iff bit_temp_mask)
  then show "bit (F i AND NOT temp_mask) p \<longleftrightarrow> bit (flags_of db i AND NOT temp_mask) p"
    by (auto simp: bit_and_iff bit_not_iff)
qed

text \<open>The database with the two temporary flags cleared on every object.\<close>

definition unmarked :: "db \<Rightarrow> db" where
  "unmarked db = db\<lparr>objects := \<lambda>i. map_option (\<lambda>x. x\<lparr>o_flags := o_flags x AND NOT temp_mask\<rparr>) (objects db i)\<rparr>"

lemma unmarked_eq: "unmarked db = flagged db (\<lambda>i. flags_of db i AND NOT temp_mask)"
proof -
  have "map_option (\<lambda>x. x\<lparr>o_flags := o_flags x AND NOT temp_mask\<rparr>) (objects db i) =
      map_option (\<lambda>x. x\<lparr>o_flags := flags_of db i AND NOT temp_mask\<rparr>) (objects db i)" for i
    by (cases "objects db i") (simp_all add: flags_of_def)
  then show ?thesis by (simp add: unmarked_def flagged_def)
qed

lemma validate_checked:
  assumes c: "checked db"
  shows "\<exists>db'. do {
      (broken, db2) \<leftarrow> for_objids validate_phase2 (nat (num_objects db)) (False, db);
      if broken then Some (False, db2)
      else do {
        s3 \<leftarrow> for_objids validate_phase3a (nat (num_objects db)) (False, db2);
        (broken', db4) \<leftarrow> for_objids validate_phase3b (nat (num_objects db)) s3;
        Some (\<not> broken', db4)
      } } = Some (hierarchies_ok (objects db), db') \<and> (hierarchies_ok (objects db) \<longrightarrow> db' = unmarked db)"
proof -
  let ?n = "nat (num_objects db)"
  let ?H = "objects db"
  have wt: "wf_table db" using c by (simp add: checked_def)
  have n: "0 \<le> i \<and> i < int ?n" if "?H i = Some x" for i x using wf_tableD [OF wt that] by auto
  have inn: "0 \<le> i \<and> i < int ?n \<longleftrightarrow> 0 \<le> i \<and> i < num_objects db" for i by auto
  let ?F0 = "\<lambda>i. flags_of db i OR temp_mask"
  let ?b2 = "\<exists>i x. ?H i = Some x \<and> \<not> chains_end ?H x"
  have "flagged db (\<lambda>i. if 0 \<le> i \<and> i < int ?n then flags_of db i OR temp_mask else flags_of db i) = flagged db ?F0"
    using n by (intro flagged_cong) auto
  then have p2: "for_objids validate_phase2 ?n (False, db) = Some (?b2, flagged db ?F0)"
    using phase2_loop [OF c, of ?n] n by (auto; blast)
  show ?thesis
  proof (cases ?b2)
    case True
    then have "\<not> hierarchies_ok ?H" using hierarchies_ok_iff [OF c] by blast
    then show ?thesis using p2 True by simp
  next
    case False
    then have ce: "\<And>i x. ?H i = Some x \<Longrightarrow> chains_end ?H x" by blast
    obtain F where F: "for_objids validate_phase3a ?n (False, flagged db ?F0) =
          Some (\<exists>w. 0 \<le> w \<and> w < int ?n \<and> kin_stray ?H w, flagged db F)"
        and k: "kin_marks ?H (\<lambda>w. 0 \<le> w \<and> w < int ?n) ?F0 F"
      using phase3a_loop [OF wt, of ?n ?F0] ce by blast
    let ?b4 = "(\<exists>w. 0 \<le> w \<and> w < int ?n \<and> kin_stray ?H w) \<or> (\<exists>i. 0 \<le> i \<and> i < int ?n \<and> unclaimed db F i)"
    have fin: "flagged db (\<lambda>i. if 0 \<le> i \<and> i < int ?n then F i AND NOT temp_mask else F i) = unmarked db"
      unfolding unmarked_eq using n cleared_marks [where F = F, OF k] by (intro flagged_cong) auto
    have st: "0 \<le> w \<and> w < int ?n" if "kin_stray ?H w" for w
      using that n by (auto simp: stray_def on_list_def listed_def)
    have un: "0 \<le> i \<and> i < int ?n" if "unclaimed db F i" for i using that n by (auto simp: unclaimed_def)
    have "\<not> ?b4 \<longleftrightarrow> hierarchies_ok ?H"
      unfolding hierarchies_ok_iff [OF c] using ce st un marked_claims [OF k [unfolded inn] wt] by blast
    then show ?thesis using p2 False F phase3b_loop [OF wt, of ?n _ F] fin by simp
  qed
qed

lemma repaired_num [simp]: "num_objects (repaired db) = num_objects db"
  by (simp add: repaired_def)

lemma validate_result:
  assumes "wf_table db"
  shows "\<exists>db'. validate_hierarchies db = Some (hierarchies_ok (objects (repaired db)), db') \<and>
    (hierarchies_ok (objects (repaired db)) \<longrightarrow> db' = unmarked (repaired db))"
  using validate_checked [OF repaired_checked [OF assms]] phase1_repairs [OF assms]
  by (simp add: validate_hierarchies_def Let_def cong: if_cong)

end
