(* ===== verification/Db_File.thy ===== *)
theory Db_File
  imports Db_Io Validate Verbs Object_Laws
begin

text \<open>
  The database file (\<^verbatim>\<open>db_file.c\<close>): the text that \<open>write_db_file\<close> makes of a database and what
  \<open>read_db_file\<close> makes of a text.

  Programs are parsed and printed by other parts of the server; here they are the functions
  \<open>pg_parse\<close> and \<open>pg_unparse\<close>. The tasks and connections at the end of the file are written and read
  by \<^verbatim>\<open>tasks.c\<close> and \<^verbatim>\<open>server.c\<close>: their text is the argument \<open>tail\<close>, and whether it can be read the
  predicate \<open>read_tail\<close>. Progress messages and the handling of files are not modelled.
\<close>

section \<open>Verbs and properties\<close>

definition read_verbdef :: "string \<Rightarrow> (verbdef \<times> string) option" where
  "read_verbdef s =
     do {
       (name, s) \<leftarrow> dbio_read_string_intern s;
       (owner, s) \<leftarrow> dbio_read_objid s;
       (perms, s) \<leftarrow> dbio_read_num s;
       (prep, s) \<leftarrow> dbio_read_num s;
       Some (\<lparr>v_name = name, v_program = None, v_owner = owner, v_perms = to_short perms, v_prep = to_short prep\<rparr>, s)
     }"

definition write_verbdef :: "verbdef \<Rightarrow> string" where
  "write_verbdef v =
     dbio_write_string (v_name v) @ dbio_write_objid (v_owner v) @ dbio_write_num (v_perms v) @
     dbio_write_num (v_prep v)"

definition read_propdef :: "string \<Rightarrow> (propdef \<times> string) option" where
  "read_propdef s = do { (name, s) \<leftarrow> dbio_read_string_intern s; Some (dbpriv_new_propdef name, s) }"

definition write_propdef :: "propdef \<Rightarrow> string" where
  "write_propdef p = dbio_write_string (pd_name p)"

definition read_propval :: "formats \<Rightarrow> DB_Version \<Rightarrow> string \<Rightarrow> (pval \<times> string) option" where
  "read_propval F version s =
     do {
       (var, s) \<leftarrow> dbio_read_var F version s;
       (owner, s) \<leftarrow> dbio_read_objid s;
       (perms, s) \<leftarrow> dbio_read_num s;
       Some (\<lparr>p_var = var, p_owner = owner, p_perms = to_short perms\<rparr>, s)
     }"

definition write_propval :: "formats \<Rightarrow> pval \<Rightarrow> string" where
  "write_propval F p = dbio_write_var F (p_var p) @ dbio_write_objid (p_owner p) @ dbio_write_num (p_perms p)"

section \<open>Objects\<close>

text \<open>A format of \<^verbatim>\<open>scanf\<close>, with \<^verbatim>\<open>%d\<close> for the conversions of every integer type.\<close>

fun directives :: "string \<Rightarrow> directive list" where
  "directives [] = []"
| "directives (c # s) =
     (if c = CHR ''%'' then Dec # directives (tl s)
      else (if isspace c then Ws else Lit c) # directives s)"

text \<open>The fields of an object that follow its number, and the object in the memory \<open>x\<close> they are
  assigned to.\<close>

definition read_fields :: "formats \<Rightarrow> DB_Version \<Rightarrow> string \<Rightarrow> ((obj \<Rightarrow> obj) \<times> string) option" where
  "read_fields F version s =
     do {
       (name, s) \<leftarrow> dbio_read_string_intern s;
       (_, s) \<leftarrow> dbio_read_string s;
       (flags, s) \<leftarrow> dbio_read_num s;
       (owner, s) \<leftarrow> dbio_read_objid s;
       (location, s) \<leftarrow> dbio_read_objid s;
       (contents, s) \<leftarrow> dbio_read_objid s;
       (nxt, s) \<leftarrow> dbio_read_objid s;
       (parent, s) \<leftarrow> dbio_read_objid s;
       (child, s) \<leftarrow> dbio_read_objid s;
       (sibling, s) \<leftarrow> dbio_read_objid s;
       (nverbdefs, s) \<leftarrow> dbio_read_num s;
       (verbdefs, s) \<leftarrow> read_n read_verbdef (nat (wrap32 nverbdefs)) s;
       (npropdefs, s) \<leftarrow> dbio_read_num s;
       (propdefs, s) \<leftarrow> (if wrap32 npropdefs < 0 then None else read_n read_propdef (nat (wrap32 npropdefs)) s);
       (nprops, s) \<leftarrow> dbio_read_num s;
       (propval, s) \<leftarrow> (if wrap32 nprops < 0 then None else read_n (read_propval F version) (nat (wrap32 nprops)) s);
       Some (\<lambda>x. x\<lparr>o_name := name, o_flags := wrap32 flags, o_owner := owner, o_location := location,
                  o_contents := contents, o_next := nxt, o_parent := parent, o_child := child, o_sibling := sibling,
                  o_verbdefs := verbdefs, o_propdefs := \<lparr>max_length = int (length propdefs), pl = propdefs\<rparr>,
                  o_propval := propval\<rparr>, s)
     }"

definition read_object :: "obj \<Rightarrow> formats \<Rightarrow> DB_Version \<Rightarrow> string \<Rightarrow> db \<Rightarrow> (bool \<times> string \<times> db) option" where
  "read_object mem F version s db =
     (let (is, s) = dbio_scanf (directives ''#%d'') s
      in if length is \<noteq> 1 \<or> hd is \<noteq> db_last_used_objid db + 1 then Some (False, s, db)
         else do {
           (line, s) \<leftarrow> dbio_read_line 20 s;
           if cstr line = '' recycled'' @ [NL] then Some (True, s, dbpriv_new_recycled_object db)
           else if cstr line \<noteq> [NL] then Some (False, s, db)
           else do {
             let (oid, db1) = dbpriv_new_object mem db;
             (fields, s) \<leftarrow> read_fields F version s;
             db2 \<leftarrow> upd_db oid fields db1;
             Some (True, s, db2)
           }
         })"

definition write_object :: "formats \<Rightarrow> db \<Rightarrow> Objid \<Rightarrow> string option" where
  "write_object F db oid =
     (case dbpriv_find_object db oid of
        None \<Rightarrow> Some (''#'' @ printf_d oid @ '' recycled'' @ [NL])
      | Some x \<Rightarrow>
          do {
            nprops \<leftarrow> dbpriv_count_properties db oid;
            if length (o_propval x) < nprops then None
            else Some (''#'' @ printf_d oid @ [NL] @ dbio_write_string (o_name x) @ dbio_write_string '''' @
              dbio_write_num (o_flags x) @ dbio_write_objid (o_owner x) @ dbio_write_objid (o_location x) @
              dbio_write_objid (o_contents x) @ dbio_write_objid (o_next x) @ dbio_write_objid (o_parent x) @
              dbio_write_objid (o_child x) @ dbio_write_objid (o_sibling x) @
              dbio_write_num (int (length (o_verbdefs x))) @ concat (map write_verbdef (o_verbdefs x)) @
              dbio_write_num (int (cur_length (o_propdefs x))) @ concat (map write_propdef (pl (o_propdefs x))) @
              dbio_write_num (int nprops) @ concat (map (write_propval F) (take nprops (o_propval x))))
          })"

section \<open>Programs\<close>

record programs =
  pg_parse :: "DB_Version \<Rightarrow> string \<Rightarrow> nat option"
  pg_unparse :: "nat \<Rightarrow> string list"

text \<open>The characters that \<open>my_getc\<close> hands to the parser: up to a full stop that begins a line; it
  and the newline behind it are skipped.\<close>

fun my_getc :: "char \<Rightarrow> string \<Rightarrow> string \<times> string" where
  "my_getc prev_char [] = ([], [])"
| "my_getc prev_char (c # s) =
     (if c = CHR ''.'' \<and> prev_char = NL then ([], tl s)
      else let (t, r) = my_getc c s in (c # t, r))"

definition dbio_read_program :: "programs \<Rightarrow> DB_Version \<Rightarrow> string \<Rightarrow> nat option \<times> string" where
  "dbio_read_program P version s = (let (t, r) = my_getc NL s in (pg_parse P version t, r))"

definition dbio_write_program :: "programs \<Rightarrow> nat \<Rightarrow> string" where
  "dbio_write_program P p = concat (map dbio_write_string (pg_unparse P p)) @ ''.'' @ [NL]"

section \<open>The file\<close>

definition version_number :: "DB_Version \<Rightarrow> int" where
  "version_number v = (case v of DBV_Prehistory \<Rightarrow> 0 | DBV_Exceptions \<Rightarrow> 1 | DBV_BreakCont \<Rightarrow> 2 | DBV_Float \<Rightarrow> 3
     | DBV_BFBugFixed \<Rightarrow> 4)"

definition current_version :: DB_Version where
  "current_version = DBV_BFBugFixed"

text \<open>\<open>check_version\<close>: the version with a number, if it is known.\<close>

definition check_version :: "int \<Rightarrow> DB_Version option" where
  "check_version n = find (\<lambda>v. version_number v = n mod 2 ^ 32)
     [DBV_Prehistory, DBV_Exceptions, DBV_BreakCont, DBV_Float, DBV_BFBugFixed]"

definition header_format_string :: string where
  "header_format_string = ''** LambdaMOO Database, Format Version %d **'' @ [NL]"

definition counts_format :: string where
  "counts_format = concat (replicate 4 (''%d'' @ [NL]))"

primrec read_objects :: "obj \<Rightarrow> formats \<Rightarrow> DB_Version \<Rightarrow> nat \<Rightarrow> string \<Rightarrow> db \<Rightarrow> (bool \<times> string \<times> db) option" where
  "read_objects mem F version 0 s db = Some (True, s, db)"
| "read_objects mem F version (Suc n) s db =
     do {
       (ok, s, db) \<leftarrow> read_object mem F version s db;
       if ok then read_objects mem F version n s db else Some (False, s, db)
     }"

primrec read_programs :: "programs \<Rightarrow> DB_Version \<Rightarrow> nat \<Rightarrow> string \<Rightarrow> db \<Rightarrow> (bool \<times> string \<times> db) option" where
  "read_programs P version 0 s db = Some (True, s, db)"
| "read_programs P version (Suc n) s db =
     (let (is, s) = dbio_scanf (directives (''#%d:%d'' @ [NL])) s
      in if length is \<noteq> 2 \<or> \<not> valid db (is ! 0) then Some (False, s, db)
         else do {
           h \<leftarrow> db_find_indexed_verb db (is ! 0) (nat ((is ! 1 + 1) mod 2 ^ 32));
           if h = None then Some (False, s, db)
           else case dbio_read_program P version s of
                  (None, s) \<Rightarrow> Some (False, s, db)
                | (Some p, s) \<Rightarrow> do { db \<leftarrow> db_set_verb_program db h (Some p); read_programs P version n s db }
         })"

definition read_db_file ::
  "obj \<Rightarrow> formats \<Rightarrow> programs \<Rightarrow> (string \<Rightarrow> bool) \<Rightarrow> string \<Rightarrow> db \<Rightarrow> (bool \<times> db) option" where
  "read_db_file mem F P read_tail s db =
     (let (is, s) = dbio_scanf (directives header_format_string) s
      in case (if length is \<noteq> 1 then Some DBV_Prehistory else check_version (hd is)) of
           None \<Rightarrow> Some (False, db)
         | Some version \<Rightarrow>
             let (is, s) = dbio_scanf (directives counts_format) s
             in if length is \<noteq> 4 then Some (False, db)
                else if wrap32 (is ! 3) < 0 then None
                else do {
                  (users, s) \<leftarrow> read_n dbio_read_objid (nat (is ! 3)) s;
                  (ok, s, db) \<leftarrow> read_objects mem F version (nat (is ! 0)) s (db\<lparr>all_users := map TYPE_OBJ users\<rparr>);
                  if \<not> ok then Some (False, db)
                  else do {
                    (ok, db) \<leftarrow> validate_hierarchies db;
                    if \<not> ok then Some (False, db)
                    else do {
                      (ok, s, db) \<leftarrow> read_programs P version (nat (is ! 1)) s db;
                      Some (ok \<and> read_tail s, db)
                    }
                  }
                })"

primrec write_objects :: "formats \<Rightarrow> db \<Rightarrow> nat \<Rightarrow> string option" where
  "write_objects F db 0 = Some []"
| "write_objects F db (Suc n) = do { t \<leftarrow> write_objects F db n; u \<leftarrow> write_object F db (int n); Some (t @ u) }"

fun write_verb_programs :: "programs \<Rightarrow> Objid \<Rightarrow> nat \<Rightarrow> verbdef list \<Rightarrow> string" where
  "write_verb_programs P oid vcount [] = []"
| "write_verb_programs P oid vcount (v # vs) =
     (case v_program v of
        None \<Rightarrow> []
      | Some p \<Rightarrow> ''#'' @ printf_d oid @ '':'' @ printf_d (int vcount) @ [NL] @ dbio_write_program P p)
     @ write_verb_programs P oid (Suc vcount) vs"

definition verbs_of :: "db \<Rightarrow> Objid \<Rightarrow> verbdef list" where
  "verbs_of db oid = (case dbpriv_find_object db oid of None \<Rightarrow> [] | Some x \<Rightarrow> o_verbdefs x)"

definition count_programs :: "db \<Rightarrow> nat" where
  "count_programs db =
     sum_list (map (\<lambda>n. length (filter (\<lambda>v. v_program v \<noteq> None) (verbs_of db (int n)))) [0..<nat (num_objects db)])"

definition user_objid :: "Var \<Rightarrow> Objid option" where
  "user_objid v = (case v of TYPE_OBJ i \<Rightarrow> Some i | _ \<Rightarrow> None)"

definition write_db_file :: "formats \<Rightarrow> programs \<Rightarrow> string \<Rightarrow> db \<Rightarrow> string option" where
  "write_db_file F P tail db =
     do {
       users \<leftarrow> those (map user_objid (db_all_users db));
       objs \<leftarrow> write_objects F db (nat (db_last_used_objid db + 1));
       Some (''** LambdaMOO Database, Format Version '' @ printf_d (version_number current_version) @ '' **'' @ [NL] @
         dbio_write_num (db_last_used_objid db + 1) @ dbio_write_num (int (count_programs db)) @ dbio_write_num 0 @
         dbio_write_num (int (length (db_all_users db))) @ concat (map dbio_write_objid users) @ objs @
         concat (map (\<lambda>n. write_verb_programs P (int n) 0 (verbs_of db (int n))) [0..<nat (db_last_used_objid db + 1)]) @
         tail)
     }"

section \<open>Reading back what was written\<close>

lemma read_n_concat:
  "(\<And>x r. x \<in> set xs \<Longrightarrow> rd (wr x @ r) = Some (f x, r)) \<Longrightarrow>
   read_n rd (length xs) (concat (map wr xs) @ r) = Some (map f xs, r)"
  by (induction xs arbitrary: r) simp_all

lemma read_n_count:
  assumes "\<And>x r. x \<in> set xs \<Longrightarrow> rd (wr x @ r) = Some (f x, r)" "n = length xs"
  shows "read_n rd n (concat (map wr xs) @ r) = Some (map f xs, r)"
  using read_n_concat [OF assms(1)] assms(2) by simp

definition short_range :: "int \<Rightarrow> bool" where
  "short_range x \<longleftrightarrow> - (2 ^ 15) \<le> x \<and> x < 2 ^ 15"

lemma short_rangeD: "short_range x \<Longrightarrow> num_range x" "short_range x \<Longrightarrow> to_short x = x"
  by (simp_all add: short_range_def num_range_def to_short_def)

lemma int_rangeD: "int_range x \<Longrightarrow> num_range x"
  by (simp add: int_range_def num_range_def)

definition storable_verb :: "verbdef \<Rightarrow> bool" where
  "storable_verb v \<longleftrightarrow> storable_string (v_name v) \<and> num_range (v_owner v) \<and> short_range (v_perms v) \<and> short_range (v_prep v)"

definition storable_propdef :: "propdef \<Rightarrow> bool" where
  "storable_propdef p \<longleftrightarrow> storable_string (pd_name p) \<and> pd_hash p = str_hash (pd_name p)"

definition storable_pval :: "pval \<Rightarrow> bool" where
  "storable_pval p \<longleftrightarrow> storable (p_var p) \<and> num_range (p_owner p) \<and> short_range (p_perms p)"

lemma read_write_verbdef:
  "storable_verb v \<Longrightarrow> read_verbdef (write_verbdef v @ r) = Some (v\<lparr>v_program := None\<rparr>, r)"
  by (simp add: read_verbdef_def write_verbdef_def storable_verb_def short_rangeD)

lemma read_write_propdef: "storable_propdef p \<Longrightarrow> read_propdef (write_propdef p @ r) = Some (p, r)"
  by (simp add: read_propdef_def write_propdef_def storable_propdef_def dbpriv_new_propdef_def)

lemma read_write_propval:
  "float_io F \<Longrightarrow> storable_pval p \<Longrightarrow> read_propval F version (write_propval F p @ r) = Some (p, r)"
  by (simp add: read_propval_def write_propval_def storable_pval_def value_read_write short_rangeD)

definition storable_object :: "obj \<Rightarrow> bool" where
  "storable_object x \<longleftrightarrow>
     storable_string (o_name x) \<and> int_range (o_flags x) \<and>
     list_all num_range [o_owner x, o_location x, o_contents x, o_next x, o_parent x, o_child x, o_sibling x] \<and>
     int_range (int (length (o_verbdefs x))) \<and> list_all storable_verb (o_verbdefs x) \<and>
     int_range (int (cur_length (o_propdefs x))) \<and> list_all storable_propdef (pl (o_propdefs x)) \<and>
     int_range (int (length (o_propval x))) \<and> list_all storable_pval (o_propval x)"

definition write_fields :: "formats \<Rightarrow> obj \<Rightarrow> string" where
  "write_fields F x =
     dbio_write_string (o_name x) @ dbio_write_string '''' @
     dbio_write_num (o_flags x) @ dbio_write_objid (o_owner x) @ dbio_write_objid (o_location x) @
     dbio_write_objid (o_contents x) @ dbio_write_objid (o_next x) @ dbio_write_objid (o_parent x) @
     dbio_write_objid (o_child x) @ dbio_write_objid (o_sibling x) @
     dbio_write_num (int (length (o_verbdefs x))) @ concat (map write_verbdef (o_verbdefs x)) @
     dbio_write_num (int (cur_length (o_propdefs x))) @ concat (map write_propdef (pl (o_propdefs x))) @
     dbio_write_num (int (length (o_propval x))) @ concat (map (write_propval F) (o_propval x))"

text \<open>An object as it comes back from the file: without programs, with property definitions that
  fill their array, and without the cached list of properties for waifs.\<close>

definition reloaded :: "obj \<Rightarrow> obj" where
  "reloaded x = x\<lparr>o_verbdefs := map (\<lambda>v. v\<lparr>v_program := None\<rparr>) (o_verbdefs x),
     o_propdefs := (o_propdefs x)\<lparr>max_length := int (cur_length (o_propdefs x))\<rparr>, o_waif_propdefs := None\<rparr>"

lemma read_write_fields:
  assumes "float_io F" "storable_object x"
  obtains f where "read_fields F version (write_fields F x @ r) = Some (f, r)"
    "\<And>y. o_waif_propdefs y = None \<Longrightarrow> o_id y = o_id x \<Longrightarrow> f y = reloaded x"
proof -
  have x: "storable_string (o_name x)" "int_range (o_flags x)" "num_range (o_owner x)" "num_range (o_location x)"
      "num_range (o_contents x)" "num_range (o_next x)" "num_range (o_parent x)" "num_range (o_child x)"
      "num_range (o_sibling x)" "int_range (int (length (o_verbdefs x)))" "int_range (int (cur_length (o_propdefs x)))"
      "int_range (int (length (o_propval x)))"
    using assms(2) by (simp_all add: storable_object_def)
  have e: "storable_string ''''" by (simp add: storable_string_def)
  have vs: "read_n read_verbdef (length (o_verbdefs x)) (concat (map write_verbdef (o_verbdefs x)) @ r) =
      Some (map (\<lambda>v. v\<lparr>v_program := None\<rparr>) (o_verbdefs x), r)" for r
    using assms(2) by (intro read_n_concat read_write_verbdef) (auto simp: storable_object_def list_all_iff)
  have ps: "read_n read_propdef (cur_length (o_propdefs x)) (concat (map write_propdef (pl (o_propdefs x))) @ r) =
      Some (map id (pl (o_propdefs x)), r)" for r
    using assms(2) by (intro read_n_concat) (auto simp: storable_object_def list_all_iff read_write_propdef)
  have pv: "read_n (read_propval F version) (length (o_propval x)) (concat (map (write_propval F) (o_propval x)) @ r) =
      Some (map id (o_propval x), r)" for r
    using assms by (intro read_n_concat) (auto simp: storable_object_def list_all_iff read_write_propval)
  show ?thesis
  proof (rule that)
    show "read_fields F version (write_fields F x @ r) = Some (\<lambda>y. y\<lparr>o_name := o_name x, o_flags := o_flags x, o_owner := o_owner x,
        o_location := o_location x, o_contents := o_contents x, o_next := o_next x, o_parent := o_parent x,
        o_child := o_child x, o_sibling := o_sibling x, o_verbdefs := map (\<lambda>v. v\<lparr>v_program := None\<rparr>) (o_verbdefs x),
        o_propdefs := \<lparr>max_length = int (cur_length (o_propdefs x)), pl = pl (o_propdefs x)\<rparr>, o_propval := o_propval x\<rparr>, r)"
      unfolding read_fields_def write_fields_def
      using x e vs ps pv x(2,10,11,12) [THEN int_rangeD] x(2,10,11,12) [THEN wrap32_id] by simp
  qed (simp add: reloaded_def)
qed

lemma printf_d_start: "printf_d n \<noteq> []" "dropWhile isspace (printf_d n @ r) = printf_d n @ r"
proof -
  show ne: "printf_d n \<noteq> []" using decimal_digits by (auto simp: printf_d_def)
  obtain c s where c: "printf_d n = c # s" using ne by (cases "printf_d n") auto
  then show "dropWhile isspace (printf_d n @ r) = printf_d n @ r"
    using printf_d_head [OF c] isdigit_not [of c] by (auto simp: isspace_def)
qed

lemma printf_d_hd: "\<not> isspace (hd0 (printf_d n @ r))"
  using printf_d_start(1) [of n] printf_d_head [of n] isdigit_not by (cases "printf_d n") (auto simp: isspace_def)

lemma scanf_Dec:
  assumes "num_range n" "\<not> isdigit (hd0 r)"
  shows "dbio_scanf (Dec # ds) (printf_d n @ r) = (let (is, r') = dbio_scanf ds r in (n # is, r'))"
    "dbio_scanf (Ws # Dec # ds) (NL # printf_d n @ r) = (let (is, r') = dbio_scanf ds r in (n # is, r'))"
proof -
  have "isspace NL" by (simp add: isspace_def)
  then show "dbio_scanf (Dec # ds) (printf_d n @ r) = (let (is, r') = dbio_scanf ds r in (n # is, r'))"
      "dbio_scanf (Ws # Dec # ds) (NL # printf_d n @ r) = (let (is, r') = dbio_scanf ds r in (n # is, r'))"
    using strtoimax_printf [OF assms] printf_d_start [of n] by (simp_all add: Let_def)
qed

lemma scanf_Lit: "dbio_scanf (Lit c # ds) (c # s) = dbio_scanf ds s"
  by simp

lemma scanf_end: "\<not> isspace (hd0 r) \<Longrightarrow> dbio_scanf [Ws] (NL # r) = ([], r)"
  by (cases r) (auto simp: isspace_def)

text \<open>The property slots of a well-formed object are those that are written.\<close>

lemma write_object_fields:
  assumes "wf_objects db" "objects db i = Some x"
  shows "write_object F db i = Some (''#'' @ printf_d i @ [NL] @ write_fields F x)"
proof -
  have wt: "wf_table db" using wf_objectsD [OF assms(1)] by simp
  obtain xs where xs: "ancestry (objects db) i xs"
    using wf_tree_ancestry [OF wf_objectsD(2) [OF assms(1)], of i] assms(2) by auto
  have "wf_prop (objects db) x xs" using wf_propsD [OF wf_objectsD(3) [OF assms(1)] assms(2) xs] .
  then have "dbpriv_count_properties db i = Some (length (o_propval x))"
    using count_properties_eq [OF wt xs] by (simp add: wf_prop_def)
  then show ?thesis using assms(2) by (simp add: write_object_def wf_table_find [OF wt] write_fields_def)
qed

definition with_object :: "db \<Rightarrow> obj option \<Rightarrow> db" where
  "with_object db x = (ensure_new_object db)\<lparr>objects := (objects db)(num_objects db := x), num_objects := num_objects db + 1\<rparr>"

lemma ensure_new_object_simps [simp]:
  "objects (ensure_new_object db) = objects db" "num_objects (ensure_new_object db) = num_objects db"
  by (simp_all add: ensure_new_object_def Let_def)

lemma read_write_object:
  assumes "float_io F" "wf_objects db" "num_range i" "num_objects db' = i"
    and "\<And>x. objects db i = Some x \<Longrightarrow> storable_object x"
  shows "\<exists>t. write_object F db i = Some t \<and> hd0 t = CHR ''#'' \<and>
    (\<forall>r. read_object mem F version (t @ r) db' = Some (True, r, with_object db' (map_option reloaded (objects db i))))"
proof -
  have wt: "wf_table db" using wf_objectsD [OF assms(2)] by simp
  have ds: "directives ''#%d'' = [Lit (CHR ''#''), Dec]" by (simp add: isspace_def)
  have scan: "dbio_scanf (directives ''#%d'') (''#'' @ printf_d i @ r) = ([i], r)" if "\<not> isdigit (hd0 r)" for r
    using scanf_Dec(1) [OF assms(3) that, of "[]"] by (simp add: ds)
  have last: "i = db_last_used_objid db' + 1" using assms(4) by (simp add: db_last_used_objid_def)
  show ?thesis
  proof (cases "objects db i")
    case None
    have l: "dbio_read_line 20 ('' recycled'' @ NL # r) = Some ('' recycled'' @ [NL], r)" for r
      unfolding dbio_read_line_def by (rule fgets_line) simp_all
    have "dbio_scanf (directives ''#%d'') (''#'' @ printf_d i @ '' recycled'' @ NL # r) = ([i], '' recycled'' @ NL # r)" for r
      by (rule scan) (simp add: isdigit_def)
    then show ?thesis
      using None l last assms(4)
      by (simp add: write_object_def wf_table_find [OF wt] read_object_def dbpriv_new_recycled_object_def with_object_def Let_def)
  next
    case (Some x)
    have l: "dbio_read_line 20 (NL # r) = Some ([NL], r)" for r
      unfolding dbio_read_line_def using fgets_line [of "[]" 20 r] by simp
    have s: "dbio_scanf (directives ''#%d'') (''#'' @ printf_d i @ NL # r) = ([i], NL # r)" for r
      by (rule scan) (simp add: isdigit_def)
    have id: "o_id x = i" using wf_tableD [OF wt Some] by simp
    have "read_object mem F version ((''#'' @ printf_d i @ [NL] @ write_fields F x) @ r) db' =
        Some (True, r, with_object db' (Some (reloaded x)))" for r
    proof -
      obtain f where f: "read_fields F version (write_fields F x @ r) = Some (f, r)"
          "\<And>y. o_waif_propdefs y = None \<Longrightarrow> o_id y = o_id x \<Longrightarrow> f y = reloaded x"
        using read_write_fields [OF assms(1,5)] Some by blast
      have "f (mem\<lparr>o_id := i, o_waif_propdefs := None\<rparr>) = reloaded x" using f(2) id by simp
      then show ?thesis
        using f(1) s [of "write_fields F x @ r"] l last assms(4)
        by (simp add: read_object_def dbpriv_new_object_def Let_def upd_db_def upd_def with_object_def)
    qed
    then show ?thesis using write_object_fields [OF assms(2) Some, of F] Some by simp
  qed
qed

text \<open>The database after the first objects of the file.\<close>

primrec loading :: "db \<Rightarrow> db \<Rightarrow> nat \<Rightarrow> db" where
  "loading db db0 0 = db0"
| "loading db db0 (Suc n) = with_object (loading db db0 n) (map_option reloaded (objects db (int n)))"

lemma loading_eq:
  assumes "num_objects db0 = 0"
  shows "\<exists>m. loading db db0 n = db0\<lparr>
    objects := \<lambda>i. if 0 \<le> i \<and> i < int n then map_option reloaded (objects db i) else objects db0 i,
    num_objects := int n, max_objects := m\<rparr> \<and> (max_objects db0 \<ge> 0 \<longrightarrow> int n \<le> m)"
proof (induction n)
  case 0
  have "(\<lambda>i. if 0 \<le> i \<and> i < int 0 then map_option reloaded (objects db i) else objects db0 i) = objects db0"
    by (rule ext) auto
  then show ?case using assms by (intro exI [of _ "max_objects db0"]) simp
next
  case (Suc n)
  then obtain m where m: "loading db db0 n = db0\<lparr>
      objects := \<lambda>i. if 0 \<le> i \<and> i < int n then map_option reloaded (objects db i) else objects db0 i,
      num_objects := int n, max_objects := m\<rparr>" "max_objects db0 \<ge> 0 \<longrightarrow> int n \<le> m" by blast
  have eq: "(\<lambda>i. if 0 \<le> i \<and> i < int n then map_option reloaded (objects db i) else objects db0 i)
      (int n := map_option reloaded (objects db (int n))) =
      (\<lambda>i. if 0 \<le> i \<and> i < int (Suc n) then map_option reloaded (objects db i) else objects db0 i)"
    by (rule ext) auto
  show ?case
    using m(2) by (intro exI [of _ "max_objects (ensure_new_object (loading db db0 n))"])
      (auto simp: with_object_def m(1) ensure_new_object_def Let_def eq simp del: of_nat_Suc)
qed

lemma loading_num: "num_objects db0 = 0 \<Longrightarrow> num_objects (loading db db0 n) = int n"
  using loading_eq [of db0 db n] by auto

lemma read_write_objects:
  assumes "float_io F" "wf_objects db" "\<And>i x. objects db i = Some x \<Longrightarrow> storable_object x"
    and "num_range (num_objects db)" "num_objects db0 = 0" "n = nat (num_objects db)"
  shows "\<exists>t. write_objects F db n = Some t \<and> (t = [] \<or> hd0 t = CHR ''#'') \<and>
    (\<forall>r. read_objects mem F version n (t @ r) db0 = Some (True, r, loading db db0 n))"
proof -
  define line where "line i = the (write_object F db (int i))" for i
  have obj: "write_object F db (int i) = Some (line i) \<and> hd0 (line i) = CHR ''#'' \<and>
      read_object mem F version (line i @ r) (loading db db0 i) = Some (True, r, loading db db0 (Suc i))"
    if "i < n" for i r
  proof -
    have "num_range (int i)" using that assms(4,6) by (auto simp: num_range_def)
    then show ?thesis
      using read_write_object [OF assms(1,2), of "int i" "loading db db0 i" mem version] assms(3) loading_num [OF assms(5)]
      by (auto simp: line_def)
  qed
  have w: "write_objects F db k = Some (concat (map line [0..<k]))" if "k \<le> n" for k
    using that by (induction k) (simp_all add: obj)
  have rd: "k + j = n \<Longrightarrow> read_objects mem F version j (concat (map line [k..<n]) @ r) (loading db db0 k) =
      Some (True, r, loading db db0 n)" for j k r
  proof (induction j arbitrary: k)
    case (Suc j)
    then have "[k..<n] = k # [Suc k..<n]" "k < n" by (simp_all add: upt_conv_Cons)
    then show ?case using Suc.IH [of "Suc k"] Suc.prems obj [of k] by simp
  qed simp
  have "concat (map line [0..<n]) = [] \<or> hd0 (concat (map line [0..<n])) = CHR ''#''"
  proof (cases n)
    case (Suc k)
    then have "[0..<n] = 0 # [1..<n]" by (simp add: upt_conv_Cons)
    moreover obtain s where "line 0 = CHR ''#'' # s" using obj [of 0] Suc by (cases "line 0") auto
    ultimately show ?thesis by simp
  qed simp
  then show ?thesis using w [of n] rd [of 0 n] by auto
qed

section \<open>Reading back the programs\<close>

text \<open>What the parser and the printer of programs promise each other: the printed lines can be parsed to
  the same program, no line holds a line break or begins with a full stop, and the first does not
  begin with a blank.\<close>

definition program_io :: "programs \<Rightarrow> bool" where
  "program_io P \<longleftrightarrow> (\<forall>p. list_all (\<lambda>l. storable_string l \<and> hd0 l \<noteq> CHR ''.'') (pg_unparse P p) \<and>
     (pg_unparse P p \<noteq> [] \<longrightarrow> hd (pg_unparse P p) \<noteq> [] \<and> \<not> isspace (hd0 (hd (pg_unparse P p)))) \<and>
     pg_parse P current_version (concat (map (\<lambda>l. l @ [NL]) (pg_unparse P p))) = Some p)"

lemma my_getc_line:
  assumes "NL \<notin> set l" "prev_char \<noteq> NL \<or> hd0 l \<noteq> CHR ''.''"
  shows "my_getc prev_char (l @ NL # s) = (let (t, r) = my_getc NL s in (l @ NL # t, r))"
  using assms
proof (induction l arbitrary: prev_char)
  case Nil
  then show ?case by simp
next
  case (Cons c l)
  then have "my_getc c (l @ NL # s) = (let (t, r) = my_getc NL s in (l @ NL # t, r))"
    by (intro Cons.IH) auto
  then show ?case using Cons.prems by (auto simp: Let_def split: prod.splits)
qed

lemma my_getc_lines:
  assumes "list_all (\<lambda>l. storable_string l \<and> hd0 l \<noteq> CHR ''.'') ls"
  shows "my_getc NL (concat (map (\<lambda>l. l @ [NL]) ls) @ CHR ''.'' # NL # r) = (concat (map (\<lambda>l. l @ [NL]) ls), r)"
  using assms by (induction ls) (simp_all add: my_getc_line storable_string_def)

lemma write_program_lines:
  assumes "program_io P"
  shows "dbio_write_program P p = concat (map (\<lambda>l. l @ [NL]) (pg_unparse P p)) @ CHR ''.'' # [NL]"
proof -
  have "dbio_write_string l = l @ [NL]" if "l \<in> set (pg_unparse P p)" for l
    using assms that by (auto simp: program_io_def list_all_iff storable_string_def dbio_write_string_def cstr_id)
  then have lines: "map dbio_write_string (pg_unparse P p) = map (\<lambda>l. l @ [NL]) (pg_unparse P p)" by (rule map_cong [OF refl])
  show ?thesis unfolding dbio_write_program_def lines by simp
qed

lemma read_write_program:
  assumes "program_io P"
  shows "dbio_read_program P current_version (dbio_write_program P p @ r) = (Some p, r)"
    "\<not> isspace (hd0 (dbio_write_program P p @ r))"
proof -
  have ls: "list_all (\<lambda>l. storable_string l \<and> hd0 l \<noteq> CHR ''.'') (pg_unparse P p)"
      "pg_parse P current_version (concat (map (\<lambda>l. l @ [NL]) (pg_unparse P p))) = Some p"
      "pg_unparse P p \<noteq> [] \<Longrightarrow> hd (pg_unparse P p) \<noteq> [] \<and> \<not> isspace (hd0 (hd (pg_unparse P p)))"
    using assms by (simp_all add: program_io_def)
  show "dbio_read_program P current_version (dbio_write_program P p @ r) = (Some p, r)"
    using my_getc_lines [OF ls(1), of r] ls(2) by (simp add: write_program_lines [OF assms] dbio_read_program_def)
  show "\<not> isspace (hd0 (dbio_write_program P p @ r))"
  proof (cases "pg_unparse P p")
    case Nil
    then show ?thesis by (simp add: write_program_lines [OF assms] isspace_def)
  next
    case (Cons l ls')
    then show ?thesis using ls(3) by (cases l) (simp_all add: write_program_lines [OF assms])
  qed
qed

text \<open>The programs in the order of the file: object, position of the verb, program.\<close>

fun jobs_from :: "Objid \<Rightarrow> nat \<Rightarrow> verbdef list \<Rightarrow> (Objid \<times> nat \<times> nat) list" where
  "jobs_from oid k [] = []"
| "jobs_from oid k (v # vs) =
     (case v_program v of None \<Rightarrow> [] | Some p \<Rightarrow> [(oid, k, p)]) @ jobs_from oid (Suc k) vs"

definition job_text :: "programs \<Rightarrow> Objid \<times> nat \<times> nat \<Rightarrow> string" where
  "job_text P = (\<lambda>(oid, k, p). ''#'' @ printf_d oid @ '':'' @ printf_d (int k) @ [NL] @ dbio_write_program P p)"

definition set_job :: "Objid \<times> nat \<times> nat \<Rightarrow> db \<Rightarrow> db" where
  "set_job j db = (case j of (oid, k, p) \<Rightarrow>
     (case objects db oid of
        None \<Rightarrow> db
      | Some x \<Rightarrow> db\<lparr>objects := (objects db)(oid \<mapsto>
          x\<lparr>o_verbdefs := (o_verbdefs x)[k := (o_verbdefs x ! k)\<lparr>v_program := Some p\<rparr>]\<rparr>)\<rparr>))"

definition job_ok :: "db \<Rightarrow> Objid \<times> nat \<times> nat \<Rightarrow> bool" where
  "job_ok db = (\<lambda>(oid, k, p). num_range oid \<and> int_range (int k) \<and>
     (\<exists>x. objects db oid = Some x \<and> k < length (o_verbdefs x)))"

lemma write_verb_programs_jobs: "write_verb_programs P oid k vs = concat (map (job_text P) (jobs_from oid k vs))"
  by (induction vs arbitrary: k) (simp_all add: job_text_def split: option.splits)

lemma jobs_from_length: "length (jobs_from oid k vs) = length (filter (\<lambda>v. v_program v \<noteq> None) vs)"
  by (induction vs arbitrary: k) (auto split: option.splits)

lemma jobs_from_bounds: "(o', k', p) \<in> set (jobs_from oid k vs) \<Longrightarrow> o' = oid \<and> k \<le> k' \<and> k' < k + length vs"
  by (induction vs arbitrary: k) (fastforce split: option.splits if_splits)+

lemma set_job_table: "wf_table db \<Longrightarrow> wf_table (set_job j db)"
  by (auto simp: set_job_def wf_table_def split: prod.splits option.splits)

lemma set_job_ok: "job_ok db j' \<Longrightarrow> job_ok (set_job j db) j'"
  by (auto simp: set_job_def job_ok_def split: prod.splits option.splits)

lemma read_job:
  assumes P: "program_io P" and wt: "wf_table db" and j: "job_ok db j"
  shows "read_programs P current_version (Suc n) (job_text P j @ r) db = read_programs P current_version n r (set_job j db)"
proof -
  obtain oid k p x where x: "j = (oid, k, p)" "num_range oid" "int_range (int k)" "objects db oid = Some x"
      "k < length (o_verbdefs x)"
    using j by (auto simp: job_ok_def)
  note [simp del] = dbio_scanf.simps
  have ds: "directives (''#%d:%d'' @ [NL]) = [Lit (CHR ''#''), Dec, Lit (CHR '':''), Dec, Ws]" by (simp add: isspace_def)
  have scan: "dbio_scanf (directives (''#%d:%d'' @ [NL])) (job_text P j @ r) = ([oid, int k], dbio_write_program P p @ r)"
    using scanf_Dec(1) [OF x(2), of "CHR '':'' # printf_d (int k) @ NL # dbio_write_program P p @ r" "[Lit (CHR '':''), Dec, Ws]"]
      scanf_Dec(1) [OF int_rangeD [OF x(3)], of "NL # dbio_write_program P p @ r" "[Ws]"]
      scanf_end [OF read_write_program(2) [OF P, of p r]]
    unfolding ds by (simp add: scanf_Lit job_text_def x(1) isdigit_def)
  have idx: "nat ((int k + 1) mod 2 ^ 32) = Suc k" using x(3) by (simp add: int_range_def)
  have id: "o_id x = oid" using wf_tableD [OF wt x(4)] by simp
  have "db_find_indexed_verb db oid (Suc k) = Some (Some (oid, k))"
    using x(4,5) id by (simp add: db_find_indexed_verb_def wf_table_find [OF wt])
  moreover have "db_set_verb_program db (Some (oid, k)) (Some p) = Some (set_job j db)"
    using x by (simp add: db_set_verb_program_def set_verb_def upd_db_def set_job_def)
  moreover have "valid db oid" using x(4) by (simp add: valid_def wf_table_find [OF wt])
  ultimately show ?thesis
    unfolding read_programs.simps scan using idx read_write_program(1) [OF P, of p r] by simp
qed

lemma read_jobs:
  assumes "program_io P" "wf_table db" "list_all (job_ok db) js"
  shows "read_programs P current_version (length js) (concat (map (job_text P) js) @ r) db = Some (True, r, fold set_job js db)"
  using assms(2,3)
proof (induction js arbitrary: db)
  case (Cons j js)
  then have "list_all (job_ok (set_job j db)) js" by (auto simp: list_all_iff set_job_ok)
  then show ?case
    using Cons.IH [of "set_job j db"] Cons.prems read_job [OF assms(1), of db j "length js"] by (simp add: set_job_table)
qed simp

text \<open>The jobs of one object put all its programs back.\<close>

lemma fold_jobs_object:
  assumes "objects db oid = Some y" "o_verbdefs y = pre @ map (\<lambda>v. v\<lparr>v_program := None\<rparr>) vs" "k = length pre"
  shows "fold set_job (jobs_from oid k vs) db = db\<lparr>objects := (objects db)(oid \<mapsto> y\<lparr>o_verbdefs := pre @ vs\<rparr>)\<rparr>"
  using assms
proof (induction vs arbitrary: pre k db y)
  case Nil
  then have "(objects db)(oid \<mapsto> y) = objects db" "y\<lparr>o_verbdefs := pre\<rparr> = y" by auto
  then show ?case by simp
next
  case (Cons v vs)
  show ?case
  proof (cases "v_program v")
    case None
    then have "v\<lparr>v_program := None\<rparr> = v" by simp
    then show ?thesis using Cons.IH [of db y "pre @ [v]" "Suc k"] Cons.prems None by simp
  next
    case (Some p)
    let ?y = "y\<lparr>o_verbdefs := pre @ v # map (\<lambda>v. v\<lparr>v_program := None\<rparr>) vs\<rparr>"
    have "v\<lparr>v_program := Some p\<rparr> = v" using Some by (metis verbdef.surjective verbdef.update_convs(2))
    then have "set_job (oid, k, p) db = db\<lparr>objects := (objects db)(oid \<mapsto> ?y)\<rparr>"
      using Cons.prems by (simp add: set_job_def nth_append)
    then show ?thesis
      using Cons.IH [of "db\<lparr>objects := (objects db)(oid \<mapsto> ?y)\<rparr>" ?y "pre @ [v]" "Suc k"] Cons.prems Some
      by (simp cong: if_cong)
  qed
qed

definition restored :: "obj \<Rightarrow> obj" where
  "restored x = x\<lparr>o_propdefs := (o_propdefs x)\<lparr>max_length := int (cur_length (o_propdefs x))\<rparr>, o_waif_propdefs := None\<rparr>"

definition all_jobs :: "db \<Rightarrow> nat \<Rightarrow> (Objid \<times> nat \<times> nat) list" where
  "all_jobs db n = concat (map (\<lambda>i. jobs_from (int i) 0 (verbs_of db (int i))) [0..<n])"

lemma fold_all_jobs:
  assumes "wf_table db" "objects db1 = (\<lambda>i. map_option reloaded (objects db i))"
  shows "fold set_job (all_jobs db n) db1 = db1\<lparr>objects := \<lambda>i.
    if 0 \<le> i \<and> i < int n then map_option restored (objects db i) else map_option reloaded (objects db i)\<rparr>"
proof (induction n)
  case 0
  have "(\<lambda>i. if 0 \<le> i \<and> i < int 0 then map_option restored (objects db i) else map_option reloaded (objects db i)) = objects db1"
    by (rule ext) (auto simp: assms(2))
  then show ?case by (simp add: all_jobs_def)
next
  case (Suc n)
  let ?H = "\<lambda>n i. if 0 \<le> i \<and> i < int n then map_option restored (objects db i) else map_option reloaded (objects db i)"
  let ?d = "db1\<lparr>objects := ?H n\<rparr>"
  have "fold set_job (jobs_from (int n) 0 (verbs_of db (int n))) ?d = db1\<lparr>objects := ?H (Suc n)\<rparr>"
  proof (cases "objects db (int n)")
    case None
    then have "?H (Suc n) = ?H n" by (auto simp: fun_eq_iff less_int_Suc simp del: of_nat_Suc)
    then show ?thesis using None by (simp add: verbs_of_def wf_table_find [OF assms(1)])
  next
    case (Some x)
    have o: "objects ?d (int n) = Some (reloaded x)" using Some by simp
    have v: "o_verbdefs (reloaded x) = [] @ map (\<lambda>v. v\<lparr>v_program := None\<rparr>) (o_verbdefs x)" by (simp add: reloaded_def)
    have "(reloaded x)\<lparr>o_verbdefs := [] @ o_verbdefs x\<rparr> = restored x" by (simp add: reloaded_def restored_def)
    moreover have "(?H n)(int n \<mapsto> restored x) = ?H (Suc n)"
      using Some by (auto simp: fun_eq_iff less_int_Suc simp del: of_nat_Suc)
    ultimately show ?thesis
      using fold_jobs_object [OF o v, of 0] Some by (simp add: verbs_of_def wf_table_find [OF assms(1)] del: of_nat_Suc)
  qed
  then show ?case using Suc by (simp add: all_jobs_def)
qed

lemma all_jobs_length: "length (all_jobs db (nat (num_objects db))) = count_programs db"
  by (simp add: all_jobs_def count_programs_def length_concat jobs_from_length comp_def)

lemma all_jobs_text:
  "concat (map (\<lambda>i. write_verb_programs P (int i) 0 (verbs_of db (int i))) [0..<n]) = concat (map (job_text P) (all_jobs db n))"
  by (induction n) (simp_all add: all_jobs_def write_verb_programs_jobs)

section \<open>The file as a whole\<close>

text \<open>What the operations keep and the file relies on: an object that is nowhere has no next pointer, a
  root no sibling, the temporary flags are clear, and nothing contains itself.\<close>

definition settled :: "db \<Rightarrow> bool" where
  "settled db \<longleftrightarrow> (\<forall>i x. objects db i = Some x \<longrightarrow>
     (o_location x = NOTHING \<longrightarrow> o_next x = NOTHING) \<and> (o_parent x = NOTHING \<longrightarrow> o_sibling x = NOTHING) \<and>
     o_flags x AND NOT temp_mask = o_flags x \<and> ends o_location (objects db) i)"

lemma links_next:
  assumes "links nx a xs" "c \<in> set xs" "nx c = Some d"
  shows "d = NOTHING \<or> d \<in> set xs"
  using assms
proof (induction xs arbitrary: a)
  case (Cons x xs)
  show ?case
  proof (cases "c = x")
    case True
    then obtain b where "nx x = Some b" "links nx b xs" using Cons.prems by auto
    then show ?thesis using True Cons.prems(3) by (cases xs) auto
  next
    case False
    then show ?thesis using Cons by auto
  qed
qed simp

lemma forest_fields:
  assumes f: "forest gl gn gu H" and x: "H i = Some x"
  shows "gu x = NOTHING \<or> H (gu x) \<noteq> None" "gl x = NOTHING \<or> H (gl x) \<noteq> None"
    "gu x \<noteq> NOTHING \<Longrightarrow> gn x = NOTHING \<or> H (gn x) \<noteq> None"
proof -
  show up: "gu x = NOTHING \<or> H (gu x) \<noteq> None" using f x unfolding forest_def by (metis field_eq_Some)
  obtain xs where xs: "listed gl gn H i xs" "\<And>c. c \<in> set xs \<longleftrightarrow> field gu H c = Some i"
    using forest_obtain [OF f, of i] x by auto
  then have "links (field gn H) (gl x) xs" using x by (simp add: listed_def)
  then show "gl x = NOTHING \<or> H (gl x) \<noteq> None" by (cases xs) (auto simp: field_eq_Some)
  assume n: "gu x \<noteq> NOTHING"
  then obtain w where w: "H (gu x) = Some w" using up by auto
  then obtain ys where ys: "listed gl gn H (gu x) ys" "\<And>c. c \<in> set ys \<longleftrightarrow> field gu H c = Some (gu x)"
    using forest_obtain [OF f, of "gu x"] by blast
  have "i \<in> set ys" using ys(2) x by (simp add: field_def)
  moreover have "links (field gn H) (gl w) ys" using ys(1) w by (simp add: listed_def)
  ultimately have "gn x = NOTHING \<or> gn x \<in> set ys" using links_next [of "field gn H" "gl w" ys i "gn x"] x by (simp add: field_def)
  then show "gn x = NOTHING \<or> H (gn x) \<noteq> None" using ys(2) by (auto simp: field_eq_Some)
qed

text \<open>The loaded objects have the links of the original ones, so the check accepts them as they are.\<close>

lemma reloaded_links [simp]:
  "o_parent (reloaded x) = o_parent x" "o_child (reloaded x) = o_child x" "o_sibling (reloaded x) = o_sibling x"
  "o_location (reloaded x) = o_location x" "o_contents (reloaded x) = o_contents x" "o_next (reloaded x) = o_next x"
  "o_flags (reloaded x) = o_flags x" "o_id (reloaded x) = o_id x"
  by (simp_all add: reloaded_def)

lemma validate_loaded:
  assumes wf: "wf_db db" and s: "settled db" and o: "objects db1 = (\<lambda>i. map_option reloaded (objects db i))"
    and n: "num_objects db1 = num_objects db" "num_objects db1 \<le> max_objects db1"
  shows "wf_table db1" "validate_hierarchies db1 = Some (True, db1)"
proof -
  let ?H = "objects db"
  show wt: "wf_table db1" using wf_dbD(4) [OF wf] o n by (auto simp: wf_table_def)
  have f: "forest o_child o_sibling o_parent ?H" "forest o_contents o_next o_location ?H"
    using wf_dbD [OF wf] wf_treeD(2) by simp_all
  have find: "dbpriv_find_object db1 i \<noteq> None \<longleftrightarrow> ?H i \<noteq> None" for i using wf_table_find [OF wt] o by simp
  have fix_ok: "fix_fields db1 (reloaded x) = reloaded x" if "?H i = Some x" for i x
  proof -
    have st: "o_location x = NOTHING \<longrightarrow> o_next x = NOTHING" "o_parent x = NOTHING \<longrightarrow> o_sibling x = NOTHING"
      using s that unfolding settled_def by blast+
    note a = forest_fields [OF f(1) that] and b = forest_fields [OF f(2) that]
    have "o_sibling x = NOTHING \<or> ?H (o_sibling x) \<noteq> None" "o_next x = NOTHING \<or> ?H (o_next x) \<noteq> None"
      using st a(3) b(3) by blast+
    then show ?thesis using st a(1,2) b(1,2) find by (intro fix_fields_same) auto
  qed
  have same: "repaired db1 = db1"
  proof -
    have "map_option (fix_fields db1) (objects db1 i) = objects db1 i" for i using fix_ok o by (cases "?H i") auto
    then show ?thesis by (simp add: repaired_def)
  qed
  have fld: "field g (objects db1) = field g ?H" if "\<And>x. g (reloaded x) = g x" for g :: "obj \<Rightarrow> Objid"
    using that by (auto simp: o field_def option.map_comp comp_def)
  have H: "forest gl gn gu (objects db1) \<longleftrightarrow> forest gl gn gu ?H"
    if "\<And>x. gl (reloaded x) = gl x" "\<And>x. gn (reloaded x) = gn x" "\<And>x. gu (reloaded x) = gu x" for gl gn gu
  proof -
    have "listed gl gn (objects db1) w xs \<longleftrightarrow> listed gl gn ?H w xs" for w xs
      using that(1) fld [of gn] that(2) by (cases "?H w") (simp_all add: listed_def o)
    then show ?thesis using fld [of gu] that(3) by (simp add: forest_def o)
  qed
  have "ends o_parent (objects db1) i \<and> ends o_location (objects db1) i" if d: "objects db1 i \<noteq> None" for i
  proof -
    obtain x where x: "?H i = Some x" using d by (auto simp: o)
    have "\<exists>xs. ancestry ?H i xs" using wf_dbD(5) [OF wf] x by (auto simp: wf_tree_def)
    moreover have "ends o_location ?H i" using s x unfolding settled_def by blast
    ultimately show ?thesis using fld [of o_parent] fld [of o_location] by (simp add: ends_def)
  qed
  then have "hierarchies_ok (objects db1)"
    using f H [of o_child o_sibling o_parent] H [of o_contents o_next o_location] by (simp add: hierarchies_ok_def)
  moreover have "unmarked db1 = db1"
  proof -
    have "map_option (\<lambda>x. x\<lparr>o_flags := o_flags x AND NOT temp_mask\<rparr>) (objects db1 i) = objects db1 i" for i
      using s o by (cases "?H i") (auto simp: settled_def)
    then show ?thesis by (simp add: unmarked_def)
  qed
  ultimately show "validate_hierarchies db1 = Some (True, db1)"
    using validate_result [OF wt] same by simp
qed

definition storable_db :: "db \<Rightarrow> bool" where
  "storable_db db \<longleftrightarrow> (\<forall>i x. objects db i = Some x \<longrightarrow> storable_object x) \<and> int_range (num_objects db) \<and>
     int_range (int (length (all_users db))) \<and> int_range (int (count_programs db))"

lemma user_objid_OBJ [simp]: "user_objid (TYPE_OBJ i) = Some i"
  by (simp add: user_objid_def)

lemma user_objids:
  assumes "wf_db db" "int_range (num_objects db)"
  obtains us where "all_users db = map TYPE_OBJ us" "those (map user_objid (all_users db)) = Some us" "list_all num_range us"
proof -
  have u: "set (all_users db) = TYPE_OBJ ` {i. is_user db i}" using wf_dbD(3) [OF assms(1)] by (simp add: users_ok_def)
  have r: "num_range i" if "is_user db i" for i
    using that wf_tableD [OF wf_dbD(4) [OF assms(1)], of i] is_user_eq [OF wf_dbD(4) [OF assms(1)], of i] assms(2)
    by (auto simp: num_range_def int_range_def)
  have "\<exists>us. vs = map TYPE_OBJ us \<and> those (map user_objid vs) = Some us \<and> list_all num_range us"
    if "set vs \<subseteq> TYPE_OBJ ` {i. is_user db i}" for vs
    using that
  proof (induction vs)
    case Nil
    show ?case by (intro exI [of _ "[]"]) simp
  next
    case (Cons v vs)
    then obtain us i where "vs = map TYPE_OBJ us" "those (map user_objid vs) = Some us" "list_all num_range us"
        "v = TYPE_OBJ i" "is_user db i" by auto
    then show ?case using r by (intro exI [of _ "i # us"]) simp
  qed
  then show ?thesis using u that by (metis order_refl)
qed

lemma scanf_header:
  assumes "\<not> isspace (hd0 r)"
  shows "dbio_scanf (directives header_format_string)
    (''** LambdaMOO Database, Format Version '' @ printf_d (version_number current_version) @ '' **'' @ NL # r) = ([4], r)"
proof -
  have d: "printf_d (version_number current_version) = ''4''"
    by code_simp
  have r: "dropWhile isspace r = r" using assms by (cases r) auto
  show ?thesis unfolding d header_format_string_def
    by (simp add: isspace_def [abs_def] strtoimax_def clamp64_def isdigit_def r [unfolded isspace_def [abs_def]] Let_def)
qed

lemma scanf_counts:
  assumes "num_range a" "num_range b" "num_range c" "num_range d" "\<not> isspace (hd0 r)"
  shows "dbio_scanf (directives counts_format)
    (dbio_write_num a @ dbio_write_num b @ dbio_write_num c @ dbio_write_num d @ r) = ([a, b, c, d], r)"
proof -
  have ds: "directives counts_format = [Dec, Ws, Dec, Ws, Dec, Ws, Dec, Ws]"
    by (simp add: counts_format_def numeral_eq_Suc isspace_def)
  note [simp del] = dbio_scanf.simps
  show ?thesis
    unfolding ds using assms
    by (simp add: dbio_write_num_def scanf_Dec isdigit_def scanf_end)
qed

lemma all_jobs_ok:
  assumes "wf_db db" "storable_db db" "objects db1 = (\<lambda>i. map_option reloaded (objects db i))"
  shows "list_all (job_ok db1) (all_jobs db n)"
proof -
  have wt: "wf_table db" using wf_dbD [OF assms(1)] by simp
  have "job_ok db1 (oid, k, p)" if j: "(oid, k, p) \<in> set (jobs_from (int i) 0 (verbs_of db (int i)))" for oid k p i
  proof -
    have b: "oid = int i" "k < length (verbs_of db (int i))" using jobs_from_bounds [OF j] by auto
    then obtain x where x: "objects db (int i) = Some x" "verbs_of db (int i) = o_verbdefs x"
      by (cases "objects db (int i)") (auto simp: verbs_of_def wf_table_find [OF wt])
    have "num_range (int i)" using wf_tableD [OF wt x(1)] assms(2) by (auto simp: storable_db_def num_range_def int_range_def)
    moreover have "int_range (int (length (o_verbdefs x)))" using assms(2) x(1) by (auto simp: storable_db_def storable_object_def)
    ultimately show ?thesis using b x assms(3) by (auto simp: job_ok_def reloaded_def int_range_def)
  qed
  then show ?thesis by (fastforce simp: all_jobs_def list_all_iff)
qed

lemma loading_done:
  assumes "wf_table db" "num_objects db0 = 0" "objects db0 = Map.empty" "0 \<le> max_objects db0"
  shows "\<exists>m. loading db db0 (nat (num_objects db)) = db0\<lparr>objects := \<lambda>i. map_option reloaded (objects db i),
    num_objects := num_objects db, max_objects := m\<rparr> \<and> num_objects db \<le> m"
proof -
  let ?n = "nat (num_objects db)"
  have n: "int ?n = num_objects db" using assms(1) by (simp add: wf_table_def)
  have "(\<lambda>i. if 0 \<le> i \<and> i < int ?n then map_option reloaded (objects db i) else objects db0 i) =
      (\<lambda>i. map_option reloaded (objects db i))"
  proof (rule ext)
    fix i
    show "(if 0 \<le> i \<and> i < int ?n then map_option reloaded (objects db i) else objects db0 i) = map_option reloaded (objects db i)"
      using wf_tableD [OF assms(1), of i] assms(3) n by (cases "objects db i") auto
  qed
  then show ?thesis using loading_eq [OF assms(2), of db ?n] assms(4) n by auto
qed

lemma file_read_write:
  assumes F: "float_io F" and P: "program_io P" and wf: "wf_db db" and st: "storable_db db" "settled db"
    and db0: "num_objects db0 = 0" "objects db0 = Map.empty" "0 \<le> max_objects db0"
    and tail: "\<not> isspace (hd0 tail)"
  shows "\<exists>t m. write_db_file F P tail db = Some t \<and>
    read_db_file mem F P read_tail t db0 = Some (read_tail tail, db0\<lparr>objects := \<lambda>i. map_option restored (objects db i),
      num_objects := num_objects db, max_objects := m, all_users := all_users db\<rparr>)"
proof -
  let ?n = "nat (num_objects db)"
  have wt: "wf_table db" using wf_dbD [OF wf] by simp
  have n: "int ?n = num_objects db" "db_last_used_objid db + 1 = num_objects db"
    using wt by (simp_all add: wf_table_def db_last_used_objid_def)
  have rng: "num_range (num_objects db)" "num_range (int (length (all_users db)))" "num_range (int (count_programs db))"
    using st(1) int_rangeD by (simp_all add: storable_db_def)
  have w32: "\<not> wrap32 (int (length (all_users db))) < 0" using st(1) by (simp add: storable_db_def wrap32_id)
  obtain us where us: "all_users db = map TYPE_OBJ us" "those (map user_objid (all_users db)) = Some us" "list_all num_range us"
    using user_objids [OF wf] st(1) by (auto simp: storable_db_def)
  let ?d0 = "db0\<lparr>all_users := map TYPE_OBJ us\<rparr>"
  obtain t where t: "write_objects F db ?n = Some t" "t = [] \<or> hd0 t = CHR ''#''"
      "\<And>r. read_objects mem F current_version ?n (t @ r) ?d0 = Some (True, r, loading db ?d0 ?n)"
    using read_write_objects [OF F wf_dbD(1) [OF wf], of ?d0 ?n mem current_version] st(1) rng(1) db0
    by (auto simp: storable_db_def)
  obtain m where m: "loading db ?d0 ?n = ?d0\<lparr>objects := \<lambda>i. map_option reloaded (objects db i),
      num_objects := num_objects db, max_objects := m\<rparr>" "num_objects db \<le> m"
    using loading_done [OF wt, of ?d0] db0 by auto
  let ?d1 = "loading db ?d0 ?n"
  have o1: "objects ?d1 = (\<lambda>i. map_option reloaded (objects db i))" using m(1) by simp
  have val: "wf_table ?d1" "validate_hierarchies ?d1 = Some (True, ?d1)"
    using validate_loaded [OF wf st(2) o1] m by simp_all
  let ?js = "all_jobs db ?n"
  let ?progs = "concat (map (job_text P) ?js)"
  have progs: "read_programs P current_version (count_programs db) (?progs @ tail) ?d1 = Some (True, tail, fold set_job ?js ?d1)"
    using read_jobs [OF P val(1) all_jobs_ok [OF wf st(1) o1], of ?n tail] by (simp add: all_jobs_length)
  have eq: "(\<lambda>i. if 0 \<le> i \<and> i < int ?n then map_option restored (objects db i) else map_option reloaded (objects db i)) =
      (\<lambda>i. map_option restored (objects db i))"
  proof (rule ext)
    fix i
    show "(if 0 \<le> i \<and> i < int ?n then map_option restored (objects db i) else map_option reloaded (objects db i)) =
        map_option restored (objects db i)"
      using wf_tableD [OF wt, of i] n(1) by (cases "objects db i") auto
  qed
  have final: "fold set_job ?js ?d1 = db0\<lparr>objects := \<lambda>i. map_option restored (objects db i),
      num_objects := num_objects db, max_objects := m, all_users := all_users db\<rparr>"
    unfolding fold_all_jobs [OF wt o1] eq using m(1) us(1) by simp
  have users: "read_n dbio_read_objid (length us) (concat (map dbio_write_objid us) @ r) = Some (map id us, r)" for r
    using us(3) by (intro read_n_concat) (simp add: list_all_iff)
  let ?rest = "concat (map dbio_write_objid us) @ t @ ?progs @ tail"
  have rest: "\<not> isspace (hd0 ?rest)"
  proof -
    have "\<not> isspace (hd0 (?progs @ tail))" using tail by (cases ?js) (auto simp: job_text_def isspace_def)
    then have "\<not> isspace (hd0 (t @ ?progs @ tail))" using t(2) by (cases t) (auto simp: isspace_def)
    moreover have "\<not> isspace (hd0 (dbio_write_objid u @ r))" for u r
      using printf_d_hd [of u "NL # r"] by (simp add: dbio_write_objid_def dbio_write_num_def)
    ultimately show ?thesis by (cases us) simp_all
  qed
  let ?counts = "dbio_write_num (num_objects db) @ dbio_write_num (int (count_programs db)) @ dbio_write_num 0 @
    dbio_write_num (int (length (all_users db))) @ ?rest"
  let ?text = "''** LambdaMOO Database, Format Version '' @ printf_d (version_number current_version) @ '' **'' @ NL # ?counts"
  have wr: "write_db_file F P tail db = Some ?text"
    using us(2) t(1) n(2) by (simp add: write_db_file_def db_all_users_def all_jobs_text)
  have c: "\<not> isspace (hd0 ?counts)"
    using printf_d_hd [of "num_objects db"] by (simp add: dbio_write_num_def)
  have v: "check_version 4 = Some current_version" by code_simp
  have rd: "read_db_file mem F P read_tail ?text db0 = Some (read_tail tail, fold set_job ?js ?d1)"
    unfolding read_db_file_def scanf_header [OF c]
    using scanf_counts [OF rng(1,3) small_num(2) rng(2) rest] w32 users t(3) val(2) progs us(1) v by simp
  show ?thesis by (intro exI conjI) (rule wr, rule rd [unfolded final])
qed

end
