(* ===== verification/Commands.thy ===== *)
theory Commands
  imports Samples Words
begin

text \<open>
  Commands: matching a name against the objects around a player (\<^verbatim>\<open>match.c\<close>) and parsing a command line
  into verb, direct object, preposition and indirect object (the second half of \<^verbatim>\<open>parse_cmd.c\<close>).

  \<open>match_object_selects\<close> says which object a name selects, and \<open>command_parts\<close> how the words of a
  line are divided.
\<close>

section \<open>Matching names\<close>

definition aliases :: "db \<Rightarrow> Objid \<Rightarrow> Var list option" where
  "aliases db oid =
     map_option (\<lambda>(h, v). case v of
         Some (TYPE_LIST names) \<Rightarrow> if ptr h = Null_prop then [] else names
       | _ \<Rightarrow> [])
       (db_find_property db oid ''aliases'' True)"

record match_data =
  m_exact :: Objid
  m_partial :: Objid

text \<open>The loop over the name of the object and its aliases: whether to stop, and the data.\<close>

fun match_names :: "string \<Rightarrow> Objid \<Rightarrow> Var list \<Rightarrow> match_data \<Rightarrow> bool \<times> match_data" where
  "match_names nm oid [] d = (False, d)"
| "match_names nm oid (v # vs) d =
     (case v of
        TYPE_STR s \<Rightarrow>
          if mystrncasecmp s nm (length (cstr nm)) = 0
          then (if hd0 (drop (length (cstr nm)) (cstr s)) = NUL
                then (if m_exact d = NOTHING \<or> m_exact d = oid
                      then match_names nm oid vs (d\<lparr>m_exact := oid\<rparr>)
                      else (True, d))
                else match_names nm oid vs
                       (d\<lparr>m_partial := if m_partial d = FAILED_MATCH \<or> m_partial d = oid then oid else AMBIGUOUS\<rparr>))
          else match_names nm oid vs d
      | _ \<Rightarrow> match_names nm oid vs d)"

definition match_proc :: "db \<Rightarrow> string \<Rightarrow> match_data option \<Rightarrow> Objid \<Rightarrow> bool \<times> match_data option" where
  "match_proc db nm data oid =
     (case (data, aliases db oid, db_object_name db oid) of
        (Some d, Some names, Some name) \<Rightarrow>
          (let (stop, d') = match_names nm oid (TYPE_STR name # names) d in (stop, Some d'))
      | _ \<Rightarrow> (True, None))"

text \<open>The two rounds of the loop: the player, then its location.\<close>

fun match_places :: "db \<Rightarrow> string \<Rightarrow> Objid list \<Rightarrow> match_data \<Rightarrow> Objid option" where
  "match_places db nm [] d = Some (if m_exact d \<noteq> NOTHING then m_exact d else m_partial d)"
| "match_places db nm (oid # oids) d =
     (if \<not> valid db oid then match_places db nm oids d
      else do {
        (stop, data) \<leftarrow> db_for_all_contents db oid (match_proc db nm) (Some d);
        d' \<leftarrow> data;
        if stop then Some AMBIGUOUS else match_places db nm oids d'
      })"

definition match_contents :: "db \<Rightarrow> Objid \<Rightarrow> string \<Rightarrow> Objid option" where
  "match_contents db player nm =
     (if \<not> valid db player then Some FAILED_MATCH
      else do {
        loc \<leftarrow> db_object_location db player;
        match_places db nm [player, loc] \<lparr>m_exact = NOTHING, m_partial = FAILED_MATCH\<rparr>
      })"

definition match_object :: "db \<Rightarrow> Objid \<Rightarrow> string \<Rightarrow> Objid option" where
  "match_object db player nm =
     (if hd0 nm = NUL then Some NOTHING
      else if hd0 nm = CHR ''#''
      then (let (r, p) = strtoimax (cstr (tl nm))
            in if hd0 p \<noteq> NUL \<or> \<not> valid db r then Some FAILED_MATCH else Some r)
      else if \<not> valid db player then Some FAILED_MATCH
      else if mystrcasecmp nm ''me'' = 0 then Some player
      else if mystrcasecmp nm ''here'' = 0 then db_object_location db player
      else match_contents db player nm)"

section \<open>Parsing a command\<close>

record Parsed_Command =
  pc_verb :: string
  pc_argstr :: string
  pc_args :: "Var list"
  pc_dobjstr :: string
  pc_dobj :: Objid
  pc_prepstr :: string
  pc_prep :: int
  pc_iobjstr :: string
  pc_iobj :: Objid

text \<open>The arguments as typed: what follows the first word, quotes and backslashes considered.\<close>

fun skip_verb :: "bool \<Rightarrow> string \<Rightarrow> string" where
  "skip_verb in_quotes [] = []"
| "skip_verb in_quotes (c # s) =
     (if c = NUL \<or> \<not> in_quotes \<and> c = CHR '' '' then c # s
      else if c = CHR 0x22 then skip_verb (\<not> in_quotes) s
      else if c = CHR 0x5C
      then (case s of [] \<Rightarrow> [] | d # s' \<Rightarrow> if d = NUL then s else skip_verb in_quotes s')
      else skip_verb in_quotes s)"

definition command_text :: "string \<Rightarrow> string \<times> string" where
  "command_text command =
     (let special = (\<lambda>verb. (verb @ CHR '' '' # cstr (tl command), cstr (tl command)))
      in if hd0 command = CHR 0x22 then special ''say''
         else if hd0 command = CHR '':'' then special ''emote''
         else if hd0 command = CHR '';'' then special ''eval''
         else (cstr command, skip_blanks (skip_verb False (cstr command))))"

definition parse_command :: "db \<Rightarrow> string \<Rightarrow> Objid \<Rightarrow> Parsed_Command option option" where
  "parse_command db command user =
     (let (buf, argstr) = command_text (skip_blanks command); argv = parse_into_words buf
      in if argv = [] then Some None
         else do {
           let argc = length argv;
           let (prep, pstart, pend) =
             (if argc > 1
              then (let (prep, pstart, pend) = db_find_prep False (tl argv)
                    in if prep = PREP_NONE then (PREP_NONE, argc, argc) else (prep, pstart + 1, pend + 1))
              else (PREP_NONE, argc, argc));
           (prepstr, iobjstr, iobj) \<leftarrow>
             (if prep \<noteq> PREP_NONE
              then (let iobjstr = build_string (drop (pend + 1) argv)
                    in map_option (\<lambda>iobj. (build_string (take (pend - pstart + 1) (drop pstart argv)), iobjstr, iobj))
                         (match_object db user iobjstr))
              else Some ([], [], NOTHING));
           let dlen = pstart - 1;
           (dobjstr, dobj) \<leftarrow>
             (if dlen = 0 then Some ([], NOTHING)
              else map_option (Pair (build_string (take dlen (tl argv))))
                     (match_object db user (build_string (take dlen (tl argv)))));
           Some (Some \<lparr>pc_verb = hd argv, pc_argstr = argstr, pc_args = map TYPE_STR (tl argv),
             pc_dobjstr = dobjstr, pc_dobj = dobj, pc_prepstr = prepstr, pc_prep = prep,
             pc_iobjstr = iobjstr, pc_iobj = iobj\<rparr>)
         })"

section \<open>Which object a name selects\<close>

text \<open>The objects among which a name chooses: all the same gives that one, none gives \<open>none\<close>, different
  ones are ambiguous.\<close>

definition pick :: "Objid \<Rightarrow> Objid list \<Rightarrow> Objid" where
  "pick none zs = (case zs of [] \<Rightarrow> none | z # _ \<Rightarrow> if list_all (\<lambda>y. y = z) zs then z else AMBIGUOUS)"

definition exact_name :: "string \<Rightarrow> Var \<Rightarrow> bool" where
  "exact_name nm v = (case v of TYPE_STR s \<Rightarrow> folded s = folded nm | _ \<Rightarrow> False)"

definition partial_name :: "string \<Rightarrow> Var \<Rightarrow> bool" where
  "partial_name nm v = (case v of TYPE_STR s \<Rightarrow> strict_prefix (folded nm) (folded s) | _ \<Rightarrow> False)"

definition object_names :: "db \<Rightarrow> Objid \<Rightarrow> Var list" where
  "object_names db oid =
     (case (aliases db oid, objects db oid) of (Some as, Some x) \<Rightarrow> TYPE_STR (o_name x) # as | _ \<Rightarrow> [])"

definition place_contents :: "db \<Rightarrow> Objid \<Rightarrow> Objid list" where
  "place_contents db w =
     (case objects db w of None \<Rightarrow> [] | Some x \<Rightarrow> the (ll_members o_next (o_contents x) (objects db)))"

definition selected :: "db \<Rightarrow> string \<Rightarrow> Objid list \<Rightarrow> Objid" where
  "selected db nm cs =
     (let es = filter (\<lambda>c. list_ex (exact_name nm) (object_names db c)) cs;
          ps = filter (\<lambda>c. list_ex (partial_name nm) (object_names db c)) cs
      in if es \<noteq> [] then pick NOTHING es else pick FAILED_MATCH ps)"

lemma pick_snoc:
  assumes "0 \<le> x" "\<forall>z \<in> set zs. 0 \<le> z" "none = NOTHING \<or> none = FAILED_MATCH"
  shows "pick none (zs @ [x]) = (if pick none zs = none \<or> pick none zs = x then x else AMBIGUOUS)"
  using assms by (cases zs) (auto simp: pick_def list_all_iff)

lemma name_match:
  "mystrncasecmp s nm (length (cstr nm)) = 0 \<and> hd0 (drop (length (cstr nm)) (cstr s)) = NUL \<longleftrightarrow> exact_name nm (TYPE_STR s)"
  "mystrncasecmp s nm (length (cstr nm)) = 0 \<and> hd0 (drop (length (cstr nm)) (cstr s)) \<noteq> NUL \<longleftrightarrow> partial_name nm (TYPE_STR s)"
proof -
  let ?n = "length (cstr nm)"
  have n: "length (folded nm) = ?n" "length (folded s) = length (cstr s)" by (simp_all add: folded_def)
  have m: "mystrncasecmp s nm ?n = 0 \<longleftrightarrow> prefix (folded nm) (folded s)"
    unfolding mystrncasecmp_eq_0 using n(1) by (metis append_eq_conv_conj append_take_drop_id order_refl prefix_def take_all)
  have h: "hd0 (drop ?n (cstr s)) = NUL \<longleftrightarrow> length (folded s) \<le> ?n"
  proof (cases "drop ?n (cstr s)")
    case Nil
    then show ?thesis using n by simp
  next
    case (Cons c r)
    then have "c \<in> set (cstr s)" by (metis in_set_dropD list.set_intros(1))
    then have "c \<noteq> NUL" using NUL_notin_cstr by metis
    moreover have "\<not> length (folded s) \<le> ?n" using Cons n(2) by (metis drop_all list.distinct(1))
    ultimately show ?thesis using Cons by simp
  qed
  show "mystrncasecmp s nm ?n = 0 \<and> hd0 (drop ?n (cstr s)) = NUL \<longleftrightarrow> exact_name nm (TYPE_STR s)"
      "mystrncasecmp s nm ?n = 0 \<and> hd0 (drop ?n (cstr s)) \<noteq> NUL \<longleftrightarrow> partial_name nm (TYPE_STR s)"
    unfolding m h exact_name_def partial_name_def using n
    by (auto simp: strict_prefix_def dest: prefix_length_le prefix_length_prefix) (metis prefix_length_le prefix_order.antisym linorder_le_cases prefix_length_prefix prefix_order.refl)+
qed

text \<open>One object: what its names do to the data.\<close>

lemma match_names_eq:
  assumes "0 \<le> oid"
  shows "if list_ex (exact_name nm) vs \<and> m_exact d \<noteq> NOTHING \<and> m_exact d \<noteq> oid then fst (match_names nm oid vs d)
     else match_names nm oid vs d = (False, \<lparr>m_exact = if list_ex (exact_name nm) vs then oid else m_exact d,
       m_partial = if list_ex (partial_name nm) vs
         then (if m_partial d = FAILED_MATCH \<or> m_partial d = oid then oid else AMBIGUOUS) else m_partial d\<rparr>)"
proof (induction vs arbitrary: d)
  case Nil
  then show ?case by simp
next
  case (Cons v vs)
  show ?case
  proof (cases v)
    case (TYPE_STR s)
    consider "exact_name nm v" | "partial_name nm v" "\<not> exact_name nm v" | "\<not> exact_name nm v" "\<not> partial_name nm v" by blast
    then show ?thesis
    proof cases
      case 1
      then have "mystrncasecmp s nm (length (cstr nm)) = 0" "hd0 (drop (length (cstr nm)) (cstr s)) = NUL" "\<not> partial_name nm v"
        using name_match [where s = s and nm = nm] TYPE_STR by auto
      then show ?thesis using 1 TYPE_STR Cons [of "d\<lparr>m_exact := oid\<rparr>"] assms by (auto split: if_splits)
    next
      case 2
      then have "mystrncasecmp s nm (length (cstr nm)) = 0" "hd0 (drop (length (cstr nm)) (cstr s)) \<noteq> NUL"
        using name_match [where s = s and nm = nm] TYPE_STR by auto
      then show ?thesis using 2 TYPE_STR assms
        Cons [of "d\<lparr>m_partial := if m_partial d = FAILED_MATCH \<or> m_partial d = oid then oid else AMBIGUOUS\<rparr>"]
        by (auto split: if_splits)
    next
      case 3
      then have "mystrncasecmp s nm (length (cstr nm)) \<noteq> 0" using name_match [where s = s and nm = nm] TYPE_STR by auto
      then show ?thesis using 3 TYPE_STR Cons [of d] by simp
    qed
  qed (use Cons [of d] in \<open>simp_all add: exact_name_def partial_name_def\<close>)
qed

text \<open>The objects of one place after another; \<open>None\<close> when two objects match exactly.\<close>

definition matched :: "db \<Rightarrow> string \<Rightarrow> Objid list \<Rightarrow> match_data \<Rightarrow> bool" where
  "matched db nm zs d \<longleftrightarrow>
     m_exact d = pick NOTHING (filter (\<lambda>c. list_ex (exact_name nm) (object_names db c)) zs) \<and> m_exact d \<noteq> AMBIGUOUS \<and>
     m_partial d = pick FAILED_MATCH (filter (\<lambda>c. list_ex (partial_name nm) (object_names db c)) zs)"

lemma aliases_defined:
  assumes "wf_db db" "objects db i = Some x"
  shows "\<exists>as. aliases db i = Some as"
proof -
  obtain xs where xs: "ancestry (objects db) i xs" using wf_tree_ancestry [OF wf_dbD(5) [OF assms(1)], of i] assms(2) by auto
  have nb: "\<not> builtin_name ''aliases''" by code_simp
  note find = find_property_eq [OF wf_dbD(1) [OF assms(1)] assms(2) xs nb, where want = True]
  have "db_find_property db i ''aliases'' True \<noteq> None"
    using find by (metis option.discI)
  then show ?thesis by (auto simp: aliases_def)
qed

lemma match_proc_step:
  assumes "wf_db db" "objects db c \<noteq> None" "matched db nm zs d" "\<forall>z \<in> set zs. 0 \<le> z"
  shows "(\<exists>d'. match_proc db nm (Some d) c = (False, Some d') \<and> matched db nm (zs @ [c]) d') \<or>
    (\<exists>d'. match_proc db nm (Some d) c = (True, Some d')) \<and>
      pick NOTHING (filter (\<lambda>c. list_ex (exact_name nm) (object_names db c)) (zs @ [c])) = AMBIGUOUS"
proof -
  obtain x where x: "objects db c = Some x" using assms(2) by auto
  obtain as where as: "aliases db c = Some as" using aliases_defined [OF assms(1) x] by blast
  have names: "object_names db c = TYPE_STR (o_name x) # as" by (simp add: object_names_def as x)
  have c: "0 \<le> c" using wf_tableD [OF wf_dbD(4) [OF assms(1)] x] by simp
  let ?es = "filter (\<lambda>c. list_ex (exact_name nm) (object_names db c))"
  let ?ps = "filter (\<lambda>c. list_ex (partial_name nm) (object_names db c))"
  have pos: "\<forall>z \<in> set (?es zs). 0 \<le> z" "\<forall>z \<in> set (?ps zs). 0 \<le> z" using assms(4) by auto
  have ex: "m_exact d = pick NOTHING (?es zs)" "m_partial d = pick FAILED_MATCH (?ps zs)" "m_exact d \<noteq> AMBIGUOUS"
    using assms(3) by (simp_all add: matched_def)
  have proc: "match_proc db nm (Some d) c = (let (stop, d') = match_names nm c (object_names db c) d in (stop, Some d'))"
    by (simp add: match_proc_def as names db_object_name_def x)
  show ?thesis
  proof (cases "list_ex (exact_name nm) (object_names db c) \<and> m_exact d \<noteq> NOTHING \<and> m_exact d \<noteq> c")
    case True
    then obtain d' where "match_names nm c (object_names db c) d = (True, d')"
      using match_names_eq [OF c, of nm "object_names db c" d] by (metis prod.collapse)
    moreover have "pick NOTHING (?es (zs @ [c])) = AMBIGUOUS"
      using True ex(1) pick_snoc [OF c pos(1), of NOTHING] by simp
    ultimately show ?thesis using proc by simp
  next
    case False
    then have m: "match_names nm c (object_names db c) d =
        (False, \<lparr>m_exact = if list_ex (exact_name nm) (object_names db c) then c else m_exact d,
          m_partial = if list_ex (partial_name nm) (object_names db c)
            then (if m_partial d = FAILED_MATCH \<or> m_partial d = c then c else AMBIGUOUS) else m_partial d\<rparr>)"
      using match_names_eq [OF c, of nm "object_names db c" d] by simp
    show ?thesis
      using m proc False ex pick_snoc [OF c pos(1), of NOTHING] pick_snoc [OF c pos(2), of FAILED_MATCH] c
      by (auto simp: matched_def)
  qed
qed

lemma match_list:
  assumes wf: "wf_db db" and l: "links (field o_next (objects db)) a cs"
    and d: "matched db nm zs d" "\<forall>z \<in> set zs. 0 \<le> z"
  shows "(\<exists>d'. for_all_loop o_next (match_proc db nm) (Some d) a (objects db) = Some (False, Some d') \<and> matched db nm (zs @ cs) d') \<or>
    (\<exists>d'. for_all_loop o_next (match_proc db nm) (Some d) a (objects db) = Some (True, Some d')) \<and>
      (\<exists>us vs. cs = us @ vs \<and> pick NOTHING (filter (\<lambda>c. list_ex (exact_name nm) (object_names db c)) (zs @ us)) = AMBIGUOUS)"
  using l d
proof (induction cs arbitrary: a zs d)
  case Nil
  then show ?case by (simp add: for_all_loop.simps)
next
  case (Cons c cs)
  then obtain x where x: "a = c" "c \<noteq> NOTHING" "objects db c = Some x" "links (field o_next (objects db)) (o_next x) cs"
    by (auto simp: field_eq_Some)
  have c: "0 \<le> c" using wf_tableD [OF wf_dbD(4) [OF wf] x(3)] by simp
  have dom: "objects db c \<noteq> None" using x(3) by simp
  note step = match_proc_step [OF wf dom Cons.prems(2,3)]
  show ?case
  proof (cases "fst (match_proc db nm (Some d) c)")
    case True
    then obtain d' where d': "match_proc db nm (Some d) c = (True, Some d')"
        "pick NOTHING (filter (\<lambda>c. list_ex (exact_name nm) (object_names db c)) (zs @ [c])) = AMBIGUOUS"
      using step by auto
    then have "for_all_loop o_next (match_proc db nm) (Some d) a (objects db) = Some (True, Some d')"
      using x by (subst for_all_loop.simps) simp
    moreover have "c # cs = [c] @ cs" by simp
    ultimately show ?thesis using d'(2) by metis
  next
    case False
    then obtain d' where d': "match_proc db nm (Some d) c = (False, Some d')" "matched db nm (zs @ [c]) d'"
      using step by auto
    have "for_all_loop o_next (match_proc db nm) (Some d) a (objects db) =
        for_all_loop o_next (match_proc db nm) (Some d') (o_next x) (objects db)"
      using x d'(1) by (subst for_all_loop.simps) simp
    moreover have "\<forall>z \<in> set (zs @ [c]). 0 \<le> z" using Cons.prems(3) c by simp
    ultimately show ?thesis using Cons.IH [OF x(4) d'(2)] by (metis append.assoc append_Cons append_Nil)
  qed
qed

lemma pick_more:
  assumes "pick none zs = AMBIGUOUS" "none \<noteq> AMBIGUOUS" "\<forall>z \<in> set zs. 0 \<le> z"
  shows "pick none (zs @ ws) = AMBIGUOUS \<and> zs \<noteq> []"
  using assms by (cases zs) (auto simp: pick_def list_all_iff split: if_splits)

lemma selected_ambiguous:
  assumes "pick NOTHING (filter (\<lambda>c. list_ex (exact_name nm) (object_names db c)) us) = AMBIGUOUS" "\<forall>z \<in> set us. 0 \<le> z"
  shows "selected db nm (us @ vs) = AMBIGUOUS"
proof -
  let ?es = "filter (\<lambda>c. list_ex (exact_name nm) (object_names db c))"
  have "\<forall>z \<in> set (?es us). 0 \<le> z" using assms(2) by simp
  then have "pick NOTHING (?es us @ ?es vs) = AMBIGUOUS" "?es us \<noteq> []"
    using pick_more [OF assms(1), of "?es vs"] by auto
  then show ?thesis by (simp add: selected_def)
qed

lemma selected_matched:
  assumes "matched db nm zs d" "\<forall>z \<in> set zs. 0 \<le> z"
  shows "(if m_exact d \<noteq> NOTHING then m_exact d else m_partial d) = selected db nm zs"
proof -
  let ?es = "filter (\<lambda>c. list_ex (exact_name nm) (object_names db c)) zs"
  have pos: "\<forall>z \<in> set ?es. 0 \<le> z" using assms(2) by simp
  have "?es = [] \<longleftrightarrow> pick NOTHING ?es = NOTHING"
    using pos by (cases ?es) (auto simp: pick_def)
  then show ?thesis using assms(1) by (simp add: matched_def selected_def)
qed

lemma place_contents_listed:
  assumes "wf_db db" "objects db w = Some x"
  shows "links (field o_next (objects db)) (o_contents x) (place_contents db w)"
    "\<forall>z \<in> set (place_contents db w). 0 \<le> z"
proof -
  have "objects db w \<noteq> None" using assms(2) by simp
  then obtain xs where xs: "contents (objects db) w xs" "\<forall>c. c \<in> set xs \<longleftrightarrow> field o_location (objects db) c = Some w"
    using forest_obtain [OF wf_dbD(2) [OF assms(1)], of w] by blast
  have e: "place_contents db w = xs" using listed_members [OF xs(1) assms(2)] by (simp add: place_contents_def assms(2))
  show "links (field o_next (objects db)) (o_contents x) (place_contents db w)"
    using xs(1) assms(2) unfolding e by (auto simp: listed_def)
  show "\<forall>z \<in> set (place_contents db w). 0 \<le> z"
    using xs(2) wf_tableD [OF wf_dbD(4) [OF assms(1)]] unfolding e by (auto simp: field_eq_Some)
qed

lemma valid_Some: "wf_db db \<Longrightarrow> valid db i \<longleftrightarrow> (\<exists>x. objects db i = Some x)"
  by (auto simp: valid_def wf_table_find [OF wf_dbD(4)])

lemma match_places_eq:
  assumes "wf_db db" "matched db nm zs d" "\<forall>z \<in> set zs. 0 \<le> z"
  shows "match_places db nm ws d = Some (selected db nm (zs @ concat (map (place_contents db) ws)))"
  using assms(2,3)
proof (induction ws arbitrary: zs d)
  case Nil
  then show ?case using selected_matched by simp
next
  case (Cons w ws)
  show ?case
  proof (cases "objects db w")
    case None
    then have "\<not> valid db w" using valid_Some [OF assms(1)] by simp
    then show ?thesis using Cons by (simp add: place_contents_def None)
  next
    case (Some x)
    note pc = place_contents_listed [OF assms(1) Some]
    have v: "valid db w" using valid_Some [OF assms(1)] Some by simp
    let ?f = "db_for_all_contents db w (match_proc db nm) (Some d)"
    have f: "?f = for_all_loop o_next (match_proc db nm) (Some d) (o_contents x) (objects db)"
      by (simp add: db_for_all_contents_def Some)
    from match_list [OF assms(1) pc(1) Cons.prems] show ?thesis
    proof
      assume "\<exists>d'. for_all_loop o_next (match_proc db nm) (Some d) (o_contents x) (objects db) = Some (False, Some d') \<and>
        matched db nm (zs @ place_contents db w) d'"
      then obtain d' where d': "?f = Some (False, Some d')" "matched db nm (zs @ place_contents db w) d'" using f by auto
      then show ?thesis using Cons.IH [OF d'(2)] Cons.prems(2) pc(2) v by auto
    next
      assume "(\<exists>d'. for_all_loop o_next (match_proc db nm) (Some d) (o_contents x) (objects db) = Some (True, Some d')) \<and>
        (\<exists>us vs. place_contents db w = us @ vs \<and>
          pick NOTHING (filter (\<lambda>c. list_ex (exact_name nm) (object_names db c)) (zs @ us)) = AMBIGUOUS)"
      then obtain d' us vs where d': "?f = Some (True, Some d')" "place_contents db w = us @ vs"
          "pick NOTHING (filter (\<lambda>c. list_ex (exact_name nm) (object_names db c)) (zs @ us)) = AMBIGUOUS" using f by auto
      have "\<forall>z \<in> set (zs @ us). 0 \<le> z" using Cons.prems(2) pc(2) d'(2) by auto
      then have "selected db nm ((zs @ us) @ vs @ concat (map (place_contents db) ws)) = AMBIGUOUS"
        by (rule selected_ambiguous [OF d'(3)])
      then show ?thesis using d'(1,2) v by simp
    qed
  qed
qed

lemma match_contents_eq:
  assumes "wf_db db" "objects db player = Some x"
  shows "match_contents db player nm =
    Some (selected db nm (place_contents db player @ place_contents db (o_location x)))"
proof -
  have "matched db nm [] \<lparr>m_exact = NOTHING, m_partial = FAILED_MATCH\<rparr>" by (simp add: matched_def pick_def)
  from match_places_eq [OF assms(1) this, of "[player, o_location x]"] show ?thesis
    using valid_Some [OF assms(1), of player] assms(2) by (simp add: match_contents_def db_object_location_def)
qed

lemma match_object_total:
  assumes "wf_db db"
  shows "\<exists>oid. match_object db player nm = Some oid"
proof (cases "objects db player")
  case None
  then have "\<not> valid db player" using valid_Some [OF assms] by simp
  then show ?thesis by (auto simp: match_object_def Let_def split: prod.splits)
next
  case (Some x)
  then show ?thesis using match_contents_eq [OF assms Some, of nm]
    by (auto simp: match_object_def db_object_location_def Let_def split: prod.splits)
qed

lemma match_object_empty: "match_object db player [] = Some NOTHING"
  by (simp add: match_object_def)

section \<open>How the words of a line are divided\<close>

definition starts_prep :: "string list \<Rightarrow> bool" where
  "starts_prep ws \<longleftrightarrow> list_ex (\<lambda>(j, al). words_match ws al) all_aliases"

text \<open>\<open>divided args prep ds ps rs\<close>: the words before the first preposition, the preposition, and the words
  after it. Where several aliases start at the same word the first of the table counts.\<close>

definition divided :: "string list \<Rightarrow> int \<Rightarrow> string list \<Rightarrow> string list \<Rightarrow> string list \<Rightarrow> bool" where
  "divided args prep ds ps rs \<longleftrightarrow>
     args = ds @ ps @ rs \<and> list_all (\<lambda>k. \<not> starts_prep (drop k args)) [0..<length ds] \<and>
     (if prep = PREP_NONE then ps = [] \<and> rs = []
      else case find (\<lambda>(j, al). words_match (ps @ rs) al) all_aliases of
             None \<Rightarrow> False
           | Some (j, al) \<Rightarrow> prep = int j \<and> map folded ps = map folded al)"

lemma words_match_prefix: "words_match argv al \<longleftrightarrow> map folded (take (length al) argv) = map folded al"
  by (induction argv al rule: words_match.induct) (auto simp: mystrcasecmp_eq_0)

lemma aliases_nonempty: "(j, al) \<in> set all_aliases \<Longrightarrow> al \<noteq> []"
proof -
  have "list_all (\<lambda>(j, al). al \<noteq> []) all_aliases" by code_simp
  then show "(j, al) \<in> set all_aliases \<Longrightarrow> al \<noteq> []" by (auto simp: list_all_iff)
qed

lemma find_Some_in: "find P xs = Some x \<Longrightarrow> x \<in> set xs \<and> P x"
  by (induction xs) (auto split: if_splits)

lemma find_prep_divided:
  "case find_prep_from False i argv of
     None \<Rightarrow> divided argv PREP_NONE argv [] []
   | Some (j, pstart, pend) \<Rightarrow> \<exists>n m. pstart = i + n \<and> pend = i + n + m - 1 \<and> 0 < m \<and> n + m \<le> length argv \<and>
       divided argv (int j) (take n argv) (take m (drop n argv)) (drop (n + m) argv)"
proof (induction argv arbitrary: i)
  case Nil
  then show ?case by (simp add: divided_def)
next
  case (Cons a argv)
  let ?f = "find (\<lambda>(j, al). words_match (a # argv) al) all_aliases"
  have at: "find (\<lambda>(j, al). alias_at False (a # argv) al) all_aliases = ?f" by (simp add: alias_at_def)
  show ?case
  proof (cases ?f)
    case (Some ja)
    obtain j al where ja: "ja = (j, al)" by (cases ja)
    have w: "words_match (a # argv) al" "al \<noteq> []"
      using find_Some_in [OF Some] aliases_nonempty ja by auto
    have e: "map folded (take (length al) (a # argv)) = map folded al" using w(1) by (simp only: words_match_prefix)
    then have len: "length al \<le> length (a # argv)" by (metis length_map length_take min.cobounded1)
    have "divided (a # argv) (int j) (take 0 (a # argv)) (take (length al) (drop 0 (a # argv))) (drop (0 + length al) (a # argv))"
      using Some ja e by (simp add: divided_def PREP_NONE_def)
    moreover have "find_prep_from False i (a # argv) = Some (j, i, i + length al - 1)" using Some ja at by simp
    ultimately show ?thesis using w(2) len by (simp only: option.case prod.case) (metis add_0 add_0_right length_greater_0_conv)
  next
    case None
    then have none: "\<not> starts_prep (a # argv)" by (auto simp: starts_prep_def list_ex_iff find_None_iff)
    have step: "divided (a # argv) p (a # ds) ps rs" if "divided argv p ds ps rs" for p ds ps rs
      using that none by (auto simp: divided_def list_all_iff less_Suc_eq_0_disj nth_Cons' drop_Cons' split: if_splits)
    have e: "find_prep_from False i (a # argv) = find_prep_from False (Suc i) argv" using None at by simp
    show ?thesis
    proof (cases "find_prep_from False (Suc i) argv")
      case None
      then show ?thesis using Cons [of "Suc i"] step e by simp
    next
      case (Some r)
      obtain j pstart pend where r: "r = (j, pstart, pend)" by (cases r)
      obtain n m where nm: "pstart = Suc i + n" "pend = Suc i + n + m - 1" "0 < m" "n + m \<le> length argv"
          "divided argv (int j) (take n argv) (take m (drop n argv)) (drop (n + m) argv)"
        using Cons [of "Suc i"] Some r by auto
      have "divided (a # argv) (int j) (take (Suc n) (a # argv)) (take m (drop (Suc n) (a # argv))) (drop (Suc n + m) (a # argv))"
        using step [OF nm(5)] by simp
      moreover have "pstart = i + Suc n" "pend = i + Suc n + m - 1" "Suc n + m \<le> length (a # argv)" using nm by simp_all
      ultimately show ?thesis using e Some r nm(3) by (simp only: option.case prod.case) blast
    qed
  qed
qed

lemma parse_words_divided:
  assumes wf: "wf_db db" and argv: "parse_into_words (fst (command_text (skip_blanks command))) = verb # args"
  shows "\<exists>c ds ps rs. parse_command db command user = Some (Some c) \<and> pc_verb c = verb \<and>
    pc_args c = map TYPE_STR args \<and> pc_argstr c = snd (command_text (skip_blanks command)) \<and>
    divided args (pc_prep c) ds ps rs \<and>
    pc_dobjstr c = build_string ds \<and> pc_prepstr c = build_string ps \<and> pc_iobjstr c = build_string rs \<and>
    match_object db user (build_string ds) = Some (pc_dobj c) \<and> match_object db user (build_string rs) = Some (pc_iobj c)"
proof -
  obtain buf argstr where ct: "command_text (skip_blanks command) = (buf, argstr)" by force
  have argv': "parse_into_words buf = verb # args" using argv ct by simp
  note tot = match_object_total [OF wf, of user]
  show ?thesis
  proof (cases "find_prep_from False 0 args")
    case None
    obtain dobj where d: "match_object db user (build_string args) = Some dobj" using tot by blast
    have fp: "db_find_prep False args = (PREP_NONE, 0, 0)" by (simp add: db_find_prep_def None)
    have div: "divided args PREP_NONE args [] []" using find_prep_divided [of args 0] None by simp
    have "parse_command db command user = Some (Some \<lparr>pc_verb = verb, pc_argstr = argstr, pc_args = map TYPE_STR args,
        pc_dobjstr = build_string args, pc_dobj = dobj, pc_prepstr = [], pc_prep = PREP_NONE, pc_iobjstr = [], pc_iobj = NOTHING\<rparr>)"
      using d match_object_empty [of db user]
      by (cases "args = []") (simp_all add: parse_command_def ct argv' fp Let_def)
    then show ?thesis using d div match_object_empty [of db user] ct by (intro exI [of _ "[]"] exI conjI) auto
  next
    case (Some r)
    obtain j pstart pend where r: "r = (j, pstart, pend)" by (cases r)
    obtain n m where nm: "pstart = n" "pend = n + m - 1" "0 < m" "n + m \<le> length args"
        "divided args (int j) (take n args) (take m (drop n args)) (drop (n + m) args)"
      using find_prep_divided [of args 0] Some r by auto
    obtain dobj iobj where o: "match_object db user (build_string (take n args)) = Some dobj"
        "match_object db user (build_string (drop (n + m) args)) = Some iobj" using tot by metis
    have ne: "args \<noteq> []" using nm(3,4) by auto
    have pj: "int j \<noteq> PREP_NONE" by (simp add: PREP_NONE_def)
    have fp: "db_find_prep False args = (int j, n, n + m - 1)" by (simp add: db_find_prep_def Some r nm(1,2))
    have ix: "Suc (n + m - 1) = n + m" "n + m - 1 + 1 - (n + 1) + 1 = m" using nm(3) by simp_all
    have dn: "n = 0 \<Longrightarrow> dobj = NOTHING" using o(1) match_object_empty [of db user] by simp
    have "parse_command db command user = Some (Some \<lparr>pc_verb = verb, pc_argstr = argstr, pc_args = map TYPE_STR args,
        pc_dobjstr = build_string (take n args), pc_dobj = dobj, pc_prepstr = build_string (take m (drop n args)), pc_prep = int j,
        pc_iobjstr = build_string (drop (n + m) args), pc_iobj = iobj\<rparr>)"
      using ne nm(3) pj o dn by (auto simp: parse_command_def ct argv' fp Let_def ix)
    then show ?thesis using nm(5) o ct by (intro exI conjI) auto
  qed
qed

section \<open>What is proved of commands\<close>

text \<open>C20: \<open>match_object\<close>, in a well-formed database with a valid player: the empty name gives \<^verbatim>\<open>NOTHING\<close>,
  \<^verbatim>\<open>#n\<close> the object of that number if it is valid, \<^verbatim>\<open>me\<close> and \<^verbatim>\<open>here\<close> (letter case ignored) the player and
  its location, and any other name selects among the contents of the player and of its location: the one
  object with that name or alias, else the one object of which it begins a name or alias;
  \<^verbatim>\<open>AMBIGUOUS\<close> if several, \<^verbatim>\<open>FAILED_MATCH\<close> if none.\<close>

theorem match_object_selects:
  assumes "wf_db db" "objects db player = Some x"
  shows "match_object db player nm =
    Some (if hd0 nm = NUL then NOTHING
      else if hd0 nm = CHR ''#''
      then (case strtoimax (cstr (tl nm)) of (r, p) \<Rightarrow>
              if hd0 p = NUL \<and> objects db r \<noteq> None then r else FAILED_MATCH)
      else if folded nm = folded ''me'' then player
      else if folded nm = folded ''here'' then o_location x
      else selected db nm (place_contents db player @ place_contents db (o_location x)))"
  using match_contents_eq [OF assms, of nm] valid_Some [OF assms(1)] assms(2)
  by (auto simp: match_object_def db_object_location_def mystrcasecmp_eq_0 Let_def split: prod.splits)

definition named_db :: db where
  "named_db = the (db_set_object_name (sample_at 7) 2 ''Red ball'')"

lemma named_db: "wf_db named_db" "map_option o_location (objects named_db 1) = Some (-1)"
proof -
  obtain x where x: "objects (sample_at 7) 2 = Some x" using sample_ids(5) by auto
  have "wf_db (sample_at 7)" using reachable_inv [OF sample_reachable] by (simp add: inv_db_def)
  from wf_set_name [OF this x, of "''Red ball''"] show "wf_db named_db" by (auto simp: named_db_def)
  show "map_option o_location (objects named_db 1) = Some (-1)" by code_simp
qed

theorem match_object_selects_witness:
  "match_object named_db 1 ''rEd'' = Some 2 \<and> match_object named_db 1 ''blue'' = Some FAILED_MATCH \<and>
   match_object named_db 1 ''Here'' = Some NOTHING"
proof -
  obtain x where x: "objects named_db 1 = Some x" "o_location x = -1" using named_db(2) by auto
  note m = match_object_selects [OF named_db(1) x(1)]
  have "selected named_db ''rEd'' (place_contents named_db 1 @ place_contents named_db (-1)) = 2"
    "selected named_db ''blue'' (place_contents named_db 1 @ place_contents named_db (-1)) = FAILED_MATCH" by code_simp+
  moreover have "folded ''rEd'' \<noteq> folded ''me''" "folded ''blue'' \<noteq> folded ''me''" "folded ''Here'' \<noteq> folded ''me''"
    "folded ''rEd'' \<noteq> folded ''here''" "folded ''blue'' \<noteq> folded ''here''" "folded ''Here'' = folded ''here''" by code_simp+
  ultimately show ?thesis using m [of "''rEd''"] m [of "''blue''"] m [of "''Here''"] x(2) by simp
qed

text \<open>C19: \<open>parse_command\<close>, in a well-formed database, always returns: nothing for a line without words; otherwise
  the first word is the verb, the other words are the arguments, and these are divided at the first
  place where a preposition starts: the words before it name the direct object, those after it the
  indirect object, and both are looked up by \<open>match_object\<close>; without a preposition all of them name
  the direct object.\<close>

theorem command_parts:
  assumes "wf_db db"
  shows "case parse_into_words (fst (command_text (skip_blanks command))) of
      [] \<Rightarrow> parse_command db command user = Some None
    | verb # args \<Rightarrow> \<exists>c ds ps rs. parse_command db command user = Some (Some c) \<and> pc_verb c = verb \<and>
        pc_args c = map TYPE_STR args \<and> pc_argstr c = snd (command_text (skip_blanks command)) \<and>
        divided args (pc_prep c) ds ps rs \<and>
        pc_dobjstr c = build_string ds \<and> pc_prepstr c = build_string ps \<and> pc_iobjstr c = build_string rs \<and>
        match_object db user (build_string ds) = Some (pc_dobj c) \<and>
        match_object db user (build_string rs) = Some (pc_iobj c)"
proof (cases "parse_into_words (fst (command_text (skip_blanks command)))")
  case Nil
  then show ?thesis by (auto simp: parse_command_def Let_def split: prod.split)
next
  case (Cons verb args)
  then show ?thesis using parse_words_divided [OF assms Cons, of user] by (simp only: list.case)
qed

theorem command_parts_witness:
  "\<exists>c ds ps rs. parse_command named_db ''  put red on top of here'' 1 = Some (Some c) \<and> pc_verb c = ''put'' \<and>
     pc_argstr c = ''red on top of here'' \<and>
     divided [''red'', ''on'', ''top'', ''of'', ''here''] (pc_prep c) ds ps rs \<and>
     match_object named_db 1 (build_string ds) = Some (pc_dobj c)"
proof -
  have "parse_into_words (fst (command_text (skip_blanks ''  put red on top of here''))) =
      [''put'', ''red'', ''on'', ''top'', ''of'', ''here'']"
    "snd (command_text (skip_blanks ''  put red on top of here'')) = ''red on top of here''" by code_simp+
  then show ?thesis
    using command_parts [OF named_db(1), where command = "''  put red on top of here''" and user = 1]
    by (simp only: list.case) blast
qed

text \<open>A lone \<^verbatim>\<open>#\<close> reads no digits and names object \<^verbatim>\<open>#0\<close>.\<close>

lemma lone_hash_is_object_0: "match_object db player ''#'' = Some (if valid db 0 then 0 else FAILED_MATCH)"
proof -
  have "strtoimax [] = (0, [])" by code_simp
  then show ?thesis by (simp add: match_object_def)
qed

end
