(* ===== verification/Machine.thy ===== *)
theory Machine
  imports Ast Decompile Numbers Verbs Db_Io
begin

text \<open>
  The virtual machine that runs compiled programs (\<^verbatim>\<open>execute.c\<close>, \<^verbatim>\<open>execute.h\<close>, \<^verbatim>\<open>eval_env.c\<close>,
  \<^verbatim>\<open>functions.c\<close>): activations, calling a verb and a built-in function, raising an error and unwinding the
  stacks. The opcodes are in the theory \<open>Execute\<close>.

  The machine is the record \<open>vm\<close>: the static variables of \<^verbatim>\<open>execute.c\<close> and the database. The activation
  stack and every run-time stack are lists with the top first. The locals \<^verbatim>\<open>bv\<close>, \<^verbatim>\<open>error_bv\<close> and \<^verbatim>\<open>rts\<close> of
  \<^verbatim>\<open>run\<close> are the fields of the running activation into which \<^verbatim>\<open>STORE_STATE_VARIABLES\<close> writes them: nothing
  reads those fields between two such points. A panic, an access outside a vector, an environment, a stack
  or a list, and an activation that does not exist are \<^term>\<open>None\<close>.

  The code that the machine calls but that is not modelled is the record \<open>host\<close>: the table of built-in
  functions, the properties of waifs, the limits of the task queue and the line numbers.
\<close>

section \<open>Programs, activations and the machine\<close>

record program =
  version :: DB_Version
  p_code :: Program
  num_var_names :: nat

text \<open>What the pointer \<^verbatim>\<open>bi_func_data\<close> refers to.\<close>

datatype bi_data = NULL | Override | Data Var | Cf_state nat bi_data

record activation =
  a_prog :: program
  rt_env :: "Var list"
  rt_stack :: "Var list"
  rt_stack_size :: nat
  a_pc :: nat
  error_pc :: nat
  bi_func_pc :: nat
  bi_func_id :: nat
  bi_func_data :: bi_data
  temp :: Var
  a_THIS :: Var
  a_this :: Objid
  a_player :: Objid
  a_progr :: Objid
  a_vloc :: Objid
  a_verb :: string
  a_verbname :: string
  a_debug :: bool

record forked_task =
  f_activation :: activation
  f_index :: nat
  f_after_seconds :: int
  f_id :: int

text \<open>The vector of the root activation is \<^term>\<open>None\<close> for \<^verbatim>\<open>MAIN_VECTOR\<close>.\<close>

record vm =
  vm_db :: db
  programs :: "nat \<Rightarrow> program"
  activ_stack :: "activation list"
  max_stack_size :: nat
  root_activ_vector :: "nat option"
  ticks_remaining :: int
  task_timed_out :: bool
  handler_info :: "(string \<times> Var) option"
  forked_tasks :: "forked_task list"

datatype outcome = OUTCOME_DONE | OUTCOME_ABORTED | OUTCOME_BLOCKED

text \<open>What a built-in function returns. The procedure that \<open>BI_SUSPEND\<close> names is a number.\<close>

datatype bi_package =
    BI_RETURN Var
  | BI_RAISE Var string Var
  | BI_CALL nat bi_data
  | BI_SUSPEND nat
  | BI_KILL

record bft_entry =
  f_name :: string
  f_minargs :: int
  f_maxargs :: int
  f_prototype :: "int list"
  f_func :: "Var \<Rightarrow> nat \<Rightarrow> bi_data \<Rightarrow> Objid \<Rightarrow> vm \<Rightarrow> (bi_package \<times> vm) option"
  f_protected :: bool

record host =
  h_fpu :: fpu
  h_same :: "string \<Rightarrow> verb_handle \<Rightarrow> bool"
  null_program :: nat
  bf_table :: "bft_entry list"
  find_line_number :: "program \<Rightarrow> nat option \<Rightarrow> nat \<Rightarrow> int"
  waif_get_prop :: "waif \<Rightarrow> string \<Rightarrow> Objid \<Rightarrow> vm \<Rightarrow> (error + Var) \<times> vm"
  waif_put_prop :: "waif \<Rightarrow> string \<Rightarrow> Var \<Rightarrow> Objid \<Rightarrow> vm \<Rightarrow> error \<times> vm"
  check_user_task_limit :: "Objid \<Rightarrow> vm \<Rightarrow> bool"
  new_task_id :: "vm \<Rightarrow> int"
  susp_proc :: "nat \<Rightarrow> vm \<Rightarrow> error \<times> vm"

abbreviation (input) zero :: Var where "zero \<equiv> TYPE_INT 0"

section \<open>Run-time environments\<close>

abbreviation (input) SLOT_NUM :: nat where "SLOT_NUM \<equiv> 0"
abbreviation (input) SLOT_OBJ :: nat where "SLOT_OBJ \<equiv> 1"
abbreviation (input) SLOT_STR :: nat where "SLOT_STR \<equiv> 2"
abbreviation (input) SLOT_LIST :: nat where "SLOT_LIST \<equiv> 3"
abbreviation (input) SLOT_ERR :: nat where "SLOT_ERR \<equiv> 4"
abbreviation (input) SLOT_PLAYER :: nat where "SLOT_PLAYER \<equiv> 5"
abbreviation (input) SLOT_THIS :: nat where "SLOT_THIS \<equiv> 6"
abbreviation (input) SLOT_CALLER :: nat where "SLOT_CALLER \<equiv> 7"
abbreviation (input) SLOT_VERB :: nat where "SLOT_VERB \<equiv> 8"
abbreviation (input) SLOT_ARGS :: nat where "SLOT_ARGS \<equiv> 9"
abbreviation (input) SLOT_ARGSTR :: nat where "SLOT_ARGSTR \<equiv> 10"
abbreviation (input) SLOT_DOBJ :: nat where "SLOT_DOBJ \<equiv> 11"
abbreviation (input) SLOT_DOBJSTR :: nat where "SLOT_DOBJSTR \<equiv> 12"
abbreviation (input) SLOT_PREPSTR :: nat where "SLOT_PREPSTR \<equiv> 13"
abbreviation (input) SLOT_IOBJ :: nat where "SLOT_IOBJ \<equiv> 14"
abbreviation (input) SLOT_IOBJSTR :: nat where "SLOT_IOBJSTR \<equiv> 15"
abbreviation (input) SLOT_INT :: nat where "SLOT_INT \<equiv> 16"
abbreviation (input) SLOT_FLOAT :: nat where "SLOT_FLOAT \<equiv> 17"

definition new_rt_env :: "nat \<Rightarrow> Var list" where
  "new_rt_env n = replicate n TYPE_NONE"

text \<open>The block behind an environment holds at least 32 values, so that the fixed slots can always be
  written; what lies behind the variables of the program is not part of the model.\<close>

definition set_rt_env_var :: "Var list \<Rightarrow> nat \<Rightarrow> Var \<Rightarrow> Var list" where
  "set_rt_env_var env i v = env[i := v]"

definition set_rt_env_obj :: "Var list \<Rightarrow> nat \<Rightarrow> Objid \<Rightarrow> Var list" where
  "set_rt_env_obj env i oid = env[i := TYPE_OBJ oid]"

definition set_rt_env_str :: "Var list \<Rightarrow> nat \<Rightarrow> string \<Rightarrow> Var list" where
  "set_rt_env_str env i s = env[i := TYPE_STR s]"

definition has_float :: "DB_Version \<Rightarrow> bool" where
  "has_float v \<longleftrightarrow> v = DBV_Float \<or> v = DBV_BFBugFixed"

definition fill_in_rt_consts :: "Var list \<Rightarrow> DB_Version \<Rightarrow> Var list" where
  "fill_in_rt_consts env v =
     (let env = env[SLOT_ERR := TYPE_INT 3, SLOT_NUM := TYPE_INT 0, SLOT_STR := TYPE_INT 2,
                    SLOT_OBJ := TYPE_INT 1, SLOT_LIST := TYPE_INT 4]
      in if has_float v then env[SLOT_INT := TYPE_INT 0, SLOT_FLOAT := TYPE_INT 9] else env)"

definition env_at :: "Var list \<Rightarrow> nat \<Rightarrow> Var option" where
  "env_at env i = (if i < length env then Some (env ! i) else None)"

section \<open>Run-time stacks\<close>

definition RT_STACK_QUICKSIZE :: nat where "RT_STACK_QUICKSIZE = 15"

definition alloc_rt_stack :: "activation \<Rightarrow> nat \<Rightarrow> activation" where
  "alloc_rt_stack a n = a\<lparr>rt_stack := [], rt_stack_size := n\<rparr>"

definition PUSH :: "Var \<Rightarrow> activation \<Rightarrow> activation option" where
  "PUSH v a =
     (if length (rt_stack a) < max (rt_stack_size a) RT_STACK_QUICKSIZE then Some (a\<lparr>rt_stack := v # rt_stack a\<rparr>) else None)"

definition POP :: "activation \<Rightarrow> (Var \<times> activation) option" where
  "POP a = (case rt_stack a of [] \<Rightarrow> None | v # vs \<Rightarrow> Some (v, a\<lparr>rt_stack := vs\<rparr>))"

text \<open>\<^verbatim>\<open>base_rt_stack[i]\<close>.\<close>

definition stack_at :: "nat \<Rightarrow> activation \<Rightarrow> Var option" where
  "stack_at i a = (if i < length (rt_stack a) then Some (rev (rt_stack a) ! i) else None)"

section \<open>Activations\<close>

definition RUN_ACTIV :: "vm \<Rightarrow> activation option" where
  "RUN_ACTIV m = (case activ_stack m of [] \<Rightarrow> None | a # _ \<Rightarrow> Some a)"

definition set_RUN_ACTIV :: "activation \<Rightarrow> vm \<Rightarrow> vm" where
  "set_RUN_ACTIV a m = m\<lparr>activ_stack := a # tl (activ_stack m)\<rparr>"

definition push_activation :: "activation \<Rightarrow> vm \<Rightarrow> vm option" where
  "push_activation a m =
     (if length (activ_stack m) < max_stack_size m then Some (m\<lparr>activ_stack := a # activ_stack m\<rparr>) else None)"

text \<open>The vector that an activation runs; \<open>root\<close> tells whether it is the bottom of the stack.\<close>

definition activ_vector :: "nat option \<Rightarrow> bool \<Rightarrow> activation \<Rightarrow> Bytecodes option" where
  "activ_vector root_vector root a =
     (let p = p_code (a_prog a)
      in case root_vector of
           None \<Rightarrow> Some (main_vector p)
         | Some i \<Rightarrow>
             if \<not> root then Some (main_vector p)
             else if i < length (fork_vectors p) then Some (fork_vectors p ! i) else None)"

text \<open>The slots that a called verb gets from its caller.\<close>

definition copied_slots :: "nat list" where
  "copied_slots = [SLOT_ARGSTR, SLOT_DOBJ, SLOT_DOBJSTR, SLOT_PREPSTR, SLOT_IOBJ, SLOT_IOBJSTR]"

fun ENV_COPY :: "Var list \<Rightarrow> nat list \<Rightarrow> Var list \<Rightarrow> Var list option" where
  "ENV_COPY from [] env = Some env"
| "ENV_COPY from (s # ss) env = do { v \<leftarrow> env_at from s; ENV_COPY from ss (set_rt_env_var env s v) }"

definition inherited_player :: "db \<Rightarrow> activation \<Rightarrow> Objid option" where
  "inherited_player db caller =
     do {
       v \<leftarrow> env_at (rt_env caller) SLOT_PLAYER;
       Some (case v of TYPE_OBJ p \<Rightarrow> if is_wizard db (a_progr caller) then p else a_player caller | _ \<Rightarrow> a_player caller)
     }"

abbreviation (input) WAIF_VERB_PREFIX :: char where "WAIF_VERB_PREFIX \<equiv> CHR '':''"

text \<open>The environment of a called verb.\<close>

definition call_env :: "db \<Rightarrow> activation \<Rightarrow> program \<Rightarrow> Var \<Rightarrow> string \<Rightarrow> Var list \<Rightarrow> Var list option" where
  "call_env db caller prog THIS vname args =
     do {
       let env = fill_in_rt_consts (new_rt_env (num_var_names prog)) (version prog);
       let env = set_rt_env_var (set_rt_env_var env SLOT_THIS THIS) SLOT_CALLER (a_THIS caller);
       env \<leftarrow> ENV_COPY (rt_env caller) copied_slots env;
       player \<leftarrow> inherited_player db caller;
       let env = set_rt_env_obj env SLOT_PLAYER player;
       let env = set_rt_env_str env SLOT_VERB (if hd0 vname = WAIF_VERB_PREFIX then tl vname else vname);
       Some (set_rt_env_var env SLOT_ARGS (TYPE_LIST args))
     }"

text \<open>\<open>call_verb2\<close>: the error, or the machine with the activation of the verb on top. Looking the verb up
  changes the cache of the database in either case.\<close>

definition call_verb2 :: "host \<Rightarrow> Objid \<Rightarrow> string \<Rightarrow> Var \<Rightarrow> Var list \<Rightarrow> bool \<Rightarrow> vm \<Rightarrow> (error \<times> vm) option" where
  "call_verb2 H this vname THIS args do_pass m =
     do {
       caller \<leftarrow> RUN_ACTIV m;
       target \<leftarrow> (if do_pass
                then if \<not> valid (vm_db m) (a_vloc caller) then Some NOTHING else db_object_parent (vm_db m) (a_vloc caller)
                else Some this);
       if \<not> valid (vm_db m) target then Some (E_INVIND, m)
       else do {
         (h, db) \<leftarrow> db_find_callable_verb (h_same H vname) (vm_db m) target vname;
         let m = m\<lparr>vm_db := db\<rparr>;
         if h = None then Some (E_VERBNF, m)
         else if length (activ_stack m) \<ge> max_stack_size m then Some (E_MAXREC, m)
         else do {
           address \<leftarrow> db_verb_program (null_program H) db h;
           let prog = programs m address;
           owner \<leftarrow> db_verb_owner db h;
           loc \<leftarrow> db_verb_definer h;
           names \<leftarrow> db_verb_names db h;
           flags \<leftarrow> db_verb_flags db h;
           env \<leftarrow> call_env db caller prog THIS vname args;
           player \<leftarrow> inherited_player db caller;
           m \<leftarrow> push_activation
             \<lparr>a_prog = prog, rt_env = env, rt_stack = [], rt_stack_size = bc_max_stack (main_vector (p_code prog)),
              a_pc = 0, error_pc = 0, bi_func_pc = 0, bi_func_id = 0, bi_func_data = NULL, temp = TYPE_NONE,
              a_THIS = THIS, a_this = this, a_player = player, a_progr = owner, a_vloc = loc, a_verb = vname,
              a_verbname = names, a_debug = (flags AND VF_DEBUG \<noteq> 0)\<rparr> m;
           Some (E_NONE, m)
         }
       }
     }"

definition call_verb :: "host \<Rightarrow> Objid \<Rightarrow> string \<Rightarrow> Var list \<Rightarrow> bool \<Rightarrow> vm \<Rightarrow> (error \<times> vm) option" where
  "call_verb H this vname args do_pass m = call_verb2 H this vname (TYPE_OBJ this) args do_pass m"

section \<open>Built-in functions\<close>

definition make_raise_pack :: "error \<Rightarrow> string \<Rightarrow> Var \<Rightarrow> bi_package" where
  "make_raise_pack e msg v = BI_RAISE (TYPE_ERR e) msg v"

definition error_pack :: "error \<Rightarrow> bi_package" where
  "error_pack e = make_raise_pack e (unparse_error e) zero"

definition tail_call_pack :: bi_package where
  "tail_call_pack = BI_CALL 0 NULL"

definition name_func_by_num :: "host \<Rightarrow> nat \<Rightarrow> string" where
  "name_func_by_num H n = (if n \<ge> length (bf_table H) then ''no such function'' else f_name (bf_table H ! n))"

definition TYPE_NUMERIC :: int where "TYPE_NUMERIC = - 2"

fun arg_types_ok :: "int list \<Rightarrow> Var list \<Rightarrow> nat \<Rightarrow> bool" where
  "arg_types_ok (p # ps) (v # vs) (Suc n) \<longleftrightarrow>
     (p = TYPE_ANY \<or> p = TYPE_NUMERIC \<and> (var_type v = 0 \<or> var_type v = 9) \<or> p = int (var_type v)) \<and> arg_types_ok ps vs n"
| "arg_types_ok _ _ _ \<longleftrightarrow> True"

text \<open>\<open>call_bi_func\<close>. On the first entry the arguments are a list; a protected function is replaced by the
  verb \<^verbatim>\<open>#0:bf_FUNCNAME\<close> if there is one. \<open>caller\<close> is the object \<^verbatim>\<open>this\<close> of the running activation.\<close>

definition call_bi_func :: "host \<Rightarrow> nat \<Rightarrow> Var \<Rightarrow> nat \<Rightarrow> Objid \<Rightarrow> bi_data \<Rightarrow> vm \<Rightarrow> (bi_package \<times> vm) option" where
  "call_bi_func H n arglist func_pc progr vdata m =
     (if n \<ge> length (bf_table H) then Some (BI_RETURN zero, m)
      else let f = bf_table H ! n in
      if func_pc = 1
      then (case arglist of
              TYPE_LIST args \<Rightarrow>
                do {
                  a \<leftarrow> RUN_ACTIV m;
                  (e, m) \<leftarrow> (if a_this a \<noteq> SYSTEM_OBJECT \<and> f_protected f
                           then call_verb2 H SYSTEM_OBJECT (''bf_'' @ f_name f) (TYPE_OBJ SYSTEM_OBJECT) args False m
                           else Some (E_PERM, m));
                  if e = E_NONE then Some (tail_call_pack, m)
                  else if a_this a \<noteq> SYSTEM_OBJECT \<and> f_protected f \<and> (e = E_MAXREC \<or> \<not> is_wizard (vm_db m) progr)
                  then Some (error_pack (if e = E_MAXREC then e else E_PERM), m)
                  else if len args < f_minargs f \<or> f_maxargs f \<noteq> - 1 \<and> len args > f_maxargs f then Some (error_pack E_ARGS, m)
                  else if \<not> arg_types_ok (f_prototype f) args (nat (if f_maxargs f = - 1 then f_minargs f else len args))
                  then Some (error_pack E_TYPE, m)
                  else f_func f arglist func_pc vdata progr m
                }
            | _ \<Rightarrow> None)
      else if func_pc = 2 \<and> vdata = Override then Some (BI_RETURN arglist, m)
      else f_func f arglist func_pc vdata progr m)"

definition suspend_task :: "host \<Rightarrow> nat \<Rightarrow> vm \<Rightarrow> error \<times> vm" where
  "suspend_task H proc m = susp_proc H proc m"

section \<open>Tracebacks\<close>

text \<open>One line of \<open>print_error_backtrace\<close>, or two when the activation was called by a built-in function.\<close>

definition backtrace_lines :: "host \<Rightarrow> nat option \<Rightarrow> string \<Rightarrow> bool \<Rightarrow> bool \<Rightarrow> activation \<Rightarrow> string list" where
  "backtrace_lines H root_vector msg first root a =
     ((if first then '''' else ''... called from '') @ ''#'' @ printf_d (a_vloc a) @ '':'' @ a_verbname a
      @ (if a_vloc a \<noteq> a_this a then '' (this == #'' @ printf_d (a_this a) @ '')'' else '''')
      @ '', line '' @ printf_d (find_line_number H (a_prog a) (if root then root_vector else None) (error_pc a))
      @ (if first then '':  '' @ msg else ''''))
     # (if \<not> root \<and> bi_func_pc a \<noteq> 0
        then [''... called from built-in function '' @ name_func_by_num H (bi_func_id a) @ ''()''] else [])"

fun print_error_backtrace :: "host \<Rightarrow> nat option \<Rightarrow> string \<Rightarrow> bool \<Rightarrow> activation list \<Rightarrow> string list" where
  "print_error_backtrace H root_vector msg first [] = [''(End of traceback)'']"
| "print_error_backtrace H root_vector msg first (a # as) =
     backtrace_lines H root_vector msg first (as = []) a @ print_error_backtrace H root_vector msg False as"

definition error_backtrace_list :: "host \<Rightarrow> string \<Rightarrow> vm \<Rightarrow> Var" where
  "error_backtrace_list H msg m =
     TYPE_LIST (map TYPE_STR (print_error_backtrace H (root_activ_vector m) msg True (activ_stack m)))"

text \<open>\<open>make_stack_list\<close> over the activations from the top down to \<open>start\<close>; \<open>start\<close> and \<open>root\<close> are told by the
  number of activations that follow.\<close>

definition stack_entry :: "host \<Rightarrow> nat option \<Rightarrow> bool \<Rightarrow> bool \<Rightarrow> activation \<Rightarrow> Var" where
  "stack_entry H root_vector root line_numbers_too a =
     TYPE_LIST ([a_THIS a, TYPE_STR (a_verb a), TYPE_OBJ (a_progr a), TYPE_OBJ (a_vloc a), TYPE_OBJ (a_player a)]
       @ (if line_numbers_too
          then [TYPE_INT (find_line_number H (a_prog a) (if root then root_vector else None) (error_pc a))] else []))"

definition builtin_entry :: "host \<Rightarrow> bool \<Rightarrow> activation \<Rightarrow> Var" where
  "builtin_entry H line_numbers_too a =
     TYPE_LIST ([TYPE_OBJ NOTHING, TYPE_STR (name_func_by_num H (bi_func_id a)), TYPE_OBJ NOTHING, TYPE_OBJ NOTHING,
       TYPE_OBJ (a_player a)] @ (if line_numbers_too then [TYPE_INT (int (bi_func_pc a))] else []))"

fun make_stack_list :: "host \<Rightarrow> nat option \<Rightarrow> nat \<Rightarrow> bool \<Rightarrow> bool \<Rightarrow> activation list \<Rightarrow> Var list" where
  "make_stack_list H root_vector start include_end line_numbers_too [] = []"
| "make_stack_list H root_vector start include_end line_numbers_too (a # as) =
     (if length as < start then []
      else (if include_end then [stack_entry H root_vector (as = []) line_numbers_too a] else [])
           @ (if length as \<noteq> start \<and> bi_func_pc a \<noteq> 0 then [builtin_entry H line_numbers_too a] else [])
           @ make_stack_list H root_vector start True line_numbers_too as)"

end
