(* ===== verification/Unwind.thy ===== *)
theory Unwind
  imports Machine
begin

text \<open>
  Raising errors, leaving loops, returning and aborting: the function \<^verbatim>\<open>unwind_stack\<close> of \<^verbatim>\<open>execute.c\<close>
  and those around it. Every way of leaving code early goes through it, so that \<^verbatim>\<open>finally\<close> handlers run.
\<close>

section \<open>Unwinding one run-time stack\<close>

datatype Finally_Reason = FIN_FALL_THRU | FIN_RAISE | FIN_UNCAUGHT | FIN_RETURN | FIN_ABORT | FIN_EXIT

fun reason_number :: "Finally_Reason \<Rightarrow> Num" where
  "reason_number FIN_FALL_THRU = 0"
| "reason_number FIN_RAISE = 1"
| "reason_number FIN_UNCAUGHT = 2"
| "reason_number FIN_RETURN = 3"
| "reason_number FIN_ABORT = 4"
| "reason_number FIN_EXIT = 5"

text \<open>The handlers below a marker, lowest first: the label of the first whose codes match. A handler for
  any code has a number in place of the list.\<close>

fun find_catch :: "Var \<Rightarrow> Var list \<Rightarrow> Var option option" where
  "find_catch code (codes # label # rest) =
     do {
       hit \<leftarrow> (case codes of TYPE_LIST xs \<Rightarrow> map_option (\<lambda>i. i \<noteq> 0) (ismember code xs False) | _ \<Rightarrow> Some True);
       if hit then Some (Some label) else find_catch code rest
     }"
| "find_catch code _ = Some None"

text \<open>The loop over the run-time stack, down to the depth \<open>goal\<close>: the result tells whether a handler was
  found, whose address is then the program counter.\<close>

function unwind_rt :: "Finally_Reason \<Rightarrow> Var \<Rightarrow> Var \<Rightarrow> nat \<Rightarrow> activation \<Rightarrow> (bool \<times> activation) option" where
  "unwind_rt why value code goal a =
     (if length (rt_stack a) \<le> goal then Some (False, a)
      else let v = hd (rt_stack a); a = a\<lparr>rt_stack := tl (rt_stack a)\<rparr>
           in case v of
                TYPE_FINALLY n \<Rightarrow>
                  if why \<noteq> FIN_ABORT
                  then do {
                    a \<leftarrow> PUSH (TYPE_INT (reason_number why)) (a\<lparr>a_pc := nat n\<rparr>);
                    a \<leftarrow> PUSH value a;
                    Some (True, a)
                  }
                  else unwind_rt why value code goal a
              | TYPE_CATCH n \<Rightarrow>
                  if why = FIN_RAISE
                  then if n < 0 \<or> length (rt_stack a) < 2 * nat n then None
                       else do {
                         found \<leftarrow> find_catch code (rev (take (2 * nat n) (rt_stack a)));
                         let a = a\<lparr>rt_stack := drop (2 * nat n) (rt_stack a)\<rparr>;
                         (case found of
                            Some (TYPE_INT p) \<Rightarrow> do { a \<leftarrow> PUSH value (a\<lparr>a_pc := nat p\<rparr>); Some (True, a) }
                          | Some _ \<Rightarrow> None
                          | None \<Rightarrow> unwind_rt why value code goal a)
                       }
                  else unwind_rt why value code goal a
              | _ \<Rightarrow> unwind_rt why value code goal a)"
  by pat_completeness auto
termination by (relation "measure (\<lambda>(why, value, code, goal, a). length (rt_stack a))") auto

declare unwind_rt.simps [simp del]

section \<open>Which activation handles an error\<close>

text \<open>The scan of one run-time stack, top first.\<close>

function handles :: "Var \<Rightarrow> Var list \<Rightarrow> bool option" where
  "handles code [] = Some False"
| "handles code (v # vs) =
     (case v of
        TYPE_CATCH n \<Rightarrow>
          if n < 0 \<or> length vs < 2 * nat n then None
          else do {
            found \<leftarrow> find_catch code (rev (take (2 * nat n) vs));
            if found \<noteq> None then Some True else handles code (drop (2 * nat n) vs)
          }
      | _ \<Rightarrow> handles code vs)"
  by pat_completeness auto
termination by (relation "measure (\<lambda>(code, vs). length vs)") auto

text \<open>The index of the activation nearest to the top that has a handler.\<close>

fun find_handler_activ :: "Var \<Rightarrow> activation list \<Rightarrow> nat option option" where
  "find_handler_activ code [] = Some None"
| "find_handler_activ code (a # as) =
     do {
       h \<leftarrow> handles code (rt_stack a);
       if h then Some (Some (length as)) else find_handler_activ code as
     }"

text \<open>The part of \<open>raise_error\<close> before it calls \<open>unwind_stack\<close>.\<close>

definition raise_info :: "host \<Rightarrow> Var \<Rightarrow> string \<Rightarrow> Var \<Rightarrow> vm \<Rightarrow> (Finally_Reason \<times> Var \<times> vm) option" where
  "raise_info H code msg v m =
     do {
       handler_activ \<leftarrow> find_handler_activ code (activ_stack m);
       let stack = (\<lambda>start. TYPE_LIST (make_stack_list H (root_activ_vector m) start True True (activ_stack m)));
       (case handler_activ of
          Some i \<Rightarrow> Some (FIN_RAISE, TYPE_LIST [code, TYPE_STR msg, v, stack i], m)
        | None \<Rightarrow>
            let value = TYPE_LIST [code, TYPE_STR msg, v, stack 0, error_backtrace_list H msg m]
            in Some (FIN_UNCAUGHT, zero, m\<lparr>handler_info := Some (''handle_uncaught_error'', value)\<rparr>))
     }"

section \<open>Unwinding the activations\<close>

text \<open>A built-in function whose call was cut short gets zero as what the verb returned, and the calls it
  makes then are not run. Its programmer is that of the activation that was on top when it is called.\<close>

partial_function (option) short_circuit :: "host \<Rightarrow> nat \<Rightarrow> nat \<Rightarrow> Objid \<Rightarrow> bi_data \<Rightarrow> vm \<Rightarrow> vm option" where
  "short_circuit H n func_pc progr data m =
     do {
       (p, m) \<leftarrow> call_bi_func H n zero func_pc progr data m;
       (case p of
          BI_CALL func_pc data \<Rightarrow>
            (case activ_stack m of
               [] \<Rightarrow> None
             | a # as \<Rightarrow>
                 let m = m\<lparr>activ_stack := as\<rparr>
                 in if func_pc \<noteq> 0 then short_circuit H n func_pc (a_progr a) data m else Some m)
        | _ \<Rightarrow> Some m)
     }"

declare short_circuit.simps [code]

text \<open>The machine goes on, or the whole stack was unwound and the task stops.\<close>

datatype unwound = Resumed vm | Unwound outcome vm

definition push_top :: "Var \<Rightarrow> vm \<Rightarrow> unwound option" where
  "push_top v m = do { a \<leftarrow> RUN_ACTIV m; a \<leftarrow> PUSH v a; Some (Resumed (set_RUN_ACTIV a m)) }"

text \<open>The members that \<open>unwind_stack\<close> reads of its value.\<close>

definition raised_code :: "Finally_Reason \<Rightarrow> Var \<Rightarrow> Var option" where
  "raised_code why value =
     (if why = FIN_RAISE then (case value of TYPE_LIST (c # _) \<Rightarrow> Some c | _ \<Rightarrow> None) else Some zero)"

definition exit_depth :: "Finally_Reason \<Rightarrow> Var \<Rightarrow> nat option" where
  "exit_depth why value =
     (if why = FIN_EXIT then (case value of TYPE_LIST (TYPE_INT n # _) \<Rightarrow> Some (nat n) | _ \<Rightarrow> None) else Some 0)"

definition exit_label :: "Var \<Rightarrow> nat option" where
  "exit_label value = (case value of TYPE_LIST (_ # TYPE_INT l # _) \<Rightarrow> Some (nat l) | _ \<Rightarrow> None)"

definition stop_outcome :: "Finally_Reason \<Rightarrow> outcome" where
  "stop_outcome why = (if why = FIN_RETURN then OUTCOME_DONE else OUTCOME_ABORTED)"

partial_function (option) unwind_stack :: "host \<Rightarrow> Finally_Reason \<Rightarrow> Var \<Rightarrow> vm \<Rightarrow> unwound option" where
  "unwind_stack H why value m =
     do {
       code \<leftarrow> raised_code why value;
       goal \<leftarrow> exit_depth why value;
       a \<leftarrow> RUN_ACTIV m;
       (found, a) \<leftarrow> unwind_rt why value code goal a;
       let callers = tl (activ_stack m);
       let m = set_RUN_ACTIV a m;
       if found then Some (Resumed m)
       else if why = FIN_EXIT
       then do { l \<leftarrow> exit_label value; Some (Resumed (set_RUN_ACTIV (a\<lparr>a_pc := l\<rparr>) m)) }
       else if callers = [] then Some (Unwound (stop_outcome why) m)
       else let m = m\<lparr>activ_stack := callers\<rparr> in
       if bi_func_pc a \<noteq> 0
       then if why = FIN_RETURN
            then do {
              (p, m) \<leftarrow> call_bi_func H (bi_func_id a) value (bi_func_pc a) (a_progr (hd callers)) (bi_func_data a) m;
              b \<leftarrow> RUN_ACTIV m;
              (case p of
                 BI_RETURN v \<Rightarrow> push_top v m
               | BI_RAISE code msg v \<Rightarrow>
                   if a_debug b
                   then do { (why, value, m) \<leftarrow> raise_info H code msg v m; unwind_stack H why value m }
                   else push_top code m
               | BI_SUSPEND proc \<Rightarrow>
                   let (e, m) = suspend_task H proc m
                   in if e = E_NONE then Some (Unwound OUTCOME_BLOCKED m)
                      else unwind_stack H FIN_RAISE (TYPE_ERR e) m
               | BI_CALL func_pc data \<Rightarrow>
                   Some (Resumed (set_RUN_ACTIV (b\<lparr>bi_func_id := bi_func_id a, bi_func_pc := func_pc, bi_func_data := data\<rparr>) m))
               | BI_KILL \<Rightarrow> unwind_stack H FIN_ABORT zero m)
            }
            else do {
              m \<leftarrow> short_circuit H (bi_func_id a) (bi_func_pc a) (a_progr a) (bi_func_data a) m;
              unwind_stack H why value m
            }
       else if why = FIN_RETURN then push_top value m
       else unwind_stack H why value m
     }"

declare unwind_stack.simps [code]

definition raise_error :: "host \<Rightarrow> Var \<Rightarrow> string \<Rightarrow> Var \<Rightarrow> vm \<Rightarrow> unwound option" where
  "raise_error H code msg v m = do { (why, value, m) \<leftarrow> raise_info H code msg v m; unwind_stack H why value m }"

definition abort_task :: "host \<Rightarrow> bool \<Rightarrow> vm \<Rightarrow> unwound option" where
  "abort_task H is_ticks m =
     (let msg = (if is_ticks then ''Task ran out of ticks'' else ''Task ran out of seconds'');
          value = TYPE_LIST [TYPE_STR (if is_ticks then ''ticks'' else ''seconds''),
            TYPE_LIST (make_stack_list H (root_activ_vector m) 0 True True (activ_stack m)), error_backtrace_list H msg m]
      in unwind_stack H FIN_ABORT zero (m\<lparr>handler_info := Some (''handle_task_timeout'', value)\<rparr>))"

end
