(* ===== verification/Execute.thy ===== *)
theory Execute
  imports Unwind
begin

text \<open>
  The opcodes (\<^verbatim>\<open>run\<close> in \<^verbatim>\<open>execute.c\<close>, built with \<^verbatim>\<open>WAIF_DICT\<close> and \<^verbatim>\<open>IGNORE_PROP_PROTECTED\<close> as
  \<^verbatim>\<open>options.h\<close> says). An opcode that works on the running activation alone is a function on it. Where C
  leaves the behaviour undefined, here a right shift by 0 bits and a read outside a list, there is no result.
\<close>

section \<open>Values\<close>

definition is_number :: "Var \<Rightarrow> bool" where
  "is_number v = (case v of TYPE_INT _ \<Rightarrow> True | TYPE_FLOAT _ \<Rightarrow> True | _ \<Rightarrow> False)"

text \<open>An error in a value is pushed by \<^verbatim>\<open>PUSH_ERROR\<close>.\<close>

definition checked :: "Var \<Rightarrow> error + Var" where
  "checked v = (case v of TYPE_ERR e \<Rightarrow> Inl e | _ \<Rightarrow> Inr v)"

definition compare_result :: "nat \<Rightarrow> int \<Rightarrow> Var" where
  "compare_result op comparison =
     TYPE_INT (of_bool (if op = OP_LT then comparison < 0 else if op = OP_LE then comparison \<le> 0
                        else if op = OP_GT then comparison > 0 else comparison \<ge> 0))"

definition compare_values :: "nat \<Rightarrow> Var \<Rightarrow> Var \<Rightarrow> (error + Var) option" where
  "compare_values op lhs rhs =
     (if is_number lhs \<and> is_number rhs
      then map_option (\<lambda>ans. case ans of TYPE_INT c \<Rightarrow> Inr (compare_result op c) | TYPE_ERR e \<Rightarrow> Inl e | _ \<Rightarrow> Inl E_TYPE)
             (compare_numbers lhs rhs)
      else Some (case (lhs, rhs) of
                   (TYPE_OBJ a, TYPE_OBJ b) \<Rightarrow> Inr (compare_result op (compare_integers a b))
                 | (TYPE_ERR a, TYPE_ERR b) \<Rightarrow> Inr (compare_result op (error_number a - error_number b))
                 | (TYPE_STR a, TYPE_STR b) \<Rightarrow> Inr (compare_result op (mystrcasecmp a b))
                 | (_, TYPE_LIST _) \<Rightarrow> Inl E_TYPE
                 | _ \<Rightarrow> if var_type lhs \<noteq> var_type rhs then Inl E_TYPE else Inr (compare_result op 0)))"

definition arith_values :: "host \<Rightarrow> nat \<Rightarrow> Var \<Rightarrow> Var \<Rightarrow> (error + Var) option" where
  "arith_values H op lhs rhs =
     (if is_number lhs \<and> is_number rhs
      then map_option checked
             (if op = OP_MULT then do_multiply (h_fpu H) lhs rhs
              else if op = OP_MINUS then do_subtract (h_fpu H) lhs rhs
              else if op = OP_DIV then do_divide (h_fpu H) lhs rhs
              else do_modulus (h_fpu H) lhs rhs)
      else Some (Inl E_TYPE))"

definition add_values :: "host \<Rightarrow> Var \<Rightarrow> Var \<Rightarrow> (error + Var) option" where
  "add_values H lhs rhs =
     (if is_number lhs \<and> is_number rhs then map_option checked (do_add (h_fpu H) lhs rhs)
      else Some (case (lhs, rhs) of (TYPE_STR a, TYPE_STR b) \<Rightarrow> Inr (TYPE_STR (a @ b)) | _ \<Rightarrow> Inl E_TYPE))"

definition equal_values :: "nat \<Rightarrow> Var \<Rightarrow> Var \<Rightarrow> (error + Var) option" where
  "equal_values op lhs rhs =
     map_option (\<lambda>b. Inr (TYPE_INT (of_bool (if op = OP_EQ then b else \<not> b)))) (equality rhs lhs False)"

definition in_values :: "Var \<Rightarrow> Var \<Rightarrow> (error + Var) option" where
  "in_values lhs rhs =
     (case rhs of TYPE_LIST xs \<Rightarrow> map_option (\<lambda>i. Inr (TYPE_INT i)) (ismember lhs xs False) | _ \<Rightarrow> Some (Inl E_TYPE))"

text \<open>The shift macros; \<^verbatim>\<open>HIGHONES(0)\<close> shifts by the width of the type.\<close>

definition HIGHONES :: "nat \<Rightarrow> int" where
  "HIGHONES c = wrap64 ((2 ^ 64 - 1) * 2 ^ (64 - c))"

definition LOGSHIFTR :: "int \<Rightarrow> nat \<Rightarrow> int" where
  "LOGSHIFTR a b = wrap64 (a mod 2 ^ 64 div 2 ^ b) AND NOT (HIGHONES b)"

definition SHIFTR :: "int \<Rightarrow> nat \<Rightarrow> int" where
  "SHIFTR a b = LOGSHIFTR a b XOR (if a < 0 then HIGHONES b else 0)"

definition shift_values :: "nat \<Rightarrow> Var \<Rightarrow> Var \<Rightarrow> (error + Var) option" where
  "shift_values eop lhs rhs =
     (case (lhs, rhs) of
        (TYPE_INT a, TYPE_INT b) \<Rightarrow>
          if b < 0 \<or> b \<ge> 64 then Some (Inl E_INVARG)
          else if eop = EOP_SHL then Some (Inr (TYPE_INT (wrap64 (a * 2 ^ nat b))))
          else if b = 0 then None
          else Some (Inr (TYPE_INT (if eop = EOP_SHR then SHIFTR a (nat b) else LOGSHIFTR a (nat b))))
      | _ \<Rightarrow> Some (Inl E_TYPE))"

definition bit_values :: "nat \<Rightarrow> Var \<Rightarrow> Var \<Rightarrow> (error + Var) option" where
  "bit_values eop lhs rhs =
     Some (case (lhs, rhs) of
             (TYPE_INT a, TYPE_INT b) \<Rightarrow>
               Inr (TYPE_INT (if eop = EOP_BITAND then a AND b else if eop = EOP_BITXOR then a XOR b else a OR b))
           | _ \<Rightarrow> Inl E_TYPE)"

definition unary_minus :: "Var \<Rightarrow> error + Var" where
  "unary_minus v = (case v of TYPE_INT n \<Rightarrow> Inr (TYPE_INT (wrap64 (- n))) | TYPE_FLOAT d \<Rightarrow> Inr (TYPE_FLOAT (dbl_neg d)) | _ \<Rightarrow> Inl E_TYPE)"

definition complement :: "Var \<Rightarrow> error + Var" where
  "complement v = (case v of TYPE_INT n \<Rightarrow> Inr (TYPE_INT (NOT n)) | _ \<Rightarrow> Inl E_TYPE)"

text \<open>Indexing; waifs are treated by the opcodes.\<close>

definition ref_value :: "Var \<Rightarrow> Var \<Rightarrow> error + Var" where
  "ref_value list index =
     (case (list, index) of
        (TYPE_LIST xs, TYPE_INT i) \<Rightarrow> if i \<le> 0 \<or> i > len xs then Inl E_RANGE else Inr (elt xs i)
      | (TYPE_STR s, TYPE_INT i) \<Rightarrow> if i \<le> 0 \<or> i > int (strlen_utf s) then Inl E_RANGE else Inr (TYPE_STR (strget s i))
      | _ \<Rightarrow> Inl E_TYPE)"

definition push_ref_value :: "Var \<Rightarrow> Var \<Rightarrow> error + Var" where
  "push_ref_value list index =
     (case (list, index) of
        (TYPE_LIST xs, TYPE_INT i) \<Rightarrow> if i \<le> 0 \<or> i > len xs then Inl E_RANGE else Inr (elt xs i)
      | _ \<Rightarrow> Inl E_TYPE)"

definition indexset_value :: "Var \<Rightarrow> Var \<Rightarrow> Var \<Rightarrow> error + Var" where
  "indexset_value list index v =
     (case (list, index) of
        (TYPE_LIST xs, TYPE_INT i) \<Rightarrow> if i < 1 \<or> i > len xs then Inl E_RANGE else Inr (TYPE_LIST (listset xs v i))
      | (TYPE_STR s, TYPE_INT i) \<Rightarrow>
          (case v of
             TYPE_STR t \<Rightarrow>
               if i < 1 \<or> i > int (strlen_utf s) then Inl E_RANGE
               else if strlen_utf t \<noteq> 1 then Inl E_INVARG
               else Inr (TYPE_STR (strrangeset s i i t))
           | _ \<Rightarrow> Inl E_TYPE)
      | _ \<Rightarrow> Inl E_TYPE)"

text \<open>A range that begins behind its end is not checked, and \<open>sublist\<close> and \<open>substr\<close> get its bounds cut to 32
  bits, where they may be in order: then \<open>sublist\<close> reads outside the list.\<close>

definition range_ref_value :: "Var \<Rightarrow> Var \<Rightarrow> Var \<Rightarrow> (error + Var) option" where
  "range_ref_value base from to =
     (case (from, to) of
        (TYPE_INT i, TYPE_INT j) \<Rightarrow>
          (let bad = (\<lambda>n. i \<le> j \<and> (i \<le> 0 \<or> i > n \<or> j \<le> 0 \<or> j > n));
               lower = wrap32 i; upper = wrap32 j
           in case base of
                TYPE_STR s \<Rightarrow> Some (if bad (int (strlen_utf s)) then Inl E_RANGE else Inr (TYPE_STR (substr s lower upper)))
              | TYPE_LIST xs \<Rightarrow>
                  if bad (len xs) then Some (Inl E_RANGE)
                  else if lower \<le> upper \<and> (lower < 1 \<or> upper > len xs) then None
                  else Some (Inr (TYPE_LIST (sublist xs lower upper)))
              | _ \<Rightarrow> Some (Inl E_TYPE))
      | _ \<Rightarrow> Some (Inl E_TYPE))"

definition rangeset_check :: "int \<Rightarrow> int \<Rightarrow> int \<Rightarrow> bool" where
  "rangeset_check end_pos from to \<longleftrightarrow> from > end_pos + 1 \<or> to < 0"

definition rangeset_value :: "Var \<Rightarrow> Var \<Rightarrow> Var \<Rightarrow> Var \<Rightarrow> error + Var" where
  "rangeset_value base from to v =
     (case (from, to) of
        (TYPE_INT i, TYPE_INT j) \<Rightarrow>
          (case (base, v) of
             (TYPE_STR s, TYPE_STR t) \<Rightarrow>
               if rangeset_check (len (cstr s)) (wrap32 i) (wrap32 j) then Inl E_RANGE
               else Inr (TYPE_STR (strrangeset s (wrap32 i) (wrap32 j) t))
           | (TYPE_LIST xs, TYPE_LIST ys) \<Rightarrow>
               if rangeset_check (len xs) (wrap32 i) (wrap32 j) then Inl E_RANGE
               else Inr (TYPE_LIST (listrangeset xs (wrap32 i) (wrap32 j) ys))
           | _ \<Rightarrow> Inl E_TYPE)
      | _ \<Rightarrow> Inl E_TYPE)"

definition length_value :: "Var \<Rightarrow> error + Var" where
  "length_value v = (case v of TYPE_STR s \<Rightarrow> Inr (TYPE_INT (int (strlen_utf s))) | TYPE_LIST xs \<Rightarrow> Inr (TYPE_INT (len xs)) | _ \<Rightarrow> Inl E_TYPE)"

definition add_tail_value :: "Var \<Rightarrow> Var \<Rightarrow> error + Var" where
  "add_tail_value list v = (case list of TYPE_LIST xs \<Rightarrow> Inr (TYPE_LIST (listappend xs v)) | _ \<Rightarrow> Inl E_TYPE)"

definition append_value :: "Var \<Rightarrow> Var \<Rightarrow> error + Var" where
  "append_value list tail =
     (case (list, tail) of (TYPE_LIST xs, TYPE_LIST ys) \<Rightarrow> Inr (TYPE_LIST (listconcat xs ys)) | _ \<Rightarrow> Inl E_TYPE)"

section \<open>Operands and results\<close>

definition READ_BYTES :: "Bytecodes \<Rightarrow> nat \<Rightarrow> activation \<Rightarrow> (nat \<times> activation) option" where
  "READ_BYTES bc nb a =
     (let bv = a_pc a + nb; b = (\<lambda>i. vector bc ! (bv - i))
      in if bv > length (vector bc) then None
         else Some (if nb = 1 then b 1
                    else if nb = 2 then b 2 * 2 ^ 8 + b 1
                    else b 4 * 2 ^ 24 + b 3 * 2 ^ 16 + b 2 * 2 ^ 8 + b 1, a\<lparr>a_pc := bv\<rparr>))"

definition JUMP :: "nat \<Rightarrow> activation \<Rightarrow> activation" where
  "JUMP label a = a\<lparr>a_pc := label\<rparr>"

definition set_var :: "nat \<Rightarrow> Var \<Rightarrow> activation \<Rightarrow> activation option" where
  "set_var i v a = (if i < length (rt_env a) then Some (a\<lparr>rt_env := (rt_env a)[i := v]\<rparr>) else None)"

text \<open>How an opcode ends: the next one follows, or \<^verbatim>\<open>RAISE_ERROR\<close>, which raises the error in the first
  activation when its debug flag is set and goes on with the second otherwise.\<close>

datatype op_result = Go activation | Raise error activation "activation option"

definition PUSH_ERROR :: "error \<Rightarrow> activation \<Rightarrow> op_result" where
  "PUSH_ERROR e a = Raise e a (PUSH (TYPE_ERR e) a)"

definition push_result :: "error + Var \<Rightarrow> activation \<Rightarrow> op_result option" where
  "push_result r a = (case r of Inl e \<Rightarrow> Some (PUSH_ERROR e a) | Inr v \<Rightarrow> map_option Go (PUSH v a))"

definition exec_unary :: "(Var \<Rightarrow> (error + Var) option) \<Rightarrow> activation \<Rightarrow> op_result option" where
  "exec_unary f a = do { (v, a) \<leftarrow> POP a; r \<leftarrow> f v; push_result r a }"

definition exec_binary :: "(Var \<Rightarrow> Var \<Rightarrow> (error + Var) option) \<Rightarrow> activation \<Rightarrow> op_result option" where
  "exec_binary f a = do { (rhs, a) \<leftarrow> POP a; (lhs, a) \<leftarrow> POP a; r \<leftarrow> f lhs rhs; push_result r a }"

definition exec_ternary :: "(Var \<Rightarrow> Var \<Rightarrow> Var \<Rightarrow> (error + Var) option) \<Rightarrow> activation \<Rightarrow> op_result option" where
  "exec_ternary f a = do { (z, a) \<leftarrow> POP a; (y, a) \<leftarrow> POP a; (x, a) \<leftarrow> POP a; r \<leftarrow> f x y z; push_result r a }"

section \<open>Opcodes on one activation\<close>

definition do_test :: "Bytecodes \<Rightarrow> activation \<Rightarrow> op_result option" where
  "do_test bc a =
     do {
       (cond, a) \<leftarrow> POP a;
       (lab, a) \<leftarrow> READ_BYTES bc (numbytes_label bc) a;
       Some (Go (if \<not> is_true cond then JUMP lab a else a))
     }"

definition op_JUMP :: "Bytecodes \<Rightarrow> activation \<Rightarrow> op_result option" where
  "op_JUMP bc a = do { (lab, a) \<leftarrow> READ_BYTES bc (numbytes_label bc) a; Some (Go (JUMP lab a)) }"

text \<open>The counter is at most the length of the list plus one, and does not overflow.\<close>

definition op_FOR_LIST :: "Bytecodes \<Rightarrow> activation \<Rightarrow> op_result option" where
  "op_FOR_LIST bc a =
     do {
       (i, a) \<leftarrow> READ_BYTES bc (numbytes_var_name bc) a;
       (lab, a) \<leftarrow> READ_BYTES bc (numbytes_label bc) a;
       (case rt_stack a of
          count # list # rest \<Rightarrow>
            (case (list, count) of
               (TYPE_LIST xs, TYPE_INT n) \<Rightarrow>
                 if n > len xs then Some (Go (JUMP lab (a\<lparr>rt_stack := rest\<rparr>)))
                 else if n < 1 then None
                 else do { a \<leftarrow> set_var i (elt xs n) a; Some (Go (a\<lparr>rt_stack := TYPE_INT (n + 1) # list # rest\<rparr>)) }
             | (TYPE_LIST xs, _) \<Rightarrow> None
             | _ \<Rightarrow> Some (Raise E_TYPE a (Some (JUMP lab (a\<lparr>rt_stack := rest\<rparr>)))))
        | _ \<Rightarrow> None)
     }"

text \<open>The next values of the two ends of a range; at the largest integer the upper end moves instead.\<close>

definition range_next :: "int \<Rightarrow> int \<Rightarrow> int \<times> int" where
  "range_next from to = (if from < MAXINT then (from + 1, to) else (from, to - 1))"

definition op_FOR_RANGE :: "Bytecodes \<Rightarrow> activation \<Rightarrow> op_result option" where
  "op_FOR_RANGE bc a =
     do {
       (i, a) \<leftarrow> READ_BYTES bc (numbytes_var_name bc) a;
       (lab, a) \<leftarrow> READ_BYTES bc (numbytes_label bc) a;
       (case rt_stack a of
          to # from # rest \<Rightarrow>
            (case (from, to) of
               (TYPE_INT m, TYPE_INT n) \<Rightarrow>
                 if m > n then Some (Go (JUMP lab (a\<lparr>rt_stack := rest\<rparr>)))
                 else do { a \<leftarrow> set_var i from a;
                           let (m', n') = range_next m n;
                           Some (Go (a\<lparr>rt_stack := TYPE_INT n' # TYPE_INT m' # rest\<rparr>)) }
             | (TYPE_OBJ m, TYPE_OBJ n) \<Rightarrow>
                 if m > n then Some (Go (JUMP lab (a\<lparr>rt_stack := rest\<rparr>)))
                 else do { a \<leftarrow> set_var i from a;
                           let (m', n') = range_next m n;
                           Some (Go (a\<lparr>rt_stack := TYPE_OBJ n' # TYPE_OBJ m' # rest\<rparr>)) }
             | _ \<Rightarrow> Some (Raise E_TYPE a (Some (JUMP lab (a\<lparr>rt_stack := rest\<rparr>)))))
        | _ \<Rightarrow> None)
     }"

definition op_POP :: "activation \<Rightarrow> op_result option" where
  "op_POP a = do { (v, a) \<leftarrow> POP a; Some (Go a) }"

text \<open>A literal that the next opcode would drop is skipped with it.\<close>

definition op_IMM :: "Bytecodes \<Rightarrow> activation \<Rightarrow> op_result option" where
  "op_IMM bc a =
     do {
       b \<leftarrow> byte_at bc (a_pc a + numbytes_literal bc);
       if b = OP_POP then Some (Go (a\<lparr>a_pc := a_pc a + (numbytes_literal bc + 1)\<rparr>))
       else do {
         (i, a) \<leftarrow> READ_BYTES bc (numbytes_literal bc) a;
         let lits = Ast.literals (p_code (a_prog a));
         if i < length lits then map_option Go (PUSH (lits ! i) a) else None
       }
     }"

definition op_MAKE_EMPTY_LIST :: "activation \<Rightarrow> op_result option" where
  "op_MAKE_EMPTY_LIST a = map_option Go (PUSH (TYPE_LIST []) a)"

definition op_CHECK_LIST_FOR_SPLICE :: "activation \<Rightarrow> op_result option" where
  "op_CHECK_LIST_FOR_SPLICE a =
     (case rt_stack a of
        TYPE_LIST xs # _ \<Rightarrow> Some (Go a)
      | v # rest \<Rightarrow> Some (PUSH_ERROR E_TYPE (a\<lparr>rt_stack := rest\<rparr>))
      | [] \<Rightarrow> None)"

definition op_PUT_TEMP :: "activation \<Rightarrow> op_result option" where
  "op_PUT_TEMP a = (case rt_stack a of v # _ \<Rightarrow> Some (Go (a\<lparr>temp := v\<rparr>)) | [] \<Rightarrow> None)"

definition op_PUSH_TEMP :: "activation \<Rightarrow> op_result option" where
  "op_PUSH_TEMP a = do { a' \<leftarrow> PUSH (temp a) a; Some (Go (a'\<lparr>temp := TYPE_NONE\<rparr>)) }"

definition op_AND_OR :: "Bytecodes \<Rightarrow> nat \<Rightarrow> activation \<Rightarrow> op_result option" where
  "op_AND_OR bc op a =
     do {
       (lab, a) \<leftarrow> READ_BYTES bc (numbytes_label bc) a;
       (lhs, a') \<leftarrow> POP a;
       Some (Go (if op = OP_AND \<and> \<not> is_true lhs \<or> op = OP_OR \<and> is_true lhs then JUMP lab a else a'))
     }"

definition op_PUSH_REF :: "activation \<Rightarrow> op_result option" where
  "op_PUSH_REF a = (case rt_stack a of index # list # _ \<Rightarrow> push_result (push_ref_value list index) a | _ \<Rightarrow> None)"

definition push_variable :: "nat \<Rightarrow> activation \<Rightarrow> op_result option" where
  "push_variable i a =
     do { v \<leftarrow> env_at (rt_env a) i; push_result (if v = TYPE_NONE then Inl E_VARNF else Inr v) a }"

definition op_G_PUT :: "Bytecodes \<Rightarrow> activation \<Rightarrow> op_result option" where
  "op_G_PUT bc a =
     do { (i, a) \<leftarrow> READ_BYTES bc (numbytes_var_name bc) a; (v, _) \<leftarrow> POP a; map_option Go (set_var i v a) }"

definition op_G_PUSH :: "Bytecodes \<Rightarrow> activation \<Rightarrow> op_result option" where
  "op_G_PUSH bc a = do { (i, a) \<leftarrow> READ_BYTES bc (numbytes_var_name bc) a; push_variable i a }"

definition op_PUT_n :: "Bytecodes \<Rightarrow> nat \<Rightarrow> activation \<Rightarrow> op_result option" where
  "op_PUT_n bc op a =
     do {
       b \<leftarrow> byte_at bc (a_pc a);
       (v, a') \<leftarrow> POP a;
       if b = OP_POP then map_option Go (set_var (PUT_n_INDEX op) v (a'\<lparr>a_pc := a_pc a + 1\<rparr>))
       else map_option Go (set_var (PUT_n_INDEX op) v a)
     }"

section \<open>Extended opcodes on one activation\<close>

definition op_RANGESET :: "activation \<Rightarrow> op_result option" where
  "op_RANGESET a =
     do {
       (v, a) \<leftarrow> POP a; (to, a) \<leftarrow> POP a; (from, a) \<leftarrow> POP a; (base, a) \<leftarrow> POP a;
       push_result (rangeset_value base from to v) a
     }"

definition op_LENGTH :: "Bytecodes \<Rightarrow> activation \<Rightarrow> op_result option" where
  "op_LENGTH bc a =
     do { (i, a) \<leftarrow> READ_BYTES bc (numbytes_stack bc) a; v \<leftarrow> stack_at i a; push_result (length_value v) a }"

text \<open>The loop over the targets of a scattering assignment, from target \<open>i\<close> on: the label of the first
  default to compute, 0 if there is none.\<close>

function scatter_loop ::
  "Bytecodes \<Rightarrow> Var list \<Rightarrow> int \<Rightarrow> int \<Rightarrow> int \<Rightarrow> int \<Rightarrow> int \<Rightarrow> int \<Rightarrow> nat \<Rightarrow> activation \<Rightarrow> (nat \<times> activation) option" where
  "scatter_loop bc xs nargs rest nrest i offset nopt_avail where_label a =
     (if i > nargs then Some (where_label, a)
      else do {
        (x, a) \<leftarrow> READ_BYTES bc (numbytes_var_name bc) a;
        (label, a) \<leftarrow> READ_BYTES bc (numbytes_label bc) a;
        if i = rest
        then if i \<le> i + nrest - 1 \<and> i + nrest - 1 > len xs then None
             else do { a \<leftarrow> set_var x (TYPE_LIST (sublist xs i (i + nrest - 1))) a;
                       scatter_loop bc xs nargs rest nrest (i + 1) (offset + nrest - 1) nopt_avail where_label a }
        else if label = 0 \<or> nopt_avail > 0
        then if i + offset < 1 \<or> i + offset > len xs then None
             else do { a \<leftarrow> set_var x (elt xs (i + offset)) a;
                       scatter_loop bc xs nargs rest nrest (i + 1) offset
                         (if label = 0 then nopt_avail else nopt_avail - 1) where_label a }
        else scatter_loop bc xs nargs rest nrest (i + 1) (offset - 1) nopt_avail
               (if where_label = 0 \<and> label \<noteq> 1 then label else where_label) a
      })"
  by pat_completeness auto
termination
  by (relation "measure (\<lambda>(bc, xs, nargs, rest, nrest, i, offset, nopt, w, a). nat (nargs + 1 - i))") auto

declare scatter_loop.simps [simp del]

text \<open>On an error the operands are skipped, and the error takes the place of the list.\<close>

definition scatter_error :: "Bytecodes \<Rightarrow> nat \<Rightarrow> error \<Rightarrow> activation \<Rightarrow> op_result" where
  "scatter_error bc nargs e a =
     Raise e a
       (do {
          a \<leftarrow> PUSH (TYPE_ERR e) a;
          (done_label, a) \<leftarrow> READ_BYTES bc (numbytes_label bc)
            (a\<lparr>a_pc := a_pc a + nargs * (numbytes_var_name bc + numbytes_label bc)\<rparr>);
          Some (JUMP done_label a)
        })"

definition op_SCATTER :: "Bytecodes \<Rightarrow> activation \<Rightarrow> op_result option" where
  "op_SCATTER bc a =
     do {
       (nargs, a) \<leftarrow> READ_BYTES bc 1 a;
       (nreq, a) \<leftarrow> READ_BYTES bc 1 a;
       (rest, a) \<leftarrow> READ_BYTES bc 1 a;
       let have_rest = \<not> (rest > nargs);
       (v, a') \<leftarrow> POP a;
       (case v of
          TYPE_LIST xs \<Rightarrow>
            if length xs < nreq \<or> \<not> have_rest \<and> length xs > nargs then Some (scatter_error bc nargs E_ARGS a')
            else do {
              let nrest = (if have_rest \<and> length xs \<ge> nargs then len xs - int nargs + 1 else 0);
              (where_label, a) \<leftarrow> scatter_loop bc xs (int nargs) (int rest) nrest 1 0 (len xs - int nreq) 0 a;
              (done_label, a) \<leftarrow> READ_BYTES bc (numbytes_label bc) a;
              Some (Go (JUMP (if where_label = 0 then done_label else where_label) a))
            }
        | _ \<Rightarrow> Some (scatter_error bc nargs E_TYPE a'))
     }"

definition op_PUSH_LABEL :: "Bytecodes \<Rightarrow> nat \<Rightarrow> activation \<Rightarrow> op_result option" where
  "op_PUSH_LABEL bc eop a =
     do {
       (lab, a) \<leftarrow> READ_BYTES bc (numbytes_label bc) a;
       map_option Go (PUSH (if eop = EOP_PUSH_LABEL then TYPE_INT (int lab) else TYPE_FINALLY (int lab)) a)
     }"

definition op_CATCH :: "Bytecodes \<Rightarrow> nat \<Rightarrow> activation \<Rightarrow> op_result option" where
  "op_CATCH bc eop a =
     do {
       (n, a) \<leftarrow> (if eop = EOP_CATCH then Some (1, a) else READ_BYTES bc 1 a);
       map_option Go (PUSH (TYPE_CATCH (int n)) a)
     }"

definition op_END_CATCH :: "Bytecodes \<Rightarrow> nat \<Rightarrow> activation \<Rightarrow> op_result option" where
  "op_END_CATCH bc eop a =
     do {
       (v, a) \<leftarrow> (if eop = EOP_END_CATCH then map_option (\<lambda>(v, a). ([v], a)) (POP a) else Some ([], a));
       (marker, a) \<leftarrow> POP a;
       (case marker of
          TYPE_CATCH n \<Rightarrow>
            if length (rt_stack a) < 2 * nat n then None
            else do {
              let a = a\<lparr>rt_stack := v @ drop (2 * nat n) (rt_stack a)\<rparr>;
              (lab, a) \<leftarrow> READ_BYTES bc (numbytes_label bc) a;
              Some (Go (JUMP lab a))
            }
        | _ \<Rightarrow> None)
     }"

definition op_END_FINALLY :: "activation \<Rightarrow> op_result option" where
  "op_END_FINALLY a =
     do {
       (v, a) \<leftarrow> POP a;
       (case v of
          TYPE_FINALLY _ \<Rightarrow>
            do { a \<leftarrow> PUSH (TYPE_INT (reason_number FIN_FALL_THRU)) a; map_option Go (PUSH zero a) }
        | _ \<Rightarrow> None)
     }"

definition op_WHILE_ID :: "Bytecodes \<Rightarrow> activation \<Rightarrow> op_result option" where
  "op_WHILE_ID bc a =
     do { (i, a) \<leftarrow> READ_BYTES bc (numbytes_var_name bc) a; (v, _) \<leftarrow> POP a; a \<leftarrow> set_var i v a; do_test bc a }"

text \<open>The extended opcodes that work on the running activation; \<^term>\<open>None\<close> for the others.\<close>

definition activ_eop :: "host \<Rightarrow> Bytecodes \<Rightarrow> nat \<Rightarrow> activation \<Rightarrow> op_result option" where
  "activ_eop H bc eop a =
     (if eop = EOP_RANGESET then op_RANGESET a
      else if eop = EOP_LENGTH then op_LENGTH bc a
      else if eop = EOP_EXP then exec_binary (\<lambda>l r. Some (checked (do_power (h_fpu H) l r))) a
      else if eop = EOP_SCATTER then op_SCATTER bc a
      else if eop \<in> {EOP_PUSH_LABEL, EOP_TRY_FINALLY} then op_PUSH_LABEL bc eop a
      else if eop \<in> {EOP_CATCH, EOP_TRY_EXCEPT} then op_CATCH bc eop a
      else if eop \<in> {EOP_END_CATCH, EOP_END_EXCEPT} then op_END_CATCH bc eop a
      else if eop = EOP_END_FINALLY then op_END_FINALLY a
      else if eop = EOP_WHILE_ID then op_WHILE_ID bc a
      else if eop \<in> {EOP_BITAND, EOP_BITXOR, EOP_BITOR} then exec_binary (bit_values eop) a
      else if eop \<in> {EOP_SHL, EOP_SHR, EOP_LSHR} then exec_binary (shift_values eop) a
      else if eop = EOP_COMPLEMENT then exec_unary (\<lambda>v. Some (complement v)) a
      else None)"

definition activ_op :: "host \<Rightarrow> Bytecodes \<Rightarrow> nat \<Rightarrow> activation \<Rightarrow> op_result option" where
  "activ_op H bc op a =
     (if op \<in> {OP_IF_QUES, OP_IF, OP_WHILE, OP_EIF} then do_test bc a
      else if op = OP_JUMP then op_JUMP bc a
      else if op = OP_FOR_LIST then op_FOR_LIST bc a
      else if op = OP_FOR_RANGE then op_FOR_RANGE bc a
      else if op = OP_POP then op_POP a
      else if op = OP_IMM then op_IMM bc a
      else if op = OP_MAKE_EMPTY_LIST then op_MAKE_EMPTY_LIST a
      else if op = OP_LIST_ADD_TAIL then exec_binary (\<lambda>l t. Some (add_tail_value l t)) a
      else if op = OP_LIST_APPEND then exec_binary (\<lambda>l t. Some (append_value l t)) a
      else if op = OP_INDEXSET then exec_ternary (\<lambda>l i v. Some (indexset_value l i v)) a
      else if op = OP_MAKE_SINGLETON_LIST then exec_unary (\<lambda>v. Some (Inr (TYPE_LIST [v]))) a
      else if op = OP_CHECK_LIST_FOR_SPLICE then op_CHECK_LIST_FOR_SPLICE a
      else if op = OP_PUT_TEMP then op_PUT_TEMP a
      else if op = OP_PUSH_TEMP then op_PUSH_TEMP a
      else if op \<in> {OP_EQ, OP_NE} then exec_binary (equal_values op) a
      else if op \<in> {OP_GT, OP_LT, OP_GE, OP_LE} then exec_binary (compare_values op) a
      else if op = OP_IN then exec_binary in_values a
      else if op \<in> {OP_MULT, OP_MINUS, OP_DIV, OP_MOD} then exec_binary (arith_values H op) a
      else if op = OP_ADD then exec_binary (add_values H) a
      else if op \<in> {OP_AND, OP_OR} then op_AND_OR bc op a
      else if op = OP_NOT then exec_unary (\<lambda>v. Some (Inr (TYPE_INT (of_bool (\<not> is_true v))))) a
      else if op = OP_UNARY_MINUS then exec_unary (\<lambda>v. Some (unary_minus v)) a
      else if op = OP_REF then exec_binary (\<lambda>l i. Some (ref_value l i)) a
      else if op = OP_PUSH_REF then op_PUSH_REF a
      else if op = OP_RANGE_REF then exec_ternary range_ref_value a
      else if op = OP_G_PUT then op_G_PUT bc a
      else if op = OP_G_PUSH then op_G_PUSH bc a
      else if IS_PUSH_n op then push_variable (PUSH_n_INDEX op) a
      else if IS_PUT_n op then op_PUT_n bc op a
      else if IS_OPTIM_NUM_OPCODE op then map_option Go (PUSH (TYPE_INT (OPCODE_TO_OPTIM_NUM op)) a)
      else None)"

section \<open>Opcodes on the machine\<close>

text \<open>The machine goes on, or \<^verbatim>\<open>run\<close> returns with an outcome and, when it is \<open>OUTCOME_DONE\<close>, the result if
  one was stored.\<close>

datatype flow = Next vm | Stop outcome "Var option" vm

definition after_raise :: "unwound \<Rightarrow> flow" where
  "after_raise u = (case u of Resumed m \<Rightarrow> Next m | Unwound oc m \<Rightarrow> Stop OUTCOME_ABORTED None m)"

text \<open>A task that is killed stops, whatever the unwinding gives.\<close>

definition after_abort :: "unwound \<Rightarrow> flow" where
  "after_abort u = Stop OUTCOME_ABORTED None (case u of Resumed m \<Rightarrow> m | Unwound oc m \<Rightarrow> m)"

definition op_flow :: "host \<Rightarrow> op_result \<Rightarrow> vm \<Rightarrow> flow option" where
  "op_flow H r m =
     (case r of
        Go a \<Rightarrow> Some (Next (set_RUN_ACTIV a m))
      | Raise e a other \<Rightarrow>
          if a_debug a
          then map_option after_raise (raise_error H (TYPE_ERR e) (unparse_error e) zero (set_RUN_ACTIV a m))
          else map_option (\<lambda>a. Next (set_RUN_ACTIV a m)) other)"

text \<open>Ending an opcode with a value or an error.\<close>

definition vm_result :: "host \<Rightarrow> error + Var \<Rightarrow> vm \<Rightarrow> flow option" where
  "vm_result H r m = do { a \<leftarrow> RUN_ACTIV m; res \<leftarrow> push_result r a; op_flow H res m }"

text \<open>After \<open>call_verb2\<close>: the activation of the verb runs, or the error is pushed.\<close>

definition after_call :: "host \<Rightarrow> error \<times> vm \<Rightarrow> flow option" where
  "after_call H r = (case r of (e, m) \<Rightarrow> if e = E_NONE then Some (Next m) else vm_result H (Inl e) m)"

text \<open>Indexing a waif calls a verb of its class.\<close>

definition waif_call :: "host \<Rightarrow> waif \<Rightarrow> string \<Rightarrow> Var list \<Rightarrow> vm \<Rightarrow> flow option" where
  "waif_call H w vname args m =
     (let class = waif_class w
      in if \<not> valid (vm_db m) class then vm_result H (Inl E_INVIND) m
         else do {
           owner \<leftarrow> db_object_owner (vm_db m) class;
           if \<not> is_wizard (vm_db m) owner then vm_result H (Inl E_TYPE) m
           else do {
             (e, m) \<leftarrow> call_verb2 H class vname (TYPE_WAIF w) args False m;
             after_call H (if e = E_VERBNF then E_TYPE else e, m)
           }
         })"

definition op_INDEXSET :: "host \<Rightarrow> Bytecodes \<Rightarrow> activation \<Rightarrow> vm \<Rightarrow> flow option" where
  "op_INDEXSET H bc a m =
     (case rt_stack a of
        v # index # TYPE_WAIF w # rest \<Rightarrow>
          waif_call H w '':_set_index'' [index, v] (set_RUN_ACTIV (a\<lparr>rt_stack := rest\<rparr>) m)
      | _ \<Rightarrow> do { r \<leftarrow> activ_op H bc OP_INDEXSET a; op_flow H r m })"

definition op_REF :: "host \<Rightarrow> Bytecodes \<Rightarrow> activation \<Rightarrow> vm \<Rightarrow> flow option" where
  "op_REF H bc a m =
     (case rt_stack a of
        index # TYPE_WAIF w # rest \<Rightarrow> waif_call H w '':_index'' [index] (set_RUN_ACTIV (a\<lparr>rt_stack := rest\<rparr>) m)
      | _ \<Rightarrow> do { r \<leftarrow> activ_op H bc OP_REF a; op_flow H r m })"

text \<open>The value of a property, with the permission of the running programmer. Built-in properties are not
  protected.\<close>

definition get_prop :: "host \<Rightarrow> Var \<Rightarrow> Var \<Rightarrow> Objid \<Rightarrow> vm \<Rightarrow> ((error + Var) \<times> vm) option" where
  "get_prop H ob propname progr m =
     (case (ob, propname) of
        (TYPE_WAIF w, TYPE_STR name) \<Rightarrow> Some (waif_get_prop H w name progr m)
      | (TYPE_OBJ oid, TYPE_STR name) \<Rightarrow>
          if \<not> valid (vm_db m) oid then Some (Inl E_INVIND, m)
          else do {
            (h, v) \<leftarrow> db_find_property (vm_db m) oid name True;
            if ptr h = Null_prop then Some (Inl E_PROPNF, m)
            else do {
              allowed \<leftarrow> (if built_in h \<noteq> BP_NONE then Some True else db_property_allows (vm_db m) h progr PF_READ);
              if \<not> allowed then Some (Inl E_PERM, m) else map_option (\<lambda>v. (Inr v, m)) v
            }
          }
      | _ \<Rightarrow> Some (Inl E_TYPE, m))"

definition op_GET_PROP :: "host \<Rightarrow> activation \<Rightarrow> vm \<Rightarrow> flow option" where
  "op_GET_PROP H a m =
     do {
       (propname, a) \<leftarrow> POP a; (ob, a) \<leftarrow> POP a;
       (r, m) \<leftarrow> get_prop H ob propname (a_progr a) (set_RUN_ACTIV a m);
       vm_result H r m
     }"

definition op_PUSH_GET_PROP :: "host \<Rightarrow> activation \<Rightarrow> vm \<Rightarrow> flow option" where
  "op_PUSH_GET_PROP H a m =
     do {
       (propname, a') \<leftarrow> POP a; (ob, _) \<leftarrow> POP a';
       (r, m) \<leftarrow> get_prop H ob propname (a_progr a) (set_RUN_ACTIV a m);
       vm_result H r m
     }"

text \<open>Whether \<open>progr\<close> may store \<open>rhs\<close> into the property of the handle on \<open>oid\<close>.\<close>

definition put_prop_error :: "db \<Rightarrow> db_prop_handle \<Rightarrow> Objid \<Rightarrow> Var \<Rightarrow> Objid \<Rightarrow> error option" where
  "put_prop_error db h oid rhs progr =
     (case built_in h of
        BP_NONE \<Rightarrow> map_option (\<lambda>b. if b then E_NONE else E_PERM) (db_property_allows db h progr PF_WRITE)
      | BP_NAME \<Rightarrow>
          do {
            owner \<leftarrow> db_object_owner db oid;
            Some (if (case rhs of TYPE_STR _ \<Rightarrow> False | _ \<Rightarrow> True) then E_TYPE
                  else if \<not> is_wizard db progr \<and> (is_user db oid \<or> progr \<noteq> owner) then E_PERM else E_NONE)
          }
      | BP_OWNER \<Rightarrow>
          Some (if (case rhs of TYPE_OBJ _ \<Rightarrow> False | _ \<Rightarrow> True) then E_TYPE else if \<not> is_wizard db progr then E_PERM else E_NONE)
      | BP_PROGRAMMER \<Rightarrow> Some (if \<not> is_wizard db progr then E_PERM else E_NONE)
      | BP_WIZARD \<Rightarrow> Some (if \<not> is_wizard db progr then E_PERM else E_NONE)
      | BP_LOCATION \<Rightarrow> Some E_PERM
      | BP_CONTENTS \<Rightarrow> Some E_PERM
      | _ \<Rightarrow>
          do {
            owner \<leftarrow> db_object_owner db oid;
            Some (if progr \<noteq> owner \<and> \<not> is_wizard db progr then E_PERM else E_NONE)
          })"

definition op_PUT_PROP :: "host \<Rightarrow> activation \<Rightarrow> vm \<Rightarrow> flow option" where
  "op_PUT_PROP H a m =
     do {
       (rhs, a) \<leftarrow> POP a; (propname, a) \<leftarrow> POP a; (ob, a) \<leftarrow> POP a;
       let m = set_RUN_ACTIV a m;
       (case (ob, propname) of
          (TYPE_WAIF w, TYPE_STR name) \<Rightarrow>
            let (e, m) = waif_put_prop H w name rhs (a_progr a) m
            in vm_result H (if e = E_NONE then Inr rhs else Inl e) m
        | (TYPE_OBJ oid, TYPE_STR name) \<Rightarrow>
            if \<not> valid (vm_db m) oid then vm_result H (Inl E_INVIND) m
            else do {
              (h, _) \<leftarrow> db_find_property (vm_db m) oid name False;
              e \<leftarrow> (if ptr h = Null_prop then Some E_PROPNF else put_prop_error (vm_db m) h oid rhs (a_progr a));
              if e \<noteq> E_NONE then vm_result H (Inl e) m
              else do {
                db \<leftarrow> db_set_property_value (vm_db m) h rhs;
                vm_result H (Inr rhs) (m\<lparr>vm_db := db\<rparr>)
              }
            }
        | _ \<Rightarrow> vm_result H (Inl E_TYPE) m)
     }"

text \<open>\<open>enqueue_forked_task2\<close> of \<^verbatim>\<open>tasks.c\<close>: the number of the task goes into the running environment, of which
  the task gets a copy.\<close>

definition enqueue_forked_task2 :: "host \<Rightarrow> activation \<Rightarrow> nat \<Rightarrow> int \<Rightarrow> nat option \<Rightarrow> vm \<Rightarrow> (error \<times> vm) option" where
  "enqueue_forked_task2 H a i after_seconds vid m =
     (if \<not> check_user_task_limit H (a_progr a) m then Some (E_QUOTA, m)
      else do {
        let task = new_task_id H m;
        a \<leftarrow> (case vid of None \<Rightarrow> Some a | Some x \<Rightarrow> set_var x (TYPE_INT task) a);
        Some (E_NONE, (set_RUN_ACTIV a m)\<lparr>forked_tasks := forked_tasks m @
          [\<lparr>f_activation = a\<lparr>rt_stack := []\<rparr>, f_index = i, f_after_seconds = after_seconds mod 2 ^ 32, f_id = task\<rparr>]\<rparr>)
      })"

definition op_FORK :: "host \<Rightarrow> Bytecodes \<Rightarrow> nat \<Rightarrow> activation \<Rightarrow> vm \<Rightarrow> flow option" where
  "op_FORK H bc op a m =
     do {
       (time, a) \<leftarrow> POP a;
       (i, a) \<leftarrow> READ_BYTES bc (numbytes_fork bc) a;
       (vid, a) \<leftarrow> (if op = OP_FORK_WITH_ID
                   then map_option (\<lambda>(x, a). (Some x, a)) (READ_BYTES bc (numbytes_var_name bc) a)
                   else Some (None, a));
       (case time of
          TYPE_INT n \<Rightarrow>
            if n < 0 then op_flow H (Raise E_INVARG a (Some a)) m
            else do {
              (e, m) \<leftarrow> enqueue_forked_task2 H a i n vid (set_RUN_ACTIV a m);
              if e \<noteq> E_NONE then op_flow H (Raise e a (Some a)) m else Some (Next m)
            }
        | _ \<Rightarrow> op_flow H (Raise E_TYPE a (Some a)) m)
     }"

definition op_CALL_VERB :: "host \<Rightarrow> activation \<Rightarrow> vm \<Rightarrow> flow option" where
  "op_CALL_VERB H a m =
     do {
       (args, a) \<leftarrow> POP a; (verb, a) \<leftarrow> POP a; (ob, a) \<leftarrow> POP a;
       let m = set_RUN_ACTIV a m;
       let call = (\<lambda>class name xs. if \<not> valid (vm_db m) class then vm_result H (Inl E_INVIND) m
                                   else do { r \<leftarrow> call_verb2 H class name ob xs False m; after_call H r });
       (case (verb, args) of
          (TYPE_STR name, TYPE_LIST xs) \<Rightarrow>
            (case ob of
               TYPE_WAIF w \<Rightarrow> call (waif_class w) (WAIF_VERB_PREFIX # name) xs
             | TYPE_OBJ oid \<Rightarrow>
                 if hd0 name = WAIF_VERB_PREFIX then vm_result H (Inl E_VERBNF) m else call oid name xs
             | _ \<Rightarrow> vm_result H (Inl E_TYPE) m)
        | _ \<Rightarrow> vm_result H (Inl E_TYPE) m)
     }"

definition op_RETURN :: "host \<Rightarrow> nat \<Rightarrow> activation \<Rightarrow> vm \<Rightarrow> flow option" where
  "op_RETURN H op a m =
     do {
       (v, a) \<leftarrow> (if op = OP_RETURN then POP a else Some (zero, a));
       u \<leftarrow> unwind_stack H FIN_RETURN v (set_RUN_ACTIV a m);
       Some (case u of
               Resumed m \<Rightarrow> Next m
             | Unwound oc m \<Rightarrow> Stop oc (if oc = OUTCOME_DONE then Some v else None) m)
     }"

definition op_BI_FUNC_CALL :: "host \<Rightarrow> Bytecodes \<Rightarrow> activation \<Rightarrow> vm \<Rightarrow> flow option" where
  "op_BI_FUNC_CALL H bc a m =
     do {
       (func_id, a) \<leftarrow> READ_BYTES bc 1 a;
       (args, a) \<leftarrow> POP a;
       let m = set_RUN_ACTIV a m;
       (case args of
          TYPE_LIST xs \<Rightarrow>
            do {
              (p, m) \<leftarrow> call_bi_func H func_id args 1 (a_progr a) NULL m;
              b \<leftarrow> RUN_ACTIV m;
              (case p of
                 BI_RETURN v \<Rightarrow> vm_result H (Inr v) m
               | BI_RAISE code msg v \<Rightarrow>
                   if a_debug b then map_option after_raise (raise_error H code msg v m)
                   else vm_result H (Inr code) m
               | BI_CALL func_pc data \<Rightarrow>
                   Some (Next (set_RUN_ACTIV (b\<lparr>bi_func_id := func_id, bi_func_data := data, bi_func_pc := func_pc\<rparr>) m))
               | BI_SUSPEND proc \<Rightarrow>
                   let (e, m) = suspend_task H proc m
                   in if e = E_NONE then Some (Stop OUTCOME_BLOCKED None m) else vm_result H (Inl e) m
               | BI_KILL \<Rightarrow> map_option after_abort (unwind_stack H FIN_ABORT zero m))
            }
        | _ \<Rightarrow> vm_result H (Inl E_TYPE) m)
     }"

definition reason_of :: "Var \<Rightarrow> Finally_Reason option" where
  "reason_of v =
     (case v of
        TYPE_INT n \<Rightarrow>
          if n = 0 then Some FIN_FALL_THRU else if n = 1 then Some FIN_RAISE else if n = 2 then Some FIN_UNCAUGHT
          else if n = 3 then Some FIN_RETURN else if n = 5 then Some FIN_EXIT else None
      | _ \<Rightarrow> None)"

text \<open>The end of a \<^verbatim>\<open>finally\<close> handler. When the whole stack is unwound, no result is stored.\<close>

definition op_CONTINUE :: "host \<Rightarrow> activation \<Rightarrow> vm \<Rightarrow> flow option" where
  "op_CONTINUE H a m =
     do {
       (v, a) \<leftarrow> POP a; (why, a) \<leftarrow> POP a;
       why \<leftarrow> reason_of why;
       if why = FIN_FALL_THRU then Some (Next (set_RUN_ACTIV a m))
       else do {
         u \<leftarrow> unwind_stack H why v (set_RUN_ACTIV a m);
         Some (case u of Resumed m \<Rightarrow> Next m | Unwound oc m \<Rightarrow> Stop oc None m)
       }
     }"

definition op_EXIT :: "host \<Rightarrow> Bytecodes \<Rightarrow> nat \<Rightarrow> activation \<Rightarrow> vm \<Rightarrow> flow option" where
  "op_EXIT H bc eop a m =
     do {
       (_, a) \<leftarrow> (if eop = EOP_EXIT_ID then READ_BYTES bc (numbytes_var_name bc) a else Some (0, a));
       (n, a) \<leftarrow> READ_BYTES bc (numbytes_stack bc) a;
       (lab, a) \<leftarrow> READ_BYTES bc (numbytes_label bc) a;
       u \<leftarrow> unwind_stack H FIN_EXIT (TYPE_LIST [TYPE_INT (int n), TYPE_INT (int lab)]) (set_RUN_ACTIV a m);
       Some (case u of Resumed m \<Rightarrow> Next m | Unwound oc m \<Rightarrow> Next m)
     }"

definition COUNT_EOP_TICK :: "nat \<Rightarrow> bool" where "COUNT_EOP_TICK eop \<longleftrightarrow> eop \<ge> EOP_CATCH"
definition COUNT_TICK :: "nat \<Rightarrow> bool" where "COUNT_TICK op \<longleftrightarrow> op \<le> OP_G_PUT"

definition op_EXTENDED :: "host \<Rightarrow> Bytecodes \<Rightarrow> activation \<Rightarrow> vm \<Rightarrow> flow option" where
  "op_EXTENDED H bc a m =
     do {
       (eop, a) \<leftarrow> READ_BYTES bc 1 a;
       let m = (if COUNT_EOP_TICK eop then m\<lparr>ticks_remaining := ticks_remaining m - 1\<rparr> else m);
       if eop = EOP_CONTINUE then op_CONTINUE H a m
       else if eop \<in> {EOP_EXIT, EOP_EXIT_ID} then op_EXIT H bc eop a m
       else do { r \<leftarrow> activ_eop H bc eop a; op_flow H r m }
     }"

section \<open>The interpreter loop\<close>

definition exec_op :: "host \<Rightarrow> Bytecodes \<Rightarrow> nat \<Rightarrow> activation \<Rightarrow> vm \<Rightarrow> flow option" where
  "exec_op H bc op a m =
     (if op = OP_INDEXSET then op_INDEXSET H bc a m
      else if op = OP_REF then op_REF H bc a m
      else if op = OP_GET_PROP then op_GET_PROP H a m
      else if op = OP_PUSH_GET_PROP then op_PUSH_GET_PROP H a m
      else if op = OP_PUT_PROP then op_PUT_PROP H a m
      else if op \<in> {OP_FORK, OP_FORK_WITH_ID} then op_FORK H bc op a m
      else if op = OP_CALL_VERB then op_CALL_VERB H a m
      else if op \<in> {OP_RETURN, OP_RETURN0, OP_DONE} then op_RETURN H op a m
      else if op = OP_BI_FUNC_CALL then op_BI_FUNC_CALL H bc a m
      else if op = OP_EXTENDED then op_EXTENDED H bc a m
      else do { r \<leftarrow> activ_op H bc op a; op_flow H r m })"

text \<open>\<^verbatim>\<open>LOAD_STATE_VARIABLES\<close>: the vector that runs.\<close>

definition run_vector :: "vm \<Rightarrow> Bytecodes option" where
  "run_vector m = do { a \<leftarrow> RUN_ACTIV m; activ_vector (root_activ_vector m) (tl (activ_stack m) = []) a }"

text \<open>One turn of the loop.\<close>

definition step :: "host \<Rightarrow> vm \<Rightarrow> flow option" where
  "step H m =
     do {
       a \<leftarrow> RUN_ACTIV m;
       bc \<leftarrow> run_vector m;
       op \<leftarrow> byte_at bc (a_pc a);
       let a = a\<lparr>error_pc := a_pc a, a_pc := a_pc a + 1\<rparr>;
       let m = (if COUNT_TICK op then m\<lparr>ticks_remaining := ticks_remaining m - 1\<rparr> else m);
       if COUNT_TICK op \<and> ticks_remaining m \<le> 0 then map_option after_abort (abort_task H True (set_RUN_ACTIV a m))
       else if COUNT_TICK op \<and> task_timed_out m then map_option after_abort (abort_task H False (set_RUN_ACTIV a m))
       else exec_op H bc op a m
     }"

partial_function (option) run_loop :: "host \<Rightarrow> vm \<Rightarrow> (outcome \<times> Var option \<times> vm) option" where
  "run_loop H m =
     do {
       r \<leftarrow> step H m;
       (case r of Next m \<Rightarrow> run_loop H m | Stop oc v m \<Rightarrow> Some (oc, v, m))
     }"

declare run_loop.simps [code]

text \<open>\<open>run\<close>; a resumed task may begin with an error.\<close>

definition run :: "host \<Rightarrow> error option \<Rightarrow> vm \<Rightarrow> (outcome \<times> Var option \<times> vm) option" where
  "run H resumption_error m =
     (case resumption_error of
        None \<Rightarrow> run_loop H m
      | Some e \<Rightarrow>
          do {
            a \<leftarrow> RUN_ACTIV m;
            r \<leftarrow> vm_result H (Inl e) (set_RUN_ACTIV (a\<lparr>error_pc := a_pc a\<rparr>) m);
            (case r of Next m \<Rightarrow> run_loop H m | Stop oc v m \<Rightarrow> Some (oc, v, m))
          })"

section \<open>Shifts\<close>

lemma HIGHONES_eq: "1 \<le> b \<Longrightarrow> b < 64 \<Longrightarrow> HIGHONES b = - (2 ^ (64 - b))"
proof -
  assume b: "1 \<le> b" "b < 64"
  have "wrap64 ((2 ^ 64 - 1) * 2 ^ (64 - b)) = wrap64 (- (2 ^ (64 - b)))"
  proof (rule wrap64_cong)
    have "(2 ^ 64 - 1) * 2 ^ (64 - b) = - (2 ^ (64 - b)) + 2 ^ (64 - b) * (2 ^ 64 :: int)" by (simp add: algebra_simps)
    then show "(2 ^ 64 - 1) * 2 ^ (64 - b) mod 2 ^ 64 = - (2 ^ (64 - b)) mod (2 ^ 64 :: int)" by (simp only: mod_mult_self1)
  qed
  moreover have "(2 :: int) ^ (64 - b) \<le> 2 ^ 63" using b by (intro power_increasing) simp_all
  then have "num_range (- (2 ^ (64 - b)))" unfolding num_range_def by (intro conjI) (simp, rule order.strict_trans [of _ 0], simp_all)
  ultimately show ?thesis by (simp add: HIGHONES_def wrap64_id)
qed

lemma logical_quotient:
  assumes "1 \<le> b" "b < 64"
  shows "0 \<le> (a :: int) mod 2 ^ 64 div 2 ^ b" "a mod 2 ^ 64 div 2 ^ b < 2 ^ (64 - b)"
proof -
  show "0 \<le> a mod 2 ^ 64 div 2 ^ b" by (simp add: pos_imp_zdiv_nonneg_iff)
  have "a mod 2 ^ 64 < 2 ^ (64 - b) * 2 ^ b" using assms by (simp flip: power_add)
  moreover have "a mod 2 ^ 64 div 2 ^ b * 2 ^ b \<le> a mod 2 ^ 64" by (metis minus_mod_eq_div_mult diff_le_eq le_add_same_cancel1 pos_mod_sign zero_less_numeral zero_less_power)
  ultimately have "a mod 2 ^ 64 div 2 ^ b * 2 ^ b < 2 ^ (64 - b) * 2 ^ b" by linarith
  then show "a mod 2 ^ 64 div 2 ^ b < 2 ^ (64 - b)" by (rule mult_less_cancel_right_pos [THEN iffD1, rotated]) simp
qed

lemma LOGSHIFTR_eq:
  assumes "1 \<le> b" "b < 64"
  shows "LOGSHIFTR a b = a mod 2 ^ 64 div 2 ^ b"
proof -
  let ?x = "a mod 2 ^ 64 div 2 ^ b"
  note x = logical_quotient [OF assms, of a]
  have "(2 :: int) ^ (64 - b) \<le> 2 ^ 63" using assms by (intro power_increasing) simp_all
  then have "wrap64 ?x = ?x" using x by (intro wrap64_id) (simp add: num_range_def)
  moreover have "NOT (- (2 ^ (64 - b))) = (mask (64 - b) :: int)" by (simp add: minus_eq_not_minus_1 mask_eq_exp_minus_1)
  then have "?x AND NOT (- (2 ^ (64 - b))) = ?x" using x by (simp add: take_bit_eq_mask [symmetric] take_bit_int_eq_self)
  ultimately show ?thesis by (simp add: LOGSHIFTR_def HIGHONES_eq [OF assms])
qed

lemma xor_high:
  assumes "0 \<le> x" "x < 2 ^ k"
  shows "x XOR (- (2 ^ k)) = x - (2 ^ k :: int)"
proof -
  have "NOT (mask k) = (- (2 ^ k) :: int)" by (simp add: minus_eq_not_minus_1 mask_eq_exp_minus_1)
  moreover have "x = x AND mask k" using assms by (simp add: take_bit_eq_mask [symmetric] take_bit_int_eq_self)
  then have "x AND NOT (mask k) = 0" by (metis and.assoc and_zero_eq bit.conj_cancel_right)
  ultimately show ?thesis using disjunctive_add_eq_xor [of x "- (2 ^ k)"] by simp
qed

text \<open>C28: the shift macros, which are written because C does not define the right shift of a negative number,
  compute what their names say for every distance from 1 to 63: \<open>EOP_LSHR\<close> the quotient of the unsigned
  64-bit value, \<open>EOP_SHR\<close> the quotient of the signed one, rounded down.\<close>

theorem shift_right:
  assumes "num_range a" "1 \<le> b" "b < 64"
  shows "shift_values EOP_LSHR (TYPE_INT a) (TYPE_INT (int b)) = Some (Inr (TYPE_INT (a mod 2 ^ 64 div 2 ^ b))) \<and>
    shift_values EOP_SHR (TYPE_INT a) (TYPE_INT (int b)) = Some (Inr (TYPE_INT (a div 2 ^ b)))"
proof -
  have n: "shift_values eop (TYPE_INT a) (TYPE_INT (int b)) = Some (Inr (TYPE_INT (if eop = EOP_SHR then SHIFTR a b else LOGSHIFTR a b)))" if "eop \<noteq> EOP_SHL" for eop
    using assms(2,3) that by (simp add: shift_values_def)
  note l = LOGSHIFTR_eq [OF assms(2,3), of a] and q = logical_quotient [OF assms(2,3), of a]
  have "SHIFTR a b = a div 2 ^ b"
  proof (cases "a < 0")
    case True
    have e: "(2 :: int) ^ (64 - b) * 2 ^ b = 2 ^ 64" using assms(3) by (simp flip: power_add)
    have "a mod 2 ^ 64 = a + 2 ^ (64 - b) * 2 ^ b" using True assms(1) unfolding e num_range_def
      by (subst mod_add_self2 [symmetric]) (intro mod_pos_pos_trivial, simp_all)
    then have "a mod 2 ^ 64 div 2 ^ b = a div 2 ^ b + 2 ^ (64 - b)" by (simp only: div_mult_self1) simp
    then show ?thesis using True xor_high [OF q] by (simp add: SHIFTR_def l HIGHONES_eq [OF assms(2,3)])
  next
    case False
    then have "a mod 2 ^ 64 = a" using assms(1) by (intro mod_pos_pos_trivial) (simp_all add: num_range_def)
    then show ?thesis using False by (simp add: SHIFTR_def l)
  qed
  then show ?thesis by (simp add: n l)
qed

theorem shift_right_witness:
  "shift_values EOP_LSHR (TYPE_INT (- 8)) (TYPE_INT 1) = Some (Inr (TYPE_INT 9223372036854775804)) \<and>
    shift_values EOP_SHR (TYPE_INT (- 8)) (TYPE_INT 1) = Some (Inr (TYPE_INT (- 4)))"
  using shift_right [of "- 8" 1] by (simp add: num_range_def)

section \<open>Undefined behaviour\<close>

text \<open>A right shift by 0 bits shifts the mask by the width of its type.\<close>

lemma shift_by_zero: "shift_values EOP_SHR (TYPE_INT a) (TYPE_INT 0) = None"
  by (simp add: shift_values_def)

text \<open>\<^verbatim>\<open>{1}[4294967297..9]\<close> is not checked, and then read as \<^verbatim>\<open>{1}[1..9]\<close>.\<close>

lemma range_read_outside: "range_ref_value (TYPE_LIST [TYPE_INT 1]) (TYPE_INT 4294967297) (TYPE_INT 9) = None"
  by code_simp

text \<open>When a built-in function that was called back cannot suspend the task, \<open>unwind_stack\<close> is called with an error
  code where it expects the list that describes a raised error, and reads its first element.\<close>

lemma suspension_error_read: "raised_code FIN_RAISE (TYPE_ERR e) = None"
  by (simp add: raised_code_def)

end
