(* ===== verification/Run_Task.thy ===== *)
theory Run_Task
  imports Execute
begin

text \<open>
  Starting, resuming and finishing tasks (\<^verbatim>\<open>execute.c\<close>), the options of the server (\<^verbatim>\<open>server.c\<close>), and the built-in
  functions that work on the machine itself.
\<close>

section \<open>Server options\<close>

text \<open>The value of a property, \<^term>\<open>Some None\<close> when there is none.\<close>

definition find_value :: "db \<Rightarrow> Objid \<Rightarrow> string \<Rightarrow> Var option option" where
  "find_value db oid name =
     (if \<not> valid db oid then Some None
      else map_option (\<lambda>(h, v). if ptr h = Null_prop then None else v) (db_find_property db oid name True))"

definition get_server_option :: "db \<Rightarrow> Objid \<Rightarrow> string \<Rightarrow> Var option option" where
  "get_server_option db oid name =
     do {
       r \<leftarrow> find_value db oid ''server_options'';
       r \<leftarrow> (if r = None then find_value db SYSTEM_OBJECT ''server_options'' else Some r);
       (case r of Some (TYPE_OBJ opts) \<Rightarrow> find_value db opts name | _ \<Rightarrow> Some None)
     }"

definition server_flag_option :: "db \<Rightarrow> string \<Rightarrow> bool option" where
  "server_flag_option db name =
     map_option (\<lambda>r. case r of Some v \<Rightarrow> is_true v | None \<Rightarrow> False) (get_server_option db SYSTEM_OBJECT name)"

definition server_int_option :: "db \<Rightarrow> string \<Rightarrow> int \<Rightarrow> int option" where
  "server_int_option db name dflt =
     map_option (\<lambda>r. case r of Some (TYPE_INT n) \<Rightarrow> wrap32 n | _ \<Rightarrow> dflt) (get_server_option db SYSTEM_OBJECT name)"

section \<open>Running a task\<close>

definition DEFAULT_MAX_STACK_DEPTH :: int where "DEFAULT_MAX_STACK_DEPTH = 50"
definition DEFAULT_FG_TICKS :: int where "DEFAULT_FG_TICKS = 30000"
definition DEFAULT_BG_TICKS :: int where "DEFAULT_BG_TICKS = 15000"

definition setup_task_execution_limits :: "int \<Rightarrow> vm \<Rightarrow> vm" where
  "setup_task_execution_limits ticks m = m\<lparr>task_timed_out := False, ticks_remaining := (if ticks < 100 then 100 else ticks)\<rparr>"

text \<open>The part of \<open>run_interpreter\<close> up to the end of \<open>run\<close>.\<close>

definition interpret_task :: "host \<Rightarrow> error option \<Rightarrow> bool \<Rightarrow> vm \<Rightarrow> (outcome \<times> Var option \<times> vm) option" where
  "interpret_task H resumption_error is_fg m =
     do {
       ticks \<leftarrow> (if is_fg then server_int_option (vm_db m) ''fg_ticks'' DEFAULT_FG_TICKS
                else server_int_option (vm_db m) ''bg_ticks'' DEFAULT_BG_TICKS);
       (ret, v, m) \<leftarrow> run H resumption_error ((setup_task_execution_limits ticks m)\<lparr>handler_info := None\<rparr>);
       Some (ret, v, m\<lparr>task_timed_out := False\<rparr>)
     }"

definition current_max_stack_size :: "db \<Rightarrow> int option" where
  "current_max_stack_size db =
     map_option (\<lambda>n. if n < DEFAULT_MAX_STACK_DEPTH then DEFAULT_MAX_STACK_DEPTH else n)
       (server_int_option db ''max_stack_depth'' DEFAULT_MAX_STACK_DEPTH)"

text \<open>The first activation of a task, with the program and vector that \<open>do_task\<close> sets up.\<close>

definition task_vector :: "program \<Rightarrow> nat option \<Rightarrow> Bytecodes option" where
  "task_vector prog which =
     (case which of
        None \<Rightarrow> Some (main_vector (p_code prog))
      | Some i \<Rightarrow> if i < length (fork_vectors (p_code prog)) then Some (fork_vectors (p_code prog) ! i) else None)"

definition do_task :: "program \<Rightarrow> nat option \<Rightarrow> activation \<Rightarrow> vm \<Rightarrow> vm option" where
  "do_task prog which a m =
     do {
       bc \<leftarrow> task_vector prog which;
       depth \<leftarrow> current_max_stack_size (vm_db m);
       Some (m\<lparr>max_stack_size := nat depth, root_activ_vector := which,
          activ_stack := [alloc_rt_stack (a\<lparr>a_prog := prog, a_pc := 0, error_pc := 0, bi_func_pc := 0, temp := TYPE_NONE\<rparr>)
            (bc_max_stack bc)]\<rparr>)
     }"

text \<open>The environment of a task: the player, the caller, the object, the command and its parts.\<close>

definition task_env ::
  "program \<Rightarrow> Objid \<Rightarrow> Objid \<Rightarrow> Objid \<Rightarrow> Objid \<Rightarrow> Objid \<Rightarrow> string \<Rightarrow> string \<Rightarrow> string \<Rightarrow> string \<Rightarrow> string \<Rightarrow> Var list \<Rightarrow> Var list" where
  "task_env prog player caller this dobj iobj dobjstr iobjstr argstr prepstr verb args =
     (let env = fill_in_rt_consts (new_rt_env (num_var_names prog)) (version prog);
          env = set_rt_env_obj env SLOT_PLAYER player;
          env = set_rt_env_obj env SLOT_CALLER caller;
          env = set_rt_env_obj env SLOT_THIS this;
          env = set_rt_env_obj env SLOT_DOBJ dobj;
          env = set_rt_env_obj env SLOT_IOBJ iobj;
          env = set_rt_env_str env SLOT_DOBJSTR dobjstr;
          env = set_rt_env_str env SLOT_IOBJSTR iobjstr;
          env = set_rt_env_str env SLOT_ARGSTR argstr;
          env = set_rt_env_str env SLOT_PREPSTR prepstr;
          env = set_rt_env_str env SLOT_VERB verb
      in set_rt_env_var env SLOT_ARGS (TYPE_LIST args))"

definition task_activation :: "program \<Rightarrow> Var list \<Rightarrow> Objid \<Rightarrow> Objid \<Rightarrow> Objid \<Rightarrow> Objid \<Rightarrow> string \<Rightarrow> string \<Rightarrow> bool \<Rightarrow> activation" where
  "task_activation prog env this player progr loc verb verbname debug =
     \<lparr>a_prog = prog, rt_env = env, rt_stack = [], rt_stack_size = 0, a_pc = 0, error_pc = 0, bi_func_pc = 0, bi_func_id = 0,
      bi_func_data = NULL, temp = TYPE_NONE, a_THIS = TYPE_OBJ this, a_this = this, a_player = player, a_progr = progr,
      a_vloc = loc, a_verb = verb, a_verbname = verbname, a_debug = debug\<rparr>"

text \<open>The machine that \<open>do_server_program_task\<close> starts.\<close>

definition do_server_program_task ::
  "Objid \<Rightarrow> string \<Rightarrow> Var list \<Rightarrow> Objid \<Rightarrow> string \<Rightarrow> program \<Rightarrow> Objid \<Rightarrow> bool \<Rightarrow> Objid \<Rightarrow> string \<Rightarrow> vm \<Rightarrow> vm option" where
  "do_server_program_task this verb args loc verbname prog progr debug player argstr m =
     do_task prog None
       (task_activation prog (task_env prog player (- 1) this NOTHING NOTHING '''' '''' argstr '''' verb args)
          this player progr loc verb verbname debug) m"

definition do_server_verb_task :: "host \<Rightarrow> Objid \<Rightarrow> string \<Rightarrow> Var list \<Rightarrow> verb_handle option \<Rightarrow> Objid \<Rightarrow> string \<Rightarrow> vm \<Rightarrow> vm option" where
  "do_server_verb_task H this verb args h player argstr m =
     do {
       loc \<leftarrow> db_verb_definer h;
       names \<leftarrow> db_verb_names (vm_db m) h;
       address \<leftarrow> db_verb_program (null_program H) (vm_db m) h;
       owner \<leftarrow> db_verb_owner (vm_db m) h;
       flags \<leftarrow> db_verb_flags (vm_db m) h;
       do_server_program_task this verb args loc names (programs m address) owner (flags AND VF_DEBUG \<noteq> 0) player argstr m
     }"

definition do_input_task ::
  "host \<Rightarrow> Objid \<Rightarrow> string \<Rightarrow> string \<Rightarrow> Var list \<Rightarrow> Objid \<Rightarrow> string \<Rightarrow> string \<Rightarrow> Objid \<Rightarrow> string \<Rightarrow> Objid \<Rightarrow> verb_handle option \<Rightarrow> vm \<Rightarrow> vm option" where
  "do_input_task H user verb argstr args dobj dobjstr prepstr iobj iobjstr this vh m =
     do {
       address \<leftarrow> db_verb_program (null_program H) (vm_db m) vh;
       let prog = programs m address;
       owner \<leftarrow> db_verb_owner (vm_db m) vh;
       loc \<leftarrow> db_verb_definer vh;
       names \<leftarrow> db_verb_names (vm_db m) vh;
       flags \<leftarrow> db_verb_flags (vm_db m) vh;
       do_task prog None
         (task_activation prog (task_env prog user user this dobj iobj dobjstr iobjstr argstr prepstr verb args)
            this user owner loc verb names (flags AND VF_DEBUG \<noteq> 0)) m
     }"

definition do_forked_task :: "program \<Rightarrow> Var list \<Rightarrow> activation \<Rightarrow> nat option \<Rightarrow> vm \<Rightarrow> vm option" where
  "do_forked_task prog env a which m = do_task prog which (a\<lparr>rt_env := env\<rparr>) m"

text \<open>\<open>run_interpreter\<close>: when the task was aborted, the verb of the system object that handles it runs; the result is
  the lines that are sent to the player when there is none or it declines. The result of a handler that
  returned from within \<^verbatim>\<open>finally\<close> is not set, and looking at it is undefined.\<close>

definition traceback_lines :: "Var \<Rightarrow> Var list" where
  "traceback_lines args = (case args of TYPE_LIST xs \<Rightarrow> (case last xs of TYPE_LIST ls \<Rightarrow> ls | _ \<Rightarrow> []) | _ \<Rightarrow> [])"

definition run_interpreter :: "host \<Rightarrow> error option \<Rightarrow> bool \<Rightarrow> bool \<Rightarrow> vm \<Rightarrow> (outcome \<times> Var option \<times> Var list \<times> vm) option" where
  "run_interpreter H resumption_error is_fg do_db_tracebacks m =
     do {
       (ret, v, m) \<leftarrow> interpret_task H resumption_error is_fg m;
       (case (if ret = OUTCOME_ABORTED then handler_info m else None) of
          None \<Rightarrow> Some (ret, v, [], m)
        | Some (name, args) \<Rightarrow>
            do {
              (h, db) \<leftarrow> db_find_callable_verb (h_same H name) (vm_db m) SYSTEM_OBJECT name;
              let m = m\<lparr>vm_db := db\<rparr>;
              (handled, m) \<leftarrow>
                (if do_db_tracebacks \<and> h \<noteq> None
                 then do {
                   xs \<leftarrow> (case args of TYPE_LIST xs \<Rightarrow> Some xs | _ \<Rightarrow> None);
                   m \<leftarrow> do_server_verb_task H SYSTEM_OBJECT name xs h (a_player (last (activ_stack m))) '''' m;
                   (hret, r, m) \<leftarrow> interpret_task H None True m;
                   (if hret = OUTCOME_DONE then map_option (\<lambda>v. (is_true v, m)) r else Some (hret = OUTCOME_BLOCKED, m))
                 }
                 else Some (False, m));
              Some (ret, v, if handled then [] else traceback_lines args, m)
            })
     }"

definition resume_from_previous_vm :: "host \<Rightarrow> activation list \<Rightarrow> nat \<Rightarrow> nat option \<Rightarrow> Var \<Rightarrow> vm \<Rightarrow> (outcome \<times> Var option \<times> Var list \<times> vm) option" where
  "resume_from_previous_vm H as n which v m =
     (let m = m\<lparr>activ_stack := as, max_stack_size := n, root_activ_vector := which\<rparr>
      in case v of
           TYPE_ERR e \<Rightarrow> run_interpreter H (Some e) False True m
         | _ \<Rightarrow>
             do {
               u \<leftarrow> push_top v m;
               (case u of Resumed m \<Rightarrow> run_interpreter H None False True m | _ \<Rightarrow> None)
             })"

text \<open>The activation that \<open>bf_eval\<close> runs its program in.\<close>

definition setup_activ_for_eval :: "program \<Rightarrow> vm \<Rightarrow> (bool \<times> vm) option" where
  "setup_activ_for_eval prog m =
     do {
       caller \<leftarrow> RUN_ACTIV m;
       let a = alloc_rt_stack
         (task_activation prog (task_env prog (a_player caller) (a_this caller) NOTHING NOTHING NOTHING '''' '''' '''' '''' '''' [])
           NOTHING (a_player caller) (a_progr caller) NOTHING '''' ''Input to EVAL'' True) (bc_max_stack (main_vector (p_code prog)));
       Some (case push_activation a m of None \<Rightarrow> (False, m) | Some m \<Rightarrow> (True, m))
     }"

section \<open>Built-in functions on the machine\<close>

text \<open>Their arguments have been checked by \<open>call_bi_func\<close>.\<close>

definition bf_raise :: "(Var \<Rightarrow> string) \<Rightarrow> Var \<Rightarrow> nat \<Rightarrow> bi_data \<Rightarrow> Objid \<Rightarrow> vm \<Rightarrow> (bi_package \<times> vm) option" where
  "bf_raise value2str arglist func_next vdata progr m =
     (case arglist of
        TYPE_LIST [code] \<Rightarrow> Some (BI_RAISE code (value2str code) zero, m)
      | TYPE_LIST [code, TYPE_STR msg] \<Rightarrow> Some (BI_RAISE code msg zero, m)
      | TYPE_LIST (code # TYPE_STR msg # v # _) \<Rightarrow> Some (BI_RAISE code msg v, m)
      | _ \<Rightarrow> None)"

definition bf_ticks_left :: "Var \<Rightarrow> nat \<Rightarrow> bi_data \<Rightarrow> Objid \<Rightarrow> vm \<Rightarrow> (bi_package \<times> vm) option" where
  "bf_ticks_left arglist func_next vdata progr m = Some (BI_RETURN (TYPE_INT (ticks_remaining m)), m)"

definition bf_pass :: "host \<Rightarrow> Var \<Rightarrow> nat \<Rightarrow> bi_data \<Rightarrow> Objid \<Rightarrow> vm \<Rightarrow> (bi_package \<times> vm) option" where
  "bf_pass H arglist func_next vdata progr m =
     (case arglist of
        TYPE_LIST args \<Rightarrow>
          do {
            a \<leftarrow> RUN_ACTIV m;
            (e, m) \<leftarrow> call_verb2 H (a_this a) (a_verb a) (a_THIS a) args True m;
            Some (if e = E_NONE then tail_call_pack else error_pack e, m)
          }
      | _ \<Rightarrow> None)"

definition bf_set_task_perms :: "Var \<Rightarrow> nat \<Rightarrow> bi_data \<Rightarrow> Objid \<Rightarrow> vm \<Rightarrow> (bi_package \<times> vm) option" where
  "bf_set_task_perms arglist func_next vdata progr m =
     (case arglist of
        TYPE_LIST (TYPE_OBJ oid # _) \<Rightarrow>
          if progr \<noteq> oid \<and> \<not> is_wizard (vm_db m) progr then Some (error_pack E_PERM, m)
          else do { a \<leftarrow> RUN_ACTIV m; Some (BI_RETURN zero, set_RUN_ACTIV (a\<lparr>a_progr := oid\<rparr>) m) }
      | _ \<Rightarrow> None)"

definition bf_caller_perms :: "Var \<Rightarrow> nat \<Rightarrow> bi_data \<Rightarrow> Objid \<Rightarrow> vm \<Rightarrow> (bi_package \<times> vm) option" where
  "bf_caller_perms arglist func_next vdata progr m =
     Some (BI_RETURN (TYPE_OBJ (case activ_stack m of _ # caller # _ \<Rightarrow> a_progr caller | _ \<Rightarrow> NOTHING)), m)"

definition bf_callers :: "host \<Rightarrow> Var \<Rightarrow> nat \<Rightarrow> bi_data \<Rightarrow> Objid \<Rightarrow> vm \<Rightarrow> (bi_package \<times> vm) option" where
  "bf_callers H arglist func_next vdata progr m =
     (case arglist of
        TYPE_LIST args \<Rightarrow>
          Some (BI_RETURN (TYPE_LIST (make_stack_list H (root_activ_vector m) 0 False
            (case args of v # _ \<Rightarrow> is_true v | [] \<Rightarrow> False) (activ_stack m))), m)
      | _ \<Rightarrow> None)"

text \<open>\<open>bf_suspend\<close>, with the number of the procedure \<open>enqueue_suspended_task\<close> for a time. The argument is cut to
  an \<^verbatim>\<open>int\<close>, and without one it is -1.\<close>

definition bf_suspend :: "(int \<Rightarrow> nat) \<Rightarrow> Var \<Rightarrow> nat \<Rightarrow> bi_data \<Rightarrow> Objid \<Rightarrow> vm \<Rightarrow> (bi_package \<times> vm) option" where
  "bf_suspend enqueue_suspended_task arglist func_next vdata progr m =
     (case arglist of
        TYPE_LIST [] \<Rightarrow> Some (BI_SUSPEND (enqueue_suspended_task (- 1)), m)
      | TYPE_LIST (TYPE_INT n # _) \<Rightarrow>
          Some (if wrap32 n < 0 then error_pack E_INVARG else BI_SUSPEND (enqueue_suspended_task (wrap32 n)), m)
      | _ \<Rightarrow> None)"

definition number_func_by_name :: "host \<Rightarrow> string \<Rightarrow> nat option" where
  "number_func_by_name H name = find (\<lambda>i. mystrcasecmp name (f_name (bf_table H ! i)) = 0) [0..<length (bf_table H)]"

definition bf_call_function :: "host \<Rightarrow> Var \<Rightarrow> nat \<Rightarrow> bi_data \<Rightarrow> Objid \<Rightarrow> vm \<Rightarrow> (bi_package \<times> vm) option" where
  "bf_call_function H arglist func_next vdata progr m =
     do {
       (fnum, p, m) \<leftarrow>
         (if func_next = 1
          then (case arglist of
                  TYPE_LIST (TYPE_STR fname # args) \<Rightarrow>
                    (case number_func_by_name H fname of
                       None \<Rightarrow> Some (0, make_raise_pack E_INVARG ''Unknown built-in function'' (TYPE_STR fname), m)
                     | Some fnum \<Rightarrow> map_option (\<lambda>(p, m). (fnum, p, m))
                         (call_bi_func H fnum (TYPE_LIST (listdelete (TYPE_STR fname # args) 1)) func_next progr vdata m))
                | _ \<Rightarrow> None)
          else (case vdata of
                  Cf_state fnum data \<Rightarrow> map_option (\<lambda>(p, m). (fnum, p, m)) (call_bi_func H fnum arglist func_next progr data m)
                | _ \<Rightarrow> None));
       Some (case p of BI_CALL func_pc data \<Rightarrow> BI_CALL func_pc (Cf_state fnum data) | _ \<Rightarrow> p, m)
     }"

end
