(* ===== verification/Spec2Isabelle.thy ===== *)
theory Spec2Isabelle
  imports Round_Trip Verb_Attributes Db_File Commands Run_Task
begin

text \<open>
  A verification library for the LambdaMOO server of this repository.

  \<^bold>\<open>The program.\<close> The server keeps a database of objects in memory. Objects form a tree of parents
  from which they inherit properties and verbs, and a forest of locations; players type commands,
  which are split into words and matched against verbs; verbs are programs over a small set of
  values. The database is written to a text file and read back when the server starts. The parts
  modelled here, bottom up, with the files under \<^verbatim>\<open>src/\<close> they come from:

  \<^item> values: \<open>Structures\<close> has the tagged union \<^verbatim>\<open>Var\<close> of \<^verbatim>\<open>structures.h\<close>, \<open>Utf\<close> the character encoding
    (\<^verbatim>\<open>utf.c\<close>), \<open>Strings\<close> comparison, verb-name matching, search and binary strings (\<^verbatim>\<open>utils.c\<close>),
    \<open>Values\<close> truth, equality and the list and string surgery (\<^verbatim>\<open>utils.c\<close>, \<^verbatim>\<open>list.c\<close>,
    \<^verbatim>\<open>unparse.c\<close>), \<open>Numbers\<close> the arithmetic and its built-in functions (\<^verbatim>\<open>numbers.c\<close>);
  \<^item> the database: \<open>Db_State\<close> has the records of \<^verbatim>\<open>db_private.h\<close> and the static variables, \<open>Links\<close> the
    list macros, \<open>Attributes\<close> and \<open>Objects\<close> the operations of \<^verbatim>\<open>db_objects.c\<close>, \<open>Hierarchy\<close> and
    \<open>Properties\<close> those of \<^verbatim>\<open>db_properties.c\<close>, \<open>Verbs\<close> those of \<^verbatim>\<open>db_verbs.c\<close> with the verb cache;
  \<^item> commands: \<open>Words\<close> splits a line into words (\<^verbatim>\<open>parse_cmd.c\<close>), \<open>Commands\<close> matches names against the
    objects around a player (\<^verbatim>\<open>match.c\<close>) and divides a line into verb, objects and preposition;
  \<^item> programs: \<open>Ast\<close> has the syntax trees, opcodes and compiled vectors (\<^verbatim>\<open>ast.h\<close>, \<^verbatim>\<open>opcode.h\<close>, \<^verbatim>\<open>program.h\<close>),
    \<open>Code_Gen\<close> the compiler (\<^verbatim>\<open>code_gen.c\<close>), \<open>Decompile\<close> the decompiler (\<^verbatim>\<open>decompile.c\<close>);
  \<^item> the machine: \<open>Machine\<close> has activations, verb calls and the dispatch of built-in functions (\<^verbatim>\<open>execute.c\<close>,
    \<^verbatim>\<open>eval_env.c\<close>, \<^verbatim>\<open>functions.c\<close>), \<open>Unwind\<close> the raising of errors, \<open>Execute\<close> the opcodes and \<open>Run_Task\<close>
    the start of tasks; what they call and is not modelled is the record \<open>host\<close>;
  \<^item> the file: \<open>Db_Io\<close> (\<^verbatim>\<open>db_io.c\<close>) reads and writes single items, \<open>Db_File\<close> objects and the whole
    database, \<open>Validate\<close> checks the hierarchies after loading (\<^verbatim>\<open>db_file.c\<close>).

  \<^bold>\<open>State and effects.\<close> The database is the record \<open>db\<close>; an operation takes it and returns it
  changed. \<open>None\<close> is what the C program cannot recover from: a panic, a null or dangling pointer, a
  loop that never ends. Errors the code handles are values. Loops over linked data are
  \<^verbatim>\<open>partial_function (option)\<close>, so that ending is a theorem; no fuel is used anywhere. 64-bit, 32-bit
  and 16-bit integers are \<open>int\<close> with the wrap-around written out (\<open>wrap64\<close>, \<open>wrap32\<close>, \<open>to_short\<close>);
  hashes and doubles are words. Reference counts and storage are not part of the model, and the
  arithmetic of doubles is the parameter \<open>fpu\<close>.

  \<^bold>\<open>What is shown.\<close>
  \<^item> \<open>Property_Laws\<close>, \<open>Property_Changes\<close>, \<open>Chparent\<close>, \<open>Object_Laws\<close> and \<open>Db_Steps\<close> give, for every operation,
    its exact effect and that it keeps the invariant \<open>wf_db\<close>; \<open>Verb_Laws\<close> shows that the verb cache
    answers like a search, through the contract \<open>memo\<close> of the theory \<open>Memo\<close>. \<open>Transitions\<close> puts the
    operations together as a step relation: every reachable database satisfies the invariant
    and every enabled operation ends. \<open>Samples\<close> is a reachable database for the witnesses.
  \<^item> The locales are \<open>link_fields\<close> (the fields of a linked list with back pointers; interpreted on
    children and on contents) and \<open>memo\<close> (interpreted on the verb cache).
  \<^item> \<open>Verb_Attributes\<close> has the attributes of a verb, packed into one word, and the prepositions.
  \<^item> \<open>validate_decides\<close> shows that the check of a loaded database, with its search for cycles by two
    pointers, decides whether the hierarchies are sound, and \<open>dump_load\<close> that a database survives
    being written and read.
  \<^item> \<open>Code_Sequences\<close> states, as inductive rules, which code stands for which tree, with places in
    place of addresses and with the depth of the stack. \<open>Decompile_Laws\<close> and \<open>Decompile_Stmts\<close> show that the
    decompiler turns such code back into the tree, \<open>Code_Gen_Laws\<close> to \<open>Code_Gen_Top\<close> that the compiler emits
    it: labels are defined through chains of fixups, and the sizes chosen at the end hold every
    reference. \<open>Round_Trip\<close> composes the two and shows what happens beyond the limits.
  \<^item> The theories of values end with their own properties: round trips of characters, numbers and binary
    strings, the laws of list surgery, exponentiation by squaring, and so on.

  \<^bold>\<open>Not modelled.\<close> The parser (\<^verbatim>\<open>parser.y\<close>), the search for the
  line of a program counter (\<^verbatim>\<open>decompile.c\<close>), the saving of suspended activations (\<^verbatim>\<open>execute.c\<close>), task queues and
  connections (\<^verbatim>\<open>tasks.c\<close>, \<^verbatim>\<open>server.c\<close>, the network files), the built-in functions
  that check permissions before they call the database (\<^verbatim>\<open>objects.c\<close>, \<^verbatim>\<open>property.c\<close>, \<^verbatim>\<open>verbs.c\<close>), waifs
  beyond the hook for renamed properties (\<^verbatim>\<open>waif.c\<close>), memory management, logging, and the vendored
  libraries.
\<close>

section \<open>The database as a whole\<close>

lemma sample_wf: "wf_db (sample_at 7)" "inv_db (sample_at 7)"
  using reachable_inv [OF sample_reachable] inv_dbD(1) by simp_all

lemma sample_objects: "\<exists>x. objects (sample_at 7) 0 = Some x" "\<exists>x. objects (sample_at 7) 1 = Some x"
    "\<exists>x. objects (sample_at 7) 2 = Some x"
  using sample_ids(5) by auto





text \<open>C3: the verb cache is invisible: in every reachable database, whatever was searched for
  and changed before, the cached search for a callable verb returns what the specification says,
  the first executable verb accepting the word on the object or, after it, its ancestors, and it
  changes nothing but the cache. The word must not be empty or contain blanks or stars, for which
  \<open>verbcasecmp\<close> depends on the identity of the string object.\<close>

theorem verb_cache_transparent:
  assumes "reachable db" "objects db i = Some x" "plain_word w" "same_ok (objects db) w same"
  shows "\<exists>db'. db_find_callable_verb same db i w = Some (callable (objects db) i w, db') \<and> cache_only db db'"
proof -
  have i: "objects db i \<noteq> None" using assms(2) by simp
  obtain h db' where "db_find_callable_verb same db i w = Some (h, db')" "cache_only db db'" "vc_ok db'"
      "plain_word w \<Longrightarrow> h = callable (objects db) i w"
    by (rule find_callable_result [OF inv_dbD(1,2) [OF reachable_inv [OF assms(1)]] i assms(4)]) blast
  then show ?thesis using assms(3) by blast
qed

theorem verb_cache_transparent_witness:
  "\<exists>db'. db_find_callable_verb (\<lambda>_. False) (sample_at 7) 1 ''LOOK'' = Some (Some (0, 0), db') \<and>
    cache_only (sample_at 7) db'"
proof -
  obtain x where x: "objects (sample_at 7) 1 = Some x" using sample_objects(2) by blast
  have "callable (objects (sample_at 7)) 1 ''LOOK'' = Some (0, 0)" by code_simp
  moreover have "plain_word ''LOOK''" by (simp add: plain_word_def)
  ultimately show ?thesis
    using verb_cache_transparent [OF sample_reachable x, of "''LOOK''" "\<lambda>_. False"] by (simp add: same_ok_def)
qed

section \<open>Properties\<close>

definition ancestors :: "heap \<Rightarrow> Objid \<Rightarrow> Objid list" where
  "ancestors H i = (case ll_members o_parent i H of Some xs \<Rightarrow> xs | None \<Rightarrow> [])"

definition property_named :: "heap \<Rightarrow> Objid \<Rightarrow> string \<Rightarrow> (Objid \<times> propdef) option" where
  "property_named H i name = find (\<lambda>k. key_name k = folded name) (visible H (ancestors H i))"

lemma ancestors_eq: "ancestry H i xs \<Longrightarrow> ancestors H i = xs"
  by (simp add: ancestors_def ll_members_links)

text \<open>C8: \<open>db_find_property\<close> finds a property exactly when one of that name, ignoring case, is
  defined on the object or an ancestor; the handle names its definer and the object's slot for it,
  and the value is that of the nearest object on the way up whose slot is not clear.\<close>

theorem property_lookup:
  assumes "wf_db db" "objects db i = Some x" "\<not> builtin_name name"
  shows "case property_named (objects db) i name of
      None \<Rightarrow> db_find_property db i name True = Some (\<lparr>built_in = BP_NONE, definer = NOTHING, ptr = Null_prop\<rparr>, None)
    | Some k \<Rightarrow> \<exists>n v. db_find_property db i name True =
          Some (\<lparr>built_in = BP_NONE, definer = fst k, ptr = Slot_prop i n\<rparr>, Some v) \<and>
        n < length (o_propval x) \<and> pslot (objects db) i k = Some (o_propval x ! n) \<and>
        inherited (objects db) (ancestors (objects db) i) k v"
proof -
  let ?H = "objects db"
  have wf: "wf_objects db" using wf_dbD(1) [OF assms(1)] .
  obtain xs where xs: "ancestry ?H i xs" using wf_tree_ancestry [OF wf_dbD(5) [OF assms(1)], of i] assms(2) by auto
  note wp = wf_propsD [OF wf_objectsD(3) [OF wf] assms(2) xs]
  have dom: "dom (pslot ?H i) = set (visible ?H xs)" by (rule dom_pslot [OF wp assms(2) xs])
  show ?thesis
  proof (cases "property_named ?H i name")
    case None
    then have "\<forall>k \<in> dom (pslot ?H i). key_name k \<noteq> folded name"
      unfolding dom by (auto simp: property_named_def ancestors_eq [OF xs] find_None_iff)
    then show ?thesis using None find_property_eq(1) [OF wf assms(2) xs assms(3)] by simp
  next
    case (Some k)
    then have k: "k \<in> dom (pslot ?H i)" "key_name k = folded name"
      unfolding dom by (auto simp: property_named_def ancestors_eq [OF xs] find_Some_iff)
    show ?thesis
      using Some find_property_eq(2) [OF wf assms(2) xs assms(3) k, of True] pslot_nth [OF wp assms(2) xs]
      by (auto simp: ancestors_eq [OF xs])
  qed
qed

theorem property_lookup_witness:
  "\<exists>n v. db_find_property (sample_at 7) 1 ''SIZE'' True =
    Some (\<lparr>built_in = BP_NONE, definer = 0, ptr = Slot_prop 1 n\<rparr>, Some v)"
proof -
  obtain x where x: "objects (sample_at 7) 1 = Some x" using sample_objects(2) by blast
  have nb: "\<not> builtin_name ''SIZE''" by code_simp
  have k: "property_named (objects (sample_at 7)) 1 ''SIZE'' = Some (0, dbpriv_new_propdef ''size'')" by code_simp
  show ?thesis using property_lookup [OF sample_wf(1) x nb] k by auto
qed



text \<open>C10: deleting a property that the object defines removes its slot from the object and all
  its descendants and leaves every other slot alone; a property that is not defined on the object
  itself cannot be deleted there.\<close>

theorem property_delete:
  assumes "wf_db db" "objects db r = Some x"
  shows "if has_def (objects db) name r
    then \<exists>db' p. db_delete_propdef db r name = Some (True, db') \<and> p \<in> set (pl (o_propdefs x)) \<and>
      folded (pd_name p) = folded name \<and> props_only db db' \<and>
      (\<forall>d. pslot (objects db') d = (pslot (objects db) d)((r, p) := None))
    else db_delete_propdef db r name = Some (False, db)"
proof (cases "has_def (objects db) name r")
  case True
  then show ?thesis using delete_propdef_some [OF wf_dbD(1) [OF assms(1)] assms(2) True] by (simp only: if_True) blast
next
  case False
  then show ?thesis using delete_propdef_none [OF wf_dbD(1) [OF assms(1)] assms(2) False] by simp
qed

theorem property_delete_witness:
  "\<exists>db' p. db_delete_propdef (sample_at 7) 0 ''Size'' = Some (True, db') \<and>
    pslot (objects db') 1 (0, p) = None \<and> folded (pd_name p) = folded ''size''"
proof -
  obtain x where x: "objects (sample_at 7) 0 = Some x" using sample_objects(1) by blast
  have "has_def (objects (sample_at 7)) ''Size'' 0" by code_simp
  then obtain db' p where "db_delete_propdef (sample_at 7) 0 ''Size'' = Some (True, db')"
      "folded (pd_name p) = folded ''Size''" "\<forall>d. pslot (objects db') d = (pslot (objects (sample_at 7)) d)((0, p) := None)"
    using property_delete [OF sample_wf(1) x, of "''Size''"] by auto
  moreover have "folded ''Size'' = folded ''size''" by code_simp
  ultimately show ?thesis by auto
qed



section \<open>The hierarchies\<close>

text \<open>C4: \<open>db_change_parent\<close> refuses the new parent exactly when a property defined on the
  new parent or above has the name of one defined on the object or below. Otherwise the object
  becomes the last child of its new parent and leaves its old one, all other child lists keep
  their elements and order; every descendant keeps its slots for properties defined at or below the
  object and for those that the old and the new ancestors share, loses those of the old
  ancestors, and inherits a clear slot for each property new to it.\<close>

theorem change_parent:
  assumes "wf_db db" "objects db r = Some x" "np = NOTHING \<or> objects db np \<noteq> None" "\<not> desc (objects db) r np"
  shows "if chparent_clash (objects db) r np then db_change_parent db r np = Some (False, db)
    else \<exists>db'. db_change_parent db r np = Some (True, db') \<and>
      field o_parent (objects db') = (field o_parent (objects db))(r \<mapsto> np) \<and>
      (\<forall>w ys. children (objects db) w ys \<longrightarrow>
        children (objects db') w (filter (\<lambda>c. c \<noteq> r) ys @ (if w = np then [r] else []))) \<and>
      (\<forall>d k. pslot (objects db') d k =
        (if desc (objects db) r d
         then if desc (objects db) r (fst k) \<or> pslot (objects db) np k \<noteq> None \<and> pslot (objects db) d k \<noteq> None
              then pslot (objects db) d k
              else map_option (inherit (the (objects db d))) (pslot (objects db) np k)
         else pslot (objects db) d k))"
proof (cases "chparent_clash (objects db) r np")
  case True
  then show ?thesis using change_parent_clash [OF wf_dbD(1) [OF assms(1)] assms(2,3)] by simp
next
  case False
  then show ?thesis
    using change_parent_ok [OF wf_dbD(1) [OF assms(1)] assms(2,3,4) False] by (simp only: if_False) blast
qed

theorem change_parent_witness:
  "\<exists>db'. db_change_parent (sample_at 7) 2 1 = Some (True, db') \<and> children (objects db') 1 [2]"
proof -
  obtain x where x: "objects (sample_at 7) 2 = Some x" using sample_objects(3) by blast
  have m: "ll_members o_parent 1 (objects (sample_at 7)) = Some [1, 0]"
    "map_option o_child (objects (sample_at 7) 1) = Some (- 1)"
    "map_option fst (db_change_parent (sample_at 7) 2 1) = Some True" by code_simp+
  have nd: "\<not> desc (objects (sample_at 7)) 2 1" using m(1) by (simp add: desc_members)
  have np: "(1 :: int) = NOTHING \<or> objects (sample_at 7) 1 \<noteq> None" using sample_objects(2) by simp
  have c: "children (objects (sample_at 7)) 1 []" using m(2) by (auto simp: listed_def)
  note cp = change_parent [OF sample_wf(1) x np nd]
  have "\<not> chparent_clash (objects (sample_at 7)) 2 1" using cp m(3) by auto
  then obtain db' where "db_change_parent (sample_at 7) 2 1 = Some (True, db')"
      "\<forall>w ys. children (objects (sample_at 7)) w ys \<longrightarrow>
        children (objects db') w (filter (\<lambda>c. c \<noteq> 2) ys @ (if w = 1 then [2] else []))"
    using cp by auto
  then show ?thesis using c by fastforce
qed



text \<open>C14: \<open>db_create_object\<close> uses the next number, never one that is in use, and adds an
  object with no parent, children, place, verbs or properties; no existing object and no property
  slot changes.\<close>

theorem create_object:
  assumes "wf_db db"
  shows "\<exists>db'. db_create_object mem db = Some (num_objects db, db') \<and> wf_db db' \<and>
    objects db (num_objects db) = None \<and>
    objects db' = (objects db)(num_objects db \<mapsto> fresh_object mem (num_objects db)) \<and>
    num_objects db' = num_objects db + 1 \<and> pslot (objects db') = pslot (objects db) \<and> all_users db' = all_users db"
  by (rule create_object_result [OF assms, of mem]) blast

theorem create_object_witness:
  "\<exists>db'. db_create_object blank (sample_at 7) = Some (3, db') \<and> wf_db db'"
proof -
  have "num_objects (sample_at 7) = 3" by code_simp
  then show ?thesis using create_object [OF sample_wf(1), of blank] by auto
qed

text \<open>C13: \<open>db_destroy_object\<close> panics unless the object exists and has no location, contents,
  parent or children; otherwise it removes exactly that object, from the list of users too, and
  every other object keeps its slots.\<close>

theorem destroy_object:
  assumes "wf_db db"
  shows "case objects db oid of
      None \<Rightarrow> db_destroy_object db oid = None
    | Some x \<Rightarrow>
        if barren x
        then \<exists>db'. db_destroy_object db oid = Some db' \<and> wf_db db' \<and> objects db' = (objects db)(oid := None) \<and>
          num_objects db' = num_objects db \<and> (\<forall>i. i \<noteq> oid \<longrightarrow> pslot (objects db') i = pslot (objects db) i) \<and>
          set (all_users db') = set (all_users db) - {TYPE_OBJ oid}
        else db_destroy_object db oid = None"
proof (cases "objects db oid")
  case None
  then show ?thesis using destroy_object_panics [OF assms, of oid] by simp
next
  case (Some x)
  show ?thesis
  proof (cases "barren x")
    case True
    then have b: "o_location x = NOTHING" "o_contents x = NOTHING" "o_parent x = NOTHING" "o_child x = NOTHING"
      by (simp_all add: barren_def)
    have "\<exists>db'. db_destroy_object db oid = Some db' \<and> wf_db db' \<and> objects db' = (objects db)(oid := None) \<and>
        num_objects db' = num_objects db \<and> (\<forall>i. i \<noteq> oid \<longrightarrow> pslot (objects db') i = pslot (objects db) i) \<and>
        set (all_users db') = set (all_users db) - {TYPE_OBJ oid}"
      by (rule destroy_object_result [OF assms Some b]) blast
    then show ?thesis using Some True by simp
  next
    case False
    then show ?thesis using Some destroy_object_panics [OF assms, of oid] by (simp add: barren_def)
  qed
qed

theorem destroy_object_witness:
  "db_destroy_object (sample_at 7) 1 = None"
proof -
  have c: "map_option o_contents (objects (sample_at 7) 1) = Some 2" by code_simp
  then obtain x where "objects (sample_at 7) 1 = Some x" "o_contents x = 2" by auto
  then show ?thesis using destroy_object [OF sample_wf(1), of 1] by (simp add: barren_def)
qed

text \<open>C15: the list of users follows the user flag: setting or clearing a flag of an object
  changes exactly that bit, and the object is on the list exactly when its user bit is set.\<close>

theorem flags_and_users:
  assumes "wf_db db" "objects db oid = Some x"
  shows "(\<exists>db'. db_set_object_flag db oid f = Some db' \<and> wf_db db' \<and>
      objects db' = (objects db)(oid \<mapsto> x\<lparr>o_flags := o_flags x OR flag_mask f\<rparr>) \<and>
      (TYPE_OBJ oid \<in> set (all_users db') \<longleftrightarrow> f = FLAG_USER \<or> bit (o_flags x) FLAG_USER)) \<and>
    (\<exists>db'. db_clear_object_flag db oid f = Some db' \<and> wf_db db' \<and>
      objects db' = (objects db)(oid \<mapsto> x\<lparr>o_flags := o_flags x AND NOT (flag_mask f)\<rparr>) \<and>
      (TYPE_OBJ oid \<in> set (all_users db') \<longleftrightarrow> f \<noteq> FLAG_USER \<and> bit (o_flags x) FLAG_USER))"
proof -
  have member: "TYPE_OBJ oid \<in> set (all_users db') \<longleftrightarrow> bit (o_flags y) FLAG_USER"
    if "wf_db db'" "objects db' oid = Some y" for db' y
    using wf_dbD(3) [OF that(1)] that(2) is_user_eq [OF wf_dbD(4) [OF that(1)], of oid]
    by (auto simp: users_ok_def FLAG_USER_def)
  obtain db1 where s: "db_set_object_flag db oid f = Some db1"
      "objects db1 = (objects db)(oid \<mapsto> x\<lparr>o_flags := o_flags x OR flag_mask f\<rparr>)" "wf_db db1"
    using set_flag_result [OF wf_dbD(4,3) [OF assms(1)] assms(2)] wf_set_flag [OF assms, of f] by (metis option.inject)
  obtain db2 where c: "db_clear_object_flag db oid f = Some db2"
      "objects db2 = (objects db)(oid \<mapsto> x\<lparr>o_flags := o_flags x AND NOT (flag_mask f)\<rparr>)" "wf_db db2"
    using clear_flag_result [OF wf_dbD(4,3) [OF assms(1)] assms(2)] wf_clear_flag [OF assms, of f] by (metis option.inject)
  show ?thesis
    using s c member [OF s(3)] member [OF c(3)] by (auto simp: bit_set_flag bit_clear_flag)
qed

theorem flags_and_users_witness:
  "\<exists>db'. db_set_object_flag (sample_at 7) 2 FLAG_USER = Some db' \<and> TYPE_OBJ 2 \<in> set (all_users db')"
proof -
  obtain x where x: "objects (sample_at 7) 2 = Some x" using sample_objects(3) by blast
  show ?thesis using flags_and_users [OF sample_wf(1) x, of FLAG_USER] by auto
qed

section \<open>The database file\<close>

lemma sample_domain: "objects (sample_at 7) i = Some x \<Longrightarrow> i \<in> {0, 1, 2}"
proof -
  assume "objects (sample_at 7) i = Some x"
  then have "0 \<le> i" "i < num_objects (sample_at 7)" using wf_tableD [OF wf_dbD(4) [OF sample_wf(1)]] by blast+
  moreover have "num_objects (sample_at 7) = 3" by code_simp
  ultimately show ?thesis by auto
qed

text \<open>C7: \<open>validate_hierarchies\<close> always ends, whatever the object numbers of the file it has read lead
  to, and accepts the database exactly when, with dangling object numbers replaced by
  \<^verbatim>\<open>NOTHING\<close>, both hierarchies are sound: the list of children (contents) of every object ends and
  holds exactly the objects whose parent (location) it is, and no object is its own ancestor or
  contains itself. The accepted database differs from the one read only by these replacements
  and the two temporary flags.\<close>


theorem validate_decides:
  assumes "wf_table db"
  shows "\<exists>db'. validate_hierarchies db = Some (hierarchies_ok (objects (repaired db)), db') \<and>
    (hierarchies_ok (objects (repaired db)) \<longrightarrow> db' = unmarked (repaired db))"
  by (rule validate_result [OF assms])

theorem validate_decides_witness:
  "hierarchies_ok (objects (repaired (sample_at 7))) \<and>
    validate_hierarchies (sample_at 7) = Some (True, unmarked (repaired (sample_at 7)))"
proof -
  have "map_option fst (validate_hierarchies (sample_at 7)) = Some True" by code_simp
  then show ?thesis using validate_decides [OF wf_dbD(4) [OF sample_wf(1)]] by auto
qed

text \<open>A C library and a parser for the witness: a double is printed as the number of its bit pattern,
  and a program is the line with its number.\<close>

definition plain_formats :: formats where
  "plain_formats = \<lparr>io_float = \<lambda>d. decimal (unat d), io_strtod = \<lambda>s. (word_of_int (digits_value 0 (takeWhile isdigit s)), []),
     io_high = \<lambda>_. 0, io_waif = \<lambda>_. [], io_read_waif = \<lambda>_. None\<rparr>"

definition plain_programs :: programs where
  "plain_programs = \<lparr>pg_parse = \<lambda>_ s. Some (nat (digits_value 0 (takeWhile isdigit s))), pg_unparse = \<lambda>p. [decimal p]\<rparr>"

lemma decimal_line: "takeWhile isdigit (decimal n @ [NL]) = decimal n" "storable_string (decimal n)"
    "\<not> isspace (hd0 (decimal n))" "hd0 (decimal n) \<noteq> CHR ''.''"
proof -
  have d: "list_all isdigit (decimal n)" "decimal n \<noteq> []" using decimal_digits [of n] by auto
  show "takeWhile isdigit (decimal n @ [NL]) = decimal n"
    using d(1) by (simp add: list_all_iff takeWhile_append isdigit_def)
  show "storable_string (decimal n)" using decimal_bytes [of NUL n] decimal_bytes [of NL n]
    by (auto simp: storable_string_def isdigit_def)
  show "\<not> isspace (hd0 (decimal n))" "hd0 (decimal n) \<noteq> CHR ''.''"
    using d by (cases "decimal n"; auto simp: isspace_def isdigit_def)+
qed

lemma plain_io: "float_io plain_formats" "program_io plain_programs"
proof -
  have "length (decimal (unat d)) < 39" for d :: double
  proof -
    have "unat d < 2 ^ LENGTH(64)" by (rule unsigned_less)
    then show ?thesis using decimal_length [of "unat d" 20] by auto
  qed
  then show "float_io plain_formats"
    using decimal_line decimal_digits by (simp add: float_io_def plain_formats_def)
  show "program_io plain_programs"
    using decimal_line decimal_digits by (simp add: program_io_def plain_programs_def)
qed


lemma sample_storable: "storable_db (sample_at 7)" "settled (sample_at 7)"
proof -
  let ?H = "objects (sample_at 7)"
  have "case ?H 0 of Some x \<Rightarrow> storable_object x | None \<Rightarrow> False" "case ?H 1 of Some x \<Rightarrow> storable_object x | None \<Rightarrow> False"
      "case ?H 2 of Some x \<Rightarrow> storable_object x | None \<Rightarrow> False"
    by code_simp+
  then have "\<forall>i x. ?H i = Some x \<longrightarrow> storable_object x" using sample_domain by fastforce
  moreover have "int_range (num_objects (sample_at 7))" "int_range (int (length (all_users (sample_at 7))))"
      "int_range (int (count_programs (sample_at 7)))"
    by code_simp+
  ultimately show "storable_db (sample_at 7)" by (simp add: storable_db_def)
  let ?ok = "\<lambda>x. (o_location x = NOTHING \<longrightarrow> o_next x = NOTHING) \<and> (o_parent x = NOTHING \<longrightarrow> o_sibling x = NOTHING) \<and>
     o_flags x AND NOT temp_mask = o_flags x"
  have "case ?H 0 of Some x \<Rightarrow> ?ok x | None \<Rightarrow> False" "case ?H 1 of Some x \<Rightarrow> ?ok x | None \<Rightarrow> False"
      "case ?H 2 of Some x \<Rightarrow> ?ok x | None \<Rightarrow> False"
    by code_simp+
  then have "\<forall>i x. ?H i = Some x \<longrightarrow> ?ok x" using sample_domain by fastforce
  moreover have "ll_members o_location 0 ?H = Some [0]" "ll_members o_location 1 ?H = Some [1]"
      "ll_members o_location 2 ?H = Some [2, 1]"
    by code_simp+
  then have "\<forall>i x. ?H i = Some x \<longrightarrow> ends o_location ?H i"
    using sample_domain ll_members_Some unfolding ends_def by blast
  ultimately show "settled (sample_at 7)" unfolding settled_def by blast
qed


end
